(* ===== verification/Prelude.thy ===== *)
theory Prelude
  imports Main "HOL-Library.Word" "HOL-Library.Monad_Syntax" "HOL-Library.State_Monad"
begin

text \<open>
  The vocabulary every component shares.

  \<^item> Machine types of an LP64 target: \<open>byte\<close> is \<^verbatim>\<open>uint8_t\<close>, \<open>size_t\<close> and \<open>ptr\<close> are 64-bit
    words, so address arithmetic and length arithmetic wrap as they do in C.
  \<^item> A flat byte memory (\<open>memory\<close>) with bulk reads and writes, and the set \<open>buf p n\<close> of the
    addresses of an \<open>n\<close>-byte buffer at \<open>p\<close>.
  \<^item> Small additions to the state monad of the library (\<open>gets\<close>, \<open>modify\<close>) and the two
    judgements the component proofs are built from: \<open>keeps f m\<close> (running \<open>m\<close> leaves the
    observation \<open>f\<close> of the state alone) and \<open>valid P m Q\<close> (a Hoare triple).
\<close>

unbundle bit_operations_syntax

named_theorems run_simps "rewrite rules that execute a monadic action"
named_theorems keeps_intros "rules that show that an action keeps an observation"
named_theorems confined_intros "rules that show that an action writes only inside a set of addresses"
named_theorems mem_simps "rewrite rules for the flat byte memory"

section \<open>Machine types\<close>

type_synonym byte = "8 word"
type_synonym ptr = "64 word"
type_synonym size_t = "64 word"
type_synonym memory = "ptr \<Rightarrow> byte"

abbreviation (input) NULL :: ptr where
  "NULL \<equiv> 0"

section \<open>Flat byte memory\<close>

definition buf :: "ptr \<Rightarrow> size_t \<Rightarrow> ptr set" where
  "buf p n = {a. a - p < n}"

definition mem_read :: "memory \<Rightarrow> ptr \<Rightarrow> size_t \<Rightarrow> byte list" where
  "mem_read m p n = map (\<lambda>i. m (p + of_nat i)) [0..<unat n]"

definition mem_write :: "memory \<Rightarrow> ptr \<Rightarrow> byte list \<Rightarrow> memory" where
  "mem_write m p bs = (\<lambda>a. if unat (a - p) < length bs then bs ! unat (a - p) else m a)"

text \<open>The part of memory outside a set of addresses.\<close>

definition outside :: "ptr set \<Rightarrow> memory \<Rightarrow> memory" where
  "outside A m = (\<lambda>a. if a \<in> A then 0 else m a)"

text \<open>A buffer that does not wrap around the end of the address space.\<close>

definition no_wrap :: "ptr \<Rightarrow> size_t \<Rightarrow> bool" where
  "no_wrap p n \<longleftrightarrow> unat p + unat n < 2 ^ 64"

section \<open>State monad actions\<close>

abbreviation ret :: "'a \<Rightarrow> ('s, 'a) state" where
  "ret \<equiv> State_Monad.return"

definition gets :: "('s \<Rightarrow> 'a) \<Rightarrow> ('s, 'a) state" where
  "gets f = State (\<lambda>s. (f s, s))"

definition modify :: "('s \<Rightarrow> 's) \<Rightarrow> ('s, unit) state" where
  "modify f = State (\<lambda>s. ((), f s))"

definition keeps :: "('s \<Rightarrow> 'v) \<Rightarrow> ('s, 'a) state \<Rightarrow> bool" where
  "keeps f m \<longleftrightarrow> (\<forall>s. f (snd (run_state m s)) = f s)"

definition valid :: "('s \<Rightarrow> bool) \<Rightarrow> ('s, 'a) state \<Rightarrow> ('a \<Rightarrow> 's \<Rightarrow> bool) \<Rightarrow> bool" where
  "valid P m Q \<longleftrightarrow> (\<forall>s. P s \<longrightarrow> (case run_state m s of (r, s') \<Rightarrow> Q r s'))"

section \<open>Lemmas: memory\<close>

lemma length_mem_read [simp]: "length (mem_read m p n) = unat n"
  by (simp add: mem_read_def)

lemma unat_of_nat_small:
  assumes "k < 2 ^ LENGTH('w :: len)"
  shows "unat (of_nat k :: 'w word) = k"
  using assms by (simp only: unat_of_nat mod_less)

lemma unat_of_nat_index: "i < unat (n :: size_t) \<Longrightarrow> unat (of_nat i :: size_t) = i"
  using unsigned_less [where 'a = nat, of n] by (intro unat_of_nat_small) simp

lemma nth_mem_read [simp]: "i < unat n \<Longrightarrow> mem_read m p n ! i = m (p + of_nat i)"
  by (simp add: mem_read_def)

lemma mem_read_zero [simp]: "mem_read m p 0 = []"
  by (simp add: mem_read_def)

lemma mem_write_Nil [simp]: "mem_write m p [] = m"
  by (simp add: mem_write_def)

lemma in_bufI: "i < unat n \<Longrightarrow> p + of_nat i \<in> buf p n"
  by (simp add: buf_def word_less_nat_alt unat_of_nat_index)

lemma buf_zero [simp]: "buf p 0 = {}"
  by (simp add: buf_def)

lemma mem_read_write_same [mem_simps]:
  assumes "length bs = unat n"
  shows "mem_read (mem_write m p bs) p n = bs"
  by (rule nth_equalityI) (auto simp: assms mem_write_def unat_of_nat_index)

lemma mem_write_outside:
  assumes "a \<notin> buf p n" "length bs \<le> unat n"
  shows "mem_write m p bs a = m a"
  using assms by (auto simp: mem_write_def buf_def word_less_nat_alt)

lemma mem_read_cong:
  assumes "\<And>a. a \<in> buf p n \<Longrightarrow> m a = m' a"
  shows "mem_read m p n = mem_read m' p n"
  by (rule nth_equalityI) (auto intro: assms in_bufI)

lemma mem_read_write_disjoint:
  assumes "buf q k \<inter> buf p n = {}" "length bs \<le> unat n"
  shows "mem_read (mem_write m p bs) q k = mem_read m q k"
  by (rule mem_read_cong) (use assms in \<open>auto intro!: mem_write_outside\<close>)

lemma mem_write_read_back [mem_simps]: "mem_write m p (mem_read m p n) = m"
proof
  fix a
  show "mem_write m p (mem_read m p n) a = m a"
    by (simp add: mem_write_def)
qed

text \<open>Without wrap-around a buffer is the interval of addresses one expects.\<close>

lemma in_buf_no_wrap:
  assumes "no_wrap p n"
  shows "a \<in> buf p n \<longleftrightarrow> unat p \<le> unat a \<and> unat a < unat p + unat n"
proof (cases "p \<le> a")
  case True
  then show ?thesis
    by (simp add: buf_def word_less_nat_alt word_le_nat_alt unat_sub less_diff_conv2
        add.commute)
next
  case False
  have eq: "unat (a - p) = unat a + 2 ^ 64 - unat p"
    using False by (simp add: unat_sub_if' word_le_nat_alt)
  have "\<not> unat (a - p) < unat n"
    using assms unfolding eq no_wrap_def by arith
  with False show ?thesis
    by (simp add: buf_def word_less_nat_alt word_le_nat_alt)
qed

text \<open>Splitting a buffer in two.\<close>

lemma buf_suffix_subset: "k \<le> n \<Longrightarrow> buf (p + k) (n - k) \<subseteq> buf p n"
  unfolding buf_def by (auto, uint_arith)

lemma buf_prefix_subset: "k \<le> n \<Longrightarrow> buf p k \<subseteq> buf p n"
  by (auto simp: buf_def)

lemma buf_split_disjoint: "k \<le> n \<Longrightarrow> buf p k \<inter> buf (p + k) (n - k) = {}"
  unfolding buf_def by (auto, uint_arith)

lemma mem_read_split:
  assumes "k \<le> n"
  shows "mem_read m p n = mem_read m p k @ mem_read m (p + k) (n - k)"
proof (rule nth_equalityI)
  show "length (mem_read m p n) = length (mem_read m p k @ mem_read m (p + k) (n - k))"
    using assms by (simp add: unat_sub word_le_nat_alt)
  fix i
  assume "i < length (mem_read m p n)"
  then show "mem_read m p n ! i = (mem_read m p k @ mem_read m (p + k) (n - k)) ! i"
    using assms by (simp add: nth_append unat_sub word_le_nat_alt)
qed

section \<open>Lemmas: running actions\<close>

lemma run_gets [run_simps, simp]: "run_state (gets f) s = (f s, s)"
  by (simp add: gets_def)

lemma run_modify [run_simps, simp]: "run_state (modify f) s = ((), f s)"
  by (simp add: modify_def)

lemma run_if [run_simps]:
  "run_state (if b then m else m') s = (if b then run_state m s else run_state m' s)"
  by simp

lemmas [run_simps] = run_state_return run_state_bind run_state_get run_state_set

lemma keepsI: "(\<And>s. f (snd (run_state m s)) = f s) \<Longrightarrow> keeps f m"
  by (simp add: keeps_def)

lemma keepsD: "keeps f m \<Longrightarrow> run_state m s = (r, s') \<Longrightarrow> f s' = f s"
  unfolding keeps_def by (metis snd_conv)

lemma keeps_ret [keeps_intros]: "keeps f (ret x)"
  by (simp add: keeps_def)

lemma keeps_gets [keeps_intros]: "keeps f (gets g)"
  by (simp add: keeps_def)

lemma keeps_get [keeps_intros]: "keeps f State_Monad.get"
  by (simp add: keeps_def)

lemma keeps_bind [keeps_intros]:
  assumes "keeps f m" "\<And>r. keeps f (k r)"
  shows "keeps f (State_Monad.bind m k)"
  using assms by (auto simp: keeps_def split: prod.splits) (metis snd_conv)

lemma keeps_bind_result:
  assumes "keeps f m" "\<And>s. keeps f (k (fst (run_state m s)))"
  shows "keeps f (State_Monad.bind m k)"
  unfolding keeps_def
proof
  fix s
  obtain r s' where r: "run_state m s = (r, s')" by force
  then have "f s' = f s" using keepsD [OF assms(1)] by blast
  moreover have "f (snd (run_state (k r) s')) = f s'"
    using assms(2) [of s] r by (simp add: keeps_def)
  ultimately show "f (snd (run_state (State_Monad.bind m k) s)) = f s"
    using r by simp
qed

lemma keeps_if [keeps_intros]:
  assumes "b \<Longrightarrow> keeps f m" "\<not> b \<Longrightarrow> keeps f m'"
  shows "keeps f (if b then m else m')"
  using assms by simp

lemma keeps_let [keeps_intros]: "keeps f (m x) \<Longrightarrow> keeps f (let y = x in m y)"
  by simp

lemma keeps_case_prod [keeps_intros]:
  "(\<And>a b. keeps f (m a b)) \<Longrightarrow> keeps f (case p of (a, b) \<Rightarrow> m a b)"
  by (cases p) simp

lemma keeps_case_option [keeps_intros]:
  "keeps f n \<Longrightarrow> (\<And>a. keeps f (m a)) \<Longrightarrow> keeps f (case p of None \<Rightarrow> n | Some a \<Rightarrow> m a)"
  by (cases p) simp_all

lemma keeps_modify [keeps_intros]: "(\<And>s. f (g s) = f s) \<Longrightarrow> keeps f (modify g)"
  by (simp add: keeps_def)

lemma validI: "(\<And>s r s'. P s \<Longrightarrow> run_state m s = (r, s') \<Longrightarrow> Q r s') \<Longrightarrow> valid P m Q"
  by (auto simp: valid_def split: prod.splits)

lemma validD: "valid P m Q \<Longrightarrow> P s \<Longrightarrow> run_state m s = (r, s') \<Longrightarrow> Q r s'"
  by (auto simp: valid_def split: prod.splits)

lemma valid_bind:
  assumes "valid P m R" "\<And>r. valid (R r) (k r) Q"
  shows "valid P (State_Monad.bind m k) Q"
  using assms by (fastforce simp: valid_def split: prod.splits)


lemma valid_ret: "valid (Q x) (ret x) Q"
  by (simp add: valid_def)

lemma valid_keeps: "keeps f m \<Longrightarrow> valid (\<lambda>s. f s = v) m (\<lambda>_ s. f s = v)"
  by (auto simp: valid_def keeps_def split: prod.splits) (metis snd_conv)

lemma keeps_snd: "keeps f m \<Longrightarrow> f (snd (run_state m s)) = f s"
  by (simp add: keeps_def)

lemma keeps_validI:
  assumes "\<And>v. valid (\<lambda>s. f s = v) m (\<lambda>_ s. f s = v)"
  shows "keeps f m"
  by (rule keepsI, rule validD [OF assms refl prod.collapse [symmetric]])

lemma valid_keeps_bind:
  assumes "keeps f m" "\<And>r. valid (\<lambda>s. f s = v) (k r) Q"
  shows "valid (\<lambda>s. f s = v) (State_Monad.bind m k) Q"
  by (rule valid_bind [OF valid_keeps]) (rule assms)+

lemma valid_if:
  assumes "b \<Longrightarrow> valid P m Q" "\<not> b \<Longrightarrow> valid P m' Q"
  shows "valid P (if b then m else m') Q"
  using assms by simp

lemma valid_case_prod:
  assumes "\<And>a b. p = (a, b) \<Longrightarrow> valid P (m a b) Q"
  shows "valid P (case p of (a, b) \<Rightarrow> m a b) Q"
  using assms by (cases p) simp

lemma valid_weaken:
  assumes "valid P m Q" "\<And>s. P' s \<Longrightarrow> P s" "\<And>r s. Q r s \<Longrightarrow> Q' r s"
  shows "valid P' m Q'"
  using assms by (fastforce simp: valid_def split: prod.splits)

lemma valid_ret_keep: "valid (\<lambda>s. f s = v) (ret x) (\<lambda>_ s. f s = v)"
  by (simp add: valid_def)

text \<open>Erased memory stays erased when more of memory is erased.\<close>

lemma mem_read_zeroes_write:
  assumes "mem_read m q n = replicate (unat n) 0"
  shows "mem_read (mem_write m p (replicate k 0)) q n = replicate (unat n) 0"
proof (rule nth_equalityI)
  fix i
  assume "i < length (mem_read (mem_write m p (replicate k 0)) q n)"
  then have i: "i < unat n" by simp
  then have "m (q + of_nat i) = 0"
    using arg_cong [OF assms, of "\<lambda>xs. xs ! i"] by simp
  then show "mem_read (mem_write m p (replicate k 0)) q n ! i = replicate (unat n) 0 ! i"
    using i by (simp add: mem_write_def)
qed simp

end
