(* ===== verification/Md_Stream.thy ===== *)
theory Md_Stream
  imports Prelude
begin

text \<open>
  What \<^verbatim>\<open>sha1.c\<close>, \<^verbatim>\<open>sha256.c\<close> and \<^verbatim>\<open>sha512.c\<close> of the vendored backend have in common: a context with a
  two-word byte count, a chaining state and a block buffer, the buffering of an update and the
  padding of a finish. The functions are parameters here (the block size, the compression
  function); each hash module instantiates them.

  The locale \<open>incremental\<close> is the interface an incremental hash offers to its callers.
\<close>

section \<open>The context and its buffer\<close>

record 'w md_context =
  c_total0 :: 'w
  c_total1 :: 'w
  c_state :: "'w list"
  c_buffer :: "byte list"

text \<open>\<^verbatim>\<open>memcpy(buffer + off, xs, length)\<close>.\<close>

definition put :: "byte list \<Rightarrow> nat \<Rightarrow> byte list \<Rightarrow> byte list" where
  "put bf off xs = take off bf @ xs @ drop (off + length xs) bf"

text \<open>
  The loop over whole blocks: the state after them, and the input that is left. A block size of
  0, which no module has, ends the loop at once.
\<close>

function process_many :: "nat \<Rightarrow> ('s \<Rightarrow> byte list \<Rightarrow> 's) \<Rightarrow> 's \<Rightarrow> byte list \<Rightarrow> 's \<times> byte list" where
  "process_many B f st inp =
    (if 0 < B \<and> B \<le> length inp then process_many B f (f st (take B inp)) (drop B inp)
     else (st, inp))"
  by pat_completeness auto

termination
  by (relation "measure (\<lambda>(B, f, st, inp). length inp)") auto

text \<open>
  The body of an update after the count: complete a partial block, process whole blocks from the
  input, keep the rest. \<open>left\<close> is how many bytes the buffer holds.
\<close>

definition buffer_update ::
  "nat \<Rightarrow> ('s \<Rightarrow> byte list \<Rightarrow> 's) \<Rightarrow> nat \<Rightarrow> 's \<Rightarrow> byte list \<Rightarrow> byte list \<Rightarrow> 's \<times> byte list" where
  "buffer_update B f left st bf inp =
    (let fill = B - left;
         (st, bf, inp, left) =
           (if left \<noteq> 0 \<and> length inp \<ge> fill
            then (let bf = put bf left (take fill inp) in (f st bf, bf, drop fill inp, 0))
            else (st, bf, inp, left));
         (st, rest) = process_many B f st inp
     in (st, if length rest > 0 then put bf left rest else bf))"

text \<open>
  The body of a finish: padding to leave room for \<open>tail\<close>, the encoded length, with an extra block
  when the current one has no room, and the last compression.
\<close>

definition buffer_finish ::
  "nat \<Rightarrow> ('s \<Rightarrow> byte list \<Rightarrow> 's) \<Rightarrow> nat \<Rightarrow> 's \<Rightarrow> byte list \<Rightarrow> byte list \<Rightarrow> 's" where
  "buffer_finish B f used st bf tail =
    (let bf = put bf used [0x80];
         used = used + 1;
         room = B - length tail;
         (st, bf) =
           (if used \<le> room then (st, put bf used (replicate (room - used) 0))
            else (let bf = put bf used (replicate (B - used) 0)
                  in (f st bf, put bf 0 (replicate room 0))));
         bf = put bf room tail
     in f st bf)"

section \<open>Specification\<close>

text \<open>The padding of FIPS 180-4 section 5.1 around an encoded length \<open>tail\<close>.\<close>

definition padding :: "nat \<Rightarrow> nat \<Rightarrow> byte list \<Rightarrow> byte list" where
  "padding B n tail =
    0x80 # replicate ((2 * B - length tail - 1 - n mod B) mod B) 0 @ tail"

definition md_state :: "nat \<Rightarrow> ('s \<Rightarrow> byte list \<Rightarrow> 's) \<Rightarrow> 's \<Rightarrow> byte list \<Rightarrow> 's" where
  "md_state B f st m = fst (process_many B f st m)"

text \<open>A buffer and a state that stand for the message \<open>m\<close>.\<close>

definition holds :: "nat \<Rightarrow> ('s \<Rightarrow> byte list \<Rightarrow> 's) \<Rightarrow> 's \<Rightarrow> 's \<Rightarrow> byte list \<Rightarrow> byte list \<Rightarrow> bool" where
  "holds B f st0 st bf m \<longleftrightarrow>
    length bf = B \<and> process_many B f st0 m = (st, take (length m mod B) bf)"

section \<open>The interface of an incremental hash\<close>

locale incremental =
  fixes starts :: 'c
    and update :: "'c \<Rightarrow> byte list \<Rightarrow> 'c"
    and finish :: "'c \<Rightarrow> byte list"
    and absorbed :: "'c \<Rightarrow> byte list \<Rightarrow> bool"
    and digest :: "byte list \<Rightarrow> byte list"
    and step_max :: nat
  assumes starts_absorbed: "absorbed starts []"
    and update_absorbed: "absorbed c m \<Longrightarrow> length d < step_max \<Longrightarrow> absorbed (update c d) (m @ d)"
    and finish_digest: "absorbed c m \<Longrightarrow> finish c = digest m"
begin

lemma absorbed_chunks:
  "absorbed c m \<Longrightarrow> (\<And>d. d \<in> set ds \<Longrightarrow> length d < step_max) \<Longrightarrow>
   absorbed (foldl update c ds) (m @ concat ds)"
proof (induction ds arbitrary: c m)
  case (Cons d ds)
  then have "absorbed (update c d) (m @ d)"
    using update_absorbed by simp
  then show ?case
    using Cons.IH [of "update c d" "m @ d"] Cons.prems by simp
qed simp

lemma finish_chunks:
  assumes "\<And>d. d \<in> set ds \<Longrightarrow> length d < step_max"
  shows "finish (foldl update starts ds) = digest (concat ds)"
  using finish_digest absorbed_chunks [OF starts_absorbed assms] by simp

lemma one_shot:
  assumes "length d < step_max"
  shows "finish (update starts d) = digest d"
  using finish_chunks [of "[d]"] assms by simp

lemma chunking_irrelevant:
  assumes "\<And>d. d \<in> set ds \<Longrightarrow> length d < step_max" "\<And>d. d \<in> set es \<Longrightarrow> length d < step_max"
    and "concat ds = concat es"
  shows "finish (foldl update starts ds) = finish (foldl update starts es)"
  using finish_chunks assms by simp

end

section \<open>Lemmas: blocks\<close>

declare process_many.simps [simp del]

lemma process_many_short [simp]: "length inp < B \<Longrightarrow> process_many B f st inp = (st, inp)"
  by (simp add: process_many.simps)

lemma process_many_step:
  "0 < B \<Longrightarrow> length b = B \<Longrightarrow> process_many B f st (b @ inp) = process_many B f (f st b) inp"
  by (subst process_many.simps) simp

lemma process_many_rest:
  "process_many B f st inp = (st', r) \<Longrightarrow> 0 < B \<Longrightarrow> length r = length inp mod B"
proof (induction B f st inp rule: process_many.induct)
  case (1 B f st inp)
  show ?case
  proof (cases "B \<le> length inp")
    case True
    then show ?thesis
      using 1 by (subst (asm) (2) process_many.simps) (simp add: le_mod_geq)
  qed (use 1 in \<open>auto simp: not_le\<close>)
qed

lemma process_many_append:
  "0 < B \<Longrightarrow> process_many B f st (xs @ ys) =
    (case process_many B f st xs of (st', r) \<Rightarrow> process_many B f st' (r @ ys))"
proof (induction B f st xs rule: process_many.induct)
  case (1 B f st xs)
  show ?case
  proof (cases "B \<le> length xs")
    case True
    have "process_many B f st (xs @ ys) = process_many B f (f st (take B xs)) (drop B xs @ ys)"
      using process_many_step [of B "take B xs" f st "drop B xs @ ys"] 1(2) True
      by (simp add: append_take_drop_id flip: append_assoc)
    moreover have "process_many B f st xs = process_many B f (f st (take B xs)) (drop B xs)"
      using 1(2) True by (subst process_many.simps) simp
    ultimately show ?thesis
      using 1 True by simp
  qed (simp add: not_le)
qed

lemma length_put: "off + length xs \<le> length bf \<Longrightarrow> length (put bf off xs) = length bf"
  by (simp add: put_def)

lemma take_put: "off + length xs \<le> length bf \<Longrightarrow> take (off + length xs) (put bf off xs) = take off bf @ xs"
  by (simp add: put_def)

lemma put_fill: "off + length xs = length bf \<Longrightarrow> put bf off xs = take off bf @ xs"
  by (simp add: put_def)

lemma holds_start: "0 < B \<Longrightarrow> length bf = B \<Longrightarrow> holds B f st0 st0 bf []"
  by (simp add: holds_def)

lemma keep_rest:
  assumes "length bf = B" "length rest < B"
  shows "length (if length rest > 0 then put bf 0 rest else bf) = B"
    and "take (length rest) (if length rest > 0 then put bf 0 rest else bf) = rest"
  using assms take_put [of 0 rest bf] by (auto simp: length_put)

lemma holds_update:
  assumes B: "0 < B" and h: "holds B f st0 st bf m"
    and u: "buffer_update B f (length m mod B) st bf inp = (st', bf')"
  shows "holds B f st0 st' bf' (m @ inp)"
proof -
  let ?l = "length m mod B"
  have bf: "length bf = B" and m: "process_many B f st0 m = (st, take ?l bf)"
    using h by (simp_all add: holds_def)
  have l: "?l < B" using B by simp
  have mi: "process_many B f st0 (m @ inp) = process_many B f st (take ?l bf @ inp)"
    using process_many_append [OF B, of f st0 m inp] m by simp
  have len: "length (m @ inp) mod B = (?l + length inp) mod B"
    by (simp add: mod_add_left_eq)
  show ?thesis
  proof (cases "?l \<noteq> 0 \<and> length inp \<ge> B - ?l")
    case True
    let ?bf = "put bf ?l (take (B - ?l) inp)" and ?inp = "drop (B - ?l) inp"
    have eq: "?bf = take ?l bf @ take (B - ?l) inp" and lbf: "length ?bf = B"
      using True bf l by (simp_all add: put_fill length_put)
    obtain rest where pm: "process_many B f (f st ?bf) ?inp = (st', rest)"
      and bf': "bf' = (if length rest > 0 then put ?bf 0 rest else ?bf)"
      using u True by (auto simp: buffer_update_def Let_def split: prod.splits)
    have "process_many B f st (take ?l bf @ inp) = (st', rest)"
      using process_many_step [OF B lbf, of f st ?inp] pm eq by simp
    moreover have "length rest = length (m @ inp) mod B"
      unfolding len using process_many_rest [OF calculation B] bf l by simp
    ultimately show ?thesis
      using keep_rest [OF lbf, of rest] bf' mi B by (simp add: holds_def)
  next
    case False
    show ?thesis
    proof (cases "?l = 0")
      case True
      obtain rest where pm: "process_many B f st inp = (st', rest)"
        and bf': "bf' = (if length rest > 0 then put bf 0 rest else bf)"
        using u True by (auto simp: buffer_update_def Let_def split: prod.splits)
      have "length rest = length (m @ inp) mod B"
        using process_many_rest [OF pm B] True len by simp
      then show ?thesis
        using keep_rest [OF bf, of rest] bf' mi pm True B by (simp add: holds_def)
    next
      case nz: False
      then have short: "?l + length inp < B" using False l by linarith
      have "st' = st" and bf': "bf' = (if length inp > 0 then put bf ?l inp else bf)"
        using u nz short False by (auto simp: buffer_update_def)
      moreover have "take (?l + length inp) bf' = take ?l bf @ inp" "length bf' = B"
        using bf' short bf take_put [of ?l inp bf] by (auto simp: length_put)
      moreover have "length (m @ inp) mod B = ?l + length inp"
        unfolding len using short by (rule mod_less)
      ultimately show ?thesis
        unfolding holds_def using mi short bf by simp
    qed
  qed
qed

text \<open>Three consecutive pieces written into a buffer, the last one up to its end.\<close>

lemma put_three:
  assumes "off + length xs + length ys + length zs = length bf"
  shows "put (put (put bf off xs) (off + length xs) ys) (off + length xs + length ys) zs =
    take off bf @ xs @ ys @ zs"
proof -
  let ?b1 = "put bf off xs" and ?n = "off + length xs"
  have b1: "length ?b1 = length bf" "take ?n ?b1 = take off bf @ xs"
    using assms by (simp_all add: length_put take_put)
  let ?b2 = "put ?b1 ?n ys"
  have b2: "length ?b2 = length bf" "take (?n + length ys) ?b2 = take ?n ?b1 @ ys"
    using assms b1 by (simp_all add: length_put take_put)
  show ?thesis
    using put_fill [of "?n + length ys" zs ?b2] assms b1 b2 by simp
qed

lemma put_two:
  assumes "off + length xs + length ys = length bf"
  shows "put (put bf off xs) (off + length xs) ys = take off bf @ xs @ ys"
  using put_three [of off xs ys "[]" bf] assms by (simp add: put_def)

lemma holds_finish:
  assumes h: "holds B f st0 st bf m" and t: "length tail < B"
  shows "buffer_finish B f (length m mod B) st bf tail = md_state B f st0 (m @ padding B (length m) tail)"
proof -
  let ?l = "length m mod B" and ?t = "length tail" and ?p = "padding B (length m) tail"
  have B: "0 < B" and l: "?l < B" using t by (cases B; simp)+
  have bf: "length bf = B" and m: "process_many B f st0 m = (st, take ?l bf)"
    using h by (simp_all add: holds_def)
  have mp: "process_many B f st0 (m @ ?p) = process_many B f st (take ?l bf @ ?p)"
    using process_many_append [OF B, of f st0 m ?p] m by simp
  show ?thesis
  proof (cases "?l + 1 \<le> B - ?t")
    case True
    have "2 * B - ?t - 1 - ?l = (B - ?t - ?l - 1) + B" using True t l by linarith
    then have z: "(2 * B - ?t - 1 - ?l) mod B = B - ?t - ?l - 1"
      by (simp only: mod_add_self2 mod_less) (use B in simp)
    let ?b = "take ?l bf @ 0x80 # replicate (B - ?t - ?l - 1) 0 @ tail"
    have "length ?b = B" using True bf l t by simp
    then have "process_many B f st (?b @ []) = (f st ?b, [])"
      using process_many_step [OF B, of ?b f st "[]"] B by simp
    moreover have "buffer_finish B f ?l st bf tail = f st ?b"
      using True t put_three [of ?l "[0x80]" "replicate (B - ?t - (?l + 1)) 0" tail bf] bf
      by (simp add: buffer_finish_def Let_def Suc_diff_Suc)
    ultimately show ?thesis
      using mp by (simp only: md_state_def padding_def z append_Nil2 fst_conv)
  next
    case False
    have "2 * B - ?t - 1 - ?l < B" "2 * B - ?t - 1 - ?l = (B - ?l - 1) + (B - ?t)"
      using False t l by linarith+
    then have z: "(2 * B - ?t - 1 - ?l) mod B = (B - ?l - 1) + (B - ?t)"
      by (metis mod_less)
    let ?b = "take ?l bf @ 0x80 # replicate (B - ?l - 1) 0" and ?c = "replicate (B - ?t) 0 @ tail"
    have len: "length ?b = B" "length ?c = B"
      using bf t by simp_all (use l in linarith)
    then have "process_many B f st (?b @ ?c @ []) = (f (f st ?b) ?c, [])"
      using process_many_step [OF B len(1), of f st "?c @ []"]
        process_many_step [OF B len(2), of f "f st ?b" "[]"] B by simp
    moreover have "buffer_finish B f ?l st bf tail = f (f st ?b) ?c"
      using False t l put_two [of ?l "[0x80]" "replicate (B - (?l + 1)) 0" bf] bf len
        put_two [of 0 "replicate (B - ?t) 0" tail ?b]
      by (simp add: buffer_finish_def Let_def)
    ultimately show ?thesis
      using mp by (simp only: md_state_def padding_def z replicate_add append_Nil2 append.assoc
          append_Cons fst_conv)
  qed
qed

section \<open>Lemmas: compression functions that agree, and the byte count\<close>

lemma process_many_cong:
  "P st \<Longrightarrow> (\<And>st b. P st \<Longrightarrow> f st b = g st b) \<Longrightarrow> (\<And>st b. P st \<Longrightarrow> P (g st b)) \<Longrightarrow>
   process_many B f st inp = process_many B g st inp \<and> P (fst (process_many B g st inp))"
proof (induction B f st inp rule: process_many.induct)
  case (1 B f st inp)
  show ?case
  proof (cases "0 < B \<and> B \<le> length inp")
    case True
    have eq: "f st (take B inp) = g st (take B inp)" and P: "P (g st (take B inp))"
      using 1(2,3,4) by simp_all
    show ?thesis
      using 1(1) [OF True _ 1(3,4)] eq P True by (simp add: process_many.simps [of B _ st])
  qed (use 1(2) in \<open>auto simp: process_many.simps [of B _ st]\<close>)
qed

text \<open>
  The two words of the count stand for \<open>n\<close> bytes, modulo twice the width of a word.
\<close>

definition counted :: "('w :: len) word \<Rightarrow> 'w word \<Rightarrow> nat \<Rightarrow> bool" where
  "counted t0 t1 n \<longleftrightarrow> t0 = of_nat n \<and> t1 = of_nat (n div 2 ^ LENGTH('w))"

lemma counted_add:
  fixes t0 t1 :: "('w :: len) word"
  assumes "counted t0 t1 n" "k < 2 ^ LENGTH('w)"
  shows "counted (t0 + of_nat k) (if t0 + of_nat k < of_nat k then t1 + 1 else t1) (n + k)"
proof -
  let ?M = "2 ^ LENGTH('w) :: nat" and ?r = "n mod 2 ^ LENGTH('w)"
  have t: "t0 = of_nat n" "t1 = of_nat (n div ?M)" using assms by (simp_all add: counted_def)
  have k: "unat (of_nat k :: 'w word) = k" using assms(2) by (simp add: unat_of_nat)
  have sum: "unat (t0 + of_nat k) = (?r + k) mod ?M"
    by (simp add: t unat_of_nat mod_add_left_eq flip: of_nat_add)
  have carry: "t0 + of_nat k < of_nat k \<longleftrightarrow> ?M \<le> ?r + k"
  proof (cases "?r + k < ?M")
    case False
    have r: "?r < ?M" by simp
    then have "?r + k - ?M < ?M" "?M \<le> ?r + k" using False assms(2) by linarith+
    then have "(?r + k) mod ?M = ?r + k - ?M"
      by (subst le_mod_geq) (simp_all only: mod_less)
    then show ?thesis using False k sum r by (simp only: word_less_nat_alt) linarith
  qed (simp add: word_less_nat_alt sum k)
  have "?r < ?M" by simp
  then have "?r + k < 2 * ?M" using assms(2) by linarith
  then have d: "(?r + k) div ?M = (if ?M \<le> ?r + k then 1 else 0)"
    by (cases "?M \<le> ?r + k") (simp_all add: le_div_geq)
  have "n + k = ?r + k + n div ?M * ?M"
    using div_mult_mod_eq [of n ?M] by linarith
  then have "(n + k) div ?M = n div ?M + (?r + k) div ?M"
    by (metis add.commute div_mult_self3 power_not_zero zero_neq_numeral)
  then have "(n + k) div ?M = n div ?M + (if ?M \<le> ?r + k then 1 else 0)"
    unfolding d .
  then show ?thesis
    unfolding carry by (simp add: counted_def t)
qed

lemma counted_left:
  fixes t0 t1 :: "('w :: len) word"
  assumes "counted t0 t1 n" "k < LENGTH('w)"
  shows "unat (t0 AND mask k) = n mod 2 ^ k"
proof -
  have "unat (t0 AND mask k) = take_bit k (unat t0)"
    by (simp add: unsigned_take_bit_eq flip: take_bit_eq_mask)
  also have "\<dots> = take_bit k (take_bit LENGTH('w) n)"
    using assms by (simp add: counted_def unsigned_of_nat)
  also have "\<dots> = n mod 2 ^ k"
    using assms by (simp add: take_bit_eq_mod [of k n])
  finally show ?thesis .
qed

text \<open>A context that has taken in the message \<open>m\<close>.\<close>

definition absorbs ::
  "nat \<Rightarrow> (('w :: len) word list \<Rightarrow> byte list \<Rightarrow> 'w word list) \<Rightarrow> 'w word list \<Rightarrow> 'w word md_context \<Rightarrow>
   byte list \<Rightarrow> bool" where
  "absorbs k f st0 c m \<longleftrightarrow> counted (c_total0 c) (c_total1 c) (length m) \<and>
    holds (2 ^ k) f st0 (c_state c) (c_buffer c) m"

lemma absorbs_left:
  fixes c :: "('w :: len) word md_context"
  assumes "absorbs k f st0 c m" "k < LENGTH('w)"
  shows "unat (c_total0 c AND mask k) = length m mod 2 ^ k"
  using counted_left [OF _ assms(2)] assms(1) unfolding absorbs_def by blast

lemma absorbs_update:
  fixes c :: "('w :: len) word md_context"
  assumes a: "absorbs k f st0 c m" and "length d < 2 ^ LENGTH('w)"
    and u: "buffer_update (2 ^ k) f (length m mod 2 ^ k) (c_state c) (c_buffer c) d = (st, bf)"
  shows "absorbs k f st0
    \<lparr>c_total0 = c_total0 c + of_nat (length d),
     c_total1 = (if c_total0 c + of_nat (length d) < of_nat (length d) then c_total1 c + 1 else c_total1 c),
     c_state = st, c_buffer = bf\<rparr> (m @ d)"
proof -
  have "counted (c_total0 c) (c_total1 c) (length m)" "holds (2 ^ k) f st0 (c_state c) (c_buffer c) m"
    using a by (simp_all add: absorbs_def)
  from counted_add [OF this(1) assms(2)] holds_update [OF _ this(2) u] show ?thesis
    by (simp add: absorbs_def)
qed

end
