(* ===== verification/Status.thy ===== *)
theory Status
  imports Prelude
begin

text \<open>
  Status codes and algorithm identification: \<^verbatim>\<open>src/src/zuc_status.c\<close>, the enumerations of
  \<^verbatim>\<open>src/inst/include/zucrypt.h\<close> and the feature list of \<^verbatim>\<open>src/src/zuc_crypto_config.h\<close>.

  \<^verbatim>\<open>zuc_status\<close> is a datatype with the numbers of the header in \<open>zuc_status_code\<close>; functions
  that receive a status from a C caller take the number, because a caller can pass one that is
  no enumerator. \<^verbatim>\<open>zuc_alg\<close> is an integer throughout for the same reason. A returned
  \<^verbatim>\<open>const char *\<close> that may be NULL is an option.
\<close>

section \<open>Backend vocabulary\<close>

type_synonym psa_status_t = int
type_synonym psa_algorithm_t = "32 word"
type_synonym psa_key_type_t = "16 word"
type_synonym psa_key_usage_t = "32 word"
type_synonym psa_key_id_t = "32 word"

abbreviation (input) PSA_SUCCESS :: psa_status_t where "PSA_SUCCESS \<equiv> 0"
abbreviation (input) PSA_ERROR_NOT_SUPPORTED :: psa_status_t where "PSA_ERROR_NOT_SUPPORTED \<equiv> -134"
abbreviation (input) PSA_ERROR_INVALID_ARGUMENT :: psa_status_t where "PSA_ERROR_INVALID_ARGUMENT \<equiv> -135"
abbreviation (input) PSA_ERROR_BAD_STATE :: psa_status_t where "PSA_ERROR_BAD_STATE \<equiv> -137"
abbreviation (input) PSA_ERROR_BUFFER_TOO_SMALL :: psa_status_t where "PSA_ERROR_BUFFER_TOO_SMALL \<equiv> -138"
abbreviation (input) PSA_ERROR_INSUFFICIENT_MEMORY :: psa_status_t where
  "PSA_ERROR_INSUFFICIENT_MEMORY \<equiv> -141"
abbreviation (input) PSA_ERROR_INSUFFICIENT_ENTROPY :: psa_status_t where
  "PSA_ERROR_INSUFFICIENT_ENTROPY \<equiv> -148"
abbreviation (input) PSA_ERROR_INVALID_SIGNATURE :: psa_status_t where
  "PSA_ERROR_INVALID_SIGNATURE \<equiv> -149"

abbreviation (input) PSA_ALG_NONE :: psa_algorithm_t where "PSA_ALG_NONE \<equiv> 0"
abbreviation (input) PSA_ALG_SHA_1 :: psa_algorithm_t where "PSA_ALG_SHA_1 \<equiv> 0x02000005"
abbreviation (input) PSA_ALG_SHA_256 :: psa_algorithm_t where "PSA_ALG_SHA_256 \<equiv> 0x02000009"
abbreviation (input) PSA_ALG_SHA_384 :: psa_algorithm_t where "PSA_ALG_SHA_384 \<equiv> 0x0200000a"
abbreviation (input) PSA_ALG_SHA_512 :: psa_algorithm_t where "PSA_ALG_SHA_512 \<equiv> 0x0200000b"

section \<open>The enumerations of the public header\<close>

datatype zuc_status =
    ZUC_OK
  | ZUC_ERR_INVALID_ARGUMENT
  | ZUC_ERR_UNSUPPORTED
  | ZUC_ERR_BAD_LENGTH
  | ZUC_ERR_OVERLAP
  | ZUC_ERR_MEMORY
  | ZUC_ERR_BACKEND
  | ZUC_ERR_ABI
  | ZUC_ERR_INTERNAL
  | ZUC_ERR_NOT_READY
  | ZUC_ERR_ENTROPY
  | ZUC_ERR_AUTH

fun zuc_status_code :: "zuc_status \<Rightarrow> int" where
  "zuc_status_code ZUC_OK = 0"
| "zuc_status_code ZUC_ERR_INVALID_ARGUMENT = 1"
| "zuc_status_code ZUC_ERR_UNSUPPORTED = 2"
| "zuc_status_code ZUC_ERR_BAD_LENGTH = 3"
| "zuc_status_code ZUC_ERR_OVERLAP = 4"
| "zuc_status_code ZUC_ERR_MEMORY = 5"
| "zuc_status_code ZUC_ERR_BACKEND = 6"
| "zuc_status_code ZUC_ERR_ABI = 7"
| "zuc_status_code ZUC_ERR_INTERNAL = 8"
| "zuc_status_code ZUC_ERR_NOT_READY = 9"
| "zuc_status_code ZUC_ERR_ENTROPY = 10"
| "zuc_status_code ZUC_ERR_AUTH = 11"

type_synonym zuc_alg = int

abbreviation (input) ZUC_ALG_NONE :: zuc_alg where "ZUC_ALG_NONE \<equiv> 0"
abbreviation (input) ZUC_ALG_SHA1 :: zuc_alg where "ZUC_ALG_SHA1 \<equiv> 1"
abbreviation (input) ZUC_ALG_SHA256 :: zuc_alg where "ZUC_ALG_SHA256 \<equiv> 2"
abbreviation (input) ZUC_ALG_SHA384 :: zuc_alg where "ZUC_ALG_SHA384 \<equiv> 3"
abbreviation (input) ZUC_ALG_SHA512 :: zuc_alg where "ZUC_ALG_SHA512 \<equiv> 4"
abbreviation (input) ZUC_ALG_AES_GCM :: zuc_alg where "ZUC_ALG_AES_GCM \<equiv> 96"
abbreviation (input) ZUC_ALG_RSA_OAEP :: zuc_alg where "ZUC_ALG_RSA_OAEP \<equiv> 97"
abbreviation (input) ZUC_ALG_RSA_PKCS1V15_CRYPT :: zuc_alg where "ZUC_ALG_RSA_PKCS1V15_CRYPT \<equiv> 98"
abbreviation (input) ZUC_ALG_RSA :: zuc_alg where "ZUC_ALG_RSA \<equiv> 192"
abbreviation (input) ZUC_ALG_EC_P256 :: zuc_alg where "ZUC_ALG_EC_P256 \<equiv> 193"
abbreviation (input) ZUC_ALG_EC_P384 :: zuc_alg where "ZUC_ALG_EC_P384 \<equiv> 194"
abbreviation (input) ZUC_ALG_EC_P521 :: zuc_alg where "ZUC_ALG_EC_P521 \<equiv> 195"
abbreviation (input) ZUC_ALG_X25519 :: zuc_alg where "ZUC_ALG_X25519 \<equiv> 196"
abbreviation (input) ZUC_ALG_ECDH :: zuc_alg where "ZUC_ALG_ECDH \<equiv> 197"
abbreviation (input) ZUC_ALG_RSA_PKCS1V15_SIGN :: zuc_alg where "ZUC_ALG_RSA_PKCS1V15_SIGN \<equiv> 224"
abbreviation (input) ZUC_ALG_RSA_PSS :: zuc_alg where "ZUC_ALG_RSA_PSS \<equiv> 225"
abbreviation (input) ZUC_ALG_ECDSA :: zuc_alg where "ZUC_ALG_ECDSA \<equiv> 226"
abbreviation (input) ZUC_ALG_ECDSA_DETERMINISTIC :: zuc_alg where "ZUC_ALG_ECDSA_DETERMINISTIC \<equiv> 227"

text \<open>The value ranges the header reserves for each family of identifiers.\<close>

datatype alg_family = DIGEST | MAC | CIPHER | KDF | KEY | SIGNATURE

fun alg_range :: "alg_family \<Rightarrow> int \<times> int" where
  "alg_range DIGEST = (1, 63)"
| "alg_range MAC = (64, 95)"
| "alg_range CIPHER = (96, 159)"
| "alg_range KDF = (160, 191)"
| "alg_range KEY = (192, 223)"
| "alg_range SIGNATURE = (224, 255)"

abbreviation (input) ZUC_MAX_DIGEST_SIZE :: size_t where "ZUC_MAX_DIGEST_SIZE \<equiv> 64"
abbreviation (input) ZUC_AES_BLOCK_SIZE :: size_t where "ZUC_AES_BLOCK_SIZE \<equiv> 16"
abbreviation (input) ZUC_AES_KEY_SIZE_128 :: size_t where "ZUC_AES_KEY_SIZE_128 \<equiv> 16"
abbreviation (input) ZUC_AES_KEY_SIZE_192 :: size_t where "ZUC_AES_KEY_SIZE_192 \<equiv> 24"
abbreviation (input) ZUC_AES_KEY_SIZE_256 :: size_t where "ZUC_AES_KEY_SIZE_256 \<equiv> 32"

section \<open>The build configuration\<close>

datatype psa_want =
    PSA_WANT_ALG_SHA_1 | PSA_WANT_ALG_SHA_256 | PSA_WANT_ALG_SHA_384 | PSA_WANT_ALG_SHA_512
  | PSA_WANT_ALG_HMAC | PSA_WANT_KEY_TYPE_HMAC
  | PSA_WANT_ALG_CBC_NO_PADDING | PSA_WANT_KEY_TYPE_AES
  | PSA_WANT_ALG_GCM
  | PSA_WANT_ALG_PBKDF2_HMAC
  | PSA_WANT_KEY_TYPE_RSA_PUBLIC_KEY | PSA_WANT_KEY_TYPE_RSA_KEY_PAIR_BASIC
  | PSA_WANT_KEY_TYPE_RSA_KEY_PAIR_IMPORT | PSA_WANT_KEY_TYPE_RSA_KEY_PAIR_EXPORT
  | PSA_WANT_KEY_TYPE_RSA_KEY_PAIR_GENERATE
  | PSA_WANT_ALG_RSA_PKCS1V15_SIGN | PSA_WANT_ALG_RSA_PSS
  | PSA_WANT_ALG_RSA_OAEP | PSA_WANT_ALG_RSA_PKCS1V15_CRYPT
  | PSA_WANT_ECC_SECP_R1_256 | PSA_WANT_ECC_SECP_R1_384 | PSA_WANT_ECC_SECP_R1_521
  | PSA_WANT_ECC_MONTGOMERY_255
  | PSA_WANT_KEY_TYPE_ECC_PUBLIC_KEY | PSA_WANT_KEY_TYPE_ECC_KEY_PAIR_BASIC
  | PSA_WANT_KEY_TYPE_ECC_KEY_PAIR_IMPORT | PSA_WANT_KEY_TYPE_ECC_KEY_PAIR_EXPORT
  | PSA_WANT_KEY_TYPE_ECC_KEY_PAIR_GENERATE
  | PSA_WANT_ALG_ECDSA | PSA_WANT_ALG_DETERMINISTIC_ECDSA | PSA_WANT_ALG_ECDH

definition zuc_crypto_config :: "psa_want list" where
  "zuc_crypto_config =
    [PSA_WANT_ALG_SHA_1, PSA_WANT_ALG_SHA_256, PSA_WANT_ALG_SHA_384, PSA_WANT_ALG_SHA_512,
     PSA_WANT_ALG_HMAC, PSA_WANT_KEY_TYPE_HMAC,
     PSA_WANT_ALG_CBC_NO_PADDING, PSA_WANT_KEY_TYPE_AES,
     PSA_WANT_ALG_GCM,
     PSA_WANT_ALG_PBKDF2_HMAC,
     PSA_WANT_KEY_TYPE_RSA_PUBLIC_KEY, PSA_WANT_KEY_TYPE_RSA_KEY_PAIR_BASIC,
     PSA_WANT_KEY_TYPE_RSA_KEY_PAIR_IMPORT, PSA_WANT_KEY_TYPE_RSA_KEY_PAIR_EXPORT,
     PSA_WANT_KEY_TYPE_RSA_KEY_PAIR_GENERATE,
     PSA_WANT_ALG_RSA_PKCS1V15_SIGN, PSA_WANT_ALG_RSA_PSS,
     PSA_WANT_ALG_RSA_OAEP, PSA_WANT_ALG_RSA_PKCS1V15_CRYPT,
     PSA_WANT_ECC_SECP_R1_256, PSA_WANT_ECC_SECP_R1_384, PSA_WANT_ECC_SECP_R1_521,
     PSA_WANT_ECC_MONTGOMERY_255,
     PSA_WANT_KEY_TYPE_ECC_PUBLIC_KEY, PSA_WANT_KEY_TYPE_ECC_KEY_PAIR_BASIC,
     PSA_WANT_KEY_TYPE_ECC_KEY_PAIR_IMPORT, PSA_WANT_KEY_TYPE_ECC_KEY_PAIR_EXPORT,
     PSA_WANT_KEY_TYPE_ECC_KEY_PAIR_GENERATE,
     PSA_WANT_ALG_ECDSA, PSA_WANT_ALG_DETERMINISTIC_ECDSA, PSA_WANT_ALG_ECDH]"

definition defined_want :: "psa_want \<Rightarrow> bool" where
  "defined_want w = (w \<in> set zuc_crypto_config)"

section \<open>zuc\_status.c\<close>

definition zuc_status_string :: "int \<Rightarrow> string" where
  "zuc_status_string status =
    (if status = zuc_status_code ZUC_OK then ''success''
     else if status = zuc_status_code ZUC_ERR_INVALID_ARGUMENT then ''invalid argument''
     else if status = zuc_status_code ZUC_ERR_UNSUPPORTED
       then ''algorithm or operation not supported by this build''
     else if status = zuc_status_code ZUC_ERR_BAD_LENGTH
       then ''incorrect key, initialisation vector or buffer length''
     else if status = zuc_status_code ZUC_ERR_OVERLAP then ''input and output buffers overlap''
     else if status = zuc_status_code ZUC_ERR_MEMORY then ''memory allocation failed''
     else if status = zuc_status_code ZUC_ERR_BACKEND
       then ''the cryptographic backend reported a failure''
     else if status = zuc_status_code ZUC_ERR_ABI then ''ABI version or structure size mismatch''
     else if status = zuc_status_code ZUC_ERR_INTERNAL then ''internal error''
     else if status = zuc_status_code ZUC_ERR_NOT_READY
       then ''the library is not initialised; call zuc_init() first''
     else if status = zuc_status_code ZUC_ERR_ENTROPY
       then ''the operating system's random source failed''
     else if status = zuc_status_code ZUC_ERR_AUTH
       then ''authentication failed; no plaintext was released''
     else ''unknown status'')"

definition zuc_status_name :: "int \<Rightarrow> string" where
  "zuc_status_name status =
    (if status = zuc_status_code ZUC_OK then ''ZUC_OK''
     else if status = zuc_status_code ZUC_ERR_INVALID_ARGUMENT then ''ZUC_ERR_INVALID_ARGUMENT''
     else if status = zuc_status_code ZUC_ERR_UNSUPPORTED then ''ZUC_ERR_UNSUPPORTED''
     else if status = zuc_status_code ZUC_ERR_BAD_LENGTH then ''ZUC_ERR_BAD_LENGTH''
     else if status = zuc_status_code ZUC_ERR_OVERLAP then ''ZUC_ERR_OVERLAP''
     else if status = zuc_status_code ZUC_ERR_MEMORY then ''ZUC_ERR_MEMORY''
     else if status = zuc_status_code ZUC_ERR_BACKEND then ''ZUC_ERR_BACKEND''
     else if status = zuc_status_code ZUC_ERR_ABI then ''ZUC_ERR_ABI''
     else if status = zuc_status_code ZUC_ERR_INTERNAL then ''ZUC_ERR_INTERNAL''
     else if status = zuc_status_code ZUC_ERR_NOT_READY then ''ZUC_ERR_NOT_READY''
     else if status = zuc_status_code ZUC_ERR_ENTROPY then ''ZUC_ERR_ENTROPY''
     else if status = zuc_status_code ZUC_ERR_AUTH then ''ZUC_ERR_AUTH''
     else ''ZUC_ERR_UNKNOWN'')"

definition zuc_int_from_psa :: "psa_status_t \<Rightarrow> zuc_status" where
  "zuc_int_from_psa status =
    (if status = PSA_SUCCESS then ZUC_OK
     else if status = PSA_ERROR_NOT_SUPPORTED then ZUC_ERR_UNSUPPORTED
     else if status = PSA_ERROR_INVALID_ARGUMENT then ZUC_ERR_INVALID_ARGUMENT
     else if status = PSA_ERROR_BUFFER_TOO_SMALL then ZUC_ERR_BAD_LENGTH
     else if status = PSA_ERROR_INSUFFICIENT_MEMORY then ZUC_ERR_MEMORY
     else if status = PSA_ERROR_BAD_STATE then ZUC_ERR_INTERNAL
     else if status = PSA_ERROR_INSUFFICIENT_ENTROPY then ZUC_ERR_ENTROPY
     else ZUC_ERR_BACKEND)"

definition zuc_int_psa_hash :: "zuc_alg \<Rightarrow> psa_algorithm_t" where
  "zuc_int_psa_hash alg =
    (if alg = ZUC_ALG_SHA1 then PSA_ALG_SHA_1
     else if alg = ZUC_ALG_SHA256 then PSA_ALG_SHA_256
     else if alg = ZUC_ALG_SHA384 then PSA_ALG_SHA_384
     else if alg = ZUC_ALG_SHA512 then PSA_ALG_SHA_512
     else 0)"

definition zuc_alg_name :: "zuc_alg \<Rightarrow> string option" where
  "zuc_alg_name alg =
    (if alg = ZUC_ALG_SHA1 then Some ''sha1''
     else if alg = ZUC_ALG_SHA256 then Some ''sha256''
     else if alg = ZUC_ALG_SHA384 then Some ''sha384''
     else if alg = ZUC_ALG_SHA512 then Some ''sha512''
     else if alg = ZUC_ALG_AES_GCM then Some ''aes-gcm''
     else if alg = ZUC_ALG_RSA_OAEP then Some ''rsa-oaep''
     else if alg = ZUC_ALG_RSA_PKCS1V15_CRYPT then Some ''rsa-pkcs1v15-crypt''
     else if alg = ZUC_ALG_RSA then Some ''rsa''
     else if alg = ZUC_ALG_RSA_PKCS1V15_SIGN then Some ''rsa-pkcs1v15-sign''
     else if alg = ZUC_ALG_RSA_PSS then Some ''rsa-pss''
     else if alg = ZUC_ALG_EC_P256 then Some ''p256''
     else if alg = ZUC_ALG_EC_P384 then Some ''p384''
     else if alg = ZUC_ALG_EC_P521 then Some ''p521''
     else if alg = ZUC_ALG_X25519 then Some ''x25519''
     else if alg = ZUC_ALG_ECDH then Some ''ecdh''
     else if alg = ZUC_ALG_ECDSA then Some ''ecdsa''
     else if alg = ZUC_ALG_ECDSA_DETERMINISTIC then Some ''ecdsa-deterministic''
     else None)"

definition all_algs :: "zuc_alg list" where
  "all_algs =
    [ZUC_ALG_SHA1, ZUC_ALG_SHA256, ZUC_ALG_SHA384, ZUC_ALG_SHA512,
     ZUC_ALG_AES_GCM, ZUC_ALG_RSA_OAEP, ZUC_ALG_RSA_PKCS1V15_CRYPT,
     ZUC_ALG_RSA, ZUC_ALG_RSA_PKCS1V15_SIGN, ZUC_ALG_RSA_PSS,
     ZUC_ALG_EC_P256, ZUC_ALG_EC_P384, ZUC_ALG_EC_P521, ZUC_ALG_X25519,
     ZUC_ALG_ECDH, ZUC_ALG_ECDSA, ZUC_ALG_ECDSA_DETERMINISTIC]"

text \<open>The \<^verbatim>\<open>for\<close> loop of \<^verbatim>\<open>zuc_alg_by_name\<close> over its table.\<close>

fun alg_search :: "zuc_alg list \<Rightarrow> string \<Rightarrow> zuc_alg" where
  "alg_search [] name = ZUC_ALG_NONE"
| "alg_search (a # as) name =
    (case zuc_alg_name a of
       None \<Rightarrow> alg_search as name
     | Some candidate \<Rightarrow> if candidate = name then a else alg_search as name)"

definition zuc_alg_by_name :: "string option \<Rightarrow> zuc_alg" where
  "zuc_alg_by_name name =
    (case name of None \<Rightarrow> ZUC_ALG_NONE | Some s \<Rightarrow> alg_search all_algs s)"

definition zuc_alg_size :: "zuc_alg \<Rightarrow> size_t" where
  "zuc_alg_size alg =
    (if alg = ZUC_ALG_SHA1 then 20
     else if alg = ZUC_ALG_SHA256 then 32
     else if alg = ZUC_ALG_SHA384 then 48
     else if alg = ZUC_ALG_SHA512 then 64
     else 0)"

definition zuc_alg_available :: "zuc_alg \<Rightarrow> bool" where
  "zuc_alg_available alg =
    (if alg = ZUC_ALG_SHA1 \<and> defined_want PSA_WANT_ALG_SHA_1 then True
     else if alg = ZUC_ALG_SHA256 \<and> defined_want PSA_WANT_ALG_SHA_256 then True
     else if alg = ZUC_ALG_SHA384 \<and> defined_want PSA_WANT_ALG_SHA_384 then True
     else if alg = ZUC_ALG_SHA512 \<and> defined_want PSA_WANT_ALG_SHA_512 then True
     else if alg = ZUC_ALG_AES_GCM \<and> defined_want PSA_WANT_ALG_GCM then True
     else if alg = ZUC_ALG_RSA_OAEP \<and> defined_want PSA_WANT_ALG_RSA_OAEP then True
     else if alg = ZUC_ALG_RSA_PKCS1V15_CRYPT \<and> defined_want PSA_WANT_ALG_RSA_PKCS1V15_CRYPT then True
     else if alg = ZUC_ALG_RSA \<and> defined_want PSA_WANT_KEY_TYPE_RSA_KEY_PAIR_BASIC then True
     else if alg = ZUC_ALG_RSA_PKCS1V15_SIGN \<and> defined_want PSA_WANT_ALG_RSA_PKCS1V15_SIGN then True
     else if alg = ZUC_ALG_RSA_PSS \<and> defined_want PSA_WANT_ALG_RSA_PSS then True
     else if alg = ZUC_ALG_EC_P256 \<and> defined_want PSA_WANT_ECC_SECP_R1_256 then True
     else if alg = ZUC_ALG_EC_P384 \<and> defined_want PSA_WANT_ECC_SECP_R1_384 then True
     else if alg = ZUC_ALG_EC_P521 \<and> defined_want PSA_WANT_ECC_SECP_R1_521 then True
     else if alg = ZUC_ALG_X25519 \<and> defined_want PSA_WANT_ECC_MONTGOMERY_255 then True
     else if alg = ZUC_ALG_ECDH \<and> defined_want PSA_WANT_ALG_ECDH then True
     else if alg = ZUC_ALG_ECDSA \<and> defined_want PSA_WANT_ALG_ECDSA then True
     else if alg = ZUC_ALG_ECDSA_DETERMINISTIC \<and> defined_want PSA_WANT_ALG_DETERMINISTIC_ECDSA then True
     else False)"

definition zuc_int_digest_available :: "zuc_alg \<Rightarrow> bool" where
  "zuc_int_digest_available alg = (zuc_int_psa_hash alg \<noteq> 0 \<and> zuc_alg_available alg)"

section \<open>Lemmas\<close>

lemma defined_want_all [simp]: "defined_want w"
  by (cases w) (simp_all add: defined_want_def zuc_crypto_config_def)

lemma zuc_int_from_psa_OK_iff [simp]: "zuc_int_from_psa ps = ZUC_OK \<longleftrightarrow> ps = PSA_SUCCESS"
  by (simp add: zuc_int_from_psa_def)

lemma zuc_int_from_psa_0 [simp]: "zuc_int_from_psa 0 = ZUC_OK"
  by (simp add: zuc_int_from_psa_def)

text \<open>Codes the adapter reserves for its own checks never come out of the status mapping.\<close>

lemma zuc_int_from_psa_not_own [simp]:
  "zuc_int_from_psa ps \<noteq> ZUC_ERR_OVERLAP" "zuc_int_from_psa ps \<noteq> ZUC_ERR_ABI"
  "zuc_int_from_psa ps \<noteq> ZUC_ERR_NOT_READY" "zuc_int_from_psa ps \<noteq> ZUC_ERR_AUTH"
  by (simp_all add: zuc_int_from_psa_def)

lemma zuc_status_code_inj: "zuc_status_code s = zuc_status_code t \<Longrightarrow> s = t"
  by (cases s; cases t) simp_all

lemma zuc_alg_name_in_all: "zuc_alg_name a = Some s \<Longrightarrow> a \<in> set all_algs"
  by (simp add: zuc_alg_name_def all_algs_def split: if_splits)

lemma zuc_alg_name_all: "a \<in> set all_algs \<Longrightarrow> zuc_alg_name a \<noteq> None"
  by (auto simp: zuc_alg_name_def all_algs_def)

lemma distinct_alg_names: "distinct (map zuc_alg_name all_algs)"
  by (simp add: zuc_alg_name_def all_algs_def)

lemma zuc_alg_name_inj_all:
  "a \<in> set all_algs \<Longrightarrow> b \<in> set all_algs \<Longrightarrow> zuc_alg_name a = zuc_alg_name b \<Longrightarrow> a = b"
  using distinct_alg_names by (auto simp: distinct_map inj_on_def)

lemma zuc_alg_name_inj: "zuc_alg_name a = Some s \<Longrightarrow> zuc_alg_name b = Some s \<Longrightarrow> a = b"
  by (rule zuc_alg_name_inj_all) (simp_all add: zuc_alg_name_in_all)

lemma alg_search_sound:
  "alg_search as s \<noteq> ZUC_ALG_NONE \<Longrightarrow> zuc_alg_name (alg_search as s) = Some s"
  by (induction as) (auto split: option.splits)

lemma alg_search_complete:
  "a \<in> set as \<Longrightarrow> zuc_alg_name a = Some s \<Longrightarrow> alg_search as s = a"
  by (induction as) (auto split: option.splits dest: zuc_alg_name_inj)

lemma zuc_alg_name_none [simp]: "zuc_alg_name ZUC_ALG_NONE = None"
  by (simp add: zuc_alg_name_def)

lemma zuc_alg_available_iff: "zuc_alg_available alg \<longleftrightarrow> alg \<in> set all_algs"
  by (simp add: zuc_alg_available_def all_algs_def)

lemma zuc_int_digest_available_iff:
  "zuc_int_digest_available alg \<longleftrightarrow> alg \<in> {ZUC_ALG_SHA1, ZUC_ALG_SHA256, ZUC_ALG_SHA384, ZUC_ALG_SHA512}"
  by (auto simp: zuc_int_digest_available_def zuc_int_psa_hash_def zuc_alg_available_def)

lemma zuc_alg_size_le [simp]: "zuc_alg_size alg \<le> ZUC_MAX_DIGEST_SIZE"
  by (simp add: zuc_alg_size_def)

section \<open>Properties\<close>

text \<open>
  Names and algorithms round-trip. \<^verbatim>\<open>zuc_alg_by_name\<close> finds an algorithm exactly when that
  algorithm is the one \<^verbatim>\<open>zuc_alg_name\<close> gives that name, so the two functions are inverse to each
  other on the algorithms that have a name, and every other string, and NULL, gives
  \<^verbatim>\<open>ZUC_ALG_NONE\<close>.
\<close>

theorem zuc_alg_by_name_iff:
  "(alg \<noteq> ZUC_ALG_NONE \<and> zuc_alg_by_name name = alg) \<longleftrightarrow>
    (\<exists>s. name = Some s \<and> zuc_alg_name alg = Some s)"
proof (cases name)
  case (Some s)
  have "alg_search all_algs s = alg \<longleftrightarrow> zuc_alg_name alg = Some s" if "alg \<noteq> ZUC_ALG_NONE"
    using that alg_search_sound [of all_algs s] alg_search_complete zuc_alg_name_in_all by metis
  moreover have "zuc_alg_name alg = Some s \<Longrightarrow> alg \<noteq> ZUC_ALG_NONE"
    using zuc_alg_name_none by force
  ultimately show ?thesis
    using Some by (auto simp: zuc_alg_by_name_def)
qed (simp add: zuc_alg_by_name_def)

text \<open>
  The digest tables agree. A digest is offered exactly when it has a size, its size is then
  positive and fits \<^verbatim>\<open>ZUC_MAX_DIGEST_SIZE\<close>, it has a name, and two offered digests have the same
  backend algorithm or the same size only if they are the same digest.
\<close>

theorem zuc_int_digest_tables:
  "(zuc_int_digest_available alg \<longleftrightarrow> zuc_alg_size alg \<noteq> 0) \<and>
   zuc_alg_size alg \<le> ZUC_MAX_DIGEST_SIZE \<and>
   (zuc_alg_size alg = 0 \<or> (\<exists>s. zuc_alg_name alg = Some s \<and> zuc_alg_by_name (Some s) = alg)) \<and>
   (zuc_alg_size alg = 0 \<or> zuc_alg_size alg' \<noteq> zuc_alg_size alg \<or> alg' = alg) \<and>
   (zuc_int_psa_hash alg = 0 \<or> zuc_int_psa_hash alg' \<noteq> zuc_int_psa_hash alg \<or> alg' = alg)"
proof (intro conjI)
  show "zuc_alg_size alg = 0 \<or> (\<exists>s. zuc_alg_name alg = Some s \<and> zuc_alg_by_name (Some s) = alg)"
    by (auto simp: zuc_alg_size_def zuc_alg_name_def zuc_alg_by_name_def all_algs_def)
qed (auto simp: zuc_int_digest_available_iff zuc_alg_size_def zuc_int_psa_hash_def)

theorem zuc_int_digest_tables_witness:
  "zuc_alg_size ZUC_ALG_SHA384 = 48 \<and> zuc_int_digest_available ZUC_ALG_SHA384 \<and>
   zuc_alg_size ZUC_ALG_SHA512 \<noteq> zuc_alg_size ZUC_ALG_SHA384"
  using zuc_int_digest_tables [of ZUC_ALG_SHA384 ZUC_ALG_SHA512] by (simp add: zuc_alg_size_def)

text \<open>
  Status mapping. A backend status becomes \<^verbatim>\<open>ZUC_OK\<close> exactly when it is \<^verbatim>\<open>PSA_SUCCESS\<close>, never one of
  the codes the adapter keeps for its own checks, and each status of the adapter has a symbolic
  name and a message that no other status shares; a code outside the enumeration gets the
  answer for unknown codes.
\<close>

theorem zuc_status_mapping:
  "(zuc_int_from_psa ps = ZUC_OK \<longleftrightarrow> ps = PSA_SUCCESS) \<and>
   zuc_int_from_psa ps \<notin> {ZUC_ERR_OVERLAP, ZUC_ERR_ABI, ZUC_ERR_NOT_READY, ZUC_ERR_AUTH} \<and>
   (zuc_status_name (zuc_status_code s) = zuc_status_name c \<longleftrightarrow> c = zuc_status_code s) \<and>
   (zuc_status_string (zuc_status_code s) = zuc_status_string c \<longleftrightarrow> c = zuc_status_code s)"
proof (intro conjI)
  show "zuc_status_name (zuc_status_code s) = zuc_status_name c \<longleftrightarrow> c = zuc_status_code s"
    by (cases s) (simp_all add: zuc_status_name_def)
  show "zuc_status_string (zuc_status_code s) = zuc_status_string c \<longleftrightarrow> c = zuc_status_code s"
    by (cases s) (simp_all add: zuc_status_string_def)
qed simp_all

end
