(* ===== verification/Sha2.thy ===== *)
theory Sha2
  imports Md_Stream Status
begin

text \<open>
  SHA-256, SHA-384 and SHA-512 as the vendored backend implements them in
  \<^verbatim>\<open>src/src/vendor/tf-psa-crypto/lib/sha256.c\<close> and \<^verbatim>\<open>sha512.c\<close>: the unrolled compression functions with their
  rotating registers, and the update and finish functions with their two-word byte counts. The
  build has no SHA-224 and no Arm code path. The specification is FIPS 180-4, and the locale
  \<open>incremental\<close> is interpreted for each of the three digests.
\<close>

section \<open>Shared macros\<close>

definition ROTR :: "nat \<Rightarrow> ('w :: len) word \<Rightarrow> 'w word" where
  "ROTR n x = drop_bit n x OR push_bit (LENGTH('w) - n) x"

definition F0 :: "('w :: len) word \<Rightarrow> 'w word \<Rightarrow> 'w word \<Rightarrow> 'w word" where
  "F0 x y z = (x AND y) OR (z AND (x OR y))"

definition F1 :: "('w :: len) word \<Rightarrow> 'w word \<Rightarrow> 'w word \<Rightarrow> 'w word" where
  "F1 x y z = z XOR (x AND (y XOR z))"

text \<open>
  The macro \<^verbatim>\<open>P\<close> in round \<open>r\<close> of eight: its arguments \<^verbatim>\<open>a\<close> to \<^verbatim>\<open>h\<close> are the registers
  \<^verbatim>\<open>A[(j - r) mod 8]\<close>.
\<close>

definition reg :: "nat \<Rightarrow> nat \<Rightarrow> nat" where
  "reg r j = (j + 8 - r) mod 8"

definition sha2_P ::
  "(('w :: len) word \<Rightarrow> 'w word) \<Rightarrow> ('w word \<Rightarrow> 'w word) \<Rightarrow> nat \<Rightarrow> 'w word list \<Rightarrow> 'w word \<Rightarrow> 'w word \<Rightarrow>
   'w word list" where
  "sha2_P S2 S3 r A x k =
    (let a = A ! reg r 0; b = A ! reg r 1; c = A ! reg r 2; d = A ! reg r 3;
         e = A ! reg r 4; f = A ! reg r 5; g = A ! reg r 6; h = A ! reg r 7;
         temp1 = h + S3 e + F1 e f g + k + x;
         temp2 = S2 a + F0 a b c
     in A[reg r 3 := d + temp1, reg r 7 := temp1 + temp2])"

text \<open>Big-endian words of a byte list, and back.\<close>

definition get_be :: "nat \<Rightarrow> byte list \<Rightarrow> nat \<Rightarrow> ('w :: len) word" where
  "get_be n data off = foldl (\<lambda>w b. push_bit 8 w OR ucast b) 0 (take n (drop off data))"

definition put_be :: "nat \<Rightarrow> ('w :: len) word \<Rightarrow> byte list" where
  "put_be n w = map (\<lambda>i. ucast (drop_bit (8 * (n - 1 - i)) w)) [0..<n]"

lemma length_put_be [simp]: "length (put_be n w) = n"
  by (simp add: put_be_def)

section \<open>SHA-256: sha256.c\<close>

type_synonym mbedtls_sha256_context = "32 word md_context"

definition K256 :: "32 word list" where
  "K256 =
    [0x428A2F98, 0x71374491, 0xB5C0FBCF, 0xE9B5DBA5, 0x3956C25B, 0x59F111F1, 0x923F82A4, 0xAB1C5ED5,
     0xD807AA98, 0x12835B01, 0x243185BE, 0x550C7DC3, 0x72BE5D74, 0x80DEB1FE, 0x9BDC06A7, 0xC19BF174,
     0xE49B69C1, 0xEFBE4786, 0x0FC19DC6, 0x240CA1CC, 0x2DE92C6F, 0x4A7484AA, 0x5CB0A9DC, 0x76F988DA,
     0x983E5152, 0xA831C66D, 0xB00327C8, 0xBF597FC7, 0xC6E00BF3, 0xD5A79147, 0x06CA6351, 0x14292967,
     0x27B70A85, 0x2E1B2138, 0x4D2C6DFC, 0x53380D13, 0x650A7354, 0x766A0ABB, 0x81C2C92E, 0x92722C85,
     0xA2BFE8A1, 0xA81A664B, 0xC24B8B70, 0xC76C51A3, 0xD192E819, 0xD6990624, 0xF40E3585, 0x106AA070,
     0x19A4C116, 0x1E376C08, 0x2748774C, 0x34B0BCB5, 0x391C0CB3, 0x4ED8AA4A, 0x5B9CCA4F, 0x682E6FF3,
     0x748F82EE, 0x78A5636F, 0x84C87814, 0x8CC70208, 0x90BEFFFA, 0xA4506CEB, 0xBEF9A3F7, 0xC67178F2]"

definition sha256_S0 :: "32 word \<Rightarrow> 32 word" where
  "sha256_S0 x = ROTR 7 x XOR ROTR 18 x XOR drop_bit 3 x"

definition sha256_S1 :: "32 word \<Rightarrow> 32 word" where
  "sha256_S1 x = ROTR 17 x XOR ROTR 19 x XOR drop_bit 10 x"

definition sha256_S2 :: "32 word \<Rightarrow> 32 word" where
  "sha256_S2 x = ROTR 2 x XOR ROTR 13 x XOR ROTR 22 x"

definition sha256_S3 :: "32 word \<Rightarrow> 32 word" where
  "sha256_S3 x = ROTR 6 x XOR ROTR 11 x XOR ROTR 25 x"

text \<open>The macro \<^verbatim>\<open>R\<close>: the next word of the schedule.\<close>

definition sha256_R :: "32 word list \<Rightarrow> nat \<Rightarrow> 32 word" where
  "sha256_R W t = sha256_S1 (W ! (t - 2)) + W ! (t - 7) + sha256_S0 (W ! (t - 15)) + W ! (t - 16)"

text \<open>Round \<open>t\<close> of the two unrolled loops: words 0 to 15 come from the block, later ones from \<^verbatim>\<open>R\<close>.\<close>

definition sha256_step :: "32 word list \<times> 32 word list \<Rightarrow> nat \<Rightarrow> 32 word list \<times> 32 word list" where
  "sha256_step s t =
    (case s of (A, W) \<Rightarrow>
      let W = (if t < 16 then W else W @ [sha256_R W t])
      in (sha2_P sha256_S2 sha256_S3 (t mod 8) A (W ! t) (K256 ! t), W))"

definition mbedtls_internal_sha256_process :: "32 word list \<Rightarrow> byte list \<Rightarrow> 32 word list" where
  "mbedtls_internal_sha256_process st data =
    (let W = map (\<lambda>i. get_be 4 data (4 * i)) [0..<16];
         A = fst (foldl sha256_step (st, W) [0..<64])
     in map2 (+) st A)"

definition mbedtls_sha256_starts :: mbedtls_sha256_context where
  "mbedtls_sha256_starts =
    \<lparr>c_total0 = 0, c_total1 = 0,
     c_state = [0x6A09E667, 0xBB67AE85, 0x3C6EF372, 0xA54FF53A,
                0x510E527F, 0x9B05688C, 0x1F83D9AB, 0x5BE0CD19],
     c_buffer = replicate 64 0\<rparr>"

definition mbedtls_sha256_update :: "mbedtls_sha256_context \<Rightarrow> byte list \<Rightarrow> mbedtls_sha256_context" where
  "mbedtls_sha256_update ctx inp =
    (if length inp = 0 then ctx
     else
       let ilen = (of_nat (length inp) :: size_t);
           left = unat (c_total0 ctx AND 0x3F);
           total0 = c_total0 ctx + ucast ilen;
           total1 = (if total0 < ucast ilen then c_total1 ctx + 1 else c_total1 ctx);
           (st, bf) = buffer_update 64 mbedtls_internal_sha256_process left (c_state ctx) (c_buffer ctx) inp
       in \<lparr>c_total0 = total0, c_total1 = total1, c_state = st, c_buffer = bf\<rparr>)"

definition mbedtls_sha256_finish :: "mbedtls_sha256_context \<Rightarrow> byte list" where
  "mbedtls_sha256_finish ctx =
    (let used = unat (c_total0 ctx AND 0x3F);
         high = drop_bit 29 (c_total0 ctx) OR push_bit 3 (c_total1 ctx);
         low = push_bit 3 (c_total0 ctx);
         st = buffer_finish 64 mbedtls_internal_sha256_process used (c_state ctx) (c_buffer ctx)
                (put_be 4 high @ put_be 4 low)
     in concat (map (put_be 4) (take 8 st)))"

section \<open>SHA-512 and SHA-384: sha512.c\<close>

text \<open>The context has one more field, \<^verbatim>\<open>is384\<close>; it is an argument here.\<close>

type_synonym mbedtls_sha512_context = "64 word md_context"

definition K512 :: "64 word list" where
  "K512 =
    [0x428A2F98D728AE22, 0x7137449123EF65CD, 0xB5C0FBCFEC4D3B2F, 0xE9B5DBA58189DBBC,
     0x3956C25BF348B538, 0x59F111F1B605D019, 0x923F82A4AF194F9B, 0xAB1C5ED5DA6D8118,
     0xD807AA98A3030242, 0x12835B0145706FBE, 0x243185BE4EE4B28C, 0x550C7DC3D5FFB4E2,
     0x72BE5D74F27B896F, 0x80DEB1FE3B1696B1, 0x9BDC06A725C71235, 0xC19BF174CF692694,
     0xE49B69C19EF14AD2, 0xEFBE4786384F25E3, 0x0FC19DC68B8CD5B5, 0x240CA1CC77AC9C65,
     0x2DE92C6F592B0275, 0x4A7484AA6EA6E483, 0x5CB0A9DCBD41FBD4, 0x76F988DA831153B5,
     0x983E5152EE66DFAB, 0xA831C66D2DB43210, 0xB00327C898FB213F, 0xBF597FC7BEEF0EE4,
     0xC6E00BF33DA88FC2, 0xD5A79147930AA725, 0x06CA6351E003826F, 0x142929670A0E6E70,
     0x27B70A8546D22FFC, 0x2E1B21385C26C926, 0x4D2C6DFC5AC42AED, 0x53380D139D95B3DF,
     0x650A73548BAF63DE, 0x766A0ABB3C77B2A8, 0x81C2C92E47EDAEE6, 0x92722C851482353B,
     0xA2BFE8A14CF10364, 0xA81A664BBC423001, 0xC24B8B70D0F89791, 0xC76C51A30654BE30,
     0xD192E819D6EF5218, 0xD69906245565A910, 0xF40E35855771202A, 0x106AA07032BBD1B8,
     0x19A4C116B8D2D0C8, 0x1E376C085141AB53, 0x2748774CDF8EEB99, 0x34B0BCB5E19B48A8,
     0x391C0CB3C5C95A63, 0x4ED8AA4AE3418ACB, 0x5B9CCA4F7763E373, 0x682E6FF3D6B2B8A3,
     0x748F82EE5DEFB2FC, 0x78A5636F43172F60, 0x84C87814A1F0AB72, 0x8CC702081A6439EC,
     0x90BEFFFA23631E28, 0xA4506CEBDE82BDE9, 0xBEF9A3F7B2C67915, 0xC67178F2E372532B,
     0xCA273ECEEA26619C, 0xD186B8C721C0C207, 0xEADA7DD6CDE0EB1E, 0xF57D4F7FEE6ED178,
     0x06F067AA72176FBA, 0x0A637DC5A2C898A6, 0x113F9804BEF90DAE, 0x1B710B35131C471B,
     0x28DB77F523047D84, 0x32CAAB7B40C72493, 0x3C9EBE0A15C9BEBC, 0x431D67C49C100D4C,
     0x4CC5D4BECB3E42B6, 0x597F299CFC657E2A, 0x5FCB6FAB3AD6FAEC, 0x6C44198C4A475817]"

definition sha512_S0 :: "64 word \<Rightarrow> 64 word" where
  "sha512_S0 x = ROTR 1 x XOR ROTR 8 x XOR drop_bit 7 x"

definition sha512_S1 :: "64 word \<Rightarrow> 64 word" where
  "sha512_S1 x = ROTR 19 x XOR ROTR 61 x XOR drop_bit 6 x"

definition sha512_S2 :: "64 word \<Rightarrow> 64 word" where
  "sha512_S2 x = ROTR 28 x XOR ROTR 34 x XOR ROTR 39 x"

definition sha512_S3 :: "64 word \<Rightarrow> 64 word" where
  "sha512_S3 x = ROTR 14 x XOR ROTR 18 x XOR ROTR 41 x"

text \<open>The schedule loop, which fills \<^verbatim>\<open>W[16]\<close> to \<^verbatim>\<open>W[79]\<close> before the rounds.\<close>

definition sha512_extend :: "64 word list \<Rightarrow> nat \<Rightarrow> 64 word list" where
  "sha512_extend W i =
    W @ [sha512_S1 (W ! (i - 2)) + W ! (i - 7) + sha512_S0 (W ! (i - 15)) + W ! (i - 16)]"

definition mbedtls_internal_sha512_process :: "64 word list \<Rightarrow> byte list \<Rightarrow> 64 word list" where
  "mbedtls_internal_sha512_process st data =
    (let W = foldl sha512_extend (map (\<lambda>i. get_be 8 data (8 * i)) [0..<16]) [16..<80];
         A = foldl (\<lambda>A i. sha2_P sha512_S2 sha512_S3 (i mod 8) A (W ! i) (K512 ! i)) st [0..<80]
     in map2 (+) st A)"

definition mbedtls_sha512_starts :: "bool \<Rightarrow> mbedtls_sha512_context" where
  "mbedtls_sha512_starts is384 =
    \<lparr>c_total0 = 0, c_total1 = 0,
     c_state =
       (if \<not> is384 then
          [0x6A09E667F3BCC908, 0xBB67AE8584CAA73B, 0x3C6EF372FE94F82B, 0xA54FF53A5F1D36F1,
           0x510E527FADE682D1, 0x9B05688C2B3E6C1F, 0x1F83D9ABFB41BD6B, 0x5BE0CD19137E2179]
        else
          [0xCBBB9D5DC1059ED8, 0x629A292A367CD507, 0x9159015A3070DD17, 0x152FECD8F70E5939,
           0x67332667FFC00B31, 0x8EB44A8768581511, 0xDB0C2E0D64F98FA7, 0x47B5481DBEFA4FA4]),
     c_buffer = replicate 128 0\<rparr>"

definition mbedtls_sha512_update :: "mbedtls_sha512_context \<Rightarrow> byte list \<Rightarrow> mbedtls_sha512_context" where
  "mbedtls_sha512_update ctx inp =
    (if length inp = 0 then ctx
     else
       let ilen = (of_nat (length inp) :: size_t);
           left = unat (c_total0 ctx AND 0x7F);
           total0 = c_total0 ctx + ilen;
           total1 = (if total0 < ilen then c_total1 ctx + 1 else c_total1 ctx);
           (st, bf) = buffer_update 128 mbedtls_internal_sha512_process left (c_state ctx) (c_buffer ctx) inp
       in \<lparr>c_total0 = total0, c_total1 = total1, c_state = st, c_buffer = bf\<rparr>)"

definition mbedtls_sha512_finish :: "bool \<Rightarrow> mbedtls_sha512_context \<Rightarrow> byte list" where
  "mbedtls_sha512_finish is384 ctx =
    (let used = unat (c_total0 ctx AND 0x7F);
         high = drop_bit 61 (c_total0 ctx) OR push_bit 3 (c_total1 ctx);
         low = push_bit 3 (c_total0 ctx);
         st = buffer_finish 128 mbedtls_internal_sha512_process used (c_state ctx) (c_buffer ctx)
                (put_be 8 high @ put_be 8 low)
     in concat (map (put_be 8) (take (if is384 then 6 else 8) st)))"

section \<open>Specification: FIPS 180-4\<close>

definition Ch :: "('w :: len) word \<Rightarrow> 'w word \<Rightarrow> 'w word \<Rightarrow> 'w word" where
  "Ch x y z = (x AND y) XOR (NOT x AND z)"

definition Maj :: "('w :: len) word \<Rightarrow> 'w word \<Rightarrow> 'w word \<Rightarrow> 'w word" where
  "Maj x y z = (x AND y) XOR (x AND z) XOR (y AND z)"

text \<open>
  The functions of section 4.1 with rotations: three rotations for the capital sigmas, two and a
  shift for the small ones.
\<close>

definition rotr3 :: "nat \<Rightarrow> nat \<Rightarrow> nat \<Rightarrow> ('w :: len) word \<Rightarrow> 'w word" where
  "rotr3 a b c x = word_rotr a x XOR word_rotr b x XOR word_rotr c x"

definition rotr2_shr :: "nat \<Rightarrow> nat \<Rightarrow> nat \<Rightarrow> ('w :: len) word \<Rightarrow> 'w word" where
  "rotr2_shr a b c x = word_rotr a x XOR word_rotr b x XOR drop_bit c x"

text \<open>
  The constants of sections 4.2 and 5.3: \<open>x\<close> is the first \<open>w\<close> bits of the fraction of the \<open>k\<close>-th root
  of \<open>p\<close>; and the primes below 410, the first eighty.
\<close>

definition root_fraction :: "nat \<Rightarrow> nat \<Rightarrow> int \<Rightarrow> int \<Rightarrow> bool" where
  "root_fraction k w p x \<longleftrightarrow>
    (let r = last (takeWhile (\<lambda>r. r ^ k \<le> p) [1..21]); n = r * 2 ^ w + x
     in r < 21 \<and> 0 \<le> x \<and> x < 2 ^ w \<and> n ^ k \<le> p * 2 ^ (k * w) \<and> p * 2 ^ (k * w) < (n + 1) ^ k)"

definition small_primes :: "int list" where
  "small_primes = filter (\<lambda>p. list_all (\<lambda>d. p < d * d \<or> p mod d \<noteq> 0) [2..20]) [2..409]"

text \<open>The message schedule, sections 6.2.2 and 6.4.2.\<close>

function fips_W :: "(('w :: len) word \<Rightarrow> 'w word) \<Rightarrow> ('w word \<Rightarrow> 'w word) \<Rightarrow> (nat \<Rightarrow> 'w word) \<Rightarrow> nat \<Rightarrow> 'w word" where
  "fips_W s0 s1 M t =
    (if t < 16 then M t
     else s1 (fips_W s0 s1 M (t - 2)) + fips_W s0 s1 M (t - 7) + s0 (fips_W s0 s1 M (t - 15)) +
          fips_W s0 s1 M (t - 16))"
  by pat_completeness auto

termination
  by (relation "measure (\<lambda>(s0, s1, M, t). t)") auto

text \<open>One round on the working variables a to h: the registers shift.\<close>

definition fips_round ::
  "(('w :: len) word \<Rightarrow> 'w word) \<Rightarrow> ('w word \<Rightarrow> 'w word) \<Rightarrow> 'w word list \<Rightarrow> 'w word \<Rightarrow> 'w word \<Rightarrow> 'w word list"
  where
  "fips_round S0 S1 A x k =
    (let T1 = A ! 7 + S1 (A ! 4) + Ch (A ! 4) (A ! 5) (A ! 6) + k + x;
         T2 = S0 (A ! 0) + Maj (A ! 0) (A ! 1) (A ! 2)
     in [T1 + T2, A ! 0, A ! 1, A ! 2, A ! 3 + T1, A ! 4, A ! 5, A ! 6])"

definition sha256_compress :: "32 word list \<Rightarrow> byte list \<Rightarrow> 32 word list" where
  "sha256_compress H block =
    map2 (+) H (foldl (\<lambda>A t. fips_round (rotr3 2 13 22) (rotr3 6 11 25) A
      (fips_W (rotr2_shr 7 18 3) (rotr2_shr 17 19 10) (\<lambda>i. get_be 4 block (4 * i)) t) (K256 ! t)) H [0..<64])"

definition sha512_compress :: "64 word list \<Rightarrow> byte list \<Rightarrow> 64 word list" where
  "sha512_compress H block =
    map2 (+) H (foldl (\<lambda>A t. fips_round (rotr3 28 34 39) (rotr3 14 18 41) A
      (fips_W (rotr2_shr 1 8 7) (rotr2_shr 19 61 6) (\<lambda>i. get_be 8 block (8 * i)) t) (K512 ! t)) H [0..<80])"

text \<open>The digests: pad with the length in bits, compress block by block, write the state.\<close>

definition sha256_digest :: "byte list \<Rightarrow> byte list" where
  "sha256_digest m =
    concat (map (put_be 4) (md_state 64 sha256_compress (c_state mbedtls_sha256_starts)
      (m @ padding 64 (length m) (put_be 8 (of_nat (8 * length m) :: 64 word)))))"

definition sha512_digest :: "bool \<Rightarrow> byte list \<Rightarrow> byte list" where
  "sha512_digest is384 m =
    concat (map (put_be 8) (take (if is384 then 6 else 8)
      (md_state 128 sha512_compress (c_state (mbedtls_sha512_starts is384))
        (m @ padding 128 (length m) (put_be 16 (of_nat (8 * length m) :: 128 word))))))"

section \<open>Lemmas: rounds\<close>

lemma F0_Maj: "F0 x y z = Maj x y z"
  unfolding F0_def Maj_def by (rule bit_word_eqI) (auto simp: bit_simps)

lemma F1_Ch: "F1 x y z = Ch x y z"
  unfolding F1_def Ch_def by (rule bit_word_eqI) (auto simp: bit_simps)

lemma ROTR_rotr:
  assumes "n < LENGTH('w :: len)"
  shows "ROTR n (x :: 'w word) = word_rotr n x"
proof (rule bit_word_eqI)
  fix m
  assume m: "m < LENGTH('w)"
  show "bit (ROTR n x) m \<longleftrightarrow> bit (word_rotr n x) m"
  proof (cases "m + n < LENGTH('w)")
    case True
    then show ?thesis
      using assms m by (auto simp: ROTR_def bit_simps bit_word_rotr_iff add.commute)
  next
    case False
    then have "(m + n) mod LENGTH('w) = m + n - LENGTH('w)"
      using assms m by (simp add: mod_if)
    moreover have "\<not> bit x (n + m)"
      using False by (auto dest: bit_imp_le_length)
    moreover have "LENGTH('w) - n \<le> m" "m - (LENGTH('w) - n) = m + n - LENGTH('w)"
      using False assms by linarith+
    ultimately show ?thesis
      using assms m by (simp add: ROTR_def bit_simps bit_word_rotr_iff)
  qed
qed

lemma sigma256:
  "sha256_S0 = rotr2_shr 7 18 3" "sha256_S1 = rotr2_shr 17 19 10"
  "sha256_S2 = rotr3 2 13 22" "sha256_S3 = rotr3 6 11 25"
  by (simp_all add: fun_eq_iff sha256_S0_def sha256_S1_def sha256_S2_def sha256_S3_def
      rotr3_def rotr2_shr_def ROTR_rotr)

lemma sigma512:
  "sha512_S0 = rotr2_shr 1 8 7" "sha512_S1 = rotr2_shr 19 61 6"
  "sha512_S2 = rotr3 28 34 39" "sha512_S3 = rotr3 14 18 41"
  by (simp_all add: fun_eq_iff sha512_S0_def sha512_S1_def sha512_S2_def sha512_S3_def
      rotr3_def rotr2_shr_def ROTR_rotr)

text \<open>The working variables that the registers stand for in round \<open>r\<close>.\<close>

definition view :: "nat \<Rightarrow> ('w :: len) word list \<Rightarrow> 'w word list" where
  "view r A = map (\<lambda>j. A ! reg r j) [0..<8]"

lemma list8:
  assumes "length A = 8"
  obtains a b c d e f g h where "A = [a, b, c, d, e, f, g, h]"
  using assms by (auto simp: numeral_eq_Suc length_Suc_conv)

lemma length_sha2_P [simp]: "length (sha2_P S2 S3 r A x k) = length A"
  by (simp add: sha2_P_def Let_def)

lemma view_0: "length A = 8 \<Longrightarrow> view 0 A = A"
  by (erule list8) (simp add: view_def reg_def upt_rec)

lemma view_sha2_P_mod:
  assumes "length A = 8" "r < 8"
  shows "view ((r + 1) mod 8) (sha2_P S2 S3 r A x k) = fips_round S2 S3 (view r A) x k"
proof -
  obtain a b c d e f g h where A: "A = [a, b, c, d, e, f, g, h]"
    using assms(1) by (rule list8)
  have "r = 0 \<or> r = 1 \<or> r = 2 \<or> r = 3 \<or> r = 4 \<or> r = 5 \<or> r = 6 \<or> r = 7"
    using assms(2) by linarith
  then show ?thesis
    unfolding A view_def sha2_P_def fips_round_def F0_Maj F1_Ch
    by (elim disjE) (simp_all add: reg_def upt_rec Let_def)
qed

lemma view_sha2_P:
  assumes "length A = 8"
  shows "view (Suc t mod 8) (sha2_P S2 S3 (t mod 8) A x k) = fips_round S2 S3 (view (t mod 8) A) x k"
  using view_sha2_P_mod [OF assms, of "t mod 8"] by (simp add: mod_Suc_eq)

declare fips_W.simps [simp del]

lemma fips_W_small: "t < 16 \<Longrightarrow> fips_W s0 s1 M t = M t"
  by (simp add: fips_W.simps)

lemma sha256_R_fips:
  assumes "16 \<le> t"
  shows "sha256_R (map (fips_W sha256_S0 sha256_S1 M) [0..<t]) t = fips_W sha256_S0 sha256_S1 M t"
  using assms by (subst fips_W.simps) (simp add: sha256_R_def)

lemma sha256_rounds:
  fixes data :: "byte list"
  assumes "length st = 8"
  defines "w \<equiv> fips_W sha256_S0 sha256_S1 (\<lambda>i. get_be 4 data (4 * i))"
  shows "case foldl sha256_step (st, map w [0..<16]) [0..<n] of (A, W) \<Rightarrow>
    W = map w [0..<max 16 n] \<and> length A = 8 \<and>
    view (n mod 8) A = foldl (\<lambda>A t. fips_round sha256_S2 sha256_S3 A (w t) (K256 ! t)) st [0..<n]"
proof (induction n)
  case 0
  then show ?case using assms by (simp add: view_0)
next
  case (Suc n)
  obtain A W where AW: "foldl sha256_step (st, map w [0..<16]) [0..<n] = (A, W)" by force
  with Suc have W: "W = map w [0..<max 16 n]" and A: "length A = 8"
    and v: "view (n mod 8) A = foldl (\<lambda>A t. fips_round sha256_S2 sha256_S3 A (w t) (K256 ! t)) st [0..<n]"
    by simp_all
  have W': "(if n < 16 then W else W @ [sha256_R W n]) = map w [0..<max 16 (Suc n)]"
  proof (cases "n < 16")
    case False
    then show ?thesis
      using W sha256_R_fips [of n] by (simp add: max_def w_def)
  next
    case True
    then have "max 16 n = 16" "max 16 (Suc n) = 16" by simp_all
    then show ?thesis using W True by simp
  qed
  let ?W = "map w [0..<max 16 (Suc n)]"
  have "?W ! n = w n"
    by (simp del: upt_Suc)
  then have "foldl sha256_step (st, map w [0..<16]) [0..<Suc n] =
      (sha2_P sha256_S2 sha256_S3 (n mod 8) A (w n) (K256 ! n), ?W)"
    using AW W' sha256_step_def [of "(A, W)" n] by (simp add: Let_def)
  then show ?case
    using A v view_sha2_P [OF A, of n] by (simp del: upt_Suc) simp
qed

lemma sha256_process_fips:
  assumes "length st = 8"
  shows "mbedtls_internal_sha256_process st data = sha256_compress st data"
proof -
  let ?w = "fips_W sha256_S0 sha256_S1 (\<lambda>i. get_be 4 data (4 * i))"
  have W: "map (\<lambda>i. get_be 4 data (4 * i)) [0..<16] = map ?w [0..<16]"
    by (simp add: fips_W_small)
  show ?thesis
    using sha256_rounds [OF assms, of data 64]
    unfolding mbedtls_internal_sha256_process_def sha256_compress_def Let_def W sigma256 [symmetric]
    by (auto simp: view_0 split: prod.splits)
qed

lemma sha512_schedule:
  "16 \<le> n \<Longrightarrow> foldl sha512_extend (map (fips_W sha512_S0 sha512_S1 M) [0..<16]) [16..<n] =
    map (fips_W sha512_S0 sha512_S1 M) [0..<n]"
proof (induction n rule: nat_induct_at_least)
  case (Suc n)
  then show ?case
    by (simp add: sha512_extend_def fips_W.simps [of _ _ _ n])
qed simp

lemma sha512_rounds:
  assumes "length st = 8"
  shows "length (foldl (\<lambda>A i. sha2_P sha512_S2 sha512_S3 (i mod 8) A (w i) (K512 ! i)) st [0..<n]) = 8 \<and>
    view (n mod 8) (foldl (\<lambda>A i. sha2_P sha512_S2 sha512_S3 (i mod 8) A (w i) (K512 ! i)) st [0..<n]) =
      foldl (\<lambda>A t. fips_round sha512_S2 sha512_S3 A (w t) (K512 ! t)) st [0..<n]"
  by (induction n) (simp_all add: assms view_0 view_sha2_P)

lemma sha512_process_fips:
  assumes "length st = 8"
  shows "mbedtls_internal_sha512_process st data = sha512_compress st data"
proof -
  let ?w = "fips_W sha512_S0 sha512_S1 (\<lambda>i. get_be 8 data (8 * i))"
  have W0: "map (\<lambda>i. get_be 8 data (8 * i)) [0..<16] = map ?w [0..<16]"
    by (simp add: fips_W_small)
  have W: "foldl sha512_extend (map (\<lambda>i. get_be 8 data (8 * i)) [0..<16]) [16..<80] = map ?w [0..<80]"
    unfolding W0 by (rule sha512_schedule) simp
  let ?A = "foldl (\<lambda>A i. sha2_P sha512_S2 sha512_S3 (i mod 8) A (?w i) (K512 ! i)) st [0..<80]"
  have eq: "foldl (\<lambda>A i. sha2_P sha512_S2 sha512_S3 (i mod 8) A (map ?w [0..<80] ! i) (K512 ! i)) st [0..<80] = ?A"
    by (rule foldl_cong) simp_all
  have "?A = foldl (\<lambda>A t. fips_round sha512_S2 sha512_S3 A (?w t) (K512 ! t)) st [0..<80]"
    using sha512_rounds [OF assms, of ?w 80] view_0 [of ?A] by simp
  then show ?thesis
    unfolding mbedtls_internal_sha512_process_def sha512_compress_def Let_def W eq
      sigma512 [symmetric] by (rule arg_cong)
qed

section \<open>Lemmas: streams\<close>

lemma put_be_append:
  fixes high low :: "('v :: len) word" and T :: "('w :: len) word"
  assumes "\<And>i. i < 8 * a \<Longrightarrow> bit high i \<longleftrightarrow> bit T (i + 8 * b)" "\<And>i. i < 8 * b \<Longrightarrow> bit low i \<longleftrightarrow> bit T i"
  shows "put_be a high @ put_be b low = put_be (a + b) T"
proof (rule nth_equalityI)
  fix i
  assume "i < length (put_be a high @ put_be b low)"
  then have i: "i < a + b" by (simp add: put_be_def)
  show "(put_be a high @ put_be b low) ! i = put_be (a + b) T ! i"
  proof (rule bit_word_eqI)
    fix m
    assume m: "m < LENGTH(8)"
    show "bit ((put_be a high @ put_be b low) ! i) m \<longleftrightarrow> bit (put_be (a + b) T ! i) m"
    proof (cases "i < a")
      case True
      have "8 * (a + b - 1 - i) + m = 8 * (a - 1 - i) + m + 8 * b" "8 * (a - 1 - i) + m < 8 * a"
        using True m by auto
      then show ?thesis
        using True i m assms(1) by (simp add: put_be_def nth_append bit_simps ac_simps)
    next
      case False
      have "8 * (a + b - 1 - i) = 8 * (b - 1 - (i - a))" "8 * (b - 1 - (i - a)) + m < 8 * b" "i - a < b"
        using False i m by auto
      then show ?thesis
        using False i m assms(2) by (simp add: put_be_def nth_append bit_simps)
    qed
  qed
qed (simp add: put_be_def)

text \<open>The two length words of a finish are the length in bits.\<close>

lemma encoded_length:
  fixes t0 t1 :: "('w :: len) word"
  assumes c: "counted t0 t1 n" and w: "LENGTH('w) = 8 * k" "LENGTH('v :: len) = 2 * LENGTH('w)" "0 < k"
  shows "put_be k (drop_bit (LENGTH('w) - 3) t0 OR push_bit 3 t1) @ put_be k (push_bit 3 t0) =
    put_be (k + k) (of_nat (8 * n) :: 'v word)"
proof (rule put_be_append)
  have t: "t0 = of_nat n" "t1 = of_nat (n div 2 ^ LENGTH('w))" using c by (simp_all add: counted_def)
  have T: "bit (of_nat (8 * n) :: 'v word) j \<longleftrightarrow> j < LENGTH('v) \<and> 3 \<le> j \<and> bit n (j - 3)" for j
    using bit_push_bit_iff [of 3 n j] bit_of_nat_iff [of "8 * n" j, where 'a = "'v word"]
    by (simp add: push_bit_eq_mult mult.commute)
  fix i
  show "i < 8 * k \<Longrightarrow> bit (push_bit 3 t0) i \<longleftrightarrow> bit (of_nat (8 * n) :: 'v word) i"
    unfolding T t using w by (auto simp: bit_simps bit_of_nat_iff)
  assume i: "i < 8 * k"
  have k: "i + (8 * k - 3) = i + 8 * k - 3" "3 \<le> i + 8 * k" "i - 3 < 8 * k"
    and k': "3 \<le> i \<Longrightarrow> i - 3 + 8 * k = i + 8 * k - 3"
    using w(3) i by linarith+
  have "i < 3 \<longleftrightarrow> i + 8 * k - 3 < 8 * k" using w(3) by linarith
  with i show "bit (drop_bit (LENGTH('w) - 3) t0 OR push_bit 3 t1) i \<longleftrightarrow>
      bit (of_nat (8 * n) :: 'v word) (i + 8 * k)"
    unfolding T t using w
    by (cases "i < 3") (auto simp: bit_simps bit_of_nat_iff add.commute k k' i simp flip: drop_bit_eq_div)
qed

definition sha256_absorbed :: "mbedtls_sha256_context \<Rightarrow> byte list \<Rightarrow> bool" where
  "sha256_absorbed = absorbs 6 mbedtls_internal_sha256_process (c_state mbedtls_sha256_starts)"

definition sha512_absorbed :: "bool \<Rightarrow> mbedtls_sha512_context \<Rightarrow> byte list \<Rightarrow> bool" where
  "sha512_absorbed is384 = absorbs 7 mbedtls_internal_sha512_process (c_state (mbedtls_sha512_starts is384))"

text \<open>Cutting a short length to 32 bits loses nothing.\<close>

lemma ilen_32: "(ucast (of_nat n :: size_t) :: 32 word) = of_nat n"
  by (rule bit_word_eqI) (simp add: bit_simps bit_of_nat_iff)

lemma length_fips_rounds [simp]:
  "length st = 8 \<Longrightarrow> length (foldl (\<lambda>A t. fips_round S0 S1 A (w t) (K ! t)) st [0..<n]) = 8"
  by (induction n) (simp_all add: fips_round_def Let_def)

lemma length_compress:
  "length st = 8 \<Longrightarrow> length (sha256_compress st b) = 8"
  "length st' = 8 \<Longrightarrow> length (sha512_compress st' b) = 8"
  by (simp_all add: sha256_compress_def sha512_compress_def)

lemma md_state_fips:
  "length st = 8 \<Longrightarrow> md_state B mbedtls_internal_sha256_process st m = md_state B sha256_compress st m \<and>
     length (md_state B sha256_compress st m) = 8"
  "length st' = 8 \<Longrightarrow> md_state B mbedtls_internal_sha512_process st' m = md_state B sha512_compress st' m \<and>
     length (md_state B sha512_compress st' m) = 8"
  using process_many_cong [of "\<lambda>st. length st = 8" st mbedtls_internal_sha256_process sha256_compress B m]
    process_many_cong [of "\<lambda>st. length st = 8" st' mbedtls_internal_sha512_process sha512_compress B m]
  by (simp_all add: md_state_def sha256_process_fips sha512_process_fips length_compress)

lemma masks: "(0x3F :: 32 word) = mask 6" "(0x7F :: 64 word) = mask 7"
  by (simp_all add: mask_eq_exp_minus_1)

lemma length_starts:
  "length (c_state mbedtls_sha256_starts) = 8" "length (c_state (mbedtls_sha512_starts is384)) = 8"
  by (simp_all add: mbedtls_sha256_starts_def mbedtls_sha512_starts_def)

lemma sha256_update_absorbed:
  assumes a: "sha256_absorbed c m" and d: "length d < 2 ^ 32"
  shows "sha256_absorbed (mbedtls_sha256_update c d) (m @ d)"
proof (cases "length d = 0")
  case False
  note a' = a [unfolded sha256_absorbed_def]
  obtain st bf where u: "buffer_update 64 mbedtls_internal_sha256_process (length m mod 64)
      (c_state c) (c_buffer c) d = (st, bf)" by force
  show ?thesis
    using absorbs_update [OF a', of d st bf] absorbs_left [OF a'] u d False
    by (simp add: mbedtls_sha256_update_def Let_def masks ilen_32 sha256_absorbed_def)
qed (use a in \<open>simp add: mbedtls_sha256_update_def\<close>)

lemma sha512_update_absorbed:
  assumes a: "sha512_absorbed is384 c m" and d: "length d < 2 ^ 64"
  shows "sha512_absorbed is384 (mbedtls_sha512_update c d) (m @ d)"
proof (cases "length d = 0")
  case False
  note a' = a [unfolded sha512_absorbed_def]
  obtain st bf where u: "buffer_update 128 mbedtls_internal_sha512_process (length m mod 128)
      (c_state c) (c_buffer c) d = (st, bf)" by force
  show ?thesis
    using absorbs_update [OF a', of d st bf] absorbs_left [OF a'] u d False
    by (simp add: mbedtls_sha512_update_def Let_def masks sha512_absorbed_def)
qed (use a in \<open>simp add: mbedtls_sha512_update_def\<close>)

lemma sha256_finish_digest:
  assumes "sha256_absorbed c m"
  shows "mbedtls_sha256_finish c = sha256_digest m"
proof -
  note a = assms [unfolded sha256_absorbed_def]
  have c: "counted (c_total0 c) (c_total1 c) (length m)"
    and h: "holds 64 mbedtls_internal_sha256_process (c_state mbedtls_sha256_starts) (c_state c) (c_buffer c) m"
    using a by (simp_all add: absorbs_def)
  show ?thesis
    using encoded_length [OF c, of 4, where 'v = 64] holds_finish [OF h] absorbs_left [OF a]
      length_starts(1) md_state_fips(1)
    by (simp add: mbedtls_sha256_finish_def sha256_digest_def Let_def masks put_be_def [of 8])
qed

lemma sha512_finish_digest:
  assumes "sha512_absorbed is384 c m"
  shows "mbedtls_sha512_finish is384 c = sha512_digest is384 m"
proof -
  note a = assms [unfolded sha512_absorbed_def]
  have c: "counted (c_total0 c) (c_total1 c) (length m)"
    and h: "holds 128 mbedtls_internal_sha512_process (c_state (mbedtls_sha512_starts is384))
      (c_state c) (c_buffer c) m"
    using a by (simp_all add: absorbs_def)
  show ?thesis
    using encoded_length [OF c, of 8, where 'v = 128] holds_finish [OF h] absorbs_left [OF a]
      length_starts(2) md_state_fips(2)
    by (simp add: mbedtls_sha512_finish_def sha512_digest_def Let_def masks put_be_def [of 16])
qed

section \<open>The incremental interface\<close>

interpretation sha256: incremental mbedtls_sha256_starts mbedtls_sha256_update mbedtls_sha256_finish
  sha256_absorbed sha256_digest "2 ^ 32"
proof unfold_locales
  show "sha256_absorbed mbedtls_sha256_starts []"
    by (simp add: sha256_absorbed_def absorbs_def counted_def holds_start mbedtls_sha256_starts_def)
qed (simp_all add: sha256_update_absorbed sha256_finish_digest)

interpretation sha512: incremental "mbedtls_sha512_starts is384" mbedtls_sha512_update
  "mbedtls_sha512_finish is384" "sha512_absorbed is384" "sha512_digest is384" "2 ^ 64" for is384
proof unfold_locales
  show "sha512_absorbed is384 (mbedtls_sha512_starts is384) []"
    by (simp add: sha512_absorbed_def absorbs_def counted_def holds_start mbedtls_sha512_starts_def)
qed (simp_all add: sha512_update_absorbed sha512_finish_digest)

section \<open>Properties: constants\<close>

lemma small_primes_list:
  "small_primes =
    [2, 3, 5, 7, 11, 13, 17, 19, 23, 29, 31, 37, 41, 43, 47, 53, 59, 61, 67, 71, 73, 79, 83, 89, 97,
     101, 103, 107, 109, 113, 127, 131, 137, 139, 149, 151, 157, 163, 167, 173, 179, 181, 191, 193,
     197, 199, 211, 223, 227, 229, 233, 239, 241, 251, 257, 263, 269, 271, 277, 281, 283, 293, 307,
     311, 313, 317, 331, 337, 347, 349, 353, 359, 367, 373, 379, 383, 389, 397, 401, 409]"
  by code_simp

text \<open>
  However the message is cut into updates, each shorter than the limit of the byte count, the
  vendored SHA-256, SHA-384 and SHA-512 return the digest FIPS 180-4 defines for the whole message.
\<close>

theorem sha2_incremental:
  "(list_all (\<lambda>d. length d < 2 ^ 32) ds \<longrightarrow>
     mbedtls_sha256_finish (foldl mbedtls_sha256_update mbedtls_sha256_starts ds) = sha256_digest (concat ds)) \<and>
   (list_all (\<lambda>d. length d < 2 ^ 64) ds \<longrightarrow>
     mbedtls_sha512_finish is384 (foldl mbedtls_sha512_update (mbedtls_sha512_starts is384) ds) =
       sha512_digest is384 (concat ds))"
  using sha256.finish_chunks [of ds] sha512.finish_chunks [of ds is384] by (simp add: list_all_iff)

theorem sha2_incremental_witness:
  "mbedtls_sha256_finish (foldl mbedtls_sha256_update mbedtls_sha256_starts [[0x61], [], [0x62, 0x63]]) =
     sha256_digest [0x61, 0x62, 0x63] \<and>
   mbedtls_sha512_finish True (foldl mbedtls_sha512_update (mbedtls_sha512_starts True) [[0x61], [], [0x62, 0x63]]) =
     sha512_digest True [0x61, 0x62, 0x63]"
  using sha2_incremental [of "[[0x61], [], [0x62, 0x63]]" True] by simp

lemma ucast_push_bit_32: "(ucast (push_bit 32 (x :: size_t)) :: 32 word) = 0"
  by (rule bit_word_eqI) (simp add: bit_simps)

text \<open>
  C38. A single SHA-256 update of a multiple of 4 GiB is not counted at all: the count keeps its
  value, because the length is cut to 32 bits before it is added. The limit of the previous
  property is therefore needed.
\<close>

theorem sha256_update_loses_length:
  assumes "0 < k" "length inp = k * 2 ^ 32"
  shows "c_total0 (mbedtls_sha256_update ctx inp) = c_total0 ctx \<and>
    c_total1 (mbedtls_sha256_update ctx inp) = c_total1 ctx"
proof -
  have "(ucast (of_nat (k * 2 ^ 32) :: size_t) :: 32 word) = 0"
    using arg_cong [of _ _ "ucast :: size_t \<Rightarrow> 32 word", OF push_bit_eq_mult [of 32 "of_nat k"]]
      ucast_push_bit_32 by simp
  then show ?thesis
    using assms by (simp add: mbedtls_sha256_update_def Let_def split: prod.splits)
qed

theorem sha256_update_loses_length_witness:
  "c_total0 (mbedtls_sha256_update mbedtls_sha256_starts (replicate (2 ^ 32) 0)) = 0"
  using sha256_update_loses_length [of 1 "replicate (2 ^ 32) 0" mbedtls_sha256_starts]
  by (simp add: mbedtls_sha256_starts_def)

text \<open>
  The constants are those of FIPS 180-4: both round tables are the fractions of the cube
  roots of the first 64 and 80 primes, and the three initial states are the fractions of the
  square roots of the first eight and, for SHA-384, the next eight primes.
\<close>

theorem sha2_constants:
  "list_all2 (root_fraction 3 32) (take 64 small_primes) (map uint K256) \<and>
   list_all2 (root_fraction 3 64) small_primes (map uint K512) \<and>
   list_all2 (root_fraction 2 32) (take 8 small_primes) (map uint (c_state mbedtls_sha256_starts)) \<and>
   list_all2 (root_fraction 2 64) (take 8 small_primes) (map uint (c_state (mbedtls_sha512_starts False))) \<and>
   list_all2 (root_fraction 2 64) (take 8 (drop 8 small_primes)) (map uint (c_state (mbedtls_sha512_starts True)))"
  unfolding small_primes_list by (intro conjI) code_simp+

end
