(* ===== verification/Sha1.thy ===== *)
theory Sha1
  imports Sha2
begin

text \<open>
  SHA-1 as \<^verbatim>\<open>src/src/vendor/tf-psa-crypto/lib/sha1.c\<close> implements it: the compression function keeps
  only sixteen schedule words, in a ring, and rotates the roles of its five registers. The
  specification is FIPS 180-4 section 6.1; the locale \<open>incremental\<close> is interpreted for it.
\<close>

section \<open>The code\<close>

type_synonym mbedtls_sha1_context = "32 word md_context"

definition S_rotl :: "32 word \<Rightarrow> nat \<Rightarrow> 32 word" where
  "S_rotl x n = push_bit n x OR drop_bit (32 - n) x"

text \<open>The macros \<^verbatim>\<open>F\<close> and \<^verbatim>\<open>K\<close>, redefined before each of the four groups of twenty rounds.\<close>

definition sha1_F :: "nat \<Rightarrow> 32 word \<Rightarrow> 32 word \<Rightarrow> 32 word \<Rightarrow> 32 word" where
  "sha1_F t x y z =
    (if t < 20 then z XOR (x AND (y XOR z))
     else if t < 40 then x XOR y XOR z
     else if t < 60 then (x AND y) OR (z AND (x OR y))
     else x XOR y XOR z)"

definition sha1_K :: "nat \<Rightarrow> 32 word" where
  "sha1_K t =
    (if t < 20 then 0x5A827999 else if t < 40 then 0x6ED9EBA1 else if t < 60 then 0x8F1BBCDC else 0xCA62C1D6)"

text \<open>The register that is argument \<open>j\<close> of the macro \<^verbatim>\<open>P\<close> in round \<open>t\<close>.\<close>

definition reg5 :: "nat \<Rightarrow> nat \<Rightarrow> nat" where
  "reg5 t j = (j + 5 - t mod 5) mod 5"

definition sha1_P :: "nat \<Rightarrow> 32 word list \<Rightarrow> 32 word \<Rightarrow> 32 word list" where
  "sha1_P t A x =
    (let a = A ! reg5 t 0; b = A ! reg5 t 1; c = A ! reg5 t 2; d = A ! reg5 t 3; e = A ! reg5 t 4
     in A[reg5 t 4 := e + (S_rotl a 5 + sha1_F t b c d + sha1_K t + x), reg5 t 1 := S_rotl b 30])"

definition sha1_R :: "32 word list \<Rightarrow> nat \<Rightarrow> 32 word" where
  "sha1_R W t =
    S_rotl (W ! ((t - 3) mod 16) XOR W ! ((t - 8) mod 16) XOR W ! ((t - 14) mod 16) XOR W ! (t mod 16)) 1"

definition sha1_step :: "32 word list \<times> 32 word list \<Rightarrow> nat \<Rightarrow> 32 word list \<times> 32 word list" where
  "sha1_step s t =
    (case s of (A, W) \<Rightarrow>
      if t < 16 then (sha1_P t A (W ! t), W)
      else (sha1_P t A (sha1_R W t), W[t mod 16 := sha1_R W t]))"

definition mbedtls_internal_sha1_process :: "32 word list \<Rightarrow> byte list \<Rightarrow> 32 word list" where
  "mbedtls_internal_sha1_process st data =
    (let W = map (\<lambda>i. get_be 4 data (4 * i)) [0..<16];
         A = fst (foldl sha1_step (st, W) [0..<80])
     in map2 (+) st A)"

definition mbedtls_sha1_starts :: mbedtls_sha1_context where
  "mbedtls_sha1_starts =
    \<lparr>c_total0 = 0, c_total1 = 0,
     c_state = [0x67452301, 0xEFCDAB89, 0x98BADCFE, 0x10325476, 0xC3D2E1F0],
     c_buffer = replicate 64 0\<rparr>"

definition mbedtls_sha1_update :: "mbedtls_sha1_context \<Rightarrow> byte list \<Rightarrow> mbedtls_sha1_context" where
  "mbedtls_sha1_update ctx inp =
    (if length inp = 0 then ctx
     else
       let ilen = (of_nat (length inp) :: size_t);
           left = unat (c_total0 ctx AND 0x3F);
           total0 = c_total0 ctx + ucast ilen;
           total1 = (if total0 < ucast ilen then c_total1 ctx + 1 else c_total1 ctx);
           (st, bf) = buffer_update 64 mbedtls_internal_sha1_process left (c_state ctx) (c_buffer ctx) inp
       in \<lparr>c_total0 = total0, c_total1 = total1, c_state = st, c_buffer = bf\<rparr>)"

definition mbedtls_sha1_finish :: "mbedtls_sha1_context \<Rightarrow> byte list" where
  "mbedtls_sha1_finish ctx =
    (let used = unat (c_total0 ctx AND 0x3F);
         high = drop_bit 29 (c_total0 ctx) OR push_bit 3 (c_total1 ctx);
         low = push_bit 3 (c_total0 ctx);
         st = buffer_finish 64 mbedtls_internal_sha1_process used (c_state ctx) (c_buffer ctx)
                (put_be 4 high @ put_be 4 low)
     in concat (map (put_be 4) (take 5 st)))"

section \<open>Specification: FIPS 180-4 section 6.1\<close>

function sha1_W :: "(nat \<Rightarrow> 32 word) \<Rightarrow> nat \<Rightarrow> 32 word" where
  "sha1_W M t =
    (if t < 16 then M t
     else word_rotl 1 (sha1_W M (t - 3) XOR sha1_W M (t - 8) XOR sha1_W M (t - 14) XOR sha1_W M (t - 16)))"
  by pat_completeness auto

termination
  by (relation "measure (\<lambda>(M, t). t)") auto

definition sha1_f :: "nat \<Rightarrow> 32 word \<Rightarrow> 32 word \<Rightarrow> 32 word \<Rightarrow> 32 word" where
  "sha1_f t x y z =
    (if t < 20 then Ch x y z
     else if 40 \<le> t \<and> t < 60 then Maj x y z
     else x XOR y XOR z)"

definition sha1_round :: "32 word list \<Rightarrow> nat \<Rightarrow> 32 word \<Rightarrow> 32 word list" where
  "sha1_round A t x =
    [word_rotl 5 (A ! 0) + sha1_f t (A ! 1) (A ! 2) (A ! 3) + A ! 4 + sha1_K t + x,
     A ! 0, word_rotl 30 (A ! 1), A ! 2, A ! 3]"

definition sha1_compress :: "32 word list \<Rightarrow> byte list \<Rightarrow> 32 word list" where
  "sha1_compress H block =
    map2 (+) H (foldl (\<lambda>A t. sha1_round A t (sha1_W (\<lambda>i. get_be 4 block (4 * i)) t)) H [0..<80])"

definition sha1_digest :: "byte list \<Rightarrow> byte list" where
  "sha1_digest m =
    concat (map (put_be 4) (md_state 64 sha1_compress (c_state mbedtls_sha1_starts)
      (m @ padding 64 (length m) (put_be 8 (of_nat (8 * length m) :: 64 word)))))"

section \<open>Lemmas: rounds\<close>

declare sha1_W.simps [simp del]

text \<open>The constants, which the code and the specification share, are \<open>2 ^ 30\<close> times the roots of 2, 3, 5 and 10.\<close>

lemma sha1_K_roots:
  fixes t :: nat
  defines "c \<equiv> if t < 20 then 2 else if t < 40 then 3 else if t < 60 then 5 else 10 :: nat"
  shows "unat (sha1_K t) ^ 2 \<le> c * 2 ^ 60 \<and> c * 2 ^ 60 < (unat (sha1_K t) + 1) ^ 2"
  by (simp add: c_def sha1_K_def)

lemma S_rotl_rotl: "n < 32 \<Longrightarrow> 0 < n \<Longrightarrow> S_rotl x n = word_rotl n x"
proof -
  assume n: "n < 32" "0 < n"
  have "word_rotl n x = word_rotr (32 - n) x"
    using n by (intro bit_word_eqI) (simp add: bit_word_rotl_iff bit_word_rotr_iff)
  also have "\<dots> = ROTR (32 - n) x"
    using n ROTR_rotr [of "32 - n" x] by simp
  finally show ?thesis
    using n by (simp add: ROTR_def S_rotl_def or.commute)
qed

lemma sha1_F_f: "sha1_F t x y z = sha1_f t x y z"
  using F0_Maj [of x y z] F1_Ch [of x y z] by (auto simp: sha1_F_def sha1_f_def F0_def F1_def)

definition view5 :: "nat \<Rightarrow> 32 word list \<Rightarrow> 32 word list" where
  "view5 t A = map (\<lambda>j. A ! reg5 t j) [0..<5]"

lemma length_sha1_P [simp]: "length (sha1_P t A x) = length A"
  by (simp add: sha1_P_def Let_def)

lemma list5:
  assumes "length A = 5"
  obtains a b c d e where "A = [a, b, c, d, e]"
  using assms by (auto simp: numeral_eq_Suc length_Suc_conv)

lemma view5_0: "length A = 5 \<Longrightarrow> view5 80 A = A \<and> view5 0 A = A"
  by (erule list5) (simp add: view5_def reg5_def upt_rec)

lemma view5_sha1_P:
  assumes "length A = 5"
  shows "view5 (Suc t) (sha1_P t A x) = sha1_round (view5 t A) t x"
proof -
  obtain a b c d e where A: "A = [a, b, c, d, e]"
    using assms by (rule list5)
  have "t mod 5 = 0 \<or> t mod 5 = 1 \<or> t mod 5 = 2 \<or> t mod 5 = 3 \<or> t mod 5 = 4" by linarith
  then show ?thesis
    unfolding A view5_def sha1_P_def sha1_round_def sha1_F_f
    by (elim disjE) (simp_all add: reg5_def mod_Suc upt_rec Let_def S_rotl_rotl)
qed

text \<open>The ring holds the last sixteen words of the schedule.\<close>

definition ring :: "(nat \<Rightarrow> 32 word) \<Rightarrow> nat \<Rightarrow> 32 word list \<Rightarrow> bool" where
  "ring w n W \<longleftrightarrow> length W = 16 \<and> (\<forall>i < max 16 n. max 16 n \<le> i + 16 \<longrightarrow> W ! (i mod 16) = w i)"

lemma ring_next:
  assumes "16 \<le> n" "ring (sha1_W M) n W"
  shows "sha1_R W n = sha1_W M n" "ring (sha1_W M) (Suc n) (W[n mod 16 := sha1_W M n])"
proof -
  have w: "W ! (i mod 16) = sha1_W M i" if "i < n" "n \<le> i + 16" for i
    using assms that by (simp add: ring_def)
  have "n mod 16 = (n - 16) mod 16" using assms(1) by (simp add: le_mod_geq)
  then show "sha1_R W n = sha1_W M n"
    using assms(1) w [of "n - 3"] w [of "n - 8"] w [of "n - 14"] w [of "n - 16"]
    by (simp add: sha1_R_def sha1_W.simps [of M n] S_rotl_rotl)
  have ne: "n mod 16 \<noteq> i mod 16" if "i < n" "n < i + 16" for i
  proof
    assume "n mod 16 = i mod 16"
    then have "16 dvd n - i" using that by (simp add: mod_eq_dvd_iff_nat)
    then show False using that by (auto dest: dvd_imp_le)
  qed
  have len: "length W = 16" using assms by (simp add: ring_def)
  show "ring (sha1_W M) (Suc n) (W[n mod 16 := sha1_W M n])"
    unfolding ring_def
  proof (intro conjI allI impI)
    fix i
    assume "i < max 16 (Suc n)" "max 16 (Suc n) \<le> i + 16"
    then have i: "i < Suc n" "n < i + 16" using assms(1) by simp_all
    show "W[n mod 16 := sha1_W M n] ! (i mod 16) = sha1_W M i"
    proof (cases "i = n")
      case False
      then have "i < n" using i by simp
      then show ?thesis using w [of i] ne [of i] i by simp
    qed (simp add: len)
  qed (simp add: len)
qed

lemma sha1_rounds:
  fixes data :: "byte list"
  assumes "length st = 5"
  defines "w \<equiv> sha1_W (\<lambda>i. get_be 4 data (4 * i))"
  shows "\<exists>A W. foldl sha1_step (st, map w [0..<16]) [0..<n] = (A, W) \<and> ring w n W \<and> length A = 5 \<and>
    view5 n A = foldl (\<lambda>A t. sha1_round A t (w t)) st [0..<n]"
proof (induction n)
  case 0
  then show ?case using assms by (simp add: view5_0 ring_def)
next
  case (Suc n)
  then obtain A W where AW: "foldl sha1_step (st, map w [0..<16]) [0..<n] = (A, W)" and r: "ring w n W"
    and A: "length A = 5" and v: "view5 n A = foldl (\<lambda>A t. sha1_round A t (w t)) st [0..<n]"
    by blast
  let ?W = "if n < 16 then W else W[n mod 16 := w n]"
  have x: "(if n < 16 then W ! n else sha1_R W n) = w n"
    using r ring_next(1) [of n _ W] by (auto simp: w_def ring_def)
  then have "foldl sha1_step (st, map w [0..<16]) [0..<Suc n] = (sha1_P n A (w n), ?W)"
    using AW by (auto simp: sha1_step_def [of "(A, W)"])
  moreover have "ring w (Suc n) ?W"
    using r ring_next(2) [of n _ W] by (auto simp: w_def ring_def max_def)
  ultimately show ?case
    using A v view5_sha1_P [OF A, of n "w n"] by simp
qed

lemma sha1_process_fips:
  assumes "length st = 5"
  shows "mbedtls_internal_sha1_process st data = sha1_compress st data"
proof -
  let ?w = "sha1_W (\<lambda>i. get_be 4 data (4 * i))"
  have W: "map (\<lambda>i. get_be 4 data (4 * i)) [0..<16] = map ?w [0..<16]"
    by (simp add: sha1_W.simps)
  obtain A W where "foldl sha1_step (st, map ?w [0..<16]) [0..<80] = (A, W)" "length A = 5"
    "view5 80 A = foldl (\<lambda>A t. sha1_round A t (?w t)) st [0..<80]"
    using sha1_rounds [OF assms, of data 80] by blast
  then show ?thesis
    unfolding mbedtls_internal_sha1_process_def sha1_compress_def Let_def W
    using view5_0 [of A] by (simp del: upt_Suc foldl_append)
qed

section \<open>The incremental interface\<close>

definition sha1_absorbed :: "mbedtls_sha1_context \<Rightarrow> byte list \<Rightarrow> bool" where
  "sha1_absorbed = absorbs 6 mbedtls_internal_sha1_process (c_state mbedtls_sha1_starts)"

lemma length_sha1_compress: "length st = 5 \<Longrightarrow> length (sha1_compress st b) = 5"
proof -
  have "length st = 5 \<Longrightarrow> length (foldl (\<lambda>A t. sha1_round A t (w t)) st [0..<n]) = 5" for w n
    by (induction n) (simp_all add: sha1_round_def)
  then show "length st = 5 \<Longrightarrow> ?thesis"
    by (simp add: sha1_compress_def)
qed

lemma sha1_update_absorbed:
  assumes a: "sha1_absorbed c m" and d: "length d < 2 ^ 32"
  shows "sha1_absorbed (mbedtls_sha1_update c d) (m @ d)"
proof (cases "length d = 0")
  case False
  note a' = a [unfolded sha1_absorbed_def]
  obtain st bf where u: "buffer_update 64 mbedtls_internal_sha1_process (length m mod 64)
      (c_state c) (c_buffer c) d = (st, bf)" by force
  show ?thesis
    using absorbs_update [OF a', of d st bf] absorbs_left [OF a'] u d False
    by (simp add: mbedtls_sha1_update_def Let_def masks ilen_32 sha1_absorbed_def)
qed (use a in \<open>simp add: mbedtls_sha1_update_def\<close>)

lemma sha1_finish_digest:
  assumes "sha1_absorbed c m"
  shows "mbedtls_sha1_finish c = sha1_digest m"
proof -
  note a = assms [unfolded sha1_absorbed_def]
  have c: "counted (c_total0 c) (c_total1 c) (length m)"
    and h: "holds 64 mbedtls_internal_sha1_process (c_state mbedtls_sha1_starts) (c_state c) (c_buffer c) m"
    using a by (simp_all add: absorbs_def)
  let ?st = "c_state mbedtls_sha1_starts"
  have "length ?st = 5" by (simp add: mbedtls_sha1_starts_def)
  then have "md_state B mbedtls_internal_sha1_process ?st x = md_state B sha1_compress ?st x \<and>
      length (md_state B sha1_compress ?st x) = 5" for B x
    using process_many_cong [of "\<lambda>st. length st = 5" ?st mbedtls_internal_sha1_process sha1_compress B x]
    by (simp add: md_state_def sha1_process_fips length_sha1_compress)
  then show ?thesis
    using encoded_length [OF c, of 4, where 'v = 64] holds_finish [OF h] absorbs_left [OF a]
    by (simp add: mbedtls_sha1_finish_def sha1_digest_def Let_def masks put_be_def [of 8])
qed

interpretation sha1: incremental mbedtls_sha1_starts mbedtls_sha1_update mbedtls_sha1_finish
  sha1_absorbed sha1_digest "2 ^ 32"
proof unfold_locales
  show "sha1_absorbed mbedtls_sha1_starts []"
    by (simp add: sha1_absorbed_def absorbs_def counted_def holds_start mbedtls_sha1_starts_def)
qed (simp_all add: sha1_update_absorbed sha1_finish_digest)

end
