(* ===== verification/World.thy ===== *)
theory World
  imports Status
begin

text \<open>
  The state the adapter runs in, and its two boundaries.

  \<^item> \<open>psa_call\<close>: one constructor per function of the vendored backend that the adapter calls,
    carrying the argument bytes and sizes. A backend is any function from a call, the
    operation object it is applied to and the backend's own state to a \<open>psa_reply\<close> and a new
    state: nothing at all is assumed about it here. \<open>r_alloc_failed\<close> tells whether
    \<^verbatim>\<open>zuc_int_calloc\<close>, which is the backend's allocator, returned NULL during the call.
  \<^item> the C library: \<open>w_allocs\<close> is the sequence of addresses the allocator will answer
    (NULL is a failed allocation, and so is the end of the list), \<open>w_os\<close> the sequence of
    events of the operating system's random source.
  \<^item> \<open>world\<close>: byte memory, typed cells for \<^verbatim>\<open>size_t\<close> and pointer out-parameters, one heap per
    opaque handle type, the sizes of the byte buffers that are allocated, the adapter's static variables and the backend's state. \<open>w_ub\<close> is set
    when the code dereferences or frees a handle that is not allocated.
\<close>

section \<open>The backend interface\<close>

record psa_attr =
  pa_type :: psa_key_type_t
  pa_bits :: size_t
  pa_alg :: psa_algorithm_t
  pa_usage :: psa_key_usage_t

abbreviation (input) psa_key_attributes_init :: psa_attr where
  "psa_key_attributes_init \<equiv> \<lparr>pa_type = 0, pa_bits = 0, pa_alg = 0, pa_usage = 0\<rparr>"

datatype hash_call =
    Hash_compute psa_algorithm_t "byte list" size_t
  | Hash_setup psa_algorithm_t
  | Hash_update "byte list"
  | Hash_finish size_t
  | Hash_abort

datatype mac_call =
    Mac_compute psa_key_id_t psa_algorithm_t "byte list" size_t
  | Mac_sign_setup psa_key_id_t psa_algorithm_t
  | Mac_update "byte list"
  | Mac_sign_finish size_t
  | Mac_abort

datatype key_call =
    Import_key psa_attr "byte list"
  | Destroy_key psa_key_id_t
  | Get_key_attributes psa_key_id_t
  | Export_key psa_key_id_t size_t
  | Export_public_key psa_key_id_t size_t
  | Generate_key psa_attr

datatype cipher_call =
    Cipher_encrypt_setup psa_key_id_t psa_algorithm_t
  | Cipher_decrypt_setup psa_key_id_t psa_algorithm_t
  | Cipher_set_iv "byte list"
  | Cipher_update "byte list" size_t
  | Cipher_finish size_t
  | Cipher_abort

datatype aead_call =
    Aead_encrypt_setup psa_key_id_t psa_algorithm_t
  | Aead_decrypt_setup psa_key_id_t psa_algorithm_t
  | Aead_set_nonce "byte list"
  | Aead_update_ad "byte list"
  | Aead_update "byte list" size_t
  | Aead_finish size_t size_t
  | Aead_verify size_t "byte list"
  | Aead_abort

datatype kdf_step = KDF_INPUT_COST | KDF_INPUT_SALT | KDF_INPUT_PASSWORD

datatype kdf_call =
    Kdf_setup psa_algorithm_t
  | Kdf_input_integer kdf_step "64 word"
  | Kdf_input_bytes kdf_step "byte list"
  | Kdf_output_bytes size_t
  | Kdf_abort

datatype asym_call =
    Sign_hash psa_key_id_t psa_algorithm_t "byte list" size_t
  | Verify_hash psa_key_id_t psa_algorithm_t "byte list" "byte list"
  | Asymmetric_encrypt psa_key_id_t psa_algorithm_t "byte list" size_t
  | Asymmetric_decrypt psa_key_id_t psa_algorithm_t "byte list" size_t
  | Raw_key_agreement psa_algorithm_t psa_key_id_t "byte list" size_t

datatype pk_call =
    Pk_parse_key "byte list"
  | Pk_parse_public_key "byte list"
  | Pk_get_psa_attributes psa_key_usage_t
  | Pk_get_bitlen
  | Pk_write_pubkey_psa size_t
  | Pk_import_into_psa psa_attr
  | Pk_copy_public_from_psa psa_key_id_t
  | Pk_write_pubkey_der size_t
  | Pk_free
  | Pem_write_buffer string string "byte list" size_t

datatype psa_call =
    CRYPTO_INIT
  | CRYPTO_FREE
  | AES_GET_IMPLEMENTATION
  | HASH hash_call
  | MAC mac_call
  | KEY key_call
  | CIPHER cipher_call
  | AEAD aead_call
  | KDF kdf_call
  | ASYM asym_call
  | PK pk_call

text \<open>
  \<open>r_out\<close> and \<open>r_out2\<close> are what the backend wrote to its output buffer and to its tag buffer,
  \<open>r_len\<close> and \<open>r_len2\<close> the lengths it stored; the wrappers below never let it write past the size
  it was given. \<open>r_op\<close> is the operation object after the call, \<open>None\<close> being the all-zero object
  that the \<^verbatim>\<open>psa_..._operation_init()\<close> functions return.
\<close>

record 'o psa_reply =
  r_status :: psa_status_t
  r_out :: "byte list"
  r_len :: size_t
  r_out2 :: "byte list"
  r_len2 :: size_t
  r_id :: psa_key_id_t
  r_attr :: psa_attr
  r_op :: "'o option"
  r_alloc_failed :: bool

type_synonym ('b, 'o) psa = "psa_call \<Rightarrow> 'o option \<Rightarrow> 'b \<Rightarrow> 'o psa_reply \<times> 'b"

section \<open>Handles\<close>

record 'o zuc_hash =
  h_alg :: zuc_alg
  h_palg :: psa_algorithm_t
  h_op :: "'o option"
  h_active :: bool

record 'o zuc_hmac =
  m_alg :: zuc_alg
  m_palg :: psa_algorithm_t
  m_key :: psa_key_id_t
  m_op :: "'o option"
  m_active :: bool

record zuc_aes =
  a_key :: psa_key_id_t
  a_chain :: "byte list"

record zuc_pkey =
  k_type :: zuc_alg
  k_ptype :: psa_key_type_t
  k_is_private :: bool
  k_bits :: size_t
  k_der :: ptr
  k_der_len :: size_t

text \<open>What \<^verbatim>\<open>calloc(1, sizeof *h)\<close> returns: a struct of zero bytes.\<close>

definition zero_hash :: "'o zuc_hash" where
  "zero_hash = \<lparr>h_alg = ZUC_ALG_NONE, h_palg = 0, h_op = None, h_active = False\<rparr>"

definition zero_hmac :: "'o zuc_hmac" where
  "zero_hmac = \<lparr>m_alg = ZUC_ALG_NONE, m_palg = 0, m_key = 0, m_op = None, m_active = False\<rparr>"

definition zero_aes :: zuc_aes where
  "zero_aes = \<lparr>a_key = 0, a_chain = replicate 16 0\<rparr>"

definition zero_pkey :: zuc_pkey where
  "zero_pkey = \<lparr>k_type = ZUC_ALG_NONE, k_ptype = 0, k_is_private = False, k_bits = 0,
                k_der = NULL, k_der_len = 0\<rparr>"

section \<open>The world\<close>

datatype os_event =
    OS_bytes "byte list"   \<comment> \<open>the source delivers these bytes\<close>
  | OS_intr                \<comment> \<open>interrupted by a signal, \<^verbatim>\<open>EINTR\<close>\<close>
  | OS_fail                \<comment> \<open>any other failure\<close>

record ('b, 'o) world =
  w_mem :: memory
  w_sizes :: "ptr \<Rightarrow> size_t"
  w_cells :: "ptr \<Rightarrow> ptr"
  w_hashes :: "ptr \<rightharpoonup> 'o zuc_hash"
  w_hmacs :: "ptr \<rightharpoonup> 'o zuc_hmac"
  w_aess :: "ptr \<rightharpoonup> zuc_aes"
  w_pkeys :: "ptr \<rightharpoonup> zuc_pkey"
  w_blocks :: "ptr \<rightharpoonup> size_t"
  w_allocs :: "ptr list"
  w_os :: "nat \<Rightarrow> os_event"
  w_os_pos :: nat
  w_refcount :: "32 word"
  w_live :: int
  w_alloc_failed :: bool
  w_random_failing :: bool
  w_ub :: bool
  w_psa :: 'b

type_synonym ('b, 'o, 'a) zuc = "(('b, 'o) world, 'a) state"

section \<open>Memory and allocation actions\<close>

definition read_bytes :: "ptr \<Rightarrow> size_t \<Rightarrow> ('b, 'o, byte list) zuc" where
  "read_bytes p n = gets (\<lambda>w. mem_read (w_mem w) p n)"

definition write_bytes :: "ptr \<Rightarrow> byte list \<Rightarrow> ('b, 'o, unit) zuc" where
  "write_bytes p bs = modify (\<lambda>w. w\<lparr>w_mem := mem_write (w_mem w) p bs\<rparr>)"

text \<open>An output buffer of \<open>n\<close> bytes handed to the backend: at most \<open>n\<close> bytes change.\<close>

definition write_out :: "ptr \<Rightarrow> size_t \<Rightarrow> byte list \<Rightarrow> ('b, 'o, unit) zuc" where
  "write_out p n bs = write_bytes p (take (unat n) bs)"

definition write_size :: "ptr \<Rightarrow> size_t \<Rightarrow> ('b, 'o, unit) zuc" where
  "write_size p v = modify (\<lambda>w. w\<lparr>w_sizes := (w_sizes w)(p := v)\<rparr>)"

definition write_cell :: "ptr \<Rightarrow> ptr \<Rightarrow> ('b, 'o, unit) zuc" where
  "write_cell p v = modify (\<lambda>w. w\<lparr>w_cells := (w_cells w)(p := v)\<rparr>)"

definition set_ub :: "('b, 'o, unit) zuc" where
  "set_ub = modify (\<lambda>w. w\<lparr>w_ub := True\<rparr>)"

text \<open>\<^verbatim>\<open>malloc\<close> and \<^verbatim>\<open>calloc\<close> answer with the next address of \<open>w_allocs\<close>.\<close>

definition c_alloc :: "('b, 'o, ptr) zuc" where
  "c_alloc = do {
     ps \<leftarrow> gets w_allocs;
     case ps of
       [] \<Rightarrow> ret NULL
     | p # ps' \<Rightarrow> do { modify (\<lambda>w. w\<lparr>w_allocs := ps'\<rparr>); ret p }
   }"

definition calloc_hash :: "('b, 'o, ptr) zuc" where
  "calloc_hash = do {
     p \<leftarrow> c_alloc;
     if p = NULL then ret NULL
     else do { modify (\<lambda>w. w\<lparr>w_hashes := (w_hashes w)(p \<mapsto> zero_hash)\<rparr>); ret p }
   }"

definition calloc_hmac :: "('b, 'o, ptr) zuc" where
  "calloc_hmac = do {
     p \<leftarrow> c_alloc;
     if p = NULL then ret NULL
     else do { modify (\<lambda>w. w\<lparr>w_hmacs := (w_hmacs w)(p \<mapsto> zero_hmac)\<rparr>); ret p }
   }"

definition calloc_aes :: "('b, 'o, ptr) zuc" where
  "calloc_aes = do {
     p \<leftarrow> c_alloc;
     if p = NULL then ret NULL
     else do { modify (\<lambda>w. w\<lparr>w_aess := (w_aess w)(p \<mapsto> zero_aes)\<rparr>); ret p }
   }"

definition calloc_pkey :: "('b, 'o, ptr) zuc" where
  "calloc_pkey = do {
     p \<leftarrow> c_alloc;
     if p = NULL then ret NULL
     else do { modify (\<lambda>w. w\<lparr>w_pkeys := (w_pkeys w)(p \<mapsto> zero_pkey)\<rparr>); ret p }
   }"

text \<open>Byte buffers of the heap: \<^verbatim>\<open>malloc(n)\<close> leaves the bytes as they are, \<^verbatim>\<open>free\<close> accepts NULL.\<close>

definition malloc_bytes :: "size_t \<Rightarrow> ('b, 'o, ptr) zuc" where
  "malloc_bytes n = do {
     p \<leftarrow> c_alloc;
     if p = NULL then ret NULL
     else do { modify (\<lambda>w. w\<lparr>w_blocks := (w_blocks w)(p \<mapsto> n)\<rparr>); ret p }
   }"

definition free_bytes :: "ptr \<Rightarrow> ('b, 'o, unit) zuc" where
  "free_bytes p =
    (if p = NULL then ret ()
     else do {
       bs \<leftarrow> gets w_blocks;
       if bs p = None then set_ub else modify (\<lambda>w. w\<lparr>w_blocks := (w_blocks w)(p := None)\<rparr>)
     })"

text \<open>Dereferencing a handle, updating one, and wiping and freeing one.\<close>

definition deref :: "(('b, 'o) world \<Rightarrow> ptr \<rightharpoonup> 'h) \<Rightarrow> 'h \<Rightarrow> ptr \<Rightarrow> ('b, 'o, 'h) zuc" where
  "deref heap zero p = do {
     hs \<leftarrow> gets heap;
     case hs p of None \<Rightarrow> do { set_ub; ret zero } | Some h \<Rightarrow> ret h
   }"

definition deref_hash :: "ptr \<Rightarrow> ('b, 'o, 'o zuc_hash) zuc" where
  "deref_hash = deref w_hashes zero_hash"

definition deref_hmac :: "ptr \<Rightarrow> ('b, 'o, 'o zuc_hmac) zuc" where
  "deref_hmac = deref w_hmacs zero_hmac"

definition deref_aes :: "ptr \<Rightarrow> ('b, 'o, zuc_aes) zuc" where
  "deref_aes = deref w_aess zero_aes"

definition deref_pkey :: "ptr \<Rightarrow> ('b, 'o, zuc_pkey) zuc" where
  "deref_pkey = deref w_pkeys zero_pkey"

definition set_hash :: "ptr \<Rightarrow> 'o zuc_hash \<Rightarrow> ('b, 'o, unit) zuc" where
  "set_hash p h = modify (\<lambda>w. w\<lparr>w_hashes := (w_hashes w)(p \<mapsto> h)\<rparr>)"

definition set_hmac :: "ptr \<Rightarrow> 'o zuc_hmac \<Rightarrow> ('b, 'o, unit) zuc" where
  "set_hmac p h = modify (\<lambda>w. w\<lparr>w_hmacs := (w_hmacs w)(p \<mapsto> h)\<rparr>)"

definition set_aes :: "ptr \<Rightarrow> zuc_aes \<Rightarrow> ('b, 'o, unit) zuc" where
  "set_aes p h = modify (\<lambda>w. w\<lparr>w_aess := (w_aess w)(p \<mapsto> h)\<rparr>)"

definition set_pkey :: "ptr \<Rightarrow> zuc_pkey \<Rightarrow> ('b, 'o, unit) zuc" where
  "set_pkey p h = modify (\<lambda>w. w\<lparr>w_pkeys := (w_pkeys w)(p \<mapsto> h)\<rparr>)"

definition free_struct_hash :: "ptr \<Rightarrow> ('b, 'o, unit) zuc" where
  "free_struct_hash p = modify (\<lambda>w. w\<lparr>w_hashes := (w_hashes w)(p := None)\<rparr>)"

definition free_struct_hmac :: "ptr \<Rightarrow> ('b, 'o, unit) zuc" where
  "free_struct_hmac p = modify (\<lambda>w. w\<lparr>w_hmacs := (w_hmacs w)(p := None)\<rparr>)"

definition free_struct_aes :: "ptr \<Rightarrow> ('b, 'o, unit) zuc" where
  "free_struct_aes p = modify (\<lambda>w. w\<lparr>w_aess := (w_aess w)(p := None)\<rparr>)"

definition free_struct_pkey :: "ptr \<Rightarrow> ('b, 'o, unit) zuc" where
  "free_struct_pkey p = modify (\<lambda>w. w\<lparr>w_pkeys := (w_pkeys w)(p := None)\<rparr>)"

text \<open>
  The first \<open>n\<close> bytes of a local buffer of \<open>cap\<close> bytes into which the backend wrote \<open>bs\<close>. Bytes
  it left unwritten are indeterminate in C and read as zero here.
\<close>

definition local_buf :: "size_t \<Rightarrow> byte list \<Rightarrow> size_t \<Rightarrow> byte list" where
  "local_buf cap bs n = take (unat n) (take (unat cap) bs @ replicate (unat cap) 0)"

section \<open>Calling the backend\<close>

definition psa_do :: "('b, 'o) psa \<Rightarrow> psa_call \<Rightarrow> 'o option \<Rightarrow> ('b, 'o, 'o psa_reply) zuc" where
  "psa_do P c op = do {
     b \<leftarrow> gets w_psa;
     modify (\<lambda>w. w\<lparr>w_psa := snd (P c op b),
                   w_alloc_failed := (w_alloc_failed w \<or> r_alloc_failed (fst (P c op b)))\<rparr>);
     ret (fst (P c op b))
   }"

definition psa_import_key ::
  "('b, 'o) psa \<Rightarrow> psa_attr \<Rightarrow> byte list \<Rightarrow> ('b, 'o, psa_status_t \<times> psa_key_id_t) zuc" where
  "psa_import_key P attr data = do {
     r \<leftarrow> psa_do P (KEY (Import_key attr data)) None;
     ret (r_status r, r_id r)
   }"

definition psa_destroy_key :: "('b, 'o) psa \<Rightarrow> psa_key_id_t \<Rightarrow> ('b, 'o, unit) zuc" where
  "psa_destroy_key P k = do { _ \<leftarrow> psa_do P (KEY (Destroy_key k)) None; ret () }"

section \<open>Observations and their rules\<close>

text \<open>
  \<open>confined A m\<close>: running \<open>m\<close> changes byte memory only at addresses in \<open>A\<close>.
\<close>

definition confined :: "ptr set \<Rightarrow> ('b, 'o, 'a) zuc \<Rightarrow> bool" where
  "confined A m = keeps (\<lambda>w. outside A (w_mem w)) m"

lemma run_read_bytes [run_simps, simp]:
  "run_state (read_bytes p n) w = (mem_read (w_mem w) p n, w)"
  by (simp add: read_bytes_def)

lemma run_write_bytes [run_simps, simp]:
  "run_state (write_bytes p bs) w = ((), w\<lparr>w_mem := mem_write (w_mem w) p bs\<rparr>)"
  by (simp add: write_bytes_def)

lemma run_write_out [run_simps, simp]:
  "run_state (write_out p n bs) w = ((), w\<lparr>w_mem := mem_write (w_mem w) p (take (unat n) bs)\<rparr>)"
  by (simp add: write_out_def)

lemma run_write_size [run_simps, simp]:
  "run_state (write_size p v) w = ((), w\<lparr>w_sizes := (w_sizes w)(p := v)\<rparr>)"
  by (simp add: write_size_def)

lemma run_write_cell [run_simps, simp]:
  "run_state (write_cell p v) w = ((), w\<lparr>w_cells := (w_cells w)(p := v)\<rparr>)"
  by (simp add: write_cell_def)

lemma run_set_ub [run_simps, simp]: "run_state set_ub w = ((), w\<lparr>w_ub := True\<rparr>)"
  by (simp add: set_ub_def)

lemma run_c_alloc [run_simps]:
  "run_state c_alloc w =
    (case w_allocs w of [] \<Rightarrow> (NULL, w) | p # ps \<Rightarrow> (p, w\<lparr>w_allocs := ps\<rparr>))"
  by (simp add: c_alloc_def split: list.splits)

lemma run_deref_live [simp]: "heap w p = Some h \<Longrightarrow> run_state (deref heap z p) w = (h, w)"
  by (simp add: deref_def)

lemma run_deref [run_simps]:
  "run_state (deref heap z p) w =
    (case heap w p of None \<Rightarrow> (z, w\<lparr>w_ub := True\<rparr>) | Some h \<Rightarrow> (h, w))"
  by (simp add: deref_def split: option.splits)

lemmas deref_defs [run_simps] = deref_hash_def deref_hmac_def deref_aes_def deref_pkey_def

lemmas set_defs [run_simps] = set_hash_def set_hmac_def set_aes_def set_pkey_def
  free_struct_hash_def free_struct_hmac_def free_struct_aes_def free_struct_pkey_def

lemma run_psa_do [run_simps]:
  "run_state (psa_do P c op) w =
    (fst (P c op (w_psa w)),
     w\<lparr>w_psa := snd (P c op (w_psa w)),
       w_alloc_failed := (w_alloc_failed w \<or> r_alloc_failed (fst (P c op (w_psa w))))\<rparr>)"
  by (simp add: psa_do_def)

lemma keeps_world [keeps_intros]:
  assumes "\<And>w g. f (w\<lparr>w_mem := g\<rparr>) = f w"
  shows "keeps f (write_bytes p bs)" "keeps f (write_out p n bs)"
  using assms by (simp_all add: keeps_def)

lemma keeps_write_size [keeps_intros]:
  "(\<And>w g. f (w\<lparr>w_sizes := g\<rparr>) = f w) \<Longrightarrow> keeps f (write_size p v)"
  by (simp add: keeps_def)

lemma keeps_write_cell [keeps_intros]:
  "(\<And>w g. f (w\<lparr>w_cells := g\<rparr>) = f w) \<Longrightarrow> keeps f (write_cell p v)"
  by (simp add: keeps_def)

lemma keeps_read_bytes [keeps_intros]: "keeps f (read_bytes p n)"
  by (simp add: keeps_def)

lemma keeps_c_alloc [keeps_intros]:
  "(\<And>w g. f (w\<lparr>w_allocs := g\<rparr>) = f w) \<Longrightarrow> keeps f c_alloc"
  by (simp add: keeps_def run_c_alloc split: list.splits)

lemma keeps_deref [keeps_intros]:
  "(\<And>w. f (w\<lparr>w_ub := True\<rparr>) = f w) \<Longrightarrow> keeps f (deref heap z p)"
  by (simp add: keeps_def run_deref split: option.splits)

lemma keeps_set_ub [keeps_intros]: "(\<And>w. f (w\<lparr>w_ub := True\<rparr>) = f w) \<Longrightarrow> keeps f set_ub"
  by (simp add: keeps_def)

lemma keeps_psa_do [keeps_intros]:
  assumes "\<And>w b x. f (w\<lparr>w_psa := b, w_alloc_failed := x\<rparr>) = f w"
  shows "keeps f (psa_do P c op)"
  by (simp add: keeps_def run_psa_do assms)

lemma keeps_psa_import_key [keeps_intros]:
  assumes "\<And>w b x. f (w\<lparr>w_psa := b, w_alloc_failed := x\<rparr>) = f w"
  shows "keeps f (psa_import_key P attr d)"
  unfolding psa_import_key_def by (intro keeps_intros assms)

lemma keeps_psa_destroy_key [keeps_intros]:
  assumes "\<And>w b x. f (w\<lparr>w_psa := b, w_alloc_failed := x\<rparr>) = f w"
  shows "keeps f (psa_destroy_key P k)"
  unfolding psa_destroy_key_def by (intro keeps_intros assms)

section \<open>Rules for confined\<close>

lemma confined_mem:
  assumes "confined A m" "run_state m w = (r, w')" "a \<notin> A"
  shows "w_mem w' a = w_mem w a"
  using keepsD [OF assms(1) [unfolded confined_def] assms(2)] assms(3)
  by (metis outside_def)

lemma confinedI:
  assumes "\<And>w a. a \<notin> A \<Longrightarrow> w_mem (snd (run_state m w)) a = w_mem w a"
  shows "confined A m"
  using assms by (simp add: confined_def keeps_def outside_def fun_eq_iff)

lemma confined_mono: "confined A m \<Longrightarrow> A \<subseteq> B \<Longrightarrow> confined B m"
  by (rule confinedI) (metis confined_mem prod.collapse subsetD)

lemma keeps_mem_confined: "keeps w_mem m \<Longrightarrow> confined A m"
  by (simp add: confined_def keeps_def)

lemma confined_bind [confined_intros]:
  "confined A m \<Longrightarrow> (\<And>r. confined A (k r)) \<Longrightarrow> confined A (State_Monad.bind m k)"
  unfolding confined_def by (rule keeps_bind)

lemma confined_bind_result:
  "confined A m \<Longrightarrow> (\<And>w. confined A (k (fst (run_state m w)))) \<Longrightarrow> confined A (State_Monad.bind m k)"
  unfolding confined_def by (rule keeps_bind_result)

lemma confined_psa_do_bind:
  "(\<And>b. confined A (k (fst (P c op b)))) \<Longrightarrow> confined A (State_Monad.bind (psa_do P c op) k)"
  by (rule confined_bind_result)
    (simp_all add: run_psa_do keeps_mem_confined [OF keeps_psa_do])

lemma confined_snd: "confined A m \<Longrightarrow> a \<notin> A \<Longrightarrow> w_mem (snd (run_state m w)) a = w_mem w a"
  by (metis confined_mem prod.collapse)

lemma confined_if [confined_intros]:
  "(b \<Longrightarrow> confined A m) \<Longrightarrow> (\<not> b \<Longrightarrow> confined A m') \<Longrightarrow> confined A (if b then m else m')"
  by simp

lemma confined_case_prod [confined_intros]:
  "(\<And>a b. confined A (m a b)) \<Longrightarrow> confined A (case p of (a, b) \<Rightarrow> m a b)"
  by (cases p) simp

lemma confined_case_option [confined_intros]:
  "confined A n \<Longrightarrow> (\<And>a. confined A (m a)) \<Longrightarrow> confined A (case p of None \<Rightarrow> n | Some a \<Rightarrow> m a)"
  by (cases p) simp_all

lemma confined_basic [confined_intros]:
  "confined A (ret x)" "confined A (gets g)" "confined A (read_bytes p n)"
  "confined A (psa_do P c op)" "confined A (psa_import_key P attr d)" "confined A (psa_destroy_key P kid)"
  "confined A (write_size q v)" "confined A (write_cell q u)" "confined A (deref heap z q)"
  "confined A c_alloc" "confined A set_ub"
  by (rule keeps_mem_confined, intro keeps_intros; simp)+

lemma confined_struct [confined_intros]:
  "confined A (set_hash q h)" "confined A (set_hmac q m)" "confined A (set_aes q e)"
  "confined A (set_pkey q k)" "confined A (free_struct_hash q)" "confined A (free_struct_hmac q)"
  "confined A (free_struct_aes q)" "confined A (free_struct_pkey q)"
  "confined A (deref_hash q)" "confined A (deref_hmac q)" "confined A (deref_aes q)"
  "confined A (deref_pkey q)"
  by (rule keeps_mem_confined; (simp add: keeps_def set_defs deref_defs run_deref split: option.splits))+

lemma confined_calloc [confined_intros]:
  "confined A calloc_hash" "confined A calloc_hmac" "confined A calloc_aes" "confined A calloc_pkey"
  unfolding calloc_hash_def calloc_hmac_def calloc_aes_def calloc_pkey_def
  by (intro confined_intros keeps_mem_confined keeps_modify; simp)+

lemma keeps_malloc_bytes [keeps_intros]:
  "(\<And>w g. f (w\<lparr>w_allocs := g\<rparr>) = f w) \<Longrightarrow> (\<And>w g. f (w\<lparr>w_blocks := g\<rparr>) = f w) \<Longrightarrow>
   keeps f (malloc_bytes n)"
  unfolding malloc_bytes_def by (intro keeps_intros)

lemma keeps_free_bytes [keeps_intros]:
  "(\<And>w. f (w\<lparr>w_ub := True\<rparr>) = f w) \<Longrightarrow> (\<And>w g. f (w\<lparr>w_blocks := g\<rparr>) = f w) \<Longrightarrow>
   keeps f (free_bytes p)"
  unfolding free_bytes_def by (intro keeps_intros)

lemma confined_bytes [confined_intros]: "confined A (malloc_bytes n)" "confined A (free_bytes p)"
  by (rule keeps_mem_confined, intro keeps_intros; simp)+

lemma confined_write_out [confined_intros]:
  assumes "buf p n \<subseteq> A"
  shows "confined A (write_out p n bs)"
  by (rule confinedI) (use assms in \<open>auto intro!: mem_write_outside\<close>)

end
