(* ===== verification/Util.thy ===== *)
theory Util
  imports World
begin

text \<open>
  \<^verbatim>\<open>src/src/zuc_util.c\<close>: comparison, erasure, the overlap test and the allocation watch, together
  with the two vendored routines they are built on, \<^verbatim>\<open>mbedtls_ct_memcmp\<close> and
  \<^verbatim>\<open>mbedtls_platform_zeroize\<close>. Both preprocessor variants of the comparison are modelled: the
  Arm one, which reads four bytes at a time, is selected by the argument \<open>wide\<close>.
\<close>

section \<open>Constant-time comparison\<close>

abbreviation ext32 :: "byte \<Rightarrow> 32 word" where
  "ext32 x \<equiv> ucast x"

abbreviation lo8 :: "32 word \<Rightarrow> byte" where
  "lo8 x \<equiv> ucast x"

definition get_u32 :: "memory \<Rightarrow> ptr \<Rightarrow> 32 word" where
  "get_u32 m p =
    (ext32 (m p) OR push_bit 8 (ext32 (m (p + 1)))
     OR push_bit 16 (ext32 (m (p + 2))) OR push_bit 24 (ext32 (m (p + 3))))"

text \<open>The two loops: \<open>k\<close> is the number of iterations left, \<open>i\<close> the index.\<close>

fun ct_diff_words :: "memory \<Rightarrow> ptr \<Rightarrow> ptr \<Rightarrow> nat \<Rightarrow> nat \<Rightarrow> 32 word \<Rightarrow> 32 word" where
  "ct_diff_words m a b i 0 diff = diff"
| "ct_diff_words m a b i (Suc k) diff =
    ct_diff_words m a b (i + 4) k
      (diff OR (get_u32 m (a + of_nat i) XOR get_u32 m (b + of_nat i)))"

fun ct_diff_bytes :: "memory \<Rightarrow> ptr \<Rightarrow> ptr \<Rightarrow> nat \<Rightarrow> nat \<Rightarrow> 32 word \<Rightarrow> 32 word" where
  "ct_diff_bytes m a b i 0 diff = diff"
| "ct_diff_bytes m a b i (Suc k) diff =
    ct_diff_bytes m a b (Suc i) k
      (diff OR ext32 (m (a + of_nat i) XOR m (b + of_nat i)))"

definition mbedtls_ct_memcmp :: "bool \<Rightarrow> memory \<Rightarrow> ptr \<Rightarrow> ptr \<Rightarrow> size_t \<Rightarrow> 32 word" where
  "mbedtls_ct_memcmp wide m a b n =
    (let words = (if wide then unat n div 4 else 0);
         diff = ct_diff_words m a b 0 words 0;
         diff = ct_diff_bytes m a b (4 * words) (unat n - 4 * words) diff
     in (diff AND 0xffff) OR drop_bit 16 diff)"

definition zuc_equal :: "bool \<Rightarrow> memory \<Rightarrow> ptr \<Rightarrow> ptr \<Rightarrow> size_t \<Rightarrow> bool" where
  "zuc_equal wide m a b len =
    (if len = 0 then True
     else if a = NULL \<or> b = NULL then False
     else mbedtls_ct_memcmp wide m a b len = 0)"

section \<open>Erasure, overlap, the allocation watch\<close>

definition mbedtls_platform_zeroize :: "ptr \<Rightarrow> size_t \<Rightarrow> ('b, 'o, unit) zuc" where
  "mbedtls_platform_zeroize p len =
    (if len > 0 then write_bytes p (replicate (unat len) 0) else ret ())"

definition zuc_secure_zero :: "ptr \<Rightarrow> size_t \<Rightarrow> ('b, 'o, unit) zuc" where
  "zuc_secure_zero buffer len =
    (if buffer = NULL \<or> len = 0 then ret () else mbedtls_platform_zeroize buffer len)"

definition zuc_int_overlaps :: "ptr \<Rightarrow> ptr \<Rightarrow> size_t \<Rightarrow> bool" where
  "zuc_int_overlaps a b len =
    (if a = NULL \<or> b = NULL \<or> len = 0 then False
     else if a = b then False
     else if a < b then a + len > b
     else b + len > a)"

definition zuc_int_calloc :: "size_t \<Rightarrow> size_t \<Rightarrow> ('b, 'o, ptr) zuc" where
  "zuc_int_calloc n sz = do {
     p \<leftarrow> c_alloc;
     if p = NULL \<and> n \<noteq> 0 \<and> sz \<noteq> 0
     then do { modify (\<lambda>w. w\<lparr>w_alloc_failed := True\<rparr>); ret p }
     else ret p
   }"

definition zuc_int_alloc_watch :: "('b, 'o, unit) zuc" where
  "zuc_int_alloc_watch = modify (\<lambda>w. w\<lparr>w_alloc_failed := False\<rparr>)"

definition zuc_int_memory_or :: "zuc_status \<Rightarrow> ('b, 'o, zuc_status) zuc" where
  "zuc_int_memory_or st = do {
     failed \<leftarrow> gets w_alloc_failed;
     ret (if st \<noteq> ZUC_OK \<and> failed then ZUC_ERR_MEMORY else st)
   }"

section \<open>Lemmas: the comparison\<close>

lemma get_u32_bytes:
  "lo8 (get_u32 m p) = m p"
  "lo8 (drop_bit 8 (get_u32 m p)) = m (p + 1)"
  "lo8 (drop_bit 16 (get_u32 m p)) = m (p + 2)"
  "lo8 (drop_bit 24 (get_u32 m p)) = m (p + 3)"
  by (rule bit_word_eqI;
      auto simp: get_u32_def bit_simps dest: bit_imp_le_length)+

lemma get_u32_eq_iff:
  "get_u32 m p = get_u32 m q \<longleftrightarrow>
    m p = m q \<and> m (p + 1) = m (q + 1) \<and> m (p + 2) = m (q + 2) \<and> m (p + 3) = m (q + 3)"
  (is "?l \<longleftrightarrow> ?r")
proof
  assume eq: ?l
  show ?r
    using get_u32_bytes [of m p] get_u32_bytes [of m q] unfolding eq by simp
next
  assume ?r
  then show ?l by (simp add: get_u32_def)
qed

lemma or_eq_0_word: "(x :: 'a :: len word) OR y = 0 \<longleftrightarrow> x = 0 \<and> y = 0"
  by (auto simp: bit_eq_iff bit_simps)

lemma xor_eq_0_word: "(x :: 'a :: len word) XOR y = 0 \<longleftrightarrow> x = y"
  by (auto simp: bit_eq_iff bit_simps)


lemma ucast_8_32_eq_0: "ext32 x = 0 \<longleftrightarrow> x = 0"
  by (auto simp: bit_eq_iff bit_simps) (use bit_imp_le_length [of x] in fastforce)

lemma ct_diff_bytes_0_iff:
  "ct_diff_bytes m a b i k d = 0 \<longleftrightarrow>
    d = 0 \<and> (\<forall>j < k. m (a + of_nat (i + j)) = m (b + of_nat (i + j)))"
proof (induction k arbitrary: i d)
  case 0
  then show ?case by simp
next
  case (Suc k)
  have "(\<forall>j < Suc k. m (a + of_nat (i + j)) = m (b + of_nat (i + j))) \<longleftrightarrow>
      m (a + of_nat i) = m (b + of_nat i) \<and>
      (\<forall>j < k. m (a + of_nat (Suc i + j)) = m (b + of_nat (Suc i + j)))"
    by (subst All_less_Suc2) simp
  then show ?case
    using Suc.IH by (simp only: ct_diff_bytes.simps or_eq_0_word ucast_8_32_eq_0 xor_eq_0_word) blast
qed


lemma less_Suc4_split:
  "(\<forall>j < 4 * Suc k. P j) \<longleftrightarrow>
    P 0 \<and> P 1 \<and> P 2 \<and> P 3 \<and> (\<forall>j < 4 * k. P (4 + j))" (is "?l \<longleftrightarrow> ?r")
proof
  assume ?l
  then show ?r by simp
next
  assume r: ?r
  show ?l
  proof (intro allI impI)
    fix j :: nat
    assume j: "j < 4 * Suc k"
    consider "j = 0" | "j = 1" | "j = 2" | "j = 3" | "4 \<le> j" by linarith
    then show "P j"
    proof cases
      case 5
      then have "j - 4 < 4 * k" using j by simp
      then have "P (4 + (j - 4))" using r by blast
      then show ?thesis using 5 by (simp only: le_add_diff_inverse)
    qed (use r in simp_all)
  qed
qed

lemma ct_diff_words_0_iff:
  "ct_diff_words m a b i k d = 0 \<longleftrightarrow>
    d = 0 \<and> (\<forall>j < 4 * k. m (a + of_nat (i + j)) = m (b + of_nat (i + j)))"
proof (induction k arbitrary: i d)
  case 0
  then show ?case by simp
next
  case (Suc k)
  show ?case
    unfolding less_Suc4_split
    by (simp add: Suc.IH or_eq_0_word xor_eq_0_word get_u32_eq_iff ac_simps)
qed

lemma fold_diff_0_iff:
  "((diff :: 32 word) AND 0xffff) OR drop_bit 16 diff = 0 \<longleftrightarrow> diff = 0"
proof
  assume "(diff AND 0xffff) OR drop_bit 16 diff = 0"
  then have lo: "diff AND mask 16 = 0" and hi: "drop_bit 16 diff = 0"
    by (simp_all add: or_eq_0_word mask_eq_exp_minus_1)
  have "diff = push_bit 16 (drop_bit 16 diff) OR take_bit 16 diff"
    by (rule bit_word_eqI) (auto simp: bit_simps)
  then show "diff = 0"
    using lo hi by (simp add: take_bit_eq_mask)
qed simp

lemma mbedtls_ct_memcmp_0_iff:
  "mbedtls_ct_memcmp wide m a b n = 0 \<longleftrightarrow> mem_read m a n = mem_read m b n"
proof -
  let ?k = "if wide then unat n div 4 else 0"
  have split: "(\<forall>j < 4 * ?k. Q j) \<and> (\<forall>j < unat n - 4 * ?k. Q (4 * ?k + j)) \<longleftrightarrow>
      (\<forall>j < unat n. Q j)" (is "?l \<longleftrightarrow> ?r") for Q :: "nat \<Rightarrow> bool"
  proof
    assume l: ?l
    show ?r
    proof (intro allI impI)
      fix j assume "j < unat n"
      then show "Q j"
        using l [THEN conjunct1, rule_format, of j] l [THEN conjunct2, rule_format, of "j - 4 * ?k"]
        by (cases "j < 4 * ?k") auto
    qed
  qed auto
  have "mem_read m a n = mem_read m b n \<longleftrightarrow>
      (\<forall>j < unat n. m (a + of_nat j) = m (b + of_nat j))"
    by (simp add: list_eq_iff_nth_eq)
  also have "\<dots> \<longleftrightarrow> mbedtls_ct_memcmp wide m a b n = 0"
    unfolding split [symmetric] mbedtls_ct_memcmp_def Let_def fold_diff_0_iff
      ct_diff_bytes_0_iff ct_diff_words_0_iff by simp
  finally show ?thesis by simp
qed

section \<open>Lemmas: erasure and the watch\<close>

lemma run_zuc_secure_zero [run_simps]:
  "run_state (zuc_secure_zero p n) w =
    ((), if p = NULL then w else w\<lparr>w_mem := mem_write (w_mem w) p (replicate (unat n) 0)\<rparr>)"
  by (simp add: zuc_secure_zero_def mbedtls_platform_zeroize_def word_neq_0_conv)

lemma keeps_zuc_secure_zero [keeps_intros]:
  assumes "\<And>w g. f (w\<lparr>w_mem := g\<rparr>) = f w"
  shows "keeps f (zuc_secure_zero p n)"
  by (simp add: keeps_def run_zuc_secure_zero assms)

lemma confined_zuc_secure_zero [confined_intros]:
  assumes "buf p n \<subseteq> A"
  shows "confined A (zuc_secure_zero p n)"
  by (rule confinedI) (use assms in \<open>auto simp: run_zuc_secure_zero intro!: mem_write_outside\<close>)

lemma run_zuc_int_memory_or [run_simps]:
  "run_state (zuc_int_memory_or st) w =
    (if st \<noteq> ZUC_OK \<and> w_alloc_failed w then ZUC_ERR_MEMORY else st, w)"
  by (simp add: zuc_int_memory_or_def)

lemma run_zuc_int_alloc_watch [run_simps]:
  "run_state zuc_int_alloc_watch w = ((), w\<lparr>w_alloc_failed := False\<rparr>)"
  by (simp add: zuc_int_alloc_watch_def)

section \<open>Lemmas: the overlap test\<close>

lemma buf_inter_no_wrap:
  assumes "no_wrap a n" "no_wrap b n" "n \<noteq> 0"
  shows "buf a n \<inter> buf b n \<noteq> {} \<longleftrightarrow> unat a < unat b + unat n \<and> unat b < unat a + unat n"
    (is "?l \<longleftrightarrow> ?r")
proof
  assume ?l
  then obtain x where "x \<in> buf a n" "x \<in> buf b n" by blast
  then show ?r using assms by (simp add: in_buf_no_wrap)
next
  assume r: ?r
  have "0 < unat n" using assms(3) by (simp add: unat_gt_0)
  then have "max a b \<in> buf a n" "max a b \<in> buf b n"
    using r assms by (auto simp: in_buf_no_wrap max_def word_le_nat_alt)
  then show ?l by blast
qed

lemma unat_add_no_wrap: "no_wrap a n \<Longrightarrow> unat (a + n) = unat a + unat n"
  by (simp add: no_wrap_def unat_add_lem [THEN iffD1])

text \<open>Partial overlap: different buffers of the same length that share an address.\<close>

lemma zuc_int_overlaps_iff:
  assumes "no_wrap a n" "no_wrap b n" "a \<noteq> NULL" "b \<noteq> NULL"
  shows "zuc_int_overlaps a b n \<longleftrightarrow> a \<noteq> b \<and> buf a n \<inter> buf b n \<noteq> {}"
proof (cases "n = 0")
  case True
  then show ?thesis by (simp add: zuc_int_overlaps_def)
next
  case False
  have "zuc_int_overlaps a b n \<longleftrightarrow>
      a \<noteq> b \<and> unat a < unat b + unat n \<and> unat b < unat a + unat n"
    using assms False
    by (auto simp: zuc_int_overlaps_def word_less_nat_alt unat_add_no_wrap unat_gt_0)
  then show ?thesis
    using buf_inter_no_wrap [OF assms(1,2) False] by simp
qed

lemma zuc_int_overlaps_disjoint:
  assumes "no_wrap a n" "no_wrap b n" "a \<noteq> NULL" "b \<noteq> NULL"
    and "\<not> zuc_int_overlaps a b n"
  shows "a = b \<or> buf a n \<inter> buf b n = {}"
  using assms zuc_int_overlaps_iff by blast

section \<open>Properties\<close>

text \<open>
  \<^verbatim>\<open>zuc_equal\<close> is equality of byte strings. On non-NULL buffers, whether the word-at-a-time path
  or the byte path of the constant-time comparison is taken, it answers true exactly when the two
  \<open>n\<close>-byte buffers hold the same bytes; with a NULL argument it answers false, except that
  two empty buffers are always equal.
\<close>

theorem zuc_equal_iff:
  "zuc_equal wide m a b n =
    (n = 0 \<or> a \<noteq> NULL \<and> b \<noteq> NULL \<and> mem_read m a n = mem_read m b n)"
  using mbedtls_ct_memcmp_0_iff [of wide m a b n] by (simp add: zuc_equal_def)

text \<open>
  The overlap test is exact. For two buffers that do not wrap around the address space,
  \<^verbatim>\<open>zuc_int_overlaps\<close> holds exactly when the buffers are different and share an address; so when
  it does not hold, the output of an operation either is its input or misses it entirely.
\<close>

theorem zuc_int_overlaps_exact:
  assumes "no_wrap a n" "no_wrap b n" "a \<noteq> NULL" "b \<noteq> NULL"
  shows "zuc_int_overlaps a b n \<longleftrightarrow> a \<noteq> b \<and> buf a n \<inter> buf b n \<noteq> {}"
  using assms by (rule zuc_int_overlaps_iff)

theorem zuc_int_overlaps_exact_witness:
  "no_wrap 100 16 \<and> no_wrap 108 16 \<and> zuc_int_overlaps 100 108 16 \<and> buf 100 16 \<inter> buf 108 16 \<noteq> {}"
  using zuc_int_overlaps_exact [of 100 16 108] by (simp add: no_wrap_def zuc_int_overlaps_def)

end
