(* ===== verification/Fixtures.thy ===== *)
theory Fixtures
  imports World
begin

text \<open>
  Concrete instances of the two boundaries, used by the witnesses: a world that has just been
  initialised and a scripted backend whose status for each call is chosen by the witness.
\<close>

definition fresh_world :: "'b \<Rightarrow> ptr list \<Rightarrow> ('b, 'o) world" where
  "fresh_world b allocs =
    \<lparr>w_mem = (\<lambda>a. ucast a), w_sizes = (\<lambda>_. 0), w_cells = (\<lambda>_. 0), w_hashes = Map.empty,
     w_hmacs = Map.empty, w_aess = Map.empty, w_pkeys = Map.empty, w_blocks = Map.empty,
     w_allocs = allocs,
     w_os = (\<lambda>_. OS_fail), w_os_pos = 0, w_refcount = 1, w_live = 0, w_alloc_failed = False,
     w_random_failing = False, w_ub = False, w_psa = b\<rparr>"

text \<open>What the scripted backend writes: it copies data through and fills digests and tags.\<close>

fun scripted_out :: "psa_call \<Rightarrow> byte list" where
  "scripted_out (AEAD (Aead_update d n)) = d"
| "scripted_out (CIPHER (Cipher_update d n)) = d"
| "scripted_out (KDF (Kdf_output_bytes n)) = replicate (unat n) 0xAA"
| "scripted_out (HASH (Hash_compute alg d n)) = replicate 32 0xBB"
| "scripted_out (HASH (Hash_finish n)) = replicate 32 0xBB"
| "scripted_out (MAC (Mac_compute k alg d n)) = replicate 32 0xCC"
| "scripted_out (MAC (Mac_sign_finish n)) = replicate 32 0xCC"
| "scripted_out c = []"

fun scripted_tag :: "psa_call \<Rightarrow> byte list" where
  "scripted_tag (AEAD (Aead_finish n t)) = replicate (unat t) 0xDD"
| "scripted_tag c = []"

definition scripted :: "(psa_call \<Rightarrow> psa_status_t) \<Rightarrow> (unit, unit) psa" where
  "scripted f c op b =
    (\<lparr>r_status = f c, r_out = scripted_out c, r_len = of_nat (length (scripted_out c)),
      r_out2 = scripted_tag c, r_len2 = of_nat (length (scripted_tag c)), r_id = 7,
      r_attr = psa_key_attributes_init, r_op = Some (), r_alloc_failed = False\<rparr>, b)"

text \<open>The same backend, one that keeps all its output for the finish step.\<close>

definition scripted_short :: "(psa_call \<Rightarrow> psa_status_t) \<Rightarrow> (unit, unit) psa" where
  "scripted_short f c op b = (fst (scripted f c op b)\<lparr>r_out := [], r_len := 0\<rparr>, b)"

fun refuse_tag :: "psa_call \<Rightarrow> psa_status_t" where
  "refuse_tag (AEAD (Aead_verify n t)) = PSA_ERROR_INVALID_SIGNATURE"
| "refuse_tag (AEAD (Aead_finish n t)) = PSA_ERROR_BAD_STATE"
| "refuse_tag (KDF (Kdf_output_bytes n)) = PSA_ERROR_BAD_STATE"
| "refuse_tag c = PSA_SUCCESS"

abbreviation accept_all :: "psa_call \<Rightarrow> psa_status_t" where
  "accept_all \<equiv> \<lambda>_. PSA_SUCCESS"

text \<open>Handles, and an operating system that interrupts and delivers short reads.\<close>

definition demo_rsa :: zuc_pkey where
  "demo_rsa = \<lparr>k_type = ZUC_ALG_RSA, k_ptype = 0x7001, k_is_private = True,
     k_bits = 2048, k_der = 700, k_der_len = 8\<rparr>"

definition demo_x25519 :: "bool \<Rightarrow> zuc_pkey" where
  "demo_x25519 private = \<lparr>k_type = ZUC_ALG_X25519, k_ptype = 0x7141, k_is_private = private,
     k_bits = 255, k_der = 700, k_der_len = 32\<rparr>"

fun bad_padding :: "psa_call \<Rightarrow> psa_status_t" where
  "bad_padding (ASYM (Asymmetric_decrypt k a d n)) = -150"
| "bad_padding c = PSA_SUCCESS"

definition demo_os :: "nat \<Rightarrow> os_event" where
  "demo_os i = (if i = 0 then OS_intr else if i = 1 then OS_bytes [1, 2, 3] else OS_bytes [4, 5, 6])"

definition demo_world :: "(nat \<Rightarrow> os_event) \<Rightarrow> (unit, unit) world" where
  "demo_world ev = (fresh_world () [])\<lparr>w_mem := (\<lambda>_. 7), w_os := ev\<rparr>"

lemma fresh_world_simps [simp]:
  "w_mem (fresh_world b ps) = (\<lambda>a. ucast a)" "w_refcount (fresh_world b ps) = 1"
  "w_allocs (fresh_world b ps) = ps" "w_live (fresh_world b ps) = 0"
  "w_psa (fresh_world b ps) = b" "w_ub (fresh_world b ps) = False"
  "w_aess (fresh_world b ps) = Map.empty" "w_hmacs (fresh_world b ps) = Map.empty"
  "w_hashes (fresh_world b ps) = Map.empty" "w_pkeys (fresh_world b ps) = Map.empty"
  "w_blocks (fresh_world b ps) = Map.empty" "w_alloc_failed (fresh_world b ps) = False"
  by (simp_all add: fresh_world_def)

lemma demo_world_simps [simp]:
  "w_mem (demo_world ev) = (\<lambda>_. 7)" "w_os (demo_world ev) = ev" "w_os_pos (demo_world ev) = 0"
  "w_random_failing (demo_world ev) = False" "w_refcount (demo_world ev) = 1"
  by (simp_all add: demo_world_def fresh_world_def)

end
