(* ===== verification/Backend.thy ===== *)
theory Backend
  imports Util Fixtures "HOL-Library.Multiset"
begin

text \<open>
  \<^verbatim>\<open>src/src/zuc_backend.c\<close>: the reference count that decides when the backend is started and torn
  down, the count of live handles, and \<^verbatim>\<open>zuc_get_info\<close> with its struct-size negotiation.

  \<open>traced P\<close> is the backend \<open>P\<close> with a log of the calls made to it, so that theorems can speak
  about when the adapter calls \<^verbatim>\<open>psa_crypto_init\<close> and \<^verbatim>\<open>mbedtls_psa_crypto_free\<close>.
\<close>

section \<open>Lifetime\<close>

definition zuc_int_live_add :: "int \<Rightarrow> ('b, 'o, unit) zuc" where
  "zuc_int_live_add delta = modify (\<lambda>w. w\<lparr>w_live := w_live w + delta\<rparr>)"

definition zuc_int_live_contexts :: "('b, 'o, int) zuc" where
  "zuc_int_live_contexts = gets w_live"

definition zuc_int_ready :: "('b, 'o, bool) zuc" where
  "zuc_int_ready = gets (\<lambda>w. w_refcount w > 0)"

definition zuc_init :: "('b, 'o) psa \<Rightarrow> ('b, 'o, zuc_status) zuc" where
  "zuc_init P = do {
     n \<leftarrow> gets w_refcount;
     if n > 0 then
       (if n = 0xFFFFFFFF then ret ZUC_ERR_INTERNAL
        else do { modify (\<lambda>w. w\<lparr>w_refcount := w_refcount w + 1\<rparr>); ret ZUC_OK })
     else do {
       r \<leftarrow> psa_do P CRYPTO_INIT None;
       if r_status r \<noteq> PSA_SUCCESS then ret (zuc_int_from_psa (r_status r))
       else do { modify (\<lambda>w. w\<lparr>w_refcount := 1\<rparr>); ret ZUC_OK }
     }
   }"

definition zuc_shutdown :: "('b, 'o) psa \<Rightarrow> ('b, 'o, zuc_status) zuc" where
  "zuc_shutdown P = do {
     n \<leftarrow> gets w_refcount;
     if n = 0 then ret ZUC_ERR_INVALID_ARGUMENT
     else do {
       modify (\<lambda>w. w\<lparr>w_refcount := w_refcount w - 1\<rparr>);
       n \<leftarrow> gets w_refcount;
       if n = 0 then do { _ \<leftarrow> psa_do P CRYPTO_FREE None; ret ZUC_OK }
       else ret ZUC_OK
     }
   }"

section \<open>Identification\<close>

text \<open>The struct of the caller; offsets are those of the LP64 layout of \<^verbatim>\<open>zuc_info\<close>.\<close>

record zuc_info =
  i_struct_size :: "32 word"
  i_abi_version :: "32 word"
  i_backend_name :: string
  i_backend_version :: string
  i_random_backend :: string
  i_hardware_acceleration :: bool
  i_aes_implementation :: string

abbreviation (input) ZUCRYPT_ABI_VERSION :: "32 word" where
  "ZUCRYPT_ABI_VERSION \<equiv> 1"

definition ZUC_INFO_REQUIRED_SIZE :: nat where
  "ZUC_INFO_REQUIRED_SIZE = 24 + 8"

definition hardware_acceleration_end :: nat where
  "hardware_acceleration_end = 32 + 4"

definition aes_implementation_end :: nat where
  "aes_implementation_end = 40 + 8"

definition zuc_int_aes_implementation :: "('b, 'o) psa \<Rightarrow> ('b, 'o, string) zuc" where
  "zuc_int_aes_implementation P = do {
     r \<leftarrow> psa_do P AES_GET_IMPLEMENTATION None;
     ret (if r_status r = 2 \<or> r_status r = 3 then ''aesni''
          else if r_status r = 1 then ''aesce''
          else if r_status r = 0 then ''software''
          else ''unknown'')
   }"

definition zuc_get_info ::
  "('b, 'o) psa \<Rightarrow> string \<Rightarrow> zuc_info option \<Rightarrow>
   ('b, 'o, zuc_status \<times> zuc_info option) zuc" where
  "zuc_get_info P random_backend info =
    (case info of
       None \<Rightarrow> ret (ZUC_ERR_INVALID_ARGUMENT, None)
     | Some i \<Rightarrow>
         if unat (i_struct_size i) < ZUC_INFO_REQUIRED_SIZE then ret (ZUC_ERR_ABI, Some i)
         else do {
           let i = i\<lparr>i_abi_version := ZUCRYPT_ABI_VERSION,
                     i_backend_name := ''TF-PSA-Crypto'',
                     i_backend_version := ''1.1.1'',
                     i_random_backend := random_backend\<rparr>;
           i \<leftarrow> (if unat (i_struct_size i) \<ge> hardware_acceleration_end
                 then do {
                   imp \<leftarrow> zuc_int_aes_implementation P;
                   ret (i\<lparr>i_hardware_acceleration := (imp = ''aesni'' \<or> imp = ''aesce'')\<rparr>) }
                 else ret i);
           i \<leftarrow> (if unat (i_struct_size i) \<ge> aes_implementation_end
                 then do {
                   imp \<leftarrow> zuc_int_aes_implementation P;
                   ret (i\<lparr>i_aes_implementation := imp\<rparr>) }
                 else ret i);
           ret (ZUC_OK, Some i)
         })"

section \<open>The client's view: sequences of zuc\_init and zuc\_shutdown\<close>

inductive lifetime_reach :: "('b, 'o) psa \<Rightarrow> ('b, 'o) world \<Rightarrow> ('b, 'o) world \<Rightarrow> nat \<Rightarrow> bool"
  for P w0 where
  start: "w_refcount w0 = 0 \<Longrightarrow> lifetime_reach P w0 w0 0"
| init_ok: "lifetime_reach P w0 w n \<Longrightarrow> run_state (zuc_init P) w = (ZUC_OK, w') \<Longrightarrow>
    lifetime_reach P w0 w' (Suc n)"
| init_fail: "lifetime_reach P w0 w n \<Longrightarrow> run_state (zuc_init P) w = (st, w') \<Longrightarrow> st \<noteq> ZUC_OK \<Longrightarrow>
    lifetime_reach P w0 w' n"
| shutdown_ok: "lifetime_reach P w0 w n \<Longrightarrow> run_state (zuc_shutdown P) w = (ZUC_OK, w') \<Longrightarrow>
    lifetime_reach P w0 w' (n - 1)"
| shutdown_fail: "lifetime_reach P w0 w n \<Longrightarrow> run_state (zuc_shutdown P) w = (st, w') \<Longrightarrow>
    st \<noteq> ZUC_OK \<Longrightarrow> lifetime_reach P w0 w' n"

type_synonym call_entry = "psa_call \<times> psa_status_t \<times> psa_key_id_t"
type_synonym call_log = "call_entry list"

definition traced :: "('b, 'o) psa \<Rightarrow> (call_log \<times> 'b, 'o) psa" where
  "traced P c op s =
    (let (r, b') = P c op (snd s) in (r, (fst s @ [(c, r_status r, r_id r)], b')))"

text \<open>
  The protocol of the backend's lifetime: \<open>up_after l\<close> is \<open>Some True\<close> when the log \<open>l\<close> leaves the
  backend running, \<open>Some False\<close> when it leaves it stopped, and \<open>None\<close> when \<open>l\<close> starts a running
  backend or tears down a stopped one.
\<close>

definition up_step :: "bool option \<Rightarrow> call_entry \<Rightarrow> bool option" where
  "up_step up e =
    (case up of
       None \<Rightarrow> None
     | Some u \<Rightarrow>
         (case fst e of
            CRYPTO_INIT \<Rightarrow> if u then None else Some (fst (snd e) = PSA_SUCCESS)
          | CRYPTO_FREE \<Rightarrow> if u then Some False else None
          | _ \<Rightarrow> Some u))"

definition up_after :: "call_log \<Rightarrow> bool option" where
  "up_after l = foldl up_step (Some False) l"

text \<open>
  The keys the adapter owes the backend after a log of calls: what it imported or generated
  and has not destroyed.
\<close>

definition owed_step :: "psa_key_id_t multiset \<Rightarrow> call_entry \<Rightarrow> psa_key_id_t multiset" where
  "owed_step M e =
    (case e of (c, ps, kid) \<Rightarrow>
      (case c of
         KEY (Import_key attr data) \<Rightarrow> if ps = PSA_SUCCESS then add_mset kid M else M
       | KEY (Generate_key attr) \<Rightarrow> if ps = PSA_SUCCESS then add_mset kid M else M
       | PK (Pk_import_into_psa attr) \<Rightarrow> if ps = PSA_SUCCESS then add_mset kid M else M
       | KEY (Destroy_key k) \<Rightarrow> M - {#k#}
       | _ \<Rightarrow> M))"

definition owed_keys :: "call_log \<Rightarrow> psa_key_id_t multiset" where
  "owed_keys l = foldl owed_step {#} l"

abbreviation owed :: "(call_log \<times> 'b, 'o) world \<Rightarrow> psa_key_id_t multiset" where
  "owed w \<equiv> owed_keys (fst (w_psa w))"

fun key_call :: "psa_call \<Rightarrow> bool" where
  "key_call (KEY (Import_key attr data)) = True"
| "key_call (KEY (Generate_key attr)) = True"
| "key_call (KEY (Destroy_key k)) = True"
| "key_call (PK (Pk_import_into_psa attr)) = True"
| "key_call _ = False"

section \<open>Lemmas\<close>

lemma run_zuc_int_ready [run_simps, simp]: "run_state zuc_int_ready w = (w_refcount w > 0, w)"
  by (simp add: zuc_int_ready_def)

lemma run_zuc_int_live_add [run_simps, simp]:
  "run_state (zuc_int_live_add d) w = ((), w\<lparr>w_live := w_live w + d\<rparr>)"
  by (simp add: zuc_int_live_add_def)

lemma keeps_zuc_int_ready [keeps_intros]: "keeps f zuc_int_ready"
  by (simp add: keeps_def)

lemma keeps_zuc_int_live_add [keeps_intros]:
  "(\<And>w g. f (w\<lparr>w_live := g\<rparr>) = f w) \<Longrightarrow> keeps f (zuc_int_live_add d)"
  by (simp add: keeps_def)

lemma confined_zuc_int [confined_intros]:
  "confined A zuc_int_ready" "confined A (zuc_int_live_add d)"
  by (rule keeps_mem_confined; intro keeps_intros; simp)+

lemma unat_inc_32:
  assumes "(x :: 32 word) \<noteq> 0xFFFFFFFF"
  shows "unat (x + 1) = Suc (unat x)"
proof -
  have "unat x \<noteq> 4294967295"
    using assms by (simp add: word_unat_eq_iff)
  moreover have "unat x < 2 ^ LENGTH(32)"
    by (rule unsigned_less)
  ultimately show ?thesis
    by (simp add: unat_word_ariths)
qed

lemma inc_nonzero_32: "(x :: 32 word) \<noteq> 0xFFFFFFFF \<Longrightarrow> x + 1 \<noteq> 0"
  using unat_inc_32 [of x] by auto

lemma zuc_init_refcount:
  assumes "run_state (zuc_init P) w = (st, w')"
  shows "st = ZUC_OK \<Longrightarrow> unat (w_refcount w') = Suc (unat (w_refcount w))"
    and "st \<noteq> ZUC_OK \<Longrightarrow> w_refcount w' = w_refcount w"
  using assms
  by (auto simp: zuc_init_def run_psa_do word_gt_0 unat_inc_32 split: if_splits)

lemma zuc_shutdown_refcount:
  assumes "run_state (zuc_shutdown P) w = (st, w')"
  shows "st = ZUC_OK \<Longrightarrow> unat (w_refcount w') = unat (w_refcount w) - 1 \<and> w_refcount w \<noteq> 0"
    and "st \<noteq> ZUC_OK \<Longrightarrow> w' = w \<and> w_refcount w = 0"
  using assms by (auto simp: zuc_shutdown_def run_psa_do unat_minus_one split: if_splits)

lemma lifetime_reach_count: "lifetime_reach P w0 w n \<Longrightarrow> unat (w_refcount w) = n"
proof (induction rule: lifetime_reach.induct)
  case (init_ok w n w')
  then show ?case using zuc_init_refcount by metis
next
  case (init_fail w n st w')
  then show ?case using zuc_init_refcount by metis
next
  case (shutdown_ok w n w')
  then show ?case using zuc_shutdown_refcount by metis
next
  case (shutdown_fail w n st w')
  then show ?case using zuc_shutdown_refcount by metis
qed simp

lemma up_after_snoc: "up_after (l @ [e]) = up_step (up_after l) e"
  by (simp add: up_after_def)

lemma traced_do:
  "run_state (psa_do (traced P) c op) w =
    (let (r, b') = P c op (snd (w_psa w))
     in (r, w\<lparr>w_psa := (fst (w_psa w) @ [(c, r_status r, r_id r)], b'),
              w_alloc_failed := (w_alloc_failed w \<or> r_alloc_failed r)\<rparr>))"
  by (simp add: run_psa_do traced_def split: prod.splits)

lemma zuc_init_up:
  assumes "up_after (fst (w_psa w)) = Some (w_refcount w > 0)"
    and "run_state (zuc_init (traced P)) w = (st, w')"
  shows "up_after (fst (w_psa w')) = Some (w_refcount w' > 0)"
  using assms
  by (auto simp: zuc_init_def traced_do up_after_snoc up_step_def word_gt_0
      inc_nonzero_32 split: if_splits prod.splits)

lemma zuc_shutdown_up:
  assumes "up_after (fst (w_psa w)) = Some (w_refcount w > 0)"
    and "run_state (zuc_shutdown (traced P)) w = (st, w')"
  shows "up_after (fst (w_psa w')) = Some (w_refcount w' > 0)"
  using assms
  by (auto simp: zuc_shutdown_def traced_do up_after_snoc up_step_def word_gt_0
      split: if_splits prod.splits)

lemma lifetime_reach_up:
  assumes "lifetime_reach (traced P) w0 w n" and "fst (w_psa w0) = []"
  shows "up_after (fst (w_psa w)) = Some (w_refcount w > 0)"
  using assms(1)
proof (induction rule: lifetime_reach.induct)
  case start
  then show ?case by (simp add: assms(2) up_after_def)
qed (blast intro: zuc_init_up zuc_shutdown_up)+


text \<open>Only the calls that create or destroy a key change what is owed.\<close>

lemma owed_keys_snoc: "owed_keys (l @ [e]) = owed_step (owed_keys l) e"
  by (simp add: owed_keys_def)

lemma owed_step_other: "\<not> key_call c \<Longrightarrow> owed_step M (c, ps, kid) = M"
  by (cases c rule: key_call.cases) (auto simp: owed_step_def)

lemma keeps_owed_psa_do [keeps_intros]:
  "\<not> key_call c \<Longrightarrow> keeps owed (psa_do (traced P) c op)"
  by (simp add: keeps_def traced_do owed_keys_snoc owed_step_other split: prod.splits)

lemma owed_psa_import_key:
  "valid (\<lambda>w. owed w = M) (psa_import_key (traced P) attr d)
     (\<lambda>r w. owed w = (if fst r = PSA_SUCCESS then add_mset (snd r) M else M))"
  by (auto simp: valid_def psa_import_key_def traced_do owed_keys_snoc owed_step_def
      split: prod.splits)

lemma owed_psa_destroy_key:
  "valid (\<lambda>w. owed w = M) (psa_destroy_key (traced P) k) (\<lambda>r w. owed w = M - {#k#})"
  by (auto simp: valid_def psa_destroy_key_def traced_do owed_keys_snoc owed_step_def
      split: prod.splits)

section \<open>Properties\<close>

text \<open>
  C37. The reference count is a count. After any sequence of \<^verbatim>\<open>zuc_init\<close> and \<^verbatim>\<open>zuc_shutdown\<close> calls,
  failed ones included, the count is the number of successful starts not yet matched by a
  successful shutdown (it never wraps), and the backend's own start and teardown functions were
  called in strict alternation: it is running exactly while that number is positive, is never
  started twice and never torn down while stopped.
\<close>

theorem zuc_lifetime:
  assumes "lifetime_reach (traced P) w0 w n" and "fst (w_psa w0) = []"
  shows "unat (w_refcount w) = n \<and> up_after (fst (w_psa w)) = Some (n > 0)"
proof -
  have n: "unat (w_refcount w) = n"
    by (rule lifetime_reach_count [OF assms(1)])
  moreover have "(w_refcount w > 0) = (n > 0)"
    using n by (metis word_less_nat_alt unat_0)
  ultimately show ?thesis
    using lifetime_reach_up [OF assms] by simp
qed

theorem zuc_lifetime_witness:
  "\<exists>w. lifetime_reach (traced (scripted accept_all)) ((fresh_world ([], ()) [])\<lparr>w_refcount := 0\<rparr>) w 2 \<and>
    unat (w_refcount w) = 2 \<and> up_after (fst (w_psa w)) = Some True"
proof -
  let ?P = "traced (scripted accept_all)"
  let ?w0 = "(fresh_world ([], ()) [])\<lparr>w_refcount := 0\<rparr> :: (call_log \<times> unit, unit) world"
  obtain w1 where w1: "run_state (zuc_init ?P) ?w0 = (ZUC_OK, w1)" "w_refcount w1 = 1"
    by (simp add: zuc_init_def run_psa_do traced_def scripted_def)
  obtain w2 where w2: "run_state (zuc_init ?P) w1 = (ZUC_OK, w2)"
    by (simp add: zuc_init_def w1(2))
  have "lifetime_reach ?P ?w0 w2 (Suc (Suc 0))"
    by (intro lifetime_reach.init_ok [OF _ w2] lifetime_reach.init_ok [OF _ w1(1)]
        lifetime_reach.start) simp
  then have r: "lifetime_reach ?P ?w0 w2 2"
    by (simp add: numeral_2_eq_2)
  show ?thesis
    using zuc_lifetime [OF r] r by auto
qed

text \<open>
  Info negotiation. \<^verbatim>\<open>zuc_get_info\<close> refuses a struct too small for the fields of the first ABI
  and leaves it untouched; otherwise it succeeds, keeps the caller's \<^verbatim>\<open>struct_size\<close>, and writes each
  optional field exactly when the caller's struct is large enough to contain the whole of it, so
  it never writes past the end of an older caller's struct.
\<close>

theorem zuc_get_info_sizes:
  assumes "run_state (zuc_get_info P rb (Some i)) w = ((st, i'), w')"
  shows "if unat (i_struct_size i) < 32 then st = ZUC_ERR_ABI \<and> i' = Some i \<and> w' = w
    else st = ZUC_OK \<and> (\<exists>hw imp.
      i' = Some (i\<lparr>i_abi_version := 1, i_backend_name := ''TF-PSA-Crypto'',
        i_backend_version := ''1.1.1'', i_random_backend := rb,
        i_hardware_acceleration :=
          (if unat (i_struct_size i) < 36 then i_hardware_acceleration i else hw),
        i_aes_implementation :=
          (if unat (i_struct_size i) < 48 then i_aes_implementation i else imp)\<rparr>) \<and>
      imp \<in> {''aesni'', ''aesce'', ''software'', ''unknown''})"
proof -
  obtain imp1 w1 where i1: "run_state (zuc_int_aes_implementation P) w = (imp1, w1)"
    by force
  obtain imp2 w2 where i2: "run_state (zuc_int_aes_implementation P) w1 = (imp2, w2)"
    by force
  have "imp2 \<in> {''aesni'', ''aesce'', ''software'', ''unknown''}"
    using i2 by (auto simp: zuc_int_aes_implementation_def run_psa_do split: if_splits)
  then show ?thesis
    using assms i1 i2
    by (cases "unat (i_struct_size i) < 36"; cases "unat (i_struct_size i) < 48")
      (auto simp: zuc_get_info_def ZUC_INFO_REQUIRED_SIZE_def hardware_acceleration_end_def
        aes_implementation_end_def Let_def split: if_splits)
qed

theorem zuc_get_info_sizes_witness:
  "\<exists>i' w'. run_state (zuc_get_info (scripted (\<lambda>_. 2)) ''getrandom''
      (Some \<lparr>i_struct_size = 36, i_abi_version = 0, i_backend_name = [], i_backend_version = [],
        i_random_backend = [], i_hardware_acceleration = False, i_aes_implementation = ''x''\<rparr>))
      (fresh_world () []) = ((ZUC_OK, Some i'), w') \<and> i_aes_implementation i' = ''x''"
proof -
  let ?i = "\<lparr>i_struct_size = 36, i_abi_version = 0, i_backend_name = [], i_backend_version = [],
        i_random_backend = [], i_hardware_acceleration = False, i_aes_implementation = ''x''\<rparr>"
  obtain st i' w' where r: "run_state (zuc_get_info (scripted (\<lambda>_. 2)) ''getrandom'' (Some ?i))
      (fresh_world () []) = ((st, i'), w')"
    by (metis surj_pair)
  show ?thesis
    using zuc_get_info_sizes [OF r] r by auto
qed

end
