(* ===== verification/Hash.thy ===== *)
theory Hash
  imports Backend
begin

text \<open>
  \<^verbatim>\<open>src/src/zuc_hash.c\<close>: one-shot and incremental digests and HMACs over an arbitrary backend.
  Every function takes the C function's parameters in order, pointers included; \<open>out\<close> of a
  constructor is the address of a pointer cell and \<open>out_len\<close> the address of a \<^verbatim>\<open>size_t\<close> cell.
\<close>

abbreviation (input) PSA_ALG_CATEGORY_HASH :: psa_algorithm_t where
  "PSA_ALG_CATEGORY_HASH \<equiv> 0x02000000"
abbreviation (input) PSA_ALG_HASH_MASK :: psa_algorithm_t where
  "PSA_ALG_HASH_MASK \<equiv> 0xff"
abbreviation (input) PSA_ALG_HMAC_BASE :: psa_algorithm_t where
  "PSA_ALG_HMAC_BASE \<equiv> 0x03800000"
abbreviation (input) PSA_KEY_TYPE_HMAC :: psa_key_type_t where
  "PSA_KEY_TYPE_HMAC \<equiv> 0x1100"
abbreviation (input) PSA_KEY_USAGE_SIGN_MESSAGE :: psa_key_usage_t where
  "PSA_KEY_USAGE_SIGN_MESSAGE \<equiv> 0x400"

definition PSA_ALG_HMAC :: "psa_algorithm_t \<Rightarrow> psa_algorithm_t" where
  "PSA_ALG_HMAC hash_alg = PSA_ALG_HMAC_BASE OR (hash_alg AND PSA_ALG_HASH_MASK)"

definition PSA_ALG_HMAC_GET_HASH :: "psa_algorithm_t \<Rightarrow> psa_algorithm_t" where
  "PSA_ALG_HMAC_GET_HASH hmac_alg = PSA_ALG_CATEGORY_HASH OR (hmac_alg AND PSA_ALG_HASH_MASK)"

definition PSA_HASH_BLOCK_LENGTH :: "psa_algorithm_t \<Rightarrow> size_t" where
  "PSA_HASH_BLOCK_LENGTH alg =
    (let h = PSA_ALG_HMAC_GET_HASH alg in
     if h = 0x02000003 then 64        \<comment> \<open>MD5\<close>
     else if h = 0x02000004 then 64   \<comment> \<open>RIPEMD160\<close>
     else if h = PSA_ALG_SHA_1 then 64
     else if h = 0x02000008 then 64   \<comment> \<open>SHA-224\<close>
     else if h = PSA_ALG_SHA_256 then 64
     else if h = PSA_ALG_SHA_384 then 128
     else if h = PSA_ALG_SHA_512 then 128
     else if h = 0x0200000c then 128  \<comment> \<open>SHA-512/224\<close>
     else if h = 0x0200000d then 128  \<comment> \<open>SHA-512/256\<close>
     else if h = 0x02000010 then 144  \<comment> \<open>SHA3-224\<close>
     else if h = 0x02000011 then 136  \<comment> \<open>SHA3-256\<close>
     else if h = 0x02000012 then 104  \<comment> \<open>SHA3-384\<close>
     else if h = 0x02000013 then 72   \<comment> \<open>SHA3-512\<close>
     else 0)"

section \<open>Shared checks\<close>

definition check_digest_args ::
  "zuc_alg \<Rightarrow> ptr \<Rightarrow> size_t \<Rightarrow> ptr \<Rightarrow> size_t \<Rightarrow> ptr \<Rightarrow> ('b, 'o, zuc_status) zuc" where
  "check_digest_args alg data data_len out out_size out_len = do {
     ready \<leftarrow> zuc_int_ready;
     ret (if \<not> ready then ZUC_ERR_NOT_READY
          else if out = NULL \<or> out_len = NULL then ZUC_ERR_INVALID_ARGUMENT
          else if data = NULL \<and> data_len \<noteq> 0 then ZUC_ERR_INVALID_ARGUMENT
          else if \<not> zuc_int_digest_available alg then ZUC_ERR_UNSUPPORTED
          else if out_size < zuc_alg_size alg then ZUC_ERR_BAD_LENGTH
          else ZUC_OK)
   }"

section \<open>Digest\<close>

definition zuc_hash_compute ::
  "('b, 'o) psa \<Rightarrow> zuc_alg \<Rightarrow> ptr \<Rightarrow> size_t \<Rightarrow> ptr \<Rightarrow> size_t \<Rightarrow> ptr \<Rightarrow> ('b, 'o, zuc_status) zuc" where
  "zuc_hash_compute P alg data data_len out out_size out_len = do {
     st \<leftarrow> check_digest_args alg data data_len out out_size out_len;
     if st \<noteq> ZUC_OK then ret st
     else do {
       write_size out_len 0;
       d \<leftarrow> (if data = NULL then ret [] else read_bytes data data_len);
       r \<leftarrow> psa_do P (HASH (Hash_compute (zuc_int_psa_hash alg) d out_size)) None;
       write_out out out_size (r_out r);
       write_size out_len (r_len r);
       ret (zuc_int_from_psa (r_status r))
     }
   }"

definition zuc_hash_new :: "('b, 'o) psa \<Rightarrow> zuc_alg \<Rightarrow> ptr \<Rightarrow> ('b, 'o, zuc_status) zuc" where
  "zuc_hash_new P alg out =
    (if out = NULL then ret ZUC_ERR_INVALID_ARGUMENT
     else do {
       write_cell out NULL;
       ready \<leftarrow> zuc_int_ready;
       if \<not> ready then ret ZUC_ERR_NOT_READY
       else if \<not> zuc_int_digest_available alg then ret ZUC_ERR_UNSUPPORTED
       else do {
         p \<leftarrow> calloc_hash;
         if p = NULL then ret ZUC_ERR_MEMORY
         else do {
           let h = zero_hash\<lparr>h_alg := alg, h_palg := zuc_int_psa_hash alg, h_op := None\<rparr>;
           r \<leftarrow> psa_do P (HASH (Hash_setup (h_palg h))) (h_op h);
           let h = h\<lparr>h_op := r_op r\<rparr>;
           if r_status r \<noteq> PSA_SUCCESS then do {
             _ \<leftarrow> psa_do P (HASH Hash_abort) (h_op h);
             free_struct_hash p;
             ret (zuc_int_from_psa (r_status r))
           }
           else do {
             set_hash p (h\<lparr>h_active := True\<rparr>);
             write_cell out p;
             zuc_int_live_add 1;
             ret ZUC_OK
           }
         }
       }
     })"

definition zuc_hash_update ::
  "('b, 'o) psa \<Rightarrow> ptr \<Rightarrow> ptr \<Rightarrow> size_t \<Rightarrow> ('b, 'o, zuc_status) zuc" where
  "zuc_hash_update P hash data data_len =
    (if hash = NULL \<or> (data = NULL \<and> data_len \<noteq> 0) then ret ZUC_ERR_INVALID_ARGUMENT
     else do {
       h \<leftarrow> deref_hash hash;
       if \<not> h_active h then ret ZUC_ERR_INVALID_ARGUMENT
       else if data_len = 0 then ret ZUC_OK
       else do {
         d \<leftarrow> read_bytes data data_len;
         r \<leftarrow> psa_do P (HASH (Hash_update d)) (h_op h);
         set_hash hash (h\<lparr>h_op := r_op r\<rparr>);
         ret (zuc_int_from_psa (r_status r))
       }
     })"

definition zuc_hash_finish ::
  "('b, 'o) psa \<Rightarrow> ptr \<Rightarrow> ptr \<Rightarrow> size_t \<Rightarrow> ptr \<Rightarrow> ('b, 'o, zuc_status) zuc" where
  "zuc_hash_finish P hash out out_size out_len =
    (if hash = NULL \<or> out = NULL \<or> out_len = NULL then ret ZUC_ERR_INVALID_ARGUMENT
     else do {
       h \<leftarrow> deref_hash hash;
       if \<not> h_active h then ret ZUC_ERR_INVALID_ARGUMENT
       else if out_size < zuc_alg_size (h_alg h) then ret ZUC_ERR_BAD_LENGTH
       else do {
         write_size out_len 0;
         r \<leftarrow> psa_do P (HASH (Hash_finish out_size)) (h_op h);
         write_out out out_size (r_out r);
         write_size out_len (r_len r);
         set_hash hash (h\<lparr>h_op := r_op r, h_active := False\<rparr>);
         ret (zuc_int_from_psa (r_status r))
       }
     })"

definition zuc_hash_reset :: "('b, 'o) psa \<Rightarrow> ptr \<Rightarrow> ('b, 'o, zuc_status) zuc" where
  "zuc_hash_reset P hash =
    (if hash = NULL then ret ZUC_ERR_INVALID_ARGUMENT
     else do {
       h \<leftarrow> deref_hash hash;
       h \<leftarrow> (if h_active h then do {
               r \<leftarrow> psa_do P (HASH Hash_abort) (h_op h);
               ret (h\<lparr>h_op := r_op r, h_active := False\<rparr>)
             }
             else ret h);
       let h = h\<lparr>h_op := None\<rparr>;
       r \<leftarrow> psa_do P (HASH (Hash_setup (h_palg h))) (h_op h);
       let h = h\<lparr>h_op := r_op r\<rparr>;
       if r_status r \<noteq> PSA_SUCCESS then do {
         r' \<leftarrow> psa_do P (HASH Hash_abort) (h_op h);
         set_hash hash (h\<lparr>h_op := r_op r'\<rparr>);
         ret (zuc_int_from_psa (r_status r))
       }
       else do { set_hash hash (h\<lparr>h_active := True\<rparr>); ret ZUC_OK }
     })"

definition zuc_hash_free :: "('b, 'o) psa \<Rightarrow> ptr \<Rightarrow> ('b, 'o, unit) zuc" where
  "zuc_hash_free P hash =
    (if hash = NULL then ret ()
     else do {
       h \<leftarrow> deref_hash hash;
       _ \<leftarrow> psa_do P (HASH Hash_abort) (h_op h);
       free_struct_hash hash;
       zuc_int_live_add (-1)
     })"

section \<open>HMAC\<close>

text \<open>
  \<^verbatim>\<open>import_hmac_key\<close> returns the status and, through \<^verbatim>\<open>*out\<close>, the key identifier; \<open>kb\<close> is the
  local buffer \<^verbatim>\<open>reduced\<close> or the caller's key.
\<close>

definition import_hmac_key ::
  "('b, 'o) psa \<Rightarrow> zuc_alg \<Rightarrow> ptr \<Rightarrow> size_t \<Rightarrow> psa_algorithm_t \<Rightarrow>
   ('b, 'o, zuc_status \<times> psa_key_id_t) zuc" where
  "import_hmac_key P alg key key_len palg = do {
     k \<leftarrow> read_bytes key key_len;
     let halg = zuc_int_psa_hash alg;
     (ps, kb) \<leftarrow> (if key_len > PSA_HASH_BLOCK_LENGTH halg then do {
                    r \<leftarrow> psa_do P (HASH (Hash_compute halg k ZUC_MAX_DIGEST_SIZE)) None;
                    ret (r_status r, local_buf ZUC_MAX_DIGEST_SIZE (r_out r) (r_len r))
                  }
                  else ret (PSA_SUCCESS, k));
     if ps \<noteq> PSA_SUCCESS then ret (zuc_int_from_psa ps, 0)
     else do {
       let attr = psa_key_attributes_init
             \<lparr>pa_usage := PSA_KEY_USAGE_SIGN_MESSAGE, pa_alg := palg, pa_type := PSA_KEY_TYPE_HMAC\<rparr>;
       (ps, id) \<leftarrow> (if kb = [] then psa_import_key P attr [0] else psa_import_key P attr kb);
       ret (zuc_int_from_psa ps, id)
     }
   }"

definition zuc_hmac_compute ::
  "('b, 'o) psa \<Rightarrow> zuc_alg \<Rightarrow> ptr \<Rightarrow> size_t \<Rightarrow> ptr \<Rightarrow> size_t \<Rightarrow> ptr \<Rightarrow> size_t \<Rightarrow> ptr \<Rightarrow>
   ('b, 'o, zuc_status) zuc" where
  "zuc_hmac_compute P alg key key_len data data_len out out_size out_len = do {
     st \<leftarrow> check_digest_args alg data data_len out out_size out_len;
     if st \<noteq> ZUC_OK then ret st
     else if key = NULL \<and> key_len \<noteq> 0 then ret ZUC_ERR_INVALID_ARGUMENT
     else do {
       write_size out_len 0;
       let palg = PSA_ALG_HMAC (zuc_int_psa_hash alg);
       (st, k) \<leftarrow> import_hmac_key P alg key key_len palg;
       if st \<noteq> ZUC_OK then ret st
       else do {
         d \<leftarrow> (if data = NULL then ret [] else read_bytes data data_len);
         r \<leftarrow> psa_do P (MAC (Mac_compute k palg d out_size)) None;
         write_out out out_size (r_out r);
         write_size out_len (r_len r);
         psa_destroy_key P k;
         ret (zuc_int_from_psa (r_status r))
       }
     }
   }"

definition zuc_hmac_new ::
  "('b, 'o) psa \<Rightarrow> zuc_alg \<Rightarrow> ptr \<Rightarrow> size_t \<Rightarrow> ptr \<Rightarrow> ('b, 'o, zuc_status) zuc" where
  "zuc_hmac_new P alg key key_len out =
    (if out = NULL then ret ZUC_ERR_INVALID_ARGUMENT
     else do {
       write_cell out NULL;
       ready \<leftarrow> zuc_int_ready;
       if \<not> ready then ret ZUC_ERR_NOT_READY
       else if key = NULL \<and> key_len \<noteq> 0 then ret ZUC_ERR_INVALID_ARGUMENT
       else if \<not> zuc_int_digest_available alg then ret ZUC_ERR_UNSUPPORTED
       else do {
         p \<leftarrow> calloc_hmac;
         if p = NULL then ret ZUC_ERR_MEMORY
         else do {
           let h = zero_hmac\<lparr>m_alg := alg, m_palg := PSA_ALG_HMAC (zuc_int_psa_hash alg), m_op := None\<rparr>;
           (st, k) \<leftarrow> import_hmac_key P alg key key_len (m_palg h);
           if st \<noteq> ZUC_OK then do { free_struct_hmac p; ret st }
           else do {
             let h = h\<lparr>m_key := k\<rparr>;
             r \<leftarrow> psa_do P (MAC (Mac_sign_setup (m_key h) (m_palg h))) (m_op h);
             let h = h\<lparr>m_op := r_op r\<rparr>;
             if r_status r \<noteq> PSA_SUCCESS then do {
               _ \<leftarrow> psa_do P (MAC Mac_abort) (m_op h);
               psa_destroy_key P (m_key h);
               free_struct_hmac p;
               ret (zuc_int_from_psa (r_status r))
             }
             else do {
               set_hmac p (h\<lparr>m_active := True\<rparr>);
               write_cell out p;
               zuc_int_live_add 1;
               ret ZUC_OK
             }
           }
         }
       }
     })"

definition zuc_hmac_update ::
  "('b, 'o) psa \<Rightarrow> ptr \<Rightarrow> ptr \<Rightarrow> size_t \<Rightarrow> ('b, 'o, zuc_status) zuc" where
  "zuc_hmac_update P hmac data data_len =
    (if hmac = NULL \<or> (data = NULL \<and> data_len \<noteq> 0) then ret ZUC_ERR_INVALID_ARGUMENT
     else do {
       h \<leftarrow> deref_hmac hmac;
       if \<not> m_active h then ret ZUC_ERR_INVALID_ARGUMENT
       else if data_len = 0 then ret ZUC_OK
       else do {
         d \<leftarrow> read_bytes data data_len;
         r \<leftarrow> psa_do P (MAC (Mac_update d)) (m_op h);
         set_hmac hmac (h\<lparr>m_op := r_op r\<rparr>);
         ret (zuc_int_from_psa (r_status r))
       }
     })"

definition zuc_hmac_finish ::
  "('b, 'o) psa \<Rightarrow> ptr \<Rightarrow> ptr \<Rightarrow> size_t \<Rightarrow> ptr \<Rightarrow> ('b, 'o, zuc_status) zuc" where
  "zuc_hmac_finish P hmac out out_size out_len =
    (if hmac = NULL \<or> out = NULL \<or> out_len = NULL then ret ZUC_ERR_INVALID_ARGUMENT
     else do {
       h \<leftarrow> deref_hmac hmac;
       if \<not> m_active h then ret ZUC_ERR_INVALID_ARGUMENT
       else if out_size < zuc_alg_size (m_alg h) then ret ZUC_ERR_BAD_LENGTH
       else do {
         write_size out_len 0;
         r \<leftarrow> psa_do P (MAC (Mac_sign_finish out_size)) (m_op h);
         write_out out out_size (r_out r);
         write_size out_len (r_len r);
         set_hmac hmac (h\<lparr>m_op := r_op r, m_active := False\<rparr>);
         ret (zuc_int_from_psa (r_status r))
       }
     })"

definition zuc_hmac_reset :: "('b, 'o) psa \<Rightarrow> ptr \<Rightarrow> ('b, 'o, zuc_status) zuc" where
  "zuc_hmac_reset P hmac =
    (if hmac = NULL then ret ZUC_ERR_INVALID_ARGUMENT
     else do {
       h \<leftarrow> deref_hmac hmac;
       h \<leftarrow> (if m_active h then do {
               r \<leftarrow> psa_do P (MAC Mac_abort) (m_op h);
               ret (h\<lparr>m_op := r_op r, m_active := False\<rparr>)
             }
             else ret h);
       let h = h\<lparr>m_op := None\<rparr>;
       r \<leftarrow> psa_do P (MAC (Mac_sign_setup (m_key h) (m_palg h))) (m_op h);
       let h = h\<lparr>m_op := r_op r\<rparr>;
       if r_status r \<noteq> PSA_SUCCESS then do {
         r' \<leftarrow> psa_do P (MAC Mac_abort) (m_op h);
         set_hmac hmac (h\<lparr>m_op := r_op r'\<rparr>);
         ret (zuc_int_from_psa (r_status r))
       }
       else do { set_hmac hmac (h\<lparr>m_active := True\<rparr>); ret ZUC_OK }
     })"

definition zuc_hmac_free :: "('b, 'o) psa \<Rightarrow> ptr \<Rightarrow> ('b, 'o, unit) zuc" where
  "zuc_hmac_free P hmac =
    (if hmac = NULL then ret ()
     else do {
       h \<leftarrow> deref_hmac hmac;
       _ \<leftarrow> psa_do P (MAC Mac_abort) (m_op h);
       psa_destroy_key P (m_key h);
       free_struct_hmac hmac;
       zuc_int_live_add (-1)
     })"

end
