(* ===== verification/Layer.thy ===== *)
theory Layer
  imports World
begin

text \<open>
  Putting a vendored part on top of an arbitrary backend: an operation object belongs to the part on
  top (\<open>Inl\<close>) or to the backend below (\<open>Inr\<close>), which sees only its own objects and whose replies are
  passed on.
\<close>

definition top_reply ::
  "psa_status_t \<Rightarrow> byte list \<Rightarrow> size_t \<Rightarrow> 't option \<Rightarrow> bool \<Rightarrow> ('t + 'p) psa_reply" where
  "top_reply status out len operation failed =
    \<lparr>r_status = status, r_out = out, r_len = len, r_out2 = [], r_len2 = 0, r_id = 0,
     r_attr = psa_key_attributes_init, r_op = map_option Inl operation, r_alloc_failed = failed\<rparr>"

fun top_part :: "('t + 'p) option \<Rightarrow> 't option" where
  "top_part (Some (Inl x)) = Some x"
| "top_part _ = None"

fun rest_part :: "('t + 'p) option \<Rightarrow> 'p option" where
  "rest_part (Some (Inr x)) = Some x"
| "rest_part _ = None"

definition rest_reply :: "'p psa_reply \<Rightarrow> ('t + 'p) psa_reply" where
  "rest_reply r =
    \<lparr>r_status = r_status r, r_out = r_out r, r_len = r_len r, r_out2 = r_out2 r, r_len2 = r_len2 r,
     r_id = r_id r, r_attr = r_attr r, r_op = map_option Inr (r_op r), r_alloc_failed = r_alloc_failed r\<rparr>"

lemma top_part_iff [simp]: "top_part op = Some x \<longleftrightarrow> op = Some (Inl x)"
  by (cases op rule: top_part.cases) auto

lemma top_reply_simps [simp]:
  "r_status (top_reply st out len x f) = st" "r_out (top_reply st out len x f) = out"
  "r_len (top_reply st out len x f) = len" "r_op (top_reply st out len x f) = map_option Inl x"
  by (simp_all add: top_reply_def)

lemma rest_reply_simps [simp]:
  "r_status (rest_reply r) = r_status r" "r_out (rest_reply r) = r_out r" "r_len (rest_reply r) = r_len r"
  "r_id (rest_reply r) = r_id r" "r_op (rest_reply r) = map_option Inr (r_op r)"
  by (simp_all add: rest_reply_def)

lemma part_simps [simp]:
  "top_part (map_option Inl x) = x" "rest_part (map_option Inr y) = y" "rest_part (map_option Inl x) = None"
  "top_part (map_option Inr y) = None"
  by (cases x; simp) (cases y; simp | cases x; simp)+

end
