(* ===== verification/Psa_Hash.thy ===== *)
theory Psa_Hash
  imports Sha1 Hash Layer
begin

text \<open>
  The digest half of the vendored backend, from the PSA entry points down to the SHA modules:
  \<^verbatim>\<open>psa_hash_*\<close> of \<^verbatim>\<open>psa_crypto.c\<close> with their copies of the caller's buffers, the driver wrappers,
  which have the built-in driver only, and \<^verbatim>\<open>mbedtls_psa_hash_*\<close> of \<^verbatim>\<open>psa_crypto_hash.c\<close>.

  \<open>vendored_hash Q\<close> is a backend in the sense of \<open>World\<close> whose digest calls are these functions and
  whose other calls are those of an arbitrary backend \<open>Q\<close>. Its state has, before that of \<open>Q\<close>, the
  answers the allocator will give (the end of the list stands for success).

  The locale \<open>psa_hash_contract\<close> states what the adapter relies on when a digest call succeeds, and
  \<open>psa_hash_total\<close> adds that it does succeed; \<open>vendored_hash Q\<close> is an instance of both.
\<close>

section \<open>The built-in driver: psa\_crypto\_hash.c\<close>

text \<open>
  \<^verbatim>\<open>mbedtls_psa_hash_operation_t\<close>: its \<^verbatim>\<open>alg\<close> and its union of contexts in one type. An object whose
  \<^verbatim>\<open>alg\<close> is 0 is \<open>None\<close>.
\<close>

datatype mbedtls_psa_hash_operation_t =
    OP_SHA_1 mbedtls_sha1_context
  | OP_SHA_256 mbedtls_sha256_context
  | OP_SHA_384 mbedtls_sha512_context
  | OP_SHA_512 mbedtls_sha512_context

type_synonym hop = mbedtls_psa_hash_operation_t

fun operation_alg :: "hop option \<Rightarrow> psa_algorithm_t" where
  "operation_alg None = 0"
| "operation_alg (Some (OP_SHA_1 c)) = PSA_ALG_SHA_1"
| "operation_alg (Some (OP_SHA_256 d)) = PSA_ALG_SHA_256"
| "operation_alg (Some (OP_SHA_384 e)) = PSA_ALG_SHA_384"
| "operation_alg (Some (OP_SHA_512 e)) = PSA_ALG_SHA_512"

definition PSA_ALG_IS_HASH :: "psa_algorithm_t \<Rightarrow> bool" where
  "PSA_ALG_IS_HASH alg \<longleftrightarrow> alg AND 0x7f000000 = PSA_ALG_CATEGORY_HASH"

definition PSA_HASH_LENGTH :: "psa_algorithm_t \<Rightarrow> size_t" where
  "PSA_HASH_LENGTH alg =
    (let h = PSA_ALG_HMAC_GET_HASH alg in
     if h = 0x02000003 then 16        \<comment> \<open>MD5\<close>
     else if h = 0x02000004 then 20   \<comment> \<open>RIPEMD160\<close>
     else if h = PSA_ALG_SHA_1 then 20
     else if h = 0x02000008 then 28   \<comment> \<open>SHA-224\<close>
     else if h = PSA_ALG_SHA_256 then 32
     else if h = PSA_ALG_SHA_384 then 48
     else if h = PSA_ALG_SHA_512 then 64
     else if h = 0x0200000c then 28   \<comment> \<open>SHA-512/224\<close>
     else if h = 0x0200000d then 32   \<comment> \<open>SHA-512/256\<close>
     else if h = 0x02000010 then 28   \<comment> \<open>SHA3-224\<close>
     else if h = 0x02000011 then 32   \<comment> \<open>SHA3-256\<close>
     else if h = 0x02000012 then 48   \<comment> \<open>SHA3-384\<close>
     else if h = 0x02000013 then 64   \<comment> \<open>SHA3-512\<close>
     else 0)"

definition mbedtls_psa_hash_abort :: "hop option \<Rightarrow> psa_status_t \<times> hop option" where
  "mbedtls_psa_hash_abort operation = (PSA_SUCCESS, None)"

definition mbedtls_psa_hash_setup :: "hop option \<Rightarrow> psa_algorithm_t \<Rightarrow> psa_status_t \<times> hop option" where
  "mbedtls_psa_hash_setup operation alg =
    (if operation_alg operation \<noteq> 0 then (PSA_ERROR_BAD_STATE, operation)
     else if alg = PSA_ALG_SHA_1 then (PSA_SUCCESS, Some (OP_SHA_1 mbedtls_sha1_starts))
     else if alg = PSA_ALG_SHA_256 then (PSA_SUCCESS, Some (OP_SHA_256 mbedtls_sha256_starts))
     else if alg = PSA_ALG_SHA_384 then (PSA_SUCCESS, Some (OP_SHA_384 (mbedtls_sha512_starts True)))
     else if alg = PSA_ALG_SHA_512 then (PSA_SUCCESS, Some (OP_SHA_512 (mbedtls_sha512_starts False)))
     else (if PSA_ALG_IS_HASH alg then PSA_ERROR_NOT_SUPPORTED else PSA_ERROR_INVALID_ARGUMENT, operation))"

fun mbedtls_psa_hash_update :: "hop option \<Rightarrow> byte list \<Rightarrow> psa_status_t \<times> hop option" where
  "mbedtls_psa_hash_update None inp = (PSA_ERROR_BAD_STATE, None)"
| "mbedtls_psa_hash_update (Some (OP_SHA_1 c)) inp = (PSA_SUCCESS, Some (OP_SHA_1 (mbedtls_sha1_update c inp)))"
| "mbedtls_psa_hash_update (Some (OP_SHA_256 d)) inp = (PSA_SUCCESS, Some (OP_SHA_256 (mbedtls_sha256_update d inp)))"
| "mbedtls_psa_hash_update (Some (OP_SHA_384 e)) inp = (PSA_SUCCESS, Some (OP_SHA_384 (mbedtls_sha512_update e inp)))"
| "mbedtls_psa_hash_update (Some (OP_SHA_512 e)) inp = (PSA_SUCCESS, Some (OP_SHA_512 (mbedtls_sha512_update e inp)))"

text \<open>
  The status, the output buffer of \<open>hash_size\<close> bytes and the stored length. The buffer is filled with
  exclamation marks first.
\<close>

fun hash_bytes :: "hop \<Rightarrow> byte list" where
  "hash_bytes (OP_SHA_1 c) = mbedtls_sha1_finish c"
| "hash_bytes (OP_SHA_256 d) = mbedtls_sha256_finish d"
| "hash_bytes (OP_SHA_384 e) = mbedtls_sha512_finish True e"
| "hash_bytes (OP_SHA_512 e) = mbedtls_sha512_finish False e"

definition mbedtls_psa_hash_finish :: "hop option \<Rightarrow> size_t \<Rightarrow> psa_status_t \<times> byte list \<times> size_t" where
  "mbedtls_psa_hash_finish operation hash_size =
    (let actual_hash_length = PSA_HASH_LENGTH (operation_alg operation);
         hash = replicate (unat hash_size) 0x21
     in if hash_size < actual_hash_length then (PSA_ERROR_BUFFER_TOO_SMALL, hash, hash_size)
        else case operation of
               None \<Rightarrow> (PSA_ERROR_BAD_STATE, hash, hash_size)
             | Some ctx \<Rightarrow> (PSA_SUCCESS, put hash 0 (hash_bytes ctx), actual_hash_length))"

definition mbedtls_psa_hash_compute :: "psa_algorithm_t \<Rightarrow> byte list \<Rightarrow> size_t \<Rightarrow> psa_status_t \<times> byte list \<times> size_t" where
  "mbedtls_psa_hash_compute alg inp hash_size =
    (let (status, operation) = mbedtls_psa_hash_setup None alg in
     if status \<noteq> PSA_SUCCESS then (status, [], hash_size)
     else
       let (status, operation) = mbedtls_psa_hash_update operation inp in
       if status \<noteq> PSA_SUCCESS then (status, [], hash_size)
       else
         let (status, hash, hash_length) = mbedtls_psa_hash_finish operation hash_size;
             (abort_status, operation) = mbedtls_psa_hash_abort operation
         in (if status = PSA_SUCCESS then abort_status else status, hash, hash_length))"

section \<open>The PSA layer: psa\_crypto.c\<close>

text \<open>
  \<^verbatim>\<open>psa_crypto_local_input_alloc\<close> and \<^verbatim>\<open>psa_crypto_local_output_alloc\<close>: a copy of \<open>n\<close> bytes is
  allocated unless \<open>n\<close> is 0. The result is whether it could be, and the answers that are left.
\<close>

definition local_alloc :: "nat \<Rightarrow> bool list \<Rightarrow> bool \<times> bool list" where
  "local_alloc n answers = (if n = 0 then (True, answers) else case answers of [] \<Rightarrow> (True, []) | a # as \<Rightarrow> (a, as))"

text \<open>\<^verbatim>\<open>psa_hash_operation_t\<close>: \<open>None\<close> is an object whose \<^verbatim>\<open>id\<close> is 0.\<close>

definition psa_hash_abort :: "hop option \<Rightarrow> psa_status_t \<times> hop option" where
  "psa_hash_abort operation =
    (if operation = None then (PSA_SUCCESS, None) else (fst (mbedtls_psa_hash_abort operation), None))"

definition psa_hash_setup :: "hop option \<Rightarrow> psa_algorithm_t \<Rightarrow> psa_status_t \<times> hop option" where
  "psa_hash_setup operation alg =
    (let (status, operation) =
       (if operation \<noteq> None then (PSA_ERROR_BAD_STATE, operation)
        else if \<not> PSA_ALG_IS_HASH alg then (PSA_ERROR_INVALID_ARGUMENT, operation)
        else mbedtls_psa_hash_setup None alg)
     in if status \<noteq> PSA_SUCCESS then (status, snd (psa_hash_abort operation)) else (status, operation))"

text \<open>The result also tells whether an allocation failed.\<close>

definition psa_hash_update ::
  "bool list \<Rightarrow> hop option \<Rightarrow> byte list \<Rightarrow> psa_status_t \<times> hop option \<times> bool \<times> bool list" where
  "psa_hash_update answers operation inp =
    (if operation = None then (PSA_ERROR_BAD_STATE, snd (psa_hash_abort operation), False, answers)
     else if length inp = 0 then (PSA_SUCCESS, operation, False, answers)
     else
       let (ok, answers) = local_alloc (length inp) answers;
           (status, operation) =
             (if \<not> ok then (PSA_ERROR_INSUFFICIENT_MEMORY, operation) else mbedtls_psa_hash_update operation inp)
       in if status \<noteq> PSA_SUCCESS then (status, snd (psa_hash_abort operation), \<not> ok, answers)
          else (status, operation, \<not> ok, answers))"

text \<open>The status, the operation, the output, the length, whether an allocation failed.\<close>

definition psa_hash_finish ::
  "bool list \<Rightarrow> hop option \<Rightarrow> size_t \<Rightarrow> psa_status_t \<times> hop option \<times> byte list \<times> size_t \<times> bool \<times> bool list" where
  "psa_hash_finish answers operation hash_size =
    (let (ok, answers) = local_alloc (unat hash_size) answers in
     if \<not> ok then (PSA_ERROR_INSUFFICIENT_MEMORY, operation, [], 0, True, answers)
     else if operation = None then (PSA_ERROR_BAD_STATE, None, replicate (unat hash_size) 0, 0, False, answers)
     else
       let (status, hash, hash_length) = mbedtls_psa_hash_finish operation hash_size
       in (status, snd (psa_hash_abort operation), hash, hash_length, False, answers))"

definition psa_hash_compute ::
  "bool list \<Rightarrow> psa_algorithm_t \<Rightarrow> byte list \<Rightarrow> size_t \<Rightarrow> psa_status_t \<times> byte list \<times> size_t \<times> bool \<times> bool list" where
  "psa_hash_compute answers alg inp hash_size =
    (if \<not> PSA_ALG_IS_HASH alg then (PSA_ERROR_INVALID_ARGUMENT, [], 0, False, answers)
     else
       let (ok, answers) = local_alloc (length inp) answers in
       if \<not> ok then (PSA_ERROR_INSUFFICIENT_MEMORY, [], 0, True, answers)
       else
         let (ok, answers) = local_alloc (unat hash_size) answers in
         if \<not> ok then (PSA_ERROR_INSUFFICIENT_MEMORY, [], 0, True, answers)
         else
           let (status, hash, hash_length) = mbedtls_psa_hash_compute alg inp hash_size
           in (status, put (replicate (unat hash_size) 0) 0 hash, hash_length, False, answers))"

section \<open>The backend\<close>

type_synonym 'p vop = "hop + 'p"

fun hash_dispatch :: "hash_call \<Rightarrow> hop option \<Rightarrow> bool list \<Rightarrow> ('p vop) psa_reply \<times> bool list" where
  "hash_dispatch (Hash_compute alg inp n) op answers =
    (case psa_hash_compute answers alg inp n of (st, out, len, failed, answers) \<Rightarrow>
      (top_reply st out len op failed, answers))"
| "hash_dispatch (Hash_setup alg) op answers =
    (case psa_hash_setup op alg of (st, op) \<Rightarrow> (top_reply st [] 0 op False, answers))"
| "hash_dispatch (Hash_update inp) op answers =
    (case psa_hash_update answers op inp of (st, op, failed, answers) \<Rightarrow>
      (top_reply st [] 0 op failed, answers))"
| "hash_dispatch (Hash_finish n) op answers =
    (case psa_hash_finish answers op n of (st, op, out, len, failed, answers) \<Rightarrow>
      (top_reply st out len op failed, answers))"
| "hash_dispatch Hash_abort op answers =
    (case psa_hash_abort op of (st, op) \<Rightarrow> (top_reply st [] 0 op False, answers))"

definition vendored_hash :: "('b, 'p) psa \<Rightarrow> (bool list \<times> 'b, 'p vop) psa" where
  "vendored_hash Q c op b =
    (case c of
       HASH h \<Rightarrow> (case hash_dispatch h (top_part op) (fst b) of (r, answers) \<Rightarrow> (r, answers, snd b))
     | _ \<Rightarrow> (case Q c (rest_part op) (snd b) of (r, b') \<Rightarrow> (rest_reply r, fst b, b')))"

section \<open>The contract of a digest backend\<close>

locale psa_hash_contract =
  fixes P :: "('b, 'o) psa"
    and absorbed :: "psa_algorithm_t \<Rightarrow> 'o option \<Rightarrow> byte list \<Rightarrow> bool"
    and digest :: "psa_algorithm_t \<Rightarrow> byte list \<Rightarrow> byte list"
    and step_max :: nat
  assumes setup_absorbed: "r_status (fst (P (HASH (Hash_setup alg)) None b)) = PSA_SUCCESS \<Longrightarrow>
      absorbed alg (r_op (fst (P (HASH (Hash_setup alg)) None b))) []"
    and update_absorbed: "absorbed alg op m \<Longrightarrow> length d < step_max \<Longrightarrow>
      r_status (fst (P (HASH (Hash_update d)) op b)) = PSA_SUCCESS \<Longrightarrow>
      absorbed alg (r_op (fst (P (HASH (Hash_update d)) op b))) (m @ d)"
    and finish_digest: "absorbed alg op m \<Longrightarrow>
      r_status (fst (P (HASH (Hash_finish n)) op b)) = PSA_SUCCESS \<Longrightarrow>
      length (digest alg m) \<le> unat n \<and>
      take (length (digest alg m)) (r_out (fst (P (HASH (Hash_finish n)) op b))) = digest alg m \<and>
      r_len (fst (P (HASH (Hash_finish n)) op b)) = of_nat (length (digest alg m))"
    and compute_digest: "length d < step_max \<Longrightarrow>
      r_status (fst (P (HASH (Hash_compute alg d n)) None b)) = PSA_SUCCESS \<Longrightarrow>
      length (digest alg d) \<le> unat n \<and>
      take (length (digest alg d)) (r_out (fst (P (HASH (Hash_compute alg d n)) None b))) = digest alg d \<and>
      r_len (fst (P (HASH (Hash_compute alg d n)) None b)) = of_nat (length (digest alg d))"
    and long_steps: "2 ^ 32 \<le> step_max"

locale psa_hash_total = psa_hash_contract +
  fixes able :: "'b \<Rightarrow> bool"
    and supported :: "psa_algorithm_t \<Rightarrow> bool"
  assumes setup_ok: "supported alg \<Longrightarrow> able b \<Longrightarrow> r_status (fst (P (HASH (Hash_setup alg)) None b)) = PSA_SUCCESS"
    and update_ok: "absorbed alg op m \<Longrightarrow> able b \<Longrightarrow> r_status (fst (P (HASH (Hash_update d)) op b)) = PSA_SUCCESS"
    and finish_ok: "absorbed alg op m \<Longrightarrow> able b \<Longrightarrow> length (digest alg m) \<le> unat n \<Longrightarrow>
      r_status (fst (P (HASH (Hash_finish n)) op b)) = PSA_SUCCESS"
    and hash_able: "able b \<Longrightarrow> able (snd (P (HASH c) op b))"

section \<open>The vendored digests keep the contract\<close>

definition psa_digest :: "psa_algorithm_t \<Rightarrow> byte list \<Rightarrow> byte list" where
  "psa_digest alg m =
    (if alg = PSA_ALG_SHA_1 then sha1_digest m
     else if alg = PSA_ALG_SHA_256 then sha256_digest m
     else if alg = PSA_ALG_SHA_384 then sha512_digest True m
     else if alg = PSA_ALG_SHA_512 then sha512_digest False m
     else [])"

fun hop_absorbed :: "hop option \<Rightarrow> byte list \<Rightarrow> bool" where
  "hop_absorbed None m = False"
| "hop_absorbed (Some (OP_SHA_1 c)) m = sha1_absorbed c m"
| "hop_absorbed (Some (OP_SHA_256 d)) m = sha256_absorbed d m"
| "hop_absorbed (Some (OP_SHA_384 e)) m = sha512_absorbed True e m"
| "hop_absorbed (Some (OP_SHA_512 e)) m = sha512_absorbed False e m"

definition vendored_absorbed :: "psa_algorithm_t \<Rightarrow> ('p vop) option \<Rightarrow> byte list \<Rightarrow> bool" where
  "vendored_absorbed alg op m \<longleftrightarrow> operation_alg (top_part op) = alg \<and> hop_absorbed (top_part op) m"

abbreviation vendored_able :: "bool list \<times> 'b \<Rightarrow> bool" where
  "vendored_able b \<equiv> list_all (\<lambda>x. x) (fst b)"

definition sha_supported :: "psa_algorithm_t \<Rightarrow> bool" where
  "sha_supported alg \<longleftrightarrow> alg \<in> {PSA_ALG_SHA_1, PSA_ALG_SHA_256, PSA_ALG_SHA_384, PSA_ALG_SHA_512}"

lemma length_words: "length (concat (map (put_be n) ws)) = n * length ws"
  by (induction ws) simp_all

lemma length_digests:
  "length (sha1_digest m) = 20" "length (sha256_digest m) = 32"
  "length (sha512_digest True m) = 48" "length (sha512_digest False m) = 64"
proof -
  have "length (c_state mbedtls_sha1_starts) = 5" by (simp add: mbedtls_sha1_starts_def)
  then have "length (md_state 64 sha1_compress (c_state mbedtls_sha1_starts) x) = 5" for x
    using process_many_cong [of "\<lambda>st. length st = 5" _ sha1_compress sha1_compress]
    by (simp add: md_state_def length_sha1_compress)
  then show "length (sha1_digest m) = 20" by (simp add: sha1_digest_def length_words)
qed (use length_starts md_state_fips in
    \<open>simp_all add: sha256_digest_def sha512_digest_def length_words\<close>)

lemma hop_finish:
  assumes "hop_absorbed (Some x) m"
  shows "hash_bytes x = psa_digest (operation_alg (Some x)) m \<and>
    PSA_HASH_LENGTH (operation_alg (Some x)) = of_nat (length (psa_digest (operation_alg (Some x)) m)) \<and>
    length (psa_digest (operation_alg (Some x)) m) \<le> 64"
  using assms
  by (cases x) (simp_all add: psa_digest_def PSA_HASH_LENGTH_def PSA_ALG_HMAC_GET_HASH_def length_digests
      sha1_finish_digest sha256_finish_digest sha512_finish_digest)

lemma hop_update:
  assumes "hop_absorbed op m" "length d < 2 ^ 32"
  shows "hop_absorbed (snd (mbedtls_psa_hash_update op d)) (m @ d)"
proof -
  have "length d < 2 ^ 64" using assms(2) by simp
  with assms show ?thesis
    by (cases "(op, d)" rule: mbedtls_psa_hash_update.cases)
      (simp_all add: sha1_update_absorbed sha256_update_absorbed sha512_update_absorbed)
qed

lemma update_alg: "operation_alg (snd (mbedtls_psa_hash_update op d)) = operation_alg op"
  by (cases "(op, d)" rule: mbedtls_psa_hash_update.cases) simp_all

lemma update_status: "op \<noteq> None \<Longrightarrow> fst (mbedtls_psa_hash_update op d) = PSA_SUCCESS"
  by (cases "(op, d)" rule: mbedtls_psa_hash_update.cases) simp_all

lemma local_alloc_able: "list_all (\<lambda>x. x) as \<Longrightarrow> local_alloc n as = (ok, as') \<Longrightarrow> ok \<and> list_all (\<lambda>x. x) as'"
  by (auto simp: local_alloc_def split: if_splits list.splits)

lemma starts_absorbed:
  "sha1_absorbed mbedtls_sha1_starts []" "sha256_absorbed mbedtls_sha256_starts []"
  "sha512_absorbed is384 (mbedtls_sha512_starts is384) []"
  by (rule sha1.starts_absorbed sha256.starts_absorbed sha512.starts_absorbed)+

text \<open>A digest computed in one call.\<close>

lemma psa_hash_compute_digest:
  assumes "psa_hash_compute as alg inp n = (PSA_SUCCESS, out, len, f, as')" "length inp < 2 ^ 32"
  shows "length (psa_digest alg inp) \<le> unat n \<and> take (length (psa_digest alg inp)) out = psa_digest alg inp \<and>
    len = of_nat (length (psa_digest alg inp))"
proof -
  obtain hash where c: "mbedtls_psa_hash_compute alg inp n = (PSA_SUCCESS, hash, len)"
    and out: "out = put (replicate (unat n) 0) 0 hash"
    using assms(1) by (auto simp: psa_hash_compute_def Let_def split: if_splits prod.splits)
  obtain x where x: "mbedtls_psa_hash_setup None alg = (PSA_SUCCESS, Some x)"
    using c by (auto simp: mbedtls_psa_hash_compute_def mbedtls_psa_hash_setup_def Let_def split: if_splits)
  obtain y where y: "mbedtls_psa_hash_update (Some x) inp = (PSA_SUCCESS, Some y)"
    by (cases x) simp_all
  have a: "hop_absorbed (Some x) []" "operation_alg (Some x) = alg"
    using x starts_absorbed by (auto simp: mbedtls_psa_hash_setup_def split: if_splits)
  have b: "hop_absorbed (Some y) inp" "operation_alg (Some y) = alg"
    using hop_update [OF a(1) assms(2)] update_alg [of "Some x" inp] y a(2) by simp_all
  note f = hop_finish [OF b(1), unfolded b(2)]
  have n: "\<not> n < PSA_HASH_LENGTH alg" and h: "hash = put (replicate (unat n) 0x21) 0 (hash_bytes y)" "len = PSA_HASH_LENGTH alg"
    using c x y b(2) by (auto simp: mbedtls_psa_hash_compute_def mbedtls_psa_hash_finish_def mbedtls_psa_hash_abort_def
        Let_def split: if_splits)
  then have "length (psa_digest alg inp) \<le> unat n"
    using f by (simp add: word_less_nat_alt unat_of_nat not_less take_bit_nat_eq_self)
  then show ?thesis
    using f h out by (simp add: put_def)
qed

lemma psa_hash_compute_able:
  assumes "list_all (\<lambda>x. x) as" "sha_supported alg" "length (psa_digest alg inp) \<le> unat n"
    and "psa_hash_compute as alg inp n = (st, out, len, f, as')"
  shows "st = PSA_SUCCESS \<and> list_all (\<lambda>x. x) as'"
proof -
  obtain ok1 as1 where l1: "local_alloc (length inp) as = (ok1, as1)" by force
  obtain ok2 as2 where l2: "local_alloc (unat n) as1 = (ok2, as2)" by force
  note a1 = local_alloc_able [OF assms(1) l1] note a2 = local_alloc_able [OF conjunct2 [OF a1] l2]
  obtain x where x: "mbedtls_psa_hash_setup None alg = (PSA_SUCCESS, Some x)" "operation_alg (Some x) = alg"
    using assms(2) by (auto simp: sha_supported_def mbedtls_psa_hash_setup_def)
  obtain y where y: "mbedtls_psa_hash_update (Some x) inp = (PSA_SUCCESS, Some y)" "operation_alg (Some y) = alg"
    using x(2) update_alg [of "Some x" inp] by (cases x) simp_all
  have "\<not> n < PSA_HASH_LENGTH alg"
    using assms(2,3) by (auto simp: sha_supported_def psa_digest_def length_digests PSA_HASH_LENGTH_def
        PSA_ALG_HMAC_GET_HASH_def word_less_nat_alt)
  then show ?thesis
    using assms(2,4) l1 l2 a1 a2 x y
    by (auto simp: psa_hash_compute_def mbedtls_psa_hash_compute_def mbedtls_psa_hash_finish_def
        mbedtls_psa_hash_abort_def sha_supported_def PSA_ALG_IS_HASH_def Let_def split: if_splits)
qed

lemmas vendored_runs = vendored_hash_def vendored_absorbed_def top_reply_def Let_def

lemma vendored_update:
  assumes "vendored_absorbed alg op m" "length d < 2 ^ 32"
    and "r_status (fst (vendored_hash Q (HASH (Hash_update d)) op b)) = PSA_SUCCESS"
  shows "vendored_absorbed alg (r_op (fst (vendored_hash Q (HASH (Hash_update d)) op b))) (m @ d)"
proof -
  obtain x where x: "top_part op = Some x" "hop_absorbed (Some x) m" "operation_alg (Some x) = alg"
    using assms(1) by (cases "top_part op") (auto simp: vendored_absorbed_def)
  obtain st y where u: "mbedtls_psa_hash_update (Some x) d = (st, Some y)"
    by (cases x) simp_all
  have "hop_absorbed (Some y) (m @ d)" "operation_alg (Some y) = alg"
    using hop_update [OF x(2) assms(2)] update_alg [of "Some x" d] u x(3) by simp_all
  then show ?thesis
    using assms(3) x u
    by (auto simp: vendored_runs psa_hash_update_def split: prod.splits if_splits)
qed

lemma vendored_finish:
  assumes "vendored_absorbed alg op m"
    and "r_status (fst (vendored_hash Q (HASH (Hash_finish n)) op b)) = PSA_SUCCESS"
  shows "length (psa_digest alg m) \<le> unat n \<and>
    take (length (psa_digest alg m)) (r_out (fst (vendored_hash Q (HASH (Hash_finish n)) op b))) = psa_digest alg m \<and>
    r_len (fst (vendored_hash Q (HASH (Hash_finish n)) op b)) = of_nat (length (psa_digest alg m))"
proof -
  obtain x where x: "top_part op = Some x" "hop_absorbed (Some x) m" "operation_alg (Some x) = alg"
    using assms(1) by (cases "top_part op") (auto simp: vendored_absorbed_def)
  note f = hop_finish [OF x(2), unfolded x(3)]
  have "\<not> n < PSA_HASH_LENGTH alg"
    using assms(2) x
    by (auto simp: vendored_runs psa_hash_finish_def mbedtls_psa_hash_finish_def split: prod.splits if_splits)
  then have le: "length (psa_digest alg m) \<le> unat n"
    using f by (simp add: word_less_nat_alt unat_of_nat not_less take_bit_nat_eq_self)
  then show ?thesis
    using assms(2) x f \<open>\<not> n < PSA_HASH_LENGTH alg\<close>
    by (auto simp: vendored_runs psa_hash_finish_def mbedtls_psa_hash_finish_def put_def
        split: prod.splits if_splits)
qed

lemma vendored_compute:
  assumes "length d < 2 ^ 32" "r_status (fst (vendored_hash Q (HASH (Hash_compute alg d n)) op b)) = PSA_SUCCESS"
  shows "length (psa_digest alg d) \<le> unat n \<and>
    take (length (psa_digest alg d)) (r_out (fst (vendored_hash Q (HASH (Hash_compute alg d n)) op b))) = psa_digest alg d \<and>
    r_len (fst (vendored_hash Q (HASH (Hash_compute alg d n)) op b)) = of_nat (length (psa_digest alg d))"
  using assms psa_hash_compute_digest [OF _ assms(1), of "fst b" alg n]
  by (auto simp: vendored_hash_def split: prod.splits)

interpretation vendored: psa_hash_contract "vendored_hash Q" vendored_absorbed psa_digest "2 ^ 32" for Q
proof unfold_locales
  fix alg b
  assume "r_status (fst (vendored_hash Q (HASH (Hash_setup alg)) None b)) = PSA_SUCCESS"
  then show "vendored_absorbed alg (r_op (fst (vendored_hash Q (HASH (Hash_setup alg)) None b))) []"
    by (auto simp: vendored_runs psa_hash_setup_def mbedtls_psa_hash_setup_def starts_absorbed
        split: prod.splits if_splits)
qed (rule vendored_update vendored_finish vendored_compute order_refl; assumption?)+

lemma vendored_setup_ok:
  "sha_supported alg \<Longrightarrow> r_status (fst (vendored_hash Q (HASH (Hash_setup alg)) None b)) = PSA_SUCCESS"
  by (auto simp: sha_supported_def vendored_runs psa_hash_setup_def mbedtls_psa_hash_setup_def PSA_ALG_IS_HASH_def)

lemma vendored_update_ok:
  assumes "vendored_absorbed alg op m" "vendored_able b"
  shows "r_status (fst (vendored_hash Q (HASH (Hash_update d)) op b)) = PSA_SUCCESS"
proof -
  obtain x where x: "top_part op = Some x"
    using assms(1) by (cases "top_part op") (auto simp: vendored_absorbed_def)
  show ?thesis
    using assms(2) x update_status [of "Some x" d] local_alloc_able [of "fst b" "length d"]
    by (auto simp: vendored_runs psa_hash_update_def split: prod.splits if_splits)
qed

lemma vendored_finish_ok:
  assumes "vendored_absorbed alg op m" "vendored_able b" "length (psa_digest alg m) \<le> unat n"
  shows "r_status (fst (vendored_hash Q (HASH (Hash_finish n)) op b)) = PSA_SUCCESS"
proof -
  obtain x where x: "top_part op = Some x" "hop_absorbed (Some x) m" "operation_alg (Some x) = alg"
    using assms(1) by (cases "top_part op") (auto simp: vendored_absorbed_def)
  have "\<not> n < PSA_HASH_LENGTH alg"
    using hop_finish [OF x(2)] assms(3) x(3)
    by (simp add: word_less_nat_alt unat_of_nat take_bit_nat_eq_self)
  then show ?thesis
    using assms(2) x local_alloc_able [of "fst b" "unat n"]
    by (auto simp: vendored_runs psa_hash_finish_def mbedtls_psa_hash_finish_def split: prod.splits if_splits)
qed

lemma hash_dispatch_able:
  assumes "list_all (\<lambda>x. x) as" "hash_dispatch c op as = (r, as')"
  shows "list_all (\<lambda>x. x) as'"
  using assms
  by (cases c) (auto simp: psa_hash_compute_def psa_hash_update_def psa_hash_finish_def Let_def
      dest: local_alloc_able dest!: local_alloc_able [OF assms(1)] split: prod.splits if_splits)

lemma vendored_hash_able: "vendored_able b \<Longrightarrow> vendored_able (snd (vendored_hash Q (HASH c) op b))"
  by (auto simp: vendored_hash_def dest: hash_dispatch_able split: prod.splits)

interpretation vendored_total: psa_hash_total "vendored_hash Q" vendored_absorbed psa_digest "2 ^ 32"
  vendored_able sha_supported for Q
  by unfold_locales (rule vendored_setup_ok vendored_update_ok vendored_finish_ok vendored_hash_able; assumption)+

end
