(* ===== verification/Symmetric.thy ===== *)
theory Symmetric
  imports Backend
begin

text \<open>
  The symmetric operations of the adapter over an arbitrary backend: AES-CBC handles
  (\<^verbatim>\<open>src/src/zuc_aes.c\<close>), one-shot authenticated encryption (\<^verbatim>\<open>src/src/zuc_aead.c\<close>) and PBKDF2
  (\<^verbatim>\<open>src/src/zuc_kdf.c\<close>). Operation objects are local variables of the C functions; they are
  values passed from call to call here.
\<close>

abbreviation (input) PSA_ALG_CBC_NO_PADDING :: psa_algorithm_t where
  "PSA_ALG_CBC_NO_PADDING \<equiv> 0x04404000"
abbreviation (input) PSA_ALG_GCM :: psa_algorithm_t where
  "PSA_ALG_GCM \<equiv> 0x05500200"
abbreviation (input) PSA_KEY_TYPE_AES :: psa_key_type_t where
  "PSA_KEY_TYPE_AES \<equiv> 0x2400"
abbreviation (input) PSA_KEY_USAGE_ENCRYPT :: psa_key_usage_t where
  "PSA_KEY_USAGE_ENCRYPT \<equiv> 0x100"
abbreviation (input) PSA_KEY_USAGE_DECRYPT :: psa_key_usage_t where
  "PSA_KEY_USAGE_DECRYPT \<equiv> 0x200"

definition PSA_ALG_PBKDF2_HMAC :: "psa_algorithm_t \<Rightarrow> psa_algorithm_t" where
  "PSA_ALG_PBKDF2_HMAC hash_alg = 0x08800100 OR (hash_alg AND 0xff)"

abbreviation (input) ZUC_GCM_NONCE_SIZE :: size_t where "ZUC_GCM_NONCE_SIZE \<equiv> 12"
abbreviation (input) ZUC_GCM_TAG_SIZE :: size_t where "ZUC_GCM_TAG_SIZE \<equiv> 16"

definition aes_key_attr :: "psa_algorithm_t \<Rightarrow> psa_attr" where
  "aes_key_attr alg = psa_key_attributes_init
     \<lparr>pa_usage := PSA_KEY_USAGE_ENCRYPT OR PSA_KEY_USAGE_DECRYPT, pa_alg := alg,
      pa_type := PSA_KEY_TYPE_AES\<rparr>"

section \<open>AES-CBC: zuc\_aes.c\<close>

definition import_aes_key ::
  "('b, 'o) psa \<Rightarrow> ptr \<Rightarrow> size_t \<Rightarrow> psa_algorithm_t \<Rightarrow> ('b, 'o, zuc_status \<times> psa_key_id_t) zuc" where
  "import_aes_key P key key_len alg = do {
     k \<leftarrow> read_bytes key key_len;
     (ps, id) \<leftarrow> psa_import_key P (aes_key_attr alg) k;
     ret (zuc_int_from_psa ps, id)
   }"

definition zuc_aes_new :: "('b, 'o) psa \<Rightarrow> ptr \<Rightarrow> size_t \<Rightarrow> ptr \<Rightarrow> ('b, 'o, zuc_status) zuc" where
  "zuc_aes_new P key key_len out =
    (if out = NULL then ret ZUC_ERR_INVALID_ARGUMENT
     else do {
       write_cell out NULL;
       ready \<leftarrow> zuc_int_ready;
       if \<not> ready then ret ZUC_ERR_NOT_READY
       else if key = NULL then ret ZUC_ERR_INVALID_ARGUMENT
       else if key_len \<noteq> ZUC_AES_KEY_SIZE_128 \<and> key_len \<noteq> ZUC_AES_KEY_SIZE_192 \<and>
               key_len \<noteq> ZUC_AES_KEY_SIZE_256
       then ret ZUC_ERR_BAD_LENGTH
       else do {
         p \<leftarrow> calloc_aes;
         if p = NULL then ret ZUC_ERR_MEMORY
         else do {
           (st, k) \<leftarrow> import_aes_key P key key_len PSA_ALG_CBC_NO_PADDING;
           if st \<noteq> ZUC_OK then do { free_struct_aes p; ret st }
           else do {
             set_aes p (zero_aes\<lparr>a_key := k\<rparr>);
             write_cell out p;
             zuc_int_live_add 1;
             ret ZUC_OK
           }
         }
       }
     })"

definition zuc_aes_free :: "('b, 'o) psa \<Rightarrow> ptr \<Rightarrow> ('b, 'o, unit) zuc" where
  "zuc_aes_free P aes =
    (if aes = NULL then ret ()
     else do {
       h \<leftarrow> deref_aes aes;
       psa_destroy_key P (a_key h);
       free_struct_aes aes;
       zuc_int_live_add (-1)
     })"

definition zuc_aes_cbc_set_state :: "ptr \<Rightarrow> ptr \<Rightarrow> ('b, 'o, zuc_status) zuc" where
  "zuc_aes_cbc_set_state aes st =
    (if aes = NULL \<or> st = NULL then ret ZUC_ERR_INVALID_ARGUMENT
     else do {
       h \<leftarrow> deref_aes aes;
       iv \<leftarrow> read_bytes st ZUC_AES_BLOCK_SIZE;
       set_aes aes (h\<lparr>a_chain := iv\<rparr>);
       ret ZUC_OK
     })"

definition zuc_aes_cbc_get_state :: "ptr \<Rightarrow> ptr \<Rightarrow> ('b, 'o, zuc_status) zuc" where
  "zuc_aes_cbc_get_state aes st =
    (if aes = NULL \<or> st = NULL then ret ZUC_ERR_INVALID_ARGUMENT
     else do {
       h \<leftarrow> deref_aes aes;
       write_bytes st (a_chain h);
       ret ZUC_OK
     })"

definition check_block_args :: "ptr \<Rightarrow> ptr \<Rightarrow> size_t \<Rightarrow> ptr \<Rightarrow> ('b, 'o, zuc_status) zuc" where
  "check_block_args aes inp len out =
    (if aes = NULL then ret ZUC_ERR_INVALID_ARGUMENT
     else do {
       ready \<leftarrow> zuc_int_ready;
       ret (if \<not> ready then ZUC_ERR_NOT_READY
            else if len = 0 then ZUC_OK
            else if inp = NULL \<or> out = NULL then ZUC_ERR_INVALID_ARGUMENT
            else if len mod ZUC_AES_BLOCK_SIZE \<noteq> 0 then ZUC_ERR_BAD_LENGTH
            else if zuc_int_overlaps inp out len then ZUC_ERR_OVERLAP
            else ZUC_OK)
     })"

definition cipher_abort :: "('b, 'o) psa \<Rightarrow> 'o option \<Rightarrow> zuc_status \<Rightarrow> ('b, 'o, zuc_status) zuc" where
  "cipher_abort P op st = do { _ \<leftarrow> psa_do P (CIPHER Cipher_abort) op; ret st }"

definition cipher_run ::
  "('b, 'o) psa \<Rightarrow> psa_key_id_t \<Rightarrow> bool \<Rightarrow> byte list \<Rightarrow> ptr \<Rightarrow> size_t \<Rightarrow> ptr \<Rightarrow>
   ('b, 'o, zuc_status) zuc" where
  "cipher_run P key encrypt iv inp len out = do {
     let alg = PSA_ALG_CBC_NO_PADDING;
     r \<leftarrow> psa_do P (CIPHER (if encrypt then Cipher_encrypt_setup key alg
                            else Cipher_decrypt_setup key alg)) None;
     if r_status r \<noteq> PSA_SUCCESS then cipher_abort P (r_op r) (zuc_int_from_psa (r_status r))
     else do {
       r \<leftarrow> psa_do P (CIPHER (Cipher_set_iv iv)) (r_op r);
       if r_status r \<noteq> PSA_SUCCESS then cipher_abort P (r_op r) (zuc_int_from_psa (r_status r))
       else do {
         d \<leftarrow> read_bytes inp len;
         r \<leftarrow> psa_do P (CIPHER (Cipher_update d len)) (r_op r);
         write_out out len (r_out r);
         let produced = r_len r;
         if r_status r \<noteq> PSA_SUCCESS then cipher_abort P (r_op r) (zuc_int_from_psa (r_status r))
         else do {
           r \<leftarrow> psa_do P (CIPHER (Cipher_finish (len - produced))) (r_op r);
           write_out (out + produced) (len - produced) (r_out r);
           let finished = r_len r;
           if r_status r \<noteq> PSA_SUCCESS then cipher_abort P (r_op r) (zuc_int_from_psa (r_status r))
           else if produced + finished \<noteq> len then cipher_abort P (r_op r) ZUC_ERR_INTERNAL
           else ret ZUC_OK
         }
       }
     }
   }"

definition zuc_aes_cbc_encrypt ::
  "('b, 'o) psa \<Rightarrow> ptr \<Rightarrow> ptr \<Rightarrow> size_t \<Rightarrow> ptr \<Rightarrow> ('b, 'o, zuc_status) zuc" where
  "zuc_aes_cbc_encrypt P aes inp len out = do {
     st \<leftarrow> check_block_args aes inp len out;
     if st \<noteq> ZUC_OK \<or> len = 0 then ret st
     else do {
       h \<leftarrow> deref_aes aes;
       st \<leftarrow> cipher_run P (a_key h) True (a_chain h) inp len out;
       if st \<noteq> ZUC_OK then ret st
       else do {
         c \<leftarrow> read_bytes (out + len - ZUC_AES_BLOCK_SIZE) ZUC_AES_BLOCK_SIZE;
         set_aes aes (h\<lparr>a_chain := c\<rparr>);
         ret ZUC_OK
       }
     }
   }"

definition zuc_aes_cbc_decrypt ::
  "('b, 'o) psa \<Rightarrow> ptr \<Rightarrow> ptr \<Rightarrow> size_t \<Rightarrow> ptr \<Rightarrow> ('b, 'o, zuc_status) zuc" where
  "zuc_aes_cbc_decrypt P aes inp len out = do {
     st \<leftarrow> check_block_args aes inp len out;
     if st \<noteq> ZUC_OK \<or> len = 0 then ret st
     else do {
       nxt \<leftarrow> read_bytes (inp + len - ZUC_AES_BLOCK_SIZE) ZUC_AES_BLOCK_SIZE;
       h \<leftarrow> deref_aes aes;
       st \<leftarrow> cipher_run P (a_key h) False (a_chain h) inp len out;
       if st \<noteq> ZUC_OK then ret st
       else do {
         set_aes aes (h\<lparr>a_chain := nxt\<rparr>);
         ret ZUC_OK
       }
     }
   }"

section \<open>Authenticated encryption: zuc\_aead.c\<close>

definition psa_aead_alg :: "zuc_alg \<Rightarrow> psa_algorithm_t" where
  "psa_aead_alg alg = (if defined_want PSA_WANT_ALG_GCM \<and> alg = ZUC_ALG_AES_GCM then PSA_ALG_GCM else 0)"

definition check_aead_args ::
  "bool \<Rightarrow> zuc_alg \<Rightarrow> ptr \<Rightarrow> size_t \<Rightarrow> ptr \<Rightarrow> size_t \<Rightarrow> ptr \<Rightarrow> size_t \<Rightarrow> ptr \<Rightarrow> size_t \<Rightarrow> ptr \<Rightarrow> ptr \<Rightarrow>
   size_t \<Rightarrow> ('b, 'o, zuc_status) zuc" where
  "check_aead_args encrypt alg key key_len nonce nonce_len aad aad_len inp len out tag tag_len = do {
     ready \<leftarrow> zuc_int_ready;
     ret (if \<not> ready then ZUC_ERR_NOT_READY
          else if key = NULL \<or> nonce = NULL \<or> tag = NULL \<or> (aad = NULL \<and> aad_len \<noteq> 0) \<or>
                  ((inp = NULL \<or> out = NULL) \<and> len \<noteq> 0)
          then ZUC_ERR_INVALID_ARGUMENT
          else if psa_aead_alg alg = 0 then ZUC_ERR_UNSUPPORTED
          else if (key_len \<noteq> ZUC_AES_KEY_SIZE_128 \<and> key_len \<noteq> ZUC_AES_KEY_SIZE_192 \<and>
                   key_len \<noteq> ZUC_AES_KEY_SIZE_256) \<or> nonce_len \<noteq> ZUC_GCM_NONCE_SIZE
          then ZUC_ERR_BAD_LENGTH
          else if tag_len \<noteq> ZUC_GCM_TAG_SIZE
          then (if encrypt then ZUC_ERR_BAD_LENGTH else ZUC_ERR_AUTH)
          else if len \<noteq> 0 \<and> zuc_int_overlaps inp out len then ZUC_ERR_OVERLAP
          else ZUC_OK)
   }"

definition import_aead_key ::
  "('b, 'o) psa \<Rightarrow> ptr \<Rightarrow> size_t \<Rightarrow> psa_algorithm_t \<Rightarrow> ('b, 'o, zuc_status \<times> psa_key_id_t) zuc" where
  "import_aead_key P key key_len palg = do {
     k \<leftarrow> read_bytes key key_len;
     (ps, id) \<leftarrow> psa_import_key P (aes_key_attr palg) k;
     ret (zuc_int_from_psa ps, id)
   }"

text \<open>
  \<^verbatim>\<open>if (ps == PSA_SUCCESS) ps = ...\<close>: run the next call only while the status is success. The
  pair is the status and the operation object.
\<close>

definition aead_next ::
  "('b, 'o) psa \<Rightarrow> aead_call \<Rightarrow> psa_status_t \<times> 'o option \<Rightarrow> ('b, 'o, psa_status_t \<times> 'o option) zuc" where
  "aead_next P c s =
    (if fst s = PSA_SUCCESS
     then do { r \<leftarrow> psa_do P (AEAD c) (snd s); ret (r_status r, r_op r) }
     else ret s)"

text \<open>
  The three parts of \<^verbatim>\<open>aead_run\<close> after the associated data: the update of the message, the
  finish or verify step, and the clean-up with the final length check.
\<close>

definition aead_feed ::
  "('b, 'o) psa \<Rightarrow> ptr \<Rightarrow> size_t \<Rightarrow> ptr \<Rightarrow> psa_status_t \<times> 'o option \<Rightarrow>
   ('b, 'o, (psa_status_t \<times> 'o option) \<times> size_t) zuc" where
  "aead_feed P inp len out s =
    (if fst s = PSA_SUCCESS \<and> len \<noteq> 0 then do {
       d \<leftarrow> read_bytes inp len;
       r \<leftarrow> psa_do P (AEAD (Aead_update d len)) (snd s);
       write_out out len (r_out r);
       ret ((r_status r, r_op r), r_len r)
     }
     else ret (s, 0))"

definition aead_close ::
  "('b, 'o) psa \<Rightarrow> bool \<Rightarrow> size_t \<Rightarrow> ptr \<Rightarrow> ptr \<Rightarrow> size_t \<Rightarrow> size_t \<Rightarrow> psa_status_t \<times> 'o option \<Rightarrow>
   ('b, 'o, (psa_status_t \<times> 'o option) \<times> size_t \<times> size_t) zuc" where
  "aead_close P encrypt len out tag tag_len produced s =
    (if fst s = PSA_SUCCESS then do {
       let rest = (if len \<noteq> 0 then out + produced else out);
       if encrypt then do {
         r \<leftarrow> psa_do P (AEAD (Aead_finish (len - produced) tag_len)) (snd s);
         write_out rest (len - produced) (r_out r);
         write_out tag tag_len (r_out2 r);
         ret ((r_status r, r_op r), r_len r, r_len2 r)
       }
       else do {
         t \<leftarrow> read_bytes tag tag_len;
         r \<leftarrow> psa_do P (AEAD (Aead_verify (len - produced) t)) (snd s);
         write_out rest (len - produced) (r_out r);
         ret ((r_status r, r_op r), r_len r, 0)
       }
     }
     else ret (s, 0, 0))"

definition aead_done ::
  "('b, 'o) psa \<Rightarrow> bool \<Rightarrow> psa_key_id_t \<Rightarrow> size_t \<Rightarrow> size_t \<Rightarrow> size_t \<Rightarrow>
   (psa_status_t \<times> 'o option) \<times> size_t \<times> size_t \<Rightarrow> ('b, 'o, zuc_status) zuc" where
  "aead_done P encrypt k len tag_len produced x = (case x of (s, finished, tag_out) \<Rightarrow>
     if fst s \<noteq> PSA_SUCCESS then do {
       _ \<leftarrow> psa_do P (AEAD Aead_abort) (snd s);
       psa_destroy_key P k;
       ret (if fst s = PSA_ERROR_INVALID_SIGNATURE then ZUC_ERR_AUTH else zuc_int_from_psa (fst s))
     }
     else do {
       psa_destroy_key P k;
       ret (if produced + finished \<noteq> len \<or> (encrypt \<and> tag_out \<noteq> tag_len) then ZUC_ERR_INTERNAL
            else ZUC_OK)
     })"

definition aead_run ::
  "('b, 'o) psa \<Rightarrow> bool \<Rightarrow> zuc_alg \<Rightarrow> ptr \<Rightarrow> size_t \<Rightarrow> ptr \<Rightarrow> size_t \<Rightarrow> ptr \<Rightarrow> size_t \<Rightarrow> ptr \<Rightarrow> size_t \<Rightarrow>
   ptr \<Rightarrow> ptr \<Rightarrow> size_t \<Rightarrow> ('b, 'o, zuc_status) zuc" where
  "aead_run P encrypt alg key key_len nonce nonce_len aad aad_len inp len out tag tag_len = do {
     let palg = psa_aead_alg alg;
     (st, k) \<leftarrow> import_aead_key P key key_len palg;
     if st \<noteq> ZUC_OK then ret st
     else do {
       s \<leftarrow> aead_next P (if encrypt then Aead_encrypt_setup k palg else Aead_decrypt_setup k palg)
              (PSA_SUCCESS, None);
       n \<leftarrow> read_bytes nonce nonce_len;
       s \<leftarrow> aead_next P (Aead_set_nonce n) s;
       s \<leftarrow> (if aad_len \<noteq> 0 then do { a \<leftarrow> read_bytes aad aad_len; aead_next P (Aead_update_ad a) s }
             else ret s);
       (s, produced) \<leftarrow> aead_feed P inp len out s;
       x \<leftarrow> aead_close P encrypt len out tag tag_len produced s;
       aead_done P encrypt k len tag_len produced x
     }
   }"

definition zuc_aead_encrypt ::
  "('b, 'o) psa \<Rightarrow> zuc_alg \<Rightarrow> ptr \<Rightarrow> size_t \<Rightarrow> ptr \<Rightarrow> size_t \<Rightarrow> ptr \<Rightarrow> size_t \<Rightarrow> ptr \<Rightarrow> size_t \<Rightarrow> ptr \<Rightarrow>
   ptr \<Rightarrow> size_t \<Rightarrow> ('b, 'o, zuc_status) zuc" where
  "zuc_aead_encrypt P alg key key_len nonce nonce_len aad aad_len plaintext len ciphertext tag tag_len =
   do {
     st \<leftarrow> check_aead_args True alg key key_len nonce nonce_len aad aad_len plaintext len ciphertext
            tag tag_len;
     if st \<noteq> ZUC_OK then ret st
     else do {
       st \<leftarrow> aead_run P True alg key key_len nonce nonce_len aad aad_len plaintext len ciphertext
              tag tag_len;
       if st \<noteq> ZUC_OK then do {
         (if len \<noteq> 0 then zuc_secure_zero ciphertext len else ret ());
         zuc_secure_zero tag tag_len;
         ret st
       }
       else ret st
     }
   }"

definition zuc_aead_decrypt ::
  "('b, 'o) psa \<Rightarrow> zuc_alg \<Rightarrow> ptr \<Rightarrow> size_t \<Rightarrow> ptr \<Rightarrow> size_t \<Rightarrow> ptr \<Rightarrow> size_t \<Rightarrow> ptr \<Rightarrow> size_t \<Rightarrow>
   ptr \<Rightarrow> size_t \<Rightarrow> ptr \<Rightarrow> ('b, 'o, zuc_status) zuc" where
  "zuc_aead_decrypt P alg key key_len nonce nonce_len aad aad_len ciphertext len tag tag_len plaintext =
   do {
     st \<leftarrow> check_aead_args False alg key key_len nonce nonce_len aad aad_len ciphertext len plaintext
            tag tag_len;
     if st \<noteq> ZUC_OK then ret st
     else do {
       st \<leftarrow> aead_run P False alg key key_len nonce nonce_len aad aad_len ciphertext len plaintext
              tag tag_len;
       if st \<noteq> ZUC_OK \<and> len \<noteq> 0 then do { zuc_secure_zero plaintext len; ret st }
       else ret st
     }
   }"

section \<open>Key derivation: zuc\_kdf.c\<close>

definition kdf_next ::
  "('b, 'o) psa \<Rightarrow> kdf_call \<Rightarrow> psa_status_t \<times> 'o option \<Rightarrow> ('b, 'o, psa_status_t \<times> 'o option) zuc" where
  "kdf_next P c s =
    (if fst s = PSA_SUCCESS
     then do { r \<leftarrow> psa_do P (KDF c) (snd s); ret (r_status r, r_op r) }
     else ret s)"

definition zuc_pbkdf2_hmac ::
  "('b, 'o) psa \<Rightarrow> zuc_alg \<Rightarrow> ptr \<Rightarrow> size_t \<Rightarrow> ptr \<Rightarrow> size_t \<Rightarrow> 32 word \<Rightarrow> ptr \<Rightarrow> size_t \<Rightarrow>
   ('b, 'o, zuc_status) zuc" where
  "zuc_pbkdf2_hmac P hash password password_len salt salt_len iterations out out_len = do {
     ready \<leftarrow> zuc_int_ready;
     if \<not> ready then ret ZUC_ERR_NOT_READY
     else if out = NULL \<or> (password = NULL \<and> password_len \<noteq> 0) \<or> (salt = NULL \<and> salt_len \<noteq> 0) \<or>
             iterations = 0
     then ret ZUC_ERR_INVALID_ARGUMENT
     else if out_len = 0 then ret ZUC_ERR_BAD_LENGTH
     else do {
       pw \<leftarrow> (if password_len = 0 then ret [] else read_bytes password password_len);
       sl \<leftarrow> (if salt_len = 0 then ret [] else read_bytes salt salt_len);
       let halg = (if defined_want PSA_WANT_ALG_PBKDF2_HMAC
                   then (if zuc_int_digest_available hash then zuc_int_psa_hash hash else 0)
                   else 0);
       if halg = 0 then ret ZUC_ERR_UNSUPPORTED
       else do {
         s \<leftarrow> kdf_next P (Kdf_setup (PSA_ALG_PBKDF2_HMAC halg)) (PSA_SUCCESS, None);
         s \<leftarrow> kdf_next P (Kdf_input_integer KDF_INPUT_COST (ucast iterations)) s;
         s \<leftarrow> kdf_next P (Kdf_input_bytes KDF_INPUT_SALT sl) s;
         s \<leftarrow> kdf_next P (Kdf_input_bytes KDF_INPUT_PASSWORD pw) s;
         s \<leftarrow> (if fst s = PSA_SUCCESS then do {
                  r \<leftarrow> psa_do P (KDF (Kdf_output_bytes out_len)) (snd s);
                  write_out out out_len (r_out r);
                  ret (r_status r, r_op r)
                }
                else ret s);
         _ \<leftarrow> psa_do P (KDF Kdf_abort) (snd s);
         if fst s \<noteq> PSA_SUCCESS then do {
           zuc_secure_zero out out_len;
           ret (zuc_int_from_psa (fst s))
         }
         else ret ZUC_OK
       }
     }
   }"

section \<open>Lemmas: frames\<close>

text \<open>
  What the frame theorems need of the backend: the length it reports for an update does not
  exceed the size of the buffer it was given.
\<close>

definition reports_within :: "('b, 'o) psa \<Rightarrow> bool" where
  "reports_within P \<longleftrightarrow>
    (\<forall>op b d n. r_len (fst (P (AEAD (Aead_update d n)) op b)) \<le> n) \<and>
    (\<forall>op b d n. r_len (fst (P (CIPHER (Cipher_update d n)) op b)) \<le> n)"

lemma reports_within_aead:
  "reports_within P \<Longrightarrow> r_len (fst (P (AEAD (Aead_update d n)) op b)) \<le> n"
  by (simp add: reports_within_def)

lemma reports_within_cipher:
  "reports_within P \<Longrightarrow> r_len (fst (P (CIPHER (Cipher_update d n)) op b)) \<le> n"
  by (simp add: reports_within_def)

lemma keeps_aead_next [keeps_intros]:
  assumes "\<And>w b x. f (w\<lparr>w_psa := b, w_alloc_failed := x\<rparr>) = f w"
  shows "keeps f (aead_next P c s)"
  unfolding aead_next_def by (intro keeps_intros assms)

lemma keeps_kdf_next [keeps_intros]:
  assumes "\<And>w b x. f (w\<lparr>w_psa := b, w_alloc_failed := x\<rparr>) = f w"
  shows "keeps f (kdf_next P c s)"
  unfolding kdf_next_def by (intro keeps_intros assms)

lemma keeps_import_aead_key [keeps_intros]:
  assumes "\<And>w b x. f (w\<lparr>w_psa := b, w_alloc_failed := x\<rparr>) = f w"
  shows "keeps f (import_aead_key P key kl palg)"
  unfolding import_aead_key_def by (intro keeps_intros assms)

lemma keeps_aead_done [keeps_intros]:
  assumes "\<And>w b x. f (w\<lparr>w_psa := b, w_alloc_failed := x\<rparr>) = f w"
  shows "keeps f (aead_done P e k n tn pr x)"
  unfolding aead_done_def by (intro keeps_intros assms)

lemma confined_aead_parts [confined_intros]:
  "confined A (aead_next P c s)" "confined A (import_aead_key P key kl palg)"
  "confined A (aead_done P e k n tn pr x)" "confined A (kdf_next P kc s)"
  unfolding aead_next_def import_aead_key_def aead_done_def kdf_next_def
  by (intro confined_intros)+

lemma confined_aead_feed [confined_intros]:
  "buf out len \<subseteq> A \<Longrightarrow> confined A (aead_feed P inp len out s)"
  unfolding aead_feed_def by (intro confined_intros)

lemma aead_feed_produced:
  assumes "reports_within P"
  shows "snd (fst (run_state (aead_feed P inp len out s) w)) \<le> len"
  using reports_within_aead [OF assms] by (simp add: aead_feed_def run_simps)

lemma rest_subset:
  assumes "produced \<le> len" "buf out len \<subseteq> A"
  shows "buf (if len \<noteq> 0 then out + produced else out) (len - produced) \<subseteq> A"
  using assms buf_suffix_subset [OF assms(1), of out] by auto

lemma confined_aead_close:
  assumes "produced \<le> len" "buf out len \<subseteq> A" "e \<Longrightarrow> buf tag tn \<subseteq> A"
  shows "confined A (aead_close P e len out tag tn produced s)"
  unfolding aead_close_def Let_def
  by (intro confined_intros rest_subset assms)

lemma confined_aead_run:
  assumes P: "reports_within P" and A: "buf out len \<subseteq> A" "e \<Longrightarrow> buf tag tn \<subseteq> A"
  shows "confined A (aead_run P e alg key kl nonce nl aad al inp len out tag tn)"
proof -
  have feed: "confined A (State_Monad.bind (aead_feed P inp len out s)
      (\<lambda>(s, produced). State_Monad.bind (aead_close P e len out tag tn produced s)
        (aead_done P e k len tn produced)))" for s k
  proof (rule confined_bind_result)
    fix w
    have "snd (fst (run_state (aead_feed P inp len out s) w)) \<le> len"
      by (rule aead_feed_produced [OF P])
    then show "confined A (case fst (run_state (aead_feed P inp len out s) w) of
        (s, produced) \<Rightarrow> State_Monad.bind (aead_close P e len out tag tn produced s)
          (aead_done P e k len tn produced))"
      by (cases "fst (run_state (aead_feed P inp len out s) w)")
        (auto intro!: confined_intros confined_aead_close A)
  qed (intro confined_intros A)
  show ?thesis
    unfolding aead_run_def Let_def by (intro feed confined_intros)
qed

section \<open>Lemmas: keys\<close>

lemma owed_import_aead_key:
  "valid (\<lambda>w. owed w = M) (import_aead_key (traced P) key kl palg)
     (\<lambda>r w. owed w = (if fst r = ZUC_OK then add_mset (snd r) M else M))"
  unfolding import_aead_key_def
  by (rule valid_keeps_bind [OF keeps_read_bytes], rule valid_bind [OF owed_psa_import_key])
    (auto simp: valid_def)

lemma owed_aead_done:
  "valid (\<lambda>w. owed w = add_mset k M) (aead_done (traced P) e k n tn pr x) (\<lambda>_ w. owed w = M)"
  unfolding aead_done_def
  by (intro valid_case_prod valid_if valid_keeps_bind keeps_owed_psa_do
      valid_bind [OF owed_psa_destroy_key]) (simp_all add: valid_def)

lemma keeps_owed_aead:
  "keeps owed (aead_feed (traced P) inp len out s)"
  "keeps owed (aead_close (traced P) e len out tag tn pr s)"
  "keeps owed (aead_next (traced P) c s)"
  unfolding aead_feed_def aead_close_def aead_next_def Let_def
  by (intro keeps_intros keeps_owed_psa_do; simp)+

lemma owed_aead_run:
  "valid (\<lambda>w. owed w = M)
     (aead_run (traced P) e alg key kl nonce nl aad al inp len out tag tn) (\<lambda>_ w. owed w = M)"
  unfolding aead_run_def Let_def
proof (rule valid_bind [OF owed_import_aead_key], rule valid_case_prod, rule valid_if)
  fix r :: "zuc_status \<times> psa_key_id_t" and st k
  assume r: "r = (st, k)" and "\<not> st \<noteq> ZUC_OK"
  then have pre: "(if fst r = ZUC_OK then add_mset (snd r) M else M) = add_mset k M" by simp
  show "valid (\<lambda>w. owed w = (if fst r = ZUC_OK then add_mset (snd r) M else M))
      (do {
         s \<leftarrow> aead_next (traced P) (if e then Aead_encrypt_setup k (psa_aead_alg alg)
                else Aead_decrypt_setup k (psa_aead_alg alg)) (PSA_SUCCESS, None);
         n \<leftarrow> read_bytes nonce nl;
         s \<leftarrow> aead_next (traced P) (Aead_set_nonce n) s;
         s \<leftarrow> (if al \<noteq> 0
               then do { a \<leftarrow> read_bytes aad al; aead_next (traced P) (Aead_update_ad a) s }
               else ret s);
         (s, produced) \<leftarrow> aead_feed (traced P) inp len out s;
         x \<leftarrow> aead_close (traced P) e len out tag tn produced s;
         aead_done (traced P) e k len tn produced x
       }) (\<lambda>_ w. owed w = M)"
    unfolding pre
    by (intro valid_keeps_bind keeps_owed_aead keeps_if keeps_bind keeps_ret keeps_read_bytes
        valid_case_prod owed_aead_done)
qed (simp add: valid_def)

lemma run_check_aead_args:
  "snd (run_state (check_aead_args e alg key kl nonce nl aad al inp len out tag tn) w) = w"
  by (simp add: check_aead_args_def)

lemma keeps_check_aead_args [keeps_intros]:
  "keeps f (check_aead_args e alg key kl nonce nl aad al inp len out tag tn)"
  by (simp add: keeps_def run_check_aead_args)

lemma keeps_owed_aead_run:
  "keeps owed (aead_run (traced P) e alg key kl nonce nl aad al inp len out tag tn)"
  by (rule keeps_validI) (rule owed_aead_run)

lemma keeps_owed_zuc_aead:
  "keeps owed (zuc_aead_encrypt (traced P) alg key kl nonce nl aad al inp len out tag tn)"
  "keeps owed (zuc_aead_decrypt (traced P) alg key kl nonce nl aad al inp len tag tn out)"
  unfolding zuc_aead_encrypt_def zuc_aead_decrypt_def
  by (intro keeps_bind keeps_check_aead_args keeps_if keeps_ret keeps_owed_aead_run
      keeps_zuc_secure_zero; simp)+

lemma confined_zuc_aead_encrypt:
  assumes "reports_within P"
  shows "confined (buf out len \<union> buf tag tn)
    (zuc_aead_encrypt P alg key kl nonce nl aad al inp len out tag tn)"
  unfolding zuc_aead_encrypt_def
  by (intro confined_bind confined_if confined_basic confined_zuc_secure_zero
      confined_aead_run assms keeps_mem_confined [OF keeps_check_aead_args]) auto

lemma confined_zuc_aead_decrypt:
  assumes "reports_within P"
  shows "confined (buf out len) (zuc_aead_decrypt P alg key kl nonce nl aad al inp len tag tn out)"
  unfolding zuc_aead_decrypt_def
  by (intro confined_bind confined_if confined_basic confined_zuc_secure_zero
      confined_aead_run assms keeps_mem_confined [OF keeps_check_aead_args]) auto

text \<open>Everything needed to run an AEAD call on the scripted backend.\<close>

lemmas aead_defs = zuc_aead_encrypt_def zuc_aead_decrypt_def check_aead_args_def aead_run_def
  import_aead_key_def psa_import_key_def psa_destroy_key_def aead_next_def aead_feed_def
  aead_close_def aead_done_def run_simps scripted_def psa_aead_alg_def zuc_int_overlaps_def

section \<open>Lemmas: the calls of a successful run\<close>

text \<open>\<open>made cs w w'\<close>: from \<open>w\<close> to \<open>w'\<close> the backend was called with \<open>cs\<close> and reported success each time.\<close>

definition made :: "psa_call list \<Rightarrow> (call_log \<times> 'b, 'o) world \<Rightarrow> (call_log \<times> 'b, 'o) world \<Rightarrow> bool" where
  "made cs w w' \<longleftrightarrow> (\<exists>l. fst (w_psa w') = fst (w_psa w) @ l \<and> map fst l = cs \<and>
     (\<forall>e \<in> set l. fst (snd e) = PSA_SUCCESS))"

lemma made_Nil [simp]: "fst (w_psa w') = fst (w_psa w) \<Longrightarrow> made [] w w'"
  by (simp add: made_def)

lemma made_trans: "made cs w w' \<Longrightarrow> made ds w' w'' \<Longrightarrow> made (cs @ ds) w w''"
  unfolding made_def by (elim exE conjE, rule_tac x = "l @ la" in exI) auto

lemma made_psa_do:
  assumes "run_state (psa_do (traced P) c op) w = (r, w')" "r_status r = PSA_SUCCESS"
  shows "made [c] w w' \<and> w_mem w' = w_mem w"
  using assms by (auto simp: traced_do made_def split: prod.splits)

lemma made_import_aead_key:
  assumes "run_state (import_aead_key (traced P) key kl palg) w = ((ZUC_OK, k), w')"
  shows "fst (w_psa w') = fst (w_psa w) @ [(KEY (Import_key (aes_key_attr palg) (mem_read (w_mem w) key kl)), PSA_SUCCESS, k)] \<and>
    w_mem w' = w_mem w"
  using assms
  by (auto simp: import_aead_key_def psa_import_key_def traced_do split: prod.splits)

lemma made_aead_next:
  assumes "run_state (aead_next (traced P) c s) w = (s', w')" "fst s' = PSA_SUCCESS"
  shows "fst s = PSA_SUCCESS \<and> made [AEAD c] w w' \<and> w_mem w' = w_mem w"
  using assms by (auto simp: aead_next_def traced_do made_def split: prod.splits if_splits)

lemma made_aead_feed:
  assumes "run_state (aead_feed (traced P) inp len out s) w = ((s', pr), w')"
    and "fst s' = PSA_SUCCESS"
  shows "fst s = PSA_SUCCESS \<and>
    made (if len = 0 then [] else [AEAD (Aead_update (mem_read (w_mem w) inp len) len)]) w w'"
  using assms by (auto simp: aead_feed_def traced_do made_def split: prod.splits if_splits)

lemma made_aead_verify:
  assumes "run_state (aead_close (traced P) False len out tag tn pr s) w = ((s', x), w')"
    and "fst s' = PSA_SUCCESS"
  shows "fst s = PSA_SUCCESS \<and>
    made [AEAD (Aead_verify (len - pr) (mem_read (w_mem w) tag tn))] w w'"
  using assms by (auto simp: aead_close_def traced_do made_def split: prod.splits if_splits)

lemma aead_done_OK:
  assumes "run_state (aead_done (traced P) e k len tn pr x) w = (ZUC_OK, w')"
  shows "fst (fst x) = PSA_SUCCESS \<and>
    (\<exists>ps kid. fst (w_psa w') = fst (w_psa w) @ [(KEY (Destroy_key k), ps, kid)])"
  using assms
  by (auto simp: aead_done_def psa_destroy_key_def traced_do split: prod.splits if_splits)

lemma aead_feed_mem:
  assumes "run_state (aead_feed P inp len out s) w = (r, w')" "buf q n \<inter> buf out len = {}"
  shows "mem_read (w_mem w') q n = mem_read (w_mem w) q n"
proof (rule mem_read_cong)
  fix a
  assume "a \<in> buf q n"
  then have "a \<notin> buf out len" using assms(2) by blast
  then show "w_mem w' a = w_mem w a"
    using confined_mem [OF confined_aead_feed [OF order_refl] assms(1)] by simp
qed

lemma made_aead_run_decrypt:
  assumes run: "run_state (aead_run (traced P) False alg key kl nonce nl aad al inp len out tag tn) w
      = (ZUC_OK, w')"
    and disj: "buf tag tn \<inter> buf out len = {}"
  shows "\<exists>k l left ps kid.
    fst (w_psa w') = fst (w_psa w) @
      (KEY (Import_key (aes_key_attr (psa_aead_alg alg)) (mem_read (w_mem w) key kl)), PSA_SUCCESS, k) #
      l @ [(KEY (Destroy_key k), ps, kid)] \<and>
    map fst l = [AEAD (Aead_decrypt_setup k (psa_aead_alg alg)), AEAD (Aead_set_nonce (mem_read (w_mem w) nonce nl))] @
      (if al = 0 then [] else [AEAD (Aead_update_ad (mem_read (w_mem w) aad al))]) @
      (if len = 0 then [] else [AEAD (Aead_update (mem_read (w_mem w) inp len) len)]) @
      [AEAD (Aead_verify left (mem_read (w_mem w) tag tn))] \<and>
    list_all (\<lambda>e. fst (snd e) = PSA_SUCCESS) l"
proof -
  let ?ad = "\<lambda>s. if al \<noteq> 0 then do { a \<leftarrow> read_bytes aad al; aead_next (traced P) (Aead_update_ad a) s }
                else ret s"
  obtain st k w0 where i: "run_state (import_aead_key (traced P) key kl (psa_aead_alg alg)) w = ((st, k), w0)"
    by (metis surj_pair)
  obtain s1 w1 where s1: "run_state (aead_next (traced P) (Aead_decrypt_setup k (psa_aead_alg alg))
      (PSA_SUCCESS, None)) w0 = (s1, w1)"
    by (metis surj_pair)
  obtain s2 w2 where s2: "run_state (aead_next (traced P) (Aead_set_nonce (mem_read (w_mem w1) nonce nl)) s1) w1
      = (s2, w2)" by (metis surj_pair)
  obtain s3 w3 where s3: "run_state (?ad s2) w2 = (s3, w3)" by (metis surj_pair)
  obtain s4 pr w4 where s4: "run_state (aead_feed (traced P) inp len out s3) w3 = ((s4, pr), w4)"
    by (metis surj_pair)
  obtain s5 x w5 where s5: "run_state (aead_close (traced P) False len out tag tn pr s4) w4 = ((s5, x), w5)"
    by (metis surj_pair)
  have st: "st = ZUC_OK" and d: "run_state (aead_done (traced P) False k len tn pr (s5, x)) w5 = (ZUC_OK, w')"
    using run i s1 s2 s3 s4 s5 by (auto simp: aead_run_def Let_def split: if_splits)
  note d' = aead_done_OK [OF d, simplified]
  note m5 = made_aead_verify [OF s5 d' [THEN conjunct1]]
  note m4 = made_aead_feed [OF s4 m5 [THEN conjunct1]]
  have m3: "fst s2 = PSA_SUCCESS \<and> w_mem w3 = w_mem w2 \<and>
      made (if al = 0 then [] else [AEAD (Aead_update_ad (mem_read (w_mem w2) aad al))]) w2 w3"
    using s3 m4 made_aead_next [of P _ s2 w2 s3 w3] by (auto split: if_splits)
  note m2 = made_aead_next [OF s2 m3 [THEN conjunct1]]
  note m1 = made_aead_next [OF s1 m2 [THEN conjunct1]]
  note m0 = made_import_aead_key [OF i [unfolded st]]
  have mem: "w_mem w1 = w_mem w" "w_mem w2 = w_mem w" "w_mem w3 = w_mem w"
    using m0 m1 m2 m3 by simp_all
  have tag: "mem_read (w_mem w4) tag tn = mem_read (w_mem w) tag tn"
    using aead_feed_mem [OF s4 disj] mem by simp
  obtain ps kid where last: "fst (w_psa w') = fst (w_psa w5) @ [(KEY (Destroy_key k), ps, kid)]"
    using d' by blast
  have "made ([AEAD (Aead_decrypt_setup k (psa_aead_alg alg)), AEAD (Aead_set_nonce (mem_read (w_mem w) nonce nl))] @
      (if al = 0 then [] else [AEAD (Aead_update_ad (mem_read (w_mem w) aad al))]) @
      (if len = 0 then [] else [AEAD (Aead_update (mem_read (w_mem w) inp len) len)]) @
      [AEAD (Aead_verify (len - pr) (mem_read (w_mem w) tag tn))]) w0 w5"
    using made_trans [OF made_trans [OF made_trans [OF made_trans [OF m1 [THEN conjunct2, THEN conjunct1]
      m2 [THEN conjunct2, THEN conjunct1]] m3 [THEN conjunct2, THEN conjunct2]] m4 [THEN conjunct2]]
      m5 [THEN conjunct2]]
    unfolding mem tag append.assoc append.simps .
  then obtain l where "fst (w_psa w5) = fst (w_psa w0) @ l" "list_all (\<lambda>e. fst (snd e) = PSA_SUCCESS) l"
      "map fst l = [AEAD (Aead_decrypt_setup k (psa_aead_alg alg)), AEAD (Aead_set_nonce (mem_read (w_mem w) nonce nl))] @
      (if al = 0 then [] else [AEAD (Aead_update_ad (mem_read (w_mem w) aad al))]) @
      (if len = 0 then [] else [AEAD (Aead_update (mem_read (w_mem w) inp len) len)]) @
      [AEAD (Aead_verify (len - pr) (mem_read (w_mem w) tag tn))]"
    by (auto simp: made_def list_all_iff)
  with last m0 show ?thesis
    by (intro exI [of _ k] exI [of _ l] exI [of _ "len - pr"] exI [of _ ps] exI [of _ kid]) simp
qed

section \<open>Lemmas: CBC\<close>

lemma keeps_cipher_run:
  assumes "\<And>w b x. f (w\<lparr>w_psa := b, w_alloc_failed := x\<rparr>) = f w" "\<And>w g. f (w\<lparr>w_mem := g\<rparr>) = f w"
  shows "keeps f (cipher_run P k e iv inp len out)"
  unfolding cipher_run_def cipher_abort_def Let_def by (intro keeps_intros assms)

lemma snd_check_block_args: "snd (run_state (check_block_args aes inp len out) w) = w"
  by (simp add: check_block_args_def)

lemma confined_zuc_pbkdf2_hmac:
  "confined (buf out n) (zuc_pbkdf2_hmac P hash pw pl salt sl it out n)"
  unfolding zuc_pbkdf2_hmac_def Let_def by (intro confined_intros confined_zuc_int order_refl)

lemma confined_cipher_abort [confined_intros]: "confined A (cipher_abort P op st)"
  unfolding cipher_abort_def by (intro confined_intros)

lemma confined_cipher_run:
  assumes "reports_within P"
  shows "confined (buf out len) (cipher_run P k e iv inp len out)"
  unfolding cipher_run_def Let_def
  apply (rule confined_psa_do_bind)
  apply (rule confined_if, rule confined_cipher_abort)
  apply (rule confined_psa_do_bind)
  apply (rule confined_if, rule confined_cipher_abort)
  apply (rule confined_bind, rule confined_basic)
  apply (rule confined_psa_do_bind)
  apply (rule confined_bind, rule confined_write_out, rule order_refl)
  apply (rule confined_if, rule confined_cipher_abort)
  apply (rule confined_psa_do_bind)
  apply (intro confined_intros buf_suffix_subset reports_within_cipher assms)
  done

lemma confined_zuc_aes_cbc:
  assumes "reports_within P"
  shows "confined (buf out len) (zuc_aes_cbc_encrypt P aes inp len out)"
    and "confined (buf out len) (zuc_aes_cbc_decrypt P aes inp len out)"
  unfolding zuc_aes_cbc_encrypt_def zuc_aes_cbc_decrypt_def check_block_args_def
  by (intro confined_intros confined_zuc_int confined_cipher_run assms)+

lemma block_multiple_iff: "len mod ZUC_AES_BLOCK_SIZE = 0 \<longleftrightarrow> unat len mod 16 = 0"
  by (simp add: word_unat_eq_iff unat_mod)

section \<open>Properties: authenticated encryption\<close>

text \<open>
  C1. No unauthenticated plaintext. For every backend whatsoever, when \<^verbatim>\<open>zuc_aead_decrypt\<close> returns
  anything but \<^verbatim>\<open>ZUC_OK\<close>, either an argument check refused the call and the whole state is as
  before, or every byte of the plaintext buffer is zero.
\<close>

theorem zuc_aead_decrypt_no_plaintext:
  assumes "run_state (zuc_aead_decrypt P alg key key_len nonce nonce_len aad aad_len
             ciphertext len tag tag_len plaintext) w = (st, w')"
    and "st \<noteq> ZUC_OK"
  shows "if fst (run_state (check_aead_args False alg key key_len nonce nonce_len aad aad_len
              ciphertext len plaintext tag tag_len) w) = ZUC_OK
         then mem_read (w_mem w') plaintext len = replicate (unat len) 0
         else w' = w"
proof -
  let ?c = "check_aead_args False alg key key_len nonce nonce_len aad aad_len
              ciphertext len plaintext tag tag_len"
  let ?r = "aead_run P False alg key key_len nonce nonce_len aad aad_len ciphertext len
              plaintext tag tag_len"
  obtain st0 where c: "run_state ?c w = (st0, w)"
    by (simp add: check_aead_args_def)
  then have nn: "st0 = ZUC_OK \<Longrightarrow> len = 0 \<or> plaintext \<noteq> NULL"
    by (auto simp: check_aead_args_def split: if_splits)
  obtain st1 w1 where r: "run_state ?r w = (st1, w1)" by force
  show ?thesis
    using assms nn c r
    by (auto simp: zuc_aead_decrypt_def run_zuc_secure_zero mem_read_write_same split: if_splits)
qed

theorem zuc_aead_decrypt_no_plaintext_witness:
  "\<exists>w'. run_state (zuc_aead_decrypt (scripted refuse_tag) ZUC_ALG_AES_GCM 1000 16 2000 12 0 0
          3000 4 4000 16 5000) (fresh_world () []) = (ZUC_ERR_AUTH, w') \<and>
        mem_read (w_mem w') 5000 4 = replicate 4 0"
proof -
  let ?m = "zuc_aead_decrypt (scripted refuse_tag) ZUC_ALG_AES_GCM 1000 16 2000 12 0 0
          3000 4 4000 16 5000" and ?w = "fresh_world () []"
  have r: "run_state ?m ?w = (ZUC_ERR_AUTH, snd (run_state ?m ?w))"
    by (simp add: zuc_aead_decrypt_def check_aead_args_def aead_run_def import_aead_key_def
        psa_import_key_def psa_destroy_key_def aead_next_def aead_feed_def aead_close_def
        aead_done_def run_simps scripted_def psa_aead_alg_def zuc_int_overlaps_def)
  show ?thesis
    using zuc_aead_decrypt_no_plaintext [OF r] r
    by (auto simp: check_aead_args_def psa_aead_alg_def zuc_int_overlaps_def)
qed

text \<open>
  No partial ciphertext. For every backend, when \<^verbatim>\<open>zuc_aead_encrypt\<close> returns anything but
  \<^verbatim>\<open>ZUC_OK\<close>, either an argument check refused the call and the whole state is as before, or every
  byte of the ciphertext buffer and of the tag buffer is zero.
\<close>

theorem zuc_aead_encrypt_failure_erases:
  assumes "run_state (zuc_aead_encrypt P alg key key_len nonce nonce_len aad aad_len
             plaintext len ciphertext tag tag_len) w = (st, w')"
    and "st \<noteq> ZUC_OK"
  shows "if fst (run_state (check_aead_args True alg key key_len nonce nonce_len aad aad_len
              plaintext len ciphertext tag tag_len) w) = ZUC_OK
         then mem_read (w_mem w') ciphertext len = replicate (unat len) 0 \<and>
              mem_read (w_mem w') tag tag_len = replicate (unat tag_len) 0
         else w' = w"
proof -
  let ?c = "check_aead_args True alg key key_len nonce nonce_len aad aad_len
              plaintext len ciphertext tag tag_len"
  let ?r = "aead_run P True alg key key_len nonce nonce_len aad aad_len plaintext len
              ciphertext tag tag_len"
  obtain st0 where c: "run_state ?c w = (st0, w)"
    by (simp add: check_aead_args_def)
  then have nn: "st0 = ZUC_OK \<Longrightarrow> tag \<noteq> NULL \<and> (len = 0 \<or> ciphertext \<noteq> NULL)"
    by (auto simp: check_aead_args_def split: if_splits)
  obtain st1 w1 where r: "run_state ?r w = (st1, w1)" by force
  show ?thesis
    using assms nn c r
    by (auto simp: zuc_aead_encrypt_def run_zuc_secure_zero mem_read_write_same
        mem_read_zeroes_write split: if_splits)
qed

theorem zuc_aead_encrypt_failure_erases_witness:
  "\<exists>w'. run_state (zuc_aead_encrypt (scripted refuse_tag) ZUC_ALG_AES_GCM 1000 16 2000 12 0 0
          3000 4 5000 4000 16) (fresh_world () []) = (ZUC_ERR_INTERNAL, w') \<and>
        mem_read (w_mem w') 5000 4 = replicate 4 0 \<and> mem_read (w_mem w') 4000 16 = replicate 16 0"
proof -
  let ?m = "zuc_aead_encrypt (scripted refuse_tag) ZUC_ALG_AES_GCM 1000 16 2000 12 0 0
          3000 4 5000 4000 16" and ?w = "fresh_world () []"
  have r: "run_state ?m ?w = (ZUC_ERR_INTERNAL, snd (run_state ?m ?w))"
    by (simp add: aead_defs zuc_int_from_psa_def)
  show ?thesis
    using zuc_aead_encrypt_failure_erases [OF r] r
    by (auto simp: check_aead_args_def psa_aead_alg_def zuc_int_overlaps_def)
qed

text \<open>
  Frame of authenticated encryption. With a backend that reports no more output than the
  buffer it was given, encryption changes byte memory only inside the ciphertext and tag buffers
  and decryption only inside the plaintext buffer, on every path.
\<close>

theorem zuc_aead_frame:
  assumes "reports_within P"
  shows "(\<forall>a. a \<notin> buf ciphertext len \<union> buf tag tag_len \<longrightarrow>
      w_mem (snd (run_state (zuc_aead_encrypt P alg key key_len nonce nonce_len aad aad_len
        plaintext len ciphertext tag tag_len) w)) a = w_mem w a) \<and>
    (\<forall>a. a \<notin> buf plaintext len \<longrightarrow>
      w_mem (snd (run_state (zuc_aead_decrypt P alg key key_len nonce nonce_len aad aad_len
        ciphertext len tag tag_len plaintext) w)) a = w_mem w a)"
  using confined_mem [OF confined_zuc_aead_encrypt [OF assms] prod.collapse [symmetric]]
    confined_mem [OF confined_zuc_aead_decrypt [OF assms] prod.collapse [symmetric]]
  by simp

theorem zuc_aead_frame_witness:
  "reports_within (scripted_short refuse_tag) \<and>
   w_mem (snd (run_state (zuc_aead_decrypt (scripted_short refuse_tag) ZUC_ALG_AES_GCM 1000 16 2000 12
     0 0 3000 4 4000 16 5000) (fresh_world () []))) 5004 = ucast (5004 :: ptr)"
proof -
  have r: "reports_within (scripted_short refuse_tag)"
    by (simp add: reports_within_def scripted_short_def)
  have "5004 \<notin> buf 5000 4"
    by (simp add: buf_def)
  with zuc_aead_frame [OF r, where plaintext = 5000 and len = 4] r show ?thesis
    by simp
qed

text \<open>
  Key lifetime. Whatever the backend answers, authenticated encryption and decryption leave
  exactly the keys in the backend that were there before: a key that was imported is destroyed
  on every path, and no other key is.
\<close>

theorem zuc_aead_no_key_left:
  "owed (snd (run_state (zuc_aead_encrypt (traced P) alg key key_len nonce nonce_len aad aad_len
      plaintext len ciphertext tag tag_len) w)) = owed w \<and>
   owed (snd (run_state (zuc_aead_decrypt (traced P) alg key key_len nonce nonce_len aad aad_len
      ciphertext len tag tag_len plaintext) w)) = owed w"
  by (simp add: keeps_snd [OF keeps_owed_zuc_aead(1)] keeps_snd [OF keeps_owed_zuc_aead(2)])

text \<open>
  C12. Decryption succeeds only through the tag check. When \<^verbatim>\<open>zuc_aead_decrypt\<close>, with a tag apart from the
  plaintext buffer, returns \<^verbatim>\<open>ZUC_OK\<close>, the calls it made to the backend are exactly: an import of the caller's
  key restricted to GCM, a decryption set-up on the key that this import returned, the caller's nonce, the
  associated data (if any), the ciphertext (if any), the verification of the caller's tag, and the destruction
  of that key, in that order; and every one of these calls but the last, whose status is ignored, reported success.
\<close>

theorem zuc_aead_decrypt_ok_protocol:
  assumes ok: "run_state (zuc_aead_decrypt (traced P) alg key key_len nonce nonce_len aad aad_len
             ciphertext len tag tag_len plaintext) w = (ZUC_OK, w')"
    and disj: "buf tag tag_len \<inter> buf plaintext len = {}"
  shows "\<exists>k l left ps kid.
    fst (w_psa w') = fst (w_psa w) @
      (KEY (Import_key (aes_key_attr PSA_ALG_GCM) (mem_read (w_mem w) key key_len)), PSA_SUCCESS, k) #
      l @ [(KEY (Destroy_key k), ps, kid)] \<and>
    map fst l = [AEAD (Aead_decrypt_setup k PSA_ALG_GCM), AEAD (Aead_set_nonce (mem_read (w_mem w) nonce nonce_len))] @
      (if aad_len = 0 then [] else [AEAD (Aead_update_ad (mem_read (w_mem w) aad aad_len))]) @
      (if len = 0 then [] else [AEAD (Aead_update (mem_read (w_mem w) ciphertext len) len)]) @
      [AEAD (Aead_verify left (mem_read (w_mem w) tag tag_len))] \<and>
    list_all (\<lambda>e. fst (snd e) = PSA_SUCCESS) l"
proof -
  let ?c = "check_aead_args False alg key key_len nonce nonce_len aad aad_len
              ciphertext len plaintext tag tag_len"
  obtain st0 where c: "run_state ?c w = (st0, w)"
    by (simp add: check_aead_args_def)
  with ok have r: "run_state (aead_run (traced P) False alg key key_len nonce nonce_len aad aad_len
      ciphertext len plaintext tag tag_len) w = (ZUC_OK, w')" and "st0 = ZUC_OK"
    by (auto simp: zuc_aead_decrypt_def split: if_splits prod.splits)
  with c have alg: "psa_aead_alg alg = PSA_ALG_GCM"
    by (auto simp: check_aead_args_def psa_aead_alg_def split: if_splits)
  show ?thesis
    by (rule made_aead_run_decrypt [OF r disj, unfolded alg])
qed

theorem zuc_aead_decrypt_ok_protocol_witness:
  "\<exists>w' k l left ps kid.
    run_state (zuc_aead_decrypt (traced (scripted accept_all)) ZUC_ALG_AES_GCM 1000 16 2000 12 0 0
      3000 2 4000 16 5000) (fresh_world ([], ()) []) = (ZUC_OK, w') \<and>
    fst (w_psa w') =
      (KEY (Import_key (aes_key_attr PSA_ALG_GCM) (mem_read (\<lambda>a. ucast a) 1000 16)), PSA_SUCCESS, k) #
      l @ [(KEY (Destroy_key k), ps, kid)] \<and>
    map fst l =
      [AEAD (Aead_decrypt_setup k PSA_ALG_GCM), AEAD (Aead_set_nonce (mem_read (\<lambda>a. ucast a) 2000 12)),
       AEAD (Aead_update (mem_read (\<lambda>a. ucast a) 3000 2) 2),
       AEAD (Aead_verify left (mem_read (\<lambda>a. ucast a) 4000 16))]"
proof -
  let ?m = "zuc_aead_decrypt (traced (scripted accept_all)) ZUC_ALG_AES_GCM 1000 16 2000 12 0 0
      3000 2 4000 16 5000" and ?w = "fresh_world ([], ()) [] :: (call_log \<times> unit, unit) world"
  obtain w' where r: "run_state ?m ?w = (ZUC_OK, w')"
    by (simp add: aead_defs traced_def)
  have "buf (4000 :: ptr) 16 \<inter> buf 5000 2 = {}"
    by (auto simp: in_buf_no_wrap no_wrap_def)
  from zuc_aead_decrypt_ok_protocol [OF r this] show ?thesis
    by (intro exI [of _ w']) (auto simp: r)
qed

section \<open>Properties: AES-CBC\<close>

text \<open>
  C6. CBC chaining across calls. For a live handle, a successful \<^verbatim>\<open>zuc_aes_cbc_encrypt\<close> of a
  non-empty message leaves the chain value equal to the last block of the ciphertext it wrote,
  and a successful \<^verbatim>\<open>zuc_aes_cbc_decrypt\<close> leaves it equal to the last block the ciphertext had
  \<^emph>\<open>before\<close> the call, also when the message is decrypted in place. On any failure, and on an empty
  message, the chain value is not touched.
\<close>

theorem zuc_aes_cbc_chain:
  assumes h: "w_aess w aes = Some h" and nz: "aes \<noteq> NULL"
  shows "(\<forall>st w'. run_state (zuc_aes_cbc_encrypt P aes inp len out) w = (st, w') \<longrightarrow>
      w_aess w' = (w_aess w)(aes \<mapsto>
        (if st = ZUC_OK \<and> len \<noteq> 0 then h\<lparr>a_chain := mem_read (w_mem w') (out + len - 16) 16\<rparr> else h))) \<and>
    (\<forall>st w'. run_state (zuc_aes_cbc_decrypt P aes inp len out) w = (st, w') \<longrightarrow>
      w_aess w' = (w_aess w)(aes \<mapsto>
        (if st = ZUC_OK \<and> len \<noteq> 0 then h\<lparr>a_chain := mem_read (w_mem w) (inp + len - 16) 16\<rparr> else h)))"
proof -
  obtain st0 where c: "run_state (check_block_args aes inp len out) w = (st0, w)"
    by (simp add: check_block_args_def nz)
  have id: "(w_aess w)(aes \<mapsto> h) = w_aess w"
    using h by (simp add: fun_upd_idem)
  have keep: "w_aess w1 = w_aess w"
    if "run_state (cipher_run P (a_key h) e (a_chain h) inp len out) w = (st, w1)" for e st w1
    by (rule keepsD [OF keeps_cipher_run that]) simp_all
  show ?thesis
    using c h id
    by (auto simp: zuc_aes_cbc_encrypt_def zuc_aes_cbc_decrypt_def deref_aes_def set_aes_def
        split: if_splits prod.splits dest!: keep)
qed

theorem zuc_aes_cbc_chain_witness:
  "\<exists>st w'. run_state (zuc_aes_cbc_decrypt (scripted accept_all) 64 1000 32 1000)
      ((fresh_world () [])\<lparr>w_aess := [64 \<mapsto> zero_aes]\<rparr>) = (st, w') \<and> st = ZUC_OK \<and>
    map_option a_chain (w_aess w' 64) = Some (mem_read (\<lambda>a. ucast a) 1016 16)"
proof -
  let ?m = "zuc_aes_cbc_decrypt (scripted accept_all) 64 1000 32 1000"
    and ?w = "(fresh_world () [])\<lparr>w_aess := [64 \<mapsto> zero_aes]\<rparr>"
  obtain w' where r: "run_state ?m ?w = (ZUC_OK, w')"
    by (simp add: zuc_aes_cbc_decrypt_def check_block_args_def cipher_run_def deref_aes_def run_simps
        scripted_def zuc_int_overlaps_def)
  show ?thesis
    using zuc_aes_cbc_chain [of ?w 64 zero_aes, THEN conjunct2, rule_format, OF _ _ r]
    by (intro exI [of _ ZUC_OK] exI [of _ w']) (simp add: r)
qed

text \<open>
  CBC arguments and frame. A call is refused before the backend is touched, with the state
  unchanged, exactly when the handle is missing, the backend is not initialised, or a non-empty
  message has a missing buffer, a length that is not a multiple of the block size, or a partly
  overlapping output. With a backend that reports no more than it was given room for, the call
  changes byte memory only inside the output buffer.
\<close>

theorem zuc_aes_cbc_guard_frame:
  assumes "reports_within P"
  shows "(fst (run_state (check_block_args aes inp len out) w) \<noteq> ZUC_OK \<or> len = 0 \<longrightarrow>
      run_state (zuc_aes_cbc_encrypt P aes inp len out) w =
        (fst (run_state (check_block_args aes inp len out) w), w) \<and>
      run_state (zuc_aes_cbc_decrypt P aes inp len out) w =
        (fst (run_state (check_block_args aes inp len out) w), w)) \<and>
    (fst (run_state (check_block_args aes inp len out) w) = ZUC_OK \<longleftrightarrow>
      aes \<noteq> NULL \<and> w_refcount w \<noteq> 0 \<and>
      (len = 0 \<or> inp \<noteq> NULL \<and> out \<noteq> NULL \<and> unat len mod 16 = 0 \<and> \<not> zuc_int_overlaps inp out len)) \<and>
    (\<forall>a. a \<notin> buf out len \<longrightarrow>
      w_mem (snd (run_state (zuc_aes_cbc_encrypt P aes inp len out) w)) a = w_mem w a \<and>
      w_mem (snd (run_state (zuc_aes_cbc_decrypt P aes inp len out) w)) a = w_mem w a)"
proof (intro conjI impI allI)
  show "fst (run_state (check_block_args aes inp len out) w) = ZUC_OK \<longleftrightarrow>
      aes \<noteq> NULL \<and> w_refcount w \<noteq> 0 \<and>
      (len = 0 \<or> inp \<noteq> NULL \<and> out \<noteq> NULL \<and> unat len mod 16 = 0 \<and> \<not> zuc_int_overlaps inp out len)"
    by (auto simp: check_block_args_def word_gt_0 block_multiple_iff)
next
  fix a
  assume "a \<notin> buf out len"
  then show "w_mem (snd (run_state (zuc_aes_cbc_encrypt P aes inp len out) w)) a = w_mem w a"
    and "w_mem (snd (run_state (zuc_aes_cbc_decrypt P aes inp len out) w)) a = w_mem w a"
    by (simp_all add: confined_snd [OF confined_zuc_aes_cbc(1) [OF assms]]
        confined_snd [OF confined_zuc_aes_cbc(2) [OF assms]])
qed (cases "run_state (check_block_args aes inp len out) w";
    use snd_check_block_args [of aes inp len out w] in
      \<open>auto simp: zuc_aes_cbc_encrypt_def zuc_aes_cbc_decrypt_def\<close>)+

theorem zuc_aes_cbc_guard_frame_witness:
  "reports_within (scripted_short accept_all) \<and>
   run_state (zuc_aes_cbc_encrypt (scripted_short accept_all) 64 1000 33 2000)
     (fresh_world () []) = (ZUC_ERR_BAD_LENGTH, fresh_world () [])"
proof -
  have r: "reports_within (scripted_short accept_all)"
    by (simp add: reports_within_def scripted_short_def)
  have "fst (run_state (check_block_args 64 1000 33 2000) (fresh_world () [] :: (unit, unit) world))
      = ZUC_ERR_BAD_LENGTH"
    by (simp add: check_block_args_def)
  then show ?thesis
    using zuc_aes_cbc_guard_frame [OF r, of 64 1000 33 2000 "fresh_world () []"] r by simp
qed

section \<open>Properties: PBKDF2\<close>

text \<open>
  C33. Key derivation never leaves a partial key. For every backend, a failed \<^verbatim>\<open>zuc_pbkdf2_hmac\<close> has
  either changed nothing at all or erased the whole output buffer; the latter exactly when the
  arguments were accepted. No byte outside the output buffer changes.
\<close>

theorem zuc_pbkdf2_hmac_failure_erases:
  assumes "run_state (zuc_pbkdf2_hmac P hash password password_len salt salt_len iterations out out_len) w
      = (st, w')"
  shows "(st \<noteq> ZUC_OK \<longrightarrow> w' = w \<or> mem_read (w_mem w') out out_len = replicate (unat out_len) 0) \<and>
    (w_refcount w \<noteq> 0 \<and> out \<noteq> NULL \<and> (password \<noteq> NULL \<or> password_len = 0) \<and>
       (salt \<noteq> NULL \<or> salt_len = 0) \<and> iterations \<noteq> 0 \<and> out_len \<noteq> 0 \<and> zuc_int_digest_available hash \<and>
       st \<noteq> ZUC_OK \<longrightarrow> mem_read (w_mem w') out out_len = replicate (unat out_len) 0) \<and>
    (\<forall>a. a \<notin> buf out out_len \<longrightarrow> w_mem w' a = w_mem w a)"
proof (intro conjI allI impI)
  fix a
  assume "a \<notin> buf out out_len"
  then show "w_mem w' a = w_mem w a"
    by (rule confined_mem [OF confined_zuc_pbkdf2_hmac assms])
qed (use assms in \<open>auto simp: zuc_pbkdf2_hmac_def Let_def run_zuc_secure_zero mem_read_write_same
       word_gt_0 zuc_int_digest_available_def split: if_splits prod.splits\<close>)

theorem zuc_pbkdf2_hmac_failure_erases_witness:
  "\<exists>w'. run_state (zuc_pbkdf2_hmac (scripted refuse_tag) ZUC_ALG_SHA256 1000 8 2000 8 1000 3000 32)
      (fresh_world () []) = (ZUC_ERR_INTERNAL, w') \<and> mem_read (w_mem w') 3000 32 = replicate 32 0"
proof -
  let ?m = "zuc_pbkdf2_hmac (scripted refuse_tag) ZUC_ALG_SHA256 1000 8 2000 8 1000 3000 32"
    and ?w = "fresh_world () []"
  obtain w' where r: "run_state ?m ?w = (ZUC_ERR_INTERNAL, w')"
    by (simp add: zuc_pbkdf2_hmac_def kdf_next_def run_simps scripted_def zuc_int_from_psa_def
        zuc_int_digest_available_iff zuc_int_psa_hash_def)
  show ?thesis
    using zuc_pbkdf2_hmac_failure_erases [OF r] r by (simp add: zuc_int_digest_available_iff)
qed

end
