(* ===== verification/R_Session.thy ===== *)
theory R_Session
  imports Hash Symmetric
begin

text \<open>
  What the R-facing translation units use of R: vectors, external pointers with finalizers,
  allocation, and the non-local exits. An entry point runs on a \<open>session\<close>, the adapter's world
  together with R's external pointer objects.

  R leaves C code by \<^verbatim>\<open>longjmp\<close> when an allocation fails, when the user interrupts and when
  \<^verbatim>\<open>Rf_error\<close> is called. The functions below that can do so take the rest of the caller as their
  last argument and either run it or give up with \<open>Longjmp\<close>. Two sequences stand for what the
  environment decides: \<open>rs_allocs\<close> holds the addresses R's allocator will answer (NULL, or the end
  of the list, is a failure) and \<open>rs_interrupts\<close> whether an interrupt is pending at each check.
\<close>

section \<open>R objects\<close>

text \<open>
  A raw vector is its address and its length; its bytes are in the world's memory. A double
  argument is the whole number that the R code has checked it to be. The accessors are applied
  to the types that the R code has checked; elsewhere they give NULL or zero.
\<close>

datatype sexp =
    R_NilValue
  | RAWSXP ptr size_t
  | INTSXP "int list"
  | LGLSXP bool
  | REALSXP int
  | STRSXP "string list"
  | SYMSXP string
  | EXTPTRSXP ptr
  | VECSXP "(string \<times> sexp) list"

fun RAW :: "sexp \<Rightarrow> ptr" where
  "RAW (RAWSXP p n) = p"
| "RAW _ = NULL"

fun XLENGTH :: "sexp \<Rightarrow> size_t" where
  "XLENGTH (RAWSXP p n) = n"
| "XLENGTH (INTSXP xs) = of_nat (length xs)"
| "XLENGTH (STRSXP xs) = of_nat (length xs)"
| "XLENGTH (VECSXP xs) = of_nat (length xs)"
| "XLENGTH _ = 0"

fun R_CHAR :: "sexp \<Rightarrow> string option" where
  "R_CHAR (STRSXP (s # _)) = Some s"
| "R_CHAR _ = None"

fun REAL :: "sexp \<Rightarrow> int" where
  "REAL (REALSXP x) = x"
| "REAL _ = 0"

fun Rf_asLogical :: "sexp \<Rightarrow> bool" where
  "Rf_asLogical (LGLSXP b) = b"
| "Rf_asLogical _ = False"

fun Rf_asInteger :: "sexp \<Rightarrow> int" where
  "Rf_asInteger (INTSXP (x # _)) = x"
| "Rf_asInteger _ = 0"

abbreviation Rf_isNull :: "sexp \<Rightarrow> bool" where
  "Rf_isNull x \<equiv> x = R_NilValue"

section \<open>Sessions\<close>

datatype finalizer = Fin_hash | Fin_hmac | Fin_aes | Fin_pkey

record extptr =
  x_addr :: ptr
  x_tag :: sexp
  x_fin :: "finalizer option"

record ('b, 'o) session =
  rs_world :: "('b, 'o) world"
  rs_ptrs :: "ptr \<rightharpoonup> extptr"
  rs_allocs :: "ptr list"
  rs_interrupts :: "bool list"

text \<open>
  How a call ends: with a value, by a jump out of the C code, or not at all because the operating
  system's random source never delivers.
\<close>

datatype 'a outcome = Returned 'a | Longjmp | No_return

type_synonym ('b, 'o, 'a) rc = "(('b, 'o) session, 'a) state"

text \<open>A call of the adapter.\<close>

definition native :: "('b, 'o, 'a) zuc \<Rightarrow> ('b, 'o, 'a) rc" where
  "native m = State (\<lambda>s. case run_state m (rs_world s) of (r, w) \<Rightarrow> (r, s\<lparr>rs_world := w\<rparr>))"

text \<open>
  A call that returns a handle or a length through the address of a local variable, initialised
  to NULL or 0. The typed cells of the world are apart from its bytes and such calls do not nest,
  so one address serves for each of the two kinds.
\<close>

abbreviation (input) LOCAL :: ptr where "LOCAL \<equiv> 1"

definition with_out :: "(ptr \<Rightarrow> ('b, 'o, zuc_status) zuc) \<Rightarrow> ('b, 'o, zuc_status \<times> ptr) zuc" where
  "with_out f = do {
     write_cell LOCAL NULL;
     st \<leftarrow> f LOCAL;
     h \<leftarrow> gets (\<lambda>w. w_cells w LOCAL);
     ret (st, h)
   }"

definition with_len :: "(ptr \<Rightarrow> ('b, 'o, zuc_status) zuc) \<Rightarrow> ('b, 'o, zuc_status \<times> size_t) zuc" where
  "with_len f = do {
     write_size LOCAL 0;
     st \<leftarrow> f LOCAL;
     n \<leftarrow> gets (\<lambda>w. w_sizes w LOCAL);
     ret (st, n)
   }"

section \<open>Allocation, interrupts and external pointers\<close>

definition r_alloc :: "(ptr \<Rightarrow> ('b, 'o, 'a outcome) rc) \<Rightarrow> ('b, 'o, 'a outcome) rc" where
  "r_alloc k = do {
     ps \<leftarrow> gets rs_allocs;
     case ps of
       [] \<Rightarrow> ret Longjmp
     | p # ps' \<Rightarrow> do {
         modify (\<lambda>s. s\<lparr>rs_allocs := ps'\<rparr>);
         if p = NULL then ret Longjmp else k p
       }
   }"

definition allocRaw :: "size_t \<Rightarrow> (sexp \<Rightarrow> ('b, 'o, 'a outcome) rc) \<Rightarrow> ('b, 'o, 'a outcome) rc" where
  "allocRaw n k = r_alloc (\<lambda>p. k (RAWSXP p n))"

definition R_CheckUserInterrupt :: "('b, 'o, 'a outcome) rc \<Rightarrow> ('b, 'o, 'a outcome) rc" where
  "R_CheckUserInterrupt k = do {
     bs \<leftarrow> gets rs_interrupts;
     case bs of
       [] \<Rightarrow> k
     | b # bs' \<Rightarrow> do {
         modify (\<lambda>s. s\<lparr>rs_interrupts := bs'\<rparr>);
         if b then ret Longjmp else k
       }
   }"

definition R_MakeExternalPtr :: "sexp \<Rightarrow> (ptr \<Rightarrow> ('b, 'o, 'a outcome) rc) \<Rightarrow> ('b, 'o, 'a outcome) rc" where
  "R_MakeExternalPtr tag k = r_alloc (\<lambda>q. do {
     modify (\<lambda>s. s\<lparr>rs_ptrs := (rs_ptrs s)(q \<mapsto> \<lparr>x_addr = NULL, x_tag = tag, x_fin = None\<rparr>)\<rparr>);
     k q
   })"

definition update_ptr :: "ptr \<Rightarrow> (extptr \<Rightarrow> extptr) \<Rightarrow> ('b, 'o, unit) rc" where
  "update_ptr q f = modify (\<lambda>s. s\<lparr>rs_ptrs := (rs_ptrs s)(q := map_option f (rs_ptrs s q))\<rparr>)"

text \<open>Registering a finalizer allocates the weak reference that holds it.\<close>

definition R_RegisterCFinalizerEx ::
  "ptr \<Rightarrow> finalizer \<Rightarrow> ('b, 'o, 'a outcome) rc \<Rightarrow> ('b, 'o, 'a outcome) rc" where
  "R_RegisterCFinalizerEx q fin k = r_alloc (\<lambda>_. do {
     update_ptr q (\<lambda>x. x\<lparr>x_fin := Some fin\<rparr>);
     k
   })"

definition R_ExternalPtrAddr :: "ptr \<Rightarrow> ('b, 'o, ptr) rc" where
  "R_ExternalPtrAddr q = gets (\<lambda>s. case rs_ptrs s q of None \<Rightarrow> NULL | Some x \<Rightarrow> x_addr x)"

definition R_ExternalPtrTag :: "ptr \<Rightarrow> ('b, 'o, sexp) rc" where
  "R_ExternalPtrTag q = gets (\<lambda>s. case rs_ptrs s q of None \<Rightarrow> R_NilValue | Some x \<Rightarrow> x_tag x)"

definition R_SetExternalPtrAddr :: "ptr \<Rightarrow> ptr \<Rightarrow> ('b, 'o, unit) rc" where
  "R_SetExternalPtrAddr q p = update_ptr q (\<lambda>x. x\<lparr>x_addr := p\<rparr>)"

definition R_ClearExternalPtr :: "ptr \<Rightarrow> ('b, 'o, unit) rc" where
  "R_ClearExternalPtr q = update_ptr q (\<lambda>x. x\<lparr>x_addr := NULL\<rparr>)"

section \<open>Context ownership: zucrypt\_crypt.c\<close>

text \<open>The finalizers free the context that is still there, then clear the pointer.\<close>

definition finalize :: "(ptr \<Rightarrow> ('b, 'o, unit) zuc) \<Rightarrow> ptr \<Rightarrow> ('b, 'o, unit) rc" where
  "finalize freefn ptr = do {
     h \<leftarrow> R_ExternalPtrAddr ptr;
     if h \<noteq> NULL then do { native (freefn h); R_ClearExternalPtr ptr } else ret ()
   }"

definition hash_finalizer :: "('b, 'o) psa \<Rightarrow> ptr \<Rightarrow> ('b, 'o, unit) rc" where
  "hash_finalizer P = finalize (zuc_hash_free P)"

definition hmac_finalizer :: "('b, 'o) psa \<Rightarrow> ptr \<Rightarrow> ('b, 'o, unit) rc" where
  "hmac_finalizer P = finalize (zuc_hmac_free P)"

definition aes_finalizer :: "('b, 'o) psa \<Rightarrow> ptr \<Rightarrow> ('b, 'o, unit) rc" where
  "aes_finalizer P = finalize (zuc_aes_free P)"

text \<open>
  What R does with an external pointer that has become garbage: it runs the finalizer that was registered for
  it, if one was. \<open>cfun\<close> is the C function behind each.
\<close>

definition run_finalizer :: "(finalizer \<Rightarrow> ptr \<Rightarrow> ('b, 'o, unit) rc) \<Rightarrow> ptr \<Rightarrow> ('b, 'o, unit) rc" where
  "run_finalizer cfun q = do {
     f \<leftarrow> gets (\<lambda>s. Option.bind (rs_ptrs s q) x_fin);
     case f of None \<Rightarrow> ret () | Some f \<Rightarrow> cfun f q
   }"

text \<open>The eager release clears the pointer first.\<close>

definition release_ptr :: "ptr \<Rightarrow> (ptr \<Rightarrow> ('b, 'o, unit) zuc) \<Rightarrow> ('b, 'o, unit) rc" where
  "release_ptr ptr freefn = do {
     p \<leftarrow> R_ExternalPtrAddr ptr;
     if p \<noteq> NULL then do { R_ClearExternalPtr ptr; native (freefn p) } else ret ()
   }"

text \<open>
  \<^verbatim>\<open>list(status = , value = )\<close>. Its allocations have no effect in between, so they succeed or fail
  as one.
\<close>

definition result :: "zuc_status \<Rightarrow> sexp \<Rightarrow> ('b, 'o, sexp outcome) rc" where
  "result status v =
    r_alloc (\<lambda>_. ret (Returned (VECSXP [(''status'', INTSXP [zuc_status_code status]), (''value'', v)])))"

section \<open>The chunk loop\<close>

abbreviation ZUCRYPT_CHUNK :: size_t where
  "ZUCRYPT_CHUNK \<equiv> 1024 * 1024"

lemma chunk_decreases:
  fixes offset total_len :: size_t
  assumes "offset < total_len"
  defines "n \<equiv> (if total_len - offset > ZUCRYPT_CHUNK then ZUCRYPT_CHUNK else total_len - offset)"
  shows "unat (total_len - (offset + n)) < unat (total_len - offset)"
    and "n \<le> total_len - offset" and "0 < n"
proof -
  have d: "0 < total_len - offset" using assms(1) by (simp add: word_gt_0)
  then show n: "n \<le> total_len - offset" and n0: "0 < n"
    by (auto simp: n_def)
  have "unat (total_len - offset - n) = unat (total_len - offset) - unat n"
    using n by (simp add: unat_sub)
  moreover have "0 < unat n" "0 < unat (total_len - offset)"
    using n0 d by (simp_all add: word_gt_0 unat_gt_0)
  ultimately show "unat (total_len - (offset + n)) < unat (total_len - offset)"
    by (simp add: diff_diff_add)
qed

text \<open>
  The loop the one-shot functions share: \<open>body offset n\<close> handles the next \<open>n\<close> bytes and \<open>k\<close> is what
  follows the loop. A body that does not return has no status.
\<close>

function chunks ::
  "(size_t \<Rightarrow> size_t \<Rightarrow> ('b, 'o, zuc_status option) zuc) \<Rightarrow> size_t \<Rightarrow>
   (zuc_status \<Rightarrow> ('b, 'o, 'a outcome) rc) \<Rightarrow> size_t \<Rightarrow> zuc_status \<Rightarrow> ('b, 'o, 'a outcome) rc" where
  "chunks body total_len k offset st =
    (if offset < total_len \<and> st = ZUC_OK then do {
       let n = (if total_len - offset > ZUCRYPT_CHUNK then ZUCRYPT_CHUNK else total_len - offset);
       r \<leftarrow> native (body offset n);
       case r of
         None \<Rightarrow> ret No_return
       | Some st \<Rightarrow> R_CheckUserInterrupt (chunks body total_len k (offset + n) st)
     }
     else k st)"
  by pat_completeness auto

termination
  by (relation "measure (\<lambda>(body, total_len, k, offset, st). unat (total_len - offset))")
    (use chunk_decreases(1) in \<open>auto split: if_splits\<close>)

declare chunks.simps [simp del]

definition returns :: "('b, 'o, 'a) zuc \<Rightarrow> ('b, 'o, 'a option) zuc" where
  "returns m = do { r \<leftarrow> m; ret (Some r) }"

section \<open>Rules for running a session\<close>

lemma run_native [run_simps]:
  "run_state (native m) s = (case run_state m (rs_world s) of (r, w) \<Rightarrow> (r, s\<lparr>rs_world := w\<rparr>))"
  by (simp add: native_def)

lemma run_r_alloc [run_simps]:
  "run_state (r_alloc k) s =
    (case rs_allocs s of [] \<Rightarrow> (Longjmp, s)
     | p # ps \<Rightarrow> if p = NULL then (Longjmp, s\<lparr>rs_allocs := ps\<rparr>) else run_state (k p) (s\<lparr>rs_allocs := ps\<rparr>))"
  by (simp add: r_alloc_def split: list.splits)

text \<open>An assertion that looks neither at the allocator nor at the pending interrupts.\<close>

definition stable :: "(('b, 'o) session \<Rightarrow> bool) \<Rightarrow> bool" where
  "stable I \<longleftrightarrow> (\<forall>s ps bs. I (s\<lparr>rs_allocs := ps\<rparr>) = I s \<and> I (s\<lparr>rs_interrupts := bs\<rparr>) = I s)"

lemma valid_r_alloc:
  assumes "stable I" "\<And>p. p \<noteq> NULL \<Longrightarrow> valid I (k p) Q" "\<And>s. I s \<Longrightarrow> Q Longjmp s"
  shows "valid I (r_alloc k) Q"
  using assms by (fastforce simp: valid_def run_r_alloc stable_def split: list.splits)

lemma valid_allocRaw:
  assumes "stable I" "\<And>p. p \<noteq> NULL \<Longrightarrow> valid I (k (RAWSXP p n)) Q" "\<And>s. I s \<Longrightarrow> Q Longjmp s"
  shows "valid I (allocRaw n k) Q"
  unfolding allocRaw_def using assms by (rule valid_r_alloc)

lemma valid_interrupt:
  assumes "stable I" "valid I k Q" "\<And>s. I s \<Longrightarrow> Q Longjmp s"
  shows "valid I (R_CheckUserInterrupt k) Q"
  using assms by (fastforce simp: valid_def R_CheckUserInterrupt_def stable_def split: list.splits)

lemma valid_chunks:
  assumes st: "stable I" and k: "\<And>st. valid I (k st) Q" and l: "\<And>s. I s \<Longrightarrow> Q Longjmp s"
    and b: "\<And>off n. valid I (native (body off n)) (\<lambda>r s. I s \<and> r \<noteq> None)"
  shows "valid I (chunks body total_len k offset st) Q"
proof (induction body total_len k offset st rule: chunks.induct [of "\<lambda>body' total_len k' offset st.
    body' = body \<longrightarrow> k' = k \<longrightarrow> valid I (chunks body' total_len k' offset st) Q", rule_format])
  case (1 body' total_len k' offset st)
  show ?case
  proof (cases "offset < total_len \<and> st = ZUC_OK")
    case True
    let ?n = "if total_len - offset > ZUCRYPT_CHUNK then ZUCRYPT_CHUNK else total_len - offset"
    have ih: "valid I (chunks body' total_len k' (offset + ?n) st') Q" for st'
      using 1 True by blast
    let ?next = "case_option (ret No_return)
      (\<lambda>st. R_CheckUserInterrupt (chunks body' total_len k' (offset + ?n) st))"
    have "valid (\<lambda>s. I s \<and> r \<noteq> None) (?next r) Q" for r
      using valid_interrupt [OF st ih l] by (cases r) (auto simp: valid_def)
    moreover have "chunks body' total_len k' offset st = State_Monad.bind (native (body' offset ?n)) ?next"
      using True by (subst chunks.simps) (simp only: Let_def if_True simp_thms)
    ultimately show ?thesis
      using 1(2) b valid_bind by metis
  next
    case False
    then have "chunks body' total_len k' offset st = k' st"
      by (subst chunks.simps) (simp only: if_False)
    then show ?thesis using 1(3) k by simp
  qed
qed simp_all

definition chunk_size :: "size_t \<Rightarrow> size_t" where
  "chunk_size rest = (if rest > ZUCRYPT_CHUNK then ZUCRYPT_CHUNK else rest)"

lemma run_chunks_done:
  "\<not> (offset < total_len \<and> st = ZUC_OK) \<Longrightarrow> chunks body total_len k offset st = k st"
  by (subst chunks.simps) (simp only: if_False)

lemma run_chunks_step:
  assumes "offset < total_len"
  shows "run_state (chunks body total_len k offset ZUC_OK) s =
    (case run_state (body offset (chunk_size (total_len - offset))) (rs_world s) of
       (None, w) \<Rightarrow> (No_return, s\<lparr>rs_world := w\<rparr>)
     | (Some st, w) \<Rightarrow>
         run_state (R_CheckUserInterrupt (chunks body total_len k (offset + chunk_size (total_len - offset)) st))
           (s\<lparr>rs_world := w\<rparr>))"
proof -
  have "chunks body total_len k offset ZUC_OK =
    State_Monad.bind (native (body offset (chunk_size (total_len - offset))))
      (case_option (ret No_return) (\<lambda>st. R_CheckUserInterrupt
         (chunks body total_len k (offset + chunk_size (total_len - offset)) st)))"
    using assms by (subst chunks.simps) (simp only: Let_def if_True simp_thms chunk_size_def)
  then show ?thesis
    by (auto simp: run_native split: prod.splits option.splits)
qed

lemma chunk_size_bounds:
  assumes "offset < total_len"
  shows "unat (total_len - (offset + chunk_size (total_len - offset))) < unat (total_len - offset)"
    and "chunk_size (total_len - offset) \<le> total_len - offset"
    and "unat (chunk_size (total_len - offset)) \<le> 2 ^ 20"
    and "offset \<le> offset + chunk_size (total_len - offset)"
    and "offset + chunk_size (total_len - offset) \<le> total_len"
proof -
  let ?n = "chunk_size (total_len - offset)"
  show "unat (total_len - (offset + ?n)) < unat (total_len - offset)" and n: "?n \<le> total_len - offset"
    using chunk_decreases(1,2) [OF assms] by (simp_all add: chunk_size_def)
  show "unat ?n \<le> 2 ^ 20"
    by (auto simp: chunk_size_def word_less_nat_alt not_less)
  show "offset \<le> offset + ?n" "offset + ?n \<le> total_len"
    using n assms by uint_arith+
qed

lemma run_interrupt_returned:
  assumes "run_state (R_CheckUserInterrupt k) s = (Returned v, s')"
  obtains bs where "run_state k (s\<lparr>rs_interrupts := bs\<rparr>) = (Returned v, s')"
proof (cases "rs_interrupts s")
  case Nil
  then have "run_state k (s\<lparr>rs_interrupts := []\<rparr>) = (Returned v, s')"
    using assms by (simp add: R_CheckUserInterrupt_def) (metis session.surjective session.update_convs(4))
  then show ?thesis by (rule that)
next
  case (Cons b bs)
  then show ?thesis
    using assms that [of bs] by (cases b) (auto simp: R_CheckUserInterrupt_def)
qed

lemma run_r_alloc_returned:
  assumes "run_state (r_alloc k) s = (Returned v, s')"
  obtains p ps where "rs_allocs s = p # ps" "p \<noteq> NULL" "run_state (k p) (s\<lparr>rs_allocs := ps\<rparr>) = (Returned v, s')"
  using assms by (auto simp: run_r_alloc split: list.splits if_splits)

lemma run_result_returned:
  assumes "run_state (result st x) s = (Returned v, s')"
  shows "v = VECSXP [(''status'', INTSXP [zuc_status_code st]), (''value'', x)] \<and> rs_world s' = rs_world s \<and>
    rs_ptrs s' = rs_ptrs s"
  using assms by (auto simp: result_def run_r_alloc split: list.splits if_splits)

lemma zuc_status_code_0 [simp]: "zuc_status_code st = 0 \<longleftrightarrow> st = ZUC_OK"
  by (cases st) simp_all

lemma run_interrupt_quiet:
  "list_all Not (rs_interrupts s) \<Longrightarrow>
   run_state (R_CheckUserInterrupt k) s = run_state k (s\<lparr>rs_interrupts := tl (rs_interrupts s)\<rparr>)"
  by (cases s; cases "rs_interrupts s") (auto simp: R_CheckUserInterrupt_def)

end
