(* ===== verification/Ownership.thy ===== *)
theory Ownership
  imports R_Session
begin

text \<open>
  Who owns a context. \<open>creates\<close>, \<open>operates\<close> and the locale \<open>owned_context\<close> state what a constructor,
  an operation and a destructor of a context type do to the heap of such contexts, to the count of
  live contexts and to the undefined-behaviour flag. The locale's lemmas say what the R entry
  points make of it: between the creation of a context and its release an external pointer owns
  it, so that a jump out of the C code at any point strands nothing, and the finalizer never frees
  twice. It is interpreted for the digest, HMAC and AES contexts.
\<close>

section \<open>Contracts\<close>

type_synonym ('b, 'o, 'h) heap = "('b, 'o) world \<Rightarrow> ptr \<rightharpoonup> 'h"

text \<open>The allocator does not answer with an address that is in use.\<close>

definition fresh_for :: "('b, 'o, 'h) heap \<Rightarrow> ('b, 'o) world \<Rightarrow> bool" where
  "fresh_for heap w \<longleftrightarrow> (\<forall>p \<in> set (w_allocs w). heap w p = None)"

definition creates :: "('b, 'o, 'h) heap \<Rightarrow> (ptr \<Rightarrow> ('b, 'o, zuc_status) zuc) \<Rightarrow> bool" where
  "creates heap new \<longleftrightarrow>
    (\<forall>w st h w'. fresh_for heap w \<longrightarrow> run_state (with_out new) w = ((st, h), w') \<longrightarrow>
      w_ub w' = w_ub w \<and>
      (if st = ZUC_OK
       then h \<noteq> NULL \<and> heap w h = None \<and> (\<exists>x. heap w' = (heap w)(h \<mapsto> x)) \<and> w_live w' = w_live w + 1
       else h = NULL \<and> heap w' = heap w \<and> w_live w' = w_live w))"

definition operates :: "('b, 'o, 'h) heap \<Rightarrow> ptr \<Rightarrow> ('b, 'o, 'a) zuc \<Rightarrow> bool" where
  "operates heap p m \<longleftrightarrow>
    (\<forall>w x r w'. heap w p = Some x \<longrightarrow> run_state m w = (r, w') \<longrightarrow>
      (\<exists>y. heap w' = (heap w)(p \<mapsto> y)) \<and> w_live w' = w_live w \<and> w_ub w' = w_ub w)"

text \<open>
  What was there before the call, \<open>w0\<close>, is there now, plus the context that the pointer \<open>q\<close> owns if
  it is not cleared. A pointer that owns a context has the finalizer \<open>f\<close>.
\<close>

definition owns ::
  "('b, 'o, 'h) heap \<Rightarrow> finalizer \<Rightarrow> ('b, 'o) world \<Rightarrow> ptr \<Rightarrow> ptr \<Rightarrow> ('b, 'o) session \<Rightarrow> bool" where
  "owns heap f w0 q h s \<longleftrightarrow>
    (\<exists>x. rs_ptrs s q = Some x \<and> x_addr x = h \<and> (x_fin x = Some f \<or> h = NULL \<and> x_fin x = None)) \<and> w_ub (rs_world s) = w_ub w0 \<and>
    (if h = NULL then heap (rs_world s) = heap w0 \<and> w_live (rs_world s) = w_live w0
     else heap w0 h = None \<and> (\<exists>x. heap (rs_world s) = (heap w0)(h \<mapsto> x)) \<and>
          w_live (rs_world s) = w_live w0 + 1)"

definition settled ::
  "('b, 'o, 'h) heap \<Rightarrow> finalizer \<Rightarrow> ('b, 'o) world \<Rightarrow> ptr \<Rightarrow> 'a outcome \<Rightarrow> ('b, 'o) session \<Rightarrow> bool" where
  "settled heap f w0 q r s \<longleftrightarrow>
    (case r of Returned v \<Rightarrow> owns heap f w0 q NULL s | _ \<Rightarrow> (\<exists>h. owns heap f w0 q h s))"

text \<open>
  Nothing of a call outlives it: once R has run the finalizer that the call registered for the pointer
  it made, the contexts, their count and the flag are as before the call; and after a normal return the
  finalizer finds nothing to do. A call whose first allocation fails has not touched the world.
\<close>

definition leaves_nothing ::
  "('b, 'o, 'h) heap \<Rightarrow> (finalizer \<Rightarrow> ptr \<Rightarrow> ('b, 'o, unit) rc) \<Rightarrow> ('b, 'o, 'a outcome) rc \<Rightarrow> ('b, 'o) session \<Rightarrow>
   bool" where
  "leaves_nothing heap cfun call s \<longleftrightarrow>
    (case run_state call s of (r, s') \<Rightarrow>
      if rs_allocs s = [] \<or> hd (rs_allocs s) = NULL then r = Longjmp \<and> rs_world s' = rs_world s
      else
        let w = rs_world s; w' = rs_world (snd (run_state (run_finalizer cfun (hd (rs_allocs s))) s'))
        in heap w' = heap w \<and> w_live w' = w_live w \<and> w_ub w' = w_ub w \<and>
           (\<forall>v. r = Returned v \<longrightarrow> w' = rs_world s'))"

section \<open>The owner of a context\<close>

locale owned_context =
  fixes heap :: "('b, 'o, 'h) heap"
    and freefn :: "ptr \<Rightarrow> ('b, 'o, unit) zuc"
    and fz :: finalizer
  assumes free_removes: "heap w p = Some x \<Longrightarrow> p \<noteq> NULL \<Longrightarrow> run_state (freefn p) w = ((), w') \<Longrightarrow>
      heap w' = (heap w)(p := None) \<and> w_live w' = w_live w - 1 \<and> w_ub w' = w_ub w"
begin

lemma stable_owns: "stable (owns heap fz w0 q h)"
  by (simp add: stable_def owns_def)

lemma owns_settled: "owns heap fz w0 q h s \<Longrightarrow> settled heap fz w0 q Longjmp s"
  by (auto simp: settled_def)

lemma release_owned:
  "valid (owns heap fz w0 q h) (release_ptr q freefn) (\<lambda>_. owns heap fz w0 q NULL)"
proof (rule validI)
  fix s s' and r :: unit
  assume o: "owns heap fz w0 q h s" and run: "run_state (release_ptr q freefn) s = (r, s')"
  obtain x where x: "rs_ptrs s q = Some x" "x_addr x = h"
    using o by (auto simp: owns_def)
  show "owns heap fz w0 q NULL s'"
  proof (cases "h = NULL")
    case True
    then show ?thesis
      using o run x by (simp add: release_ptr_def R_ExternalPtrAddr_def)
  next
    case False
    obtain w' where w': "run_state (freefn h) (rs_world s) = ((), w')"
      by (metis old.unit.exhaust surj_pair)
    have s': "s' = s\<lparr>rs_ptrs := (rs_ptrs s)(q \<mapsto> x\<lparr>x_addr := NULL\<rparr>), rs_world := w'\<rparr>"
      using run x False w'
      by (simp add: release_ptr_def R_ExternalPtrAddr_def R_ClearExternalPtr_def update_ptr_def run_native)
    show ?thesis
      using free_removes [OF _ False w'] o False x by (auto simp: owns_def s')
  qed
qed

lemma finalize_owned:
  assumes o: "owns heap fz w0 q h s" and c: "cfun fz = finalize freefn"
    and run: "run_state (run_finalizer cfun q) s = (r, s')"
  shows "heap (rs_world s') = heap w0 \<and> w_live (rs_world s') = w_live w0 \<and> w_ub (rs_world s') = w_ub w0 \<and>
    (h = NULL \<longrightarrow> s' = s)"
proof -
  obtain x where x: "rs_ptrs s q = Some x" "x_addr x = h" "x_fin x = Some fz \<or> h = NULL \<and> x_fin x = None"
    using o by (auto simp: owns_def)
  obtain w' where w': "run_state (freefn h) (rs_world s) = ((), w')"
    by (metis old.unit.exhaust surj_pair)
  show ?thesis
    using run x o free_removes [OF _ _ w']
    by (cases "h = NULL")
      (auto simp: run_finalizer_def c finalize_def R_ExternalPtrAddr_def R_ClearExternalPtr_def update_ptr_def run_native w' owns_def)
qed

lemma result_settled: "valid (owns heap fz w0 q NULL) (result st v) (settled heap fz w0 q)"
  unfolding result_def
  by (rule valid_r_alloc [OF stable_owns]) (auto simp: settled_def valid_def)

lemma operates_owned:
  assumes "operates heap h m" "h \<noteq> NULL"
  shows "valid (owns heap fz w0 q h) (native m) (\<lambda>_. owns heap fz w0 q h)"
proof (rule validI)
  fix s s' r
  assume o: "owns heap fz w0 q h s" and run: "run_state (native m) s = (r, s')"
  obtain w' where w': "run_state m (rs_world s) = (r, w')" "s' = s\<lparr>rs_world := w'\<rparr>"
    using run by (auto simp: run_native split: prod.splits)
  obtain x where "heap (rs_world s) = (heap w0)(h \<mapsto> x)"
    using o assms(2) by (auto simp: owns_def)
  then obtain y where "heap w' = (heap w0)(h \<mapsto> y)" "w_live w' = w_live (rs_world s)"
      "w_ub w' = w_ub (rs_world s)"
    using assms(1) [unfolded operates_def, rule_format, of "rs_world s" x r w'] w'(1) by auto
  then show "owns heap fz w0 q h s'"
    using o w'(2) assms(2) by (auto simp: owns_def)
qed

lemma chunks_owned:
  assumes "\<And>off n. operates heap h (body off n)" "h \<noteq> NULL"
    and "\<And>st. valid (owns heap fz w0 q h) (k st) (settled heap fz w0 q)"
  shows "valid (owns heap fz w0 q h) (chunks (\<lambda>off n. returns (body off n)) len k off st) (settled heap fz w0 q)"
proof (rule valid_chunks [OF stable_owns assms(3) owns_settled])
  fix off n
  have "operates heap h (returns (body off n))"
    using assms(1) [of off n] by (fastforce simp: operates_def returns_def split: prod.splits)
  from operates_owned [OF this assms(2), of w0 q]
  show "valid (owns heap fz w0 q h) (native (returns (body off n))) (\<lambda>r s. owns heap fz w0 q h s \<and> r \<noteq> None)"
    by (auto simp: valid_def native_def returns_def split: prod.splits)
qed

lemma release_result:
  "valid (owns heap fz w0 q h) (do { release_ptr q freefn; result st v }) (settled heap fz w0 q)"
  by (rule valid_bind [OF release_owned result_settled])

lemma finish_settled:
  assumes "\<And>out. operates heap h (fin out)" "h \<noteq> NULL"
  shows "valid (owns heap fz w0 q h) (allocRaw want (\<lambda>out. do {
      (st, got) \<leftarrow> native (fin out);
      release_ptr q freefn;
      let st = f st got;
      result st (g st out) })) (settled heap fz w0 q)"
proof (rule valid_allocRaw [OF stable_owns])
  fix p :: ptr
  show "valid (owns heap fz w0 q h) (do {
      (st, got) \<leftarrow> native (fin (RAWSXP p want));
      release_ptr q freefn;
      let st = f st got;
      result st (g st (RAWSXP p want)) }) (settled heap fz w0 q)"
    by (rule valid_bind [OF operates_owned [OF assms]])
      (simp add: release_result Let_def split: prod.split)
qed (rule owns_settled)

text \<open>The common frame of the entry points: owner, finalizer, context, the rest.\<close>

lemma call_leaves_nothing:
  assumes new: "creates heap new" and fresh: "fresh_for heap (rs_world s)"
    and rest: "\<And>w0 q st h. h \<noteq> NULL \<Longrightarrow> valid (owns heap fz w0 q h) (rest st q h) (settled heap fz w0 q)"
    and c: "cfun fz = finalize freefn"
  shows "leaves_nothing heap cfun
    (R_MakeExternalPtr tag (\<lambda>q. R_RegisterCFinalizerEx q fz (do {
       (st, h) \<leftarrow> native (with_out new);
       if st \<noteq> ZUC_OK then result st R_NilValue
       else do { R_SetExternalPtrAddr q h; rest st q h } }))) s"
proof (cases "rs_allocs s = [] \<or> hd (rs_allocs s) = NULL")
  case True
  then show ?thesis
    by (cases "rs_allocs s") (auto simp: leaves_nothing_def R_MakeExternalPtr_def run_r_alloc)
next
  case False
  then obtain q ps where q: "rs_allocs s = q # ps" "q \<noteq> NULL" by (cases "rs_allocs s") auto
  let ?w0 = "rs_world s"
  let ?I = "\<lambda>s. owns heap fz ?w0 q NULL s \<and> rs_world s = ?w0"
  let ?J = "\<lambda>s. ?I s \<and> map_option x_fin (rs_ptrs s q) = Some (Some fz)"
  let ?K = "\<lambda>(st, h) s. if st \<noteq> ZUC_OK then owns heap fz ?w0 q NULL s
      else h \<noteq> NULL \<and> owns heap fz ?w0 q h (snd (run_state (R_SetExternalPtrAddr q h) s))"
  let ?next = "\<lambda>(st, h). if st \<noteq> ZUC_OK then result st R_NilValue
      else do { R_SetExternalPtrAddr q h; rest st q h }"
  let ?body = "State_Monad.bind (native (with_out new)) ?next"
  have create: "valid ?J (native (with_out new)) ?K"
  proof (rule validI)
    fix s1 s2 rh
    assume J: "?J s1" and run: "run_state (native (with_out new)) s1 = (rh, s2)"
    obtain st h w' where w': "run_state (with_out new) ?w0 = ((st, h), w')" "rh = (st, h)"
        "s2 = s1\<lparr>rs_world := w'\<rparr>"
      using J run by (cases rh) (auto simp: run_native split: prod.splits)
    note c = new [unfolded creates_def, rule_format, OF fresh w'(1)]
    show "?K rh s2"
      using c J w' by (cases "st = ZUC_OK")
        (auto simp: owns_def R_SetExternalPtrAddr_def update_ptr_def)
  qed
  have use_it: "valid (?K (st, h)) (?next (st, h)) (settled heap fz ?w0 q)" for st h
  proof (cases "st = ZUC_OK")
    case True
    have "valid (\<lambda>s. owns heap fz ?w0 q h (snd (run_state (R_SetExternalPtrAddr q h) s)))
        (R_SetExternalPtrAddr q h) (\<lambda>_. owns heap fz ?w0 q h)"
      by (auto simp: valid_def split: prod.splits)
    from valid_bind [OF this rest] True show ?thesis
      by (cases "h = NULL") (simp_all add: valid_def)
  qed (simp add: result_settled)
  have body: "valid ?J ?body (settled heap fz ?w0 q)"
  proof (rule valid_bind [OF create])
    show "valid (?K rh) (?next rh) (settled heap fz ?w0 q)" for rh
      using use_it [of "fst rh" "snd rh"] by simp
  qed
  have reg: "valid ?I (R_RegisterCFinalizerEx q fz ?body) (settled heap fz ?w0 q)"
    unfolding R_RegisterCFinalizerEx_def
  proof (rule valid_r_alloc)
    show "stable ?I" by (simp add: stable_def owns_def)
    show "valid ?I (do { update_ptr q (\<lambda>x. x\<lparr>x_fin := Some fz\<rparr>); ?body }) (settled heap fz ?w0 q)" for p :: ptr
      by (rule valid_bind [OF _ body]) (auto simp: valid_def update_ptr_def owns_def)
  qed (auto intro: owns_settled)
  obtain r s' where run: "run_state (R_MakeExternalPtr tag (\<lambda>q. R_RegisterCFinalizerEx q fz (do {
       (st, h) \<leftarrow> native (with_out new);
       if st \<noteq> ZUC_OK then result st R_NilValue
       else do { R_SetExternalPtrAddr q h; rest st q h } }))) s = (r, s')" by force
  let ?s1 = "s\<lparr>rs_allocs := ps, rs_ptrs := (rs_ptrs s)(q \<mapsto> \<lparr>x_addr = NULL, x_tag = tag, x_fin = None\<rparr>)\<rparr>"
  have "run_state (R_RegisterCFinalizerEx q fz ?body) ?s1 = (r, s')"
    using run q by (simp add: R_MakeExternalPtr_def run_r_alloc)
  from validD [OF reg _ this] have "settled heap fz ?w0 q r s'"
    by (simp add: owns_def)
  then obtain h where h: "owns heap fz ?w0 q h s'" "\<forall>v. r = Returned v \<longrightarrow> h = NULL"
    by (auto simp: settled_def split: outcome.splits)
  obtain u s'' where fin: "run_state (run_finalizer cfun q) s' = (u, s'')"
    by (metis surj_pair)
  show ?thesis
    using finalize_owned [OF h(1) c fin] h(2) q run fin by (auto simp: leaves_nothing_def)
qed

end

section \<open>The contexts of the adapter\<close>

lemmas hash_runs = zuc_hash_new_def zuc_hash_update_def zuc_hash_finish_def zuc_hash_free_def calloc_hash_def

lemmas hmac_runs = zuc_hmac_new_def zuc_hmac_update_def zuc_hmac_finish_def zuc_hmac_free_def calloc_hmac_def

interpretation hash_ctx: owned_context w_hashes "zuc_hash_free P" Fin_hash for P
  by unfold_locales (auto simp: zuc_hash_free_def deref_hash_def run_psa_do free_struct_hash_def)

interpretation hmac_ctx: owned_context w_hmacs "zuc_hmac_free P" Fin_hmac for P
  by unfold_locales (auto simp: zuc_hmac_free_def deref_hmac_def run_psa_do free_struct_hmac_def psa_destroy_key_def)

interpretation aes_ctx: owned_context w_aess "zuc_aes_free P" Fin_aes for P
  by unfold_locales (auto simp: zuc_aes_free_def deref_aes_def run_psa_do free_struct_aes_def psa_destroy_key_def)

lemma map_upd_same: "m p = Some x \<Longrightarrow> \<exists>y. m = m(p \<mapsto> y)" "\<exists>y. m(p \<mapsto> x) = m(p \<mapsto> y)"
  by (metis map_upd_triv, blast)

lemma hash_operates:
  "operates w_hashes h (zuc_hash_update P h data len)"
  "operates w_hashes h (zuc_hash_finish P h out n out_len)"
  by (auto simp: operates_def hash_runs deref_hash_def run_psa_do set_hash_def intro: map_upd_same
      split: if_splits)

lemma hmac_operates:
  "operates w_hmacs h (zuc_hmac_update P h data len)"
  "operates w_hmacs h (zuc_hmac_finish P h out n out_len)"
  by (auto simp: operates_def hmac_runs deref_hmac_def run_psa_do set_hmac_def intro: map_upd_same
      split: if_splits)

lemma hash_creates: "creates w_hashes (zuc_hash_new P alg)"
  by (auto simp: creates_def fresh_for_def with_out_def hash_runs run_c_alloc run_psa_do set_hash_def
      free_struct_hash_def Let_def split: if_splits list.splits)

lemma keeps_import_hmac_key [keeps_intros]:
  assumes "\<And>w b x. f (w\<lparr>w_psa := b, w_alloc_failed := x\<rparr>) = f w"
  shows "keeps f (import_hmac_key P alg key key_len palg)"
  unfolding import_hmac_key_def by (intro keeps_intros assms)

lemma import_hmac_key_frame:
  assumes "run_state (import_hmac_key P alg key key_len palg) w = (r, w')"
  shows "w_hmacs w' = w_hmacs w \<and> w_live w' = w_live w \<and> w_ub w' = w_ub w \<and> w_cells w' = w_cells w"
  using keepsD [OF keeps_import_hmac_key assms, of "\<lambda>w. (w_hmacs w, w_live w, w_ub w, w_cells w)"] by simp

lemma hmac_creates: "creates w_hmacs (zuc_hmac_new P alg key key_len)"
  unfolding creates_def
proof (intro allI impI)
  fix w w' st h
  assume fresh: "fresh_for w_hmacs w"
    and run: "run_state (with_out (zuc_hmac_new P alg key key_len)) w = ((st, h), w')"
  show "w_ub w' = w_ub w \<and>
    (if st = ZUC_OK
     then h \<noteq> NULL \<and> w_hmacs w h = None \<and> (\<exists>x. w_hmacs w' = (w_hmacs w)(h \<mapsto> x)) \<and> w_live w' = w_live w + 1
     else h = NULL \<and> w_hmacs w' = w_hmacs w \<and> w_live w' = w_live w)"
  proof (cases "w_refcount w = 0 \<or> (key = NULL \<and> key_len \<noteq> 0) \<or> \<not> zuc_int_digest_available alg \<or>
      w_allocs w = [] \<or> hd (w_allocs w) = NULL")
    case True
    then show ?thesis
      using run by (cases "w_allocs w")
        (auto simp: with_out_def hmac_runs run_c_alloc word_gt_0 split: if_splits)
  next
    case False
    then obtain p ps where p: "w_allocs w = p # ps" "p \<noteq> NULL" by (cases "w_allocs w") auto
    let ?w1 = "w\<lparr>w_cells := (w_cells w)(LOCAL := NULL), w_allocs := ps, w_hmacs := (w_hmacs w)(p \<mapsto> zero_hmac)\<rparr>"
    let ?imp = "import_hmac_key P alg key key_len (PSA_ALG_HMAC (zuc_int_psa_hash alg))"
    obtain st1 k w1 where imp: "run_state ?imp ?w1 = ((st1, k), w1)" by (metis surj_pair)
    have "w_hmacs w p = None" using fresh p by (simp add: fresh_for_def)
    then show ?thesis
      using run False p imp import_hmac_key_frame [OF imp]
      by (auto simp: with_out_def hmac_runs run_c_alloc run_psa_do set_hmac_def free_struct_hmac_def
          psa_destroy_key_def Let_def word_gt_0 split: if_splits)
  qed
qed

lemma aes_creates: "creates w_aess (zuc_aes_new P key key_len)"
  by (auto simp: creates_def fresh_for_def with_out_def zuc_aes_new_def calloc_aes_def run_c_alloc run_psa_do
      set_aes_def free_struct_aes_def psa_import_key_def import_aes_key_def Let_def
      split: if_splits list.splits prod.splits)

lemma aes_set_operates: "operates w_aess h (zuc_aes_cbc_set_state h iv)"
  by (auto simp: operates_def zuc_aes_cbc_set_state_def deref_aes_def set_aes_def intro: map_upd_same)

lemma cipher_run_heap:
  assumes "\<And>w g. f (w\<lparr>w_mem := g\<rparr>) = f w" "\<And>w b x. f (w\<lparr>w_psa := b, w_alloc_failed := x\<rparr>) = f w"
  shows "keeps f (cipher_run P key e iv inp len out)"
  unfolding cipher_run_def cipher_abort_def by (intro keeps_intros assms)

lemma cipher_run_frame:
  assumes "run_state (cipher_run P key e iv inp len out) w = (r, w')"
  shows "w_aess w' = w_aess w \<and> w_live w' = w_live w \<and> w_ub w' = w_ub w"
  using keepsD [OF cipher_run_heap assms, of "\<lambda>w. (w_aess w, w_live w, w_ub w)"] by simp

lemma aes_cbc_operates:
  "operates w_aess h (zuc_aes_cbc_encrypt P h inp len out)"
  "operates w_aess h (zuc_aes_cbc_decrypt P h inp len out)"
  by (auto simp: operates_def zuc_aes_cbc_encrypt_def zuc_aes_cbc_decrypt_def check_block_args_def deref_aes_def
      set_aes_def intro: map_upd_same dest!: cipher_run_frame split: if_splits prod.splits)

lemma operates_with_len:
  assumes "operates heap h (f LOCAL)" "\<And>w g. heap (w\<lparr>w_sizes := g\<rparr>) = heap w"
  shows "operates heap h (with_len f)"
  unfolding operates_def
proof (intro allI impI)
  fix w x r w'
  assume "heap w h = Some x" and run: "run_state (with_len f) w = (r, w')"
  then obtain st where "run_state (f LOCAL) (w\<lparr>w_sizes := (w_sizes w)(LOCAL := 0)\<rparr>) = (st, w')"
    by (auto simp: with_len_def split: prod.splits)
  then show "(\<exists>y. heap w' = (heap w)(h \<mapsto> y)) \<and> w_live w' = w_live w \<and> w_ub w' = w_ub w"
    using assms(1) [unfolded operates_def, rule_format, of "w\<lparr>w_sizes := (w_sizes w)(LOCAL := 0)\<rparr>" x st w']
      \<open>heap w h = Some x\<close> assms(2) by simp
qed

end
