(* ===== verification/Der.thy ===== *)
theory Der
  imports Util
begin

text \<open>
  The private-key encodings that \<^verbatim>\<open>src/src/zuc_pkey.c\<close> builds itself: DER length octets, tag-length-value
  elements, the SEC1 structure of an EC key and the PKCS#8 wrapper. A C function that writes at
  \<^verbatim>\<open>p\<close> and returns how many bytes it wrote is the list of the bytes it writes; its NULL pass, which
  only returns a size, is a separate function on \<^verbatim>\<open>size_t\<close>, so that the theorems can compare the two.

  The second half is the specification: DER trees, their encoding and a decoder.
\<close>

section \<open>The encoders\<close>

definition der_length :: "size_t \<Rightarrow> byte list" where
  "der_length n =
    (if n < 0x80 then [ucast n]
     else if n \<le> 0xFF then [0x81, ucast n]
     else [0x82, ucast (drop_bit 8 n), ucast n])"

definition tlv_size :: "size_t \<Rightarrow> size_t" where
  "tlv_size n = 1 + (if n < 0x80 then 1 else if n \<le> 0xFF then 2 else 3) + n"

definition tlv_head :: "byte \<Rightarrow> size_t \<Rightarrow> byte list" where
  "tlv_head tag n = tag # der_length n"

definition tlv :: "byte \<Rightarrow> byte list \<Rightarrow> size_t \<Rightarrow> byte list" where
  "tlv tag v n = tlv_head tag n @ take (unat n) v"

definition OID_EC_PUBLIC_KEY :: "byte list" where
  "OID_EC_PUBLIC_KEY = [0x06, 0x07, 0x2a, 0x86, 0x48, 0xce, 0x3d, 0x02, 0x01]"

definition OID_P256 :: "byte list" where
  "OID_P256 = [0x06, 0x08, 0x2a, 0x86, 0x48, 0xce, 0x3d, 0x03, 0x01, 0x07]"

definition OID_P384 :: "byte list" where
  "OID_P384 = [0x06, 0x05, 0x2b, 0x81, 0x04, 0x00, 0x22]"

definition OID_P521 :: "byte list" where
  "OID_P521 = [0x06, 0x05, 0x2b, 0x81, 0x04, 0x00, 0x23]"

definition OID_X25519 :: "byte list" where
  "OID_X25519 = [0x06, 0x03, 0x2b, 0x65, 0x6e]"

definition curve_oid :: "zuc_alg \<Rightarrow> byte list" where
  "curve_oid type =
    (if type = ZUC_ALG_EC_P256 then OID_P256
     else if type = ZUC_ALG_EC_P384 then OID_P384
     else OID_P521)"

text \<open>\<^verbatim>\<open>sizeof\<close> a static array.\<close>

abbreviation size_of :: "byte list \<Rightarrow> size_t" where
  "size_of xs \<equiv> of_nat (length xs)"

definition ec_sec1_body :: "zuc_alg \<Rightarrow> size_t \<Rightarrow> size_t \<Rightarrow> bool \<Rightarrow> size_t" where
  "ec_sec1_body type der_len point_len params =
    3 + tlv_size der_len + (if params then tlv_size (size_of (curve_oid type)) else 0) +
    tlv_size (tlv_size (point_len + 1))"

text \<open>\<^verbatim>\<open>ec_sec1(NULL, ...)\<close>, the size pass.\<close>

definition ec_sec1_size :: "zuc_alg \<Rightarrow> size_t \<Rightarrow> size_t \<Rightarrow> bool \<Rightarrow> size_t" where
  "ec_sec1_size type der_len point_len params =
    tlv_size (ec_sec1_body type der_len point_len params)"

definition ec_sec1 ::
  "zuc_alg \<Rightarrow> byte list \<Rightarrow> size_t \<Rightarrow> byte list \<Rightarrow> size_t \<Rightarrow> bool \<Rightarrow> byte list" where
  "ec_sec1 type der der_len point point_len params =
    tlv_head 0x30 (ec_sec1_body type der_len point_len params) @
    [0x02, 0x01, 0x01] @
    tlv 0x04 der der_len @
    (if params then tlv 0xa0 (curve_oid type) (size_of (curve_oid type)) else []) @
    tlv_head 0xa1 (tlv_size (point_len + 1)) @
    tlv_head 0x03 (point_len + 1) @
    [0x00] @
    take (unat point_len) point"

text \<open>The PKCS#8 branch of \<^verbatim>\<open>ec_encode\<close>: the size handed to \<^verbatim>\<open>malloc\<close>, and the bytes written.\<close>

definition ec_pkcs8_body :: "zuc_alg \<Rightarrow> size_t \<Rightarrow> size_t \<Rightarrow> size_t" where
  "ec_pkcs8_body type der_len point_len =
    3 + tlv_size (size_of OID_EC_PUBLIC_KEY + size_of (curve_oid type)) +
    tlv_size (ec_sec1_size type der_len point_len False)"

definition ec_pkcs8_size :: "zuc_alg \<Rightarrow> size_t \<Rightarrow> size_t \<Rightarrow> size_t" where
  "ec_pkcs8_size type der_len point_len = tlv_size (ec_pkcs8_body type der_len point_len)"

definition ec_pkcs8 :: "zuc_alg \<Rightarrow> byte list \<Rightarrow> size_t \<Rightarrow> byte list \<Rightarrow> size_t \<Rightarrow> byte list" where
  "ec_pkcs8 type der der_len point point_len =
    tlv_head 0x30 (ec_pkcs8_body type der_len point_len) @
    [0x02, 0x01, 0x00] @
    tlv_head 0x30 (size_of OID_EC_PUBLIC_KEY + size_of (curve_oid type)) @
    OID_EC_PUBLIC_KEY @ curve_oid type @
    tlv_head 0x04 (ec_sec1_size type der_len point_len False) @
    ec_sec1 type der der_len point point_len False"

text \<open>The X25519 branch of \<^verbatim>\<open>ec_encode\<close> (RFC 8410).\<close>

definition x25519_body :: "size_t \<Rightarrow> size_t" where
  "x25519_body der_len = 3 + tlv_size (size_of OID_X25519) + tlv_size (tlv_size der_len)"

definition x25519_pkcs8_size :: "size_t \<Rightarrow> size_t" where
  "x25519_pkcs8_size der_len = tlv_size (x25519_body der_len)"

definition x25519_pkcs8 :: "byte list \<Rightarrow> size_t \<Rightarrow> byte list" where
  "x25519_pkcs8 der der_len =
    tlv_head 0x30 (x25519_body der_len) @
    [0x02, 0x01, 0x00] @
    tlv 0x30 OID_X25519 (size_of OID_X25519) @
    tlv_head 0x04 (tlv_size der_len) @
    tlv 0x04 der der_len"

text \<open>\<^verbatim>\<open>pkcs8_wrap\<close>: the constant head, the size handed to \<^verbatim>\<open>malloc\<close>, and the bytes written.\<close>

definition pkcs8_head :: "byte list" where
  "pkcs8_head =
    [0x02, 0x01, 0x00,
     0x30, 0x0d, 0x06, 0x09, 0x2a, 0x86, 0x48, 0x86,
     0xf7, 0x0d, 0x01, 0x01, 0x01, 0x05, 0x00]"

definition pkcs8_wrap_body :: "size_t \<Rightarrow> size_t" where
  "pkcs8_wrap_body pkcs1_len =
    size_of pkcs8_head + 1 + size_of (der_length pkcs1_len) + pkcs1_len"

definition pkcs8_wrap_size :: "size_t \<Rightarrow> size_t" where
  "pkcs8_wrap_size pkcs1_len =
    1 + size_of (der_length (pkcs8_wrap_body pkcs1_len)) + pkcs8_wrap_body pkcs1_len"

definition pkcs8_wrap_bytes :: "byte list \<Rightarrow> size_t \<Rightarrow> byte list" where
  "pkcs8_wrap_bytes pkcs1 pkcs1_len =
    [0x30] @ der_length (pkcs8_wrap_body pkcs1_len) @ pkcs8_head @ [0x04] @ der_length pkcs1_len @
    take (unat pkcs1_len) pkcs1"

section \<open>Specification: DER trees\<close>

text \<open>
  Primitive and constructed elements; whether a tag is constructed is bit 5 of the tag
  (X.690 section 8.1.2.5). \<open>well_tagged\<close> says that the trees use their tags that way and have
  contents below 64 KiB, which two length octets can hold.
\<close>

datatype der = Prim byte "byte list" | Constr byte "der list"

fun enc_len :: "nat \<Rightarrow> byte list" where
  "enc_len n =
    (if n < 128 then [of_nat n]
     else if n < 256 then [0x81, of_nat n]
     else [0x82, of_nat (n div 256), of_nat (n mod 256)])"

fun der_enc :: "der \<Rightarrow> byte list" and der_encs :: "der list \<Rightarrow> byte list" where
  "der_enc (Prim t bs) = t # enc_len (length bs) @ bs"
| "der_enc (Constr t ds) = t # enc_len (length (der_encs ds)) @ der_encs ds"
| "der_encs [] = []"
| "der_encs (d # ds) = der_enc d @ der_encs ds"

fun well_tagged :: "der \<Rightarrow> bool" and well_taggeds :: "der list \<Rightarrow> bool" where
  "well_tagged (Prim t bs) = (\<not> bit t 5 \<and> length bs < 65536)"
| "well_tagged (Constr t ds) = (bit t 5 \<and> length (der_encs ds) < 65536 \<and> well_taggeds ds)"
| "well_taggeds [] = True"
| "well_taggeds (d # ds) = (well_tagged d \<and> well_taggeds ds)"

text \<open>A reader of the length octets, and of elements with fuel for the nesting.\<close>

definition dec_len :: "byte list \<Rightarrow> (nat \<times> byte list) option" where
  "dec_len bs =
    (case bs of
       [] \<Rightarrow> None
     | b # r \<Rightarrow>
         if unat b < 128 then Some (unat b, r)
         else if b = 0x81 then (case r of c # r' \<Rightarrow> Some (unat c, r') | _ \<Rightarrow> None)
         else if b = 0x82 then (case r of c # d # r' \<Rightarrow> Some (256 * unat c + unat d, r') | _ \<Rightarrow> None)
         else None)"

fun der_dec :: "nat \<Rightarrow> byte list \<Rightarrow> (der \<times> byte list) option"
  and der_decs :: "nat \<Rightarrow> byte list \<Rightarrow> der list option" where
  "der_dec 0 bs = None"
| "der_dec (Suc k) [] = None"
| "der_dec (Suc k) (t # bs) =
    (case dec_len bs of
       None \<Rightarrow> None
     | Some (n, r) \<Rightarrow>
         if length r < n then None
         else if bit t 5 then
           (case der_decs k (take n r) of
              None \<Rightarrow> None
            | Some ds \<Rightarrow> Some (Constr t ds, drop n r))
         else Some (Prim t (take n r), drop n r))"
| "der_decs 0 bs = None"
| "der_decs (Suc k) [] = Some []"
| "der_decs (Suc k) (b # bs) =
    (case der_dec k (b # bs) of
       None \<Rightarrow> None
     | Some (d, r) \<Rightarrow> (case der_decs k r of None \<Rightarrow> None | Some ds \<Rightarrow> Some (d # ds)))"

text \<open>Fuel that is enough to read a tree back.\<close>

fun fuel :: "der \<Rightarrow> nat" and fuels :: "der list \<Rightarrow> nat" where
  "fuel (Prim t bs) = 1"
| "fuel (Constr t ds) = Suc (fuels ds)"
| "fuels [] = 1"
| "fuels (d # ds) = Suc (max (fuel d) (fuels ds))"

text \<open>The structures the standards define, as trees.\<close>

definition oid_ec_public_key :: der where
  "oid_ec_public_key = Prim 0x06 [0x2a, 0x86, 0x48, 0xce, 0x3d, 0x02, 0x01]"

definition oid_of_curve :: "zuc_alg \<Rightarrow> der" where
  "oid_of_curve type =
    (if type = ZUC_ALG_EC_P256 then Prim 0x06 [0x2a, 0x86, 0x48, 0xce, 0x3d, 0x03, 0x01, 0x07]
     else if type = ZUC_ALG_EC_P384 then Prim 0x06 [0x2b, 0x81, 0x04, 0x00, 0x22]
     else Prim 0x06 [0x2b, 0x81, 0x04, 0x00, 0x23])"

definition ec_private_key :: "zuc_alg \<Rightarrow> byte list \<Rightarrow> byte list \<Rightarrow> bool \<Rightarrow> der" where
  "ec_private_key type d point params =
    Constr 0x30 ([Prim 0x02 [1], Prim 0x04 d] @
      (if params then [Constr 0xa0 [oid_of_curve type]] else []) @
      [Constr 0xa1 [Prim 0x03 (0 # point)]])"

definition private_key_info :: "der list \<Rightarrow> byte list \<Rightarrow> der" where
  "private_key_info algorithm key =
    Constr 0x30 [Prim 0x02 [0], Constr 0x30 algorithm, Prim 0x04 key]"

section \<open>Lemmas\<close>

lemma length_der_length: "size_of (der_length n) = (if n < 0x80 then 1 else if n \<le> 0xFF then 2 else 3)"
  by (simp add: der_length_def)

lemma length_enc_len [simp]:
  "length (enc_len n) = (if n < 128 then 1 else if n < 256 then 2 else 3)"
  by simp

declare enc_len.simps [simp del]

lemma unat_small: "n < 65536 \<Longrightarrow> unat (of_nat n :: size_t) = n"
  by (simp add: unat_of_nat take_bit_nat_eq_self)

lemma of_nat_less_iff_small:
  assumes "n < 65536"
  shows "(of_nat n :: size_t) < 0x80 \<longleftrightarrow> n < 128" "(of_nat n :: size_t) \<le> 0xFF \<longleftrightarrow> n < 256"
  using assms by (auto simp: word_less_nat_alt word_le_nat_alt unat_small)

lemma der_length_enc:
  assumes "n < 65536"
  shows "der_length (of_nat n) = enc_len n"
proof -
  have "(ucast (of_nat n :: size_t) :: byte) = of_nat n"
    using assms by (simp add: unsigned_of_nat take_bit_nat_eq_self)
  moreover have "(of_nat (n mod 256) :: byte) = of_nat n"
    by (simp add: word_unat_eq_iff unat_of_nat take_bit_eq_mod)
  moreover have "drop_bit 8 (of_nat n :: size_t) = of_nat (n div 256)"
    using assms by (simp add: word_unat_eq_iff unat_drop_bit_eq unat_small drop_bit_eq_div unat_div)
  moreover have "(ucast (of_nat (n div 256) :: size_t) :: byte) = of_nat (n div 256)"
    using assms by (simp add: unsigned_of_nat take_bit_nat_eq_self)
  ultimately show ?thesis
    by (simp add: der_length_def enc_len.simps of_nat_less_iff_small [OF assms])
qed

lemma tlv_size_enc:
  assumes "n < 65536"
  shows "tlv_size (of_nat n) = of_nat (1 + length (enc_len n) + n)"
  by (simp add: tlv_size_def of_nat_less_iff_small [OF assms])

lemma dec_len_enc_len:
  assumes "n < 65536"
  shows "dec_len (enc_len n @ r) = Some (n, r)"
proof -
  have small: "unat (of_nat m :: byte) = m" if "m < 256" for m
    using that by (simp add: unat_of_nat take_bit_nat_eq_self)
  have "n div 256 < 256" using assms by simp
  then show ?thesis
    by (auto simp: dec_len_def enc_len.simps small)
qed

lemma der_enc_nonempty: "\<exists>b bs. der_enc d = b # bs"
  by (cases d) simp_all

lemma der_dec_enc:
  "well_tagged d \<Longrightarrow> fuel d \<le> k \<Longrightarrow> der_dec k (der_enc d @ r) = Some (d, r)"
  "well_taggeds ds \<Longrightarrow> fuels ds \<le> k \<Longrightarrow> der_decs k (der_encs ds) = Some ds"
proof (induction d and ds arbitrary: k r and k rule: well_tagged_well_taggeds.induct)
  case (1 t bs)
  then show ?case by (cases k) (simp_all add: dec_len_enc_len)
next
  case (2 t ds)
  then show ?case by (cases k) (simp_all add: dec_len_enc_len)
next
  case 3
  then show ?case by (cases k) simp_all
next
  case (4 d ds)
  then obtain k' where k: "k = Suc k'" "fuel d \<le> k'" "fuels ds \<le> k'"
    by (cases k) simp_all
  obtain b bs where "der_enc d = b # bs" using der_enc_nonempty by blast
  then show ?case
    using 4 k by (metis (no_types, lifting) append_Cons der_decs.simps(3) der_encs.simps(2)
        option.simps(5) prod.simps(2) well_taggeds.simps(2))
qed

lemma tlv_head_enc: "n < 65536 \<Longrightarrow> tlv_head t (of_nat n) = t # enc_len n"
  by (simp add: tlv_head_def der_length_enc)

lemma tlv_enc: "length v < 65536 \<Longrightarrow> tlv t v (of_nat (length v)) = der_enc (Prim t v)"
  by (simp add: tlv_def tlv_head_enc unat_small)

lemma curve_oid_enc: "curve_oid type = der_enc (oid_of_curve type)"
  by (simp add: curve_oid_def oid_of_curve_def OID_P256_def OID_P384_def OID_P521_def enc_len.simps)

lemma length_curve_oid: "length (curve_oid type) \<le> 10"
  by (simp add: curve_oid_def OID_P256_def OID_P384_def OID_P521_def)

lemma length_enc_len_le: "length (enc_len n) \<le> 3"
  by simp

lemma ec_oid_enc: "OID_EC_PUBLIC_KEY = der_enc oid_ec_public_key"
  by (simp add: OID_EC_PUBLIC_KEY_def oid_ec_public_key_def enc_len.simps)

text \<open>Sizes and bytes of the four encodings, side by side.\<close>

lemma ec_sec1_enc:
  assumes "length d + length point < 65000"
  shows "ec_sec1 type d (of_nat (length d)) point (of_nat (length point)) params =
      der_enc (ec_private_key type d point params)" (is ?bytes)
    and "ec_sec1_size type (of_nat (length d)) (of_nat (length point)) params =
      of_nat (length (der_enc (ec_private_key type d point params)))" (is ?size)
    and "length (der_enc (ec_private_key type d point params)) \<le> length d + length point + 40"
proof -
  let ?n = "length d" and ?k = "length point" and ?o = "length (curve_oid type)"
  let ?p = "if params then 1 + length (enc_len ?o) + ?o else 0"
  let ?x = "1 + length (enc_len (Suc ?k)) + Suc ?k"
  let ?body = "3 + (1 + length (enc_len ?n) + ?n) + ?p + (1 + length (enc_len ?x) + ?x)"
  note le = length_enc_len_le
  have lt: "?n < 65536" "?k < 65536" "Suc ?k < 65536" "?o < 65536" "?x < 65536"
    using assms le [of "Suc ?k"] length_curve_oid [of type] by linarith+
  have p: "?p \<le> 14" using le [of ?o] length_curve_oid [of type] by simp
  then have b: "?body < 65536" "?body \<le> ?n + ?k + 36"
    using assms le [of ?n] le [of "Suc ?k"] le [of ?x] by linarith+
  have k1: "of_nat ?k + 1 = (of_nat (Suc ?k) :: size_t)" by simp
  have body: "ec_sec1_body type (of_nat ?n) (of_nat ?k) params = of_nat ?body"
    unfolding ec_sec1_body_def k1 tlv_size_enc [OF lt(1)] tlv_size_enc [OF lt(3)]
      tlv_size_enc [OF lt(4)] tlv_size_enc [OF lt(5)]
    by (cases params) (simp_all only: of_nat_add of_nat_numeral semiring_1_class.of_nat_0 if_True if_False)
  have len: "length (der_encs ([Prim 0x02 [1], Prim 0x04 d] @
      (if params then [Constr 0xa0 [oid_of_curve type]] else []) @
      [Constr 0xa1 [Prim 0x03 (0 # point)]])) = ?body"
    by (simp add: curve_oid_enc enc_len.simps)
  show ?bytes
    unfolding ec_sec1_def ec_private_key_def body der_enc.simps len k1 tlv_size_enc [OF lt(3)]
      tlv_head_enc [OF b(1)] tlv_head_enc [OF lt(3)] tlv_head_enc [OF lt(5)] tlv_enc [OF lt(1)]
      tlv_enc [OF lt(4)]
    by (simp add: curve_oid_enc unat_small lt enc_len.simps)
  show ?size
    unfolding ec_sec1_size_def ec_private_key_def body der_enc.simps tlv_size_enc [OF b(1)]
    by (simp only: list.size length_append len One_nat_def ac_simps)
  show "length (der_enc (ec_private_key type d point params)) \<le> ?n + ?k + 40"
    unfolding ec_private_key_def der_enc.simps list.size length_append len
    using b(2) le [of ?body] by linarith
qed

lemma der_enc_info:
  "der_enc (private_key_info algorithm key) =
    0x30 # enc_len (length (der_encs [Prim 0x02 [0], Constr 0x30 algorithm, Prim 0x04 key])) @
      der_encs [Prim 0x02 [0], Constr 0x30 algorithm, Prim 0x04 key]"
  unfolding private_key_info_def by (rule der_enc.simps)

lemma x25519_enc:
  assumes "length d < 65000"
  shows "x25519_pkcs8 d (of_nat (length d)) =
      der_enc (private_key_info [Prim 0x06 [0x2b, 0x65, 0x6e]] (der_enc (Prim 0x04 d)))" (is ?bytes)
    and "x25519_pkcs8_size (of_nat (length d)) =
      of_nat (length (der_enc (private_key_info [Prim 0x06 [0x2b, 0x65, 0x6e]] (der_enc (Prim 0x04 d)))))"
      (is ?size)
proof -
  let ?n = "length d"
  let ?i = "1 + length (enc_len ?n) + ?n"
  let ?body = "3 + 7 + (1 + length (enc_len ?i) + ?i)"
  have lt: "?n < 65536" "?i < 65536" "?body < 65536"
    using assms length_enc_len_le [of ?n] length_enc_len_le [of ?i] by linarith+
  have oid: "tlv_size (size_of OID_X25519) = of_nat 7" "tlv 0x30 OID_X25519 (size_of OID_X25519) =
      der_enc (Constr 0x30 [Prim 0x06 [0x2b, 0x65, 0x6e]])"
    by (simp_all add: OID_X25519_def tlv_size_def tlv_def tlv_head_def der_length_def enc_len.simps)
  have body: "x25519_body (of_nat ?n) = of_nat ?body"
    unfolding x25519_body_def oid tlv_size_enc [OF lt(1)] tlv_size_enc [OF lt(2)]
    by (simp only: of_nat_add of_nat_numeral)
  have len: "length (der_encs [Prim 0x02 [0], Constr 0x30 [Prim 0x06 [0x2b, 0x65, 0x6e]],
      Prim 0x04 (der_enc (Prim 0x04 d))]) = ?body"
    by (simp add: enc_len.simps)
  show ?bytes
    unfolding x25519_pkcs8_def body der_enc_info len
      tlv_size_enc [OF lt(1)] tlv_head_enc [OF lt(2)] tlv_head_enc [OF lt(3)] tlv_enc [OF lt(1)] oid
    by (simp add: enc_len.simps)
  show ?size
    unfolding x25519_pkcs8_size_def body der_enc_info
      tlv_size_enc [OF lt(3)]
    by (simp only: list.size length_append len One_nat_def ac_simps)
qed

lemma ec_pkcs8_enc:
  assumes "length d + length point < 64000"
  shows "ec_pkcs8 type d (of_nat (length d)) point (of_nat (length point)) =
      der_enc (private_key_info [oid_ec_public_key, oid_of_curve type]
        (der_enc (ec_private_key type d point False)))" (is ?bytes)
    and "ec_pkcs8_size type (of_nat (length d)) (of_nat (length point)) =
      of_nat (length (der_enc (private_key_info [oid_ec_public_key, oid_of_curve type]
        (der_enc (ec_private_key type d point False)))))" (is ?size)
proof -
  let ?sec1 = "der_enc (ec_private_key type d point False)"
  let ?n = "length ?sec1"
  let ?a = "length OID_EC_PUBLIC_KEY + length (curve_oid type)"
  let ?body = "3 + (1 + length (enc_len ?a) + ?a) + (1 + length (enc_len ?n) + ?n)"
  have d: "length d + length point < 65000" using assms by simp
  note sec1 = ec_sec1_enc [OF d, of type False]
  have lt: "?n < 65536" "?a < 65536" "?body < 65536"
    using assms sec1(3) length_curve_oid [of type] length_enc_len_le [of ?a] length_enc_len_le [of ?n]
    by (simp_all only: OID_EC_PUBLIC_KEY_def list.size)
  have a: "size_of OID_EC_PUBLIC_KEY + size_of (curve_oid type) = (of_nat ?a :: size_t)"
    by (simp only: of_nat_add)
  have body: "ec_pkcs8_body type (of_nat (length d)) (of_nat (length point)) = of_nat ?body"
    unfolding ec_pkcs8_body_def sec1(2) a tlv_size_enc [OF lt(1)] tlv_size_enc [OF lt(2)]
    by (simp only: of_nat_add of_nat_numeral)
  have len: "length (der_encs [Prim 0x02 [0], Constr 0x30 [oid_ec_public_key, oid_of_curve type],
      Prim 0x04 ?sec1]) = ?body"
    by (simp add: curve_oid_enc ec_oid_enc enc_len.simps)
  show ?bytes
    unfolding ec_pkcs8_def body der_enc_info len
      a sec1(1,2) tlv_head_enc [OF lt(1)] tlv_head_enc [OF lt(2)] tlv_head_enc [OF lt(3)]
    by (simp add: curve_oid_enc ec_oid_enc enc_len.simps)
  show ?size
    unfolding ec_pkcs8_size_def body der_enc_info
      tlv_size_enc [OF lt(3)]
    by (simp only: list.size length_append len One_nat_def ac_simps)
qed

lemma pkcs8_wrap_enc:
  assumes "length pkcs1 \<le> 65535 - 64"
  shows "pkcs8_wrap_bytes pkcs1 (of_nat (length pkcs1)) =
      der_enc (private_key_info [Prim 0x06 [0x2a, 0x86, 0x48, 0x86, 0xf7, 0x0d, 0x01, 0x01, 0x01],
        Prim 0x05 []] pkcs1)" (is ?bytes)
    and "pkcs8_wrap_size (of_nat (length pkcs1)) =
      of_nat (length (der_enc (private_key_info
        [Prim 0x06 [0x2a, 0x86, 0x48, 0x86, 0xf7, 0x0d, 0x01, 0x01, 0x01], Prim 0x05 []] pkcs1)))"
      (is ?size)
proof -
  let ?n = "length pkcs1"
  let ?alg = "[Prim 0x06 [0x2a, 0x86, 0x48, 0x86, 0xf7, 0x0d, 0x01, 0x01, 0x01], Prim 0x05 []]"
  let ?body = "18 + 1 + length (enc_len ?n) + ?n"
  have lt: "?n < 65536" "?body < 65536"
    using assms length_enc_len_le [of ?n] by linarith+
  have head: "pkcs8_head = der_enc (Prim 0x02 [0]) @ der_enc (Constr 0x30 ?alg)" "length pkcs8_head = 18"
    by (simp_all add: pkcs8_head_def enc_len.simps)
  have body: "pkcs8_wrap_body (of_nat ?n) = of_nat ?body"
    unfolding pkcs8_wrap_body_def der_length_enc [OF lt(1)] head(2)
    by (simp only: of_nat_add of_nat_numeral of_nat_1)
  have len: "length (der_encs [Prim 0x02 [0], Constr 0x30 ?alg, Prim 0x04 pkcs1]) = ?body"
    by (simp add: enc_len.simps)
  show ?bytes
    unfolding pkcs8_wrap_bytes_def body der_enc_info len
      der_length_enc [OF lt(1)] der_length_enc [OF lt(2)] head(1)
    by (simp add: enc_len.simps unat_small lt)
  show ?size
    unfolding pkcs8_wrap_size_def body der_enc_info
      der_length_enc [OF lt(2)]
    by (simp only: list.size length_append len of_nat_add of_nat_1 One_nat_def [symmetric] ac_simps)
qed

lemma well_tagged_private:
  assumes "length d + length point < 65000"
  shows "well_tagged (ec_private_key type d point params)"
proof -
  have "length (der_enc (ec_private_key type d point params)) < 65536"
    using ec_sec1_enc(3) [OF assms, of type params] assms by linarith
  then show ?thesis
    using assms by (auto simp: ec_private_key_def oid_of_curve_def bit_numeral_rec enc_len.simps
        split: if_splits)
qed

section \<open>Properties\<close>

text \<open>
  C13. The SEC1 writer is exact. For a private scalar and a point of any size up to 64 KB, the size
  computed by the NULL pass of \<^verbatim>\<open>ec_sec1\<close>, which is what is allocated, is exactly the number of bytes
  the writing pass produces, and those bytes are the DER encoding of the ECPrivateKey structure of
  RFC 5915; a DER reader gets the scalar, the curve and the point back from them.
\<close>

theorem ec_sec1_exact:
  assumes "length d + length point < 65000" "8 \<le> k"
  shows "ec_sec1_size type (of_nat (length d)) (of_nat (length point)) params =
      of_nat (length (ec_sec1 type d (of_nat (length d)) point (of_nat (length point)) params)) \<and>
    der_dec k (ec_sec1 type d (of_nat (length d)) point (of_nat (length point)) params) =
      Some (ec_private_key type d point params, [])"
proof -
  have "fuel (ec_private_key type d point params) \<le> k"
    using assms(2) by (cases params) (simp_all add: ec_private_key_def oid_of_curve_def)
  then show ?thesis
    using der_dec_enc(1) [OF well_tagged_private [OF assms(1)], where k = k and r = "[]"]
      ec_sec1_enc [OF assms(1)] by simp
qed

theorem ec_sec1_exact_witness:
  "der_dec 8 (ec_sec1 ZUC_ALG_EC_P256 [1, 2, 3] 3 [4, 9, 9] 3 True) =
    Some (ec_private_key ZUC_ALG_EC_P256 [1, 2, 3] [4, 9, 9] True, [])"
  using ec_sec1_exact [of "[1, 2, 3]" "[4, 9, 9]" 8 ZUC_ALG_EC_P256 True] by simp

text \<open>
  C21. The PKCS#8 writers are exact. For keys of any size the code accepts, \<^verbatim>\<open>pkcs8_wrap\<close> and the two
  PKCS#8 branches of \<^verbatim>\<open>ec_encode\<close> write exactly as many bytes as they allocate, and a DER reader finds
  in them a PrivateKeyInfo (RFC 5208) with the algorithm of the key and, as its octet string, the
  RSAPrivateKey, the SEC1 structure without its curve, or the X25519 octet string of RFC 8410.
\<close>

theorem pkcs8_writers_exact:
  assumes "8 \<le> k"
  shows "(length pkcs1 \<le> 65535 - 64 \<longrightarrow>
      pkcs8_wrap_size (of_nat (length pkcs1)) =
        of_nat (length (pkcs8_wrap_bytes pkcs1 (of_nat (length pkcs1)))) \<and>
      der_dec k (pkcs8_wrap_bytes pkcs1 (of_nat (length pkcs1))) =
        Some (private_key_info [Prim 0x06 [0x2a, 0x86, 0x48, 0x86, 0xf7, 0x0d, 0x01, 0x01, 0x01],
          Prim 0x05 []] pkcs1, [])) \<and>
    (length d + length point < 64000 \<longrightarrow>
      ec_pkcs8_size type (of_nat (length d)) (of_nat (length point)) =
        of_nat (length (ec_pkcs8 type d (of_nat (length d)) point (of_nat (length point)))) \<and>
      der_dec k (ec_pkcs8 type d (of_nat (length d)) point (of_nat (length point))) =
        Some (private_key_info [oid_ec_public_key, oid_of_curve type]
          (ec_sec1 type d (of_nat (length d)) point (of_nat (length point)) False), [])) \<and>
    (length d < 65000 \<longrightarrow>
      x25519_pkcs8_size (of_nat (length d)) = of_nat (length (x25519_pkcs8 d (of_nat (length d)))) \<and>
      der_dec k (x25519_pkcs8 d (of_nat (length d))) =
        Some (private_key_info [Prim 0x06 [0x2b, 0x65, 0x6e]] (tlv 0x04 d (of_nat (length d))), []))"
proof -
  have info: "der_dec k (der_enc (private_key_info alg key)) = Some (private_key_info alg key, [])"
    if "well_taggeds alg" "fuels alg \<le> 3" "length (der_encs alg) \<le> 40" "length key \<le> 65535 - 64"
    for alg key
  proof -
    have "well_tagged (private_key_info alg key)" "fuel (private_key_info alg key) \<le> k"
      using that assms by (simp_all add: private_key_info_def bit_numeral_rec)
    then show ?thesis
      using der_dec_enc(1) [where k = k and r = "[]"] by simp
  qed
  let ?rsa = "[Prim 0x06 [0x2a, 0x86, 0x48, 0x86, 0xf7, 0x0d, 0x01, 0x01, 0x01], Prim 0x05 []]"
  have ec: "well_taggeds [oid_ec_public_key, oid_of_curve type]"
      "fuels [oid_ec_public_key, oid_of_curve type] \<le> 3"
      "length (der_encs [oid_ec_public_key, oid_of_curve type]) \<le> 40"
    by (simp_all add: oid_ec_public_key_def oid_of_curve_def bit_numeral_rec enc_len.simps)
  show ?thesis
  proof (intro conjI impI)
    assume "length pkcs1 \<le> 65535 - 64"
    then show "der_dec k (pkcs8_wrap_bytes pkcs1 (of_nat (length pkcs1))) =
        Some (private_key_info ?rsa pkcs1, [])"
      using info [of ?rsa pkcs1] by (simp add: pkcs8_wrap_enc bit_numeral_rec enc_len.simps)
  next
    assume d: "length d + length point < 64000"
    then have d': "length d + length point < 65000" by simp
    show "der_dec k (ec_pkcs8 type d (of_nat (length d)) point (of_nat (length point))) =
        Some (private_key_info [oid_ec_public_key, oid_of_curve type]
          (ec_sec1 type d (of_nat (length d)) point (of_nat (length point)) False), [])"
      unfolding ec_pkcs8_enc [OF d] ec_sec1_enc(1) [OF d']
      by (rule info [OF ec]) (use ec_sec1_enc(3) [OF d', of type False] d in linarith)
  next
    assume d: "length d < 65000"
    show "der_dec k (x25519_pkcs8 d (of_nat (length d))) =
        Some (private_key_info [Prim 0x06 [0x2b, 0x65, 0x6e]] (tlv 0x04 d (of_nat (length d))), [])"
      unfolding x25519_enc [OF d] using d
      by (simp add: tlv_enc info bit_numeral_rec enc_len.simps)
  qed (simp_all add: pkcs8_wrap_enc ec_pkcs8_enc x25519_enc)
qed

theorem pkcs8_writers_exact_witness:
  "der_dec 8 (x25519_pkcs8 [1, 2] 2) =
     Some (private_key_info [Prim 0x06 [0x2b, 0x65, 0x6e]] [0x04, 0x02, 1, 2], [])"
  using pkcs8_writers_exact [of 8 "[]" "[1, 2]" "[]" ZUC_ALG_EC_P256]
  by (simp add: tlv_def tlv_head_def der_length_def)

end
