(* ===== verification/Pkey.thy ===== *)
theory Pkey
  imports Backend Der
begin

text \<open>
  \<^verbatim>\<open>src/src/zuc_pkey.c\<close>: public keys over an arbitrary backend. A handle holds key material in a heap
  buffer; every operation imports it into the backend with the policy it needs, uses it once and
  destroys it. The \<open>_impl\<close> functions are the C functions of those names; those whose out-pointer is
  also the address of a local variable in the C code return the pointer next to the status, and
  the caller stores it. PK contexts and local arrays are values.
\<close>

section \<open>Backend vocabulary\<close>

abbreviation (input) PSA_KEY_TYPE_RSA_PUBLIC_KEY :: psa_key_type_t where
  "PSA_KEY_TYPE_RSA_PUBLIC_KEY \<equiv> 0x4001"
abbreviation (input) PSA_KEY_TYPE_RSA_KEY_PAIR :: psa_key_type_t where
  "PSA_KEY_TYPE_RSA_KEY_PAIR \<equiv> 0x7001"
abbreviation (input) PSA_ECC_FAMILY_SECP_R1 :: psa_key_type_t where "PSA_ECC_FAMILY_SECP_R1 \<equiv> 0x12"
abbreviation (input) PSA_ECC_FAMILY_MONTGOMERY :: psa_key_type_t where "PSA_ECC_FAMILY_MONTGOMERY \<equiv> 0x41"
abbreviation (input) PSA_KEY_USAGE_EXPORT :: psa_key_usage_t where "PSA_KEY_USAGE_EXPORT \<equiv> 0x1"
abbreviation (input) PKEY_USAGE_ENCRYPT :: psa_key_usage_t where "PKEY_USAGE_ENCRYPT \<equiv> 0x100"
abbreviation (input) PKEY_USAGE_DECRYPT :: psa_key_usage_t where "PKEY_USAGE_DECRYPT \<equiv> 0x200"
abbreviation (input) PSA_KEY_USAGE_SIGN_HASH :: psa_key_usage_t where "PSA_KEY_USAGE_SIGN_HASH \<equiv> 0x1000"
abbreviation (input) PSA_KEY_USAGE_VERIFY_HASH :: psa_key_usage_t where
  "PSA_KEY_USAGE_VERIFY_HASH \<equiv> 0x2000"
abbreviation (input) PSA_KEY_USAGE_DERIVE :: psa_key_usage_t where "PSA_KEY_USAGE_DERIVE \<equiv> 0x4000"
abbreviation (input) PSA_ALG_ECDH :: psa_algorithm_t where "PSA_ALG_ECDH \<equiv> 0x09020000"
abbreviation (input) PSA_ALG_RSA_PKCS1V15_CRYPT :: psa_algorithm_t where
  "PSA_ALG_RSA_PKCS1V15_CRYPT \<equiv> 0x07000200"
abbreviation (input) ZUC_PKEY_MAX_WRITE_SIZE :: size_t where "ZUC_PKEY_MAX_WRITE_SIZE \<equiv> 8192"

definition PSA_KEY_TYPE_PUBLIC_KEY_OF_KEY_PAIR :: "psa_key_type_t \<Rightarrow> psa_key_type_t" where
  "PSA_KEY_TYPE_PUBLIC_KEY_OF_KEY_PAIR type = type AND NOT 0x3000"

definition PSA_KEY_TYPE_IS_KEY_PAIR :: "psa_key_type_t \<Rightarrow> bool" where
  "PSA_KEY_TYPE_IS_KEY_PAIR type = (type AND 0x7000 = 0x7000)"

definition PSA_KEY_TYPE_IS_RSA :: "psa_key_type_t \<Rightarrow> bool" where
  "PSA_KEY_TYPE_IS_RSA type = (PSA_KEY_TYPE_PUBLIC_KEY_OF_KEY_PAIR type = PSA_KEY_TYPE_RSA_PUBLIC_KEY)"

definition PSA_KEY_TYPE_IS_ECC :: "psa_key_type_t \<Rightarrow> bool" where
  "PSA_KEY_TYPE_IS_ECC type = (PSA_KEY_TYPE_PUBLIC_KEY_OF_KEY_PAIR type AND NOT 0xff = 0x4100)"

definition PSA_KEY_TYPE_ECC_KEY_PAIR :: "psa_key_type_t \<Rightarrow> psa_key_type_t" where
  "PSA_KEY_TYPE_ECC_KEY_PAIR curve = 0x7100 OR curve"

definition PSA_BITS_TO_BYTES :: "size_t \<Rightarrow> size_t" where
  "PSA_BITS_TO_BYTES bits = (bits + 7) div 8"

definition PSA_KEY_EXPORT_ASN1_INTEGER_MAX_SIZE :: "size_t \<Rightarrow> size_t" where
  "PSA_KEY_EXPORT_ASN1_INTEGER_MAX_SIZE bits = bits div 8 + 5"

definition PSA_EXPORT_KEY_OUTPUT_SIZE :: "psa_key_type_t \<Rightarrow> size_t \<Rightarrow> size_t" where
  "PSA_EXPORT_KEY_OUTPUT_SIZE type bits =
    (if type = PSA_KEY_TYPE_RSA_KEY_PAIR
     then 9 * PSA_KEY_EXPORT_ASN1_INTEGER_MAX_SIZE (bits div 2 + 1) + 14
     else if type = PSA_KEY_TYPE_RSA_PUBLIC_KEY
     then PSA_KEY_EXPORT_ASN1_INTEGER_MAX_SIZE bits + 11
     else if type AND NOT 0xff = 0x7100 then PSA_BITS_TO_BYTES bits
     else if type AND NOT 0xff = 0x4100 then 2 * PSA_BITS_TO_BYTES bits + 1
     else PSA_BITS_TO_BYTES bits)"

definition PSA_EXPORT_PUBLIC_KEY_OUTPUT_SIZE :: "psa_key_type_t \<Rightarrow> size_t \<Rightarrow> size_t" where
  "PSA_EXPORT_PUBLIC_KEY_OUTPUT_SIZE type bits =
    (if PSA_KEY_TYPE_IS_RSA type then PSA_KEY_EXPORT_ASN1_INTEGER_MAX_SIZE bits + 11
     else if PSA_KEY_TYPE_IS_ECC type then 2 * PSA_BITS_TO_BYTES bits + 1
     else if PSA_KEY_TYPE_PUBLIC_KEY_OF_KEY_PAIR type AND NOT 0xff = 0x4200 then PSA_BITS_TO_BYTES bits
     else 0)"

definition hash_policy :: "psa_algorithm_t \<Rightarrow> psa_algorithm_t \<Rightarrow> psa_algorithm_t" where
  "hash_policy base h = base OR (h AND 0xff)"

section \<open>Key types\<close>

definition alg_of_psa :: "psa_key_type_t \<Rightarrow> size_t \<Rightarrow> zuc_alg" where
  "alg_of_psa type bits =
    (if PSA_KEY_TYPE_IS_RSA type then ZUC_ALG_RSA
     else if PSA_KEY_TYPE_IS_ECC type then
       (let family = type AND 0xff in
        if family = PSA_ECC_FAMILY_SECP_R1 \<and> bits = 256 then ZUC_ALG_EC_P256
        else if family = PSA_ECC_FAMILY_SECP_R1 \<and> bits = 384 then ZUC_ALG_EC_P384
        else if family = PSA_ECC_FAMILY_SECP_R1 \<and> bits = 521 then ZUC_ALG_EC_P521
        else if family = PSA_ECC_FAMILY_MONTGOMERY \<and> bits = 255 then ZUC_ALG_X25519
        else ZUC_ALG_NONE)
     else ZUC_ALG_NONE)"

text \<open>The type returned and the value stored in \<^verbatim>\<open>*bits\<close>.\<close>

definition ec_pair_type :: "zuc_alg \<Rightarrow> psa_key_type_t \<times> size_t" where
  "ec_pair_type type =
    (if type = ZUC_ALG_EC_P256 then (PSA_KEY_TYPE_ECC_KEY_PAIR PSA_ECC_FAMILY_SECP_R1, 256)
     else if type = ZUC_ALG_EC_P384 then (PSA_KEY_TYPE_ECC_KEY_PAIR PSA_ECC_FAMILY_SECP_R1, 384)
     else if type = ZUC_ALG_EC_P521 then (PSA_KEY_TYPE_ECC_KEY_PAIR PSA_ECC_FAMILY_SECP_R1, 521)
     else if type = ZUC_ALG_X25519 then (PSA_KEY_TYPE_ECC_KEY_PAIR PSA_ECC_FAMILY_MONTGOMERY, 255)
     else (0, 0))"

definition is_nist_curve :: "zuc_alg \<Rightarrow> bool" where
  "is_nist_curve type \<longleftrightarrow> type = ZUC_ALG_EC_P256 \<or> type = ZUC_ALG_EC_P384 \<or> type = ZUC_ALG_EC_P521"

definition ec_bytes :: "zuc_pkey \<Rightarrow> size_t" where
  "ec_bytes key = (k_bits key + 7) div 8"

definition signature_size :: "zuc_pkey \<Rightarrow> size_t" where
  "signature_size key = (if k_type key = ZUC_ALG_RSA then k_bits key div 8 else 2 * ec_bytes key)"

section \<open>Handles\<close>

definition pkey_destroy :: "ptr \<Rightarrow> ('b, 'o, unit) zuc" where
  "pkey_destroy key =
    (if key = NULL then ret ()
     else do {
       k \<leftarrow> deref_pkey key;
       (if k_der k \<noteq> NULL then do {
          zuc_secure_zero (k_der k) (k_der_len k);
          free_bytes (k_der k)
        } else ret ());
       free_struct_pkey key
     })"

definition zuc_pkey_free :: "ptr \<Rightarrow> ('b, 'o, unit) zuc" where
  "zuc_pkey_free key =
    (if key = NULL then ret () else do { pkey_destroy key; zuc_int_live_add (-1) })"

definition zuc_pkey_type :: "ptr \<Rightarrow> ('b, 'o, zuc_alg) zuc" where
  "zuc_pkey_type key =
    (if key = NULL then ret ZUC_ALG_NONE else do { k \<leftarrow> deref_pkey key; ret (k_type k) })"

definition zuc_pkey_bits :: "ptr \<Rightarrow> ('b, 'o, size_t) zuc" where
  "zuc_pkey_bits key = (if key = NULL then ret 0 else do { k \<leftarrow> deref_pkey key; ret (k_bits k) })"

definition zuc_pkey_is_private :: "ptr \<Rightarrow> ('b, 'o, bool) zuc" where
  "zuc_pkey_is_private key =
    (if key = NULL then ret False else do { k \<leftarrow> deref_pkey key; ret (k_is_private k) })"

text \<open>\<^verbatim>\<open>pkey_from_psa\<close>: the status and, when it is \<^verbatim>\<open>ZUC_OK\<close>, the pointer stored in \<^verbatim>\<open>*out\<close>.\<close>

definition pkey_from_psa ::
  "('b, 'o) psa \<Rightarrow> psa_key_id_t \<Rightarrow> bool \<Rightarrow> ('b, 'o, zuc_status \<times> ptr) zuc" where
  "pkey_from_psa P kid want_private = do {
     r \<leftarrow> psa_do P (KEY (Get_key_attributes kid)) None;
     if r_status r \<noteq> PSA_SUCCESS then ret (zuc_int_from_psa (r_status r), NULL)
     else do {
       let type = pa_type (r_attr r);
       let bits = pa_bits (r_attr r);
       if alg_of_psa type bits = ZUC_ALG_NONE then ret (ZUC_ERR_UNSUPPORTED, NULL)
       else do {
         let is_pair = (PSA_KEY_TYPE_IS_KEY_PAIR type \<and> want_private);
         let cap = (if is_pair then PSA_EXPORT_KEY_OUTPUT_SIZE type bits
                    else PSA_EXPORT_PUBLIC_KEY_OUTPUT_SIZE type bits);
         key \<leftarrow> calloc_pkey;
         buf \<leftarrow> malloc_bytes cap;
         if key = NULL \<or> buf = NULL then do {
           (if key = NULL then ret () else free_struct_pkey key);
           free_bytes buf;
           ret (ZUC_ERR_MEMORY, NULL)
         }
         else do {
           r \<leftarrow> psa_do P (KEY (if is_pair then Export_key kid cap else Export_public_key kid cap)) None;
           write_out buf cap (r_out r);
           if r_status r \<noteq> PSA_SUCCESS then do {
             zuc_secure_zero buf cap;
             free_bytes buf;
             free_struct_pkey key;
             ret (zuc_int_from_psa (r_status r), NULL)
           }
           else do {
             set_pkey key \<lparr>k_type = alg_of_psa type bits,
                           k_ptype = (if is_pair then type else PSA_KEY_TYPE_PUBLIC_KEY_OF_KEY_PAIR type),
                           k_is_private = is_pair, k_bits = bits, k_der = buf, k_der_len = r_len r\<rparr>;
             zuc_int_live_add 1;
             ret (ZUC_OK, key)
           }
         }
       }
     }
   }"

definition pkey_import ::
  "('b, 'o) psa \<Rightarrow> zuc_pkey \<Rightarrow> psa_algorithm_t \<Rightarrow> psa_key_usage_t \<Rightarrow>
   ('b, 'o, zuc_status \<times> psa_key_id_t) zuc" where
  "pkey_import P key alg usage = do {
     d \<leftarrow> read_bytes (k_der key) (k_der_len key);
     (ps, kid) \<leftarrow> psa_import_key P
        (psa_key_attributes_init\<lparr>pa_type := k_ptype key, pa_alg := alg, pa_usage := usage\<rparr>) d;
     ret (zuc_int_from_psa ps, kid)
   }"

text \<open>Store a pointer through \<^verbatim>\<open>*out\<close> when the status is \<^verbatim>\<open>ZUC_OK\<close>.\<close>

definition store_ok :: "ptr \<Rightarrow> zuc_status \<times> ptr \<Rightarrow> ('b, 'o, zuc_status) zuc" where
  "store_ok out x =
    (if fst x = ZUC_OK then do { write_cell out (snd x); ret ZUC_OK } else ret (fst x))"

section \<open>Reading, generating, deriving\<close>

definition pem_begin :: "byte list" where
  "pem_begin = map (of_nat \<circ> of_char) ''-----BEGIN''"

fun skip_space :: "byte list \<Rightarrow> byte list" where
  "skip_space [] = []"
| "skip_space (c # cs) =
    (if c = 0x20 \<or> c = 0x09 \<or> c = 0x0d \<or> c = 0x0a then skip_space cs else c # cs)"

definition looks_like_pem :: "byte list \<Rightarrow> bool" where
  "looks_like_pem inp =
    (let rest = skip_space inp in
     length rest \<ge> length pem_begin \<and> take (length pem_begin) rest = pem_begin)"

abbreviation (input) MBEDTLS_ERR_PK_UNKNOWN_PK_ALG :: int where "MBEDTLS_ERR_PK_UNKNOWN_PK_ALG \<equiv> -0x3C80"
abbreviation (input) MBEDTLS_ERR_PK_UNKNOWN_NAMED_CURVE :: int where
  "MBEDTLS_ERR_PK_UNKNOWN_NAMED_CURVE \<equiv> -0x3A00"
abbreviation (input) MBEDTLS_ERR_PK_FEATURE_UNAVAILABLE :: int where
  "MBEDTLS_ERR_PK_FEATURE_UNAVAILABLE \<equiv> -0x3980"

definition parse_status :: "int \<Rightarrow> zuc_status" where
  "parse_status r =
    (if r = PSA_ERROR_INSUFFICIENT_MEMORY then ZUC_ERR_MEMORY
     else if r = MBEDTLS_ERR_PK_UNKNOWN_PK_ALG \<or> r = MBEDTLS_ERR_PK_FEATURE_UNAVAILABLE \<or>
             r = MBEDTLS_ERR_PK_UNKNOWN_NAMED_CURVE
     then ZUC_ERR_UNSUPPORTED
     else ZUC_ERR_INVALID_ARGUMENT)"

text \<open>
  \<^verbatim>\<open>pkey_import_impl\<close>. Its data is \<open>None\<close> for a NULL pointer: the exported function passes the
  caller's buffer, \<^verbatim>\<open>pkey_parse_impl\<close> a local array.
\<close>

definition pkey_import_impl ::
  "('b, 'o) psa \<Rightarrow> zuc_alg \<Rightarrow> bool \<Rightarrow> byte list option \<Rightarrow> ptr \<Rightarrow> ('b, 'o, zuc_status) zuc" where
  "pkey_import_impl P type private_key data out =
    (if out = NULL then ret ZUC_ERR_INVALID_ARGUMENT
     else do {
       write_cell out NULL;
       ready \<leftarrow> zuc_int_ready;
       if \<not> ready then ret ZUC_ERR_NOT_READY
       else case data of
         None \<Rightarrow> ret ZUC_ERR_INVALID_ARGUMENT
       | Some d \<Rightarrow>
           if d = [] then ret ZUC_ERR_INVALID_ARGUMENT
           else if \<not> zuc_alg_available type then ret ZUC_ERR_UNSUPPORTED
           else do {
             let (pt, bits) = (if type = ZUC_ALG_RSA then (PSA_KEY_TYPE_RSA_KEY_PAIR, 0)
                               else ec_pair_type type);
             if pt = 0 then ret ZUC_ERR_UNSUPPORTED
             else do {
               (ps, kid) \<leftarrow> psa_import_key P
                  (psa_key_attributes_init
                     \<lparr>pa_type := (if private_key then pt else PSA_KEY_TYPE_PUBLIC_KEY_OF_KEY_PAIR pt),
                      pa_bits := bits, pa_usage := PSA_KEY_USAGE_EXPORT\<rparr>) d;
               if ps \<noteq> PSA_SUCCESS
               then ret (if ps = PSA_ERROR_INSUFFICIENT_MEMORY then ZUC_ERR_MEMORY
                         else ZUC_ERR_INVALID_ARGUMENT)
               else do {
                 x \<leftarrow> pkey_from_psa P kid private_key;
                 psa_destroy_key P kid;
                 store_ok out x
               }
             }
           }
     })"

text \<open>
  The parts of \<^verbatim>\<open>pkey_parse_impl\<close>: reading the input with the PK layer (the return value, whether a
  private key was read, and the PK context), asking for attributes, and importing.
\<close>

definition parse_input ::
  "('b, 'o) psa \<Rightarrow> byte list \<Rightarrow> bool \<Rightarrow> ('b, 'o, int \<times> bool \<times> 'o option) zuc" where
  "parse_input P src private_key = do {
     r \<leftarrow> psa_do P (PK (Pk_parse_key src)) None;
     if r_status r = 0 then ret (0, True, r_op r)
     else if private_key then ret (r_status r, False, r_op r)
     else do {
       _ \<leftarrow> psa_do P (PK Pk_free) (r_op r);
       r' \<leftarrow> psa_do P (PK (Pk_parse_public_key src)) None;
       ret (if r_status r' \<noteq> 0 \<and> parse_status (r_status r) = ZUC_ERR_UNSUPPORTED
            then r_status r else r_status r', False, r_op r')
     }
   }"

definition parse_attributes ::
  "('b, 'o) psa \<Rightarrow> bool \<Rightarrow> 'o option \<Rightarrow> ('b, 'o, int \<times> psa_attr \<times> 'o option) zuc" where
  "parse_attributes P is_pair pk = do {
     r \<leftarrow> psa_do P (PK (Pk_get_psa_attributes
            (if is_pair then PSA_KEY_USAGE_SIGN_HASH else PSA_KEY_USAGE_VERIFY_HASH))) pk;
     if r_status r \<noteq> 0 \<and> is_pair then do {
       r' \<leftarrow> psa_do P (PK (Pk_get_psa_attributes PSA_KEY_USAGE_DERIVE)) (r_op r);
       ret (r_status r', r_attr r', r_op r')
     }
     else ret (r_status r, r_attr r, r_op r)
   }"

definition parse_import ::
  "('b, 'o) psa \<Rightarrow> bool \<Rightarrow> bool \<Rightarrow> psa_attr \<Rightarrow> 'o option \<Rightarrow> ptr \<Rightarrow> ('b, 'o, zuc_status) zuc" where
  "parse_import P private_key is_pair attr pk out = do {
     r \<leftarrow> psa_do P (PK (Pk_import_into_psa
            (attr\<lparr>pa_alg := PSA_ALG_NONE, pa_usage := PSA_KEY_USAGE_EXPORT\<rparr>))) pk;
     _ \<leftarrow> psa_do P (PK Pk_free) (r_op r);
     if r_status r \<noteq> 0
     then ret (if r_status r = PSA_ERROR_INSUFFICIENT_MEMORY then ZUC_ERR_MEMORY
               else ZUC_ERR_INVALID_ARGUMENT)
     else do {
       x \<leftarrow> pkey_from_psa P (r_id r) (private_key \<and> is_pair);
       psa_destroy_key P (r_id r);
       st \<leftarrow> store_ok out x;
       if st = ZUC_OK \<and> private_key then do {
         k \<leftarrow> deref_pkey (snd x);
         if \<not> k_is_private k then do {
           zuc_pkey_free (snd x);
           write_cell out NULL;
           ret ZUC_ERR_INVALID_ARGUMENT
         }
         else ret st
       }
       else ret st
     }
   }"

definition pkey_parse_impl ::
  "('b, 'o) psa \<Rightarrow> ptr \<Rightarrow> size_t \<Rightarrow> bool \<Rightarrow> ptr \<Rightarrow> ('b, 'o, zuc_status) zuc" where
  "pkey_parse_impl P inp len private_key out =
    (if out = NULL then ret ZUC_ERR_INVALID_ARGUMENT
     else do {
       write_cell out NULL;
       ready \<leftarrow> zuc_int_ready;
       if \<not> ready then ret ZUC_ERR_NOT_READY
       else if inp = NULL \<or> len = 0 then ret ZUC_ERR_INVALID_ARGUMENT
       else do {
         d \<leftarrow> read_bytes inp len;
         let pem = looks_like_pem d;
         if pem \<and> 0 \<in> set d then ret ZUC_ERR_INVALID_ARGUMENT
         else do {
           copy \<leftarrow> (if pem then malloc_bytes (len + 1) else ret NULL);
           if pem \<and> copy = NULL then ret ZUC_ERR_MEMORY
           else do {
             (if pem then write_bytes copy (d @ [0]) else ret ());
             (r, is_pair, pk) \<leftarrow> parse_input P (if pem then d @ [0] else d) private_key;
             (if pem then do { zuc_secure_zero copy (len + 1); free_bytes copy } else ret ());
             if r \<noteq> 0 then do { _ \<leftarrow> psa_do P (PK Pk_free) pk; ret (parse_status r) }
             else do {
               (r, attr, pk) \<leftarrow> parse_attributes P is_pair pk;
               b \<leftarrow> (if r \<noteq> 0 \<and> \<not> is_pair
                     then do { r' \<leftarrow> psa_do P (PK Pk_get_bitlen) pk; ret (r_len r') }
                     else ret 0);
               if r \<noteq> 0 \<and> \<not> is_pair \<and> b = 255 then do {
                 r' \<leftarrow> psa_do P (PK (Pk_write_pubkey_psa 32)) pk;
                 _ \<leftarrow> psa_do P (PK Pk_free) (r_op r');
                 if r_status r' \<noteq> 0 \<or> r_len r' \<noteq> 32 then ret ZUC_ERR_UNSUPPORTED
                 else pkey_import_impl P ZUC_ALG_X25519 False
                        (Some (local_buf 32 (r_out r') 32)) out
               }
               else if r \<noteq> 0 then do { _ \<leftarrow> psa_do P (PK Pk_free) pk; ret ZUC_ERR_UNSUPPORTED }
               else parse_import P private_key is_pair attr pk out
             }
           }
         }
       }
     })"

definition pkey_generate_impl ::
  "('b, 'o) psa \<Rightarrow> zuc_alg \<Rightarrow> size_t \<Rightarrow> ptr \<Rightarrow> ('b, 'o, zuc_status) zuc" where
  "pkey_generate_impl P type bits out =
    (if out = NULL then ret ZUC_ERR_INVALID_ARGUMENT
     else do {
       write_cell out NULL;
       ready \<leftarrow> zuc_int_ready;
       if \<not> ready then ret ZUC_ERR_NOT_READY
       else if \<not> zuc_alg_available type then ret ZUC_ERR_UNSUPPORTED
       else do {
         let (pt, curve_bits) = ec_pair_type type;
         if type = ZUC_ALG_RSA \<and> (bits < 1024 \<or> bits > 4096) then ret ZUC_ERR_BAD_LENGTH
         else if type \<noteq> ZUC_ALG_RSA \<and> pt = 0 then ret ZUC_ERR_UNSUPPORTED
         else if type \<noteq> ZUC_ALG_RSA \<and> bits \<noteq> 0 \<and> bits \<noteq> curve_bits then ret ZUC_ERR_BAD_LENGTH
         else do {
           r \<leftarrow> psa_do P (KEY (Generate_key (psa_key_attributes_init
                  \<lparr>pa_type := (if type = ZUC_ALG_RSA then PSA_KEY_TYPE_RSA_KEY_PAIR else pt),
                   pa_bits := (if type = ZUC_ALG_RSA then bits else curve_bits),
                   pa_usage := PSA_KEY_USAGE_EXPORT\<rparr>))) None;
           if r_status r \<noteq> PSA_SUCCESS then ret (zuc_int_from_psa (r_status r))
           else do {
             x \<leftarrow> pkey_from_psa P (r_id r) True;
             psa_destroy_key P (r_id r);
             store_ok out x
           }
         }
       }
     })"

text \<open>\<^verbatim>\<open>pkey_public_impl\<close> after its \<^verbatim>\<open>out\<close> check, with the pointer it stores.\<close>

definition pkey_public_core :: "('b, 'o) psa \<Rightarrow> ptr \<Rightarrow> ('b, 'o, zuc_status \<times> ptr) zuc" where
  "pkey_public_core P key =
    (if key = NULL then ret (ZUC_ERR_INVALID_ARGUMENT, NULL)
     else do {
       ready \<leftarrow> zuc_int_ready;
       if \<not> ready then ret (ZUC_ERR_NOT_READY, NULL)
       else do {
         k \<leftarrow> deref_pkey key;
         (st, kid) \<leftarrow> pkey_import P k PSA_ALG_NONE PSA_KEY_USAGE_EXPORT;
         if st \<noteq> ZUC_OK then ret (st, NULL)
         else do {
           x \<leftarrow> pkey_from_psa P kid False;
           psa_destroy_key P kid;
           ret x
         }
       }
     })"

definition pkey_public_impl :: "('b, 'o) psa \<Rightarrow> ptr \<Rightarrow> ptr \<Rightarrow> ('b, 'o, zuc_status) zuc" where
  "pkey_public_impl P key out =
    (if out = NULL then ret ZUC_ERR_INVALID_ARGUMENT
     else do {
       write_cell out NULL;
       x \<leftarrow> pkey_public_core P key;
       store_ok out x
     })"

section \<open>Writing\<close>

text \<open>A fresh buffer: the status, the pointer and the length.\<close>

type_synonym fresh_der = "zuc_status \<times> ptr \<times> size_t"

definition public_der :: "('b, 'o) psa \<Rightarrow> ptr \<Rightarrow> ('b, 'o, fresh_der) zuc" where
  "public_der P key = do {
     k \<leftarrow> deref_pkey key;
     if \<not> k_is_private k then do {
       p \<leftarrow> malloc_bytes (k_der_len k);
       if p = NULL then ret (ZUC_ERR_MEMORY, NULL, 0)
       else do {
         d \<leftarrow> read_bytes (k_der k) (k_der_len k);
         write_bytes p d;
         ret (ZUC_OK, p, k_der_len k)
       }
     }
     else do {
       (st, pub) \<leftarrow> pkey_public_core P key;
       if st \<noteq> ZUC_OK then ret (st, NULL, 0)
       else if pub = NULL then ret (ZUC_ERR_INTERNAL, NULL, 0)
       else do {
         q \<leftarrow> deref_pkey pub;
         set_pkey pub (q\<lparr>k_der := NULL, k_der_len := 0\<rparr>);
         zuc_pkey_free pub;
         ret (ZUC_OK, k_der q, k_der_len q)
       }
     }
   }"

definition pkcs8_wrap :: "ptr \<Rightarrow> size_t \<Rightarrow> ('b, 'o, fresh_der) zuc" where
  "pkcs8_wrap pkcs1 pkcs1_len =
    (if pkcs1_len > 0xFFFF - 64 then ret (ZUC_ERR_INTERNAL, NULL, 0)
     else do {
       let total = pkcs8_wrap_size pkcs1_len;
       p \<leftarrow> malloc_bytes total;
       if p = NULL then ret (ZUC_ERR_MEMORY, NULL, 0)
       else do {
         d \<leftarrow> read_bytes pkcs1 pkcs1_len;
         write_bytes p (pkcs8_wrap_bytes d pkcs1_len);
         ret (ZUC_OK, p, total)
       }
     })"

definition spki_der :: "('b, 'o) psa \<Rightarrow> zuc_pkey \<Rightarrow> ('b, 'o, fresh_der) zuc" where
  "spki_der P key = do {
     (st, kid) \<leftarrow> pkey_import P key PSA_ALG_NONE PSA_KEY_USAGE_EXPORT;
     if st \<noteq> ZUC_OK then ret (st, NULL, 0)
     else do {
       r \<leftarrow> psa_do P (PK (Pk_copy_public_from_psa kid)) None;
       psa_destroy_key P kid;
       if r_status r \<noteq> 0 then do {
         _ \<leftarrow> psa_do P (PK Pk_free) (r_op r);
         ret (if r_status r = PSA_ERROR_INSUFFICIENT_MEMORY then ZUC_ERR_MEMORY else ZUC_ERR_BACKEND,
              NULL, 0)
       }
       else do {
         buf \<leftarrow> malloc_bytes ZUC_PKEY_MAX_WRITE_SIZE;
         if buf = NULL then do { _ \<leftarrow> psa_do P (PK Pk_free) (r_op r); ret (ZUC_ERR_MEMORY, NULL, 0) }
         else do {
           r \<leftarrow> psa_do P (PK (Pk_write_pubkey_der ZUC_PKEY_MAX_WRITE_SIZE)) (r_op r);
           write_out buf ZUC_PKEY_MAX_WRITE_SIZE (r_out r);
           _ \<leftarrow> psa_do P (PK Pk_free) (r_op r);
           if r_status r \<le> 0 then do {
             free_bytes buf;
             ret (if r_status r = PSA_ERROR_INSUFFICIENT_MEMORY then ZUC_ERR_MEMORY
                  else ZUC_ERR_BACKEND, NULL, 0)
           }
           else do {
             let n = of_int (r_status r);
             d \<leftarrow> read_bytes (buf + ZUC_PKEY_MAX_WRITE_SIZE - n) n;
             write_bytes buf d;
             ret (ZUC_OK, buf, n)
           }
         }
       }
     }
   }"

type_synonym zuc_pkey_format = int

abbreviation (input) ZUC_PKEY_PKCS1_DER :: zuc_pkey_format where "ZUC_PKEY_PKCS1_DER \<equiv> 1"
abbreviation (input) ZUC_PKEY_PKCS1_PEM :: zuc_pkey_format where "ZUC_PKEY_PKCS1_PEM \<equiv> 2"
abbreviation (input) ZUC_PKEY_INFO_DER :: zuc_pkey_format where "ZUC_PKEY_INFO_DER \<equiv> 3"
abbreviation (input) ZUC_PKEY_INFO_PEM :: zuc_pkey_format where "ZUC_PKEY_INFO_PEM \<equiv> 4"

definition ec_encode ::
  "('b, 'o) psa \<Rightarrow> ptr \<Rightarrow> zuc_pkey_format \<Rightarrow> bool \<Rightarrow> ('b, 'o, fresh_der \<times> string) zuc" where
  "ec_encode P key format private_out = do {
     k \<leftarrow> deref_pkey key;
     let pkcs1 = (format = ZUC_PKEY_PKCS1_DER \<or> format = ZUC_PKEY_PKCS1_PEM);
     if format < ZUC_PKEY_PKCS1_DER \<or> format > ZUC_PKEY_INFO_PEM
     then ret ((ZUC_ERR_INVALID_ARGUMENT, NULL, 0), [])
     else if \<not> private_out then
       (if pkcs1 then ret ((ZUC_ERR_UNSUPPORTED, NULL, 0), [])
        else do { x \<leftarrow> spki_der P k; ret (x, ''PUBLIC KEY'') })
     else if k_type k = ZUC_ALG_X25519 then
       (if pkcs1 then ret ((ZUC_ERR_UNSUPPORTED, NULL, 0), [])
        else do {
          p \<leftarrow> malloc_bytes (x25519_pkcs8_size (k_der_len k));
          if p = NULL then ret ((ZUC_ERR_MEMORY, NULL, 0), [])
          else do {
            d \<leftarrow> read_bytes (k_der k) (k_der_len k);
            let bs = x25519_pkcs8 d (k_der_len k);
            write_bytes p bs;
            ret ((ZUC_OK, p, size_of bs), ''PRIVATE KEY'')
          }
        })
     else do {
       (st, point, point_len) \<leftarrow> public_der P key;
       if st \<noteq> ZUC_OK then ret ((st, NULL, 0), [])
       else do {
         p \<leftarrow> malloc_bytes (if pkcs1 then ec_sec1_size (k_type k) (k_der_len k) point_len True
                            else ec_pkcs8_size (k_type k) (k_der_len k) point_len);
         d \<leftarrow> read_bytes (k_der k) (k_der_len k);
         pt \<leftarrow> read_bytes point point_len;
         let bs = (if pkcs1 then ec_sec1 (k_type k) d (k_der_len k) pt point_len True
                   else ec_pkcs8 (k_type k) d (k_der_len k) pt point_len);
         (if p \<noteq> NULL then write_bytes p bs else ret ());
         zuc_secure_zero point point_len;
         free_bytes point;
         if p = NULL then ret ((ZUC_ERR_MEMORY, NULL, 0), [])
         else ret ((ZUC_OK, p, size_of bs), if pkcs1 then ''EC PRIVATE KEY'' else ''PRIVATE KEY'')
       }
     }
   }"

text \<open>The three-way choice of an encoder in \<^verbatim>\<open>pkey_write_impl\<close>.\<close>

definition write_encode ::
  "('b, 'o) psa \<Rightarrow> ptr \<Rightarrow> zuc_pkey_format \<Rightarrow> bool \<Rightarrow> ('b, 'o, fresh_der \<times> string) zuc" where
  "write_encode P key format private_out = do {
     k \<leftarrow> deref_pkey key;
     if k_type k \<noteq> ZUC_ALG_RSA then ec_encode P key format private_out
     else if format = ZUC_PKEY_PKCS1_DER \<or> format = ZUC_PKEY_PKCS1_PEM then
       (if private_out then do {
          p \<leftarrow> malloc_bytes (k_der_len k);
          if p = NULL then ret ((ZUC_ERR_MEMORY, NULL, 0), [])
          else do {
            d \<leftarrow> read_bytes (k_der k) (k_der_len k);
            write_bytes p d;
            ret ((ZUC_OK, p, k_der_len k), ''RSA PRIVATE KEY'')
          }
        }
        else do { x \<leftarrow> public_der P key; ret (x, ''RSA PUBLIC KEY'') })
     else if format = ZUC_PKEY_INFO_DER \<or> format = ZUC_PKEY_INFO_PEM then
       (if private_out
        then do { x \<leftarrow> pkcs8_wrap (k_der k) (k_der_len k); ret (x, ''PRIVATE KEY'') }
        else do { x \<leftarrow> spki_der P k; ret (x, ''PUBLIC KEY'') })
     else ret ((ZUC_ERR_INVALID_ARGUMENT, NULL, 0), [])
   }"

text \<open>The output step of \<^verbatim>\<open>pkey_write_impl\<close>: DER as it is, or PEM through the backend's writer.\<close>

definition write_output ::
  "('b, 'o) psa \<Rightarrow> zuc_pkey_format \<Rightarrow> string \<Rightarrow> ptr \<Rightarrow> size_t \<Rightarrow> ptr \<Rightarrow> size_t \<Rightarrow> ptr \<Rightarrow>
   ('b, 'o, zuc_status) zuc" where
  "write_output P format label der der_len out out_size out_len =
    (if format = ZUC_PKEY_PKCS1_DER \<or> format = ZUC_PKEY_INFO_DER then
       (if der_len > out_size then ret ZUC_ERR_BAD_LENGTH
        else do {
          d \<leftarrow> read_bytes der der_len;
          write_bytes out d;
          write_size out_len der_len;
          ret ZUC_OK
        })
     else do {
       d \<leftarrow> read_bytes der der_len;
       r \<leftarrow> psa_do P (PK (Pem_write_buffer (''-----BEGIN '' @ label @ ''-----'' @ [CHR 0x0A])
                          (''-----END '' @ label @ ''-----'' @ [CHR 0x0A]) d out_size)) None;
       write_out out out_size (r_out r);
       if r_status r = PSA_ERROR_BUFFER_TOO_SMALL then ret ZUC_ERR_BAD_LENGTH
       else if r_status r \<noteq> 0 \<or> r_len r = 0 then ret ZUC_ERR_BACKEND
       else do { write_size out_len (r_len r - 1); ret ZUC_OK }
     })"

definition clear_len :: "ptr \<Rightarrow> ('b, 'o, unit) zuc" where
  "clear_len out_len = (if out_len \<noteq> NULL then write_size out_len 0 else ret ())"

definition pkey_write_impl ::
  "('b, 'o) psa \<Rightarrow> ptr \<Rightarrow> zuc_pkey_format \<Rightarrow> bool \<Rightarrow> ptr \<Rightarrow> size_t \<Rightarrow> ptr \<Rightarrow>
   ('b, 'o, zuc_status) zuc" where
  "pkey_write_impl P key format public_only out out_size out_len = do {
     private_out \<leftarrow> (if key \<noteq> NULL then do { k \<leftarrow> deref_pkey key; ret (k_is_private k \<and> \<not> public_only) }
                     else ret False);
     clear_len out_len;
     if key = NULL \<or> out = NULL \<or> out_len = NULL then ret ZUC_ERR_INVALID_ARGUMENT
     else do {
       ready \<leftarrow> zuc_int_ready;
       if \<not> ready then ret ZUC_ERR_NOT_READY
       else do {
         (x, label) \<leftarrow> write_encode P key format private_out;
         let (st, der, der_len) = x;
         if st \<noteq> ZUC_OK then ret st
         else do {
           st \<leftarrow> write_output P format label der der_len out out_size out_len;
           zuc_secure_zero der der_len;
           free_bytes der;
           (if st \<noteq> ZUC_OK then zuc_secure_zero out out_size else ret ());
           ret st
         }
       }
     }
   }"

section \<open>Signatures\<close>

definition sign_alg :: "zuc_alg \<Rightarrow> zuc_alg \<Rightarrow> psa_algorithm_t" where
  "sign_alg scheme hash =
    (let h = (if zuc_int_digest_available hash then zuc_int_psa_hash hash else 0) in
     if h = 0 then 0
     else if defined_want PSA_WANT_ALG_RSA_PKCS1V15_SIGN \<and> scheme = ZUC_ALG_RSA_PKCS1V15_SIGN
     then hash_policy 0x06000200 h
     else if defined_want PSA_WANT_ALG_RSA_PSS \<and> scheme = ZUC_ALG_RSA_PSS
     then hash_policy 0x06000300 h
     else if defined_want PSA_WANT_ALG_ECDSA \<and> scheme = ZUC_ALG_ECDSA
     then hash_policy 0x06000600 h
     else if defined_want PSA_WANT_ALG_DETERMINISTIC_ECDSA \<and> scheme = ZUC_ALG_ECDSA_DETERMINISTIC
     then hash_policy 0x06000700 h
     else 0)"

definition scheme_fits :: "zuc_pkey \<Rightarrow> zuc_alg \<Rightarrow> bool" where
  "scheme_fits key scheme =
    (if scheme = ZUC_ALG_RSA_PKCS1V15_SIGN \<or> scheme = ZUC_ALG_RSA_PSS then k_type key = ZUC_ALG_RSA
     else if scheme = ZUC_ALG_ECDSA \<or> scheme = ZUC_ALG_ECDSA_DETERMINISTIC then is_nist_curve (k_type key)
     else False)"

definition pkey_sign_hash_impl ::
  "('b, 'o) psa \<Rightarrow> ptr \<Rightarrow> zuc_alg \<Rightarrow> zuc_alg \<Rightarrow> ptr \<Rightarrow> size_t \<Rightarrow> ptr \<Rightarrow> size_t \<Rightarrow> ptr \<Rightarrow>
   ('b, 'o, zuc_status) zuc" where
  "pkey_sign_hash_impl P key scheme hash digest digest_len sig sig_size sig_len = do {
     clear_len sig_len;
     if key = NULL \<or> digest = NULL \<or> sig = NULL \<or> sig_len = NULL then ret ZUC_ERR_INVALID_ARGUMENT
     else do {
       ready \<leftarrow> zuc_int_ready;
       if \<not> ready then ret ZUC_ERR_NOT_READY
       else do {
         k \<leftarrow> deref_pkey key;
         let alg = sign_alg scheme hash;
         if \<not> k_is_private k then ret ZUC_ERR_INVALID_ARGUMENT
         else if alg = 0 then ret ZUC_ERR_UNSUPPORTED
         else if \<not> scheme_fits k scheme then ret ZUC_ERR_INVALID_ARGUMENT
         else if digest_len \<noteq> zuc_alg_size hash \<or> sig_size < signature_size k
         then ret ZUC_ERR_BAD_LENGTH
         else do {
           (st, kid) \<leftarrow> pkey_import P k alg PSA_KEY_USAGE_SIGN_HASH;
           if st \<noteq> ZUC_OK then ret st
           else do {
             d \<leftarrow> read_bytes digest digest_len;
             r \<leftarrow> psa_do P (ASYM (Sign_hash kid alg d sig_size)) None;
             write_out sig sig_size (r_out r);
             write_size sig_len (r_len r);
             psa_destroy_key P kid;
             if r_status r \<noteq> PSA_SUCCESS then do {
               zuc_secure_zero sig sig_size;
               write_size sig_len 0;
               ret (zuc_int_from_psa (r_status r))
             }
             else ret ZUC_OK
           }
         }
       }
     }
   }"

definition pkey_verify_hash_impl ::
  "('b, 'o) psa \<Rightarrow> ptr \<Rightarrow> zuc_alg \<Rightarrow> zuc_alg \<Rightarrow> ptr \<Rightarrow> size_t \<Rightarrow> ptr \<Rightarrow> size_t \<Rightarrow>
   ('b, 'o, zuc_status) zuc" where
  "pkey_verify_hash_impl P key scheme hash digest digest_len sig sig_len =
    (if key = NULL \<or> digest = NULL \<or> (sig = NULL \<and> sig_len \<noteq> 0) then ret ZUC_ERR_INVALID_ARGUMENT
     else do {
       ready \<leftarrow> zuc_int_ready;
       if \<not> ready then ret ZUC_ERR_NOT_READY
       else do {
         k \<leftarrow> deref_pkey key;
         let alg = sign_alg scheme hash;
         if alg = 0 then ret ZUC_ERR_UNSUPPORTED
         else if \<not> scheme_fits k scheme then ret ZUC_ERR_INVALID_ARGUMENT
         else if digest_len \<noteq> zuc_alg_size hash then ret ZUC_ERR_BAD_LENGTH
         else if sig_len \<noteq> signature_size k then ret ZUC_ERR_AUTH
         else do {
           (st, kid) \<leftarrow> pkey_import P k alg PSA_KEY_USAGE_VERIFY_HASH;
           if st \<noteq> ZUC_OK then ret st
           else do {
             d \<leftarrow> read_bytes digest digest_len;
             s \<leftarrow> read_bytes sig sig_len;
             r \<leftarrow> psa_do P (ASYM (Verify_hash kid alg d s)) None;
             psa_destroy_key P kid;
             ret (if r_status r = PSA_ERROR_INVALID_SIGNATURE \<or> r_status r = PSA_ERROR_INVALID_ARGUMENT
                  then ZUC_ERR_AUTH else zuc_int_from_psa (r_status r))
           }
         }
       }
     })"

section \<open>Encryption\<close>

definition crypt_alg :: "zuc_alg \<Rightarrow> zuc_alg \<Rightarrow> psa_algorithm_t" where
  "crypt_alg scheme hash =
    (if defined_want PSA_WANT_ALG_RSA_OAEP \<and> scheme = ZUC_ALG_RSA_OAEP then
       (let h = (if zuc_int_digest_available hash then zuc_int_psa_hash hash else 0) in
        if h = 0 then 0 else hash_policy 0x07000300 h)
     else if defined_want PSA_WANT_ALG_RSA_PKCS1V15_CRYPT \<and> scheme = ZUC_ALG_RSA_PKCS1V15_CRYPT \<and>
             hash = ZUC_ALG_NONE
     then PSA_ALG_RSA_PKCS1V15_CRYPT
     else 0)"

definition pkey_encrypt_impl ::
  "('b, 'o) psa \<Rightarrow> ptr \<Rightarrow> zuc_alg \<Rightarrow> zuc_alg \<Rightarrow> ptr \<Rightarrow> size_t \<Rightarrow> ptr \<Rightarrow> size_t \<Rightarrow> ptr \<Rightarrow>
   ('b, 'o, zuc_status) zuc" where
  "pkey_encrypt_impl P key scheme hash inp len out out_size out_len = do {
     clear_len out_len;
     if key = NULL \<or> (inp = NULL \<and> len \<noteq> 0) \<or> out = NULL \<or> out_len = NULL
     then ret ZUC_ERR_INVALID_ARGUMENT
     else do {
       ready \<leftarrow> zuc_int_ready;
       if \<not> ready then ret ZUC_ERR_NOT_READY
       else do {
         k \<leftarrow> deref_pkey key;
         let alg = crypt_alg scheme hash;
         if alg = 0 \<or> k_type k \<noteq> ZUC_ALG_RSA then ret ZUC_ERR_UNSUPPORTED
         else if out_size < k_bits k div 8 then ret ZUC_ERR_BAD_LENGTH
         else do {
           (st, kid) \<leftarrow> pkey_import P k alg PKEY_USAGE_ENCRYPT;
           if st \<noteq> ZUC_OK then ret st
           else do {
             d \<leftarrow> (if len \<noteq> 0 then read_bytes inp len else ret []);
             r \<leftarrow> psa_do P (ASYM (Asymmetric_encrypt kid alg d out_size)) None;
             write_out out out_size (r_out r);
             write_size out_len (r_len r);
             psa_destroy_key P kid;
             if r_status r \<noteq> PSA_SUCCESS then do {
               zuc_secure_zero out out_size;
               write_size out_len 0;
               ret (if r_status r = PSA_ERROR_INVALID_ARGUMENT then ZUC_ERR_BAD_LENGTH
                    else zuc_int_from_psa (r_status r))
             }
             else ret ZUC_OK
           }
         }
       }
     }
   }"

definition pkey_decrypt_impl ::
  "('b, 'o) psa \<Rightarrow> ptr \<Rightarrow> zuc_alg \<Rightarrow> zuc_alg \<Rightarrow> ptr \<Rightarrow> size_t \<Rightarrow> ptr \<Rightarrow> size_t \<Rightarrow> ptr \<Rightarrow>
   ('b, 'o, zuc_status) zuc" where
  "pkey_decrypt_impl P key scheme hash inp len out out_size out_len = do {
     clear_len out_len;
     if key = NULL \<or> inp = NULL \<or> out = NULL \<or> out_len = NULL then ret ZUC_ERR_INVALID_ARGUMENT
     else do {
       ready \<leftarrow> zuc_int_ready;
       if \<not> ready then ret ZUC_ERR_NOT_READY
       else do {
         k \<leftarrow> deref_pkey key;
         let alg = crypt_alg scheme hash;
         if \<not> k_is_private k then ret ZUC_ERR_INVALID_ARGUMENT
         else if alg = 0 \<or> k_type k \<noteq> ZUC_ALG_RSA then ret ZUC_ERR_UNSUPPORTED
         else do {
           (st, kid) \<leftarrow> pkey_import P k alg PKEY_USAGE_DECRYPT;
           if st \<noteq> ZUC_OK then ret st
           else do {
             d \<leftarrow> read_bytes inp len;
             r \<leftarrow> psa_do P (ASYM (Asymmetric_decrypt kid alg d out_size)) None;
             write_out out out_size (r_out r);
             write_size out_len (r_len r);
             psa_destroy_key P kid;
             if r_status r \<noteq> PSA_SUCCESS then do {
               zuc_secure_zero out out_size;
               write_size out_len 0;
               ret (if r_status r = PSA_ERROR_INSUFFICIENT_MEMORY then ZUC_ERR_MEMORY
                    else ZUC_ERR_AUTH)
             }
             else ret ZUC_OK
           }
         }
       }
     }
   }"

section \<open>Raw key material and key agreement\<close>

definition pkey_export_impl ::
  "('b, 'o) psa \<Rightarrow> ptr \<Rightarrow> bool \<Rightarrow> ptr \<Rightarrow> size_t \<Rightarrow> ptr \<Rightarrow> ('b, 'o, zuc_status) zuc" where
  "pkey_export_impl P key public_only out out_size out_len = do {
     clear_len out_len;
     ready \<leftarrow> zuc_int_ready;
     if \<not> ready then ret ZUC_ERR_NOT_READY
     else if key = NULL \<or> out = NULL \<or> out_len = NULL then ret ZUC_ERR_INVALID_ARGUMENT
     else do {
       k \<leftarrow> deref_pkey key;
       if k_is_private k \<and> \<not> public_only then
         (if k_der_len k > out_size then ret ZUC_ERR_BAD_LENGTH
          else do {
            d \<leftarrow> read_bytes (k_der k) (k_der_len k);
            write_bytes out d;
            write_size out_len (k_der_len k);
            ret ZUC_OK
          })
       else do {
         (st, der, der_len) \<leftarrow> public_der P key;
         if st \<noteq> ZUC_OK then ret st
         else do {
           st \<leftarrow> (if der_len > out_size then ret ZUC_ERR_BAD_LENGTH
                  else do {
                    d \<leftarrow> read_bytes der der_len;
                    write_bytes out d;
                    write_size out_len der_len;
                    ret ZUC_OK
                  });
           free_bytes der;
           ret st
         }
       }
     }
   }"

definition pkey_agree_impl ::
  "('b, 'o) psa \<Rightarrow> ptr \<Rightarrow> ptr \<Rightarrow> ptr \<Rightarrow> size_t \<Rightarrow> ptr \<Rightarrow> ('b, 'o, zuc_status) zuc" where
  "pkey_agree_impl P key peer out out_size out_len = do {
     clear_len out_len;
     ready \<leftarrow> zuc_int_ready;
     if \<not> ready then ret ZUC_ERR_NOT_READY
     else if key = NULL \<or> peer = NULL \<or> out = NULL \<or> out_len = NULL then ret ZUC_ERR_INVALID_ARGUMENT
     else do {
       k \<leftarrow> deref_pkey key;
       q \<leftarrow> deref_pkey peer;
       if k_type k = ZUC_ALG_RSA \<or> \<not> zuc_alg_available ZUC_ALG_ECDH then ret ZUC_ERR_UNSUPPORTED
       else if \<not> k_is_private k \<or> k_type q \<noteq> k_type k then ret ZUC_ERR_INVALID_ARGUMENT
       else if out_size < ec_bytes k then ret ZUC_ERR_BAD_LENGTH
       else do {
         (st, point, point_len) \<leftarrow> public_der P peer;
         if st \<noteq> ZUC_OK then ret st
         else do {
           (st, kid) \<leftarrow> pkey_import P k PSA_ALG_ECDH PSA_KEY_USAGE_DERIVE;
           st \<leftarrow> (if st = ZUC_OK then do {
                    pt \<leftarrow> read_bytes point point_len;
                    r \<leftarrow> psa_do P (ASYM (Raw_key_agreement PSA_ALG_ECDH kid pt out_size)) None;
                    write_out out out_size (r_out r);
                    write_size out_len (r_len r);
                    psa_destroy_key P kid;
                    ret (if r_status r = PSA_SUCCESS then ZUC_OK
                         else if r_status r = PSA_ERROR_INSUFFICIENT_MEMORY then ZUC_ERR_MEMORY
                         else ZUC_ERR_INVALID_ARGUMENT)
                  }
                  else ret st);
           free_bytes point;
           n \<leftarrow> gets (\<lambda>w. w_sizes w out_len);
           secret \<leftarrow> read_bytes out n;
           let st = (if st = ZUC_OK \<and> k_type k = ZUC_ALG_X25519 \<and> list_all (\<lambda>b. b = 0) secret
                     then ZUC_ERR_INVALID_ARGUMENT else st);
           (if st \<noteq> ZUC_OK then do { zuc_secure_zero out out_size; write_size out_len 0 } else ret ());
           ret st
         }
       }
     }
   }"

section \<open>The public entry points\<close>

definition watched :: "('b, 'o, zuc_status) zuc \<Rightarrow> ('b, 'o, zuc_status) zuc" where
  "watched m = do { zuc_int_alloc_watch; st \<leftarrow> m; zuc_int_memory_or st }"

definition zuc_pkey_parse :: "('b, 'o) psa \<Rightarrow> ptr \<Rightarrow> size_t \<Rightarrow> bool \<Rightarrow> ptr \<Rightarrow> ('b, 'o, zuc_status) zuc" where
  "zuc_pkey_parse P inp len private_key out = watched (pkey_parse_impl P inp len private_key out)"

definition zuc_pkey_generate :: "('b, 'o) psa \<Rightarrow> zuc_alg \<Rightarrow> size_t \<Rightarrow> ptr \<Rightarrow> ('b, 'o, zuc_status) zuc" where
  "zuc_pkey_generate P type bits out = watched (pkey_generate_impl P type bits out)"

definition zuc_pkey_public :: "('b, 'o) psa \<Rightarrow> ptr \<Rightarrow> ptr \<Rightarrow> ('b, 'o, zuc_status) zuc" where
  "zuc_pkey_public P key out = watched (pkey_public_impl P key out)"

definition zuc_pkey_write ::
  "('b, 'o) psa \<Rightarrow> ptr \<Rightarrow> zuc_pkey_format \<Rightarrow> bool \<Rightarrow> ptr \<Rightarrow> size_t \<Rightarrow> ptr \<Rightarrow> ('b, 'o, zuc_status) zuc" where
  "zuc_pkey_write P key format public_only out out_size out_len =
    watched (pkey_write_impl P key format public_only out out_size out_len)"

definition zuc_pkey_sign_hash ::
  "('b, 'o) psa \<Rightarrow> ptr \<Rightarrow> zuc_alg \<Rightarrow> zuc_alg \<Rightarrow> ptr \<Rightarrow> size_t \<Rightarrow> ptr \<Rightarrow> size_t \<Rightarrow> ptr \<Rightarrow>
   ('b, 'o, zuc_status) zuc" where
  "zuc_pkey_sign_hash P key scheme hash digest digest_len sig sig_size sig_len =
    watched (pkey_sign_hash_impl P key scheme hash digest digest_len sig sig_size sig_len)"

definition zuc_pkey_verify_hash ::
  "('b, 'o) psa \<Rightarrow> ptr \<Rightarrow> zuc_alg \<Rightarrow> zuc_alg \<Rightarrow> ptr \<Rightarrow> size_t \<Rightarrow> ptr \<Rightarrow> size_t \<Rightarrow>
   ('b, 'o, zuc_status) zuc" where
  "zuc_pkey_verify_hash P key scheme hash digest digest_len sig sig_len =
    watched (pkey_verify_hash_impl P key scheme hash digest digest_len sig sig_len)"

definition zuc_pkey_encrypt ::
  "('b, 'o) psa \<Rightarrow> ptr \<Rightarrow> zuc_alg \<Rightarrow> zuc_alg \<Rightarrow> ptr \<Rightarrow> size_t \<Rightarrow> ptr \<Rightarrow> size_t \<Rightarrow> ptr \<Rightarrow>
   ('b, 'o, zuc_status) zuc" where
  "zuc_pkey_encrypt P key scheme hash inp len out out_size out_len =
    watched (pkey_encrypt_impl P key scheme hash inp len out out_size out_len)"

definition zuc_pkey_decrypt ::
  "('b, 'o) psa \<Rightarrow> ptr \<Rightarrow> zuc_alg \<Rightarrow> zuc_alg \<Rightarrow> ptr \<Rightarrow> size_t \<Rightarrow> ptr \<Rightarrow> size_t \<Rightarrow> ptr \<Rightarrow>
   ('b, 'o, zuc_status) zuc" where
  "zuc_pkey_decrypt P key scheme hash inp len out out_size out_len =
    watched (pkey_decrypt_impl P key scheme hash inp len out out_size out_len)"

definition zuc_pkey_import ::
  "('b, 'o) psa \<Rightarrow> zuc_alg \<Rightarrow> bool \<Rightarrow> ptr \<Rightarrow> size_t \<Rightarrow> ptr \<Rightarrow> ('b, 'o, zuc_status) zuc" where
  "zuc_pkey_import P type private_key data len out =
    watched (do {
      d \<leftarrow> read_bytes data len;
      pkey_import_impl P type private_key (if data = NULL then None else Some d) out
    })"

definition zuc_pkey_export ::
  "('b, 'o) psa \<Rightarrow> ptr \<Rightarrow> bool \<Rightarrow> ptr \<Rightarrow> size_t \<Rightarrow> ptr \<Rightarrow> ('b, 'o, zuc_status) zuc" where
  "zuc_pkey_export P key public_only out out_size out_len =
    watched (pkey_export_impl P key public_only out out_size out_len)"

definition zuc_pkey_agree ::
  "('b, 'o) psa \<Rightarrow> ptr \<Rightarrow> ptr \<Rightarrow> ptr \<Rightarrow> size_t \<Rightarrow> ptr \<Rightarrow> ('b, 'o, zuc_status) zuc" where
  "zuc_pkey_agree P key peer out out_size out_len =
    watched (pkey_agree_impl P key peer out out_size out_len)"

section \<open>Lemmas: keys\<close>

lemma keeps_owed_struct [keeps_intros]:
  "keeps owed (deref_pkey p)" "keeps owed (set_pkey p k)" "keeps owed (free_struct_pkey p)"
  "keeps owed calloc_pkey"
  unfolding deref_pkey_def set_pkey_def free_struct_pkey_def calloc_pkey_def
  by (intro keeps_intros; simp)+

lemma keeps_owed_handles:
  "keeps owed (pkey_destroy p)" "keeps owed (zuc_pkey_free p)" "keeps owed (clear_len q)"
  "keeps owed (store_ok out x)"
  unfolding pkey_destroy_def zuc_pkey_free_def clear_len_def store_ok_def
  by (intro keeps_intros; simp)+

lemma keeps_owed_from_psa: "keeps owed (pkey_from_psa (traced P) kid wp)"
  unfolding pkey_from_psa_def Let_def by (intro keeps_intros; simp)

text \<open>Import, use, destroy: the shape of every operation on key material.\<close>

lemma owed_pkey_import:
  "valid (\<lambda>w. owed w = M) (pkey_import (traced P) k alg usage)
     (\<lambda>r w. owed w = (if fst r = ZUC_OK then add_mset (snd r) M else M))"
  unfolding pkey_import_def
  by (rule valid_keeps_bind [OF keeps_read_bytes], rule valid_bind [OF owed_psa_import_key])
    (auto simp: valid_def)

lemma owed_destroy_last:
  assumes "keeps owed m"
  shows "valid (\<lambda>w. owed w = add_mset k M) (State_Monad.bind (psa_destroy_key (traced P) k) (\<lambda>_. m))
    (\<lambda>_ w. owed w = M)"
  by (rule valid_bind [OF owed_psa_destroy_key]) (use valid_keeps [OF assms] in simp)

lemma keeps_owed_import_use:
  assumes "\<And>st. keeps owed (n st)"
    and "\<And>kid M. valid (\<lambda>w. owed w = add_mset kid M) (body kid) (\<lambda>_ w. owed w = M)"
  shows "keeps owed (State_Monad.bind (pkey_import (traced P) k alg usage)
    (\<lambda>(st, kid). if st \<noteq> ZUC_OK then n st else body kid))"
proof (rule keeps_validI, rule valid_bind [OF owed_pkey_import], rule valid_case_prod, rule valid_if)
  fix v and r :: "zuc_status \<times> psa_key_id_t" and st kid
  assume "r = (st, kid)" "st \<noteq> ZUC_OK"
  then show "valid (\<lambda>w. owed w = (if fst r = ZUC_OK then add_mset (snd r) v else v)) (n st)
      (\<lambda>_ w. owed w = v)"
    using valid_keeps [OF assms(1)] by simp
next
  fix v and r :: "zuc_status \<times> psa_key_id_t" and st kid
  assume "r = (st, kid)" "\<not> st \<noteq> ZUC_OK"
  then show "valid (\<lambda>w. owed w = (if fst r = ZUC_OK then add_mset (snd r) v else v)) (body kid)
      (\<lambda>_ w. owed w = v)"
    using assms(2) by simp
qed

lemma owed_create:
  assumes "c = KEY (Generate_key a) \<or> c = PK (Pk_import_into_psa a)"
  shows "valid (\<lambda>w. owed w = M) (psa_do (traced P) c op)
     (\<lambda>r w. owed w = (if r_status r = PSA_SUCCESS then add_mset (r_id r) M else M))"
  using assms by (auto simp: valid_def traced_do owed_keys_snoc owed_step_def split: prod.splits)

lemma owed_create_if:
  assumes "\<And>M. valid (\<lambda>w. owed w = add_mset kid M) body (\<lambda>_ w. owed w = M)"
  shows "valid (\<lambda>w. owed w = (if ps = PSA_SUCCESS then add_mset kid v else v))
    (if ps \<noteq> PSA_SUCCESS then ret e else body) (\<lambda>_ w. owed w = v)"
  using assms by (cases "ps = PSA_SUCCESS") (simp_all add: valid_ret_keep)

lemma owed_use_destroy:
  assumes "\<And>x. keeps owed (m x)"
  shows "valid (\<lambda>w. owed w = add_mset kid M)
    (do { x \<leftarrow> pkey_from_psa (traced P) kid wp; psa_destroy_key (traced P) kid; m x }) (\<lambda>_ w. owed w = M)"
  by (rule valid_keeps_bind [OF keeps_owed_from_psa]) (rule owed_destroy_last [OF assms])

lemma keeps_owed_pkey_public_core [keeps_intros]: "keeps owed (pkey_public_core (traced P) key)"
  unfolding pkey_public_core_def
  by (intro keeps_if keeps_bind keeps_ret keeps_zuc_int_ready keeps_owed_struct
      keeps_owed_import_use owed_use_destroy)

lemma keeps_owed_import_impl: "keeps owed (pkey_import_impl (traced P) type pk d out)"
proof -
  have "keeps owed (do {
      (ps, kid) \<leftarrow> psa_import_key (traced P) attr d;
      if ps \<noteq> PSA_SUCCESS then ret (e ps)
      else do { x \<leftarrow> pkey_from_psa (traced P) kid wp; psa_destroy_key (traced P) kid; store_ok out x } })"
    for attr d wp and e :: "int \<Rightarrow> zuc_status"
    by (rule keeps_validI, rule valid_bind [OF owed_psa_import_key], rule valid_case_prod, hypsubst,
        simp only: fst_conv snd_conv, rule owed_create_if, rule owed_use_destroy [OF keeps_owed_handles(4)])
  then show ?thesis
    unfolding pkey_import_impl_def Let_def
    by (intro keeps_if keeps_ret keeps_bind [OF keeps_write_cell] keeps_bind [OF keeps_zuc_int_ready]
        keeps_case_option keeps_case_prod; simp)
qed

lemma keeps_owed_parse_parts:
  "keeps owed (parse_input (traced P) src pk)" "keeps owed (parse_attributes (traced P) is_pair ctx)"
  unfolding parse_input_def parse_attributes_def by (intro keeps_intros; simp)+

lemma keeps_owed_parse_import: "keeps owed (parse_import (traced P) pk is_pair attr ctx out)"
  unfolding parse_import_def
proof (rule keeps_validI, rule valid_bind [OF owed_create])
  fix v r
  have *: "keeps owed (do {
       st \<leftarrow> store_ok out x;
       if st = ZUC_OK \<and> pk then do {
         k \<leftarrow> deref_pkey (snd x);
         if \<not> k_is_private k then do { zuc_pkey_free (snd x); write_cell out NULL; ret ZUC_ERR_INVALID_ARGUMENT }
         else ret st
       }
       else ret st })" for x
    by (intro keeps_intros keeps_owed_handles; simp)
  show "valid (\<lambda>w. owed w = (if r_status r = PSA_SUCCESS then add_mset (r_id r) v else v))
     (do {
        _ \<leftarrow> psa_do (traced P) (PK Pk_free) (r_op r);
        if r_status r \<noteq> 0
        then ret (if r_status r = PSA_ERROR_INSUFFICIENT_MEMORY then ZUC_ERR_MEMORY
                  else ZUC_ERR_INVALID_ARGUMENT)
        else do {
          x \<leftarrow> pkey_from_psa (traced P) (r_id r) (pk \<and> is_pair);
          psa_destroy_key (traced P) (r_id r);
          st \<leftarrow> store_ok out x;
          if st = ZUC_OK \<and> pk then do {
            k \<leftarrow> deref_pkey (snd x);
            if \<not> k_is_private k then do {
              zuc_pkey_free (snd x);
              write_cell out NULL;
              ret ZUC_ERR_INVALID_ARGUMENT
            }
            else ret st
          }
          else ret st
        }
      }) (\<lambda>_ w. owed w = v)"
    by (rule valid_keeps_bind [OF keeps_owed_psa_do], simp, rule owed_create_if,
        rule owed_use_destroy [OF *])
qed simp

lemma keeps_owed_parse_impl: "keeps owed (pkey_parse_impl (traced P) inp len pk out)"
  unfolding pkey_parse_impl_def Let_def
  by (intro keeps_intros keeps_owed_parse_parts keeps_owed_parse_import keeps_owed_import_impl; simp)

lemma keeps_owed_generate_impl: "keeps owed (pkey_generate_impl (traced P) type bits out)"
proof -
  have "keeps owed (do {
      r \<leftarrow> psa_do (traced P) (KEY (Generate_key attr)) None;
      if r_status r \<noteq> PSA_SUCCESS then ret (zuc_int_from_psa (r_status r))
      else do { x \<leftarrow> pkey_from_psa (traced P) (r_id r) True; psa_destroy_key (traced P) (r_id r); store_ok out x } })"
    for attr
    by (rule keeps_validI, rule valid_bind [OF owed_create], simp, rule owed_create_if,
        rule owed_use_destroy [OF keeps_owed_handles(4)])
  then show ?thesis
    unfolding pkey_generate_impl_def Let_def
    by (intro keeps_if keeps_ret keeps_bind [OF keeps_write_cell] keeps_bind [OF keeps_zuc_int_ready]
        keeps_case_prod; simp)
qed

lemma keeps_owed_public_impl: "keeps owed (pkey_public_impl (traced P) key out)"
  unfolding pkey_public_impl_def by (intro keeps_intros keeps_owed_handles; simp)

lemma keeps_owed_public_der [keeps_intros]: "keeps owed (public_der (traced P) key)"
  unfolding public_der_def by (intro keeps_intros keeps_owed_handles; simp)

lemma keeps_owed_spki_der [keeps_intros]: "keeps owed (spki_der (traced P) k)"
  unfolding spki_der_def Let_def
  by (rule keeps_owed_import_use, rule keeps_ret, rule valid_keeps_bind [OF keeps_owed_psa_do], simp,
      rule owed_destroy_last) (intro keeps_intros; simp)

lemma keeps_owed_pkcs8_wrap [keeps_intros]: "keeps owed (pkcs8_wrap p n)"
  unfolding pkcs8_wrap_def Let_def by (intro keeps_intros; simp)

lemma keeps_owed_ec_encode [keeps_intros]: "keeps owed (ec_encode (traced P) key format po)"
  unfolding ec_encode_def Let_def by (intro keeps_intros; simp)

lemma keeps_owed_write_impl: "keeps owed (pkey_write_impl (traced P) key format po out os ol)"
  unfolding pkey_write_impl_def write_encode_def write_output_def Let_def
  by (intro keeps_intros keeps_owed_handles; simp)

lemma keeps_owed_export_impl: "keeps owed (pkey_export_impl (traced P) key po out os ol)"
  unfolding pkey_export_impl_def by (intro keeps_intros keeps_owed_handles; simp)

text \<open>Rules that walk through a function up to its import and from there to its destroy.\<close>

lemmas owed_walk = keeps_if keeps_ret keeps_owed_import_use owed_destroy_last
  keeps_bind [OF keeps_owed_handles(3)] keeps_bind [OF keeps_zuc_int_ready]
  keeps_bind [OF keeps_owed_struct(1)] keeps_bind [OF keeps_zuc_secure_zero]
  keeps_bind [OF keeps_write_size]
  valid_keeps_bind [OF keeps_read_bytes] valid_keeps_bind [OF keeps_owed_psa_do]
  valid_keeps_bind [OF keeps_world(2)] valid_keeps_bind [OF keeps_write_size]
  valid_keeps_bind [OF keeps_if [OF keeps_read_bytes keeps_ret]]

lemma keeps_owed_use_impl:
  "keeps owed (pkey_sign_hash_impl (traced P) key sch h d dl sig ss sl)"
  "keeps owed (pkey_verify_hash_impl (traced P) key sch h d dl sig sgl)"
  "keeps owed (pkey_encrypt_impl (traced P) key sch h inp len out os ol)"
  "keeps owed (pkey_decrypt_impl (traced P) key sch h inp len out os ol)"
  unfolding pkey_sign_hash_impl_def pkey_verify_hash_impl_def pkey_encrypt_impl_def
    pkey_decrypt_impl_def Let_def
  by (intro owed_walk; simp)+

lemma keeps_owed_import_then:
  assumes "\<And>kid M. valid (\<lambda>w. owed w = add_mset kid M) (body kid) (\<lambda>_ w. owed w = M)"
    and "\<And>x. keeps owed (tail x)"
  shows "keeps owed (State_Monad.bind (pkey_import (traced P) k alg usage)
    (\<lambda>(st, kid). State_Monad.bind (if st = ZUC_OK then body kid else ret st) tail))"
proof (rule keeps_validI, rule valid_bind [OF owed_pkey_import], rule valid_case_prod, rule valid_bind)
  fix v and r :: "zuc_status \<times> psa_key_id_t" and st kid
  assume "r = (st, kid)"
  then show "valid (\<lambda>w. owed w = (if fst r = ZUC_OK then add_mset (snd r) v else v))
      (if st = ZUC_OK then body kid else ret st) (\<lambda>_ w. owed w = v)"
    using assms(1) by (simp add: valid_ret_keep)
qed (rule valid_keeps [OF assms(2)])

lemma keeps_owed_agree_impl: "keeps owed (pkey_agree_impl (traced P) key peer out os ol)"
  unfolding pkey_agree_impl_def Let_def
  by (intro owed_walk keeps_bind [OF keeps_owed_public_der] keeps_case_prod keeps_owed_import_then
      keeps_bind [OF keeps_free_bytes] keeps_bind [OF keeps_gets] keeps_bind [OF keeps_read_bytes]
      keeps_bind [OF keeps_if [OF keeps_bind [OF keeps_zuc_secure_zero keeps_write_size] keeps_ret]]; simp)

lemma keeps_owed_watched [keeps_intros]: "keeps owed m \<Longrightarrow> keeps owed (watched m)"
  unfolding watched_def zuc_int_alloc_watch_def zuc_int_memory_or_def by (intro keeps_intros; simp)

section \<open>Lemmas: the calls of a kind\<close>

text \<open>The calls of a kind that a traced backend has been given so far.\<close>

definition calls_of :: "(psa_call \<Rightarrow> bool) \<Rightarrow> (call_log \<times> 'b, 'o) world \<Rightarrow> psa_call list" where
  "calls_of A w = filter A (map fst (fst (w_psa w)))"

fun is_decryption :: "psa_call \<Rightarrow> bool" where
  "is_decryption (ASYM (Asymmetric_decrypt kid alg d n)) = True"
| "is_decryption _ = False"

fun is_agreement :: "psa_call \<Rightarrow> bool" where
  "is_agreement (ASYM (Raw_key_agreement alg kid pt n)) = True"
| "is_agreement _ = False"

lemma keeps_calls_psa_do [keeps_intros]:
  "\<not> A c \<Longrightarrow> keeps (calls_of A) (psa_do (traced P) c op)"
  "\<not> A (KEY (Import_key attr d)) \<Longrightarrow> keeps (calls_of A) (psa_import_key (traced P) attr d)"
  "\<not> A (KEY (Destroy_key k)) \<Longrightarrow> keeps (calls_of A) (psa_destroy_key (traced P) k)"
  by (simp_all add: keeps_def psa_import_key_def psa_destroy_key_def traced_do calls_of_def split: prod.splits)

lemma keeps_calls_struct [keeps_intros]:
  "keeps (calls_of A) (deref_pkey p)" "keeps (calls_of A) (set_pkey p k)" "keeps (calls_of A) (free_struct_pkey p)"
  "keeps (calls_of A) calloc_pkey"
  unfolding deref_pkey_def set_pkey_def free_struct_pkey_def calloc_pkey_def
  by (intro keeps_intros; simp add: calls_of_def)+

lemma keeps_agreement_public_der: "keeps (calls_of is_agreement) (public_der (traced P) key)"
  unfolding public_der_def pkey_public_core_def pkey_from_psa_def pkey_import_def zuc_pkey_free_def pkey_destroy_def Let_def
  by (intro keeps_intros; simp add: calls_of_def)

lemma pkey_import_asks:
  assumes "run_state (pkey_import (traced P) k alg usage) w = (r, w')"
  shows "w_mem w' = w_mem w \<and> calls_of is_decryption w' = calls_of is_decryption w \<and>
    calls_of is_agreement w' = calls_of is_agreement w"
  using assms by (auto simp: pkey_import_def psa_import_key_def traced_do calls_of_def split: prod.splits)

lemma decrypt_impl_uniform:
  assumes run: "run_state (pkey_decrypt_impl (traced P) key scheme hash inp len out out_size out_len) w = (st, w')"
  shows "if calls_of is_decryption w' = calls_of is_decryption w then st \<noteq> ZUC_OK \<and> w_mem w' = w_mem w
    else st \<in> {ZUC_OK, ZUC_ERR_AUTH, ZUC_ERR_MEMORY} \<and>
      (st \<noteq> ZUC_OK \<longrightarrow> mem_read (w_mem w') out out_size = replicate (unat out_size) 0 \<and> w_sizes w' out_len = 0)"
proof (cases "key = NULL \<or> inp = NULL \<or> out = NULL \<or> out_len = NULL \<or> w_refcount w = 0")
  case True
  then have "st \<noteq> ZUC_OK \<and> w_mem w' = w_mem w \<and> w_psa w' = w_psa w"
    using run by (auto simp: pkey_decrypt_impl_def clear_len_def run_simps word_gt_0 split: if_splits)
  then show ?thesis by (simp add: calls_of_def)
next
  case args: False
  obtain k w1 where k: "run_state (deref_pkey key) (w\<lparr>w_sizes := (w_sizes w)(out_len := 0)\<rparr>) = (k, w1)" by force
  have w1: "w_mem w1 = w_mem w" "w_psa w1 = w_psa w"
    using k by (auto simp: run_simps split: option.splits)
  note exec = pkey_decrypt_impl_def clear_len_def run_write_size run_zuc_int_ready word_gt_0 Let_def
  show ?thesis
  proof (cases "k_is_private k \<and> crypt_alg scheme hash \<noteq> 0 \<and> k_type k = ZUC_ALG_RSA")
    case True
    obtain st1 kid w2 where i: "run_state (pkey_import (traced P) k (crypt_alg scheme hash) PKEY_USAGE_DECRYPT) w1 = ((st1, kid), w2)"
      by (metis surj_pair)
    note i2 = pkey_import_asks [OF i]
    show ?thesis
    proof (cases "st1 = ZUC_OK")
      case False
      then show ?thesis using run args k True i i2 w1 by (simp add: exec calls_of_def)
    next
      case okay: True
      let ?c = "ASYM (Asymmetric_decrypt kid (crypt_alg scheme hash) (mem_read (w_mem w2) inp len) out_size)"
      obtain r b where r: "P ?c None (snd (w_psa w2)) = (r, b)" by force
      have ask: "calls_of is_decryption w' = calls_of is_decryption w @ [?c]"
        using run args k True i i2 w1 okay r
        by (auto simp: exec calls_of_def run_read_bytes traced_do run_write_out psa_destroy_key_def run_zuc_secure_zero
            split: if_splits prod.splits)
      show ?thesis
        using run args k True i okay r ask
        by (auto simp: exec run_read_bytes traced_do run_write_out psa_destroy_key_def run_zuc_secure_zero mem_read_write_same
            split: if_splits prod.splits)
    qed
  next
    case refused: False
    then have "st \<noteq> ZUC_OK" "w' = w1" using run args k by (auto simp: exec split: if_splits)
    with w1 show ?thesis by (simp add: calls_of_def)
  qed
qed
lemma agree_impl_secret:
  assumes run: "run_state (pkey_agree_impl (traced P) key peer out out_size out_len) w = (st, w')"
  shows "if calls_of is_agreement w' = calls_of is_agreement w then st \<noteq> ZUC_OK
    else if st = ZUC_OK then \<exists>k. w_pkeys w key = Some k \<and> k_is_private k \<and>
      (k_type k = ZUC_ALG_X25519 \<longrightarrow> (\<exists>b \<in> set (mem_read (w_mem w') out (w_sizes w' out_len)). b \<noteq> 0))
    else mem_read (w_mem w') out out_size = replicate (unat out_size) 0 \<and> w_sizes w' out_len = 0"
proof (cases "w_refcount w = 0 \<or> key = NULL \<or> peer = NULL \<or> out = NULL \<or> out_len = NULL \<or> w_pkeys w key = None")
  case True
  then have "st \<noteq> ZUC_OK \<and> w_psa w' = w_psa w"
    using run
    by (auto simp: pkey_agree_impl_def clear_len_def run_simps zuc_alg_available_iff all_algs_def zero_pkey_def word_gt_0
        split: if_splits option.splits)
  then show ?thesis by (simp add: calls_of_def)
next
  case args: False
  then obtain k where k: "w_pkeys w key = Some k" by blast
  obtain q w1 where q: "run_state (deref_pkey peer) (w\<lparr>w_sizes := (w_sizes w)(out_len := 0)\<rparr>) = (q, w1)" by force
  have w1: "w_psa w1 = w_psa w"
    using q by (auto simp: run_simps split: option.splits)
  have key: "run_state (deref_pkey key) (w\<lparr>w_sizes := (w_sizes w)(out_len := 0)\<rparr>) =
      (k, w\<lparr>w_sizes := (w_sizes w)(out_len := 0)\<rparr>)"
    using k args by (simp add: run_simps)
  define ask where "ask point n kid = do {
            pt \<leftarrow> read_bytes point n;
            r \<leftarrow> psa_do (traced P) (ASYM (Raw_key_agreement PSA_ALG_ECDH kid pt out_size)) None;
            write_out out out_size (r_out r);
            write_size out_len (r_len r);
            psa_destroy_key (traced P) kid;
            ret (if r_status r = PSA_SUCCESS then ZUC_OK
                 else if r_status r = PSA_ERROR_INSUFFICIENT_MEMORY then ZUC_ERR_MEMORY
                 else ZUC_ERR_INVALID_ARGUMENT) }" for point n kid
  note exec = pkey_agree_impl_def [of "traced P" key peer out out_size out_len, folded ask_def] clear_len_def run_write_size run_zuc_int_ready word_gt_0 Let_def zuc_alg_available_iff
    all_algs_def key q
  show ?thesis
  proof (cases "k_type k = ZUC_ALG_RSA \<or> \<not> k_is_private k \<or> k_type q \<noteq> k_type k \<or> out_size < ec_bytes k")
    case True
    then have "st \<noteq> ZUC_OK" "w' = w1"
      using run args by (auto simp: exec split: if_splits)
    with w1 show ?thesis by (simp add: calls_of_def)
  next
    case fits: False
    obtain st2 point n w2 where p: "run_state (public_der (traced P) peer) w1 = ((st2, point, n), w2)"
      by (metis surj_pair)
    have w2: "calls_of is_agreement w2 = calls_of is_agreement w"
      using keepsD [OF keeps_agreement_public_der p] w1 by (simp add: calls_of_def)
    show ?thesis
    proof (cases "st2 = ZUC_OK")
      case False
      then have "st \<noteq> ZUC_OK" "w' = w2"
        using run args fits p by (auto simp: exec split: if_splits)
      with w2 show ?thesis by simp
    next
      case okay: True
      obtain st3 kid w3 where i: "run_state (pkey_import (traced P) k PSA_ALG_ECDH PSA_KEY_USAGE_DERIVE) w2 = ((st3, kid), w3)"
        by (metis surj_pair)
      have w3: "calls_of is_agreement w3 = calls_of is_agreement w"
        using pkey_import_asks [OF i] w2 by simp
      show ?thesis
      proof (cases "st3 = ZUC_OK")
        case False
        then have "st \<noteq> ZUC_OK" "w_psa w' = w_psa w3"
          using run args fits p okay i by (auto simp: exec run_read_bytes run_zuc_secure_zero free_bytes_def split: if_splits)
        with w3 show ?thesis by (simp add: calls_of_def)
      next
        case True
        let ?c = "ASYM (Raw_key_agreement PSA_ALG_ECDH kid (mem_read (w_mem w3) point n) out_size)"
        obtain st4 w4 where m: "run_state (ask point n kid) w3 = (st4, w4)" by force
        obtain w5 where f: "run_state (free_bytes point) w4 = ((), w5)" by (metis old.unit.exhaust surj_pair)
        have "calls_of is_agreement w4 = calls_of is_agreement w3 @ [?c]"
          using m by (auto simp: ask_def run_read_bytes run_write_out run_write_size traced_do psa_destroy_key_def calls_of_def
              split: prod.splits)
        moreover have "w_psa w5 = w_psa w4" by (rule keepsD [OF keeps_free_bytes f]) simp_all
        ultimately have ask5: "calls_of is_agreement w5 = calls_of is_agreement w @ [?c]"
          using w3 by (simp add: calls_of_def)
        define low where "low \<longleftrightarrow> k_type k = ZUC_ALG_X25519 \<and> list_all (\<lambda>b. b = 0) (mem_read (w_mem w5) out (w_sizes w5 out_len))"
        have fin: "if st4 = ZUC_OK \<and> \<not> low then st = ZUC_OK \<and> w' = w5
          else st \<noteq> ZUC_OK \<and> w' = w5\<lparr>w_mem := mem_write (w_mem w5) out (replicate (unat out_size) 0),
            w_sizes := (w_sizes w5)(out_len := 0)\<rparr>"
          using run args fits p okay i True m f
          by (auto simp: exec run_read_bytes run_zuc_secure_zero low_def split: if_splits)
        show ?thesis
        proof (cases "st4 = ZUC_OK \<and> \<not> low")
          case True
          then show ?thesis using fin ask5 k fits by (auto simp: low_def list_all_iff)
        next
          case False
          then have "st \<noteq> ZUC_OK" "w' = w5\<lparr>w_mem := mem_write (w_mem w5) out (replicate (unat out_size) 0),
            w_sizes := (w_sizes w5)(out_len := 0)\<rparr>" using fin by auto
          then show ?thesis using ask5 by (simp add: mem_read_write_same calls_of_def)
        qed
      qed
    qed
  qed
qed

text \<open>The allocation watch around an operation changes its status only.\<close>

lemma watched_impl:
  assumes "run_state (watched m) w = (st, w')"
  obtains st1 where "run_state m (w\<lparr>w_alloc_failed := False\<rparr>) = (st1, w')"
    "st = (if st1 \<noteq> ZUC_OK \<and> w_alloc_failed w' then ZUC_ERR_MEMORY else st1)"
  using assms by (cases "run_state m (w\<lparr>w_alloc_failed := False\<rparr>)") (auto simp: watched_def run_simps split: if_splits)

lemma calls_of_watch: "calls_of A (w\<lparr>w_alloc_failed := b\<rparr>) = calls_of A w"
  by (simp add: calls_of_def)

section \<open>Lemmas: key types\<close>

lemma alg_of_ec_pair_type:
  assumes "fst (ec_pair_type type) \<noteq> 0"
  shows "alg_of_psa (fst (ec_pair_type type)) (snd (ec_pair_type type)) = type"
    and "alg_of_psa (PSA_KEY_TYPE_PUBLIC_KEY_OF_KEY_PAIR (fst (ec_pair_type type)))
      (snd (ec_pair_type type)) = type"
  using assms
  by (auto simp: ec_pair_type_def alg_of_psa_def PSA_KEY_TYPE_ECC_KEY_PAIR_def PSA_KEY_TYPE_IS_RSA_def
      PSA_KEY_TYPE_IS_ECC_def PSA_KEY_TYPE_PUBLIC_KEY_OF_KEY_PAIR_def split: if_splits)

lemma skip_space_split:
  "\<exists>ws. inp = ws @ skip_space inp \<and> (\<forall>c \<in> set ws. c \<in> {0x20, 0x09, 0x0d, 0x0a}) \<and>
    (\<forall>c cs. skip_space inp = c # cs \<longrightarrow> c \<notin> {0x20, 0x09, 0x0d, 0x0a})"
proof (induction inp)
  case (Cons c cs)
  then obtain ws where ws: "cs = ws @ skip_space cs" "\<forall>c \<in> set ws. c \<in> {0x20, 0x09, 0x0d, 0x0a}"
    "\<forall>c cs'. skip_space cs = c # cs' \<longrightarrow> c \<notin> {0x20, 0x09, 0x0d, 0x0a}" by blast
  show ?case
  proof (cases "c \<in> {0x20, 0x09, 0x0d, 0x0a}")
    case True
    then show ?thesis using ws by (intro exI [of _ "c # ws"]) auto
  qed (auto intro: exI [of _ "[]"])
qed simp

lemma skip_space_append:
  assumes "\<forall>c \<in> set ws. c \<in> {0x20, 0x09, 0x0d, 0x0a}" "c \<notin> {0x20, 0x09, 0x0d, 0x0a}"
  shows "skip_space (ws @ c # cs) = c # cs"
  using assms by (induction ws) auto

section \<open>Properties\<close>

text \<open>
  PEM detection. \<^verbatim>\<open>looks_like_pem\<close> accepts exactly the inputs that are some spaces, tabs and line
  ends followed by \<^verbatim>\<open>-----BEGIN\<close> and anything at all; in particular it never looks past the end of
  a short input.
\<close>

theorem looks_like_pem_iff:
  "looks_like_pem inp \<longleftrightarrow>
    (\<exists>ws rest. inp = ws @ pem_begin @ rest \<and> set ws \<subseteq> {0x20, 0x09, 0x0d, 0x0a})"
proof
  assume "looks_like_pem inp"
  then have "take (length pem_begin) (skip_space inp) = pem_begin"
    by (simp add: looks_like_pem_def Let_def)
  then have "skip_space inp = pem_begin @ drop (length pem_begin) (skip_space inp)"
    by (metis append_take_drop_id)
  then show "\<exists>ws rest. inp = ws @ pem_begin @ rest \<and> set ws \<subseteq> {0x20, 0x09, 0x0d, 0x0a}"
    using skip_space_split [of inp] by (metis subsetI)
next
  assume "\<exists>ws rest. inp = ws @ pem_begin @ rest \<and> set ws \<subseteq> {0x20, 0x09, 0x0d, 0x0a}"
  then obtain ws rest where inp: "inp = ws @ pem_begin @ rest"
    and ws: "\<forall>c \<in> set ws. c \<in> {0x20, 0x09, 0x0d, 0x0a}" by blast
  obtain t where t: "pem_begin = 0x2d # t"
    by (simp add: pem_begin_def)
  have "skip_space inp = pem_begin @ rest"
    unfolding inp t append_Cons by (rule skip_space_append [OF ws]) simp
  then show "looks_like_pem inp"
    by (simp add: looks_like_pem_def Let_def)
qed

text \<open>
  Key types. The backend type and size that the code chooses for a curve, as a pair or as the
  public half of it, are recognised as that same curve when a key of that type comes back, and an
  ECDSA signature is 64, 96 or 132 bytes long.
\<close>

theorem ec_key_types:
  "fst (ec_pair_type type) = 0 \<or>
    alg_of_psa (fst (ec_pair_type type)) (snd (ec_pair_type type)) = type \<and>
    alg_of_psa (PSA_KEY_TYPE_PUBLIC_KEY_OF_KEY_PAIR (fst (ec_pair_type type)))
      (snd (ec_pair_type type)) = type \<and>
    PSA_KEY_TYPE_IS_KEY_PAIR (fst (ec_pair_type type)) \<and>
    (k_type k = type \<and> is_nist_curve type \<and> k_bits k = snd (ec_pair_type type)
      \<longrightarrow> signature_size k \<in> {64, 96, 132})"
proof -
  have "PSA_KEY_TYPE_IS_KEY_PAIR (fst (ec_pair_type type))" if "fst (ec_pair_type type) \<noteq> 0"
    using that by (auto simp: ec_pair_type_def PSA_KEY_TYPE_ECC_KEY_PAIR_def PSA_KEY_TYPE_IS_KEY_PAIR_def
        split: if_splits)
  moreover have "signature_size k \<in> {64, 96, 132}"
    if "k_type k = type" "is_nist_curve type" "k_bits k = snd (ec_pair_type type)"
    using that by (auto simp: is_nist_curve_def signature_size_def ec_bytes_def ec_pair_type_def)
  ultimately show ?thesis
    using alg_of_ec_pair_type by blast
qed

theorem ec_key_types_witness:
  "signature_size \<lparr>k_type = ZUC_ALG_EC_P521, k_ptype = 0, k_is_private = True, k_bits = 521,
     k_der = NULL, k_der_len = 0\<rparr> \<in> {64, 96, 132}"
  using ec_key_types [of ZUC_ALG_EC_P521 "\<lparr>k_type = ZUC_ALG_EC_P521, k_ptype = 0, k_is_private = True,
    k_bits = 521, k_der = NULL, k_der_len = 0\<rparr>"]
  by (simp add: ec_pair_type_def is_nist_curve_def PSA_KEY_TYPE_ECC_KEY_PAIR_def)

text \<open>
  C10. No key is left in the backend. Whatever the backend answers and whatever the arguments are,
  every operation on public keys, on success and on each of its failure paths, leaves in the
  backend exactly the keys that were there before the call.
\<close>

theorem zuc_pkey_no_key_left:
  "owed (snd (run_state (zuc_pkey_parse (traced P) inp len private_key out) w)) = owed w \<and>
   owed (snd (run_state (zuc_pkey_generate (traced P) type bits out) w)) = owed w \<and>
   owed (snd (run_state (zuc_pkey_public (traced P) key out) w)) = owed w \<and>
   owed (snd (run_state (zuc_pkey_write (traced P) key format public_only out out_size out_len) w)) = owed w \<and>
   owed (snd (run_state (zuc_pkey_sign_hash (traced P) key scheme hash digest digest_len sig sig_size sig_len) w))
     = owed w \<and>
   owed (snd (run_state (zuc_pkey_verify_hash (traced P) key scheme hash digest digest_len sig sig_size) w))
     = owed w \<and>
   owed (snd (run_state (zuc_pkey_encrypt (traced P) key scheme hash inp len out out_size out_len) w)) = owed w \<and>
   owed (snd (run_state (zuc_pkey_decrypt (traced P) key scheme hash inp len out out_size out_len) w)) = owed w \<and>
   owed (snd (run_state (zuc_pkey_import (traced P) type private_key inp len out) w)) = owed w \<and>
   owed (snd (run_state (zuc_pkey_export (traced P) key public_only out out_size out_len) w)) = owed w \<and>
   owed (snd (run_state (zuc_pkey_agree (traced P) key peer out out_size out_len) w)) = owed w \<and>
   owed (snd (run_state (zuc_pkey_free key) w)) = owed w"
  unfolding zuc_pkey_parse_def zuc_pkey_generate_def zuc_pkey_public_def zuc_pkey_write_def
    zuc_pkey_sign_hash_def zuc_pkey_verify_hash_def zuc_pkey_encrypt_def zuc_pkey_decrypt_def
    zuc_pkey_import_def zuc_pkey_export_def zuc_pkey_agree_def
  by (intro conjI keeps_snd keeps_owed_watched keeps_owed_parse_impl keeps_owed_generate_impl
      keeps_owed_public_impl keeps_owed_write_impl keeps_owed_use_impl keeps_owed_export_impl
      keeps_owed_agree_impl keeps_owed_handles keeps_bind [OF keeps_read_bytes] keeps_owed_import_impl)

text \<open>
  C24. RSA decryption has one failure. Once \<^verbatim>\<open>zuc_pkey_decrypt\<close> has asked the backend to decrypt, its status is
  \<^verbatim>\<open>ZUC_OK\<close>, \<^verbatim>\<open>ZUC_ERR_AUTH\<close>, or \<^verbatim>\<open>ZUC_ERR_MEMORY\<close> when memory ran out: no other backend status reaches the
  caller, so a status cannot tell one kind of bad padding from another; and on failure the whole output
  buffer is zero and the length is 0. A call that is refused before that, for its arguments or because the
  key could not be loaded, does not succeed and has not changed a byte of memory, the output buffer included.
\<close>

theorem zuc_pkey_decrypt_uniform:
  assumes run: "run_state (zuc_pkey_decrypt (traced P) key scheme hash inp len out out_size out_len) w = (st, w')"
  shows "if calls_of is_decryption w' = calls_of is_decryption w then st \<noteq> ZUC_OK \<and> w_mem w' = w_mem w
    else st \<in> {ZUC_OK, ZUC_ERR_AUTH, ZUC_ERR_MEMORY} \<and>
      (st \<noteq> ZUC_OK \<longrightarrow> mem_read (w_mem w') out out_size = replicate (unat out_size) 0 \<and> w_sizes w' out_len = 0)"
proof -
  obtain st1 where r: "run_state (pkey_decrypt_impl (traced P) key scheme hash inp len out out_size out_len)
      (w\<lparr>w_alloc_failed := False\<rparr>) = (st1, w')"
    and st: "st = (if st1 \<noteq> ZUC_OK \<and> w_alloc_failed w' then ZUC_ERR_MEMORY else st1)"
    by (rule watched_impl [OF run [unfolded zuc_pkey_decrypt_def]])
  show ?thesis
    using decrypt_impl_uniform [OF r] by (auto simp: st calls_of_watch split: if_splits)
qed

theorem zuc_pkey_decrypt_uniform_witness:
  "\<exists>w'. run_state (zuc_pkey_decrypt (traced (scripted bad_padding)) 64 ZUC_ALG_RSA_PKCS1V15_CRYPT ZUC_ALG_NONE
      1000 256 2000 256 3000) ((fresh_world ([], ()) [])\<lparr>w_pkeys := [64 \<mapsto> demo_rsa]\<rparr>) = (ZUC_ERR_AUTH, w') \<and>
    calls_of is_decryption w' \<noteq> [] \<and> mem_read (w_mem w') 2000 256 = replicate 256 0"
proof -
  let ?m = "zuc_pkey_decrypt (traced (scripted bad_padding)) 64 ZUC_ALG_RSA_PKCS1V15_CRYPT ZUC_ALG_NONE
      1000 256 2000 256 3000"
  let ?w = "(fresh_world ([], ()) [])\<lparr>w_pkeys := [64 \<mapsto> demo_rsa]\<rparr> :: (call_log \<times> unit, unit) world"
  obtain w' where r: "run_state ?m ?w = (ZUC_ERR_AUTH, w')" and asked: "calls_of is_decryption w' \<noteq> []"
    by (simp add: zuc_pkey_decrypt_def watched_def pkey_decrypt_impl_def clear_len_def pkey_import_def calls_of_def
      psa_import_key_def psa_destroy_key_def run_simps demo_rsa_def crypt_alg_def scripted_def traced_def)
  have "calls_of is_decryption ?w = []" by (simp add: calls_of_def)
  then show ?thesis
    using zuc_pkey_decrypt_uniform [OF r] r asked by auto
qed

text \<open>
  C14. A signature is accepted only by the backend's verification. When \<^verbatim>\<open>zuc_pkey_verify_hash\<close> returns
  \<^verbatim>\<open>ZUC_OK\<close>, the handle's key was loaded for verification under exactly the algorithm of the scheme and
  digest, the scheme belongs to the type of the key, the digest and the signature have the length
  that algorithm and key require, and the backend verified exactly those two byte strings under
  that key with success. It made no other call but the destruction of the key.
\<close>

theorem zuc_pkey_verify_hash_ok:
  assumes "run_state (zuc_pkey_verify_hash (traced P) key scheme hash digest digest_len sig sig_len) w
      = (ZUC_OK, w')"
  shows "\<exists>k kid e1 e2. w_pkeys w key = Some k \<and> scheme_fits k scheme \<and>
    digest_len = zuc_alg_size hash \<and> sig_len = signature_size k \<and> sign_alg scheme hash \<noteq> 0 \<and>
    fst (w_psa w') = fst (w_psa w) @
      [(KEY (Import_key (psa_key_attributes_init\<lparr>pa_type := k_ptype k, pa_alg := sign_alg scheme hash,
          pa_usage := PSA_KEY_USAGE_VERIFY_HASH\<rparr>) (mem_read (w_mem w) (k_der k) (k_der_len k))),
        PSA_SUCCESS, kid),
       (ASYM (Verify_hash kid (sign_alg scheme hash) (mem_read (w_mem w) digest digest_len)
          (mem_read (w_mem w) sig sig_len)), PSA_SUCCESS, e1),
       (KEY (Destroy_key kid), e2)]"
proof (cases "w_pkeys w key")
  case None
  then show ?thesis
    using assms
    by (auto simp: zuc_pkey_verify_hash_def watched_def pkey_verify_hash_impl_def run_simps Let_def
        scheme_fits_def zero_pkey_def is_nist_curve_def split: if_splits)
next
  case (Some k)
  then show ?thesis
    using assms
    by (auto simp: zuc_pkey_verify_hash_def watched_def pkey_verify_hash_impl_def pkey_import_def
        psa_import_key_def psa_destroy_key_def traced_do deref_defs run_deref run_zuc_int_alloc_watch
        run_zuc_int_memory_or Let_def split: if_splits prod.splits)
qed

theorem zuc_pkey_verify_hash_ok_witness:
  "\<exists>w' kid e1 e2. run_state (zuc_pkey_verify_hash (traced (scripted accept_all)) 64 ZUC_ALG_RSA_PSS
      ZUC_ALG_SHA256 1000 32 2000 256) ((fresh_world ([], ()) [])\<lparr>w_pkeys := [64 \<mapsto> demo_rsa]\<rparr>)
      = (ZUC_OK, w') \<and>
    fst (w_psa w') =
      [(KEY (Import_key (psa_key_attributes_init\<lparr>pa_type := 0x7001,
          pa_alg := sign_alg ZUC_ALG_RSA_PSS ZUC_ALG_SHA256, pa_usage := 0x2000\<rparr>)
          (mem_read (\<lambda>a. ucast a) 700 8)), PSA_SUCCESS, kid),
       (ASYM (Verify_hash kid (sign_alg ZUC_ALG_RSA_PSS ZUC_ALG_SHA256) (mem_read (\<lambda>a. ucast a) 1000 32)
          (mem_read (\<lambda>a. ucast a) 2000 256)), PSA_SUCCESS, e1),
       (KEY (Destroy_key kid), e2)]"
proof -
  let ?m = "zuc_pkey_verify_hash (traced (scripted accept_all)) 64 ZUC_ALG_RSA_PSS
      ZUC_ALG_SHA256 1000 32 2000 256"
  let ?w = "(fresh_world ([], ()) [])\<lparr>w_pkeys := [64 \<mapsto> demo_rsa]\<rparr> :: (call_log \<times> unit, unit) world"
  obtain w' where r: "run_state ?m ?w = (ZUC_OK, w')"
    by (simp add: zuc_pkey_verify_hash_def watched_def pkey_verify_hash_impl_def pkey_import_def
      psa_import_key_def psa_destroy_key_def run_simps demo_rsa_def sign_alg_def scripted_def traced_def
      scheme_fits_def signature_size_def zuc_int_digest_available_iff zuc_int_psa_hash_def
      zuc_alg_size_def hash_policy_def)
  show ?thesis
    using zuc_pkey_verify_hash_ok [OF r] by (intro exI [of _ w']) (auto simp: r [unfolded demo_rsa_def] demo_rsa_def)
qed

text \<open>
  C25. Key agreement yields a usable secret or none, for every pair of handles and every backend. It succeeds
  only with a private key and only after the backend was asked for the shared secret, and a successful X25519
  agreement never delivers an all-zero one (RFC 7748 section 6.1). When the backend was asked and the call fails,
  the whole output buffer is zero and the length 0. (A call that is refused before, for its arguments or because
  the peer's public point or the key cannot be had, has no secret to erase; it fails.)
\<close>

theorem zuc_pkey_agree_secret:
  assumes run: "run_state (zuc_pkey_agree (traced P) key peer out out_size out_len) w = (st, w')"
  shows "if calls_of is_agreement w' = calls_of is_agreement w then st \<noteq> ZUC_OK
    else if st = ZUC_OK then \<exists>k. w_pkeys w key = Some k \<and> k_is_private k \<and>
      (k_type k = ZUC_ALG_X25519 \<longrightarrow> (\<exists>b \<in> set (mem_read (w_mem w') out (w_sizes w' out_len)). b \<noteq> 0))
    else mem_read (w_mem w') out out_size = replicate (unat out_size) 0 \<and> w_sizes w' out_len = 0"
proof -
  obtain st1 where r: "run_state (pkey_agree_impl (traced P) key peer out out_size out_len)
      (w\<lparr>w_alloc_failed := False\<rparr>) = (st1, w')"
    and st: "st = (if st1 \<noteq> ZUC_OK \<and> w_alloc_failed w' then ZUC_ERR_MEMORY else st1)"
    by (rule watched_impl [OF run [unfolded zuc_pkey_agree_def]])
  show ?thesis
    using agree_impl_secret [OF r] by (simp add: st calls_of_watch split: if_splits)
qed

theorem zuc_pkey_agree_secret_witness:
  "\<exists>w'. run_state (zuc_pkey_agree (traced (scripted accept_all)) 64 96 2000 32 3000)
      ((fresh_world ([], ()) [800])\<lparr>w_pkeys := [64 \<mapsto> demo_x25519 True, 96 \<mapsto> demo_x25519 False]\<rparr>) =
      (ZUC_ERR_INVALID_ARGUMENT, w') \<and>
    calls_of is_agreement w' \<noteq> [] \<and> mem_read (w_mem w') 2000 32 = replicate 32 0"
proof -
  let ?m = "zuc_pkey_agree (traced (scripted accept_all)) 64 96 2000 32 3000"
  let ?w = "(fresh_world ([], ()) [800])\<lparr>w_pkeys := [64 \<mapsto> demo_x25519 True, 96 \<mapsto> demo_x25519 False]\<rparr> ::
    (call_log \<times> unit, unit) world"
  obtain w' where r: "run_state ?m ?w = (ZUC_ERR_INVALID_ARGUMENT, w')" and asked: "calls_of is_agreement w' \<noteq> []"
    by (simp add: zuc_pkey_agree_def watched_def pkey_agree_impl_def clear_len_def public_der_def calls_of_def
        malloc_bytes_def pkey_import_def psa_import_key_def psa_destroy_key_def free_bytes_def run_simps traced_def
        zuc_alg_available_iff all_algs_def demo_x25519_def scripted_def ec_bytes_def Let_def)
  have "calls_of is_agreement ?w = []" by (simp add: calls_of_def)
  then show ?thesis
    using zuc_pkey_agree_secret [OF r] r asked by auto
qed

text \<open>
  What the header calls \<^emph>\<open>any failure\<close> of \<^verbatim>\<open>zuc_pkey_decrypt\<close> does not include the argument checks:
  with a public key the call fails with \<^verbatim>\<open>ZUC_ERR_INVALID_ARGUMENT\<close> and every byte of memory, the output
  buffer included, is as it was.
\<close>

theorem zuc_pkey_decrypt_public_keeps_output:
  assumes "w_pkeys w key = Some k" "\<not> k_is_private k" "w_refcount w \<noteq> 0"
    and "key \<noteq> NULL" "inp \<noteq> NULL" "out \<noteq> NULL" "out_len \<noteq> NULL"
  shows "fst (run_state (zuc_pkey_decrypt P key scheme hash inp len out out_size out_len) w) =
      ZUC_ERR_INVALID_ARGUMENT \<and>
    w_mem (snd (run_state (zuc_pkey_decrypt P key scheme hash inp len out out_size out_len) w)) = w_mem w"
  using assms
  by (simp add: zuc_pkey_decrypt_def watched_def pkey_decrypt_impl_def clear_len_def run_simps
      word_gt_0 Let_def)

theorem zuc_pkey_decrypt_public_keeps_output_witness:
  "w_mem (snd (run_state (zuc_pkey_decrypt (scripted accept_all) 64 ZUC_ALG_RSA_OAEP ZUC_ALG_SHA256 1000 256
     2000 256 3000) ((fresh_world () [])\<lparr>w_pkeys := [64 \<mapsto> demo_rsa\<lparr>k_is_private := False\<rparr>]\<rparr>))) 2000 =
   ucast (2000 :: ptr)"
  using zuc_pkey_decrypt_public_keeps_output [of "(fresh_world () [])\<lparr>w_pkeys := [64 \<mapsto>
    demo_rsa\<lparr>k_is_private := False\<rparr>]\<rparr> :: (unit, unit) world" 64 "demo_rsa\<lparr>k_is_private := False\<rparr>" 1000 2000 3000]
  by simp

end
