(* ===== verification/Entropy.thy ===== *)
theory Entropy
  imports Backend
begin

text \<open>
  \<^verbatim>\<open>src/src/zuc_random.c\<close>: the operating system's random source. All four preprocessor branches are
  modelled, selected by a \<open>random_source\<close>. The operating system is the event sequence \<open>w_os\<close>:
  each call of the platform's primitive consumes one event. The \<^verbatim>\<open>getrandom\<close> loop asks again
  after an interruption and after a short read, so it may run forever; it is a partial function
  and \<open>None\<close> is "does not return".
\<close>

datatype random_source = RAND_S | ARC4RANDOM_BUF | GETRANDOM | DEV_URANDOM

record platform =
  pf_win32 :: bool
  pf_apple_or_bsd :: bool
  pf_glibc :: "(nat \<times> nat) option"

definition select_random :: "platform \<Rightarrow> random_source" where
  "select_random pf =
    (if pf_win32 pf then RAND_S
     else if pf_apple_or_bsd pf then ARC4RANDOM_BUF
     else (case pf_glibc pf of
             Some (major, minor) \<Rightarrow>
               if major > 2 \<or> (major = 2 \<and> minor \<ge> 25) then GETRANDOM else DEV_URANDOM
           | None \<Rightarrow> DEV_URANDOM))"

fun zuc_int_random_backend :: "random_source \<Rightarrow> string" where
  "zuc_int_random_backend RAND_S = ''rand_s''"
| "zuc_int_random_backend ARC4RANDOM_BUF = ''arc4random_buf''"
| "zuc_int_random_backend GETRANDOM = ''getrandom''"
| "zuc_int_random_backend DEV_URANDOM = ''/dev/urandom''"

definition zuc_int_random_fail :: "bool \<Rightarrow> ('b, 'o, unit) zuc" where
  "zuc_int_random_fail on = modify (\<lambda>w. w\<lparr>w_random_failing := on\<rparr>)"

section \<open>The four loops\<close>

text \<open>
  Each takes the event sequence, the position in it, the memory and the buffer, and returns
  whether the source succeeded, the new position and the new memory. A primitive that fills
  \<open>n\<close> bytes takes them from its event; \<open>pad n bs\<close> stands for the \<open>n\<close> bytes delivered.
\<close>

definition pad :: "nat \<Rightarrow> byte list \<Rightarrow> byte list" where
  "pad n bs = take n (bs @ replicate n 0)"

lemma chunk4_decreases:
  assumes "(len :: size_t) \<noteq> 0"
  shows "unat (len - (if len < 4 then len else 4)) < unat len"
proof (cases "len < 4")
  case True
  then show ?thesis using assms by (simp add: unat_gt_0)
next
  case False
  then have "4 \<le> len" by simp
  then show ?thesis using assms by (simp add: unat_sub unat_gt_0)
qed

function rand_s_loop ::
  "(nat \<Rightarrow> os_event) \<Rightarrow> nat \<Rightarrow> memory \<Rightarrow> ptr \<Rightarrow> size_t \<Rightarrow> bool \<times> nat \<times> memory" where
  "rand_s_loop ev pos m out len =
    (if len = 0 then (True, pos, m)
     else (case ev pos of
             OS_bytes v \<Rightarrow>
               (let n = (if len < 4 then len else 4)
                in rand_s_loop ev (Suc pos) (mem_write m out (pad (unat n) v)) (out + n) (len - n))
           | _ \<Rightarrow> (False, Suc pos, m)))"
  by pat_completeness auto
termination
  by (relation "measure (\<lambda>(ev, pos, m, out, len). unat len)")
    (auto simp: Let_def chunk4_decreases)

partial_function (option) getrandom_loop ::
  "(nat \<Rightarrow> os_event) \<Rightarrow> nat \<Rightarrow> memory \<Rightarrow> ptr \<Rightarrow> size_t \<Rightarrow> (bool \<times> nat \<times> memory) option" where
  "getrandom_loop ev pos m out len =
    (if len = 0 then Some (True, pos, m)
     else (case ev pos of
             OS_intr \<Rightarrow> getrandom_loop ev (Suc pos) m out len
           | OS_fail \<Rightarrow> Some (False, Suc pos, m)
           | OS_bytes bs \<Rightarrow>
               getrandom_loop ev (Suc pos) (mem_write m out (take (unat len) bs))
                 (out + of_nat (min (length bs) (unat len)))
                 (len - of_nat (min (length bs) (unat len)))))"

definition urandom_read ::
  "(nat \<Rightarrow> os_event) \<Rightarrow> nat \<Rightarrow> memory \<Rightarrow> ptr \<Rightarrow> size_t \<Rightarrow> bool \<times> nat \<times> memory" where
  "urandom_read ev pos m out len =
    (case ev pos of
       OS_bytes bs \<Rightarrow>
         (min (length bs) (unat len) = unat len, Suc pos, mem_write m out (take (unat len) bs))
     | _ \<Rightarrow> (False, Suc pos, m))"

definition arc4random_fill ::
  "(nat \<Rightarrow> os_event) \<Rightarrow> nat \<Rightarrow> memory \<Rightarrow> ptr \<Rightarrow> size_t \<Rightarrow> bool \<times> nat \<times> memory" where
  "arc4random_fill ev pos m out len =
    (True, Suc pos,
     mem_write m out (pad (unat len) (case ev pos of OS_bytes bs \<Rightarrow> bs | _ \<Rightarrow> [])))"

definition os_source ::
  "random_source \<Rightarrow> (nat \<Rightarrow> os_event) \<Rightarrow> nat \<Rightarrow> memory \<Rightarrow> ptr \<Rightarrow> size_t \<Rightarrow>
   (bool \<times> nat \<times> memory) option" where
  "os_source rs ev pos m out len =
    (case rs of
       RAND_S \<Rightarrow> Some (rand_s_loop ev pos m out len)
     | ARC4RANDOM_BUF \<Rightarrow> Some (arc4random_fill ev pos m out len)
     | GETRANDOM \<Rightarrow> getrandom_loop ev pos m out len
     | DEV_URANDOM \<Rightarrow> Some (urandom_read ev pos m out len))"

definition os_random :: "random_source \<Rightarrow> ptr \<Rightarrow> size_t \<Rightarrow> ('b, 'o, bool option) zuc" where
  "os_random rs out len = do {
     failing \<leftarrow> gets w_random_failing;
     if failing then ret (Some False)
     else do {
       res \<leftarrow> gets (\<lambda>w. os_source rs (w_os w) (w_os_pos w) (w_mem w) out len);
       case res of
         None \<Rightarrow> ret None
       | Some x \<Rightarrow> do {
           modify (\<lambda>w. w\<lparr>w_os_pos := fst (snd x), w_mem := snd (snd x)\<rparr>);
           ret (Some (fst x))
         }
     }
   }"

text \<open>The backend's call-out; the result is the status and \<^verbatim>\<open>*output_length\<close>.\<close>

definition mbedtls_psa_external_get_random ::
  "random_source \<Rightarrow> ptr \<Rightarrow> size_t \<Rightarrow> ('b, 'o, (psa_status_t \<times> size_t) option) zuc" where
  "mbedtls_psa_external_get_random rs output output_size = do {
     ok \<leftarrow> os_random rs output output_size;
     ret (case ok of
            None \<Rightarrow> None
          | Some good \<Rightarrow> if \<not> good then Some (PSA_ERROR_INSUFFICIENT_ENTROPY, 0)
                         else Some (PSA_SUCCESS, output_size))
   }"

definition zuc_random_bytes ::
  "random_source \<Rightarrow> ptr \<Rightarrow> size_t \<Rightarrow> ('b, 'o, zuc_status option) zuc" where
  "zuc_random_bytes rs out len =
    (if len = 0 then ret (Some ZUC_OK)
     else if out = NULL then ret (Some ZUC_ERR_INVALID_ARGUMENT)
     else do {
       ready \<leftarrow> zuc_int_ready;
       if \<not> ready then do { zuc_secure_zero out len; ret (Some ZUC_ERR_NOT_READY) }
       else do {
         ok \<leftarrow> os_random rs out len;
         case ok of
           None \<Rightarrow> ret None
         | Some good \<Rightarrow>
             if \<not> good then do { zuc_secure_zero out len; ret (Some ZUC_ERR_ENTROPY) }
             else ret (Some ZUC_OK)
       }
     })"

section \<open>Lemmas\<close>

declare rand_s_loop.simps [simp del]

lemma length_pad [simp]: "length (pad n bs) = n"
  by (simp add: pad_def)


fun os_data :: "os_event \<Rightarrow> byte list" where
  "os_data (OS_bytes bs) = bs"
| "os_data _ = []"

text \<open>The bytes the operating system delivers in the events \<open>pos\<close> to \<open>pos' - 1\<close>.\<close>

definition delivered :: "(nat \<Rightarrow> os_event) \<Rightarrow> nat \<Rightarrow> nat \<Rightarrow> byte list" where
  "delivered ev pos pos' = concat (map (\<lambda>i. os_data (ev i)) [pos..<pos'])"

lemma delivered_Suc: "pos < pos' \<Longrightarrow> delivered ev pos pos' = os_data (ev pos) @ delivered ev (Suc pos) pos'"
  by (simp add: delivered_def upt_rec)

lemma delivered_self [simp]: "delivered ev pos pos = []"
  by (simp add: delivered_def)

lemma getrandom_loop_spec:
  assumes "getrandom_loop ev pos m out len = Some r"
  shows "pos \<le> fst (snd r) \<and> (\<forall>a. a \<notin> buf out len \<longrightarrow> snd (snd r) a = m a) \<and>
    (fst r \<longrightarrow> mem_read (snd (snd r)) out len = take (unat len) (delivered ev pos (fst (snd r))))"
proof (rule getrandom_loop.raw_induct
    [where P = "\<lambda>ev pos m out len r. pos \<le> fst (snd r) \<and>
      (\<forall>a. a \<notin> buf out len \<longrightarrow> snd (snd r) a = m a) \<and>
      (fst r \<longrightarrow> mem_read (snd (snd r)) out len = take (unat len) (delivered ev pos (fst (snd r))))",
      OF _ assms])
  fix f :: "(nat \<Rightarrow> os_event) \<Rightarrow> nat \<Rightarrow> memory \<Rightarrow> ptr \<Rightarrow> size_t \<Rightarrow> (bool \<times> nat \<times> memory) option"
  fix ev pos m out len r
  let ?Q = "\<lambda>ev pos m out len r. pos \<le> fst (snd r) \<and>
      (\<forall>a. a \<notin> buf out len \<longrightarrow> snd (snd r) a = m a) \<and>
      (fst r \<longrightarrow> mem_read (snd (snd r)) out len = take (unat len) (delivered ev pos (fst (snd r))))"
  assume IH: "\<And>ev pos m out len r. f ev pos m out len = Some r \<Longrightarrow> ?Q ev pos m out len r"
  assume eq: "(if len = 0 then Some (True, pos, m)
     else (case ev pos of
             OS_intr \<Rightarrow> f ev (Suc pos) m out len
           | OS_fail \<Rightarrow> Some (False, Suc pos, m)
           | OS_bytes bs \<Rightarrow>
               f ev (Suc pos) (mem_write m out (take (unat len) bs))
                 (out + of_nat (min (length bs) (unat len)))
                 (len - of_nat (min (length bs) (unat len))))) = Some r"
  show "?Q ev pos m out len r"
  proof (cases "len = 0")
    case True
    then show ?thesis using eq by auto
  next
    case False
    show ?thesis
    proof (cases "ev pos")
      case OS_fail
      then show ?thesis using eq False by auto
    next
      case OS_intr
      then have "?Q ev (Suc pos) m out len r" using eq False IH by simp
      then show ?thesis using OS_intr by (simp add: delivered_Suc)
    next
      case (OS_bytes bs)
      define n :: size_t where "n = of_nat (min (length bs) (unat len))"
      have un: "unat n = min (length bs) (unat len)"
        using unsigned_less [where 'a = nat, of len]
        by (simp add: n_def unat_of_nat take_bit_nat_eq_self min_def)
      have nle: "n \<le> len" using un by (simp add: word_le_nat_alt)
      have Q: "?Q ev (Suc pos) (mem_write m out (take (unat len) bs)) (out + n) (len - n) r"
        using eq False OS_bytes IH by (simp add: n_def)
      have lens: "length (take (unat len) bs) = unat n" using un by simp
      have frame: "snd (snd r) a = m a" if "a \<notin> buf out len" for a
        using Q that buf_suffix_subset [OF nle, of out] mem_write_outside [of a out len "take (unat len) bs" m]
        by auto
      have prefix: "mem_read (snd (snd r)) out n = take (unat len) bs"
      proof -
        have "mem_read (snd (snd r)) out n = mem_read (mem_write m out (take (unat len) bs)) out n"
          by (rule mem_read_cong) (use Q buf_split_disjoint [OF nle, of out] in auto)
        then show ?thesis by (simp only: mem_read_write_same [OF lens])
      qed
      have "mem_read (snd (snd r)) out len = take (unat len) (delivered ev pos (fst (snd r)))"
        if "fst r"
        using that Q prefix OS_bytes un nle
        by (simp add: mem_read_split [OF nle] delivered_Suc unat_sub min_def split: if_splits)
      then show ?thesis using frame Q by auto
    qed
  qed
qed

lemma getrandom_loop_returns:
  "unat len \<le> length (delivered ev pos (pos + k)) \<Longrightarrow> \<exists>r. getrandom_loop ev pos m out len = Some r"
proof (induction k arbitrary: pos m out len)
  case 0
  then show ?case by (auto simp: getrandom_loop.simps unat_eq_zero)
next
  case (Suc k)
  show ?case
  proof (cases "len = 0")
    case True
    then show ?thesis by (auto simp: getrandom_loop.simps)
  next
    case False
    show ?thesis
    proof (cases "ev pos")
      case OS_fail
      then show ?thesis by (auto simp: getrandom_loop.simps)
    next
      case OS_intr
      with Suc.prems have "unat len \<le> length (delivered ev (Suc pos) (Suc pos + k))"
        by (simp add: delivered_Suc)
      from Suc.IH [OF this] show ?thesis
        using OS_intr False by (subst getrandom_loop.simps) simp
    next
      case (OS_bytes bs)
      define n :: size_t where "n = of_nat (min (length bs) (unat len))"
      have un: "unat n = min (length bs) (unat len)"
        using unsigned_less [where 'a = nat, of len]
        by (simp add: n_def unat_of_nat take_bit_nat_eq_self min_def)
      then have "unat (len - n) = unat len - unat n"
        by (simp add: unat_sub word_le_nat_alt)
      with Suc.prems OS_bytes un have "unat (len - n) \<le> length (delivered ev (Suc pos) (Suc pos + k))"
        by (simp add: delivered_Suc)
      from Suc.IH [OF this] show ?thesis
        using OS_bytes False unfolding n_def by (subst getrandom_loop.simps) simp
    qed
  qed
qed


lemma rand_s_loop_frame:
  "a \<notin> buf out len \<Longrightarrow> snd (snd (rand_s_loop ev pos m out len)) a = m a"
proof (induction ev pos m out len rule: rand_s_loop.induct)
  case (1 ev pos m out len)
  show ?case
  proof (cases "len = 0")
    case True
    then show ?thesis by (simp add: rand_s_loop.simps)
  next
    case False
    show ?thesis
    proof (cases "ev pos")
      case (OS_bytes v)
      define n where "n = (if len < 4 then len else 4)"
      have nle: "n \<le> len" by (simp add: n_def not_less)
      have out: "a \<notin> buf (out + n) (len - n)" "a \<notin> buf out n"
        using "1.prems" buf_suffix_subset [OF nle] buf_prefix_subset [OF nle] by blast+
      have "snd (snd (rand_s_loop ev pos m out len)) a =
          mem_write m out (pad (unat n) v) a"
        using "1.IH" [OF False OS_bytes n_def out(1)] False OS_bytes
        by (simp add: rand_s_loop.simps [of ev pos m out len] n_def [symmetric])
      then show ?thesis using out(2) by (simp add: mem_write_outside)
    qed (use False in \<open>simp_all add: rand_s_loop.simps\<close>)
  qed
qed

lemma os_source_frame:
  assumes "os_source rs ev pos m out len = Some r" "a \<notin> buf out len"
  shows "snd (snd r) a = m a"
proof (cases rs)
  case RAND_S
  then show ?thesis using assms rand_s_loop_frame by (auto simp: os_source_def)
next
  case ARC4RANDOM_BUF
  then show ?thesis using assms
    by (auto simp: os_source_def arc4random_fill_def intro!: mem_write_outside)
next
  case GETRANDOM
  then show ?thesis using assms getrandom_loop_spec by (auto simp: os_source_def)
next
  case DEV_URANDOM
  then show ?thesis using assms
    by (auto simp: os_source_def urandom_read_def intro!: mem_write_outside split: os_event.splits)
qed

lemma run_os_random [run_simps]:
  "run_state (os_random rs out len) w =
    (if w_random_failing w then (Some False, w)
     else case os_source rs (w_os w) (w_os_pos w) (w_mem w) out len of
       None \<Rightarrow> (None, w)
     | Some (ok, pos, m) \<Rightarrow> (Some ok, w\<lparr>w_os_pos := pos, w_mem := m\<rparr>))"
  by (simp add: os_random_def split: option.splits)

lemma confined_os_random [confined_intros]: "confined (buf out len) (os_random rs out len)"
  by (rule confinedI) (auto simp: run_os_random split: option.splits dest: os_source_frame)

lemma confined_zuc_random_bytes: "confined (buf out len) (zuc_random_bytes rs out len)"
  unfolding zuc_random_bytes_def by (intro confined_intros order_refl)

section \<open>Properties\<close>

text \<open>
  C34. Whatever the platform and whatever the operating system does, when \<^verbatim>\<open>zuc_random_bytes\<close>
  returns a failure for a non-NULL buffer, all \<open>len\<close> bytes of the buffer are zero: a partial
  fill can never be mistaken for random bytes. In every outcome no byte outside the buffer
  changes.
\<close>

theorem zuc_random_bytes_failure_zeroes:
  assumes "run_state (zuc_random_bytes rs out len) w = (res, w')"
  shows "(out \<noteq> NULL \<and> res \<noteq> Some ZUC_OK \<and> res \<noteq> None
            \<longrightarrow> mem_read (w_mem w') out len = replicate (unat len) 0) \<and>
         (\<forall>a. a \<notin> buf out len \<longrightarrow> w_mem w' a = w_mem w a)"
proof -
  have "\<forall>a. a \<notin> buf out len \<longrightarrow> w_mem w' a = w_mem w a"
    using confined_mem [OF confined_zuc_random_bytes assms] by simp
  moreover have "mem_read (w_mem w') out len = replicate (unat len) 0"
    if "out \<noteq> NULL" "res \<noteq> Some ZUC_OK" "res \<noteq> None"
    using assms that
    by (auto simp: zuc_random_bytes_def run_simps mem_read_write_same
        split: if_splits option.splits)
  ultimately show ?thesis by blast
qed

theorem zuc_random_bytes_failure_zeroes_witness:
  "\<exists>w'. run_state (zuc_random_bytes DEV_URANDOM 100 4) (demo_world (\<lambda>_. OS_bytes [1, 2])) =
          (Some ZUC_ERR_ENTROPY, w') \<and>
        mem_read (w_mem w') 100 4 = replicate 4 0 \<and> w_mem w' 104 = 7"
proof -
  let ?w = "demo_world (\<lambda>_. OS_bytes [1, 2])"
  have r: "run_state (zuc_random_bytes DEV_URANDOM 100 4) ?w =
      (Some ZUC_ERR_ENTROPY, snd (run_state (zuc_random_bytes DEV_URANDOM 100 4) ?w))"
    by (simp add: zuc_random_bytes_def run_simps os_source_def urandom_read_def)
  show ?thesis
    using zuc_random_bytes_failure_zeroes [OF r] r
    by (auto simp: buf_def)
qed

text \<open>
  C35. With the \<^verbatim>\<open>getrandom\<close> source, success means the buffer holds exactly the first \<open>len\<close> bytes the
  operating system delivered from the call on, across short reads and interruptions: nothing
  stale, nothing repeated, nothing skipped.
\<close>

theorem zuc_random_bytes_getrandom_exact:
  assumes "run_state (zuc_random_bytes GETRANDOM out len) w = (Some ZUC_OK, w')"
  shows "mem_read (w_mem w') out len =
    take (unat len) (delivered (w_os w) (w_os_pos w) (w_os_pos w'))"
proof (cases "len = 0")
  case True
  then show ?thesis by simp
next
  case False
  then obtain pos m where g: "getrandom_loop (w_os w) (w_os_pos w) (w_mem w) out len = Some (True, pos, m)"
    and w': "w' = w\<lparr>w_os_pos := pos, w_mem := m\<rparr>"
    using assms
    by (auto simp: zuc_random_bytes_def run_simps os_source_def split: if_splits option.splits)
  show ?thesis
    using getrandom_loop_spec [OF g] w' by simp
qed

theorem zuc_random_bytes_getrandom_exact_witness:
  "\<exists>w'. run_state (zuc_random_bytes GETRANDOM 100 5) (demo_world demo_os) = (Some ZUC_OK, w') \<and>
        mem_read (w_mem w') 100 5 = [1, 2, 3, 4, 5]"
proof -
  let ?a = "zuc_random_bytes GETRANDOM 100 5"
  have r: "run_state ?a (demo_world demo_os) = (Some ZUC_OK, snd (run_state ?a (demo_world demo_os)))"
    and p: "w_os_pos (snd (run_state ?a (demo_world demo_os))) = 3"
    by (simp_all add: zuc_random_bytes_def run_simps os_source_def
        getrandom_loop.simps demo_os_def)
  have "mem_read (w_mem (snd (run_state ?a (demo_world demo_os)))) 100 5 =
      take 5 (delivered demo_os 0 3)"
    using zuc_random_bytes_getrandom_exact [OF r] p by simp
  then show ?thesis
    using r by (auto simp: delivered_def demo_os_def upt_rec)
qed

text \<open>
  C36. The \<^verbatim>\<open>getrandom\<close> loop ends: if the operating system delivers at least \<open>len\<close> bytes within any
  finite number of further events, however many of them are interruptions, short reads or empty
  reads, then \<^verbatim>\<open>zuc_random_bytes\<close> returns.
\<close>

theorem zuc_random_bytes_returns:
  assumes "unat len \<le> length (delivered (w_os w) (w_os_pos w) (w_os_pos w + k))"
  shows "fst (run_state (zuc_random_bytes GETRANDOM out len) w) \<noteq> None"
proof -
  obtain r where "getrandom_loop (w_os w) (w_os_pos w) (w_mem w) out len = Some r"
    using getrandom_loop_returns [OF assms] by blast
  then show ?thesis
    by (simp add: zuc_random_bytes_def run_simps os_source_def split: option.splits prod.splits)
qed

theorem zuc_random_bytes_returns_witness:
  "unat (5 :: size_t) \<le> length (delivered demo_os 0 (0 + 3)) \<and>
   fst (run_state (zuc_random_bytes GETRANDOM 100 5) (demo_world demo_os)) \<noteq> None"
proof -
  have d: "unat (5 :: size_t) \<le> length (delivered demo_os 0 (0 + 3))"
    by (simp add: delivered_def demo_os_def upt_rec)
  then show ?thesis
    using zuc_random_bytes_returns [of 5 "demo_world demo_os" 3 100] by simp
qed

end
