(* ===== verification/R_Crypt.thy ===== *)
theory R_Crypt
  imports Ownership Pkey Entropy
begin

text \<open>
  \<^verbatim>\<open>src/src/zucrypt_crypt.c\<close>: the native entry points behind the R functions. Each is a call on a
  session (see \<open>R_Session\<close>) that ends in an R value, in a jump, or, for the random source, not at
  all. Arguments are R values; \<open>P\<close> is the backend, \<open>rs\<close> the platform's random source and \<open>words\<close>
  whether the constant-time comparison reads whole words.
\<close>

section \<open>Digest and HMAC\<close>

definition zucrypt_hash :: "('b, 'o) psa \<Rightarrow> sexp \<Rightarrow> sexp \<Rightarrow> ('b, 'o, sexp outcome) rc" where
  "zucrypt_hash P data algorithm =
    (let alg = zuc_alg_by_name (R_CHAR algorithm);
         want = zuc_alg_size alg
     in R_MakeExternalPtr R_NilValue (\<lambda>ptr. R_RegisterCFinalizerEx ptr Fin_hash (do {
          (st, h) \<leftarrow> native (with_out (zuc_hash_new P alg));
          if st \<noteq> ZUC_OK then result st R_NilValue
          else do {
            R_SetExternalPtrAddr ptr h;
            chunks (\<lambda>offset n. returns (zuc_hash_update P h (RAW data + offset) n)) (XLENGTH data)
              (\<lambda>st. if st \<noteq> ZUC_OK then do { release_ptr ptr (zuc_hash_free P); result st R_NilValue }
                    else allocRaw want (\<lambda>out. do {
                      (st, got) \<leftarrow> native (with_len (zuc_hash_finish P h (RAW out) want));
                      release_ptr ptr (zuc_hash_free P);
                      let st = (if st = ZUC_OK \<and> got \<noteq> want then ZUC_ERR_INTERNAL else st);
                      result st (if st = ZUC_OK then out else R_NilValue) })) 0 st
          } })))"

definition zucrypt_hmac :: "('b, 'o) psa \<Rightarrow> sexp \<Rightarrow> sexp \<Rightarrow> sexp \<Rightarrow> ('b, 'o, sexp outcome) rc" where
  "zucrypt_hmac P data key algorithm =
    (let alg = zuc_alg_by_name (R_CHAR algorithm);
         want = zuc_alg_size alg
     in R_MakeExternalPtr R_NilValue (\<lambda>ptr. R_RegisterCFinalizerEx ptr Fin_hmac (do {
          (st, h) \<leftarrow> native (with_out (zuc_hmac_new P alg (RAW key) (XLENGTH key)));
          if st \<noteq> ZUC_OK then result st R_NilValue
          else do {
            R_SetExternalPtrAddr ptr h;
            chunks (\<lambda>offset n. returns (zuc_hmac_update P h (RAW data + offset) n)) (XLENGTH data)
              (\<lambda>st. if st \<noteq> ZUC_OK then do { release_ptr ptr (zuc_hmac_free P); result st R_NilValue }
                    else allocRaw want (\<lambda>out. do {
                      (st, got) \<leftarrow> native (with_len (zuc_hmac_finish P h (RAW out) want));
                      release_ptr ptr (zuc_hmac_free P);
                      let st = (if st = ZUC_OK \<and> got \<noteq> want then ZUC_ERR_INTERNAL else st);
                      result st (if st = ZUC_OK then out else R_NilValue) })) 0 st
          } })))"

section \<open>Streams\<close>

abbreviation (input) ZUCRYPT_STREAM_HASH :: int where "ZUCRYPT_STREAM_HASH \<equiv> 0"
abbreviation (input) ZUCRYPT_STREAM_HMAC :: int where "ZUCRYPT_STREAM_HMAC \<equiv> 1"

definition stream_ptr ::
  "int \<Rightarrow> zuc_alg \<Rightarrow> (ptr \<Rightarrow> ('b, 'o, 'a outcome) rc) \<Rightarrow> ('b, 'o, 'a outcome) rc" where
  "stream_ptr kind alg k =
    r_alloc (\<lambda>_. R_MakeExternalPtr (INTSXP [kind, alg]) (\<lambda>ptr.
      R_RegisterCFinalizerEx ptr (if kind = ZUCRYPT_STREAM_HASH then Fin_hash else Fin_hmac) (k ptr)))"

text \<open>The tag of a stream pointer and the pointer itself; anything else is an R error.\<close>

definition stream_tag ::
  "sexp \<Rightarrow> (ptr \<Rightarrow> int \<Rightarrow> zuc_alg \<Rightarrow> ('b, 'o, 'a outcome) rc) \<Rightarrow> ('b, 'o, 'a outcome) rc" where
  "stream_tag ptr k =
    (case ptr of
       EXTPTRSXP q \<Rightarrow> do {
         tag \<leftarrow> R_ExternalPtrTag q;
         case tag of
           INTSXP xs \<Rightarrow> if length xs \<noteq> 2 then ret Longjmp else k q (xs ! 0) (xs ! 1)
         | _ \<Rightarrow> ret Longjmp
       }
     | _ \<Rightarrow> ret Longjmp)"

definition zucrypt_hash_stream_new :: "('b, 'o) psa \<Rightarrow> sexp \<Rightarrow> ('b, 'o, sexp outcome) rc" where
  "zucrypt_hash_stream_new P algorithm =
    (let alg = zuc_alg_by_name (R_CHAR algorithm)
     in stream_ptr ZUCRYPT_STREAM_HASH alg (\<lambda>ptr. do {
          (st, h) \<leftarrow> native (with_out (zuc_hash_new P alg));
          (if st = ZUC_OK then R_SetExternalPtrAddr ptr h else ret ());
          result st (if st = ZUC_OK then EXTPTRSXP ptr else R_NilValue) }))"

definition zucrypt_hmac_stream_new :: "('b, 'o) psa \<Rightarrow> sexp \<Rightarrow> sexp \<Rightarrow> ('b, 'o, sexp outcome) rc" where
  "zucrypt_hmac_stream_new P key algorithm =
    (let alg = zuc_alg_by_name (R_CHAR algorithm)
     in stream_ptr ZUCRYPT_STREAM_HMAC alg (\<lambda>ptr. do {
          (st, h) \<leftarrow> native (with_out (zuc_hmac_new P alg (RAW key) (XLENGTH key)));
          (if st = ZUC_OK then R_SetExternalPtrAddr ptr h else ret ());
          result st (if st = ZUC_OK then EXTPTRSXP ptr else R_NilValue) }))"

definition scalar_status :: "zuc_status \<Rightarrow> ('b, 'o, sexp outcome) rc" where
  "scalar_status st = r_alloc (\<lambda>_. ret (Returned (INTSXP [zuc_status_code st])))"

definition zucrypt_stream_update :: "('b, 'o) psa \<Rightarrow> sexp \<Rightarrow> sexp \<Rightarrow> ('b, 'o, sexp outcome) rc" where
  "zucrypt_stream_update P ptr data =
    stream_tag ptr (\<lambda>q kind alg. do {
      ctx \<leftarrow> R_ExternalPtrAddr q;
      if ctx = NULL then scalar_status ZUC_ERR_INVALID_ARGUMENT
      else do {
        st \<leftarrow> native (if kind = ZUCRYPT_STREAM_HASH then zuc_hash_update P ctx (RAW data) (XLENGTH data)
                      else zuc_hmac_update P ctx (RAW data) (XLENGTH data));
        R_CheckUserInterrupt (scalar_status st)
      } })"

definition zucrypt_stream_finish :: "('b, 'o) psa \<Rightarrow> sexp \<Rightarrow> ('b, 'o, sexp outcome) rc" where
  "zucrypt_stream_finish P ptr =
    stream_tag ptr (\<lambda>q kind alg. do {
      let want = zuc_alg_size alg;
      ctx \<leftarrow> R_ExternalPtrAddr q;
      if ctx = NULL then result ZUC_ERR_INVALID_ARGUMENT R_NilValue
      else allocRaw want (\<lambda>out. do {
        (st, got) \<leftarrow> native (with_len (if kind = ZUCRYPT_STREAM_HASH then zuc_hash_finish P ctx (RAW out) want
                                        else zuc_hmac_finish P ctx (RAW out) want));
        release_ptr q (if kind = ZUCRYPT_STREAM_HASH then zuc_hash_free P else zuc_hmac_free P);
        let st = (if st = ZUC_OK \<and> got \<noteq> want then ZUC_ERR_INTERNAL else st);
        result st (if st = ZUC_OK then out else R_NilValue) }) })"

section \<open>AES-CBC\<close>

definition zucrypt_aes_cbc :: "('b, 'o) psa \<Rightarrow> sexp \<Rightarrow> sexp \<Rightarrow> sexp \<Rightarrow> sexp \<Rightarrow> ('b, 'o, sexp outcome) rc" where
  "zucrypt_aes_cbc P data key iv encrypt =
    R_MakeExternalPtr R_NilValue (\<lambda>ptr. R_RegisterCFinalizerEx ptr Fin_aes (do {
      (st, aes) \<leftarrow> native (with_out (zuc_aes_new P (RAW key) (XLENGTH key)));
      if st \<noteq> ZUC_OK then result st R_NilValue
      else do {
        R_SetExternalPtrAddr ptr aes;
        st \<leftarrow> native (zuc_aes_cbc_set_state aes (RAW iv));
        allocRaw (XLENGTH data) (\<lambda>out.
          chunks (\<lambda>offset n. returns
              (if Rf_asLogical encrypt then zuc_aes_cbc_encrypt P aes (RAW data + offset) n (RAW out + offset)
               else zuc_aes_cbc_decrypt P aes (RAW data + offset) n (RAW out + offset))) (XLENGTH data)
            (\<lambda>st. do {
               release_ptr ptr (zuc_aes_free P);
               result st (if st = ZUC_OK then out else R_NilValue) }) 0 st)
      } }))"

section \<open>Comparison, encoding and introspection\<close>

definition zucrypt_equal :: "bool \<Rightarrow> sexp \<Rightarrow> sexp \<Rightarrow> ('b, 'o, sexp outcome) rc" where
  "zucrypt_equal words x y = do {
     eq \<leftarrow> native (gets (\<lambda>w. zuc_equal words (w_mem w) (RAW x) (RAW y) (XLENGTH x)));
     ret (Returned (LGLSXP eq))
   }"

definition hex_digits :: string where
  "hex_digits = ''0123456789abcdef''"

definition hex_string :: "byte list \<Rightarrow> string" where
  "hex_string bs =
    concat (map (\<lambda>b. [hex_digits ! unat (drop_bit 4 b), hex_digits ! unat (b AND 0x0f)]) bs)"

definition zucrypt_hex :: "sexp \<Rightarrow> ('b, 'o, sexp outcome) rc" where
  "zucrypt_hex data = r_alloc (\<lambda>_. do {
     bs \<leftarrow> native (read_bytes (RAW data) (XLENGTH data));
     ret (Returned (STRSXP [hex_string bs]))
   })"

definition zucrypt_algorithms :: "('b, 'o, sexp outcome) rc" where
  "zucrypt_algorithms =
    r_alloc (\<lambda>_. ret (Returned (STRSXP
      (filter (\<lambda>name. zuc_alg_available (zuc_alg_by_name (Some name)))
        [''sha1'', ''sha256'', ''sha384'', ''sha512'']))))"

section \<open>Randomness\<close>

definition zucrypt_rand_bytes :: "random_source \<Rightarrow> sexp \<Rightarrow> ('b, 'o, sexp outcome) rc" where
  "zucrypt_rand_bytes rs n =
    (let len = of_int (REAL n)
     in allocRaw len (\<lambda>out.
          chunks (\<lambda>offset chunk. zuc_random_bytes rs (RAW out + offset) chunk) len
            (\<lambda>st. do {
               (if st \<noteq> ZUC_OK then native (zuc_secure_zero (RAW out) len) else ret ());
               result st (if st = ZUC_OK then out else R_NilValue) }) 0 ZUC_OK))"

section \<open>Authenticated encryption and key derivation\<close>

definition zucrypt_aes_gcm ::
  "('b, 'o) psa \<Rightarrow> sexp \<Rightarrow> sexp \<Rightarrow> sexp \<Rightarrow> sexp \<Rightarrow> sexp \<Rightarrow> sexp \<Rightarrow> ('b, 'o, sexp outcome) rc" where
  "zucrypt_aes_gcm P data key iv aad tag encrypt =
    (let len = XLENGTH data;
         a = (if Rf_isNull aad then NULL else RAW aad);
         aad_len = (if Rf_isNull aad then 0 else XLENGTH aad);
         inp = (if len \<noteq> 0 then RAW data else NULL)
     in allocRaw len (\<lambda>out.
          if Rf_asLogical encrypt then
            allocRaw ZUC_GCM_TAG_SIZE (\<lambda>t. do {
              st \<leftarrow> native (zuc_aead_encrypt P ZUC_ALG_AES_GCM (RAW key) (XLENGTH key) (RAW iv) (XLENGTH iv)
                      a aad_len inp len (if len \<noteq> 0 then RAW out else NULL) (RAW t) ZUC_GCM_TAG_SIZE);
              r_alloc (\<lambda>_. result st (if st = ZUC_OK then VECSXP [('''', out), ('''', t)] else R_NilValue)) })
          else do {
            st \<leftarrow> native (zuc_aead_decrypt P ZUC_ALG_AES_GCM (RAW key) (XLENGTH key) (RAW iv) (XLENGTH iv)
                    a aad_len inp len (RAW tag) (XLENGTH tag) (if len \<noteq> 0 then RAW out else NULL));
            result st (if st = ZUC_OK then out else R_NilValue) }))"

definition zucrypt_pbkdf2 ::
  "('b, 'o) psa \<Rightarrow> sexp \<Rightarrow> sexp \<Rightarrow> sexp \<Rightarrow> sexp \<Rightarrow> sexp \<Rightarrow> ('b, 'o, sexp outcome) rc" where
  "zucrypt_pbkdf2 P password salt iterations out_size algorithm =
    (let n = of_int (REAL out_size);
         alg = zuc_alg_by_name (R_CHAR algorithm);
         plen = XLENGTH password;
         slen = XLENGTH salt
     in allocRaw n (\<lambda>out. do {
          st \<leftarrow> native (zuc_pbkdf2_hmac P alg (if plen \<noteq> 0 then RAW password else NULL) plen
                  (if slen \<noteq> 0 then RAW salt else NULL) slen (of_int (REAL iterations)) (RAW out) n);
          result st (if st = ZUC_OK then out else R_NilValue) }))"

section \<open>Public keys\<close>

definition pkey_tag :: sexp where
  "pkey_tag = SYMSXP ''zucrypt_pkey''"

definition pkey_finalizer :: "ptr \<Rightarrow> ('b, 'o, unit) rc" where
  "pkey_finalizer = finalize zuc_pkey_free"

definition pkey_ptr :: "(ptr \<Rightarrow> ('b, 'o, 'a outcome) rc) \<Rightarrow> ('b, 'o, 'a outcome) rc" where
  "pkey_ptr k = R_MakeExternalPtr pkey_tag (\<lambda>ptr. R_RegisterCFinalizerEx ptr Fin_pkey (k ptr))"

definition pkey_get :: "sexp \<Rightarrow> ('b, 'o, ptr) rc" where
  "pkey_get ptr =
    (case ptr of
       EXTPTRSXP q \<Rightarrow> do {
         tag \<leftarrow> R_ExternalPtrTag q;
         if tag \<noteq> pkey_tag then ret NULL else R_ExternalPtrAddr q
       }
     | _ \<Rightarrow> ret NULL)"

definition pkey_result :: "zuc_status \<Rightarrow> ptr \<Rightarrow> ptr \<Rightarrow> ('b, 'o, sexp outcome) rc" where
  "pkey_result st ptr key = do {
     (if st = ZUC_OK then R_SetExternalPtrAddr ptr key else ret ());
     result st (if st = ZUC_OK then EXTPTRSXP ptr else R_NilValue)
   }"

definition zucrypt_pkey_parse :: "('b, 'o) psa \<Rightarrow> sexp \<Rightarrow> sexp \<Rightarrow> ('b, 'o, sexp outcome) rc" where
  "zucrypt_pkey_parse P data private_key =
    pkey_ptr (\<lambda>ptr. do {
      (st, key) \<leftarrow> native (with_out (zuc_pkey_parse P (RAW data) (XLENGTH data) (Rf_asLogical private_key)));
      pkey_result st ptr key })"

definition zucrypt_pkey_generate :: "('b, 'o) psa \<Rightarrow> sexp \<Rightarrow> sexp \<Rightarrow> ('b, 'o, sexp outcome) rc" where
  "zucrypt_pkey_generate P type bits =
    pkey_ptr (\<lambda>ptr. do {
      (st, key) \<leftarrow> native (with_out (zuc_pkey_generate P (zuc_alg_by_name (R_CHAR type)) (of_int (REAL bits))));
      pkey_result st ptr key })"

definition zucrypt_pkey_import :: "('b, 'o) psa \<Rightarrow> sexp \<Rightarrow> sexp \<Rightarrow> sexp \<Rightarrow> ('b, 'o, sexp outcome) rc" where
  "zucrypt_pkey_import P type private_key data =
    pkey_ptr (\<lambda>ptr. do {
      (st, key) \<leftarrow> native (with_out (zuc_pkey_import P (zuc_alg_by_name (R_CHAR type)) (Rf_asLogical private_key)
                     (RAW data) (XLENGTH data)));
      pkey_result st ptr key })"

definition zucrypt_pkey_public :: "('b, 'o) psa \<Rightarrow> sexp \<Rightarrow> ('b, 'o, sexp outcome) rc" where
  "zucrypt_pkey_public P ptr = do {
     key \<leftarrow> pkey_get ptr;
     pkey_ptr (\<lambda>out. do {
       (st, pub) \<leftarrow> native (if key = NULL then ret (ZUC_ERR_INVALID_ARGUMENT, NULL)
                            else with_out (zuc_pkey_public P key));
       pkey_result st out pub })
   }"

text \<open>\<^verbatim>\<open>Rf_mkString\<close> of a NULL name, for a key whose type has none, is undefined.\<close>

definition zucrypt_pkey_info :: "sexp \<Rightarrow> ('b, 'o, sexp outcome) rc" where
  "zucrypt_pkey_info ptr = do {
     key \<leftarrow> pkey_get ptr;
     if key = NULL then result ZUC_ERR_INVALID_ARGUMENT R_NilValue
     else r_alloc (\<lambda>_. do {
       type \<leftarrow> native (zuc_pkey_type key);
       (if zuc_alg_name type = None then native set_ub else ret ());
       bits \<leftarrow> native (zuc_pkey_bits key);
       private \<leftarrow> native (zuc_pkey_is_private key);
       result ZUC_OK (VECSXP
         [(''type'', STRSXP (case zuc_alg_name type of None \<Rightarrow> [] | Some s \<Rightarrow> [s])),
          (''bits'', REALSXP (uint bits)), (''private'', LGLSXP private)]) })
   }"

definition trimmed :: "zuc_status \<Rightarrow> sexp \<Rightarrow> size_t \<Rightarrow> ('b, 'o, sexp outcome) rc" where
  "trimmed st vec len =
    (if st \<noteq> ZUC_OK then do {
       native (zuc_secure_zero (RAW vec) (XLENGTH vec));
       result st R_NilValue
     }
     else allocRaw len (\<lambda>out. do {
       (if len \<noteq> 0 then native (do { bs \<leftarrow> read_bytes (RAW vec) len; write_bytes (RAW out) bs }) else ret ());
       native (zuc_secure_zero (RAW vec) (XLENGTH vec));
       result st out }))"

definition zucrypt_pkey_write :: "('b, 'o) psa \<Rightarrow> sexp \<Rightarrow> sexp \<Rightarrow> sexp \<Rightarrow> ('b, 'o, sexp outcome) rc" where
  "zucrypt_pkey_write P ptr format public_only = do {
     key \<leftarrow> pkey_get ptr;
     allocRaw ZUC_PKEY_MAX_WRITE_SIZE (\<lambda>vec. do {
       (st, len) \<leftarrow> native (if key = NULL then ret (ZUC_ERR_INVALID_ARGUMENT, 0)
          else with_len (zuc_pkey_write P key (Rf_asInteger format) (Rf_asLogical public_only) (RAW vec) (XLENGTH vec)));
       trimmed st vec len })
   }"

definition alg_arg :: "sexp \<Rightarrow> zuc_alg" where
  "alg_arg name = (if Rf_isNull name then ZUC_ALG_NONE else zuc_alg_by_name (R_CHAR name))"

definition zucrypt_pkey_sign :: "('b, 'o) psa \<Rightarrow> sexp \<Rightarrow> sexp \<Rightarrow> sexp \<Rightarrow> sexp \<Rightarrow> ('b, 'o, sexp outcome) rc" where
  "zucrypt_pkey_sign P ptr scheme hash digest = do {
     key \<leftarrow> pkey_get ptr;
     let cap = 1024;
     allocRaw cap (\<lambda>vec. do {
       (st, len) \<leftarrow> native (if key = NULL then ret (ZUC_ERR_INVALID_ARGUMENT, 0)
          else with_len (zuc_pkey_sign_hash P key (alg_arg scheme) (alg_arg hash) (RAW digest) (XLENGTH digest)
                 (RAW vec) cap));
       trimmed st vec len })
   }"

definition zucrypt_pkey_verify ::
  "('b, 'o) psa \<Rightarrow> sexp \<Rightarrow> sexp \<Rightarrow> sexp \<Rightarrow> sexp \<Rightarrow> sexp \<Rightarrow> ('b, 'o, sexp outcome) rc" where
  "zucrypt_pkey_verify P ptr scheme hash digest sig = do {
     key \<leftarrow> pkey_get ptr;
     let sig_len = XLENGTH sig;
     st \<leftarrow> native (if key = NULL then ret ZUC_ERR_INVALID_ARGUMENT
          else zuc_pkey_verify_hash P key (alg_arg scheme) (alg_arg hash) (RAW digest) (XLENGTH digest)
                 (if sig_len \<noteq> 0 then RAW sig else NULL) sig_len);
     result st (if st = ZUC_OK then LGLSXP True else R_NilValue)
   }"

definition zucrypt_pkey_crypt ::
  "('b, 'o) psa \<Rightarrow> sexp \<Rightarrow> sexp \<Rightarrow> sexp \<Rightarrow> sexp \<Rightarrow> sexp \<Rightarrow> ('b, 'o, sexp outcome) rc" where
  "zucrypt_pkey_crypt P ptr scheme hash data encrypt = do {
     key \<leftarrow> pkey_get ptr;
     cap \<leftarrow> (if key = NULL then ret 1 else do { bits \<leftarrow> native (zuc_pkey_bits key); ret (bits div 8 + 1) });
     let n = XLENGTH data;
     allocRaw cap (\<lambda>vec. do {
       (st, len) \<leftarrow> native
         (if key = NULL then ret (ZUC_ERR_INVALID_ARGUMENT, 0)
          else if Rf_asLogical encrypt then
            with_len (zuc_pkey_encrypt P key (alg_arg scheme) (alg_arg hash) (if n \<noteq> 0 then RAW data else NULL) n
              (RAW vec) cap)
          else
            with_len (zuc_pkey_decrypt P key (alg_arg scheme) (alg_arg hash) (if n \<noteq> 0 then RAW data else RAW vec) n
              (RAW vec) cap));
       trimmed st vec len })
   }"

definition zucrypt_pkey_export :: "('b, 'o) psa \<Rightarrow> sexp \<Rightarrow> sexp \<Rightarrow> ('b, 'o, sexp outcome) rc" where
  "zucrypt_pkey_export P ptr public_only = do {
     key \<leftarrow> pkey_get ptr;
     allocRaw ZUC_PKEY_MAX_WRITE_SIZE (\<lambda>vec. do {
       (st, len) \<leftarrow> native (if key = NULL then ret (ZUC_ERR_INVALID_ARGUMENT, 0)
          else with_len (zuc_pkey_export P key (Rf_asLogical public_only) (RAW vec) (XLENGTH vec)));
       trimmed st vec len })
   }"

definition zucrypt_pkey_agree :: "('b, 'o) psa \<Rightarrow> sexp \<Rightarrow> sexp \<Rightarrow> ('b, 'o, sexp outcome) rc" where
  "zucrypt_pkey_agree P ptr peer = do {
     key \<leftarrow> pkey_get ptr;
     other \<leftarrow> pkey_get peer;
     allocRaw 128 (\<lambda>vec. do {
       (st, len) \<leftarrow> native (if key = NULL \<or> other = NULL then ret (ZUC_ERR_INVALID_ARGUMENT, 0)
          else with_len (zuc_pkey_agree P key other (RAW vec) (XLENGTH vec)));
       trimmed st vec len })
   }"

section \<open>Properties: ownership\<close>

text \<open>The C functions behind the finalizers.\<close>

fun c_finalizer :: "('b, 'o) psa \<Rightarrow> finalizer \<Rightarrow> ptr \<Rightarrow> ('b, 'o, unit) rc" where
  "c_finalizer P Fin_hash = hash_finalizer P"
| "c_finalizer P Fin_hmac = hmac_finalizer P"
| "c_finalizer P Fin_aes = aes_finalizer P"
| "c_finalizer P Fin_pkey = pkey_finalizer"

text \<open>
  C5. Whatever the backend does and wherever the call is left, by return, failed allocation or
  interrupt, the one-shot digest, HMAC and AES-CBC entry points leave no context behind: once R has run
  the finalizer that the call registered for the external pointer it made, the contexts, the count of live
  contexts and the undefined-behaviour flag are as before the call, and after a normal return the finalizer
  has nothing left to free.
\<close>

theorem zucrypt_contexts_released:
  assumes "fresh_for w_hashes (rs_world s)" "fresh_for w_hmacs (rs_world s)" "fresh_for w_aess (rs_world s)"
  shows "leaves_nothing w_hashes (c_finalizer P) (zucrypt_hash P data algorithm) s \<and>
    leaves_nothing w_hmacs (c_finalizer P) (zucrypt_hmac P data key algorithm) s \<and>
    leaves_nothing w_aess (c_finalizer P) (zucrypt_aes_cbc P data key iv encrypt) s"
proof (intro conjI)
  show "leaves_nothing w_hashes (c_finalizer P) (zucrypt_hash P data algorithm) s"
    unfolding zucrypt_hash_def Let_def
    by (intro hash_ctx.call_leaves_nothing hash_creates assms hash_ctx.chunks_owned hash_operates valid_if
        hash_ctx.release_result hash_ctx.finish_settled [unfolded Let_def] operates_with_len) (simp_all add: hash_finalizer_def hmac_finalizer_def)
  show "leaves_nothing w_hmacs (c_finalizer P) (zucrypt_hmac P data key algorithm) s"
    unfolding zucrypt_hmac_def Let_def
    by (intro hmac_ctx.call_leaves_nothing hmac_creates assms hmac_ctx.chunks_owned hmac_operates valid_if
        hmac_ctx.release_result hmac_ctx.finish_settled [unfolded Let_def] operates_with_len) (simp_all add: hash_finalizer_def hmac_finalizer_def)
  show "leaves_nothing w_aess (c_finalizer P) (zucrypt_aes_cbc P data key iv encrypt) s"
    unfolding zucrypt_aes_cbc_def
    by (intro aes_ctx.call_leaves_nothing aes_creates assms valid_bind [OF aes_ctx.operates_owned]
        valid_allocRaw aes_ctx.stable_owns aes_ctx.chunks_owned aes_ctx.owns_settled aes_ctx.release_result
        aes_cbc_operates aes_set_operates) (simp_all add: aes_cbc_operates aes_finalizer_def)
qed

text \<open>
  A session in which everything succeeds once, the digest being interrupted in its second chunk.
\<close>

definition demo_session :: "bool list \<Rightarrow> (unit, unit) session" where
  "demo_session interrupts =
    \<lparr>rs_world = fresh_world () [4096], rs_ptrs = Map.empty, rs_allocs = [100, 101, 102, 103],
     rs_interrupts = interrupts\<rparr>"

theorem zucrypt_contexts_released_witness:
  "leaves_nothing w_hashes (c_finalizer (scripted accept_all))
     (zucrypt_hash (scripted accept_all) (RAWSXP 8192 (3 * 1024 * 1024)) (STRSXP [''sha256'']))
     (demo_session [False, True])"
  using zucrypt_contexts_released [of "demo_session [False, True]" "scripted accept_all"
      "RAWSXP 8192 (3 * 1024 * 1024)" "STRSXP [''sha256'']"]
  by (simp add: demo_session_def fresh_for_def)

end
