(* ===== verification/Absorb.thy ===== *)
theory Absorb
  imports R_Crypt
begin

text \<open>
  What digests and HMACs have in common for the R layer: a context takes in bytes and gives a value. The
  locale \<open>absorbing\<close> is the contract of such a context, for an arbitrary context type; \<open>absorbing_total\<close>
  adds that its operations succeed, \<open>absorbing_stream\<close> that R reaches it through a stream pointer. The
  chunk loop, the one-shot entry points and the stream calls are proved here for all of them.
\<close>

section \<open>Returning from an entry point\<close>

lemma release_ptr_mem:
  assumes "\<And>p. keeps w_mem (f p)" "run_state (release_ptr q f) s = (u, s')"
  shows "w_mem (rs_world s') = w_mem (rs_world s) \<and> rs_allocs s' = rs_allocs s"
proof -
  have "w_mem w' = w_mem w" if "run_state (f p) w = (r, w')" for p w w' r
    using keepsD [OF assms(1) that] .
  then show ?thesis
    using assms(2) by (auto simp: release_ptr_def R_ExternalPtrAddr_def R_ClearExternalPtr_def update_ptr_def
        run_native split: if_splits prod.splits)
qed

text \<open>A one-shot entry point that returns has gone through its frame.\<close>

lemma frame_returned:
  assumes "run_state (R_MakeExternalPtr tag (\<lambda>q. R_RegisterCFinalizerEx q fin (do {
       (st, h) \<leftarrow> native (with_out new);
       if st \<noteq> ZUC_OK then result st R_NilValue
       else do { R_SetExternalPtrAddr q h; rest st q h } }))) s = (Returned v, s')"
    and "\<And>u. v \<noteq> VECSXP [(''status'', INTSXP [zuc_status_code u]), (''value'', R_NilValue)] \<or> u = ZUC_OK"
  obtains h w1 q s2 where "run_state (with_out new) (rs_world s) = ((ZUC_OK, h), w1)" "rs_world s2 = w1"
    "run_state (rest ZUC_OK q h) s2 = (Returned v, s')" "set (rs_allocs s2) \<subseteq> set (rs_allocs s)"
proof -
  obtain st h w1 where new: "run_state (with_out new) (rs_world s) = ((st, h), w1)"
    by (metis surj_pair)
  obtain q ps where q: "rs_allocs s = q # ps" "q \<noteq> NULL"
    using assms(1) unfolding R_MakeExternalPtr_def by (rule run_r_alloc_returned)
  then obtain r rs where r: "ps = r # rs" "r \<noteq> NULL"
    using assms(1) by (cases ps) (auto simp: R_MakeExternalPtr_def R_RegisterCFinalizerEx_def run_r_alloc
        split: if_splits)
  let ?s1 = "s\<lparr>rs_allocs := rs, rs_ptrs := (rs_ptrs s)(q \<mapsto> \<lparr>x_addr = NULL, x_tag = tag, x_fin = Some fin\<rparr>),
      rs_world := w1\<rparr>"
  have "run_state (if st \<noteq> ZUC_OK then result st R_NilValue
      else do { R_SetExternalPtrAddr q h; rest st q h }) ?s1 = (Returned v, s')"
    using assms(1) q r new
    by (simp add: R_MakeExternalPtr_def R_RegisterCFinalizerEx_def run_r_alloc update_ptr_def run_native)
  moreover from this have "st = ZUC_OK"
    using run_result_returned [of st R_NilValue ?s1 v s'] assms(2) [of st] by (cases "st = ZUC_OK") simp_all
  moreover have "set rs \<subseteq> set (rs_allocs s)" using q r by auto
  ultimately show ?thesis
    using new that [of h w1 "snd (run_state (R_SetExternalPtrAddr q h) ?s1)" q]
    by (simp add: R_SetExternalPtrAddr_def update_ptr_def)
qed

section \<open>The shape of the entry points\<close>

text \<open>What a call does with the value of its context once the input is in.\<close>

definition take_value ::
  "size_t \<Rightarrow> (ptr \<Rightarrow> ptr \<Rightarrow> size_t \<Rightarrow> ptr \<Rightarrow> ('b, 'o, zuc_status) zuc) \<Rightarrow> (ptr \<Rightarrow> ('b, 'o, unit) zuc) \<Rightarrow> ptr \<Rightarrow> ptr \<Rightarrow>
   ('b, 'o, sexp outcome) rc" where
  "take_value want finish release q h =
    allocRaw want (\<lambda>out. do {
      (st, got) \<leftarrow> native (with_len (finish h (RAW out) want));
      release_ptr q release;
      let st = (if st = ZUC_OK \<and> got \<noteq> want then ZUC_ERR_INTERNAL else st);
      result st (if st = ZUC_OK then out else R_NilValue) })"

definition one_shot ::
  "finalizer \<Rightarrow> size_t \<Rightarrow> (ptr \<Rightarrow> ('b, 'o, zuc_status) zuc) \<Rightarrow> (ptr \<Rightarrow> ptr \<Rightarrow> size_t \<Rightarrow> ('b, 'o, zuc_status) zuc) \<Rightarrow>
   (ptr \<Rightarrow> ptr \<Rightarrow> size_t \<Rightarrow> ptr \<Rightarrow> ('b, 'o, zuc_status) zuc) \<Rightarrow> (ptr \<Rightarrow> ('b, 'o, unit) zuc) \<Rightarrow> ptr \<Rightarrow> size_t \<Rightarrow>
   ('b, 'o, sexp outcome) rc" where
  "one_shot fin want new update finish release p n =
    R_MakeExternalPtr R_NilValue (\<lambda>q. R_RegisterCFinalizerEx q fin (do {
      (st, h) \<leftarrow> native (with_out new);
      if st \<noteq> ZUC_OK then result st R_NilValue
      else do {
        R_SetExternalPtrAddr q h;
        chunks (\<lambda>off n. returns (update h (p + off) n)) n
          (\<lambda>st. if st \<noteq> ZUC_OK then do { release_ptr q release; result st R_NilValue }
                else take_value want finish release q h) 0 st
      } }))"

section \<open>The contract of a context\<close>

text \<open>\<open>holds w h m\<close>: in \<open>w\<close> the context at \<open>h\<close> has taken in \<open>m\<close>. \<open>val m\<close> is what it is then good for.\<close>

locale absorbing =
  fixes update :: "ptr \<Rightarrow> ptr \<Rightarrow> size_t \<Rightarrow> ('b, 'o, zuc_status) zuc"
    and finish :: "ptr \<Rightarrow> ptr \<Rightarrow> size_t \<Rightarrow> ptr \<Rightarrow> ('b, 'o, zuc_status) zuc"
    and release :: "ptr \<Rightarrow> ('b, 'o, unit) zuc"
    and holds :: "('b, 'o) world \<Rightarrow> ptr \<Rightarrow> byte list \<Rightarrow> bool"
    and val :: "byte list \<Rightarrow> byte list"
    and step_max :: nat
  assumes update_holds:
      "holds w h m \<Longrightarrow> unat n < step_max \<Longrightarrow> run_state (update h p n) w = (ZUC_OK, w') \<Longrightarrow>
       holds w' h (m @ mem_read (w_mem w) p n) \<and> w_mem w' = w_mem w"
    and finish_val:
      "holds w h m \<Longrightarrow> run_state (with_len (finish h out n)) w = ((ZUC_OK, got), w') \<Longrightarrow>
       mem_read (w_mem w') out got = val m"
    and release_mem: "keeps w_mem (release h)"
    and long_steps: "2 ^ 32 \<le> step_max"
begin

lemma chunk_step: "unat n \<le> 2 ^ 20 \<Longrightarrow> unat n < step_max"
  using long_steps by simp

text \<open>The chunk loop, when the call returns.\<close>

lemma chunks_hold:
  assumes "run_state (chunks (\<lambda>off n. returns (update h (p + off) n)) len k off ZUC_OK) s = (Returned v, s')"
    and "holds (rs_world s) h (mem_read (w_mem (rs_world s)) p off)"
    and "off \<le> len"
  shows "\<exists>st1 s1. run_state (k st1) s1 = (Returned v, s') \<and>
    (st1 = ZUC_OK \<longrightarrow> w_mem (rs_world s1) = w_mem (rs_world s) \<and>
       holds (rs_world s1) h (mem_read (w_mem (rs_world s)) p len))"
  using assms(1-3)
proof (induction "unat (len - off)" arbitrary: off s rule: less_induct)
  case less
  show ?case
  proof (cases "off < len")
    case False
    with less(4) have "off = len" by simp
    with less(2,3) show ?thesis by (auto simp: run_chunks_done)
  next
    case True
    let ?n = "chunk_size (len - off)" and ?m = "w_mem (rs_world s)"
    note b = chunk_size_bounds [OF True]
    obtain st w where u: "run_state (update h (p + off) ?n) (rs_world s) = (st, w)" by force
    then have "run_state (R_CheckUserInterrupt (chunks (\<lambda>off n. returns (update h (p + off) n))
        len k (off + ?n) st)) (s\<lparr>rs_world := w\<rparr>) = (Returned v, s')"
      using less(2) by (simp add: run_chunks_step [OF True] returns_def)
    then obtain bs where r: "run_state (chunks (\<lambda>off n. returns (update h (p + off) n))
        len k (off + ?n) st) (s\<lparr>rs_world := w, rs_interrupts := bs\<rparr>) = (Returned v, s')"
      by (rule run_interrupt_returned) simp
    show ?thesis
    proof (cases "st = ZUC_OK")
      case False
      then show ?thesis using r by (auto simp: run_chunks_done)
    next
      case ok: True
      have "holds w h (mem_read ?m p off @ mem_read ?m (p + off) ?n) \<and> w_mem w = ?m"
        using update_holds [OF less(3) _ u [unfolded ok]] chunk_step [OF b(3)] by simp
      moreover have "mem_read ?m p (off + ?n) = mem_read ?m p off @ mem_read ?m (p + off) ?n"
        using mem_read_split [OF b(4), of ?m p] by simp
      ultimately show ?thesis
        using less(1) [OF b(1) r [unfolded ok]] b(5) by simp
    qed
  qed
qed

lemma take_value_val:
  assumes "holds (rs_world s) h m"
    and "run_state (take_value want finish release q h) s =
      (Returned (VECSXP [(''status'', INTSXP [0]), (''value'', v)]), s')"
  shows "\<exists>out. v = RAWSXP out want \<and> mem_read (w_mem (rs_world s')) out want = val m"
proof -
  obtain out ps where "rs_allocs s = out # ps"
    and run: "run_state (do {
      (st, got) \<leftarrow> native (with_len (finish h out want));
      release_ptr q release;
      result (if st = ZUC_OK \<and> got \<noteq> want then ZUC_ERR_INTERNAL else st)
        (if (if st = ZUC_OK \<and> got \<noteq> want then ZUC_ERR_INTERNAL else st) = ZUC_OK
         then RAWSXP out want else R_NilValue) }) (s\<lparr>rs_allocs := ps\<rparr>) =
      (Returned (VECSXP [(''status'', INTSXP [0]), (''value'', v)]), s')"
    using assms(2) by (auto simp: take_value_def allocRaw_def Let_def elim: run_r_alloc_returned)
  obtain st got w where fin: "run_state (with_len (finish h out want)) (rs_world s) = ((st, got), w)"
    by (metis surj_pair)
  obtain u s4 where rel: "run_state (release_ptr q release) (s\<lparr>rs_allocs := ps, rs_world := w\<rparr>) = (u, s4)"
    by (metis surj_pair)
  let ?st = "if st = ZUC_OK \<and> got \<noteq> want then ZUC_ERR_INTERNAL else st"
  have "run_state (result ?st (if ?st = ZUC_OK then RAWSXP out want else R_NilValue)) s4 =
      (Returned (VECSXP [(''status'', INTSXP [0]), (''value'', v)]), s')"
    using run fin rel by (simp add: run_native)
  from run_result_returned [OF this] have ok: "st = ZUC_OK" "got = want" "v = RAWSXP out want"
    and mem: "rs_world s' = rs_world s4"
    by (auto split: if_splits)
  have "w_mem (rs_world s') = w_mem w"
    using release_ptr_mem [OF release_mem rel] mem by simp
  then show ?thesis
    using finish_val [OF assms(1) fin [unfolded ok(1,2)]] ok(3) by simp
qed

lemma one_shot_val:
  assumes "run_state (one_shot fin want new update finish release p n) s =
      (Returned (VECSXP [(''status'', INTSXP [0]), (''value'', v)]), s')"
    and new: "\<And>h w. run_state (with_out new) (rs_world s) = ((ZUC_OK, h), w) \<Longrightarrow>
      holds w h [] \<and> w_mem w = w_mem (rs_world s)"
  shows "\<exists>out. v = RAWSXP out want \<and>
    mem_read (w_mem (rs_world s')) out want = val (mem_read (w_mem (rs_world s)) p n)"
proof -
  let ?v = "VECSXP [(''status'', INTSXP [0]), (''value'', v)]"
  let ?tail = "\<lambda>q h st. if st \<noteq> ZUC_OK then do { release_ptr q release; result st R_NilValue }
    else take_value want finish release q h"
  obtain h w1 q s2 where new1: "run_state (with_out new) (rs_world s) = ((ZUC_OK, h), w1)" and s2: "rs_world s2 = w1"
    and run: "run_state (chunks (\<lambda>off n. returns (update h (p + off) n)) n (?tail q h) 0 ZUC_OK) s2 = (Returned ?v, s')"
    using assms(1) unfolding one_shot_def by (rule frame_returned) auto
  obtain st1 s1 where tail: "run_state (?tail q h st1) s1 = (Returned ?v, s')"
    and holds: "st1 = ZUC_OK \<Longrightarrow> holds (rs_world s1) h (mem_read (w_mem (rs_world s)) p n)"
    using chunks_hold [OF run] new [OF new1] s2 by auto
  have st1: "st1 = ZUC_OK"
    using tail by (cases "st1 = ZUC_OK") (auto split: prod.splits dest: run_result_returned)
  show ?thesis
    by (rule take_value_val [OF holds [OF st1]]) (use tail st1 in simp)
qed

end

section \<open>A context whose operations succeed\<close>

text \<open>\<open>live w\<close>: the backend below works.\<close>

locale absorbing_total = absorbing +
  fixes live :: "('b, 'o) world \<Rightarrow> bool"
    and want :: size_t
  assumes update_live: "holds w h m \<Longrightarrow> unat n < step_max \<Longrightarrow> h \<noteq> NULL \<Longrightarrow> p \<noteq> NULL \<Longrightarrow> live w \<Longrightarrow>
      \<exists>w'. run_state (update h p n) w = (ZUC_OK, w') \<and> live w'"
    and finish_live: "holds w h m \<Longrightarrow> h \<noteq> NULL \<Longrightarrow> out \<noteq> NULL \<Longrightarrow> live w \<Longrightarrow>
      \<exists>w'. run_state (with_len (finish h out want)) w = ((ZUC_OK, want), w')"
begin

lemma chunks_succeed:
  assumes "holds (rs_world s) h (mem_read (w_mem (rs_world s)) p off)" "h \<noteq> NULL"
    and "live (rs_world s)" "list_all Not (rs_interrupts s)" "off \<le> len"
    and "p \<noteq> NULL" "no_wrap p len"
  shows "\<exists>s1. run_state (chunks (\<lambda>off n. returns (update h (p + off) n)) len k off ZUC_OK) s = run_state (k ZUC_OK) s1 \<and>
    rs_allocs s1 = rs_allocs s \<and> live (rs_world s1) \<and> holds (rs_world s1) h (mem_read (w_mem (rs_world s)) p len)"
  using assms(1,3-5)
proof (induction "unat (len - off)" arbitrary: off s rule: less_induct)
  case less
  show ?case
  proof (cases "off < len")
    case False
    with less(5) have "off = len" by simp
    with less(2,3) show ?thesis by (auto simp: run_chunks_done)
  next
    case True
    let ?n = "chunk_size (len - off)" and ?m = "w_mem (rs_world s)"
    note b = chunk_size_bounds [OF True]
    have "unat p + unat off < 2 ^ 64" "unat p \<noteq> 0"
      using assms(6,7) True by (simp_all add: no_wrap_def word_less_nat_alt unat_eq_0)
    then have "p + off \<noteq> NULL"
      by (metis add_is_0 no_wrap_def unat_0 unat_add_no_wrap)
    then obtain w where u: "run_state (update h (p + off) ?n) (rs_world s) = (ZUC_OK, w)" and live: "live w"
      using update_live [OF less(2) chunk_step [OF b(3)] assms(2) _ less(3)] by blast
    have w: "holds w h (mem_read ?m p off @ mem_read ?m (p + off) ?n)" "w_mem w = ?m"
      using update_holds [OF less(2) _ u] chunk_step [OF b(3)] by simp_all
    have m: "mem_read ?m p (off + ?n) = mem_read ?m p off @ mem_read ?m (p + off) ?n"
      using mem_read_split [OF b(4), of ?m p] by simp
    let ?s = "s\<lparr>rs_world := w, rs_interrupts := tl (rs_interrupts s)\<rparr>"
    have "run_state (chunks (\<lambda>off n. returns (update h (p + off) n)) len k off ZUC_OK) s =
        run_state (chunks (\<lambda>off n. returns (update h (p + off) n)) len k (off + ?n) ZUC_OK) ?s"
      using u less(4) by (simp add: run_chunks_step [OF True] run_interrupt_quiet returns_def)
    moreover have "list_all Not (tl (rs_interrupts s))"
      using less(4) by (cases "rs_interrupts s") simp_all
    ultimately show ?thesis
      using less(1) [OF b(1), of ?s] w m live b(5) by simp
  qed
qed

lemma take_value_succeeds:
  assumes "holds (rs_world s) h m" "h \<noteq> NULL" "live (rs_world s)"
    and "rs_allocs s = out # l # rest" "out \<noteq> NULL" "l \<noteq> NULL"
  shows "\<exists>s'. run_state (take_value want finish release q h) s =
    (Returned (VECSXP [(''status'', INTSXP [0]), (''value'', RAWSXP out want)]), s')"
proof -
  obtain w where fin: "run_state (with_len (finish h out want)) (rs_world s) = ((ZUC_OK, want), w)"
    using finish_live [OF assms(1,2,5,3)] by blast
  obtain u s4 where rel: "run_state (release_ptr q release) (s\<lparr>rs_allocs := l # rest, rs_world := w\<rparr>) = (u, s4)"
    by (metis surj_pair)
  then have "rs_allocs s4 = l # rest"
    using release_ptr_mem [OF release_mem rel] by simp
  then show ?thesis
    using assms(4-6) fin rel
    by (simp add: take_value_def allocRaw_def run_r_alloc run_native result_def Let_def)
qed

lemma one_shot_succeeds:
  assumes new: "run_state (with_out new) (rs_world s) = ((ZUC_OK, h), w)" "holds w h []" "live w" "h \<noteq> NULL"
    and "list_all Not (rs_interrupts s)"
    and "rs_allocs s = q # f # out # l # rest" "q \<noteq> NULL" "f \<noteq> NULL" "out \<noteq> NULL" "l \<noteq> NULL"
    and "p \<noteq> NULL" "no_wrap p n"
  shows "\<exists>s'. run_state (one_shot fin want new update finish release p n) s =
    (Returned (VECSXP [(''status'', INTSXP [0]), (''value'', RAWSXP out want)]), s')"
proof -
  let ?s2 = "s\<lparr>rs_allocs := out # l # rest, rs_world := w, rs_ptrs := (rs_ptrs s)(q \<mapsto>
        \<lparr>x_addr = h, x_tag = R_NilValue, x_fin = Some fin\<rparr>)\<rparr>"
  let ?tail = "\<lambda>st. if st \<noteq> ZUC_OK then do { release_ptr q release; result st R_NilValue }
    else take_value want finish release q h"
  let ?loop = "chunks (\<lambda>off n. returns (update h (p + off) n)) n ?tail 0 ZUC_OK"
  have s2: "run_state (one_shot fin want new update finish release p n) s = run_state ?loop ?s2"
    using assms(6-8) new(1)
    by (simp add: one_shot_def R_MakeExternalPtr_def R_RegisterCFinalizerEx_def run_r_alloc update_ptr_def
        run_native R_SetExternalPtrAddr_def)
  obtain s3 where s3: "run_state ?loop ?s2 = run_state (?tail ZUC_OK) s3" "rs_allocs s3 = out # l # rest"
    "live (rs_world s3)" "holds (rs_world s3) h (mem_read (w_mem w) p n)"
    using chunks_succeed [of ?s2 h p 0 n ?tail] new assms(5,11,12) by auto
  then show ?thesis
    using take_value_succeeds [OF s3(4) new(4) s3(3,2) assms(9,10), of q] s2 by simp
qed

end

section \<open>Streams\<close>

text \<open>
  The life of a stream as R sees it, after the session \<open>s0\<close> in which it was created: it is fed by
  successful updates of less than 4 GiB each, while R changes its own memory and consumes its own
  allocations in between. \<open>feeding P q s0 m s\<close>: by session \<open>s\<close> the stream \<open>q\<close> has been fed \<open>m\<close>.
\<close>

inductive feeding ::
  "('b, 'o) psa \<Rightarrow> ptr \<Rightarrow> ('b, 'o) session \<Rightarrow> byte list \<Rightarrow> ('b, 'o) session \<Rightarrow> bool" for P q s0 where
  created: "feeding P q s0 [] s0"
| fed: "feeding P q s0 m s \<Longrightarrow> unat n < 2 ^ 32 \<Longrightarrow>
    run_state (zucrypt_stream_update P (EXTPTRSXP q) (RAWSXP p n)) s = (Returned (INTSXP [0]), s') \<Longrightarrow>
    feeding P q s0 (m @ mem_read (w_mem (rs_world s)) p n) s'"
| elsewhere: "feeding P q s0 m s \<Longrightarrow>
    feeding P q s0 m (s\<lparr>rs_world := (rs_world s)\<lparr>w_mem := g\<rparr>, rs_allocs := ps, rs_interrupts := bs\<rparr>)"

definition stream_has ::
  "(('b, 'o) world \<Rightarrow> ptr \<Rightarrow> byte list \<Rightarrow> bool) \<Rightarrow> int \<Rightarrow> zuc_alg \<Rightarrow> ptr \<Rightarrow> byte list \<Rightarrow> ('b, 'o) session \<Rightarrow> bool" where
  "stream_has holds kind alg q m s \<longleftrightarrow>
    (\<exists>x. rs_ptrs s q = Some x \<and> x_tag x = INTSXP [kind, alg] \<and> x_addr x \<noteq> NULL \<and> holds (rs_world s) (x_addr x) m)"

text \<open>How a stream is made, whatever its context.\<close>

definition open_stream ::
  "int \<Rightarrow> zuc_alg \<Rightarrow> (ptr \<Rightarrow> ('b, 'o, zuc_status) zuc) \<Rightarrow> ('b, 'o, sexp outcome) rc" where
  "open_stream kind alg new =
    stream_ptr kind alg (\<lambda>ptr. do {
      (st, h) \<leftarrow> native (with_out new);
      (if st = ZUC_OK then R_SetExternalPtrAddr ptr h else ret ());
      result st (if st = ZUC_OK then EXTPTRSXP ptr else R_NilValue) })"

lemmas open_stream_runs = open_stream_def stream_ptr_def R_MakeExternalPtr_def R_RegisterCFinalizerEx_def
  run_r_alloc run_native update_ptr_def R_SetExternalPtrAddr_def result_def

lemma open_stream_has:
  assumes "run_state (open_stream kind alg new) s =
      (Returned (VECSXP [(''status'', INTSXP [0]), (''value'', EXTPTRSXP q)]), s')"
    and "\<And>h w. run_state (with_out new) (rs_world s) = ((ZUC_OK, h), w) \<Longrightarrow> holds w h [] \<and> h \<noteq> NULL"
  shows "stream_has holds kind alg q [] s'"
proof -
  obtain st h w where new: "run_state (with_out new) (rs_world s) = ((st, h), w)"
    by (metis surj_pair)
  show ?thesis
    using assms(1) new assms(2) [of h w]
    by (auto simp: open_stream_runs stream_has_def Let_def split: list.splits if_splits)
qed

lemma open_stream_succeeds:
  assumes "run_state (with_out new) (rs_world s) = ((ZUC_OK, h), w)"
    and "rs_allocs s = a # q # f # l # rest" "a \<noteq> NULL" "q \<noteq> NULL" "f \<noteq> NULL" "l \<noteq> NULL"
  shows "\<exists>s'. run_state (open_stream kind alg new) s =
      (Returned (VECSXP [(''status'', INTSXP [0]), (''value'', EXTPTRSXP q)]), s') \<and>
    rs_allocs s' = rest \<and> rs_world s' = w"
  using assms by (simp add: open_stream_runs)

lemmas stream_runs = stream_tag_def R_ExternalPtrTag_def R_ExternalPtrAddr_def run_native

locale absorbing_stream = absorbing +
  fixes P :: "('b, 'o) psa"
    and kind :: int
    and alg :: zuc_alg
  assumes stream_update: "(if kind = ZUCRYPT_STREAM_HASH then zuc_hash_update P h p n else zuc_hmac_update P h p n) = update h p n"
    and stream_finish: "(if kind = ZUCRYPT_STREAM_HASH then zuc_hash_finish P h out n else zuc_hmac_finish P h out n) =
      finish h out n"
    and stream_release: "(if kind = ZUCRYPT_STREAM_HASH then zuc_hash_free P else zuc_hmac_free P) = release"
    and holds_memory: "holds w h m \<Longrightarrow> holds (w\<lparr>w_mem := g\<rparr>) h m"
begin

lemma stream_update_holds:
  assumes "stream_has holds kind alg q m s" "unat n < step_max"
    and "run_state (zucrypt_stream_update P (EXTPTRSXP q) (RAWSXP p n)) s = (Returned (INTSXP [0]), s')"
  shows "stream_has holds kind alg q (m @ mem_read (w_mem (rs_world s)) p n) s'"
proof -
  obtain x where x: "rs_ptrs s q = Some x" "x_tag x = INTSXP [kind, alg]" "x_addr x \<noteq> NULL"
      "holds (rs_world s) (x_addr x) m"
    using assms(1) by (auto simp: stream_has_def)
  obtain st w where u: "run_state (update (x_addr x) p n) (rs_world s) = (st, w)" by force
  have "run_state (R_CheckUserInterrupt (scalar_status st)) (s\<lparr>rs_world := w\<rparr>) = (Returned (INTSXP [0]), s')"
    using assms(3) x u
    by (simp add: zucrypt_stream_update_def stream_runs stream_update)
  then obtain bs where "run_state (scalar_status st) (s\<lparr>rs_world := w, rs_interrupts := bs\<rparr>) = (Returned (INTSXP [0]), s')"
    by (rule run_interrupt_returned) simp
  then have "st = ZUC_OK" "rs_world s' = w" "rs_ptrs s' = rs_ptrs s"
    by (auto simp: scalar_status_def run_r_alloc split: list.splits if_splits)
  then show ?thesis
    using update_holds [OF x(4) assms(2)] u x by (simp add: stream_has_def)
qed

lemma feeding_holds:
  assumes "feeding P q s0 m s" "stream_has holds kind alg q [] s0"
  shows "stream_has holds kind alg q m s"
  using assms(1)
proof induction
  case created
  show ?case by (rule assms(2))
next
  case (fed m s n p s')
  then show ?case using stream_update_holds [OF fed.IH _ fed(3)] long_steps by simp
next
  case (elsewhere m s g ps bs)
  then show ?case by (auto simp: stream_has_def holds_memory)
qed

lemma stream_finish_take:
  assumes "rs_ptrs s q = Some x" "x_tag x = INTSXP [kind, alg]" "x_addr x \<noteq> NULL"
  shows "run_state (zucrypt_stream_finish P (EXTPTRSXP q)) s =
    run_state (take_value (zuc_alg_size alg) finish release q (x_addr x)) s"
  using assms by (simp add: zucrypt_stream_finish_def take_value_def stream_runs stream_release Let_def
      stream_finish [of _ _ "zuc_alg_size alg", symmetric] if_distrib [of "\<lambda>f. f _"] cong: if_cong)

lemma stream_finish_value:
  assumes "stream_has holds kind alg q m s"
    and "run_state (zucrypt_stream_finish P (EXTPTRSXP q)) s =
      (Returned (VECSXP [(''status'', INTSXP [0]), (''value'', v)]), s')"
  shows "\<exists>out. v = RAWSXP out (zuc_alg_size alg) \<and> mem_read (w_mem (rs_world s')) out (zuc_alg_size alg) = val m"
  using assms stream_finish_take take_value_val by (fastforce simp: stream_has_def)

end

locale absorbing_stream_total = absorbing_total + absorbing_stream +
  assumes want_size: "want = zuc_alg_size alg"
begin

lemma stream_update_succeeds:
  assumes "stream_has holds kind alg q m s" "live (rs_world s)" "rs_interrupts s = []"
    and "rs_allocs s = l # rest" "l \<noteq> NULL" "p \<noteq> NULL" "unat n < step_max"
  shows "\<exists>s'. run_state (zucrypt_stream_update P (EXTPTRSXP q) (RAWSXP p n)) s = (Returned (INTSXP [0]), s') \<and>
    rs_allocs s' = rest \<and> live (rs_world s')"
proof -
  obtain x where x: "rs_ptrs s q = Some x" "x_tag x = INTSXP [kind, alg]" "x_addr x \<noteq> NULL"
      "holds (rs_world s) (x_addr x) m"
    using assms(1) by (auto simp: stream_has_def)
  then obtain w where "run_state (update (x_addr x) p n) (rs_world s) = (ZUC_OK, w)" "live w"
    using update_live assms(2,6,7) by blast
  then show ?thesis
    using assms(3-5) x
    by (simp add: zucrypt_stream_update_def stream_runs stream_update R_CheckUserInterrupt_def scalar_status_def run_r_alloc)
qed

lemma stream_finish_succeeds:
  assumes "stream_has holds kind alg q m s" "live (rs_world s)"
    and "rs_allocs s = out # l # rest" "out \<noteq> NULL" "l \<noteq> NULL"
  shows "\<exists>s'. run_state (zucrypt_stream_finish P (EXTPTRSXP q)) s =
    (Returned (VECSXP [(''status'', INTSXP [0]), (''value'', RAWSXP out (zuc_alg_size alg))]), s')"
  using assms take_value_succeeds [OF _ _ assms(2-5)] unfolding stream_has_def want_size
  by (auto simp: stream_finish_take)

end

end
