(* ===== verification/Digest.thy ===== *)
theory Digest
  imports Psa_Hash Absorb
begin

text \<open>
  From the R entry points down to FIPS 180-4: over any backend that keeps the digest contract, the
  adapter's incremental digests and the chunk loop of \<^verbatim>\<open>zucrypt_hash\<close> compute the digest of the
  caller's bytes. The lemmas are proved in the contract's locales; the properties are their
  instances for the vendored backend.
\<close>

section \<open>A digest context that has taken in a message\<close>

definition hash_holds ::
  "(psa_algorithm_t \<Rightarrow> 'o option \<Rightarrow> byte list \<Rightarrow> bool) \<Rightarrow> ('b, 'o) world \<Rightarrow> ptr \<Rightarrow> zuc_alg \<Rightarrow> byte list \<Rightarrow> bool" where
  "hash_holds absorbed w h alg m \<longleftrightarrow>
    (\<exists>x. w_hashes w h = Some x \<and> h_active x \<and> h_alg x = alg \<and> absorbed (zuc_int_psa_hash alg) (h_op x) m)"

lemma zuc_hash_free_mem: "keeps w_mem (zuc_hash_free P h)"
  unfolding zuc_hash_free_def deref_hash_def free_struct_hash_def by (intro keeps_intros; simp)

lemma zucrypt_hash_one_shot:
  "zucrypt_hash P (RAWSXP p n) (STRSXP [name]) =
    one_shot Fin_hash (zuc_alg_size (zuc_alg_by_name (Some name))) (zuc_hash_new P (zuc_alg_by_name (Some name)))
      (zuc_hash_update P) (zuc_hash_finish P) (zuc_hash_free P) p n"
  unfolding zucrypt_hash_def one_shot_def take_value_def Let_def RAW.simps XLENGTH.simps R_CHAR.simps by (rule refl)

lemma zucrypt_hash_stream_open:
  "zucrypt_hash_stream_new P (STRSXP [name]) =
    open_stream ZUCRYPT_STREAM_HASH (zuc_alg_by_name (Some name)) (zuc_hash_new P (zuc_alg_by_name (Some name)))"
  unfolding zucrypt_hash_stream_new_def open_stream_def Let_def R_CHAR.simps by (rule refl)

context psa_hash_contract
begin

lemma new_holds:
  assumes "run_state (with_out (zuc_hash_new P alg)) w = ((ZUC_OK, h), w')"
  shows "hash_holds absorbed w' h alg [] \<and> h \<noteq> NULL \<and> w_mem w' = w_mem w"
  using assms setup_absorbed
  by (auto simp: with_out_def zuc_hash_new_def calloc_hash_def run_c_alloc run_psa_do set_hash_def
      free_struct_hash_def Let_def hash_holds_def zero_hash_def split: if_splits list.splits)

lemma update_holds:
  assumes "hash_holds absorbed w h alg m" "unat n < step_max"
    and "run_state (zuc_hash_update P h p n) w = (ZUC_OK, w')"
  shows "hash_holds absorbed w' h alg (m @ mem_read (w_mem w) p n) \<and> w_mem w' = w_mem w"
proof -
  obtain x where x: "w_hashes w h = Some x" "h_active x" "h_alg x = alg"
      "absorbed (zuc_int_psa_hash alg) (h_op x) m"
    using assms(1) by (auto simp: hash_holds_def)
  show ?thesis
    using assms(2,3) x update_absorbed [OF x(4), of "mem_read (w_mem w) p n" "w_psa w"]
    by (auto simp: zuc_hash_update_def deref_hash_def run_psa_do set_hash_def hash_holds_def split: if_splits)
qed

lemma finish_holds:
  assumes "hash_holds absorbed w h alg m"
    and "run_state (with_len (zuc_hash_finish P h out n)) w = ((ZUC_OK, got), w')"
  defines "D \<equiv> digest (zuc_int_psa_hash alg) m"
  shows "got = of_nat (length D) \<and> length D \<le> unat n \<and> mem_read (w_mem w') out got = D"
proof -
  obtain x where x: "w_hashes w h = Some x" "h_active x" "h_alg x = alg"
      "absorbed (zuc_int_psa_hash alg) (h_op x) m"
    using assms(1) by (auto simp: hash_holds_def)
  let ?r = "fst (P (HASH (Hash_finish n)) (h_op x) (w_psa w))"
  have ok: "r_status ?r = PSA_SUCCESS" and got: "got = r_len ?r"
    and w': "w_mem w' = mem_write (w_mem w) out (take (unat n) (r_out ?r))"
    using assms(2) x
    by (auto simp: with_len_def zuc_hash_finish_def deref_hash_def run_psa_do set_hash_def split: if_splits)
  note f = finish_digest [OF x(4) ok, folded D_def]
  have u: "unat got = length D"
    using f got unsigned_less [where 'a = nat, of n] by (simp add: unat_of_nat take_bit_nat_eq_self)
  have "length D \<le> length (take (unat n) (r_out ?r))"
    using f by (metis length_take min.bounded_iff order_refl)
  then have "mem_read (w_mem w') out got = take (length D) (take (unat n) (r_out ?r))"
    by (intro nth_equalityI) (auto simp: w' u mem_write_def unat_of_nat_index [of _ got])
  then show ?thesis
    using f got by (simp add: min_def)
qed

text \<open>A digest context is a context that absorbs; R reaches it directly and through streams.\<close>

lemma absorbs: "absorbing_stream (zuc_hash_update P) (zuc_hash_finish P) (zuc_hash_free P)
    (\<lambda>w h. hash_holds absorbed w h alg) (digest (zuc_int_psa_hash alg)) step_max P ZUCRYPT_STREAM_HASH"
  by unfold_locales (use update_holds finish_holds zuc_hash_free_mem long_steps in \<open>auto simp: hash_holds_def\<close>)

sublocale absorbs: absorbing_stream "zuc_hash_update P" "zuc_hash_finish P" "zuc_hash_free P"
    "\<lambda>w h. hash_holds absorbed w h alg" "digest (zuc_int_psa_hash alg)" step_max P ZUCRYPT_STREAM_HASH alg for alg
  by (rule absorbs)

lemma zucrypt_hash_value:
  assumes "run_state (zucrypt_hash P (RAWSXP p n) (STRSXP [name])) s =
      (Returned (VECSXP [(''status'', INTSXP [0]), (''value'', v)]), s')"
  defines "alg \<equiv> zuc_alg_by_name (Some name)"
  shows "\<exists>out. v = RAWSXP out (zuc_alg_size alg) \<and>
    mem_read (w_mem (rs_world s')) out (zuc_alg_size alg) =
      digest (zuc_int_psa_hash alg) (mem_read (w_mem (rs_world s)) p n)"
  by (rule absorbs.one_shot_val [OF assms(1) [unfolded zucrypt_hash_one_shot, folded alg_def]])
    (use new_holds in blast)

lemma stream_new_holds:
  assumes "run_state (zucrypt_hash_stream_new P (STRSXP [name])) s =
      (Returned (VECSXP [(''status'', INTSXP [0]), (''value'', EXTPTRSXP q)]), s')"
  shows "stream_has (\<lambda>w h. hash_holds absorbed w h (zuc_alg_by_name (Some name))) ZUCRYPT_STREAM_HASH
    (zuc_alg_by_name (Some name)) q [] s'"
  by (rule open_stream_has [OF assms [unfolded zucrypt_hash_stream_open]]) (use new_holds in blast)

end

context psa_hash_total
begin

lemma new_succeeds:
  assumes "w_refcount w > 0" "zuc_int_digest_available alg" "w_allocs w = h # hs" "h \<noteq> NULL"
    and "able (w_psa w)" "supported (zuc_int_psa_hash alg)"
  shows "\<exists>w'. run_state (with_out (zuc_hash_new P alg)) w = ((ZUC_OK, h), w') \<and> able (w_psa w')"
  using assms setup_ok hash_able
  by (simp add: with_out_def zuc_hash_new_def calloc_hash_def run_c_alloc run_psa_do set_hash_def Let_def)

lemma update_succeeds:
  assumes "hash_holds absorbed w h alg m" "h \<noteq> NULL" "p \<noteq> NULL" "able (w_psa w)"
  shows "\<exists>w'. run_state (zuc_hash_update P h p n) w = (ZUC_OK, w') \<and> able (w_psa w')"
  using assms update_ok hash_able
  by (auto simp: hash_holds_def zuc_hash_update_def deref_hash_def run_psa_do set_hash_def)

lemma finish_succeeds:
  assumes "hash_holds absorbed w h alg m" "h \<noteq> NULL" "out \<noteq> NULL" "able (w_psa w)"
    and "length (digest (zuc_int_psa_hash alg) m) = unat (zuc_alg_size alg)"
  shows "\<exists>w'. run_state (with_len (zuc_hash_finish P h out (zuc_alg_size alg))) w =
    ((ZUC_OK, zuc_alg_size alg), w')"
proof -
  obtain x where x: "w_hashes w h = Some x" "h_active x" "h_alg x = alg"
      "absorbed (zuc_int_psa_hash alg) (h_op x) m"
    using assms(1) by (auto simp: hash_holds_def)
  have ok: "r_status (fst (P (HASH (Hash_finish (zuc_alg_size alg))) (h_op x) (w_psa w))) = PSA_SUCCESS"
    using finish_ok [OF x(4) assms(4)] assms(5) by simp
  have "of_nat (unat (zuc_alg_size alg)) = zuc_alg_size alg" by simp
  then show ?thesis
    using ok finish_digest [OF x(4) ok] assms(2,3,5) x
    by (simp add: with_len_def zuc_hash_finish_def deref_hash_def run_psa_do set_hash_def)
qed

text \<open>Its operations succeed when its digests have the size the adapter expects.\<close>

lemma absorbs_total:
  assumes "\<And>m. length (digest (zuc_int_psa_hash alg) m) = unat (zuc_alg_size alg)"
  shows "absorbing_stream_total (zuc_hash_update P) (zuc_hash_finish P) (zuc_hash_free P)
    (\<lambda>w h. hash_holds absorbed w h alg) (digest (zuc_int_psa_hash alg)) step_max (\<lambda>w. able (w_psa w))
    (zuc_alg_size alg) P ZUCRYPT_STREAM_HASH alg"
  by unfold_locales (use update_succeeds finish_succeeds assms in \<open>simp_all add: hash_holds_def\<close>)

lemma zucrypt_hash_succeeds:
  assumes "w_refcount (rs_world s) > 0" "w_allocs (rs_world s) = h # hs" "h \<noteq> NULL"
    and "able (w_psa (rs_world s))" "list_all Not (rs_interrupts s)"
    and "rs_allocs s = q # f # out # l # rest" "q \<noteq> NULL" "f \<noteq> NULL" "out \<noteq> NULL" "l \<noteq> NULL"
    and "p \<noteq> NULL" "no_wrap p n"
    and "zuc_int_digest_available alg" "supported (zuc_int_psa_hash alg)"
    and size: "\<And>m. length (digest (zuc_int_psa_hash alg) m) = unat (zuc_alg_size alg)"
    and alg: "alg = zuc_alg_by_name (Some name)"
  shows "\<exists>s'. run_state (zucrypt_hash P (RAWSXP p n) (STRSXP [name])) s =
    (Returned (VECSXP [(''status'', INTSXP [0]), (''value'', RAWSXP out (zuc_alg_size alg))]), s')"
proof -
  obtain w where new: "run_state (with_out (zuc_hash_new P alg)) (rs_world s) = ((ZUC_OK, h), w)" "able (w_psa w)"
    using new_succeeds [OF assms(1) assms(13) assms(2,3,4) assms(14)] by blast
  show ?thesis
    unfolding zucrypt_hash_one_shot alg [symmetric]
    using absorbing_total.one_shot_succeeds [OF absorbing_stream_total.axioms(1) [OF absorbs_total [OF size]] new(1) _ new(2)]
      new_holds [OF new(1)] assms(5-12) by blast
qed

lemma stream_new_succeeds:
  assumes "w_refcount (rs_world s) > 0" "w_allocs (rs_world s) = h # hs" "h \<noteq> NULL" "able (w_psa (rs_world s))"
    and "rs_allocs s = a # q # f # l # rest" "a \<noteq> NULL" "q \<noteq> NULL" "f \<noteq> NULL" "l \<noteq> NULL"
    and "zuc_int_digest_available alg" "supported (zuc_int_psa_hash alg)" "alg = zuc_alg_by_name (Some name)"
  shows "\<exists>s'. run_state (zucrypt_hash_stream_new P (STRSXP [name])) s =
      (Returned (VECSXP [(''status'', INTSXP [0]), (''value'', EXTPTRSXP q)]), s') \<and>
    rs_allocs s' = rest \<and> able (w_psa (rs_world s')) \<and> w_mem (rs_world s') = w_mem (rs_world s)"
proof -
  obtain w where new: "run_state (with_out (zuc_hash_new P alg)) (rs_world s) = ((ZUC_OK, h), w)" "able (w_psa w)"
    using new_succeeds [OF assms(1) assms(10) assms(2,3,4) assms(11)] by blast
  show ?thesis
    using open_stream_succeeds [OF new(1) assms(5-9), of ZUCRYPT_STREAM_HASH alg] new_holds [OF new(1)] new(2)
    unfolding zucrypt_hash_stream_open assms(12) [symmetric] by auto
qed

end

section \<open>Properties\<close>

lemma psa_hash_sizes:
  assumes "zuc_int_digest_available alg"
  shows "length (psa_digest (zuc_int_psa_hash alg) m) = unat (zuc_alg_size alg) \<and> sha_supported (zuc_int_psa_hash alg)"
  using assms
  by (auto simp: zuc_int_digest_available_iff zuc_int_psa_hash_def zuc_alg_size_def psa_digest_def length_digests
      sha_supported_def)

text \<open>
  C2. When \<^verbatim>\<open>zucrypt_hash\<close> over the vendored backend returns with status 0, its value is a raw
  vector that holds the FIPS 180-4 digest of the bytes of its argument, for every length of the
  argument and whatever allocations, interrupts and other backend calls do.
\<close>

theorem zucrypt_hash_is_digest:
  assumes "run_state (zucrypt_hash (vendored_hash Q) (RAWSXP p n) (STRSXP [name])) s =
      (Returned (VECSXP [(''status'', INTSXP [0]), (''value'', v)]), s')"
  shows "\<exists>out. v = RAWSXP out (zuc_alg_size (zuc_alg_by_name (Some name))) \<and>
    mem_read (w_mem (rs_world s')) out (zuc_alg_size (zuc_alg_by_name (Some name))) =
      psa_digest (zuc_int_psa_hash (zuc_alg_by_name (Some name))) (mem_read (w_mem (rs_world s)) p n)"
  by (rule vendored.zucrypt_hash_value [OF assms])

text \<open>
  C26. And it does return so: with the backend started, allocations that succeed, no interrupt
  and a known digest name, \<^verbatim>\<open>zucrypt_hash\<close> returns status 0 and a vector with the digest.
\<close>

theorem zucrypt_hash_answers:
  assumes "w_refcount (rs_world s) > 0" "w_allocs (rs_world s) = h # hs" "h \<noteq> NULL"
    and "vendored_able (w_psa (rs_world s))" "list_all Not (rs_interrupts s)"
    and "rs_allocs s = q # f # out # l # rest" "q \<noteq> NULL" "f \<noteq> NULL" "out \<noteq> NULL" "l \<noteq> NULL"
    and "p \<noteq> NULL" "no_wrap p n"
    and "zuc_int_digest_available (zuc_alg_by_name (Some name))"
  shows "\<exists>s'. run_state (zucrypt_hash (vendored_hash Q) (RAWSXP p n) (STRSXP [name])) s =
      (Returned (VECSXP [(''status'', INTSXP [0]),
         (''value'', RAWSXP out (zuc_alg_size (zuc_alg_by_name (Some name))))]), s') \<and>
    mem_read (w_mem (rs_world s')) out (zuc_alg_size (zuc_alg_by_name (Some name))) =
      psa_digest (zuc_int_psa_hash (zuc_alg_by_name (Some name))) (mem_read (w_mem (rs_world s)) p n)"
proof -
  note z = psa_hash_sizes [OF assms(13)]
  obtain s' where run: "run_state (zucrypt_hash (vendored_hash Q) (RAWSXP p n) (STRSXP [name])) s =
      (Returned (VECSXP [(''status'', INTSXP [0]),
         (''value'', RAWSXP out (zuc_alg_size (zuc_alg_by_name (Some name))))]), s')"
    using vendored_total.zucrypt_hash_succeeds [OF assms(1-13) _ _ refl, of Q] z by auto
  then show ?thesis
    using vendored.zucrypt_hash_value [OF run] by blast
qed

definition digest_session :: "(bool list \<times> unit, unit vop) session" where
  "digest_session =
    \<lparr>rs_world = fresh_world ([], ()) [4096], rs_ptrs = Map.empty, rs_allocs = [100, 101, 102, 103],
     rs_interrupts = [False]\<rparr>"

lemma digest_session_ok:
  "w_refcount (rs_world digest_session) > 0" "w_allocs (rs_world digest_session) = [4096]"
  "vendored_able (w_psa (rs_world digest_session))" "list_all Not (rs_interrupts digest_session)"
  "rs_allocs digest_session = [100, 101, 102, 103]" "no_wrap 8192 (3 * 1024 * 1024)"
  "zuc_alg_by_name (Some ''sha256'') = ZUC_ALG_SHA256" "zuc_int_digest_available ZUC_ALG_SHA256"
  "zuc_alg_size ZUC_ALG_SHA256 = 32"
  "psa_digest (zuc_int_psa_hash ZUC_ALG_SHA256) m = sha256_digest m"
  by (simp_all add: digest_session_def no_wrap_def zuc_alg_by_name_def all_algs_def zuc_alg_name_def
      zuc_int_digest_available_iff zuc_alg_size_def psa_digest_def zuc_int_psa_hash_def)

lemma digest_session_runs:
  "\<exists>s'. run_state (zucrypt_hash (vendored_hash (scripted accept_all)) (RAWSXP 8192 (3 * 1024 * 1024)) (STRSXP [''sha256'']))
    digest_session = (Returned (VECSXP [(''status'', INTSXP [0]), (''value'', RAWSXP 102 32)]), s')"
  using vendored_total.zucrypt_hash_succeeds [OF digest_session_ok(1,2) _ digest_session_ok(3,4,5) _ _ _ _ _
      digest_session_ok(6,8) _ _ digest_session_ok(7) [symmetric], of "scripted accept_all"]
    psa_hash_sizes [OF digest_session_ok(8)] digest_session_ok(8,9) by simp

theorem zucrypt_hash_is_digest_witness:
  "\<exists>s'. run_state (zucrypt_hash (vendored_hash (scripted accept_all)) (RAWSXP 8192 (3 * 1024 * 1024)) (STRSXP [''sha256'']))
      digest_session = (Returned (VECSXP [(''status'', INTSXP [0]), (''value'', RAWSXP 102 32)]), s') \<and>
    mem_read (w_mem (rs_world s')) 102 32 =
      sha256_digest (mem_read (w_mem (rs_world digest_session)) 8192 (3 * 1024 * 1024))"
proof -
  obtain s' where run: "run_state (zucrypt_hash (vendored_hash (scripted accept_all)) (RAWSXP 8192 (3 * 1024 * 1024))
      (STRSXP [''sha256''])) digest_session = (Returned (VECSXP [(''status'', INTSXP [0]), (''value'', RAWSXP 102 32)]), s')"
    using digest_session_runs by blast
  then show ?thesis
    using zucrypt_hash_is_digest [OF run] by (auto simp: digest_session_ok)
qed

theorem zucrypt_hash_answers_witness:
  "\<exists>s'. run_state (zucrypt_hash (vendored_hash (scripted accept_all)) (RAWSXP 8192 (3 * 1024 * 1024)) (STRSXP [''sha256'']))
      digest_session = (Returned (VECSXP [(''status'', INTSXP [0]), (''value'', RAWSXP 102 32)]), s') \<and>
    mem_read (w_mem (rs_world s')) 102 32 =
      sha256_digest (mem_read (w_mem (rs_world digest_session)) 8192 (3 * 1024 * 1024))"
  using zucrypt_hash_answers [OF digest_session_ok(1,2) _ digest_session_ok(3,4,5) _ _ _ _ _ digest_session_ok(6),
      of "''sha256''" "scripted accept_all"]
  by (simp add: digest_session_ok)

text \<open>
  C15. A digest stream over the vendored backend returns the FIPS 180-4 digest of everything it was
  fed, however the input was cut into updates, each shorter than 4 GiB, and whatever R did to its memory
  in between.
\<close>

theorem zucrypt_stream_is_digest:
  assumes "run_state (zucrypt_hash_stream_new (vendored_hash Q) (STRSXP [name])) s =
      (Returned (VECSXP [(''status'', INTSXP [0]), (''value'', EXTPTRSXP q)]), s0)"
    and "feeding (vendored_hash Q) q s0 m s1"
    and "run_state (zucrypt_stream_finish (vendored_hash Q) (EXTPTRSXP q)) s1 =
      (Returned (VECSXP [(''status'', INTSXP [0]), (''value'', v)]), s2)"
  shows "\<exists>out. v = RAWSXP out (zuc_alg_size (zuc_alg_by_name (Some name))) \<and>
    mem_read (w_mem (rs_world s2)) out (zuc_alg_size (zuc_alg_by_name (Some name))) =
      psa_digest (zuc_int_psa_hash (zuc_alg_by_name (Some name))) m"
  using vendored.absorbs.stream_finish_value
    [OF vendored.absorbs.feeding_holds [OF assms(2) vendored.stream_new_holds [OF assms(1)]] assms(3)] .

interpretation sha256_stream: absorbing_stream_total "zuc_hash_update (vendored_hash Q)" "zuc_hash_finish (vendored_hash Q)"
  "zuc_hash_free (vendored_hash Q)" "\<lambda>w h. hash_holds vendored_absorbed w h ZUC_ALG_SHA256"
  "psa_digest (zuc_int_psa_hash ZUC_ALG_SHA256)" "2 ^ 32" "\<lambda>w. vendored_able (w_psa w)" "zuc_alg_size ZUC_ALG_SHA256"
  "vendored_hash Q" ZUCRYPT_STREAM_HASH ZUC_ALG_SHA256 for Q
  by (rule vendored_total.absorbs_total) (use psa_hash_sizes [OF digest_session_ok(8)] in simp)

definition stream_session :: "(bool list \<times> unit, unit vop) session" where
  "stream_session =
    \<lparr>rs_world = fresh_world ([], ()) [4096], rs_ptrs = Map.empty, rs_allocs = [100, 101, 102, 103, 104, 105, 106],
     rs_interrupts = []\<rparr>"

lemma stream_session_ok:
  "w_refcount (rs_world stream_session) > 0" "w_allocs (rs_world stream_session) = [4096]"
  "vendored_able (w_psa (rs_world stream_session))"
  "rs_allocs stream_session = [100, 101, 102, 103, 104, 105, 106]"
  by (simp_all add: stream_session_def)

lemma stream_session_runs:
  "\<exists>s0 m s1 s2. run_state (zucrypt_hash_stream_new (vendored_hash (scripted accept_all)) (STRSXP [''sha256''])) stream_session =
      (Returned (VECSXP [(''status'', INTSXP [0]), (''value'', EXTPTRSXP 101)]), s0) \<and>
    feeding (vendored_hash (scripted accept_all)) 101 s0 m s1 \<and>
    m = mem_read (w_mem (rs_world stream_session)) 8192 1000 \<and>
    run_state (zucrypt_stream_finish (vendored_hash (scripted accept_all)) (EXTPTRSXP 101)) s1 =
      (Returned (VECSXP [(''status'', INTSXP [0]), (''value'', RAWSXP 105 32)]), s2)"
proof -
  let ?P = "vendored_hash (scripted accept_all)" and ?a = ZUC_ALG_SHA256
  note z = digest_session_ok(7-9) psa_hash_sizes [OF digest_session_ok(8)]
  obtain s0 where s0: "run_state (zucrypt_hash_stream_new ?P (STRSXP [''sha256''])) stream_session =
      (Returned (VECSXP [(''status'', INTSXP [0]), (''value'', EXTPTRSXP 101)]), s0)"
    "rs_allocs s0 = [104, 105, 106]" "vendored_able (w_psa (rs_world s0))"
    "w_mem (rs_world s0) = w_mem (rs_world stream_session)"
    using vendored_total.stream_new_succeeds [OF stream_session_ok(1,2) _ stream_session_ok(3,4) _ _ _ _
        digest_session_ok(8) _ digest_session_ok(7) [symmetric], of "scripted accept_all"] z(4) by auto
  let ?s1 = "s0\<lparr>rs_world := (rs_world s0)\<lparr>w_mem := w_mem (rs_world s0)\<rparr>, rs_allocs := [104, 105, 106], rs_interrupts := []\<rparr>"
  note new = vendored.stream_new_holds [OF s0(1), unfolded z(1)]
  have fed1: "feeding ?P 101 s0 [] ?s1" by (intro feeding.elsewhere feeding.created)
  note has1 = vendored.absorbs.feeding_holds [OF fed1 new]
  obtain s2 where s2: "run_state (zucrypt_stream_update ?P (EXTPTRSXP 101) (RAWSXP 8192 1000)) ?s1 = (Returned (INTSXP [0]), s2)"
    "rs_allocs s2 = [105, 106]" "vendored_able (w_psa (rs_world s2))"
    using sha256_stream.stream_update_succeeds [OF has1, of 104 "[105, 106]" 8192 1000] s0(3) by auto
  have fed2: "feeding ?P 101 s0 ([] @ mem_read (w_mem (rs_world ?s1)) 8192 1000) s2"
    by (rule feeding.fed [OF fed1 _ s2(1)]) simp
  obtain s3 where "run_state (zucrypt_stream_finish ?P (EXTPTRSXP 101)) s2 =
      (Returned (VECSXP [(''status'', INTSXP [0]), (''value'', RAWSXP 105 32)]), s3)"
    using sha256_stream.stream_finish_succeeds [OF vendored.absorbs.feeding_holds [OF fed2 new], of 105 106 "[]"] s2(2,3) z
    by auto
  with s0(1) fed2 show ?thesis
    using s0(4) by auto
qed

theorem zucrypt_stream_is_digest_witness:
  "\<exists>m s1 s2. m = mem_read (w_mem (rs_world stream_session)) 8192 1000 \<and>
    run_state (zucrypt_stream_finish (vendored_hash (scripted accept_all)) (EXTPTRSXP 101)) s1 =
      (Returned (VECSXP [(''status'', INTSXP [0]), (''value'', RAWSXP 105 32)]), s2) \<and>
    mem_read (w_mem (rs_world s2)) 105 32 = sha256_digest m"
proof -
  obtain s0 m s1 s2 where run:
    "run_state (zucrypt_hash_stream_new (vendored_hash (scripted accept_all)) (STRSXP [''sha256''])) stream_session =
      (Returned (VECSXP [(''status'', INTSXP [0]), (''value'', EXTPTRSXP 101)]), s0)"
    "feeding (vendored_hash (scripted accept_all)) 101 s0 m s1" "m = mem_read (w_mem (rs_world stream_session)) 8192 1000"
    "run_state (zucrypt_stream_finish (vendored_hash (scripted accept_all)) (EXTPTRSXP 101)) s1 =
      (Returned (VECSXP [(''status'', INTSXP [0]), (''value'', RAWSXP 105 32)]), s2)"
    using stream_session_runs by blast
  have "mem_read (w_mem (rs_world s2)) 105 32 = sha256_digest m"
    using zucrypt_stream_is_digest [OF run(1,2,4)] by (auto simp: digest_session_ok)
  with run show ?thesis by blast
qed

end
