(* ===== verification/Key_Store.thy ===== *)
theory Key_Store
  imports World
begin

text \<open>
  The backend's key store, which is not modelled: what it answers is a parameter of the vendored ciphers
  and MACs, and that it keeps what it is given is a hypothesis where it matters.
\<close>

text \<open>
  What the key store answers when a slot is locked for a use, and the attributes and the bytes a
  locked slot holds.
\<close>

record 'b key_store =
  lock_slot :: "'b \<Rightarrow> psa_key_id_t \<Rightarrow> psa_key_usage_t \<Rightarrow> psa_algorithm_t \<Rightarrow> psa_status_t"
  slot_attr :: "'b \<Rightarrow> psa_key_id_t \<Rightarrow> psa_attr"
  slot_data :: "'b \<Rightarrow> psa_key_id_t \<Rightarrow> byte list"

text \<open>
  What \<^verbatim>\<open>psa_import_key\<close> is documented to do for the types whose key material is an unstructured string,
  here \<^verbatim>\<open>PSA_KEY_TYPE_HMAC\<close> and \<^verbatim>\<open>PSA_KEY_TYPE_AES\<close>: the key it makes has the bytes it was given.
\<close>

definition raw_type :: "psa_key_type_t \<Rightarrow> bool" where
  [simp]: "raw_type t \<longleftrightarrow> t = 0x1100 \<or> t = 0x2400"

definition imports_keys :: "('b, 'o) psa \<Rightarrow> ('b \<Rightarrow> psa_key_id_t \<Rightarrow> byte list) \<Rightarrow> bool" where
  "imports_keys P key_of \<longleftrightarrow>
    (\<forall>attr k b. raw_type (pa_type attr) \<longrightarrow>
      r_status (fst (P (KEY (Import_key attr k)) None b)) = PSA_SUCCESS \<longrightarrow>
      key_of (snd (P (KEY (Import_key attr k)) None b)) (r_id (fst (P (KEY (Import_key attr k)) None b))) = k)"

end
