(* ===== verification/Cbc_Mode.thy ===== *)
theory Cbc_Mode
  imports Digest Key_Store
begin

text \<open>
  Cipher block chaining, as NIST SP 800-38A defines it for a block cipher that is a parameter, and
  what the adapter makes of it: \<open>psa_cbc_contract\<close> states what a backend promises of the four cipher
  calls of \<^verbatim>\<open>cipher_run\<close>; over any backend that keeps it, \<^verbatim>\<open>zuc_aes_cbc_encrypt\<close> and
  \<^verbatim>\<open>zuc_aes_cbc_decrypt\<close> continue one chain from call to call, so that the chunk loop of
  \<^verbatim>\<open>zucrypt_aes_cbc\<close> is the mode applied to the whole vector.
\<close>

section \<open>The mode\<close>

definition xor_bytes :: "byte list \<Rightarrow> byte list \<Rightarrow> byte list" where
  "xor_bytes xs ys = map2 (XOR) xs ys"

function cbc_enc :: "(byte list \<Rightarrow> byte list) \<Rightarrow> byte list \<Rightarrow> byte list \<Rightarrow> byte list" where
  "cbc_enc E iv xs =
    (if length xs < 16 then []
     else let c = E (xor_bytes (take 16 xs) iv) in c @ cbc_enc E c (drop 16 xs))"
  by pat_completeness auto

termination
  by (relation "measure (\<lambda>(E, iv, xs). length xs)") auto

function cbc_dec :: "(byte list \<Rightarrow> byte list) \<Rightarrow> byte list \<Rightarrow> byte list \<Rightarrow> byte list" where
  "cbc_dec D iv cs =
    (if length cs < 16 then []
     else xor_bytes (D (take 16 cs)) iv @ cbc_dec D (take 16 cs) (drop 16 cs))"
  by pat_completeness auto

termination
  by (relation "measure (\<lambda>(D, iv, cs). length cs)") auto

declare cbc_enc.simps [simp del] cbc_dec.simps [simp del]

text \<open>A function on blocks of 16 bytes.\<close>

definition on_blocks :: "(byte list \<Rightarrow> byte list) \<Rightarrow> bool" where
  "on_blocks E \<longleftrightarrow> (\<forall>b. length b = 16 \<longrightarrow> length (E b) = 16)"

lemma length_xor_bytes [simp]: "length (xor_bytes xs ys) = min (length xs) (length ys)"
  by (simp add: xor_bytes_def)

lemma xor_bytes_cancel: "length xs = length ys \<Longrightarrow> xor_bytes (xor_bytes xs ys) ys = xs"
  by (rule nth_equalityI) (simp_all add: xor_bytes_def xor.assoc)

lemma cbc_enc_Nil [simp]: "length xs < 16 \<Longrightarrow> cbc_enc E iv xs = []"
  by (simp add: cbc_enc.simps)

lemma cbc_dec_Nil [simp]: "length xs < 16 \<Longrightarrow> cbc_dec D iv xs = []"
  by (simp add: cbc_dec.simps)

lemma cbc_enc_block: "length b = 16 \<Longrightarrow> cbc_enc E iv (b @ xs) = E (xor_bytes b iv) @ cbc_enc E (E (xor_bytes b iv)) xs"
  by (subst cbc_enc.simps) (simp add: Let_def)

lemma cbc_dec_block: "length b = 16 \<Longrightarrow> cbc_dec D iv (b @ xs) = xor_bytes (D b) iv @ cbc_dec D b xs"
  by (subst cbc_dec.simps) simp

text \<open>Induction over the blocks of a message of whole blocks.\<close>

lemma blocks_induct [consumes 1, case_names Nil block]:
  assumes "16 dvd length xs" "\<And>iv. P iv []"
    and "\<And>iv b ys. length b = 16 \<Longrightarrow> 16 dvd length ys \<Longrightarrow> (\<And>iv'. P iv' ys) \<Longrightarrow> P iv (b @ ys)"
  shows "P iv (xs :: 'a list)"
  using assms(1)
proof (induction "length xs" arbitrary: xs iv rule: less_induct)
  case less
  show ?case
  proof (cases "xs = []")
    case True
    then show ?thesis using assms(2) by simp
  next
    case False
    then have n: "16 \<le> length xs" using less(2) by (simp add: dvd_imp_le)
    have "P iv' (drop 16 xs)" for iv'
      using less n by simp
    then show ?thesis
      using assms(3) [of "take 16 xs" "drop 16 xs" iv] n less(2) by simp
  qed
qed

lemma length_cbc_enc:
  assumes "16 dvd length xs" "on_blocks E"
  shows "length iv = 16 \<Longrightarrow> length (cbc_enc E iv xs) = length xs"
  using assms(1)
  by (induction iv xs rule: blocks_induct) (use assms(2) in \<open>simp_all add: cbc_enc_block on_blocks_def\<close>)

lemma length_cbc_dec:
  assumes "16 dvd length xs" "on_blocks D"
  shows "length iv = 16 \<Longrightarrow> length (cbc_dec D iv xs) = length xs"
  using assms(1)
  by (induction iv xs rule: blocks_induct) (use assms(2) in \<open>simp_all add: cbc_dec_block on_blocks_def\<close>)

text \<open>
  Both directions as the adapter's two functions, and the value the chain has after a message: its
  last block of ciphertext.
\<close>

definition cbc :: "bool \<Rightarrow> (byte list \<Rightarrow> byte list) \<Rightarrow> (byte list \<Rightarrow> byte list) \<Rightarrow> byte list \<Rightarrow> byte list \<Rightarrow> byte list" where
  "cbc encrypt E D iv xs = (if encrypt then cbc_enc E iv xs else cbc_dec D iv xs)"

definition cbc_next :: "bool \<Rightarrow> (byte list \<Rightarrow> byte list) \<Rightarrow> byte list \<Rightarrow> byte list \<Rightarrow> byte list" where
  "cbc_next encrypt E iv xs =
    (if xs = [] then iv
     else let c = (if encrypt then cbc_enc E iv xs else xs) in drop (length c - 16) c)"

lemma cbc_next_block:
  assumes "length b = 16" "16 dvd length xs" "on_blocks E" "length iv = 16"
  shows "cbc_next encrypt E iv (b @ xs) = cbc_next encrypt E (if encrypt then E (xor_bytes b iv) else b) xs"
proof (cases "xs = []")
  case True
  have "length (E (xor_bytes b iv)) = 16" using assms by (simp add: on_blocks_def)
  moreover have "b \<noteq> []" using assms(1) by auto
  ultimately show ?thesis
    using True assms(1) cbc_enc_block [OF assms(1), of E iv "[]"] by (simp add: cbc_next_def Let_def)
next
  case False
  then have n: "16 \<le> length xs" using assms(2) by (simp add: dvd_imp_le)
  have c: "length (E (xor_bytes b iv)) = 16" using assms by (simp add: on_blocks_def)
  then have "length (cbc_enc E (E (xor_bytes b iv)) xs) = length xs"
    using assms by (intro length_cbc_enc)
  then show ?thesis
    using assms(1) False n c by (cases encrypt) (simp_all add: cbc_next_def Let_def cbc_enc_block)
qed

lemma length_cbc:
  "16 dvd length xs \<Longrightarrow> on_blocks E \<Longrightarrow> on_blocks D \<Longrightarrow> length iv = 16 \<Longrightarrow> length (cbc e E D iv xs) = length xs"
  by (simp add: cbc_def length_cbc_enc length_cbc_dec)

lemma length_cbc_next:
  assumes "16 dvd length xs" "on_blocks E" "length iv = 16"
  shows "length (cbc_next e E iv xs) = 16"
proof (cases "xs = []")
  case False
  then have "16 \<le> length xs" using assms(1) by (simp add: dvd_imp_le)
  then show ?thesis
    using assms False by (simp add: cbc_next_def Let_def length_cbc_enc)
qed (use assms in \<open>simp add: cbc_next_def\<close>)

lemma cbc_append:
  assumes "16 dvd length xs" "on_blocks E" "length iv = 16"
  shows "cbc e E D iv (xs @ ys) = cbc e E D iv xs @ cbc e E D (cbc_next e E iv xs) ys"
  using assms(1,3)
proof (induction iv xs rule: blocks_induct)
  case (Nil iv)
  then show ?case by (simp add: cbc_def cbc_next_def)
next
  case (block iv b xs)
  let ?iv = "if e then E (xor_bytes b iv) else b"
  have "length ?iv = 16" using block(1,4) assms(2) by (simp add: on_blocks_def)
  from block(3) [OF this] show ?case
    using block(1,2,4) assms(2) by (cases e) (simp_all add: cbc_def cbc_enc_block cbc_dec_block cbc_next_block)
qed

lemma cbc_next_append:
  assumes "16 dvd length xs" "16 dvd length ys" "on_blocks E" "length iv = 16"
  shows "cbc_next e E iv (xs @ ys) = cbc_next e E (cbc_next e E iv xs) ys"
  using assms(1,4)
proof (induction iv xs rule: blocks_induct)
  case (Nil iv)
  then show ?case by (simp add: cbc_next_def)
next
  case (block iv b xs)
  let ?iv = "if e then E (xor_bytes b iv) else b"
  have "length ?iv = 16" using block(1,4) assms(3) by (simp add: on_blocks_def)
  from block(3) [OF this] show ?case
    using block(1,2,4) assms(2,3) by (simp add: cbc_next_block)
qed

lemma cbc_round_trip:
  assumes "16 dvd length xs" "length iv = 16" "on_blocks E" "\<And>b. length b = 16 \<Longrightarrow> D (E b) = b"
  shows "cbc_dec D iv (cbc_enc E iv xs) = xs"
  using assms(1,2)
proof (induction iv xs rule: blocks_induct)
  case (Nil iv)
  then show ?case by simp
next
  case (block iv b xs)
  have "length (E (xor_bytes b iv)) = 16" using block(1,4) assms(3) by (simp add: on_blocks_def)
  with block assms(4) show ?case
    by (simp add: cbc_enc_block cbc_dec_block xor_bytes_cancel)
qed

text \<open>A block cipher under one key, and its inverse.\<close>

definition block_pair :: "(byte list \<Rightarrow> byte list) \<Rightarrow> (byte list \<Rightarrow> byte list) \<Rightarrow> bool" where
  "block_pair E D \<longleftrightarrow> on_blocks E \<and> on_blocks D \<and> (\<forall>b. length b = 16 \<longrightarrow> D (E b) = b)"

lemma block_pair_blocks: "block_pair E D \<Longrightarrow> on_blocks E" "block_pair E D \<Longrightarrow> on_blocks D"
  by (simp_all add: block_pair_def)

section \<open>The contract\<close>

text \<open>
  \<open>E\<close> and \<open>D\<close> are the block cipher under a key, \<open>key_of\<close> reads the bytes of a key from the backend's
  state. \<open>set_up e k op\<close> says that \<open>op\<close> is a CBC operation of direction \<open>e\<close> under \<open>k\<close>, \<open>chained e k iv op\<close>
  that it has its IV, \<open>own op\<close> that it belongs to an operation set up for the mode; no call on such an
  operation changes a key. The laws say what the calls have done when they succeed; a backend may refuse
  any of them.
\<close>

definition setup_call :: "bool \<Rightarrow> psa_key_id_t \<Rightarrow> psa_call" where
  "setup_call e kid =
    CIPHER (if e then Cipher_encrypt_setup kid PSA_ALG_CBC_NO_PADDING
            else Cipher_decrypt_setup kid PSA_ALG_CBC_NO_PADDING)"

text \<open>A handle that is at \<open>iv\<close> in its chain, under the key \<open>k\<close>.\<close>

definition at_chain :: "('b \<Rightarrow> psa_key_id_t \<Rightarrow> byte list) \<Rightarrow> ('b, 'o) world \<Rightarrow> ptr \<Rightarrow> byte list \<Rightarrow> byte list \<Rightarrow> bool" where
  "at_chain key_of w aes k iv \<longleftrightarrow>
    aes \<noteq> NULL \<and> length iv = 16 \<and> (\<exists>x. w_aess w aes = Some x \<and> a_chain x = iv \<and> key_of (w_psa w) (a_key x) = k)"

text \<open>What a successful call of either function has done.\<close>

lemma cbc_ran:
  assumes "run_state (if e then zuc_aes_cbc_encrypt P aes inp len out else zuc_aes_cbc_decrypt P aes inp len out) w =
      (ZUC_OK, w')"
    and "w_aess w aes = Some x" "aes \<noteq> NULL"
  shows "if len = 0 then w' = w
    else unat len mod 16 = 0 \<and>
      (\<exists>w1. run_state (cipher_run P (a_key x) e (a_chain x) inp len out) w = (ZUC_OK, w1) \<and>
        w' = w1\<lparr>w_aess := (w_aess w1)(aes \<mapsto> x\<lparr>a_chain :=
          (if e then mem_read (w_mem w1) (out + len - 16) 16 else mem_read (w_mem w) (inp + len - 16) 16)\<rparr>)\<rparr>)"
proof -
  obtain st where c: "run_state (check_block_args aes inp len out) w = (st, w)"
    by (simp add: check_block_args_def assms(3))
  moreover have "st = ZUC_OK \<Longrightarrow> unat len mod 16 = 0"
    using c assms(3) by (auto simp: check_block_args_def block_multiple_iff split: if_splits)
  ultimately show ?thesis
    using assms(1,2)
    by (cases e) (auto simp: zuc_aes_cbc_encrypt_def zuc_aes_cbc_decrypt_def deref_aes_def set_aes_def
        split: if_splits prod.splits)
qed

text \<open>
  The first \<open>off\<close> bytes of a message at \<open>p\<close> are done, and only the \<open>len\<close> bytes of the output differ from
  the memory \<open>m\<close> of the start.
\<close>

definition cbc_done ::
  "('b \<Rightarrow> psa_key_id_t \<Rightarrow> byte list) \<Rightarrow> (byte list \<Rightarrow> byte list) \<Rightarrow> (byte list \<Rightarrow> byte list) \<Rightarrow> bool \<Rightarrow> memory \<Rightarrow>
   ptr \<Rightarrow> ptr \<Rightarrow> size_t \<Rightarrow> byte list \<Rightarrow> byte list \<Rightarrow> ptr \<Rightarrow> ('b, 'o) world \<Rightarrow> size_t \<Rightarrow> bool" where
  "cbc_done key_of E D e m p out len iv k aes w off \<longleftrightarrow>
    16 dvd unat off \<and> length iv = 16 \<and> at_chain key_of w aes k (cbc_next e E iv (mem_read m p off)) \<and>
    mem_read (w_mem w) out off = cbc e E D iv (mem_read m p off) \<and> (\<forall>a. a \<notin> buf out len \<longrightarrow> w_mem w a = m a)"

lemma zuc_aes_free_mem: "keeps w_mem (zuc_aes_free P h)"
  unfolding zuc_aes_free_def deref_aes_def free_struct_aes_def by (intro keeps_intros; simp)

fun step_call :: "cipher_call \<Rightarrow> bool" where
  "step_call (Cipher_encrypt_setup kid alg) = False"
| "step_call (Cipher_decrypt_setup kid alg) = False"
| "step_call c = True"

locale psa_cbc_contract =
  fixes P :: "('b, 'o) psa"
    and E :: "byte list \<Rightarrow> byte list \<Rightarrow> byte list"
    and D :: "byte list \<Rightarrow> byte list \<Rightarrow> byte list"
    and key_of :: "'b \<Rightarrow> psa_key_id_t \<Rightarrow> byte list"
    and set_up :: "bool \<Rightarrow> byte list \<Rightarrow> 'o option \<Rightarrow> bool"
    and chained :: "bool \<Rightarrow> byte list \<Rightarrow> byte list \<Rightarrow> 'o option \<Rightarrow> bool"
    and own :: "'o option \<Rightarrow> bool"
  assumes setup_ready:
      "r_status (fst (P (setup_call e kid) None b)) = PSA_SUCCESS \<Longrightarrow>
       set_up e (key_of b kid) (r_op (fst (P (setup_call e kid) None b)))"
    and iv_chained:
      "set_up e k op \<Longrightarrow> length iv = 16 \<Longrightarrow>
       r_status (fst (P (CIPHER (Cipher_set_iv iv)) op b)) = PSA_SUCCESS \<Longrightarrow>
       chained e k iv (r_op (fst (P (CIPHER (Cipher_set_iv iv)) op b)))"
    and update_cbc:
      "block_pair (E k) (D k) \<Longrightarrow> chained e k iv op \<Longrightarrow> length iv = 16 \<Longrightarrow> 16 dvd length d \<Longrightarrow> length d = unat n \<Longrightarrow>
       r_status (fst (P (CIPHER (Cipher_update d n)) op b)) = PSA_SUCCESS \<Longrightarrow>
       r_len (fst (P (CIPHER (Cipher_update d n)) op b)) = n \<and>
       r_out (fst (P (CIPHER (Cipher_update d n)) op b)) = cbc e (E k) (D k) iv d"
    and setup_own: "own (r_op (fst (P (setup_call e kid) None b)))"
      "key_of (snd (P (setup_call e kid) None b)) = key_of b"
    and step_own: "own op \<Longrightarrow> step_call c \<Longrightarrow> own (r_op (fst (P (CIPHER c) op b)))"
      "own op \<Longrightarrow> step_call c \<Longrightarrow> key_of (snd (P (CIPHER c) op b)) = key_of b"
begin

lemma cipher_run_value:
  assumes run: "run_state (cipher_run P kid e iv inp len out) w = (ZUC_OK, w')"
    and iv: "length iv = 16" and len: "unat len mod 16 = 0"
    and bp: "block_pair (E (key_of (w_psa w) kid)) (D (key_of (w_psa w) kid))"
  shows "mem_read (w_mem w') out len = cbc e (E (key_of (w_psa w) kid)) (D (key_of (w_psa w) kid)) iv (mem_read (w_mem w) inp len)"
    and "key_of (w_psa w') = key_of (w_psa w)" and "w_aess w' = w_aess w"
    and "a \<notin> buf out len \<Longrightarrow> w_mem w' a = w_mem w a"
proof -
  let ?k = "key_of (w_psa w) kid" and ?d = "mem_read (w_mem w) inp len"
  note blocks = block_pair_blocks [OF bp]
  have d: "16 dvd length ?d" "length ?d = unat len" using len by (simp_all add: mod_eq_0_iff_dvd)
  obtain r1 b1 where p1: "P (setup_call e kid) None (w_psa w) = (r1, b1)" by force
  obtain r2 b2 where p2: "P (CIPHER (Cipher_set_iv iv)) (r_op r1) b1 = (r2, b2)" by force
  obtain r3 b3 where p3: "P (CIPHER (Cipher_update ?d len)) (r_op r2) b2 = (r3, b3)" by force
  obtain r4 b4 where p4: "P (CIPHER (Cipher_finish (len - r_len r3))) (r_op r3) b3 = (r4, b4)" by force
  have ok: "r_status r1 = PSA_SUCCESS" "r_status r2 = PSA_SUCCESS" "r_status r3 = PSA_SUCCESS"
    and w': "w_psa w' = b4" "w_aess w' = w_aess w"
      "w_mem w' = mem_write (mem_write (w_mem w) out (take (unat len) (r_out r3))) (out + r_len r3)
         (take (unat (len - r_len r3)) (r_out r4))"
    using run p1 p2 p3 p4
    by (auto simp: cipher_run_def cipher_abort_def run_psa_do Let_def setup_call_def split: if_splits prod.splits)
  have o: "own (r_op r1)" "own (r_op r2)" "own (r_op r3)"
    using setup_own(1) [of e kid "w_psa w"] step_own(1) [of "r_op r1" "Cipher_set_iv iv" b1]
      step_own(1) [of "r_op r2" "Cipher_update ?d len" b2] p1 p2 p3 by simp_all
  have k: "key_of b1 = key_of (w_psa w)" "key_of b2 = key_of b1" "key_of b3 = key_of b2" "key_of b4 = key_of b3"
    using setup_own(2) [of e kid "w_psa w"] step_own(2) [OF o(1), of "Cipher_set_iv iv" b1]
      step_own(2) [OF o(2), of "Cipher_update ?d len" b2] step_own(2) [OF o(3), of "Cipher_finish (len - r_len r3)" b3]
      p1 p2 p3 p4 by simp_all
  have "set_up e ?k (r_op r1)" using setup_ready [of e kid "w_psa w"] p1 ok(1) by simp
  then have "chained e ?k iv (r_op r2)" using iv_chained [of e ?k "r_op r1" iv b1] iv p2 ok(2) by simp
  then have u: "r_len r3 = len" "r_out r3 = cbc e (E ?k) (D ?k) iv ?d"
    using update_cbc [OF bp, of e iv "r_op r2" ?d len b2] iv d p3 ok(3) by simp_all
  have n: "length (r_out r3) = unat len"
    using u(2) length_cbc [OF d(1) blocks iv] d(2) by simp
  have mem: "w_mem w' = mem_write (w_mem w) out (r_out r3)"
    using w'(3) u(1) n by simp
  show "mem_read (w_mem w') out len = cbc e (E ?k) (D ?k) iv ?d"
    unfolding mem u(2) [symmetric] using n by (rule mem_read_write_same)
  show "key_of (w_psa w') = key_of (w_psa w)" "w_aess w' = w_aess w"
    using k w' by simp_all
  show "w_mem w' a = w_mem w a" if "a \<notin> buf out len"
    unfolding mem using that n by (intro mem_write_outside) auto
qed

lemma cbc_step_value:
  assumes run: "run_state (if e then zuc_aes_cbc_encrypt P aes inp len out else zuc_aes_cbc_decrypt P aes inp len out) w =
      (ZUC_OK, w')"
    and at: "at_chain key_of w aes k iv" and bp: "block_pair (E k) (D k)"
  defines "d \<equiv> mem_read (w_mem w) inp len"
  shows "16 dvd unat len \<and> mem_read (w_mem w') out len = cbc e (E k) (D k) iv d \<and>
    at_chain key_of w' aes k (cbc_next e (E k) iv d) \<and> (\<forall>a. a \<notin> buf out len \<longrightarrow> w_mem w' a = w_mem w a)"
proof -
  obtain x where x: "w_aess w aes = Some x" "a_chain x = iv" "key_of (w_psa w) (a_key x) = k" "aes \<noteq> NULL" "length iv = 16"
    using at by (auto simp: at_chain_def)
  note blocks = block_pair_blocks [OF bp]
  note parts = cbc_ran [OF run x(1,4)]
  show ?thesis
  proof (cases "len = 0")
    case True
    then show ?thesis
      using parts at by (simp add: d_def cbc_def cbc_next_def)
  next
    case False
    let ?c = "cbc e (E k) (D k) iv d"
    obtain w1 where cr: "run_state (cipher_run P (a_key x) e (a_chain x) inp len out) w = (ZUC_OK, w1)"
      and mod: "unat len mod 16 = 0"
      and w': "w' = w1\<lparr>w_aess := (w_aess w1)(aes \<mapsto> x\<lparr>a_chain :=
        (if e then mem_read (w_mem w1) (out + len - 16) 16 else mem_read (w_mem w) (inp + len - 16) 16)\<rparr>)\<rparr>"
      using parts unfolding if_not_P [OF False] by (elim conjE exE) (rule that)
    note v = cipher_run_value [OF cr _ mod, unfolded x(2,3), OF x(5) bp, folded d_def]
    have dvd: "16 dvd unat len" using mod by (simp add: mod_eq_0_iff_dvd)
    have "0 < unat len" using False by (simp add: unat_gt_0)
    then have "16 \<le> unat len" using dvd by (rule dvd_imp_le [rotated])
    then have n: "16 \<le> len" by (simp add: word_le_nat_alt)
    have last: "mem_read m (p + len - 16) 16 = drop (unat len - 16) (mem_read m p len)" for m p
      using mem_read_split [of "len - 16" len m p] n by (simp add: unat_sub word_le_nat_alt add_diff_eq)
    have "d \<noteq> []" "length d = unat len"
      using \<open>0 < unat len\<close> by (auto simp: d_def simp flip: length_0_conv)
    moreover have "length ?c = length d"
      using dvd by (intro length_cbc blocks x(5)) (simp add: d_def)
    ultimately have chain: "cbc_next e (E k) iv d = a_chain (x\<lparr>a_chain :=
        (if e then mem_read (w_mem w1) (out + len - 16) 16 else mem_read (w_mem w) (inp + len - 16) 16)\<rparr>)"
      using v(1) by (auto simp: last cbc_next_def cbc_def Let_def d_def)
    have "length (cbc_next e (E k) iv d) = 16"
      using dvd by (intro length_cbc_next blocks x(5)) (simp add: d_def)
    then show ?thesis
      using w' v x chain dvd by (simp add: at_chain_def)
  qed
qed

lemma cbc_done_step:
  assumes pre: "cbc_done key_of (E k) (D k) e m p out len iv k aes w off"
    and run: "run_state (if e then zuc_aes_cbc_encrypt P aes (p + off) n (out + off)
      else zuc_aes_cbc_decrypt P aes (p + off) n (out + off)) w = (ZUC_OK, w')"
    and n: "off \<le> off + n" "off + n \<le> len" and apart: "buf p len \<inter> buf out len = {}"
    and bp: "block_pair (E k) (D k)"
  shows "cbc_done key_of (E k) (D k) e m p out len iv k aes w' (off + n)"
proof -
  note blocks = block_pair_blocks [OF bp]
  let ?d = "mem_read (w_mem w) (p + off) n" and ?iv = "cbc_next e (E k) iv (mem_read m p off)"
  have at: "at_chain key_of w aes k ?iv" and dvd: "16 dvd unat off" and iv: "length iv = 16"
    and outs: "mem_read (w_mem w) out off = cbc e (E k) (D k) iv (mem_read m p off)"
    and same: "\<And>a. a \<notin> buf out len \<Longrightarrow> w_mem w a = m a"
    using pre by (auto simp: cbc_done_def)
  have sub: "buf (p + off) n \<subseteq> buf p len" "buf (out + off) n \<subseteq> buf out len" for p out :: ptr
    using buf_suffix_subset [OF n(1), of p] buf_prefix_subset [OF n(2), of p]
      buf_suffix_subset [OF n(1), of out] buf_prefix_subset [OF n(2), of out] by auto
  have d: "?d = mem_read m (p + off) n"
    by (rule mem_read_cong) (use sub(1) same apart in blast)
  note v = cbc_step_value [OF run at bp, unfolded d]
  have frame: "\<And>a. a \<notin> buf (out + off) n \<Longrightarrow> w_mem w' a = w_mem w a"
    and out': "mem_read (w_mem w') (out + off) n = cbc e (E k) (D k) ?iv (mem_read m (p + off) n)"
    and n16: "16 dvd unat n"
    using v by blast+
  have "buf out off \<inter> buf (out + off) n = {}"
    using buf_split_disjoint [OF n(1), of out] by simp
  then have "mem_read (w_mem w') out off = mem_read (w_mem w) out off"
    by (intro mem_read_cong frame) blast
  moreover have split: "mem_read m p (off + n) = mem_read m p off @ mem_read m (p + off) n" for m p
    using mem_read_split [OF n(1), of m p] by simp
  ultimately have "mem_read (w_mem w') out (off + n) = cbc e (E k) (D k) iv (mem_read m p (off + n))"
    using out' outs dvd iv blocks by (simp add: cbc_append)
  moreover have "at_chain key_of w' aes k (cbc_next e (E k) iv (mem_read m p (off + n)))"
    using v dvd n16 iv blocks by (simp add: split cbc_next_append)
  moreover have "unat (off + n) = unat off + unat n"
    using n(1) by (simp add: unat_plus_simple)
  moreover have "w_mem w' a = m a" if "a \<notin> buf out len" for a
    using that same frame [of a] sub(2) by auto
  ultimately show ?thesis
    using dvd n16 iv by (simp add: cbc_done_def)
qed

lemma chunks_cbc:
  assumes "run_state (chunks (\<lambda>off n. returns (if e then zuc_aes_cbc_encrypt P aes (p + off) n (out + off)
      else zuc_aes_cbc_decrypt P aes (p + off) n (out + off))) len k off ZUC_OK) s = (Returned v, s')"
    and "cbc_done key_of (E key) (D key) e m p out len iv key aes (rs_world s) off"
    and "off \<le> len" and apart: "buf p len \<inter> buf out len = {}" and bp: "block_pair (E key) (D key)"
  shows "\<exists>st1 s1. run_state (k st1) s1 = (Returned v, s') \<and>
    (st1 = ZUC_OK \<longrightarrow> cbc_done key_of (E key) (D key) e m p out len iv key aes (rs_world s1) len)"
  using assms(1-3)
proof (induction "unat (len - off)" arbitrary: off s rule: less_induct)
  case less
  let ?body = "\<lambda>off n. if e then zuc_aes_cbc_encrypt P aes (p + off) n (out + off)
      else zuc_aes_cbc_decrypt P aes (p + off) n (out + off)"
  show ?case
  proof (cases "off < len")
    case False
    with less(4) have "off = len" by simp
    with less(2,3) show ?thesis by (auto simp: run_chunks_done)
  next
    case True
    let ?n = "chunk_size (len - off)"
    note b = chunk_size_bounds [OF True]
    obtain st w where u: "run_state (?body off ?n) (rs_world s) = (st, w)" by force
    then have "run_state (R_CheckUserInterrupt (chunks (\<lambda>off n. returns (?body off n)) len k (off + ?n) st))
        (s\<lparr>rs_world := w\<rparr>) = (Returned v, s')"
      using less(2) by (simp add: run_chunks_step [OF True] returns_def)
    then obtain bs where r: "run_state (chunks (\<lambda>off n. returns (?body off n)) len k (off + ?n) st)
        (s\<lparr>rs_world := w, rs_interrupts := bs\<rparr>) = (Returned v, s')"
      by (rule run_interrupt_returned) simp
    show ?thesis
    proof (cases "st = ZUC_OK")
      case False
      then show ?thesis using r by (auto simp: run_chunks_done)
    next
      case ok: True
      have "cbc_done key_of (E key) (D key) e m p out len iv key aes w (off + ?n)"
        by (rule cbc_done_step [OF less(3) u [unfolded ok] b(4,5) apart bp])
      then show ?thesis
        using less(1) [OF b(1) r [unfolded ok]] b(5) by simp
    qed
  qed
qed

lemma aes_key_attr_type: "pa_type (aes_key_attr alg) = PSA_KEY_TYPE_AES"
  by (simp add: aes_key_attr_def)

lemma new_at_chain:
  assumes "run_state (with_out (zuc_aes_new P key n)) w = ((ZUC_OK, h), w')" "imports_keys P key_of"
  shows "w_mem w' = w_mem w \<and>
    (\<exists>x. w_aess w' h = Some x \<and> key_of (w_psa w') (a_key x) = mem_read (w_mem w) key n \<and> h \<noteq> NULL)"
  using assms(1) assms(2) [unfolded imports_keys_def, rule_format]
  by (auto simp: with_out_def zuc_aes_new_def calloc_aes_def run_c_alloc run_psa_do set_aes_def free_struct_aes_def
      psa_import_key_def import_aes_key_def aes_key_attr_type Let_def split: if_splits list.splits prod.splits)

lemma set_state_at_chain:
  assumes "run_state (zuc_aes_cbc_set_state h iv) w = (ZUC_OK, w')" "w_aess w h = Some x" "h \<noteq> NULL"
  shows "at_chain key_of w' h (key_of (w_psa w) (a_key x)) (mem_read (w_mem w) iv 16) \<and> w_mem w' = w_mem w"
  using assms by (auto simp: zuc_aes_cbc_set_state_def deref_aes_def set_aes_def at_chain_def split: if_splits)

lemma zucrypt_aes_cbc_value:
  assumes "run_state (zucrypt_aes_cbc P (RAWSXP p n) (RAWSXP kp kn) (RAWSXP ivp ivn) encrypt) s =
      (Returned (VECSXP [(''status'', INTSXP [0]), (''value'', v)]), s')"
    and imp: "imports_keys P key_of"
    and apart: "\<And>a. a \<in> set (rs_allocs s) \<Longrightarrow> buf p n \<inter> buf a n = {}"
  defines "m \<equiv> w_mem (rs_world s)"
  defines "k \<equiv> mem_read m kp kn"
  assumes bp: "block_pair (E k) (D k)"
  shows "\<exists>out \<in> set (rs_allocs s). v = RAWSXP out n \<and> 16 dvd unat n \<and>
    mem_read (w_mem (rs_world s')) out n = cbc (Rf_asLogical encrypt) (E k) (D k) (mem_read m ivp 16) (mem_read m p n) \<and>
    (\<forall>a. a \<notin> buf out n \<longrightarrow> w_mem (rs_world s') a = m a)"
proof -
  let ?e = "Rf_asLogical encrypt"
  let ?iv = "mem_read m ivp 16"
  let ?v = "VECSXP [(''status'', INTSXP [0]), (''value'', v)]"
  let ?tail = "\<lambda>q h out st. do { release_ptr q (zuc_aes_free P); result st (if st = ZUC_OK then RAWSXP out n else R_NilValue) }"
  let ?body = "\<lambda>h out off len. returns (if ?e then zuc_aes_cbc_encrypt P h (p + off) len (out + off)
      else zuc_aes_cbc_decrypt P h (p + off) len (out + off))"
  obtain h w1 q s2 where new: "run_state (with_out (zuc_aes_new P kp kn)) (rs_world s) = ((ZUC_OK, h), w1)"
    and s2: "rs_world s2 = w1" "set (rs_allocs s2) \<subseteq> set (rs_allocs s)"
    and run: "run_state (do {
        st \<leftarrow> native (zuc_aes_cbc_set_state h ivp);
        allocRaw n (\<lambda>out. chunks (?body h (RAW out)) n
            (\<lambda>st. do { release_ptr q (zuc_aes_free P); result st (if st = ZUC_OK then out else R_NilValue) }) 0 st)
      }) s2 = (Returned ?v, s')"
    using assms(1) unfolding zucrypt_aes_cbc_def XLENGTH.simps RAW.simps
    by (rule frame_returned) auto
  obtain x where x: "w_mem w1 = m" "w_aess w1 h = Some x" "key_of (w_psa w1) (a_key x) = k" "h \<noteq> NULL"
    using new_at_chain [OF new imp] by (auto simp: m_def k_def)
  obtain st w2 where set: "run_state (zuc_aes_cbc_set_state h ivp) w1 = (st, w2)" by force
  obtain out ps where out: "rs_allocs s2 = out # ps"
    and loop: "run_state (chunks (?body h out) n (?tail q h out) 0 st) (s2\<lparr>rs_world := w2, rs_allocs := ps\<rparr>) = (Returned ?v, s')"
  proof (rule run_r_alloc_returned)
    show "run_state (r_alloc (\<lambda>out. chunks (?body h out) n (?tail q h out) 0 st)) (s2\<lparr>rs_world := w2\<rparr>) = (Returned ?v, s')"
      using run set s2(1) by (simp add: run_native allocRaw_def cong: if_cong)
  qed simp
  have mem: "out \<in> set (rs_allocs s)" using out s2(2) by auto
  have tail: "st1 = ZUC_OK \<and> v = RAWSXP out n \<and> w_mem (rs_world s') = w_mem (rs_world s1)"
    if t: "run_state (?tail q h out st1) s1 = (Returned ?v, s')" for st1 s1
  proof -
    obtain u s4 where rel: "run_state (release_ptr q (zuc_aes_free P)) s1 = (u, s4)" by (metis surj_pair)
    then have "run_state (result st1 (if st1 = ZUC_OK then RAWSXP out n else R_NilValue)) s4 = (Returned ?v, s')"
      using t by simp
    from run_result_returned [OF this] show ?thesis
      using release_ptr_mem [OF zuc_aes_free_mem rel] by (auto split: if_splits)
  qed
  have st: "st = ZUC_OK"
  proof (rule ccontr)
    assume bad: "st \<noteq> ZUC_OK"
    have "run_state (?tail q h out st) (s2\<lparr>rs_world := w2, rs_allocs := ps\<rparr>) = (Returned ?v, s')"
      using loop unfolding run_chunks_done [OF disjI2 [OF bad, THEN iffD2 [OF de_Morgan_conj]]] .
    from tail [OF this] bad show False by blast
  qed
  have iv: "at_chain key_of w2 h k ?iv" "w_mem w2 = m"
    using set_state_at_chain [OF set [unfolded st] x(2,4)] x by simp_all
  have start: "cbc_done key_of (E k) (D k) ?e m p out n ?iv k h w2 0"
    using iv by (simp add: cbc_done_def cbc_def cbc_next_def)
  obtain st1 s1 where s1: "run_state (?tail q h out st1) s1 = (Returned ?v, s')"
    "st1 = ZUC_OK \<Longrightarrow> cbc_done key_of (E k) (D k) ?e m p out n ?iv k h (rs_world s1) n"
    using chunks_cbc [OF loop [unfolded st], of k m ?iv] start apart [OF mem] bp by auto
  then show ?thesis
    using tail [OF s1(1)] mem by (intro bexI [of _ out]) (auto simp: cbc_done_def)
qed

end

section \<open>A backend that answers\<close>

lemma part_of_buffer:
  assumes "p \<noteq> NULL" "no_wrap p len" "off < len" "off \<le> off + n" "off + n \<le> len"
  shows "p + off \<noteq> NULL" and "no_wrap (p + off) n"
proof -
  have o: "unat (off + n) = unat off + unat n" using assms(4) by (simp add: unat_plus_simple)
  have "unat off + unat n \<le> unat len" using assms(5) by (simp add: word_le_nat_alt o)
  moreover have s: "unat p + unat len < 2 ^ 64" using assms(2) by (simp add: no_wrap_def)
  moreover have "unat off < unat len" using assms(3) by (simp add: word_less_nat_alt)
  ultimately have po: "unat (p + off) = unat p + unat off"
    by (intro unat_add_no_wrap) (simp add: no_wrap_def)
  have "unat p \<noteq> 0" using assms(1) by (simp add: unat_eq_zero)
  then show "p + off \<noteq> NULL" using po by (metis add_is_0 unat_0)
  show "no_wrap (p + off) n"
    using po s \<open>unat off + unat n \<le> unat len\<close> by (simp add: no_wrap_def)
qed

lemma chunk_blocks: "16 dvd unat rest \<Longrightarrow> unat (chunk_size rest) mod 16 = 0"
  by (simp add: chunk_size_def mod_eq_0_iff_dvd)

text \<open>\<open>able b kid\<close>: the backend works and lets the key be used; \<open>flushed op\<close>: nothing is left to write.\<close>

locale psa_cbc_total = psa_cbc_contract +
  fixes able :: "'b \<Rightarrow> psa_key_id_t \<Rightarrow> bool"
    and flushed :: "'o option \<Rightarrow> bool"
  assumes setup_ok: "able b kid \<Longrightarrow> r_status (fst (P (setup_call e kid) None b)) = PSA_SUCCESS"
    and iv_ok: "able b kid \<Longrightarrow> set_up e k op \<Longrightarrow> length iv = 16 \<Longrightarrow>
      r_status (fst (P (CIPHER (Cipher_set_iv iv)) op b)) = PSA_SUCCESS"
    and update_ok: "able b kid \<Longrightarrow> block_pair (E k) (D k) \<Longrightarrow> chained e k iv op \<Longrightarrow> length iv = 16 \<Longrightarrow>
      16 dvd length d \<Longrightarrow> length d = unat n \<Longrightarrow>
      r_status (fst (P (CIPHER (Cipher_update d n)) op b)) = PSA_SUCCESS \<and>
      flushed (r_op (fst (P (CIPHER (Cipher_update d n)) op b)))"
    and finish_ok: "able b kid \<Longrightarrow> flushed op \<Longrightarrow>
      r_status (fst (P (CIPHER (Cipher_finish n)) op b)) = PSA_SUCCESS \<and>
      r_len (fst (P (CIPHER (Cipher_finish n)) op b)) = 0"
    and setup_able: "able b kid \<Longrightarrow> able (snd (P (setup_call e kid) None b)) kid"
    and step_able: "able b kid \<Longrightarrow> own op \<Longrightarrow> step_call c \<Longrightarrow> able (snd (P (CIPHER c) op b)) kid"
begin

lemma cipher_run_succeeds:
  assumes able: "able (w_psa w) kid" and iv: "length iv = 16" and len: "unat len mod 16 = 0"
    and bp: "block_pair (E (key_of (w_psa w) kid)) (D (key_of (w_psa w) kid))"
  shows "\<exists>w'. run_state (cipher_run P kid e iv inp len out) w = (ZUC_OK, w') \<and> able (w_psa w') kid \<and>
    w_refcount w' = w_refcount w"
proof -
  let ?k = "key_of (w_psa w) kid" and ?d = "mem_read (w_mem w) inp len"
  have d: "16 dvd length ?d" "length ?d = unat len" using len by (simp_all add: mod_eq_0_iff_dvd)
  obtain r1 b1 where p1: "P (setup_call e kid) None (w_psa w) = (r1, b1)" by force
  obtain r2 b2 where p2: "P (CIPHER (Cipher_set_iv iv)) (r_op r1) b1 = (r2, b2)" by force
  obtain r3 b3 where p3: "P (CIPHER (Cipher_update ?d len)) (r_op r2) b2 = (r3, b3)" by force
  obtain r4 b4 where p4: "P (CIPHER (Cipher_finish (len - r_len r3))) (r_op r3) b3 = (r4, b4)" by force
  have o: "own (r_op r1)" "own (r_op r2)" "own (r_op r3)"
    using setup_own(1) [of e kid "w_psa w"] step_own(1) [of "r_op r1" "Cipher_set_iv iv" b1]
      step_own(1) [of "r_op r2" "Cipher_update ?d len" b2] p1 p2 p3 by simp_all
  have a: "able b1 kid" "able b2 kid" "able b3 kid" "able b4 kid"
    using setup_able [OF able, of e] step_able [OF _ o(1), of b1 kid "Cipher_set_iv iv"]
      step_able [OF _ o(2), of b2 kid "Cipher_update ?d len"]
      step_able [OF _ o(3), of b3 kid "Cipher_finish (len - r_len r3)"] p1 p2 p3 p4 by simp_all
  have s1: "r_status r1 = PSA_SUCCESS" using setup_ok [OF able, of e] p1 by simp
  have u1: "set_up e ?k (r_op r1)" using setup_ready [of e kid "w_psa w"] p1 s1 by simp
  have s2: "r_status r2 = PSA_SUCCESS" using iv_ok [OF a(1) u1 iv] p2 by simp
  have u2: "chained e ?k iv (r_op r2)" using iv_chained [OF u1 iv, of b1] p2 s2 by simp
  have s3: "r_status r3 = PSA_SUCCESS" "flushed (r_op r3)" using update_ok [OF a(2) bp u2 iv d] p3 by simp_all
  have n3: "r_len r3 = len" using update_cbc [OF bp u2 iv d, of b2] p3 s3(1) by simp
  have s4: "r_status r4 = PSA_SUCCESS" "r_len r4 = 0"
    using finish_ok [OF a(3) s3(2), of "len - r_len r3"] p4 by simp_all
  show ?thesis
    using s1 s2 s3 s4 n3 a p1 p2 p3 p4
    by (cases e) (simp_all add: cipher_run_def run_psa_do Let_def setup_call_def)
qed

lemma cbc_step_succeeds:
  assumes at: "at_chain key_of w aes k iv" and bp: "block_pair (E k) (D k)" and run: "w_refcount w > 0"
    and able: "\<forall>x. w_aess w aes = Some x \<longrightarrow> able (w_psa w) (a_key x)"
    and len: "unat len mod 16 = 0" and ptrs: "inp \<noteq> NULL" "out \<noteq> NULL" "\<not> zuc_int_overlaps inp out len"
  shows "\<exists>w'. run_state (if e then zuc_aes_cbc_encrypt P aes inp len out else zuc_aes_cbc_decrypt P aes inp len out) w =
      (ZUC_OK, w') \<and> w_refcount w' > 0 \<and> (\<forall>x. w_aess w' aes = Some x \<longrightarrow> able (w_psa w') (a_key x))"
proof -
  obtain x where x: "w_aess w aes = Some x" "a_chain x = iv" "key_of (w_psa w) (a_key x) = k" "aes \<noteq> NULL" "length iv = 16"
    using at by (auto simp: at_chain_def)
  have chk: "run_state (check_block_args aes inp len out) w = (ZUC_OK, w)"
    using x(4) run len ptrs by (simp add: check_block_args_def word_gt_0 block_multiple_iff)
  obtain w1 where cr: "run_state (cipher_run P (a_key x) e (a_chain x) inp len out) w = (ZUC_OK, w1)"
    and w1: "able (w_psa w1) (a_key x)" "w_refcount w1 = w_refcount w"
    using cipher_run_succeeds [of w "a_key x" iv len e inp out] able x len bp by auto
  show ?thesis
    using chk cr w1 x run able
    by (cases e) (auto simp: zuc_aes_cbc_encrypt_def zuc_aes_cbc_decrypt_def deref_aes_def set_aes_def)
qed

lemma chunks_cbc_succeed:
  assumes "cbc_done key_of (E key) (D key) e m p out len iv key aes (rs_world s) off"
    and "w_refcount (rs_world s) > 0"
    and "\<forall>x. w_aess (rs_world s) aes = Some x \<longrightarrow> able (w_psa (rs_world s)) (a_key x)"
    and "list_all Not (rs_interrupts s)" "off \<le> len"
    and bufs: "p \<noteq> NULL" "no_wrap p len" "out \<noteq> NULL" "no_wrap out len" "buf p len \<inter> buf out len = {}" "16 dvd unat len"
    and bp: "block_pair (E key) (D key)"
  shows "\<exists>s1. run_state (chunks (\<lambda>off n. returns (if e then zuc_aes_cbc_encrypt P aes (p + off) n (out + off)
      else zuc_aes_cbc_decrypt P aes (p + off) n (out + off))) len k off ZUC_OK) s = run_state (k ZUC_OK) s1 \<and>
    rs_allocs s1 = rs_allocs s"
  using assms(1-5)
proof (induction "unat (len - off)" arbitrary: off s rule: less_induct)
  case less
  let ?body = "\<lambda>off n. if e then zuc_aes_cbc_encrypt P aes (p + off) n (out + off)
      else zuc_aes_cbc_decrypt P aes (p + off) n (out + off)"
  show ?case
  proof (cases "off < len")
    case False
    with less(2,6) show ?thesis by (auto simp: run_chunks_done)
  next
    case True
    let ?n = "chunk_size (len - off)"
    note b = chunk_size_bounds [OF True]
    have at: "at_chain key_of (rs_world s) aes key (cbc_next e (E key) iv (mem_read m p off))" "16 dvd unat off"
      using less(2) by (simp_all add: cbc_done_def)
    have "16 dvd unat (len - off)"
      using at(2) bufs(6) less(6) by (simp add: unat_sub)
    then have n: "unat ?n mod 16 = 0" by (rule chunk_blocks)
    have sub: "buf (q + off) ?n \<subseteq> buf q len" for q :: ptr
      using buf_suffix_subset [OF b(4), of q] buf_prefix_subset [OF b(5), of q] by auto
    note bp1 = part_of_buffer [OF bufs(1,2) True b(4,5)] and bo = part_of_buffer [OF bufs(3,4) True b(4,5)]
    have "\<not> zuc_int_overlaps (p + off) (out + off) ?n"
      using zuc_int_overlaps_iff [OF bp1(2) bo(2) bp1(1) bo(1)] sub [of p] sub [of out] bufs(5) by blast
    then obtain w where u: "run_state (?body off ?n) (rs_world s) = (ZUC_OK, w)" and w: "w_refcount w > 0"
        "\<forall>x. w_aess w aes = Some x \<longrightarrow> able (w_psa w) (a_key x)"
      using cbc_step_succeeds [OF at(1) bp less(3,4) n bp1(1) bo(1)] by blast
    have step: "cbc_done key_of (E key) (D key) e m p out len iv key aes w (off + ?n)"
      by (rule cbc_done_step [OF less(2) u b(4,5) bufs(5) bp])
    let ?s = "s\<lparr>rs_world := w, rs_interrupts := tl (rs_interrupts s)\<rparr>"
    have "run_state (chunks (\<lambda>off n. returns (?body off n)) len k off ZUC_OK) s =
        run_state (chunks (\<lambda>off n. returns (?body off n)) len k (off + ?n) ZUC_OK) ?s"
      using u less(5) by (simp add: run_chunks_step [OF True] run_interrupt_quiet returns_def)
    moreover have "list_all Not (tl (rs_interrupts s))"
      using less(5) by (cases "rs_interrupts s") simp_all
    ultimately show ?thesis
      using less(1) [OF b(1), of ?s] step w b(5) by simp
  qed
qed

lemma aes_new_succeeds:
  assumes "w_refcount w > 0" "w_allocs w = h # hs" "h \<noteq> NULL" "kp \<noteq> NULL" "kn \<in> {16, 24, 32}"
    and import_ok: "r_status (fst (P (KEY (Import_key (aes_key_attr PSA_ALG_CBC_NO_PADDING) (mem_read (w_mem w) kp kn))) None
        (w_psa w))) = PSA_SUCCESS"
    and usable: "able (snd (P (KEY (Import_key (aes_key_attr PSA_ALG_CBC_NO_PADDING) (mem_read (w_mem w) kp kn))) None (w_psa w)))
      (r_id (fst (P (KEY (Import_key (aes_key_attr PSA_ALG_CBC_NO_PADDING) (mem_read (w_mem w) kp kn))) None (w_psa w))))"
  shows "\<exists>w'. run_state (with_out (zuc_aes_new P kp kn)) w = ((ZUC_OK, h), w') \<and> w_refcount w' > 0 \<and>
    (\<forall>x. w_aess w' h = Some x \<longrightarrow> able (w_psa w') (a_key x))"
  using assms
  by (auto simp: with_out_def zuc_aes_new_def calloc_aes_def run_c_alloc import_aes_key_def psa_import_key_def run_psa_do
      set_aes_def split: prod.splits)

lemma zucrypt_aes_cbc_succeeds:
  assumes "w_refcount (rs_world s) > 0" "w_allocs (rs_world s) = h # hs" "h \<noteq> NULL"
    and "list_all Not (rs_interrupts s)"
    and "rs_allocs s = q # f # out # l # rest" "q \<noteq> NULL" "f \<noteq> NULL" "out \<noteq> NULL" "l \<noteq> NULL"
    and bufs: "p \<noteq> NULL" "no_wrap p n" "no_wrap out n" "buf p n \<inter> buf out n = {}" "16 dvd unat n"
    and key: "kp \<noteq> NULL" "kn \<in> {16, 24, 32}" "ivp \<noteq> NULL"
    and import_ok: "r_status (fst (P (KEY (Import_key (aes_key_attr PSA_ALG_CBC_NO_PADDING)
        (mem_read (w_mem (rs_world s)) kp kn))) None (w_psa (rs_world s)))) = PSA_SUCCESS"
    and usable: "able (snd (P (KEY (Import_key (aes_key_attr PSA_ALG_CBC_NO_PADDING)
        (mem_read (w_mem (rs_world s)) kp kn))) None (w_psa (rs_world s))))
      (r_id (fst (P (KEY (Import_key (aes_key_attr PSA_ALG_CBC_NO_PADDING)
        (mem_read (w_mem (rs_world s)) kp kn))) None (w_psa (rs_world s)))))"
    and imp: "imports_keys P key_of"
    and bp: "block_pair (E (mem_read (w_mem (rs_world s)) kp kn)) (D (mem_read (w_mem (rs_world s)) kp kn))"
  shows "\<exists>s'. run_state (zucrypt_aes_cbc P (RAWSXP p n) (RAWSXP kp kn) (RAWSXP ivp ivn) encrypt) s =
    (Returned (VECSXP [(''status'', INTSXP [0]), (''value'', RAWSXP out n)]), s')"
proof -
  let ?m = "w_mem (rs_world s)" and ?e = "Rf_asLogical encrypt"
  let ?tail = "\<lambda>st. do { release_ptr q (zuc_aes_free P); result st (if st = ZUC_OK then RAWSXP out n else R_NilValue) }"
  let ?loop = "chunks (\<lambda>off len. returns (if ?e then zuc_aes_cbc_encrypt P h (p + off) len (out + off)
      else zuc_aes_cbc_decrypt P h (p + off) len (out + off))) n ?tail 0 ZUC_OK"
  obtain w1 where new: "run_state (with_out (zuc_aes_new P kp kn)) (rs_world s) = ((ZUC_OK, h), w1)"
    and w1: "w_refcount w1 > 0" "\<forall>x. w_aess w1 h = Some x \<longrightarrow> able (w_psa w1) (a_key x)"
    using aes_new_succeeds [OF assms(1-3) key(1,2) import_ok usable] by blast
  obtain x where x: "w_mem w1 = ?m" "w_aess w1 h = Some x" "key_of (w_psa w1) (a_key x) = mem_read ?m kp kn"
    using new_at_chain [OF new imp] by auto
  obtain w2 where set: "run_state (zuc_aes_cbc_set_state h ivp) w1 = (ZUC_OK, w2)"
    and w2: "w_refcount w2 > 0" "\<forall>x. w_aess w2 h = Some x \<longrightarrow> able (w_psa w2) (a_key x)"
    using w1 x(2) assms(3) key(3) by (auto simp: zuc_aes_cbc_set_state_def deref_aes_def set_aes_def)
  have iv: "at_chain key_of w2 h (mem_read ?m kp kn) (mem_read ?m ivp 16)" "w_mem w2 = ?m"
    using set_state_at_chain [OF set x(2) assms(3)] x by simp_all
  obtain s2 where s2: "run_state (zucrypt_aes_cbc P (RAWSXP p n) (RAWSXP kp kn) (RAWSXP ivp ivn) encrypt) s =
      run_state ?loop s2" "rs_world s2 = w2" "rs_allocs s2 = l # rest" "rs_interrupts s2 = rs_interrupts s"
  proof
    let ?s = "s\<lparr>rs_ptrs := (rs_ptrs s)(q \<mapsto> \<lparr>x_addr = h, x_tag = R_NilValue, x_fin = Some Fin_aes\<rparr>),
        rs_world := w2, rs_allocs := l # rest\<rparr>"
    show "run_state (zucrypt_aes_cbc P (RAWSXP p n) (RAWSXP kp kn) (RAWSXP ivp ivn) encrypt) s = run_state ?loop ?s"
      using assms(5-8) new set
      by (simp add: zucrypt_aes_cbc_def R_MakeExternalPtr_def R_RegisterCFinalizerEx_def run_r_alloc update_ptr_def
          run_native R_SetExternalPtrAddr_def allocRaw_def cong: if_cong)
  qed simp_all
  have start: "cbc_done key_of (E (mem_read ?m kp kn)) (D (mem_read ?m kp kn)) ?e ?m p out n (mem_read ?m ivp 16)
      (mem_read ?m kp kn) h (rs_world s2) 0"
    using iv s2(2) by (simp add: cbc_done_def cbc_def cbc_next_def)
  obtain s3 where s3: "run_state ?loop s2 = run_state (?tail ZUC_OK) s3" "rs_allocs s3 = l # rest"
    using chunks_cbc_succeed [OF start _ _ _ _ bufs(1,2) assms(8) bufs(3-5) bp, of ?tail] s2 w2 assms(4) by auto
  obtain u s4 where rel: "run_state (release_ptr q (zuc_aes_free P)) s3 = (u, s4)" by (metis surj_pair)
  then have "rs_allocs s4 = l # rest"
    using release_ptr_mem [OF zuc_aes_free_mem rel] s3(2) by simp
  then show ?thesis
    using s2(1) s3(1) rel assms(9) by (simp add: run_r_alloc result_def)
qed

end

end
