(* ===== verification/Psa_Cipher.thy ===== *)
theory Psa_Cipher
  imports Cbc_Mode
begin

text \<open>
  The CBC half of the vendored backend, from the PSA entry points down to the block cipher:
  \<^verbatim>\<open>psa_cipher_*\<close> of \<^verbatim>\<open>psa_crypto.c\<close> with their copies of the caller's buffers, the driver wrappers,
  which have the built-in driver only, \<^verbatim>\<open>mbedtls_psa_cipher_*\<close> of \<^verbatim>\<open>psa_crypto_cipher.c\<close>, the CBC branch
  of \<^verbatim>\<open>cipher.c\<close> without padding and the two loops of \<^verbatim>\<open>mbedtls_aes_crypt_cbc\<close>.

  Two things below are parameters. \<^verbatim>\<open>mbedtls_aes_crypt_ecb\<close>, which the hardware executes on most machines,
  is \<open>ecb\<close>: a direction, a key and a block to a block. The key store is \<open>key_store\<close>: what
  \<^verbatim>\<open>psa_get_and_lock_key_slot_with_policy\<close> answers for a key, and what the slot then holds; unlocking
  a slot that was locked succeeds. The calls other than those of the adapter's CBC operations are
  those of an arbitrary backend.
\<close>

abbreviation (input) PSA_ERROR_CORRUPTION_DETECTED :: psa_status_t where
  "PSA_ERROR_CORRUPTION_DETECTED \<equiv> -151"

section \<open>The block cipher mode: aes.c\<close>

type_synonym ecb = "bool \<Rightarrow> byte list \<Rightarrow> byte list \<Rightarrow> byte list"

text \<open>
  The new IV and the output. The function is called with whole blocks; a shorter rest ends the loops,
  as \<^verbatim>\<open>length > 0\<close> does for whole blocks.
\<close>

function cbc_decrypt_loop :: "(byte list \<Rightarrow> byte list) \<Rightarrow> byte list \<Rightarrow> byte list \<Rightarrow> byte list \<times> byte list" where
  "cbc_decrypt_loop block iv inp =
    (if length inp < 16 then (iv, [])
     else
       let temp = take 16 inp;
           out = xor_bytes (block (take 16 inp)) iv;
           iv = temp;
           (iv, rest) = cbc_decrypt_loop block iv (drop 16 inp)
       in (iv, out @ rest))"
  by pat_completeness auto

termination
  by (relation "measure (\<lambda>(block, iv, inp). length inp)") auto

function cbc_encrypt_loop :: "(byte list \<Rightarrow> byte list) \<Rightarrow> byte list \<Rightarrow> byte list \<Rightarrow> byte list \<times> byte list" where
  "cbc_encrypt_loop block ivp inp =
    (if length inp < 16 then (ivp, [])
     else
       let out = block (xor_bytes (take 16 inp) ivp);
           ivp = out;
           (ivp, rest) = cbc_encrypt_loop block ivp (drop 16 inp)
       in (ivp, out @ rest))"
  by pat_completeness auto

termination
  by (relation "measure (\<lambda>(block, iv, inp). length inp)") auto

declare cbc_decrypt_loop.simps [simp del] cbc_encrypt_loop.simps [simp del]

definition mbedtls_aes_crypt_cbc ::
  "ecb \<Rightarrow> byte list \<Rightarrow> bool \<Rightarrow> byte list \<Rightarrow> byte list \<Rightarrow> psa_status_t \<times> byte list \<times> byte list" where
  "mbedtls_aes_crypt_cbc ecb key encrypt iv inp =
    (if length inp = 0 then (PSA_SUCCESS, iv, [])
     else if length inp mod 16 \<noteq> 0 then (PSA_ERROR_NOT_SUPPORTED, iv, [])
     else
       let (iv, out) = (if encrypt then cbc_encrypt_loop (ecb True key) iv inp
                        else cbc_decrypt_loop (ecb False key) iv inp)
       in (PSA_SUCCESS, iv, out))"

section \<open>The generic cipher layer: cipher.c\<close>

text \<open>
  A context that \<^verbatim>\<open>mbedtls_cipher_setup\<close> has given the information of an AES-CBC cipher; its mode of
  padding is none. \<open>unprocessed\<close> are the \<^verbatim>\<open>unprocessed_len\<close> bytes of \<^verbatim>\<open>unprocessed_data\<close>.
\<close>

record mbedtls_cipher_context_t =
  c_key :: "byte list"
  c_encrypt :: bool
  c_unprocessed :: "byte list"
  c_iv :: "byte list"

definition mbedtls_cipher_set_iv :: "mbedtls_cipher_context_t \<Rightarrow> byte list \<Rightarrow> psa_status_t \<times> mbedtls_cipher_context_t" where
  "mbedtls_cipher_set_iv ctx iv =
    (if length iv > 16 then (PSA_ERROR_NOT_SUPPORTED, ctx)
     else if 16 > length iv then (PSA_ERROR_INVALID_ARGUMENT, ctx)
     else (PSA_SUCCESS, ctx\<lparr>c_iv := take 16 iv\<rparr>))"

text \<open>The status, the context and the bytes written to the output.\<close>

definition mbedtls_cipher_update ::
  "ecb \<Rightarrow> mbedtls_cipher_context_t \<Rightarrow> byte list \<Rightarrow> psa_status_t \<times> mbedtls_cipher_context_t \<times> byte list" where
  "mbedtls_cipher_update ecb ctx inp =
    (if length inp < 16 - length (c_unprocessed ctx)
     then (PSA_SUCCESS, ctx\<lparr>c_unprocessed := c_unprocessed ctx @ inp\<rparr>, [])
     else
       let copy_len = 16 - length (c_unprocessed ctx);
           (st, ctx, first, inp) =
             (if length (c_unprocessed ctx) \<noteq> 0 then
                (case mbedtls_aes_crypt_cbc ecb (c_key ctx) (c_encrypt ctx) (c_iv ctx)
                    (c_unprocessed ctx @ take copy_len inp) of
                  (st, iv, out) \<Rightarrow>
                    if st \<noteq> PSA_SUCCESS then (st, ctx\<lparr>c_iv := iv\<rparr>, [], inp)
                    else (PSA_SUCCESS, ctx\<lparr>c_iv := iv, c_unprocessed := []\<rparr>, out, drop copy_len inp))
              else (PSA_SUCCESS, ctx, [], inp))
       in if st \<noteq> PSA_SUCCESS then (st, ctx, [])
          else
            let copy_len = length inp mod 16;
                full = take (length inp - copy_len) inp;
                ctx = ctx\<lparr>c_unprocessed := c_unprocessed ctx @ drop (length inp - copy_len) inp\<rparr>
            in if length full = 0 then (PSA_SUCCESS, ctx, first)
               else
                 (case mbedtls_aes_crypt_cbc ecb (c_key ctx) (c_encrypt ctx) (c_iv ctx) full of
                   (st, iv, out) \<Rightarrow>
                     if st \<noteq> PSA_SUCCESS then (st, ctx\<lparr>c_iv := iv\<rparr>, first)
                     else (PSA_SUCCESS, ctx\<lparr>c_iv := iv\<rparr>, first @ out)))"

text \<open>Its caller has refused an operation that holds unprocessed bytes, a whole block included.\<close>

definition mbedtls_cipher_finish_padded :: "mbedtls_cipher_context_t \<Rightarrow> psa_status_t" where
  "mbedtls_cipher_finish_padded ctx =
    (if length (c_unprocessed ctx) \<noteq> 0 then PSA_ERROR_INVALID_ARGUMENT else PSA_SUCCESS)"

section \<open>The built-in driver: psa\_crypto\_cipher.c\<close>

text \<open>The result also tells whether an allocation failed.\<close>

definition mbedtls_psa_cipher_setup ::
  "bool list \<Rightarrow> psa_attr \<Rightarrow> byte list \<Rightarrow> bool \<Rightarrow>
   psa_status_t \<times> mbedtls_cipher_context_t option \<times> bool \<times> bool list" where
  "mbedtls_psa_cipher_setup answers attr key encrypt =
    (if pa_type attr \<noteq> PSA_KEY_TYPE_AES \<or> pa_bits attr \<notin> {128, 192, 256}
     then (PSA_ERROR_NOT_SUPPORTED, None, False, answers)
     else
       let (ok, answers) = local_alloc 1 answers
       in if \<not> ok then (PSA_ERROR_INSUFFICIENT_MEMORY, None, True, answers)
          else (PSA_SUCCESS,
                Some \<lparr>c_key = key, c_encrypt = encrypt, c_unprocessed = [], c_iv = replicate 16 0\<rparr>,
                False, answers))"

definition mbedtls_psa_cipher_set_iv ::
  "mbedtls_cipher_context_t \<Rightarrow> byte list \<Rightarrow> psa_status_t \<times> mbedtls_cipher_context_t" where
  "mbedtls_psa_cipher_set_iv ctx iv =
    (if length iv \<noteq> 16 then (PSA_ERROR_INVALID_ARGUMENT, ctx) else mbedtls_cipher_set_iv ctx iv)"

definition mbedtls_psa_cipher_update ::
  "ecb \<Rightarrow> mbedtls_cipher_context_t \<Rightarrow> byte list \<Rightarrow> size_t \<Rightarrow>
   psa_status_t \<times> mbedtls_cipher_context_t \<times> byte list" where
  "mbedtls_psa_cipher_update ecb ctx inp output_size =
    (let expected_output_size = (of_nat (length (c_unprocessed ctx)) + of_nat (length inp) :: size_t) div 16 * 16
     in if output_size < expected_output_size then (PSA_ERROR_BUFFER_TOO_SMALL, ctx, [])
        else if length inp = 0 then (PSA_SUCCESS, ctx, [])
        else
          let (status, ctx, out) = mbedtls_cipher_update ecb ctx inp
          in if length out > unat output_size then (PSA_ERROR_CORRUPTION_DETECTED, ctx, out)
             else (status, ctx, out))"

text \<open>The status and the bytes of the temporary buffer that reach the output; the length stored is 0.\<close>

definition mbedtls_psa_cipher_finish :: "mbedtls_cipher_context_t \<Rightarrow> size_t \<Rightarrow> psa_status_t \<times> byte list" where
  "mbedtls_psa_cipher_finish ctx output_size =
    (let output_size = (if output_size > 16 then 16 else output_size)
     in if length (c_unprocessed ctx) \<noteq> 0 then (PSA_ERROR_INVALID_ARGUMENT, [])
        else
          let status = mbedtls_cipher_finish_padded ctx
          in if status \<noteq> PSA_SUCCESS then (status, []) else (PSA_SUCCESS, replicate (unat output_size) 0))"

section \<open>The PSA layer: psa\_crypto.c\<close>

text \<open>\<open>None\<close> is an operation whose \<^verbatim>\<open>id\<close> is 0; one in use requires an IV.\<close>

record psa_cipher_operation_t =
  o_iv_set :: bool
  o_ctx :: mbedtls_cipher_context_t

type_synonym cop = psa_cipher_operation_t

definition psa_cipher_abort :: "cop option \<Rightarrow> psa_status_t \<times> cop option" where
  "psa_cipher_abort operation = (PSA_SUCCESS, None)"

definition psa_cipher_setup ::
  "'b key_store \<Rightarrow> 'b \<Rightarrow> bool list \<Rightarrow> cop option \<Rightarrow> psa_key_id_t \<Rightarrow> bool \<Rightarrow>
   psa_status_t \<times> cop option \<times> bool \<times> bool list" where
  "psa_cipher_setup ks b answers operation key encrypt =
    (let usage = (if encrypt then PSA_KEY_USAGE_ENCRYPT else PSA_KEY_USAGE_DECRYPT);
         alg = PSA_ALG_CBC_NO_PADDING
     in if operation \<noteq> None then (PSA_ERROR_BAD_STATE, snd (psa_cipher_abort operation), False, answers)
        else
          let status = lock_slot ks b key usage alg
          in if status \<noteq> PSA_SUCCESS then (status, snd (psa_cipher_abort None), False, answers)
             else
               let (status, ctx, failed, answers) =
                     mbedtls_psa_cipher_setup answers (slot_attr ks b key) (slot_data ks b key) encrypt
               in (status, map_option (\<lambda>c. \<lparr>o_iv_set = False, o_ctx = c\<rparr>) ctx, failed, answers))"

definition psa_cipher_set_iv ::
  "bool list \<Rightarrow> cop option \<Rightarrow> byte list \<Rightarrow> psa_status_t \<times> cop option \<times> bool \<times> bool list" where
  "psa_cipher_set_iv answers operation iv =
    (case operation of
       None \<Rightarrow> (PSA_ERROR_BAD_STATE, None, False, answers)
     | Some op \<Rightarrow>
         if o_iv_set op then (PSA_ERROR_BAD_STATE, snd (psa_cipher_abort operation), False, answers)
         else if length iv > 16 then (PSA_ERROR_INVALID_ARGUMENT, snd (psa_cipher_abort operation), False, answers)
         else
           let (ok, answers) = local_alloc (length iv) answers
           in if \<not> ok then (PSA_ERROR_INSUFFICIENT_MEMORY, snd (psa_cipher_abort operation), True, answers)
              else
                let (status, ctx) = mbedtls_psa_cipher_set_iv (o_ctx op) iv
                in if status = PSA_SUCCESS
                   then (status, Some (op\<lparr>o_ctx := ctx, o_iv_set := True\<rparr>), False, answers)
                   else (status, snd (psa_cipher_abort operation), False, answers))"

text \<open>The status, the operation, the output buffer, the stored length, whether an allocation failed.\<close>

definition psa_cipher_update ::
  "ecb \<Rightarrow> bool list \<Rightarrow> cop option \<Rightarrow> byte list \<Rightarrow> size_t \<Rightarrow>
   psa_status_t \<times> cop option \<times> byte list \<times> size_t \<times> bool \<times> bool list" where
  "psa_cipher_update ecb answers operation inp output_size =
    (case operation of
       None \<Rightarrow> (PSA_ERROR_BAD_STATE, None, [], 0, False, answers)
     | Some op \<Rightarrow>
         if \<not> o_iv_set op then (PSA_ERROR_BAD_STATE, snd (psa_cipher_abort operation), [], 0, False, answers)
         else
           let (ok, answers) = local_alloc (length inp) answers
           in if \<not> ok then (PSA_ERROR_INSUFFICIENT_MEMORY, snd (psa_cipher_abort operation), [], 0, True, answers)
              else
                let (ok, answers) = local_alloc (unat output_size) answers
                in if \<not> ok then (PSA_ERROR_INSUFFICIENT_MEMORY, snd (psa_cipher_abort operation), [], 0, True, answers)
                   else
                     let (status, ctx, out) = mbedtls_psa_cipher_update ecb (o_ctx op) inp output_size;
                         copy = put (replicate (unat output_size) 0) 0 out
                     in if status \<noteq> PSA_SUCCESS
                        then (status, snd (psa_cipher_abort operation), copy, of_nat (length out), False, answers)
                        else (status, Some (op\<lparr>o_ctx := ctx\<rparr>), copy, of_nat (length out), False, answers))"

definition psa_cipher_finish ::
  "bool list \<Rightarrow> cop option \<Rightarrow> size_t \<Rightarrow> psa_status_t \<times> cop option \<times> byte list \<times> bool \<times> bool list" where
  "psa_cipher_finish answers operation output_size =
    (case operation of
       None \<Rightarrow> (PSA_ERROR_BAD_STATE, None, [], False, answers)
     | Some op \<Rightarrow>
         if \<not> o_iv_set op then (PSA_ERROR_BAD_STATE, snd (psa_cipher_abort operation), [], False, answers)
         else
           let (ok, answers) = local_alloc (unat output_size) answers
           in if \<not> ok then (PSA_ERROR_INSUFFICIENT_MEMORY, snd (psa_cipher_abort operation), [], True, answers)
              else
                let (status, out) = mbedtls_psa_cipher_finish (o_ctx op) output_size
                in (status, snd (psa_cipher_abort operation), put (replicate (unat output_size) 0) 0 out, False, answers))"

section \<open>The backend\<close>

type_synonym 'p vop2 = "cop + 'p"

text \<open>The calls that belong to CBC operations: set-ups for the algorithm, and calls on its operations.\<close>

fun cbc_call :: "psa_call \<Rightarrow> ('p vop2) option \<Rightarrow> bool" where
  "cbc_call (CIPHER (Cipher_encrypt_setup kid alg)) op = (alg = PSA_ALG_CBC_NO_PADDING \<and> rest_part op = None)"
| "cbc_call (CIPHER (Cipher_decrypt_setup kid alg)) op = (alg = PSA_ALG_CBC_NO_PADDING \<and> rest_part op = None)"
| "cbc_call (CIPHER c) op = (rest_part op = None)"
| "cbc_call c op = False"

fun cipher_dispatch ::
  "ecb \<Rightarrow> 'b key_store \<Rightarrow> 'b \<Rightarrow> cipher_call \<Rightarrow> cop option \<Rightarrow> bool list \<Rightarrow> ('p vop2) psa_reply \<times> bool list" where
  "cipher_dispatch ecb ks b (Cipher_encrypt_setup kid alg) op answers =
    (case psa_cipher_setup ks b answers op kid True of (st, op, failed, answers) \<Rightarrow>
      (top_reply st [] 0 op failed, answers))"
| "cipher_dispatch ecb ks b (Cipher_decrypt_setup kid alg) op answers =
    (case psa_cipher_setup ks b answers op kid False of (st, op, failed, answers) \<Rightarrow>
      (top_reply st [] 0 op failed, answers))"
| "cipher_dispatch ecb ks b (Cipher_set_iv iv) op answers =
    (case psa_cipher_set_iv answers op iv of (st, op, failed, answers) \<Rightarrow>
      (top_reply st [] 0 op failed, answers))"
| "cipher_dispatch ecb ks b (Cipher_update inp n) op answers =
    (case psa_cipher_update ecb answers op inp n of (st, op, out, len, failed, answers) \<Rightarrow>
      (top_reply st out len op failed, answers))"
| "cipher_dispatch ecb ks b (Cipher_finish n) op answers =
    (case psa_cipher_finish answers op n of (st, op, out, failed, answers) \<Rightarrow>
      (top_reply st out 0 op failed, answers))"
| "cipher_dispatch ecb ks b Cipher_abort op answers =
    (case psa_cipher_abort op of (st, op) \<Rightarrow> (top_reply st [] 0 op False, answers))"

definition vendored_cbc :: "ecb \<Rightarrow> 'b key_store \<Rightarrow> ('b, 'p) psa \<Rightarrow> (bool list \<times> 'b, 'p vop2) psa" where
  "vendored_cbc ecb ks Q c op b =
    (case c of
       CIPHER x \<Rightarrow>
         (if cbc_call c op
          then (case cipher_dispatch ecb ks (snd b) x (top_part op) (fst b) of (r, answers) \<Rightarrow> (r, answers, snd b))
          else (case Q c (rest_part op) (snd b) of (r, b') \<Rightarrow> (rest_reply r, fst b, b')))
     | _ \<Rightarrow> (case Q c (rest_part op) (snd b) of (r, b') \<Rightarrow> (rest_reply r, fst b, b')))"

section \<open>The vendored calls keep the contract\<close>

definition vendored_key :: "'b key_store \<Rightarrow> bool list \<times> 'b \<Rightarrow> psa_key_id_t \<Rightarrow> byte list" where
  "vendored_key ks b kid = slot_data ks (snd b) kid"

definition vendored_set_up :: "bool \<Rightarrow> byte list \<Rightarrow> ('p vop2) option \<Rightarrow> bool" where
  "vendored_set_up e k op \<longleftrightarrow>
    (\<exists>x. top_part op = Some x \<and> \<not> o_iv_set x \<and> c_key (o_ctx x) = k \<and> c_encrypt (o_ctx x) = e \<and>
      c_unprocessed (o_ctx x) = [])"

definition vendored_chained :: "bool \<Rightarrow> byte list \<Rightarrow> byte list \<Rightarrow> ('p vop2) option \<Rightarrow> bool" where
  "vendored_chained e k iv op \<longleftrightarrow>
    (\<exists>x. top_part op = Some x \<and> o_iv_set x \<and> c_key (o_ctx x) = k \<and> c_encrypt (o_ctx x) = e \<and>
      c_unprocessed (o_ctx x) = [] \<and> c_iv (o_ctx x) = iv)"

lemma encrypt_loop_cbc:
  assumes "16 dvd length xs"
  shows "snd (cbc_encrypt_loop E iv xs) = cbc_enc E iv xs"
  using assms
proof (induction E iv xs rule: cbc_encrypt_loop.induct)
  case (1 E iv xs)
  then show ?case
    by (subst cbc_encrypt_loop.simps, subst cbc_enc.simps) (auto simp: Let_def split: prod.splits)
qed

lemma decrypt_loop_cbc:
  assumes "16 dvd length xs"
  shows "snd (cbc_decrypt_loop D iv xs) = cbc_dec D iv xs"
  using assms
proof (induction D iv xs rule: cbc_decrypt_loop.induct)
  case (1 D iv xs)
  then show ?case
    by (subst cbc_decrypt_loop.simps, subst cbc_dec.simps) (auto simp: Let_def split: prod.splits)
qed

lemma aes_crypt_cbc:
  assumes "16 dvd length xs"
  shows "mbedtls_aes_crypt_cbc ecb k e iv xs = (PSA_SUCCESS, iv', out) \<Longrightarrow> out = cbc e (ecb True k) (ecb False k) iv xs"
    and "fst (mbedtls_aes_crypt_cbc ecb k e iv xs) = PSA_SUCCESS"
  using assms encrypt_loop_cbc [OF assms, of "ecb True k" iv] decrypt_loop_cbc [OF assms, of "ecb False k" iv]
  by (auto simp: mbedtls_aes_crypt_cbc_def cbc_def mod_eq_0_iff_dvd Let_def split: if_splits prod.splits)

lemma cipher_update_cbc:
  assumes "16 dvd length xs" "xs \<noteq> []" "c_unprocessed ctx = []"
    and "mbedtls_cipher_update ecb ctx xs = (st, ctx', out)"
  shows "st = PSA_SUCCESS \<and> out = cbc (c_encrypt ctx) (ecb True (c_key ctx)) (ecb False (c_key ctx)) (c_iv ctx) xs"
proof -
  have "16 \<le> length xs" "length xs mod 16 = 0" using assms(1,2) by (simp_all add: dvd_imp_le mod_eq_0_iff_dvd)
  then show ?thesis
    using assms(2-4) aes_crypt_cbc [OF assms(1), of ecb "c_key ctx" "c_encrypt ctx" "c_iv ctx"]
    by (auto simp: mbedtls_cipher_update_def Let_def split: prod.splits)
qed

lemmas vendored_cbc_runs = vendored_cbc_def top_reply_def vendored_set_up_def vendored_chained_def Let_def

lemma vendored_setup_ready:
  assumes "r_status (fst (vendored_cbc ecb ks Q (setup_call e kid) None b)) = PSA_SUCCESS"
  shows "vendored_set_up e (vendored_key ks b kid) (r_op (fst (vendored_cbc ecb ks Q (setup_call e kid) None b)))"
  using assms
  by (cases e) (auto simp: vendored_cbc_runs setup_call_def psa_cipher_setup_def psa_cipher_abort_def
      mbedtls_psa_cipher_setup_def vendored_key_def split: if_splits prod.splits)

lemma vendored_iv_chained:
  assumes "vendored_set_up e k op" "length iv = 16"
    and "r_status (fst (vendored_cbc ecb ks Q (CIPHER (Cipher_set_iv iv)) op b)) = PSA_SUCCESS"
  shows "vendored_chained e k iv (r_op (fst (vendored_cbc ecb ks Q (CIPHER (Cipher_set_iv iv)) op b)))"
  using assms
  by (auto simp: vendored_cbc_runs psa_cipher_set_iv_def psa_cipher_abort_def mbedtls_psa_cipher_set_iv_def
      mbedtls_cipher_set_iv_def split: if_splits prod.splits)

lemma vendored_update_cbc:
  assumes bp: "block_pair (ecb True k) (ecb False k)" and op: "vendored_chained e k iv op" and iv: "length iv = 16"
    and d: "16 dvd length d" "length d = unat n"
    and ok: "r_status (fst (vendored_cbc ecb ks Q (CIPHER (Cipher_update d n)) op b)) = PSA_SUCCESS"
  shows "r_len (fst (vendored_cbc ecb ks Q (CIPHER (Cipher_update d n)) op b)) = n \<and>
    r_out (fst (vendored_cbc ecb ks Q (CIPHER (Cipher_update d n)) op b)) = cbc e (ecb True k) (ecb False k) iv d"
proof -
  obtain x where x: "top_part op = Some x" "o_iv_set x" "c_key (o_ctx x) = k" "c_encrypt (o_ctx x) = e"
      "c_unprocessed (o_ctx x) = []" "c_iv (o_ctx x) = iv"
    using op by (auto simp: vendored_chained_def)
  have len: "length (cbc e (ecb True k) (ecb False k) iv d) = unat n"
    using length_cbc [OF d(1) block_pair_blocks [OF bp] iv] d(2) by simp
  obtain st ctx out where u: "mbedtls_cipher_update ecb (o_ctx x) d = (st, ctx, out)" by (metis surj_pair)
  have "d \<noteq> [] \<Longrightarrow> out = cbc e (ecb True k) (ecb False k) iv d"
    using cipher_update_cbc [OF d(1) _ x(5) u] x by simp
  then show ?thesis
    using ok x u len d(2)
    by (cases "d = []") (auto simp: vendored_cbc_runs psa_cipher_update_def psa_cipher_abort_def
        mbedtls_psa_cipher_update_def put_def cbc_def unat_eq_zero split: if_splits prod.splits)
qed

lemma vendored_setup_own:
  "rest_part (r_op (fst (vendored_cbc ecb ks Q (setup_call e kid) None b))) = None"
  "vendored_key ks (snd (vendored_cbc ecb ks Q (setup_call e kid) None b)) = vendored_key ks b"
  by (cases e; auto simp: vendored_cbc_runs setup_call_def vendored_key_def fun_eq_iff map_option_case
      split: prod.splits option.splits)+

lemma vendored_step_own:
  assumes "rest_part op = None" "step_call c"
  shows "rest_part (r_op (fst (vendored_cbc ecb ks Q (CIPHER c) op b))) = None"
    and "vendored_key ks (snd (vendored_cbc ecb ks Q (CIPHER c) op b)) = vendored_key ks b"
  using assms
  by (cases c; auto simp: vendored_cbc_runs vendored_key_def fun_eq_iff map_option_case
      split: prod.splits option.splits)+

interpretation vendored_cbc: psa_cbc_contract "vendored_cbc ecb ks Q" "ecb True" "ecb False" "vendored_key ks"
  vendored_set_up vendored_chained "\<lambda>op. rest_part op = None"
  by unfold_locales
    (rule vendored_setup_ready vendored_iv_chained vendored_update_cbc vendored_setup_own vendored_step_own; assumption)+

definition vendored_cbc_able :: "'b key_store \<Rightarrow> bool list \<times> 'b \<Rightarrow> psa_key_id_t \<Rightarrow> bool" where
  "vendored_cbc_able ks b kid \<longleftrightarrow>
    fst b = [] \<and> lock_slot ks (snd b) kid PSA_KEY_USAGE_ENCRYPT PSA_ALG_CBC_NO_PADDING = PSA_SUCCESS \<and>
    lock_slot ks (snd b) kid PSA_KEY_USAGE_DECRYPT PSA_ALG_CBC_NO_PADDING = PSA_SUCCESS \<and>
    pa_type (slot_attr ks (snd b) kid) = PSA_KEY_TYPE_AES \<and> pa_bits (slot_attr ks (snd b) kid) \<in> {128, 192, 256}"

definition vendored_flushed :: "('p vop2) option \<Rightarrow> bool" where
  "vendored_flushed op \<longleftrightarrow> (\<exists>x. top_part op = Some x \<and> o_iv_set x \<and> c_unprocessed (o_ctx x) = [])"

lemma local_alloc_plenty: "local_alloc n [] = (True, [])"
  by (simp add: local_alloc_def)

lemmas able_runs = vendored_cbc_runs vendored_cbc_able_def local_alloc_plenty

lemma vendored_cbc_setup_ok:
  assumes "vendored_cbc_able ks b kid"
  shows "r_status (fst (vendored_cbc ecb ks Q (setup_call e kid) None b)) = PSA_SUCCESS"
  using assms
  by (cases e) (auto simp: able_runs setup_call_def psa_cipher_setup_def mbedtls_psa_cipher_setup_def split: prod.splits)

lemma vendored_cbc_iv_ok:
  assumes "vendored_cbc_able ks b kid" "vendored_set_up e k op" "length iv = 16"
  shows "r_status (fst (vendored_cbc ecb ks Q (CIPHER (Cipher_set_iv iv)) op b)) = PSA_SUCCESS"
  using assms
  by (auto simp: able_runs psa_cipher_set_iv_def mbedtls_psa_cipher_set_iv_def mbedtls_cipher_set_iv_def split: prod.splits)

lemma cipher_update_flushed:
  assumes "16 dvd length xs" "xs \<noteq> []" "c_unprocessed ctx = []"
    and "mbedtls_cipher_update ecb ctx xs = (st, ctx', out)"
  shows "c_unprocessed ctx' = []"
proof -
  have "16 \<le> length xs" "length xs mod 16 = 0" using assms(1,2) by (simp_all add: dvd_imp_le mod_eq_0_iff_dvd)
  then show ?thesis
    using assms(2-4) by (auto simp: mbedtls_cipher_update_def Let_def split: prod.splits if_splits)
qed

lemma vendored_cbc_update_ok:
  assumes able: "vendored_cbc_able ks b kid" and bp: "block_pair (ecb True k) (ecb False k)"
    and op: "vendored_chained e k iv op" and iv: "length iv = 16"
    and d: "16 dvd length d" "length d = unat n"
  shows "r_status (fst (vendored_cbc ecb ks Q (CIPHER (Cipher_update d n)) op b)) = PSA_SUCCESS \<and>
    vendored_flushed (r_op (fst (vendored_cbc ecb ks Q (CIPHER (Cipher_update d n)) op b)))"
proof -
  obtain x where x: "op = Some (Inl x)" "o_iv_set x" "c_key (o_ctx x) = k" "c_encrypt (o_ctx x) = e"
      "c_unprocessed (o_ctx x) = []" "c_iv (o_ctx x) = iv"
    using op by (auto simp: vendored_chained_def)
  have len: "length (cbc e (ecb True k) (ecb False k) iv d) = unat n"
    using length_cbc [OF d(1) block_pair_blocks [OF bp] iv] d(2) by simp
  obtain st ctx out where u: "mbedtls_cipher_update ecb (o_ctx x) d = (st, ctx, out)" by (metis surj_pair)
  have v: "d \<noteq> [] \<Longrightarrow> st = PSA_SUCCESS \<and> length out = unat n \<and> c_unprocessed ctx = []"
    using cipher_update_cbc [OF d(1) _ x(5) u] cipher_update_flushed [OF d(1) _ x(5) u] x len by simp
  have "n div 16 * 16 \<le> n" by (simp add: word_le_nat_alt unat_div unat_word_ariths)
  moreover have "of_nat (length d) = n" using d(2) by simp
  ultimately show ?thesis
    using able x u v
    by (cases "d = []") (auto simp: able_runs vendored_flushed_def psa_cipher_update_def mbedtls_psa_cipher_update_def
        split: prod.splits)
qed

lemma vendored_cbc_finish_ok:
  assumes "vendored_cbc_able ks b kid" "vendored_flushed op"
  shows "r_status (fst (vendored_cbc ecb ks Q (CIPHER (Cipher_finish n)) op b)) = PSA_SUCCESS \<and>
    r_len (fst (vendored_cbc ecb ks Q (CIPHER (Cipher_finish n)) op b)) = 0"
  using assms
  by (auto simp: able_runs vendored_flushed_def psa_cipher_finish_def mbedtls_psa_cipher_finish_def
      mbedtls_cipher_finish_padded_def split: prod.splits)

lemma vendored_cbc_setup_able:
  "vendored_cbc_able ks b kid \<Longrightarrow> vendored_cbc_able ks (snd (vendored_cbc ecb ks Q (setup_call e kid) None b)) kid"
  by (cases e) (auto simp: able_runs setup_call_def psa_cipher_setup_def
      mbedtls_psa_cipher_setup_def split: prod.splits)

lemma vendored_cbc_step_able:
  assumes "vendored_cbc_able ks b kid" "rest_part op = None" "step_call c"
  shows "vendored_cbc_able ks (snd (vendored_cbc ecb ks Q (CIPHER c) op b)) kid"
  using assms
  by (cases c) (auto simp: able_runs psa_cipher_set_iv_def
      psa_cipher_update_def psa_cipher_finish_def psa_cipher_abort_def split: prod.splits option.splits if_splits)

interpretation vendored_cbc_total: psa_cbc_total "vendored_cbc ecb ks Q" "ecb True" "ecb False" "vendored_key ks"
  vendored_set_up vendored_chained "\<lambda>op. rest_part op = None" "vendored_cbc_able ks" vendored_flushed
  by unfold_locales
    (rule vendored_cbc_setup_ok vendored_cbc_iv_ok vendored_cbc_update_ok vendored_cbc_finish_ok vendored_cbc_setup_able
      vendored_cbc_step_able; assumption)+

section \<open>Properties\<close>

text \<open>
  C7. \<^verbatim>\<open>zucrypt_aes_cbc\<close> over the vendored calls is CBC: whenever it returns status 0, the data had whole
  blocks and the vector it returns is the mode applied to all of it, in the asked direction, under the
  bytes of the key vector and from the 16 bytes of the IV, however the loop cut it into chunks; nothing
  else in memory has changed. The block cipher and the key store are parameters, about which only that
  the cipher maps blocks to blocks invertibly and that an imported key has the imported bytes is used.
\<close>

theorem zucrypt_aes_cbc_is_cbc:
  assumes "run_state (zucrypt_aes_cbc (vendored_cbc ecb ks Q) (RAWSXP p n) (RAWSXP kp kn) (RAWSXP ivp ivn) encrypt) s =
      (Returned (VECSXP [(''status'', INTSXP [0]), (''value'', v)]), s')"
    and "imports_keys (vendored_cbc ecb ks Q) (vendored_key ks)"
    and "\<And>a. a \<in> set (rs_allocs s) \<Longrightarrow> buf p n \<inter> buf a n = {}"
    and "block_pair (ecb True (mem_read (w_mem (rs_world s)) kp kn)) (ecb False (mem_read (w_mem (rs_world s)) kp kn))"
  shows "\<exists>out \<in> set (rs_allocs s). v = RAWSXP out n \<and> 16 dvd unat n \<and>
    mem_read (w_mem (rs_world s')) out n =
      cbc (Rf_asLogical encrypt) (ecb True (mem_read (w_mem (rs_world s)) kp kn))
        (ecb False (mem_read (w_mem (rs_world s)) kp kn)) (mem_read (w_mem (rs_world s)) ivp 16)
        (mem_read (w_mem (rs_world s)) p n) \<and>
    (\<forall>a. a \<notin> buf out n \<longrightarrow> w_mem (rs_world s') a = w_mem (rs_world s) a)"
  by (rule vendored_cbc.zucrypt_aes_cbc_value [OF assms(1,2) _ assms(4)]) (rule assms(3))

text \<open>
  C23. What \<^verbatim>\<open>zucrypt_aes_cbc\<close> has encrypted it decrypts to the data it was given: with the same key and
  IV, at any later time and into any vector.
\<close>

theorem zucrypt_aes_cbc_round_trip:
  assumes "run_state (zucrypt_aes_cbc (vendored_cbc ecb ks Q) (RAWSXP p n) (RAWSXP kp kn) (RAWSXP ivp ivn) (LGLSXP True)) s =
      (Returned (VECSXP [(''status'', INTSXP [0]), (''value'', RAWSXP c n)]), s1)"
    and "run_state (zucrypt_aes_cbc (vendored_cbc ecb ks Q) (RAWSXP c n) (RAWSXP kp' kn') (RAWSXP ivp' ivn') (LGLSXP False)) s2 =
      (Returned (VECSXP [(''status'', INTSXP [0]), (''value'', RAWSXP q n)]), s3)"
    and "imports_keys (vendored_cbc ecb ks Q) (vendored_key ks)"
    and "\<And>a. a \<in> set (rs_allocs s) \<Longrightarrow> buf p n \<inter> buf a n = {}"
    and "\<And>a. a \<in> set (rs_allocs s2) \<Longrightarrow> buf c n \<inter> buf a n = {}"
    and "mem_read (w_mem (rs_world s2)) c n = mem_read (w_mem (rs_world s1)) c n"
    and "mem_read (w_mem (rs_world s2)) kp' kn' = mem_read (w_mem (rs_world s)) kp kn"
    and "mem_read (w_mem (rs_world s2)) ivp' 16 = mem_read (w_mem (rs_world s)) ivp 16"
    and "block_pair (ecb True (mem_read (w_mem (rs_world s)) kp kn)) (ecb False (mem_read (w_mem (rs_world s)) kp kn))"
  shows "mem_read (w_mem (rs_world s3)) q n = mem_read (w_mem (rs_world s)) p n"
proof -
  let ?m = "w_mem (rs_world s)"
  let ?k = "mem_read ?m kp kn"
  have 1: "mem_read (w_mem (rs_world s1)) c n = cbc_enc (ecb True ?k) (mem_read ?m ivp 16) (mem_read ?m p n)"
      "16 dvd unat n"
    using vendored_cbc.zucrypt_aes_cbc_value [OF assms(1,3,4,9)] by (auto simp: cbc_def)
  have 2: "mem_read (w_mem (rs_world s3)) q n = cbc_dec (ecb False ?k) (mem_read ?m ivp 16) (mem_read (w_mem (rs_world s1)) c n)"
    using vendored_cbc.zucrypt_aes_cbc_value [OF assms(2,3,5), unfolded assms(6-8), OF _ assms(9)] by (auto simp: cbc_def)
  show ?thesis
    unfolding 2 1 using 1(2) assms(9) by (intro cbc_round_trip) (simp_all add: block_pair_def)
qed

text \<open>A store with one key and a cipher that reverses a block, on a session with two calls' worth of memory.\<close>

definition store_backend :: "(byte list, unit) psa" where
  "store_backend c op b =
    (case c of
       KEY (Import_key attr d) \<Rightarrow> (fst (scripted accept_all c op ()), d)
     | _ \<Rightarrow> (fst (scripted accept_all c op ()), b))"

definition one_key_store :: "byte list key_store" where
  "one_key_store = \<lparr>lock_slot = (\<lambda>b kid usage alg. PSA_SUCCESS),
     slot_attr = (\<lambda>b kid. psa_key_attributes_init\<lparr>pa_type := PSA_KEY_TYPE_AES, pa_bits := 128\<rparr>),
     slot_data = (\<lambda>b kid. b)\<rparr>"

definition reversing :: ecb where
  "reversing e k b = rev b"

definition cbc_session :: "memory \<Rightarrow> ptr \<Rightarrow> (bool list \<times> byte list, unit vop2) session" where
  "cbc_session m out =
    \<lparr>rs_world = (fresh_world ([], []) [4096])\<lparr>w_mem := m\<rparr>, rs_ptrs = Map.empty,
     rs_allocs = [100, 101, out, 102], rs_interrupts = [False]\<rparr>"

abbreviation cbc_demo :: "ptr \<Rightarrow> bool \<Rightarrow> (bool list \<times> byte list, unit vop2, sexp outcome) rc" where
  "cbc_demo data encrypt \<equiv> zucrypt_aes_cbc (vendored_cbc reversing one_key_store store_backend) (RAWSXP data 32)
     (RAWSXP 16384 16) (RAWSXP 20480 16) (LGLSXP encrypt)"

lemma reversing_pair: "block_pair (reversing True k) (reversing False k)"
  by (simp add: block_pair_def on_blocks_def reversing_def)

lemma one_key_imports: "imports_keys (vendored_cbc ecb one_key_store store_backend) (vendored_key one_key_store)"
  by (simp add: imports_keys_def vendored_cbc_def store_backend_def vendored_key_def one_key_store_def scripted_def
      rest_reply_def)

lemma buf_apart:
  "no_wrap p n \<Longrightarrow> no_wrap q k \<Longrightarrow> unat p + unat n \<le> unat q \<or> unat q + unat k \<le> unat p \<Longrightarrow> buf p n \<inter> buf q k = {}"
  by (auto simp: in_buf_no_wrap)

lemma one_key_simps:
  "lock_slot one_key_store b kid usage alg = PSA_SUCCESS" "pa_type (slot_attr one_key_store b kid) = PSA_KEY_TYPE_AES"
  "pa_bits (slot_attr one_key_store b kid) = 128"
  by (simp_all add: one_key_store_def)

lemma demo_apart: "buf 8192 32 \<inter> buf 1000 32 = {}" "buf 1000 32 \<inter> buf 2000 32 = {}"
  by (rule buf_apart; simp add: no_wrap_def)+

lemma cbc_demo_runs:
  assumes "p \<noteq> NULL" "no_wrap p 32" "no_wrap out 32" "out \<noteq> NULL" "buf p 32 \<inter> buf out 32 = {}"
  shows "\<exists>s'. run_state (cbc_demo p e) (cbc_session m out) =
    (Returned (VECSXP [(''status'', INTSXP [0]), (''value'', RAWSXP out 32)]), s')"
  by (rule vendored_cbc_total.zucrypt_aes_cbc_succeeds [of "cbc_session m out" 4096 "[]" 100 101 out 102 "[]"])
    (use assms in \<open>simp_all add: cbc_session_def one_key_imports reversing_pair vendored_cbc_def store_backend_def
      vendored_cbc_able_def one_key_simps scripted_def rest_reply_def\<close>)

theorem zucrypt_aes_cbc_is_cbc_witness:
  "\<exists>s'. run_state (cbc_demo 8192 True) (cbc_session (\<lambda>a. ucast a) 1000) =
      (Returned (VECSXP [(''status'', INTSXP [0]), (''value'', RAWSXP 1000 32)]), s') \<and>
    mem_read (w_mem (rs_world s')) 1000 32 = cbc_enc rev (map of_nat [0..<16]) (map of_nat [0..<32])"
proof -
  let ?s = "cbc_session (\<lambda>a. ucast a) 1000"
  obtain s' where run: "run_state (cbc_demo 8192 True) ?s =
      (Returned (VECSXP [(''status'', INTSXP [0]), (''value'', RAWSXP 1000 32)]), s')"
    using cbc_demo_runs [of 8192 1000 True "\<lambda>a. ucast a"] demo_apart(1) by (auto simp: no_wrap_def)
  have "buf 8192 32 \<inter> buf a 32 = {}" if "a \<in> set (rs_allocs ?s)" for a
    using that by (auto simp: cbc_session_def no_wrap_def in_buf_no_wrap)
  moreover have "mem_read (\<lambda>a. ucast a) 8192 32 = map of_nat [0..<32]" "mem_read (\<lambda>a. ucast a) 20480 16 = map of_nat [0..<16]"
    by (simp_all add: mem_read_def upt_rec)
  ultimately show ?thesis
    using zucrypt_aes_cbc_is_cbc [OF run one_key_imports _ reversing_pair] run
    by (auto simp: cbc_session_def cbc_def reversing_def [abs_def])
qed

theorem zucrypt_aes_cbc_round_trip_witness:
  "\<exists>s1 s3. run_state (cbc_demo 8192 True) (cbc_session (\<lambda>a. ucast a) 1000) =
      (Returned (VECSXP [(''status'', INTSXP [0]), (''value'', RAWSXP 1000 32)]), s1) \<and>
    run_state (cbc_demo 1000 False) (cbc_session (w_mem (rs_world s1)) 2000) =
      (Returned (VECSXP [(''status'', INTSXP [0]), (''value'', RAWSXP 2000 32)]), s3) \<and>
    mem_read (w_mem (rs_world s3)) 2000 32 = mem_read (\<lambda>a. ucast a) 8192 32"
proof -
  let ?s = "cbc_session (\<lambda>a. ucast a) 1000"
  obtain s1 where run: "run_state (cbc_demo 8192 True) ?s =
      (Returned (VECSXP [(''status'', INTSXP [0]), (''value'', RAWSXP 1000 32)]), s1)"
    using cbc_demo_runs [of 8192 1000 True "\<lambda>a. ucast a"] demo_apart(1) by (auto simp: no_wrap_def)
  let ?s2 = "cbc_session (w_mem (rs_world s1)) 2000"
  obtain s3 where run2: "run_state (cbc_demo 1000 False) ?s2 =
      (Returned (VECSXP [(''status'', INTSXP [0]), (''value'', RAWSXP 2000 32)]), s3)"
    using cbc_demo_runs [of 1000 2000 False "w_mem (rs_world s1)"] demo_apart(2) by (auto simp: no_wrap_def)
  have a: "buf 8192 32 \<inter> buf a 32 = {}" if "a \<in> set (rs_allocs ?s)" for a
    using that by (auto simp: cbc_session_def no_wrap_def in_buf_no_wrap)
  have b: "buf 1000 32 \<inter> buf a 32 = {}" if "a \<in> set (rs_allocs ?s2)" for a
    using that by (auto simp: cbc_session_def no_wrap_def in_buf_no_wrap)
  have frame: "\<And>x. x \<notin> buf 1000 32 \<Longrightarrow> w_mem (rs_world s1) x = ucast x"
    using vendored_cbc.zucrypt_aes_cbc_value [OF run one_key_imports a reversing_pair] by (auto simp: cbc_session_def)
  have same: "mem_read (w_mem (rs_world s1)) q 16 = mem_read (\<lambda>a. ucast a) q 16" if "buf q 16 \<inter> buf 1000 32 = {}" for q
    by (rule mem_read_cong) (use that frame in blast)
  have "mem_read (w_mem (rs_world ?s2)) 16384 16 = mem_read (w_mem (rs_world ?s)) 16384 16"
      "mem_read (w_mem (rs_world ?s2)) 20480 16 = mem_read (w_mem (rs_world ?s)) 20480 16"
    by (simp_all add: cbc_session_def, (rule same; rule buf_apart; simp add: no_wrap_def)+)
  from zucrypt_aes_cbc_round_trip [OF run run2 one_key_imports a b _ this reversing_pair] run run2
  show ?thesis by (auto simp: cbc_session_def)
qed

end
