(* ===== verification/Hmac_Mode.thy ===== *)
theory Hmac_Mode
  imports Digest Key_Store
begin

text \<open>
  HMAC of FIPS 198-1 over an arbitrary hash function, and the adapter and R layers above a backend that
  computes it: the locale \<open>psa_mac_contract\<close> states what they rely on when a MAC call succeeds, and
  \<open>psa_mac_total\<close> adds that it does succeed. An HMAC context is an instance of the locale \<open>absorbing\<close>,
  so the chunk loop and the streams need no proof of their own.
\<close>

section \<open>The standard\<close>

text \<open>The key as one block: hashed when it is longer, then filled with zeros.\<close>

definition hmac_key0 :: "(byte list \<Rightarrow> byte list) \<Rightarrow> nat \<Rightarrow> byte list \<Rightarrow> byte list" where
  "hmac_key0 H B K = (let K = (if length K > B then H K else K) in K @ replicate (B - length K) 0)"

definition fips_hmac :: "(byte list \<Rightarrow> byte list) \<Rightarrow> nat \<Rightarrow> byte list \<Rightarrow> byte list \<Rightarrow> byte list" where
  "fips_hmac H B K m = H (map (\<lambda>k. k XOR 0x5c) (hmac_key0 H B K) @ H (map (\<lambda>k. k XOR 0x36) (hmac_key0 H B K) @ m))"

text \<open>The key \<^verbatim>\<open>import_hmac_key\<close> imports: a long one hashed, an empty one a zero byte.\<close>

definition imported_key :: "(byte list \<Rightarrow> byte list) \<Rightarrow> nat \<Rightarrow> byte list \<Rightarrow> byte list" where
  "imported_key H B K = (let K = (if length K > B then H K else K) in if K = [] then [0] else K)"

lemma length_hmac_key0: "length (H K) \<le> B \<Longrightarrow> length (hmac_key0 H B K) = B"
  by (simp add: hmac_key0_def Let_def)

lemma hmac_key0_imported:
  assumes "length (H K) \<le> B" "B > 0"
  shows "hmac_key0 H B (imported_key H B K) = hmac_key0 H B K"
  using assms by (cases B) (auto simp: hmac_key0_def imported_key_def Let_def)

lemma hmac_imported: "length (H K) \<le> B \<Longrightarrow> B > 0 \<Longrightarrow> fips_hmac H B (imported_key H B K) = fips_hmac H B K"
  by (simp add: fips_hmac_def hmac_key0_imported fun_eq_iff)

text \<open>HMAC with the digest of a PSA algorithm.\<close>

definition psa_hmac :: "(psa_algorithm_t \<Rightarrow> byte list \<Rightarrow> byte list) \<Rightarrow> psa_algorithm_t \<Rightarrow> byte list \<Rightarrow> byte list \<Rightarrow> byte list" where
  "psa_hmac digest alg = fips_hmac (digest alg) (unat (PSA_HASH_BLOCK_LENGTH alg))"

abbreviation psa_imported :: "(psa_algorithm_t \<Rightarrow> byte list \<Rightarrow> byte list) \<Rightarrow> psa_algorithm_t \<Rightarrow> byte list \<Rightarrow> byte list" where
  "psa_imported digest alg \<equiv> imported_key (digest alg) (unat (PSA_HASH_BLOCK_LENGTH alg))"

section \<open>What the adapter does with a context\<close>

definition hmac_holds ::
  "(psa_algorithm_t \<Rightarrow> byte list \<Rightarrow> 'o option \<Rightarrow> byte list \<Rightarrow> bool) \<Rightarrow> ('b, 'o) world \<Rightarrow> ptr \<Rightarrow> zuc_alg \<Rightarrow> byte list \<Rightarrow>
   byte list \<Rightarrow> bool" where
  "hmac_holds keyed w h alg k m \<longleftrightarrow>
    (\<exists>x. w_hmacs w h = Some x \<and> m_active x \<and> m_alg x = alg \<and> keyed (zuc_int_psa_hash alg) k (m_op x) m)"

lemma zuc_hmac_free_mem: "keeps w_mem (zuc_hmac_free P h)"
  unfolding zuc_hmac_free_def deref_hmac_def free_struct_hmac_def psa_destroy_key_def by (intro keeps_intros; simp)

lemma zucrypt_hmac_one_shot:
  "zucrypt_hmac P (RAWSXP p n) (RAWSXP kp kn) (STRSXP [name]) =
    one_shot Fin_hmac (zuc_alg_size (zuc_alg_by_name (Some name)))
      (zuc_hmac_new P (zuc_alg_by_name (Some name)) kp kn)
      (zuc_hmac_update P) (zuc_hmac_finish P) (zuc_hmac_free P) p n"
  unfolding zucrypt_hmac_def one_shot_def take_value_def Let_def RAW.simps XLENGTH.simps R_CHAR.simps by (rule refl)

lemma zucrypt_hmac_stream_open:
  "zucrypt_hmac_stream_new P (RAWSXP kp kn) (STRSXP [name]) =
    open_stream ZUCRYPT_STREAM_HMAC (zuc_alg_by_name (Some name)) (zuc_hmac_new P (zuc_alg_by_name (Some name)) kp kn)"
  unfolding zucrypt_hmac_stream_new_def open_stream_def Let_def R_CHAR.simps RAW.simps XLENGTH.simps by (rule refl)

text \<open>An entry point that has returned an object has made the context behind it.\<close>

lemma open_stream_new:
  assumes "run_state (open_stream kind alg new) s =
      (Returned (VECSXP [(''status'', INTSXP [0]), (''value'', EXTPTRSXP q)]), s')"
  obtains h w where "run_state (with_out new) (rs_world s) = ((ZUC_OK, h), w)"
proof -
  obtain st h w where new: "run_state (with_out new) (rs_world s) = ((st, h), w)"
    by (metis surj_pair)
  have "st = ZUC_OK"
    using assms new by (auto simp: open_stream_runs Let_def split: list.splits if_splits)
  with new that show ?thesis by blast
qed

section \<open>The contract of a MAC backend\<close>

text \<open>
  \<open>keyed alg k op m\<close>: the operation was set up for HMAC over \<open>alg\<close> with the key bytes \<open>k\<close> and has taken in
  \<open>m\<close>. \<open>key_of b kid\<close> are the bytes of a key.
\<close>

locale psa_mac_contract =
  fixes P :: "('b, 'o) psa"
    and digest :: "psa_algorithm_t \<Rightarrow> byte list \<Rightarrow> byte list"
    and key_of :: "'b \<Rightarrow> psa_key_id_t \<Rightarrow> byte list"
    and keyed :: "psa_algorithm_t \<Rightarrow> byte list \<Rightarrow> 'o option \<Rightarrow> byte list \<Rightarrow> bool"
    and supported :: "psa_algorithm_t \<Rightarrow> bool"
    and step_max :: nat
  assumes setup_keyed: "supported alg \<Longrightarrow>
      r_status (fst (P (MAC (Mac_sign_setup kid (PSA_ALG_HMAC alg))) None b)) = PSA_SUCCESS \<Longrightarrow>
      length (key_of b kid) < step_max \<Longrightarrow>
      keyed alg (key_of b kid) (r_op (fst (P (MAC (Mac_sign_setup kid (PSA_ALG_HMAC alg))) None b))) []"
    and update_keyed: "keyed alg k op m \<Longrightarrow> length d < step_max \<Longrightarrow>
      r_status (fst (P (MAC (Mac_update d)) op b)) = PSA_SUCCESS \<Longrightarrow>
      keyed alg k (r_op (fst (P (MAC (Mac_update d)) op b))) (m @ d)"
    and finish_mac: "keyed alg k op m \<Longrightarrow>
      r_status (fst (P (MAC (Mac_sign_finish n)) op b)) = PSA_SUCCESS \<Longrightarrow>
      length (psa_hmac digest alg k m) \<le> unat n \<and>
      take (length (psa_hmac digest alg k m)) (r_out (fst (P (MAC (Mac_sign_finish n)) op b))) = psa_hmac digest alg k m \<and>
      r_len (fst (P (MAC (Mac_sign_finish n)) op b)) = of_nat (length (psa_hmac digest alg k m))"
    and compute_mac: "supported alg \<Longrightarrow> length d < step_max \<Longrightarrow> length (key_of b kid) < step_max \<Longrightarrow>
      r_status (fst (P (MAC (Mac_compute kid (PSA_ALG_HMAC alg) d n)) None b)) = PSA_SUCCESS \<Longrightarrow>
      length (psa_hmac digest alg (key_of b kid) d) \<le> unat n \<and>
      take (length (psa_hmac digest alg (key_of b kid) d))
        (r_out (fst (P (MAC (Mac_compute kid (PSA_ALG_HMAC alg) d n)) None b))) = psa_hmac digest alg (key_of b kid) d \<and>
      r_len (fst (P (MAC (Mac_compute kid (PSA_ALG_HMAC alg) d n)) None b)) =
        of_nat (length (psa_hmac digest alg (key_of b kid) d))"
    and reduce_digest: "length d < step_max \<Longrightarrow>
      r_status (fst (P (HASH (Hash_compute alg d n)) None b)) = PSA_SUCCESS \<Longrightarrow>
      length (digest alg d) \<le> unat n \<and>
      take (length (digest alg d)) (r_out (fst (P (HASH (Hash_compute alg d n)) None b))) = digest alg d \<and>
      r_len (fst (P (HASH (Hash_compute alg d n)) None b)) = of_nat (length (digest alg d))"
    and digest_fits: "supported alg \<Longrightarrow>
      length (digest alg m) \<le> unat (PSA_HASH_BLOCK_LENGTH alg) \<and> 0 < PSA_HASH_BLOCK_LENGTH alg"
    and available_supported: "zuc_int_digest_available a \<Longrightarrow> supported (zuc_int_psa_hash a)"
    and long_steps: "2 ^ 32 \<le> step_max"
begin

text \<open>The bytes at the start of a buffer that a call has filled.\<close>

lemma out_read:
  fixes n :: size_t
  assumes "length D \<le> unat n" "take (length D) bs = D"
  shows "mem_read (mem_write m out (take (unat n) bs)) out (of_nat (length D)) = D"
proof -
  have u: "unat (of_nat (length D) :: size_t) = length D"
    using le_less_trans [OF assms(1) unsigned_less [where 'a = nat, of n]] by (rule unat_of_nat_small)
  have "length D \<le> length (take (unat n) bs)"
    using assms by (metis length_take min.bounded_iff order_refl)
  then have "mem_read (mem_write m out (take (unat n) bs)) out (of_nat (length D)) = take (length D) (take (unat n) bs)"
    by (intro nth_equalityI) (auto simp: u mem_write_def unat_of_nat_index [of _ "of_nat (length D)"])
  then show ?thesis
    using assms by (simp add: min_def)
qed

lemma import_value:
  assumes "run_state (import_hmac_key P alg key n palg) w = ((ZUC_OK, kid), w')"
    and "imports_keys P key_of" "unat n < step_max"
  shows "key_of (w_psa w') kid = psa_imported digest (zuc_int_psa_hash alg) (mem_read (w_mem w) key n) \<and>
    w_mem w' = w_mem w \<and> w_hmacs w' = w_hmacs w"
proof -
  let ?h = "zuc_int_psa_hash alg" and ?k = "mem_read (w_mem w) key n"
  let ?attr = "\<lparr>pa_type = PSA_KEY_TYPE_HMAC, pa_bits = 0, pa_alg = palg, pa_usage = PSA_KEY_USAGE_SIGN_MESSAGE\<rparr>"
  have imp: "key_of (snd (P (KEY (Import_key ?attr d)) None b)) (r_id (fst (P (KEY (Import_key ?attr d)) None b))) = d"
    if "r_status (fst (P (KEY (Import_key ?attr d)) None b)) = PSA_SUCCESS" for d b
    using assms(2) that by (simp add: imports_keys_def)
  have red: "local_buf ZUC_MAX_DIGEST_SIZE (r_out r) (r_len r) = digest ?h ?k"
    if "r_status r = PSA_SUCCESS" "r = fst (P (HASH (Hash_compute ?h ?k ZUC_MAX_DIGEST_SIZE)) None b)" for b r
  proof -
    have f: "length (digest ?h ?k) \<le> 64" "take (length (digest ?h ?k)) (r_out r) = digest ?h ?k"
        "r_len r = of_nat (length (digest ?h ?k))"
      using reduce_digest [of ?k ?h ZUC_MAX_DIGEST_SIZE b] that assms(3) by simp_all
    then have "length (digest ?h ?k) \<le> length (r_out r)" by (metis length_take min.bounded_iff order_refl)
    moreover have "unat (r_len r) = length (digest ?h ?k)"
      using f(1,3) by (simp add: unat_of_nat_small)
    ultimately show ?thesis
      using f by (simp add: local_buf_def min_def)
  qed
  have big: "PSA_HASH_BLOCK_LENGTH ?h < n \<longleftrightarrow> unat (PSA_HASH_BLOCK_LENGTH ?h) < length ?k"
    by (simp add: word_less_nat_alt)
  show ?thesis
    using assms(1) big
    by (auto simp: import_hmac_key_def psa_import_key_def run_psa_do Let_def imported_key_def imp red [OF _ refl]
        split: if_splits prod.splits)
qed

lemma block_small: "unat (PSA_HASH_BLOCK_LENGTH alg) \<le> 144"
  by (simp add: PSA_HASH_BLOCK_LENGTH_def Let_def)

lemma imported_short:
  assumes "supported alg"
  shows "length (psa_imported digest alg k) < step_max"
proof -
  have "length (psa_imported digest alg k) \<le> 144"
    using digest_fits [OF assms, of k] block_small [of alg] by (auto simp: imported_key_def Let_def)
  then show ?thesis using long_steps by simp
qed

lemma hmac_imported_key: "supported alg \<Longrightarrow> psa_hmac digest alg (psa_imported digest alg k) = psa_hmac digest alg k"
  unfolding psa_hmac_def using digest_fits [of alg k] by (intro hmac_imported) (simp_all add: word_less_nat_alt)

lemma new_holds:
  assumes "run_state (with_out (zuc_hmac_new P alg key n)) w = ((ZUC_OK, h), w')"
    and imp: "imports_keys P key_of" and n: "unat n < step_max"
  shows "hmac_holds keyed w' h alg (psa_imported digest (zuc_int_psa_hash alg) (mem_read (w_mem w) key n)) [] \<and>
    h \<noteq> NULL \<and> w_mem w' = w_mem w \<and> supported (zuc_int_psa_hash alg)"
proof -
  let ?h = "zuc_int_psa_hash alg"
  obtain p w1 where alloc: "run_state calloc_hmac (w\<lparr>w_cells := (w_cells w)(LOCAL := NULL)\<rparr>) = (p, w1)" by force
  have av: "zuc_int_digest_available alg" and p: "p \<noteq> NULL"
    using assms(1) alloc by (auto simp: with_out_def zuc_hmac_new_def split: if_splits)
  have w1: "w_mem w1 = w_mem w"
    using alloc p by (auto simp: calloc_hmac_def run_c_alloc split: if_splits list.splits)
  obtain st kid w2 where i: "run_state (import_hmac_key P alg key n (PSA_ALG_HMAC ?h)) w1 = ((st, kid), w2)"
    by (metis surj_pair)
  have st: "st = ZUC_OK"
    using assms(1) alloc i p by (auto simp: with_out_def zuc_hmac_new_def Let_def free_struct_hmac_def zero_hmac_def split: if_splits)
  note v = import_value [OF i [unfolded st] imp n, unfolded w1]
  show ?thesis
    using assms(1) alloc i p st v available_supported [OF av] setup_keyed [OF available_supported [OF av], of kid "w_psa w2"]
      imported_short [OF available_supported [OF av]]
    by (auto simp: with_out_def zuc_hmac_new_def Let_def run_psa_do set_hmac_def hmac_holds_def zero_hmac_def
        free_struct_hmac_def psa_destroy_key_def split: if_splits)
qed

lemma update_holds:
  assumes "hmac_holds keyed w h alg k m" "unat n < step_max"
    and "run_state (zuc_hmac_update P h p n) w = (ZUC_OK, w')"
  shows "hmac_holds keyed w' h alg k (m @ mem_read (w_mem w) p n) \<and> w_mem w' = w_mem w"
proof -
  obtain x where x: "w_hmacs w h = Some x" "m_active x" "m_alg x = alg" "keyed (zuc_int_psa_hash alg) k (m_op x) m"
    using assms(1) by (auto simp: hmac_holds_def)
  show ?thesis
    using assms(2,3) x update_keyed [OF x(4), of "mem_read (w_mem w) p n" "w_psa w"]
    by (auto simp: zuc_hmac_update_def deref_hmac_def run_psa_do set_hmac_def hmac_holds_def split: if_splits)
qed

lemma finish_value:
  assumes "hmac_holds keyed w h alg k m"
    and "run_state (with_len (zuc_hmac_finish P h out n)) w = ((ZUC_OK, got), w')"
  shows "mem_read (w_mem w') out got = psa_hmac digest (zuc_int_psa_hash alg) k m"
proof -
  obtain x where x: "w_hmacs w h = Some x" "m_active x" "m_alg x = alg" "keyed (zuc_int_psa_hash alg) k (m_op x) m"
    using assms(1) by (auto simp: hmac_holds_def)
  let ?r = "fst (P (MAC (Mac_sign_finish n)) (m_op x) (w_psa w))"
  have ok: "r_status ?r = PSA_SUCCESS" "got = r_len ?r"
    and w': "w_mem w' = mem_write (w_mem w) out (take (unat n) (r_out ?r))"
    using assms(2) x
    by (auto simp: with_len_def zuc_hmac_finish_def deref_hmac_def run_psa_do set_hmac_def split: if_splits)
  show ?thesis
    using finish_mac [OF x(4) ok(1)] out_read unfolding w' ok(2) by metis
qed

text \<open>The one-shot function of the adapter.\<close>

lemma hmac_compute_value:
  assumes "run_state (zuc_hmac_compute P alg key key_len data data_len out out_size out_len) w = (ZUC_OK, w')"
    and imp: "imports_keys P key_of" and len: "unat key_len < step_max" "unat data_len < step_max"
  shows "mem_read (w_mem w') out (w_sizes w' out_len) =
    psa_hmac digest (zuc_int_psa_hash alg) (mem_read (w_mem w) key key_len) (mem_read (w_mem w) data data_len)"
proof -
  let ?h = "zuc_int_psa_hash alg" and ?K = "mem_read (w_mem w) key key_len"
  let ?d = "if data = NULL then [] else mem_read (w_mem w) data data_len"
  have av: "zuc_int_digest_available alg" and d: "?d = mem_read (w_mem w) data data_len"
    using assms(1) by (auto simp: zuc_hmac_compute_def check_digest_args_def split: if_splits)
  note s = available_supported [OF av]
  let ?w0 = "w\<lparr>w_sizes := (w_sizes w)(out_len := 0)\<rparr>"
  obtain st kid w1 where i: "run_state (import_hmac_key P alg key key_len (PSA_ALG_HMAC ?h)) ?w0 = ((st, kid), w1)"
    by (metis surj_pair)
  have st: "st = ZUC_OK"
    using assms(1) i by (auto simp: zuc_hmac_compute_def check_digest_args_def Let_def split: if_splits)
  have v: "key_of (w_psa w1) kid = psa_imported digest ?h ?K" "w_mem w1 = w_mem w"
    using import_value [OF i [unfolded st] imp len(1)] by simp_all
  let ?r = "fst (P (MAC (Mac_compute kid (PSA_ALG_HMAC ?h) ?d out_size)) None (w_psa w1))"
  have ok: "r_status ?r = PSA_SUCCESS" "w_sizes w' out_len = r_len ?r"
    and w': "w_mem w' = mem_write (w_mem w) out (take (unat out_size) (r_out ?r))"
    using assms(1) i st v(2) by (auto simp: zuc_hmac_compute_def check_digest_args_def Let_def run_psa_do
        psa_destroy_key_def split: if_splits)
  show ?thesis
    using hmac_imported_key [OF s, of ?K] compute_mac [OF s _ _ ok(1)] out_read imported_short [OF s, of ?K] len(2)
    unfolding w' ok(2) v(1) d by (metis length_mem_read)
qed

text \<open>An HMAC context is a context that absorbs.\<close>

lemma absorbs: "absorbing_stream (zuc_hmac_update P) (zuc_hmac_finish P) (zuc_hmac_free P)
    (\<lambda>w h. hmac_holds keyed w h alg k) (psa_hmac digest (zuc_int_psa_hash alg) k) step_max P ZUCRYPT_STREAM_HMAC"
  by unfold_locales (use update_holds finish_value zuc_hmac_free_mem long_steps in \<open>auto simp: hmac_holds_def\<close>)

sublocale absorbs: absorbing_stream "zuc_hmac_update P" "zuc_hmac_finish P" "zuc_hmac_free P"
    "\<lambda>w h. hmac_holds keyed w h alg k" "psa_hmac digest (zuc_int_psa_hash alg) k" step_max P ZUCRYPT_STREAM_HMAC alg for alg k
  by (rule absorbs)

text \<open>From the R entry points.\<close>

lemma zucrypt_hmac_value:
  assumes "run_state (zucrypt_hmac P (RAWSXP p n) (RAWSXP kp kn) (STRSXP [name])) s =
      (Returned (VECSXP [(''status'', INTSXP [0]), (''value'', v)]), s')"
    and imp: "imports_keys P key_of" and kn: "unat kn < step_max"
  defines "alg \<equiv> zuc_alg_by_name (Some name)" and "m \<equiv> w_mem (rs_world s)"
  shows "\<exists>out. v = RAWSXP out (zuc_alg_size alg) \<and>
    mem_read (w_mem (rs_world s')) out (zuc_alg_size alg) =
      psa_hmac digest (zuc_int_psa_hash alg) (mem_read m kp kn) (mem_read m p n)"
proof -
  let ?k = "psa_imported digest (zuc_int_psa_hash alg) (mem_read m kp kn)"
  note run = assms(1) [unfolded zucrypt_hmac_one_shot, folded alg_def]
  have new: "hmac_holds keyed w h alg ?k [] \<and> w_mem w = m \<and> supported (zuc_int_psa_hash alg)"
    if "run_state (with_out (zuc_hmac_new P alg kp kn)) (rs_world s) = ((ZUC_OK, h), w)" for h w
    using new_holds [OF that imp kn] by (simp add: m_def)
  obtain h w where "run_state (with_out (zuc_hmac_new P alg kp kn)) (rs_world s) = ((ZUC_OK, h), w)"
    using run unfolding one_shot_def by (rule frame_returned) auto
  then have "supported (zuc_int_psa_hash alg)" using new by blast
  then show ?thesis
    using absorbs.one_shot_val [OF run, of alg ?k] new unfolding m_def [symmetric]
    by (simp add: hmac_imported_key)
qed

lemma stream_new_holds:
  assumes "run_state (zucrypt_hmac_stream_new P (RAWSXP kp kn) (STRSXP [name])) s =
      (Returned (VECSXP [(''status'', INTSXP [0]), (''value'', EXTPTRSXP q)]), s')"
    and imp: "imports_keys P key_of" and kn: "unat kn < step_max"
  defines "alg \<equiv> zuc_alg_by_name (Some name)"
  shows "stream_has (\<lambda>w h. hmac_holds keyed w h alg
      (psa_imported digest (zuc_int_psa_hash alg) (mem_read (w_mem (rs_world s)) kp kn))) ZUCRYPT_STREAM_HMAC alg q [] s' \<and>
    supported (zuc_int_psa_hash alg)"
proof -
  note opened = assms(1) [unfolded zucrypt_hmac_stream_open, folded alg_def]
  note new = new_holds [OF _ imp kn, of alg kp "rs_world s"]
  obtain h w where "run_state (with_out (zuc_hmac_new P alg kp kn)) (rs_world s) = ((ZUC_OK, h), w)"
    using opened by (rule open_stream_new)
  with new have "supported (zuc_int_psa_hash alg)" by blast
  moreover have "stream_has (\<lambda>w h. hmac_holds keyed w h alg
      (psa_imported digest (zuc_int_psa_hash alg) (mem_read (w_mem (rs_world s)) kp kn))) ZUCRYPT_STREAM_HMAC alg q [] s'"
    by (rule open_stream_has [OF opened]) (use new in blast)
  ultimately show ?thesis by blast
qed

lemma hmac_stream_value:
  assumes "run_state (zucrypt_hmac_stream_new P (RAWSXP kp kn) (STRSXP [name])) s =
      (Returned (VECSXP [(''status'', INTSXP [0]), (''value'', EXTPTRSXP q)]), s0)"
    and "imports_keys P key_of" "unat kn < step_max"
    and "feeding P q s0 m s1"
    and "run_state (zucrypt_stream_finish P (EXTPTRSXP q)) s1 =
      (Returned (VECSXP [(''status'', INTSXP [0]), (''value'', v)]), s2)"
  defines "alg \<equiv> zuc_alg_by_name (Some name)"
  shows "\<exists>out. v = RAWSXP out (zuc_alg_size alg) \<and> mem_read (w_mem (rs_world s2)) out (zuc_alg_size alg) =
    psa_hmac digest (zuc_int_psa_hash alg) (mem_read (w_mem (rs_world s)) kp kn) m"
proof -
  note new = stream_new_holds [OF assms(1-3), folded alg_def]
  show ?thesis
    using absorbs.stream_finish_value [OF absorbs.feeding_holds [OF assms(4) conjunct1 [OF new]] assms(5)]
      hmac_imported_key [OF conjunct2 [OF new]] by simp
qed

end

section \<open>A backend whose calls succeed\<close>

text \<open>The key store takes the keys the adapter imports for HMAC over \<open>alg\<close>, and lets them be used.\<close>

definition takes_hmac_keys ::
  "('b, 'o) psa \<Rightarrow> ('b \<Rightarrow> bool) \<Rightarrow> ('b \<Rightarrow> psa_key_id_t \<Rightarrow> psa_algorithm_t \<Rightarrow> bool) \<Rightarrow> psa_algorithm_t \<Rightarrow> bool" where
  "takes_hmac_keys P able usable alg \<longleftrightarrow> (\<forall>k b. able b \<longrightarrow>
    (case P (KEY (Import_key \<lparr>pa_type = PSA_KEY_TYPE_HMAC, pa_bits = 0, pa_alg = PSA_ALG_HMAC alg,
        pa_usage = PSA_KEY_USAGE_SIGN_MESSAGE\<rparr> k)) None b of
      (r, b') \<Rightarrow> r_status r = PSA_SUCCESS \<and> able b' \<and> usable b' (r_id r) alg))"

text \<open>\<open>able b\<close>: the backend works; \<open>usable b kid alg\<close>: the key may be used for HMAC over \<open>alg\<close>.\<close>

locale psa_mac_total = psa_mac_contract +
  fixes able :: "'b \<Rightarrow> bool"
    and usable :: "'b \<Rightarrow> psa_key_id_t \<Rightarrow> psa_algorithm_t \<Rightarrow> bool"
  assumes setup_ok: "supported alg \<Longrightarrow> able b \<Longrightarrow> usable b kid alg \<Longrightarrow> length (key_of b kid) < step_max \<Longrightarrow>
      r_status (fst (P (MAC (Mac_sign_setup kid (PSA_ALG_HMAC alg))) None b)) = PSA_SUCCESS \<and>
      able (snd (P (MAC (Mac_sign_setup kid (PSA_ALG_HMAC alg))) None b))"
    and update_ok: "keyed alg k op m \<Longrightarrow> length d < step_max \<Longrightarrow> able b \<Longrightarrow>
      r_status (fst (P (MAC (Mac_update d)) op b)) = PSA_SUCCESS \<and> able (snd (P (MAC (Mac_update d)) op b))"
    and finish_ok: "keyed alg k op m \<Longrightarrow> able b \<Longrightarrow> length (psa_hmac digest alg k m) \<le> unat n \<Longrightarrow>
      r_status (fst (P (MAC (Mac_sign_finish n)) op b)) = PSA_SUCCESS"
    and reduce_ok: "supported alg \<Longrightarrow> length d < step_max \<Longrightarrow> able b \<Longrightarrow> length (digest alg d) \<le> unat n \<Longrightarrow>
      r_status (fst (P (HASH (Hash_compute alg d n)) None b)) = PSA_SUCCESS"
    and reduce_able: "able b \<Longrightarrow> able (snd (P (HASH (Hash_compute alg d n)) None b))"
    and size_fits: "zuc_int_digest_available a \<Longrightarrow>
      length (digest (zuc_int_psa_hash a) m) = unat (zuc_alg_size a) \<and> unat (zuc_alg_size a) \<le> 64"
begin

lemma import_succeeds:
  assumes av: "zuc_int_digest_available alg" and "takes_hmac_keys P able usable (zuc_int_psa_hash alg)" "able (w_psa w)" "unat n < step_max"
  shows "\<exists>kid w'. run_state (import_hmac_key P alg key n (PSA_ALG_HMAC (zuc_int_psa_hash alg))) w = ((ZUC_OK, kid), w') \<and>
    able (w_psa w') \<and> usable (w_psa w') kid (zuc_int_psa_hash alg)"
proof -
  let ?h = "zuc_int_psa_hash alg" and ?k = "mem_read (w_mem w) key n"
  let ?attr = "\<lparr>pa_type = PSA_KEY_TYPE_HMAC, pa_bits = 0, pa_alg = PSA_ALG_HMAC ?h, pa_usage = PSA_KEY_USAGE_SIGN_MESSAGE\<rparr>"
  have imp: "r_status (fst (P (KEY (Import_key ?attr k)) None b)) = PSA_SUCCESS \<and>
      able (snd (P (KEY (Import_key ?attr k)) None b)) \<and>
      usable (snd (P (KEY (Import_key ?attr k)) None b)) (r_id (fst (P (KEY (Import_key ?attr k)) None b))) ?h"
    if "able b" for k b
    using assms(2) [unfolded takes_hmac_keys_def, rule_format, OF that, of k] by (simp add: case_prod_unfold)
  have red: "r_status (fst (P (HASH (Hash_compute ?h ?k ZUC_MAX_DIGEST_SIZE)) None (w_psa w))) = PSA_SUCCESS"
    using reduce_ok [OF available_supported [OF av] _ assms(3)] size_fits [OF av] assms(4) by simp
  show ?thesis
    using imp [OF assms(3)] imp [OF reduce_able [OF assms(3)]] red
    by (simp add: import_hmac_key_def psa_import_key_def run_psa_do Let_def)
qed

lemma new_succeeds:
  assumes "w_refcount w > 0" and av: "zuc_int_digest_available alg" and "w_allocs w = h # hs" "h \<noteq> NULL"
    and able: "able (w_psa w)" and keys: "takes_hmac_keys P able usable (zuc_int_psa_hash alg)" and key: "key \<noteq> NULL \<or> n = 0" "unat n < step_max" and imp: "imports_keys P key_of"
  shows "\<exists>w'. run_state (with_out (zuc_hmac_new P alg key n)) w = ((ZUC_OK, h), w') \<and> able (w_psa w')"
proof -
  let ?w1 = "w\<lparr>w_cells := (w_cells w)(LOCAL := NULL), w_allocs := hs, w_hmacs := (w_hmacs w)(h \<mapsto> zero_hmac)\<rparr>"
  have able1: "able (w_psa ?w1)" using able by simp
  obtain kid w2 where i: "run_state (import_hmac_key P alg key n (PSA_ALG_HMAC (zuc_int_psa_hash alg))) ?w1 = ((ZUC_OK, kid), w2)"
    and w2: "able (w_psa w2)" "usable (w_psa w2) kid (zuc_int_psa_hash alg)"
    using import_succeeds [OF av keys able1 key(2), of key] by blast
  have "length (key_of (w_psa w2) kid) < step_max"
    using import_value [OF i imp key(2)] imported_short [OF available_supported [OF av]] by simp
  then show ?thesis
    using assms(1-4) key i w2 setup_ok [OF available_supported [OF av] w2]
    by (auto simp: with_out_def zuc_hmac_new_def calloc_hmac_def run_c_alloc run_psa_do set_hmac_def Let_def zero_hmac_def)
qed

lemma hmac_size: "zuc_int_digest_available a \<Longrightarrow> length (psa_hmac digest (zuc_int_psa_hash a) k m) = unat (zuc_alg_size a)"
  by (simp add: psa_hmac_def fips_hmac_def size_fits)

lemma update_succeeds:
  assumes "hmac_holds keyed w h alg k m" "h \<noteq> NULL" "p \<noteq> NULL" "able (w_psa w)" "unat n < step_max"
  shows "\<exists>w'. run_state (zuc_hmac_update P h p n) w = (ZUC_OK, w') \<and> able (w_psa w')"
  using assms update_ok [of _ k _ m "mem_read (w_mem w) p n"]
  by (auto simp: hmac_holds_def zuc_hmac_update_def deref_hmac_def run_psa_do set_hmac_def)

lemma finish_succeeds:
  assumes "hmac_holds keyed w h alg k m" "h \<noteq> NULL" "out \<noteq> NULL" "able (w_psa w)" "zuc_int_digest_available alg"
  shows "\<exists>w'. run_state (with_len (zuc_hmac_finish P h out (zuc_alg_size alg))) w = ((ZUC_OK, zuc_alg_size alg), w')"
proof -
  obtain x where x: "w_hmacs w h = Some x" "m_active x" "m_alg x = alg" "keyed (zuc_int_psa_hash alg) k (m_op x) m"
    using assms(1) by (auto simp: hmac_holds_def)
  have ok: "r_status (fst (P (MAC (Mac_sign_finish (zuc_alg_size alg))) (m_op x) (w_psa w))) = PSA_SUCCESS"
    using finish_ok [OF x(4) assms(4)] hmac_size [OF assms(5)] by simp
  have "of_nat (unat (zuc_alg_size alg)) = zuc_alg_size alg" by simp
  then show ?thesis
    using ok finish_mac [OF x(4) ok] hmac_size [OF assms(5)] assms(2,3) x
    by (simp add: with_len_def zuc_hmac_finish_def deref_hmac_def run_psa_do set_hmac_def)
qed

lemma absorbs_total:
  assumes "zuc_int_digest_available alg"
  shows "absorbing_stream_total (zuc_hmac_update P) (zuc_hmac_finish P) (zuc_hmac_free P)
    (\<lambda>w h. hmac_holds keyed w h alg k) (psa_hmac digest (zuc_int_psa_hash alg) k) step_max (\<lambda>w. able (w_psa w))
    (zuc_alg_size alg) P ZUCRYPT_STREAM_HMAC alg"
  by unfold_locales (use update_succeeds finish_succeeds assms in \<open>simp_all add: hmac_holds_def\<close>)

lemma zucrypt_hmac_succeeds:
  assumes "w_refcount (rs_world s) > 0" "w_allocs (rs_world s) = h # hs" "h \<noteq> NULL"
    and "able (w_psa (rs_world s))" "list_all Not (rs_interrupts s)"
    and "rs_allocs s = q # f # out # l # rest" "q \<noteq> NULL" "f \<noteq> NULL" "out \<noteq> NULL" "l \<noteq> NULL"
    and "p \<noteq> NULL" "no_wrap p n"
    and "zuc_int_digest_available alg" and imp: "imports_keys P key_of" and keys: "takes_hmac_keys P able usable (zuc_int_psa_hash alg)"
    and key: "kp \<noteq> NULL" "unat kn < step_max" and alg: "alg = zuc_alg_by_name (Some name)"
  shows "\<exists>s'. run_state (zucrypt_hmac P (RAWSXP p n) (RAWSXP kp kn) (STRSXP [name])) s =
    (Returned (VECSXP [(''status'', INTSXP [0]), (''value'', RAWSXP out (zuc_alg_size alg))]), s')"
proof -
  obtain w where new: "run_state (with_out (zuc_hmac_new P alg kp kn)) (rs_world s) = ((ZUC_OK, h), w)" "able (w_psa w)"
    using new_succeeds [OF assms(1) assms(13) assms(2-4) keys _ key(2) imp] key(1) by blast
  show ?thesis
    unfolding zucrypt_hmac_one_shot alg [symmetric]
    using absorbing_total.one_shot_succeeds
        [OF absorbing_stream_total.axioms(1) [OF absorbs_total [OF assms(13)]] new(1) _ new(2)]
      new_holds [OF new(1) imp key(2)] assms(5-12) by blast
qed

lemma stream_new_succeeds:
  assumes "w_refcount (rs_world s) > 0" "w_allocs (rs_world s) = h # hs" "h \<noteq> NULL" "able (w_psa (rs_world s))"
    and "rs_allocs s = a # q # f # l # rest" "a \<noteq> NULL" "q \<noteq> NULL" "f \<noteq> NULL" "l \<noteq> NULL"
    and "zuc_int_digest_available alg" "takes_hmac_keys P able usable (zuc_int_psa_hash alg)"
    and "kp \<noteq> NULL" "unat kn < step_max" "imports_keys P key_of" "alg = zuc_alg_by_name (Some name)"
  shows "\<exists>s'. run_state (zucrypt_hmac_stream_new P (RAWSXP kp kn) (STRSXP [name])) s =
      (Returned (VECSXP [(''status'', INTSXP [0]), (''value'', EXTPTRSXP q)]), s') \<and>
    rs_allocs s' = rest \<and> able (w_psa (rs_world s')) \<and> w_mem (rs_world s') = w_mem (rs_world s)"
proof -
  obtain w where new: "run_state (with_out (zuc_hmac_new P alg kp kn)) (rs_world s) = ((ZUC_OK, h), w)" "able (w_psa w)"
    using new_succeeds [OF assms(1) assms(10) assms(2-4) assms(11) _ assms(13,14)] assms(12) by blast
  show ?thesis
    using open_stream_succeeds [OF new(1) assms(5-9), of ZUCRYPT_STREAM_HMAC alg] new_holds [OF new(1) assms(14,13)] new(2)
    unfolding zucrypt_hmac_stream_open assms(15) [symmetric] by auto
qed

end

end
