(* ===== verification/Psa_Mac.thy ===== *)
theory Psa_Mac
  imports Psa_Cipher Hmac_Mode
begin

text \<open>
  The HMAC half of the vendored backend, from the PSA entry points down to the digests: \<^verbatim>\<open>psa_mac_*\<close> of
  \<^verbatim>\<open>psa_crypto.c\<close>, the driver wrappers, which have the built-in driver only, and \<^verbatim>\<open>psa_crypto_mac.c\<close>, which
  the build configures without CMAC. The digests it uses are the functions of \<open>Psa_Hash\<close>, with the copies
  they make of their arguments. The key store is a parameter, as in \<open>Psa_Cipher\<close>.
\<close>

section \<open>Sizes and algorithms\<close>

definition PSA_ALG_IS_MAC :: "psa_algorithm_t \<Rightarrow> bool" where
  "PSA_ALG_IS_MAC alg \<longleftrightarrow> alg AND 0x7f000000 = 0x03000000"

definition PSA_ALG_IS_HMAC :: "psa_algorithm_t \<Rightarrow> bool" where
  "PSA_ALG_IS_HMAC alg \<longleftrightarrow> alg AND (0x7f000000 OR 0x00c00000) = PSA_ALG_HMAC_BASE"

definition PSA_ALG_IS_BLOCK_CIPHER_MAC :: "psa_algorithm_t \<Rightarrow> bool" where
  "PSA_ALG_IS_BLOCK_CIPHER_MAC alg \<longleftrightarrow> alg AND (0x7f000000 OR 0x00c00000) = 0x03c00000"

definition PSA_ALG_FULL_LENGTH_MAC :: "psa_algorithm_t \<Rightarrow> psa_algorithm_t" where
  "PSA_ALG_FULL_LENGTH_MAC alg = alg AND NOT (0x003f0000 OR 0x00008000)"

definition PSA_MAC_TRUNCATED_LENGTH :: "psa_algorithm_t \<Rightarrow> size_t" where
  "PSA_MAC_TRUNCATED_LENGTH alg = ucast (drop_bit 16 (alg AND 0x003f0000))"

definition PSA_BLOCK_CIPHER_BLOCK_LENGTH :: "psa_key_type_t \<Rightarrow> size_t" where
  "PSA_BLOCK_CIPHER_BLOCK_LENGTH type =
    (if type AND 0x7000 = 0x2000 then push_bit (unat (drop_bit 8 type AND 7)) 1 else 0)"

definition PSA_MAC_LENGTH :: "psa_key_type_t \<Rightarrow> size_t \<Rightarrow> psa_algorithm_t \<Rightarrow> size_t" where
  "PSA_MAC_LENGTH key_type key_bits alg =
    (if alg AND 0x003f0000 \<noteq> 0 then PSA_MAC_TRUNCATED_LENGTH alg
     else if PSA_ALG_IS_HMAC alg then PSA_HASH_LENGTH (PSA_ALG_HMAC_GET_HASH alg)
     else if PSA_ALG_IS_BLOCK_CIPHER_MAC alg then PSA_BLOCK_CIPHER_BLOCK_LENGTH key_type
     else 0)"

section \<open>Allocations\<close>

text \<open>
  A call's allocations as a state: the answers that are left, and whether one was a refusal. The digest
  functions and the copies of the caller's buffers consume it.
\<close>

type_synonym 'a heap_state = "(bool list \<times> bool, 'a) state"

definition try_local :: "nat \<Rightarrow> bool heap_state" where
  "try_local n = State (\<lambda>(answers, failed).
    case local_alloc n answers of (ok, answers) \<Rightarrow> (ok, (answers, failed \<or> \<not> ok)))"

definition try_hash_update :: "hop option \<Rightarrow> byte list \<Rightarrow> (psa_status_t \<times> hop option) heap_state" where
  "try_hash_update op inp = State (\<lambda>(answers, failed).
    case psa_hash_update answers op inp of (st, op, f, answers) \<Rightarrow> ((st, op), (answers, failed \<or> f)))"

definition try_hash_finish :: "hop option \<Rightarrow> size_t \<Rightarrow> (psa_status_t \<times> hop option \<times> byte list \<times> size_t) heap_state" where
  "try_hash_finish op n = State (\<lambda>(answers, failed).
    case psa_hash_finish answers op n of (st, op, out, len, f, answers) \<Rightarrow> ((st, op, out, len), (answers, failed \<or> f)))"

definition try_hash_compute :: "psa_algorithm_t \<Rightarrow> byte list \<Rightarrow> size_t \<Rightarrow> (psa_status_t \<times> byte list \<times> size_t) heap_state" where
  "try_hash_compute alg inp n = State (\<lambda>(answers, failed).
    case psa_hash_compute answers alg inp n of (st, out, len, f, answers) \<Rightarrow> ((st, out, len), (answers, failed \<or> f)))"

section \<open>The built-in driver: psa\_crypto\_mac.c\<close>

record mbedtls_psa_hmac_operation_t =
  hm_alg :: psa_algorithm_t
  hm_hash_ctx :: "hop option"
  hm_opad :: "byte list"

text \<open>An operation of the driver whose \<^verbatim>\<open>alg\<close> is 0 is not in use.\<close>

record mbedtls_psa_mac_operation_t =
  dm_alg :: psa_algorithm_t
  dm_hmac :: mbedtls_psa_hmac_operation_t

definition zero_hmac_op :: mbedtls_psa_hmac_operation_t where
  "zero_hmac_op = \<lparr>hm_alg = 0, hm_hash_ctx = None, hm_opad = replicate 128 0\<rparr>"

definition zero_mac_op :: mbedtls_psa_mac_operation_t where
  "zero_mac_op = \<lparr>dm_alg = 0, dm_hmac = zero_hmac_op\<rparr>"

definition psa_hmac_abort_internal ::
  "mbedtls_psa_hmac_operation_t \<Rightarrow> psa_status_t \<times> mbedtls_psa_hmac_operation_t" where
  "psa_hmac_abort_internal hmac =
    (let hmac = hmac\<lparr>hm_opad := replicate 128 0\<rparr>;
         (status, hash_ctx) = psa_hash_abort (hm_hash_ctx hmac)
     in (status, hmac\<lparr>hm_hash_ctx := hash_ctx\<rparr>))"

text \<open>\<open>ipad\<close> holds the bytes of the local array that have been written.\<close>

definition psa_hmac_setup_internal ::
  "mbedtls_psa_hmac_operation_t \<Rightarrow> byte list \<Rightarrow> psa_algorithm_t \<Rightarrow>
   (psa_status_t \<times> mbedtls_psa_hmac_operation_t) heap_state" where
  "psa_hmac_setup_internal hmac key hash_alg =
    (let hash_size = PSA_HASH_LENGTH hash_alg;
         block_size = PSA_HASH_BLOCK_LENGTH hash_alg;
         hmac = hmac\<lparr>hm_alg := hash_alg\<rparr>
     in if block_size > 128 then ret (PSA_ERROR_NOT_SUPPORTED, hmac)
        else if block_size < hash_size then ret (PSA_ERROR_NOT_SUPPORTED, hmac)
        else do {
          (status, ipad) \<leftarrow>
            (if length key > unat block_size then do {
               (status, out, key_length) \<leftarrow> try_hash_compute hash_alg key 128;
               ret (status, take (unat key_length) out)
             }
             else ret (PSA_SUCCESS, key));
          if status \<noteq> PSA_SUCCESS then ret (status, hmac)
          else do {
            let key_length = length ipad;
            let ipad = map (\<lambda>b. b XOR 0x36) ipad;
            let opad = put (hm_opad hmac) 0 (map (\<lambda>b. b XOR 0x36 XOR 0x5C) ipad);
            let ipad = ipad @ replicate (unat block_size - key_length) 0x36;
            let hmac = hmac\<lparr>hm_opad := put opad key_length (replicate (unat block_size - key_length) 0x5C)\<rparr>;
            let (status, ctx) = psa_hash_setup (hm_hash_ctx hmac) hash_alg;
            let hmac = hmac\<lparr>hm_hash_ctx := ctx\<rparr>;
            if status \<noteq> PSA_SUCCESS then ret (status, hmac)
            else do {
              (status, ctx) \<leftarrow> try_hash_update (hm_hash_ctx hmac) ipad;
              ret (status, hmac\<lparr>hm_hash_ctx := ctx\<rparr>)
            }
          }
        })"

definition psa_hmac_update_internal ::
  "mbedtls_psa_hmac_operation_t \<Rightarrow> byte list \<Rightarrow> (psa_status_t \<times> mbedtls_psa_hmac_operation_t) heap_state" where
  "psa_hmac_update_internal hmac inp = do {
     (status, ctx) \<leftarrow> try_hash_update (hm_hash_ctx hmac) inp;
     ret (status, hmac\<lparr>hm_hash_ctx := ctx\<rparr>)
   }"

text \<open>The status, the operation and the bytes written to \<^verbatim>\<open>mac\<close>.\<close>

definition psa_hmac_finish_internal ::
  "mbedtls_psa_hmac_operation_t \<Rightarrow> size_t \<Rightarrow>
   (psa_status_t \<times> mbedtls_psa_hmac_operation_t \<times> byte list) heap_state" where
  "psa_hmac_finish_internal hmac mac_size = do {
     let hash_alg = hm_alg hmac;
     let block_size = PSA_HASH_BLOCK_LENGTH hash_alg;
     (status, ctx, tmp, hash_size) \<leftarrow> try_hash_finish (hm_hash_ctx hmac) 64;
     if status \<noteq> PSA_SUCCESS then ret (status, hmac\<lparr>hm_hash_ctx := ctx\<rparr>, [])
     else do {
       let (status, ctx) = psa_hash_setup ctx hash_alg;
       if status \<noteq> PSA_SUCCESS then ret (status, hmac\<lparr>hm_hash_ctx := ctx\<rparr>, [])
       else do {
         (status, ctx) \<leftarrow> try_hash_update ctx (take (unat block_size) (hm_opad hmac));
         if status \<noteq> PSA_SUCCESS then ret (status, hmac\<lparr>hm_hash_ctx := ctx\<rparr>, [])
         else do {
           (status, ctx) \<leftarrow> try_hash_update ctx (take (unat hash_size) tmp);
           if status \<noteq> PSA_SUCCESS then ret (status, hmac\<lparr>hm_hash_ctx := ctx\<rparr>, [])
           else do {
             (status, ctx, tmp, hash_size) \<leftarrow> try_hash_finish ctx 64;
             if status \<noteq> PSA_SUCCESS then ret (status, hmac\<lparr>hm_hash_ctx := ctx\<rparr>, [])
             else ret (status, hmac\<lparr>hm_hash_ctx := ctx\<rparr>, take (unat mac_size) tmp)
           }
         }
       }
     }
   }"

definition mac_init :: "mbedtls_psa_mac_operation_t \<Rightarrow> psa_algorithm_t \<Rightarrow> psa_status_t \<times> mbedtls_psa_mac_operation_t" where
  "mac_init operation alg =
    (let operation = operation\<lparr>dm_alg := alg\<rparr>
     in if PSA_ALG_IS_HMAC alg
        then (PSA_SUCCESS, operation\<lparr>dm_hmac := (dm_hmac operation)\<lparr>hm_alg := 0\<rparr>\<rparr>)
        else (PSA_ERROR_NOT_SUPPORTED, zero_mac_op))"

definition mbedtls_psa_mac_abort :: "mbedtls_psa_mac_operation_t \<Rightarrow> psa_status_t \<times> mbedtls_psa_mac_operation_t" where
  "mbedtls_psa_mac_abort operation =
    (if dm_alg operation = 0 then (PSA_SUCCESS, operation)
     else if PSA_ALG_IS_HMAC (dm_alg operation)
     then (PSA_SUCCESS, operation\<lparr>dm_hmac := snd (psa_hmac_abort_internal (dm_hmac operation)), dm_alg := 0\<rparr>)
     else (PSA_ERROR_BAD_STATE, zero_mac_op))"

text \<open>The \<^verbatim>\<open>psa_mac_setup\<close> of \<^verbatim>\<open>psa_crypto_mac.c\<close>, which setting up for signing is.\<close>

definition mbedtls_psa_mac_sign_setup ::
  "mbedtls_psa_mac_operation_t \<Rightarrow> byte list \<Rightarrow> psa_algorithm_t \<Rightarrow>
   (psa_status_t \<times> mbedtls_psa_mac_operation_t) heap_state" where
  "mbedtls_psa_mac_sign_setup operation key alg =
    (if dm_alg operation \<noteq> 0 then ret (PSA_ERROR_BAD_STATE, operation)
     else
       let (status, operation) = mac_init operation alg
       in if status \<noteq> PSA_SUCCESS then ret (status, operation)
          else do {
            (status, operation) \<leftarrow>
              (if PSA_ALG_IS_HMAC alg then do {
                 (status, hmac) \<leftarrow> psa_hmac_setup_internal (dm_hmac operation) key (PSA_ALG_HMAC_GET_HASH alg);
                 ret (status, operation\<lparr>dm_hmac := hmac\<rparr>)
               }
               else ret (PSA_ERROR_NOT_SUPPORTED, operation));
            ret (status, if status \<noteq> PSA_SUCCESS then snd (mbedtls_psa_mac_abort operation) else operation)
          })"

definition mbedtls_psa_mac_update ::
  "mbedtls_psa_mac_operation_t \<Rightarrow> byte list \<Rightarrow> (psa_status_t \<times> mbedtls_psa_mac_operation_t) heap_state" where
  "mbedtls_psa_mac_update operation inp =
    (if dm_alg operation = 0 then ret (PSA_ERROR_BAD_STATE, operation)
     else if PSA_ALG_IS_HMAC (dm_alg operation) then do {
       (status, hmac) \<leftarrow> psa_hmac_update_internal (dm_hmac operation) inp;
       ret (status, operation\<lparr>dm_hmac := hmac\<rparr>)
     }
     else ret (PSA_ERROR_BAD_STATE, operation))"

definition psa_mac_finish_internal ::
  "mbedtls_psa_mac_operation_t \<Rightarrow> size_t \<Rightarrow> (psa_status_t \<times> mbedtls_psa_mac_operation_t \<times> byte list) heap_state" where
  "psa_mac_finish_internal operation mac_size =
    (if PSA_ALG_IS_HMAC (dm_alg operation) then do {
       (status, hmac, mac) \<leftarrow> psa_hmac_finish_internal (dm_hmac operation) mac_size;
       ret (status, operation\<lparr>dm_hmac := hmac\<rparr>, mac)
     }
     else ret (PSA_ERROR_BAD_STATE, operation, []))"

text \<open>The status, the operation, the bytes written and, when \<^verbatim>\<open>*mac_length\<close> is written, its value.\<close>

definition mbedtls_psa_mac_sign_finish ::
  "mbedtls_psa_mac_operation_t \<Rightarrow> size_t \<Rightarrow>
   (psa_status_t \<times> mbedtls_psa_mac_operation_t \<times> byte list \<times> size_t option) heap_state" where
  "mbedtls_psa_mac_sign_finish operation mac_size =
    (if dm_alg operation = 0 then ret (PSA_ERROR_BAD_STATE, operation, [], None)
     else do {
       (status, operation, mac) \<leftarrow> psa_mac_finish_internal operation mac_size;
       ret (status, operation, mac, if status = PSA_SUCCESS then Some mac_size else None)
     })"

definition mbedtls_psa_mac_compute ::
  "byte list \<Rightarrow> psa_algorithm_t \<Rightarrow> byte list \<Rightarrow> size_t \<Rightarrow> (psa_status_t \<times> byte list \<times> size_t option) heap_state" where
  "mbedtls_psa_mac_compute key alg inp mac_size = do {
     (status, operation) \<leftarrow> mbedtls_psa_mac_sign_setup zero_mac_op key alg;
     if status \<noteq> PSA_SUCCESS then ret (status, [], None)
     else do {
       (status, operation) \<leftarrow>
         (if length inp > 0 then mbedtls_psa_mac_update operation inp else ret (PSA_SUCCESS, operation));
       if status \<noteq> PSA_SUCCESS then ret (status, [], None)
       else do {
         (status, operation, mac) \<leftarrow> psa_mac_finish_internal operation mac_size;
         ret (status, mac, if status = PSA_SUCCESS then Some mac_size else None)
       }
     }
   }"

section \<open>The PSA layer: psa\_crypto.c\<close>

text \<open>\<open>None\<close> is an operation whose \<^verbatim>\<open>id\<close> is 0.\<close>

record psa_mac_operation_t =
  mo_mac_size :: "8 word"
  mo_is_sign :: bool
  mo_ctx :: mbedtls_psa_mac_operation_t

type_synonym mop = psa_mac_operation_t

definition psa_wipe_tag_output_buffer :: "byte list \<Rightarrow> psa_status_t \<Rightarrow> size_t \<Rightarrow> size_t \<Rightarrow> byte list" where
  "psa_wipe_tag_output_buffer output_buffer status output_buffer_size output_buffer_length =
    (if output_buffer_size = 0 then output_buffer
     else
       let offset = (if status = PSA_SUCCESS then output_buffer_length else 0)
       in put output_buffer (unat offset) (replicate (unat (output_buffer_size - offset)) 0x21))"

definition psa_mac_key_can_do :: "psa_algorithm_t \<Rightarrow> psa_key_type_t \<Rightarrow> psa_status_t" where
  "psa_mac_key_can_do algorithm key_type =
    (if PSA_ALG_IS_HMAC algorithm \<and> key_type = PSA_KEY_TYPE_HMAC then PSA_SUCCESS
     else if PSA_ALG_IS_BLOCK_CIPHER_MAC algorithm \<and> key_type AND 0x7000 = 0x2000 \<and>
       PSA_BLOCK_CIPHER_BLOCK_LENGTH key_type > 1 then PSA_SUCCESS
     else PSA_ERROR_INVALID_ARGUMENT)"

definition psa_mac_abort :: "mop option \<Rightarrow> psa_status_t \<times> mop option" where
  "psa_mac_abort operation =
    (case operation of
       None \<Rightarrow> (PSA_SUCCESS, None)
     | Some op \<Rightarrow> (fst (mbedtls_psa_mac_abort (mo_ctx op)), None))"

definition psa_mac_finalize_alg_and_key_validation :: "psa_algorithm_t \<Rightarrow> psa_attr \<Rightarrow> psa_status_t \<times> 8 word" where
  "psa_mac_finalize_alg_and_key_validation alg attr =
    (if \<not> PSA_ALG_IS_MAC alg then (PSA_ERROR_INVALID_ARGUMENT, 0)
     else
       let status = psa_mac_key_can_do alg (pa_type attr)
       in if status \<noteq> PSA_SUCCESS then (status, 0)
          else
            let mac_size = ucast (PSA_MAC_LENGTH (pa_type attr) (pa_bits attr) alg) :: 8 word
            in if mac_size < 4 then (PSA_ERROR_NOT_SUPPORTED, mac_size)
               else if ucast mac_size > PSA_MAC_LENGTH (pa_type attr) (pa_bits attr) (PSA_ALG_FULL_LENGTH_MAC alg)
               then (PSA_ERROR_INVALID_ARGUMENT, mac_size)
               else if mac_size > 64 then (PSA_ERROR_NOT_SUPPORTED, mac_size)
               else (PSA_SUCCESS, mac_size))"

definition psa_mac_sign_setup ::
  "'b key_store \<Rightarrow> 'b \<Rightarrow> mop option \<Rightarrow> psa_key_id_t \<Rightarrow> psa_algorithm_t \<Rightarrow> (psa_status_t \<times> mop option) heap_state" where
  "psa_mac_sign_setup ks b operation key alg =
    (if operation \<noteq> None then ret (PSA_ERROR_BAD_STATE, snd (psa_mac_abort operation))
     else
       let status = lock_slot ks b key PSA_KEY_USAGE_SIGN_MESSAGE alg
       in if status \<noteq> PSA_SUCCESS then ret (status, None)
          else
            let (status, mac_size) = psa_mac_finalize_alg_and_key_validation alg (slot_attr ks b key)
            in if status \<noteq> PSA_SUCCESS then ret (status, None)
               else do {
                 (status, ctx) \<leftarrow> mbedtls_psa_mac_sign_setup zero_mac_op (slot_data ks b key) alg;
                 ret (status, if status = PSA_SUCCESS
                              then Some \<lparr>mo_mac_size = mac_size, mo_is_sign = True, mo_ctx = ctx\<rparr> else None)
               })"

definition psa_mac_update :: "mop option \<Rightarrow> byte list \<Rightarrow> (psa_status_t \<times> mop option) heap_state" where
  "psa_mac_update operation inp =
    (case operation of
       None \<Rightarrow> ret (PSA_ERROR_BAD_STATE, None)
     | Some op \<Rightarrow>
         if length inp = 0 then ret (PSA_SUCCESS, operation)
         else do {
           ok \<leftarrow> try_local (length inp);
           if \<not> ok then ret (PSA_ERROR_INSUFFICIENT_MEMORY, operation)
           else do {
             (status, ctx) \<leftarrow> mbedtls_psa_mac_update (mo_ctx op) inp;
             let op = op\<lparr>mo_ctx := ctx\<rparr>;
             ret (status, if status \<noteq> PSA_SUCCESS then snd (psa_mac_abort (Some op)) else Some op)
           }
         })"

text \<open>
  The status, the operation, the output buffer (none without a copy to return) and the stored length. The
  operation of the adapter always signs.
\<close>

definition psa_mac_sign_finish ::
  "mop option \<Rightarrow> size_t \<Rightarrow> (psa_status_t \<times> mop option \<times> byte list \<times> size_t) heap_state" where
  "psa_mac_sign_finish operation mac_size = do {
     ok \<leftarrow> try_local (unat mac_size);
     (status, operation, mac, mac_length) \<leftarrow>
       (if \<not> ok then ret (PSA_ERROR_INSUFFICIENT_MEMORY, operation, [], None)
        else
          let mac = replicate (unat mac_size) 0
          in case operation of
               None \<Rightarrow> ret (PSA_ERROR_BAD_STATE, operation, mac, None)
             | Some op \<Rightarrow>
                 if \<not> mo_is_sign op then ret (PSA_ERROR_BAD_STATE, operation, mac, None)
                 else if mo_mac_size op = 0 then ret (PSA_ERROR_BAD_STATE, operation, mac, None)
                 else if mac_size < ucast (mo_mac_size op) then ret (PSA_ERROR_BUFFER_TOO_SMALL, operation, mac, None)
                 else do {
                   (status, ctx, out, mac_length) \<leftarrow> mbedtls_psa_mac_sign_finish (mo_ctx op) (ucast (mo_mac_size op));
                   ret (status, Some (op\<lparr>mo_ctx := ctx\<rparr>), put mac 0 out, mac_length)
                 });
     let mac_length = (if status \<noteq> PSA_SUCCESS then mac_size else case mac_length of None \<Rightarrow> 0 | Some n \<Rightarrow> n);
     let mac = (if ok then psa_wipe_tag_output_buffer mac status mac_size mac_length else mac);
     let (abort_status, operation) = psa_mac_abort operation;
     ret (if status = PSA_SUCCESS then abort_status else status, operation, mac, mac_length)
   }"

definition psa_mac_compute_internal ::
  "'b key_store \<Rightarrow> 'b \<Rightarrow> psa_key_id_t \<Rightarrow> psa_algorithm_t \<Rightarrow> byte list \<Rightarrow> byte list \<Rightarrow> size_t \<Rightarrow>
   (psa_status_t \<times> byte list \<times> size_t) heap_state" where
  "psa_mac_compute_internal ks b key alg inp mac mac_size = do {
     (status, mac, mac_length) \<leftarrow>
       (let status = lock_slot ks b key PSA_KEY_USAGE_SIGN_MESSAGE alg
        in if status \<noteq> PSA_SUCCESS then ret (status, mac, None)
           else
             let (status, operation_mac_size) = psa_mac_finalize_alg_and_key_validation alg (slot_attr ks b key)
             in if status \<noteq> PSA_SUCCESS then ret (status, mac, None)
                else if mac_size < ucast operation_mac_size then ret (PSA_ERROR_BUFFER_TOO_SMALL, mac, None)
                else do {
                  (status, out, mac_length) \<leftarrow>
                    mbedtls_psa_mac_compute (slot_data ks b key) alg inp (ucast operation_mac_size);
                  ret (status, put mac 0 out, mac_length)
                });
     let mac_length = (if status \<noteq> PSA_SUCCESS then mac_size else case mac_length of None \<Rightarrow> 0 | Some n \<Rightarrow> n);
     ret (status, psa_wipe_tag_output_buffer mac status mac_size mac_length, mac_length)
   }"

definition psa_mac_compute ::
  "'b key_store \<Rightarrow> 'b \<Rightarrow> psa_key_id_t \<Rightarrow> psa_algorithm_t \<Rightarrow> byte list \<Rightarrow> size_t \<Rightarrow>
   (psa_status_t \<times> byte list \<times> size_t) heap_state" where
  "psa_mac_compute ks b key alg inp mac_size = do {
     ok \<leftarrow> try_local (length inp);
     if \<not> ok then ret (PSA_ERROR_INSUFFICIENT_MEMORY, [], 0)
     else do {
       ok \<leftarrow> try_local (unat mac_size);
       if \<not> ok then ret (PSA_ERROR_INSUFFICIENT_MEMORY, [], 0)
       else psa_mac_compute_internal ks b key alg inp (replicate (unat mac_size) 0) mac_size
     }
   }"

section \<open>The backend\<close>

text \<open>The calls on MAC operations are these functions; the others, and the key store, are those of \<open>Q\<close>.\<close>

fun mac_dispatch ::
  "'b key_store \<Rightarrow> 'b \<Rightarrow> mac_call \<Rightarrow> mop option \<Rightarrow> bool list \<Rightarrow> (mop + 'p) psa_reply \<times> bool list" where
  "mac_dispatch ks b (Mac_compute kid alg inp n) op answers =
    (case run_state (psa_mac_compute ks b kid alg inp n) (answers, False) of ((st, out, len), answers, failed) \<Rightarrow>
      (top_reply st out len op failed, answers))"
| "mac_dispatch ks b (Mac_sign_setup kid alg) op answers =
    (case run_state (psa_mac_sign_setup ks b op kid alg) (answers, False) of ((st, op), answers, failed) \<Rightarrow>
      (top_reply st [] 0 op failed, answers))"
| "mac_dispatch ks b (Mac_update inp) op answers =
    (case run_state (psa_mac_update op inp) (answers, False) of ((st, op), answers, failed) \<Rightarrow>
      (top_reply st [] 0 op failed, answers))"
| "mac_dispatch ks b (Mac_sign_finish n) op answers =
    (case run_state (psa_mac_sign_finish op n) (answers, False) of ((st, op, out, len), answers, failed) \<Rightarrow>
      (top_reply st out len op failed, answers))"
| "mac_dispatch ks b Mac_abort op answers =
    (case psa_mac_abort op of (st, op) \<Rightarrow> (top_reply st [] 0 op False, answers))"

definition vendored_mac :: "'b key_store \<Rightarrow> ('b, 'p) psa \<Rightarrow> (bool list \<times> 'b, mop + 'p) psa" where
  "vendored_mac ks Q c op b =
    (case c of
       MAC m \<Rightarrow> (case mac_dispatch ks (snd b) m (top_part op) (fst b) of (r, answers) \<Rightarrow> (r, answers, snd b))
     | _ \<Rightarrow> (case Q c (rest_part op) (snd b) of (r, b') \<Rightarrow> (rest_reply r, fst b, b')))"

section \<open>What the steps deliver\<close>

text \<open>
  \<open>delivers c R\<close>: when \<open>c\<close> succeeds, its result satisfies \<open>R\<close>, and it does succeed while the allocator
  answers.
\<close>

abbreviation plenty :: "bool list \<times> bool \<Rightarrow> bool" where
  "plenty s \<equiv> list_all (\<lambda>x. x) (fst s)"

definition delivers :: "(psa_status_t \<times> 'a) heap_state \<Rightarrow> ('a \<Rightarrow> bool) \<Rightarrow> bool" where
  "delivers c R \<longleftrightarrow> (\<forall>s st x s'. run_state c s = ((st, x), s') \<longrightarrow>
    (st = PSA_SUCCESS \<longrightarrow> R x) \<and> (plenty s \<longrightarrow> st = PSA_SUCCESS \<and> plenty s'))"

definition fails :: "(psa_status_t \<times> 'a) heap_state \<Rightarrow> bool" where
  "fails c \<longleftrightarrow> (\<forall>s. fst (fst (run_state c s)) \<noteq> PSA_SUCCESS)"

lemma deliversD:
  assumes "delivers c R" "run_state c s = ((st, x), s')"
  shows "st = PSA_SUCCESS \<Longrightarrow> R x" and "plenty s \<Longrightarrow> st = PSA_SUCCESS \<and> plenty s'"
  using assms unfolding delivers_def by blast+

lemma failsD: "fails c \<Longrightarrow> run_state c s = ((st, x), s') \<Longrightarrow> st \<noteq> PSA_SUCCESS"
  unfolding fails_def by (metis fst_conv)

lemma delivers_ret: "R x \<Longrightarrow> delivers (ret (PSA_SUCCESS, x)) R"
  by (simp add: delivers_def)

lemma fails_ret: "st \<noteq> PSA_SUCCESS \<Longrightarrow> fails (ret (st, x))"
  by (simp add: fails_def)

lemma delivers_bind:
  assumes "delivers c R" "\<And>x. R x \<Longrightarrow> delivers (f (PSA_SUCCESS, x)) S"
    and "\<And>st x. st \<noteq> PSA_SUCCESS \<Longrightarrow> fails (f (st, x))"
  shows "delivers (c \<bind> f) S"
  unfolding delivers_def
proof (intro allI impI)
  fix s st y s'
  assume run: "run_state (c \<bind> f) s = ((st, y), s')"
  obtain st1 x s1 where c: "run_state c s = ((st1, x), s1)" by (metis surj_pair)
  then have f: "run_state (f (st1, x)) s1 = ((st, y), s')" using run by simp
  show "(st = PSA_SUCCESS \<longrightarrow> S y) \<and> (plenty s \<longrightarrow> st = PSA_SUCCESS \<and> plenty s')"
  proof (cases "st1 = PSA_SUCCESS")
    case True
    then have "delivers (f (PSA_SUCCESS, x)) S" using assms(2) deliversD(1) [OF assms(1) c] by blast
    then show ?thesis using deliversD(2) [OF assms(1) c] deliversD [OF _ f [unfolded True]] by blast
  next
    case False
    have "st \<noteq> PSA_SUCCESS" by (rule failsD [OF assms(3) [OF False, of x] f])
    then show ?thesis using deliversD(2) [OF assms(1) c] False by blast
  qed
qed

lemma delivers_weaken: "delivers c R \<Longrightarrow> (\<And>x. R x \<Longrightarrow> S x) \<Longrightarrow> delivers c S"
  unfolding delivers_def by blast

lemma delivers_try_local:
  assumes "delivers (f True) R" "fails (f False)"
  shows "delivers (try_local n \<bind> f) R"
  unfolding delivers_def
proof (intro allI impI)
  fix s st y s'
  assume run: "run_state (try_local n \<bind> f) s = ((st, y), s')"
  obtain ok as where l: "local_alloc n (fst s) = (ok, as)" by force
  then have f: "run_state (f ok) (as, snd s \<or> \<not> ok) = ((st, y), s')"
    using run by (simp add: try_local_def case_prod_unfold)
  have p: "plenty s \<Longrightarrow> ok \<and> list_all (\<lambda>x. x) as" using local_alloc_able [OF _ l] by blast
  show "(st = PSA_SUCCESS \<longrightarrow> R y) \<and> (plenty s \<longrightarrow> st = PSA_SUCCESS \<and> plenty s')"
  proof (cases ok)
    case True
    then have "run_state (f True) (as, snd s \<or> \<not> ok) = ((st, y), s')" using f by simp
    from deliversD [OF assms(1) this] p show ?thesis by auto
  next
    case False
    then have "run_state (f False) (as, snd s \<or> \<not> ok) = ((st, y), s')" using f by simp
    from failsD [OF assms(2) this] p False show ?thesis by auto
  qed
qed

text \<open>The digest steps.\<close>

definition hop_at :: "psa_algorithm_t \<Rightarrow> byte list \<Rightarrow> hop option \<Rightarrow> bool" where
  "hop_at alg m op \<longleftrightarrow> sha_supported alg \<and> operation_alg op = alg \<and> hop_absorbed op m"

lemma hop_atE:
  assumes "hop_at alg m op"
  obtains x where "op = Some x" "operation_alg (Some x) = alg" "hop_absorbed (Some x) m"
  using assms by (cases op) (auto simp: hop_at_def)

lemma setup_at:
  assumes "sha_supported alg"
  obtains op where "psa_hash_setup None alg = (PSA_SUCCESS, op)" "hop_at alg [] op"
  using assms that by (auto simp: sha_supported_def psa_hash_setup_def mbedtls_psa_hash_setup_def PSA_ALG_IS_HASH_def
      hop_at_def starts_absorbed)

lemma update_delivers:
  assumes "hop_at alg m op" "length d < 2 ^ 32"
  shows "delivers (try_hash_update op d) (hop_at alg (m @ d))"
proof -
  obtain x where x: "op = Some x" "operation_alg (Some x) = alg" "hop_absorbed (Some x) m"
    using assms(1) by (rule hop_atE)
  obtain y where u: "mbedtls_psa_hash_update (Some x) d = (PSA_SUCCESS, Some y)"
    by (cases x) simp_all
  have y: "hop_at alg (m @ d) (Some y)"
    using hop_update [OF x(3) assms(2)] update_alg [of "Some x" d] u x(2) assms(1) by (simp add: hop_at_def)
  have len0: "d = [] \<Longrightarrow> hop_at alg (m @ d) op" using assms(1) by simp
  show ?thesis
    using x(1) u y len0 local_alloc_able [of _ "length d"]
    by (auto simp: delivers_def try_hash_update_def psa_hash_update_def Let_def split: prod.splits if_splits)
qed

text \<open>A buffer of 64 bytes holds every digest.\<close>

definition digest_out :: "psa_algorithm_t \<Rightarrow> byte list \<Rightarrow> hop option \<times> byte list \<times> size_t \<Rightarrow> bool" where
  "digest_out alg m r \<longleftrightarrow> (case r of (op, out, len) \<Rightarrow> op = None \<and> length out = 64 \<and>
    take (length (psa_digest alg m)) out = psa_digest alg m \<and> len = of_nat (length (psa_digest alg m)))"

lemma psa_digest_size: "sha_supported alg \<Longrightarrow> length (psa_digest alg m) = unat (PSA_HASH_LENGTH alg)"
  by (auto simp: sha_supported_def psa_digest_def length_digests PSA_HASH_LENGTH_def PSA_ALG_HMAC_GET_HASH_def)

lemma hash_length_64: "sha_supported alg \<Longrightarrow> \<not> 64 < PSA_HASH_LENGTH alg \<and> unat (PSA_HASH_LENGTH alg) \<le> 64"
  by (auto simp: sha_supported_def PSA_HASH_LENGTH_def PSA_ALG_HMAC_GET_HASH_def)

lemma finish_delivers:
  assumes "hop_at alg m op"
  shows "delivers (try_hash_finish op 64) (digest_out alg m)"
proof -
  obtain x where x: "op = Some x" "operation_alg (Some x) = alg" "hop_absorbed (Some x) m"
    using assms by (rule hop_atE)
  note f = hop_finish [OF x(3), unfolded x(2)]
  have s: "sha_supported alg" using assms by (simp add: hop_at_def)
  show ?thesis
    using x(1,2) f hash_length_64 [OF s] local_alloc_able [of _ 64] psa_digest_size [OF s, of m]
    by (auto simp: delivers_def digest_out_def try_hash_finish_def psa_hash_finish_def mbedtls_psa_hash_finish_def
        psa_hash_abort_def put_def Let_def split: prod.splits if_splits)
qed

lemma compute_delivers:
  assumes "sha_supported alg" "length d < 2 ^ 32"
  shows "delivers (try_hash_compute alg d 128) (\<lambda>(out, len). take (unat len) out = psa_digest alg d)"
proof -
  have n: "length (psa_digest alg d) \<le> unat (128 :: size_t)"
    using psa_digest_size [OF assms(1), of d] hash_length_64 [OF assms(1)] by simp
  have u: "unat (of_nat (length (psa_digest alg d)) :: size_t) = length (psa_digest alg d)"
    using n by (intro unat_of_nat_small) simp
  show ?thesis
    using psa_hash_compute_digest [OF _ assms(2)] psa_hash_compute_able [OF _ assms(1) n] u
    by (fastforce simp: delivers_def try_hash_compute_def split: prod.splits)
qed

text \<open>The HMAC steps. The operation holds the digest of the inner block and the message so far, and the outer block.\<close>

abbreviation key0 :: "psa_algorithm_t \<Rightarrow> byte list \<Rightarrow> byte list" where
  "key0 alg k \<equiv> hmac_key0 (psa_digest alg) (unat (PSA_HASH_BLOCK_LENGTH alg)) k"

definition hmac_at :: "psa_algorithm_t \<Rightarrow> byte list \<Rightarrow> byte list \<Rightarrow> mbedtls_psa_hmac_operation_t \<Rightarrow> bool" where
  "hmac_at alg k m h \<longleftrightarrow> hm_alg h = alg \<and> hop_at alg (map (\<lambda>b. b XOR 0x36) (key0 alg k) @ m) (hm_hash_ctx h) \<and>
    take (unat (PSA_HASH_BLOCK_LENGTH alg)) (hm_opad h) = map (\<lambda>b. b XOR 0x5C) (key0 alg k)"

lemma sha_blocks:
  assumes "sha_supported alg"
  shows "\<not> PSA_HASH_BLOCK_LENGTH alg > 128" "\<not> PSA_HASH_BLOCK_LENGTH alg < PSA_HASH_LENGTH alg"
    "unat (PSA_HASH_BLOCK_LENGTH alg) \<le> 128" "length (psa_digest alg m) \<le> unat (PSA_HASH_BLOCK_LENGTH alg)"
    "0 < PSA_HASH_BLOCK_LENGTH alg"
  using assms
  by (auto simp: sha_supported_def psa_digest_def length_digests PSA_HASH_LENGTH_def PSA_HASH_BLOCK_LENGTH_def
      PSA_ALG_HMAC_GET_HASH_def)

lemma xor_pads: "((b :: byte) XOR 0x36) XOR 0x6A = b XOR 0x5C"
  by (simp add: xor.assoc)

lemma psa_hmac_setup_delivers:
  assumes "sha_supported alg" "length key < 2 ^ 32" "hm_hash_ctx h = None" "length (hm_opad h) = 128"
  shows "delivers (psa_hmac_setup_internal h key alg) (hmac_at alg key [])"
proof -
  let ?B = "unat (PSA_HASH_BLOCK_LENGTH alg)"
  note b = sha_blocks [OF assms(1)]
  obtain op where op: "psa_hash_setup None alg = (PSA_SUCCESS, op)" "hop_at alg [] op"
    using setup_at [OF assms(1)] .
  define K where "K = (if length key > ?B then psa_digest alg key else key)"
  have K: "length K \<le> ?B" using b(4) by (simp add: K_def)
  have k0: "key0 alg key = K @ replicate (?B - length K) 0" by (simp add: hmac_key0_def K_def Let_def)
  have reduced: "delivers (if length key > ?B then do {
               (status, out, key_length) \<leftarrow> try_hash_compute alg key 128;
               ret (status, take (unat key_length) out)
             }
             else ret (PSA_SUCCESS, key)) (\<lambda>ipad. ipad = K)"
    using compute_delivers [OF assms(1,2)]
    by (auto intro!: delivers_bind [where R = "\<lambda>(out, len). take (unat len) out = psa_digest alg key"] delivers_ret fails_ret
        simp: K_def)
  let ?pad = "map (\<lambda>b. b XOR 0x36) K @ replicate (?B - length K) 0x36"
  have outer: "take ?B (put (put (hm_opad h) 0 (map (\<lambda>b. b XOR 0x36 XOR 0x5C) (map (\<lambda>b. b XOR 0x36) K))) (length K)
      (replicate (?B - length K) 0x5C)) = map (\<lambda>b. b XOR 0x5C) (key0 alg key)"
    using K b(3) assms(4) by (simp add: put_def k0 comp_def xor_pads)
  have "length ?pad < 2 ^ 32"
    using K b(3) by simp
  from update_delivers [OF op(2) this]
  have upd: "delivers (try_hash_update op ?pad) (hop_at alg (map (\<lambda>b. b XOR 0x36) (key0 alg key)))"
    by (simp add: k0)
  have step: "delivers (try_hash_update op ?pad \<bind> (\<lambda>(status, ctx). ret (status, g\<lparr>hm_hash_ctx := ctx\<rparr>))) (hmac_at alg key [])"
    if "hm_alg g = alg" "take ?B (hm_opad g) = map (\<lambda>b. b XOR 0x5C) (key0 alg key)" for g
    by (rule delivers_bind [OF upd]) (use that in \<open>auto intro!: delivers_ret fails_ret simp: hmac_at_def\<close>)
  show ?thesis
    unfolding psa_hmac_setup_internal_def Let_def if_not_P [OF b(1)] if_not_P [OF b(2)]
  proof (rule delivers_bind [OF reduced], goal_cases)
    case (1 ipad)
    then show ?case
      using outer op(1) assms(3) by (simp del: map_map) (rule step; simp)
  next
    case (2 st x)
    then show ?case by (simp add: fails_ret)
  qed
qed

lemma psa_hmac_update_delivers:
  assumes "hmac_at alg k m h" "length d < 2 ^ 32"
  shows "delivers (psa_hmac_update_internal h d) (hmac_at alg k (m @ d))"
proof -
  have "hop_at alg (map (\<lambda>b. b XOR 0x36) (key0 alg k) @ m) (hm_hash_ctx h)"
    using assms(1) by (simp add: hmac_at_def)
  from update_delivers [OF this assms(2)] show ?thesis
    unfolding psa_hmac_update_internal_def
    by (rule delivers_bind) (use assms(1) in \<open>auto intro!: delivers_ret fails_ret simp: hmac_at_def\<close>)
qed

lemma psa_hmac_digests:
  "psa_hmac psa_digest alg k m =
    psa_digest alg (map (\<lambda>b. b XOR 0x5C) (key0 alg k) @ psa_digest alg (map (\<lambda>b. b XOR 0x36) (key0 alg k) @ m))"
  by (simp add: psa_hmac_def fips_hmac_def)

lemma psa_hmac_finish_delivers:
  assumes at: "hmac_at alg k m h"
  shows "delivers (psa_hmac_finish_internal h (PSA_HASH_LENGTH alg)) (\<lambda>(h', mac). mac = psa_hmac psa_digest alg k m)"
proof -
  let ?inner = "map (\<lambda>b. b XOR 0x36) (key0 alg k) @ m" and ?outer = "map (\<lambda>b. b XOR 0x5C) (key0 alg k)"
  have s: "sha_supported alg" and h: "hm_alg h = alg" "hop_at alg ?inner (hm_hash_ctx h)"
      "take (unat (PSA_HASH_BLOCK_LENGTH alg)) (hm_opad h) = ?outer"
    using at by (simp_all add: hmac_at_def hop_at_def)
  obtain op where op: "psa_hash_setup None alg = (PSA_SUCCESS, op)" "hop_at alg [] op"
    using setup_at [OF s] .
  have small: "length (psa_digest alg x) \<le> 64" for x
    using psa_digest_size [OF s, of x] hash_length_64 [OF s] by simp
  have "length ?outer < 2 ^ 32"
    using sha_blocks(3,4) [OF s] by (simp add: length_hmac_key0)
  from update_delivers [OF op(2) this] have upd1: "delivers (try_hash_update op ?outer) (hop_at alg ?outer)" by simp
  have upd2: "delivers (try_hash_update ctx (psa_digest alg ?inner)) (hop_at alg (?outer @ psa_digest alg ?inner))"
    if "hop_at alg ?outer ctx" for ctx
    by (rule update_delivers [OF that]) (use small [of ?inner] in simp)
  have fin: "delivers (try_hash_finish ctx 64)
      (\<lambda>(c, out, n). take (unat (PSA_HASH_LENGTH alg)) out = psa_hmac psa_digest alg k m)"
    if "hop_at alg (?outer @ psa_digest alg ?inner) ctx" for ctx
    by (rule delivers_weaken [OF finish_delivers [OF that]])
      (auto simp: digest_out_def psa_hmac_digests psa_digest_size [OF s])
  show ?thesis
    unfolding psa_hmac_finish_internal_def Let_def h(1,3)
    by (rule delivers_bind [OF finish_delivers [OF h(2)]])
      (auto simp: digest_out_def op(1) psa_digest_size [OF s]
        intro!: delivers_bind [OF upd1] delivers_bind [OF upd2] delivers_bind [OF fin] delivers_ret fails_ret)
qed

text \<open>The driver.\<close>

definition driver_at :: "psa_algorithm_t \<Rightarrow> byte list \<Rightarrow> byte list \<Rightarrow> mbedtls_psa_mac_operation_t \<Rightarrow> bool" where
  "driver_at alg k m d \<longleftrightarrow> dm_alg d = PSA_ALG_HMAC alg \<and> hmac_at alg k m (dm_hmac d)"

lemma hmac_algs:
  assumes "sha_supported alg"
  shows "PSA_ALG_IS_HMAC (PSA_ALG_HMAC alg)" "PSA_ALG_HMAC_GET_HASH (PSA_ALG_HMAC alg) = alg" "PSA_ALG_HMAC alg \<noteq> 0"
    "PSA_ALG_IS_MAC (PSA_ALG_HMAC alg)" "PSA_MAC_LENGTH t n (PSA_ALG_HMAC alg) = PSA_HASH_LENGTH alg"
    "PSA_ALG_FULL_LENGTH_MAC (PSA_ALG_HMAC alg) = PSA_ALG_HMAC alg"
  using assms
  by (auto simp: sha_supported_def PSA_ALG_IS_HMAC_def PSA_ALG_HMAC_def PSA_ALG_HMAC_GET_HASH_def PSA_ALG_IS_MAC_def
      PSA_MAC_LENGTH_def PSA_ALG_FULL_LENGTH_MAC_def)

lemma driver_setup_delivers:
  assumes "sha_supported alg" "length key < 2 ^ 32"
  shows "delivers (mbedtls_psa_mac_sign_setup zero_mac_op key (PSA_ALG_HMAC alg)) (driver_at alg key [])"
proof -
  let ?op = "zero_mac_op\<lparr>dm_alg := PSA_ALG_HMAC alg, dm_hmac := zero_hmac_op\<lparr>hm_alg := 0\<rparr>\<rparr>"
  have init: "mac_init zero_mac_op (PSA_ALG_HMAC alg) = (PSA_SUCCESS, ?op)"
    using hmac_algs [OF assms(1)] by (simp add: mac_init_def zero_mac_op_def)
  have hm: "delivers (psa_hmac_setup_internal (zero_hmac_op\<lparr>hm_alg := 0\<rparr>) key alg) (hmac_at alg key [])"
    by (rule psa_hmac_setup_delivers [OF assms]) (simp_all add: zero_hmac_op_def)
  show ?thesis
    using hmac_algs [OF assms(1)] unfolding mbedtls_psa_mac_sign_setup_def init
    by (simp add: zero_mac_op_def, intro delivers_bind [OF hm]) (auto intro!: delivers_ret fails_ret simp: driver_at_def)
qed

lemma driver_update_delivers:
  assumes "driver_at alg k m d" "length inp < 2 ^ 32"
  shows "delivers (mbedtls_psa_mac_update d inp) (driver_at alg k (m @ inp))"
proof -
  have d: "dm_alg d = PSA_ALG_HMAC alg" "sha_supported alg" and h: "hmac_at alg k m (dm_hmac d)"
    using assms(1) by (simp_all add: driver_at_def hmac_at_def hop_at_def)
  show ?thesis
    using d hmac_algs [OF d(2)] unfolding mbedtls_psa_mac_update_def
    by (auto simp: driver_at_def intro!: delivers_bind [OF psa_hmac_update_delivers [OF h assms(2)]] delivers_ret fails_ret)
qed

lemma driver_finish_delivers:
  assumes "driver_at alg k m d"
  shows "delivers (psa_mac_finish_internal d (PSA_HASH_LENGTH alg))
    (\<lambda>(d', mac). dm_alg d' = PSA_ALG_HMAC alg \<and> mac = psa_hmac psa_digest alg k m)"
proof -
  have d: "dm_alg d = PSA_ALG_HMAC alg" "sha_supported alg" and h: "hmac_at alg k m (dm_hmac d)"
    using assms by (simp_all add: driver_at_def hmac_at_def hop_at_def)
  show ?thesis
    using d hmac_algs [OF d(2)] unfolding psa_mac_finish_internal_def
    by (auto intro!: delivers_bind [OF psa_hmac_finish_delivers [OF h]] delivers_ret fails_ret)
qed

lemma driver_sign_finish_delivers:
  assumes "driver_at alg k m d"
  shows "delivers (mbedtls_psa_mac_sign_finish d (PSA_HASH_LENGTH alg))
    (\<lambda>(d', mac, len). dm_alg d' = PSA_ALG_HMAC alg \<and> mac = psa_hmac psa_digest alg k m \<and> len = Some (PSA_HASH_LENGTH alg))"
proof -
  have "dm_alg d \<noteq> 0"
    using assms hmac_algs(3) by (auto simp: driver_at_def hmac_at_def hop_at_def)
  then show ?thesis
    unfolding mbedtls_psa_mac_sign_finish_def
    by (auto intro!: delivers_bind [OF driver_finish_delivers [OF assms]] delivers_ret fails_ret)
qed

lemma driver_compute_delivers:
  assumes "sha_supported alg" "length key < 2 ^ 32" "length inp < 2 ^ 32"
  shows "delivers (mbedtls_psa_mac_compute key (PSA_ALG_HMAC alg) inp (PSA_HASH_LENGTH alg))
    (\<lambda>(mac, len). mac = psa_hmac psa_digest alg key inp \<and> len = Some (PSA_HASH_LENGTH alg))"
proof -
  have upd: "delivers (mbedtls_psa_mac_update d inp) (driver_at alg key inp)" if "driver_at alg key [] d" for d
    using driver_update_delivers [OF that assms(3)] by simp
  show ?thesis
    unfolding mbedtls_psa_mac_compute_def
    by (rule delivers_bind [OF driver_setup_delivers [OF assms(1,2)]])
      (cases "inp = []"; auto intro!: delivers_bind [OF upd] delivers_bind [OF driver_finish_delivers] delivers_ret fails_ret)+
qed

text \<open>The PSA functions.\<close>

definition mac_at :: "psa_algorithm_t \<Rightarrow> byte list \<Rightarrow> byte list \<Rightarrow> mop option \<Rightarrow> bool" where
  "mac_at alg k m op \<longleftrightarrow> (\<exists>x. op = Some x \<and> mo_is_sign x \<and> mo_mac_size x = ucast (PSA_HASH_LENGTH alg) \<and>
    driver_at alg k m (mo_ctx x))"

text \<open>What the key store must answer for HMAC over \<open>alg\<close>.\<close>

definition mac_key_usable :: "'b key_store \<Rightarrow> 'b \<Rightarrow> psa_key_id_t \<Rightarrow> psa_algorithm_t \<Rightarrow> bool" where
  "mac_key_usable ks b kid alg \<longleftrightarrow>
    lock_slot ks b kid PSA_KEY_USAGE_SIGN_MESSAGE (PSA_ALG_HMAC alg) = PSA_SUCCESS \<and>
    pa_type (slot_attr ks b kid) = PSA_KEY_TYPE_HMAC"

lemma mac_size_kept:
  assumes "sha_supported alg"
  shows "(ucast (ucast (PSA_HASH_LENGTH alg) :: 8 word) :: size_t) = PSA_HASH_LENGTH alg"
    "(ucast (PSA_HASH_LENGTH alg) :: 8 word) \<noteq> 0"
  using assms by (auto simp: sha_supported_def PSA_HASH_LENGTH_def PSA_ALG_HMAC_GET_HASH_def)

lemma finalize_hmac:
  assumes "sha_supported alg"
  shows "psa_mac_finalize_alg_and_key_validation (PSA_ALG_HMAC alg) attr =
    (if pa_type attr = PSA_KEY_TYPE_HMAC then (PSA_SUCCESS, ucast (PSA_HASH_LENGTH alg)) else (PSA_ERROR_INVALID_ARGUMENT, 0))"
proof -
  have "\<not> PSA_ALG_IS_BLOCK_CIPHER_MAC (PSA_ALG_HMAC alg)"
    using hmac_algs(1) [OF assms] by (simp add: PSA_ALG_IS_BLOCK_CIPHER_MAC_def PSA_ALG_IS_HMAC_def)
  moreover have "\<not> (ucast (PSA_HASH_LENGTH alg) :: 8 word) < 4" "\<not> 64 < (ucast (PSA_HASH_LENGTH alg) :: 8 word)"
    using assms by (auto simp: sha_supported_def PSA_HASH_LENGTH_def PSA_ALG_HMAC_GET_HASH_def)
  ultimately show ?thesis
    by (simp add: psa_mac_finalize_alg_and_key_validation_def psa_mac_key_can_do_def hmac_algs [OF assms] Let_def
        mac_size_kept [OF assms])
qed

lemma sign_setup_delivers:
  assumes "sha_supported alg" "length (slot_data ks b kid) < 2 ^ 32" "mac_key_usable ks b kid alg"
  shows "delivers (psa_mac_sign_setup ks b None kid (PSA_ALG_HMAC alg)) (mac_at alg (slot_data ks b kid) [])"
  using assms(3) unfolding psa_mac_sign_setup_def mac_key_usable_def Let_def
  by (auto simp: finalize_hmac [OF assms(1)] mac_at_def
      intro!: delivers_bind [OF driver_setup_delivers [OF assms(1,2)]] delivers_ret fails_ret)

lemma sign_setup_usable:
  assumes "sha_supported alg" "run_state (psa_mac_sign_setup ks b op kid (PSA_ALG_HMAC alg)) s = ((PSA_SUCCESS, op'), s')"
  shows "mac_key_usable ks b kid alg"
  using assms(2) by (auto simp: psa_mac_sign_setup_def finalize_hmac [OF assms(1)] mac_key_usable_def Let_def split: if_splits)

lemma mac_update_delivers:
  assumes "mac_at alg k m op" "length d < 2 ^ 32"
  shows "delivers (psa_mac_update op d) (mac_at alg k (m @ d))"
proof -
  obtain x where x: "op = Some x" "mo_is_sign x" "mo_mac_size x = ucast (PSA_HASH_LENGTH alg)" "driver_at alg k m (mo_ctx x)"
    using assms(1) by (auto simp: mac_at_def)
  show ?thesis
    using x(1-3) assms(1) unfolding psa_mac_update_def
    by (cases "d = []") (auto intro!: delivers_ret fails_ret delivers_try_local
        delivers_bind [OF driver_update_delivers [OF x(4) assms(2)]] simp: mac_at_def Let_def)
qed

text \<open>The bytes of a buffer that was filled and wiped behind them.\<close>

lemma wiped_tag:
  assumes "length mac = unat len" "unat len \<le> unat n"
  shows "take (unat len) (psa_wipe_tag_output_buffer (put (replicate (unat n) 0) 0 mac) PSA_SUCCESS n len) = mac"
  using assms by (auto simp: psa_wipe_tag_output_buffer_def put_def)

lemma hmac_length: "sha_supported alg \<Longrightarrow> length (psa_hmac psa_digest alg k m) = unat (PSA_HASH_LENGTH alg)"
  by (simp add: psa_hmac_digests psa_digest_size)

text \<open>A result that is the HMAC, with its length.\<close>

definition mac_out :: "psa_algorithm_t \<Rightarrow> byte list \<Rightarrow> byte list \<Rightarrow> byte list \<Rightarrow> size_t \<Rightarrow> bool" where
  "mac_out alg k m out len \<longleftrightarrow> take (length (psa_hmac psa_digest alg k m)) out = psa_hmac psa_digest alg k m \<and>
    len = of_nat (length (psa_hmac psa_digest alg k m))"

lemma mac_out_wiped:
  assumes "sha_supported alg" "unat (PSA_HASH_LENGTH alg) \<le> unat n"
  shows "mac_out alg k m (psa_wipe_tag_output_buffer (put (replicate (unat n) 0) 0 (psa_hmac psa_digest alg k m))
    PSA_SUCCESS n (PSA_HASH_LENGTH alg)) (PSA_HASH_LENGTH alg)"
  using wiped_tag [OF hmac_length [OF assms(1)] assms(2)] by (simp add: mac_out_def hmac_length [OF assms(1)])

lemma sign_finish_room:
  assumes "mac_at alg k m op" "run_state (psa_mac_sign_finish op n) s = ((PSA_SUCCESS, r), s')"
  shows "unat (PSA_HASH_LENGTH alg) \<le> unat n"
proof -
  obtain x where x: "op = Some x" "mo_is_sign x" "mo_mac_size x = ucast (PSA_HASH_LENGTH alg)" "sha_supported alg"
    using assms(1) by (auto simp: mac_at_def driver_at_def hmac_at_def hop_at_def)
  show ?thesis
    using assms(2) x(1-3) mac_size_kept [OF x(4)]
    by (auto simp: psa_mac_sign_finish_def try_local_def Let_def word_le_nat_alt [symmetric] not_less
        split: if_splits prod.splits)
qed

lemma sign_finish_delivers:
  assumes "mac_at alg k m op" "unat (PSA_HASH_LENGTH alg) \<le> unat n"
  shows "delivers (psa_mac_sign_finish op n) (\<lambda>(op', out, len). mac_out alg k m out len)"
proof -
  obtain x where x: "op = Some x" "mo_is_sign x" "mo_mac_size x = ucast (PSA_HASH_LENGTH alg)"
      "driver_at alg k m (mo_ctx x)" "sha_supported alg"
    using assms(1) by (auto simp: mac_at_def driver_at_def hmac_at_def hop_at_def)
  have n: "\<not> n < PSA_HASH_LENGTH alg" using assms(2) by (simp add: word_less_nat_alt)
  have abort: "psa_mac_abort (Some (x\<lparr>mo_ctx := c\<rparr>)) = (PSA_SUCCESS, None)" if "dm_alg c = PSA_ALG_HMAC alg" for c
    using that hmac_algs(1,3) [OF x(5)] by (simp add: psa_mac_abort_def mbedtls_psa_mac_abort_def)
  show ?thesis
    using x(1-3) n mac_size_kept [OF x(5)] unfolding psa_mac_sign_finish_def Let_def
    by (auto intro!: delivers_try_local delivers_bind [OF driver_sign_finish_delivers [OF x(4)]] delivers_ret fails_ret
        mac_out_wiped [OF x(5) assms(2)] simp: abort case_prod_unfold)
qed

lemma compute_usable:
  assumes "sha_supported alg" "run_state (psa_mac_compute ks b kid (PSA_ALG_HMAC alg) d n) s = ((PSA_SUCCESS, r), s')"
  shows "mac_key_usable ks b kid alg \<and> unat (PSA_HASH_LENGTH alg) \<le> unat n"
  using assms(2) mac_size_kept [OF assms(1)]
  by (auto simp: psa_mac_compute_def psa_mac_compute_internal_def try_local_def finalize_hmac [OF assms(1)]
      mac_key_usable_def Let_def word_le_nat_alt [symmetric] not_less split: if_splits prod.splits)

lemma mac_compute_delivers:
  assumes "sha_supported alg" "mac_key_usable ks b kid alg" "unat (PSA_HASH_LENGTH alg) \<le> unat n"
    and "length (slot_data ks b kid) < 2 ^ 32" "length d < 2 ^ 32"
  shows "delivers (psa_mac_compute ks b kid (PSA_ALG_HMAC alg) d n)
    (\<lambda>(out, len). mac_out alg (slot_data ks b kid) d out len)"
proof -
  have n: "\<not> n < PSA_HASH_LENGTH alg" using assms(3) by (simp add: word_less_nat_alt)
  show ?thesis
    using assms(2) n mac_size_kept [OF assms(1)]
    unfolding psa_mac_compute_def psa_mac_compute_internal_def Let_def mac_key_usable_def
    by (auto intro!: delivers_try_local delivers_bind [OF driver_compute_delivers [OF assms(1,4,5)]] delivers_ret fails_ret
        mac_out_wiped [OF assms(1,3)] simp: finalize_hmac [OF assms(1)] case_prod_unfold)
qed

section \<open>The vendored calls keep the contract\<close>

definition vendored_keyed :: "psa_algorithm_t \<Rightarrow> byte list \<Rightarrow> (mop + 'p) option \<Rightarrow> byte list \<Rightarrow> bool" where
  "vendored_keyed alg k op m \<longleftrightarrow> mac_at alg k m (top_part op)"

definition vendored_mac_key :: "'b key_store \<Rightarrow> bool list \<times> 'b \<Rightarrow> psa_key_id_t \<Rightarrow> byte list" where
  "vendored_mac_key ks b kid = slot_data ks (snd b) kid"

definition vendored_usable :: "'b key_store \<Rightarrow> bool list \<times> 'b \<Rightarrow> psa_key_id_t \<Rightarrow> psa_algorithm_t \<Rightarrow> bool" where
  "vendored_usable ks b kid alg \<longleftrightarrow> mac_key_usable ks (snd b) kid alg"

text \<open>Both allocators answer: that of the MAC calls and that of the digest calls below.\<close>

definition vendored_mac_able :: "bool list \<times> bool list \<times> 'b \<Rightarrow> bool" where
  "vendored_mac_able b \<longleftrightarrow> list_all (\<lambda>x. x) (fst b) \<and> vendored_able (snd b)"

lemmas mac_runs = vendored_mac_def vendored_keyed_def vendored_mac_key_def vendored_usable_def vendored_mac_able_def
  case_prod_unfold

lemma delivers_run:
  assumes "delivers c R"
  shows "fst (fst (run_state c s)) = PSA_SUCCESS \<Longrightarrow> R (snd (fst (run_state c s)))"
    and "plenty s \<Longrightarrow> fst (fst (run_state c s)) = PSA_SUCCESS \<and> plenty (snd (run_state c s))"
  using assms unfolding delivers_def by (metis prod.collapse)+

lemma run_failing: "fst (fst (run_state c s)) = PSA_SUCCESS \<Longrightarrow>
    run_state c s = ((PSA_SUCCESS, snd (fst (run_state c s))), snd (run_state c s))"
  by (metis prod.collapse)

lemma vendored_sign_setup:
  assumes "sha_supported alg"
    and "r_status (fst (vendored_mac ks Q (MAC (Mac_sign_setup kid (PSA_ALG_HMAC alg))) None b)) = PSA_SUCCESS"
    and "length (vendored_mac_key ks b kid) < 2 ^ 32"
  shows "vendored_keyed alg (vendored_mac_key ks b kid)
    (r_op (fst (vendored_mac ks Q (MAC (Mac_sign_setup kid (PSA_ALG_HMAC alg))) None b))) []"
proof -
  let ?r = "run_state (psa_mac_sign_setup ks (snd b) None kid (PSA_ALG_HMAC alg)) (fst b, False)"
  have ok: "fst (fst ?r) = PSA_SUCCESS" using assms(2) by (simp add: mac_runs)
  from delivers_run(1) [OF sign_setup_delivers [OF assms(1) _ sign_setup_usable [OF assms(1) run_failing [OF ok]]] ok] assms(3)
  show ?thesis by (simp add: mac_runs)
qed

lemma vendored_mac_update:
  assumes "vendored_keyed alg k op m" "length d < 2 ^ 32"
    and "r_status (fst (vendored_mac ks Q (MAC (Mac_update d)) op b)) = PSA_SUCCESS"
  shows "vendored_keyed alg k (r_op (fst (vendored_mac ks Q (MAC (Mac_update d)) op b))) (m @ d)"
  using delivers_run(1) [OF mac_update_delivers [OF assms(1) [unfolded vendored_keyed_def] assms(2)], of "(fst b, False)"] assms(3)
  by (simp add: mac_runs)

lemma vendored_sign_finish:
  assumes "vendored_keyed alg k op m"
    and "r_status (fst (vendored_mac ks Q (MAC (Mac_sign_finish n)) op b)) = PSA_SUCCESS"
  shows "length (psa_hmac psa_digest alg k m) \<le> unat n \<and>
    take (length (psa_hmac psa_digest alg k m)) (r_out (fst (vendored_mac ks Q (MAC (Mac_sign_finish n)) op b))) =
      psa_hmac psa_digest alg k m \<and>
    r_len (fst (vendored_mac ks Q (MAC (Mac_sign_finish n)) op b)) = of_nat (length (psa_hmac psa_digest alg k m))"
proof -
  let ?r = "run_state (psa_mac_sign_finish (top_part op) n) (fst b, False)"
  have at: "mac_at alg k m (top_part op)" "sha_supported alg"
    using assms(1) by (auto simp: vendored_keyed_def mac_at_def driver_at_def hmac_at_def hop_at_def)
  have ok: "fst (fst ?r) = PSA_SUCCESS" using assms(2) by (simp add: mac_runs)
  note room = sign_finish_room [OF at(1) run_failing [OF ok]]
  from delivers_run(1) [OF sign_finish_delivers [OF at(1) room] ok] room
  show ?thesis by (simp add: mac_runs mac_out_def hmac_length [OF at(2)])
qed

lemma vendored_mac_compute:
  assumes "sha_supported alg" "length d < 2 ^ 32" "length (vendored_mac_key ks b kid) < 2 ^ 32"
    and "r_status (fst (vendored_mac ks Q (MAC (Mac_compute kid (PSA_ALG_HMAC alg) d n)) None b)) = PSA_SUCCESS"
  defines "D \<equiv> psa_hmac psa_digest alg (vendored_mac_key ks b kid) d"
  shows "length D \<le> unat n \<and>
    take (length D) (r_out (fst (vendored_mac ks Q (MAC (Mac_compute kid (PSA_ALG_HMAC alg) d n)) None b))) = D \<and>
    r_len (fst (vendored_mac ks Q (MAC (Mac_compute kid (PSA_ALG_HMAC alg) d n)) None b)) = of_nat (length D)"
proof -
  let ?r = "run_state (psa_mac_compute ks (snd b) kid (PSA_ALG_HMAC alg) d n) (fst b, False)"
  have ok: "fst (fst ?r) = PSA_SUCCESS" using assms(4) by (simp add: mac_runs)
  note u = compute_usable [OF assms(1) run_failing [OF ok]]
  from delivers_run(1) [OF mac_compute_delivers [OF assms(1) conjunct1 [OF u] conjunct2 [OF u] _ assms(2)] ok] u assms(3)
  show ?thesis by (simp add: D_def mac_runs mac_out_def hmac_length [OF assms(1)])
qed

lemma vendored_reduce:
  assumes "length d < 2 ^ 32" "r_status (fst (vendored_mac ks (vendored_hash Q) (HASH (Hash_compute alg d n)) None b)) = PSA_SUCCESS"
  shows "length (psa_digest alg d) \<le> unat n \<and>
    take (length (psa_digest alg d)) (r_out (fst (vendored_mac ks (vendored_hash Q) (HASH (Hash_compute alg d n)) None b))) =
      psa_digest alg d \<and>
    r_len (fst (vendored_mac ks (vendored_hash Q) (HASH (Hash_compute alg d n)) None b)) = of_nat (length (psa_digest alg d))"
  using vendored_compute [OF assms(1), of Q alg n None "snd b"] assms(2) by (simp add: mac_runs)

lemma available_sha: "zuc_int_digest_available a \<Longrightarrow> sha_supported (zuc_int_psa_hash a)"
  using psa_hash_sizes by blast

interpretation vendored_mac: psa_mac_contract "vendored_mac ks (vendored_hash Q)" psa_digest "vendored_mac_key ks"
  vendored_keyed sha_supported "2 ^ 32" for ks Q
  by unfold_locales
    ((rule vendored_sign_setup vendored_mac_update vendored_sign_finish vendored_mac_compute vendored_reduce available_sha
       conjI sha_blocks(4,5) order_refl; assumption?)+)

lemma vendored_mac_setup_ok:
  assumes "sha_supported alg" "vendored_mac_able b" "vendored_usable ks b kid alg" "length (vendored_mac_key ks b kid) < 2 ^ 32"
  shows "r_status (fst (vendored_mac ks (vendored_hash Q) (MAC (Mac_sign_setup kid (PSA_ALG_HMAC alg))) None b)) = PSA_SUCCESS \<and>
    vendored_mac_able (snd (vendored_mac ks (vendored_hash Q) (MAC (Mac_sign_setup kid (PSA_ALG_HMAC alg))) None b))"
  using delivers_run(2) [OF sign_setup_delivers [OF assms(1)], of ks "snd b" kid "(fst b, False)"] assms(2-4)
  by (simp add: mac_runs)

lemma vendored_mac_update_ok:
  assumes "vendored_keyed alg k op m" "length d < 2 ^ 32" "vendored_mac_able b"
  shows "r_status (fst (vendored_mac ks (vendored_hash Q) (MAC (Mac_update d)) op b)) = PSA_SUCCESS \<and>
    vendored_mac_able (snd (vendored_mac ks (vendored_hash Q) (MAC (Mac_update d)) op b))"
  using delivers_run(2) [OF mac_update_delivers [OF assms(1) [unfolded vendored_keyed_def] assms(2)], of "(fst b, False)"] assms(3)
  by (simp add: mac_runs)

lemma vendored_mac_finish_ok:
  assumes "vendored_keyed alg k op m" "vendored_mac_able b" "length (psa_hmac psa_digest alg k m) \<le> unat n"
  shows "r_status (fst (vendored_mac ks (vendored_hash Q) (MAC (Mac_sign_finish n)) op b)) = PSA_SUCCESS"
proof -
  have at: "mac_at alg k m (top_part op)" "sha_supported alg"
    using assms(1) by (auto simp: vendored_keyed_def mac_at_def driver_at_def hmac_at_def hop_at_def)
  show ?thesis
    using delivers_run(2) [OF sign_finish_delivers [OF at(1)], of n "(fst b, False)"] assms(2,3) hmac_length [OF at(2), of k m]
    by (simp add: mac_runs)
qed

lemma vendored_reduce_ok:
  assumes "sha_supported alg" "vendored_mac_able b" "length (psa_digest alg d) \<le> unat n"
  shows "r_status (fst (vendored_mac ks (vendored_hash Q) (HASH (Hash_compute alg d n)) None b)) = PSA_SUCCESS"
proof -
  obtain st out len f as' where c: "psa_hash_compute (fst (snd b)) alg d n = (st, out, len, f, as')"
    by (metis surj_pair)
  have "list_all (\<lambda>x. x) (fst (snd b))" using assms(2) by (simp add: vendored_mac_able_def)
  from psa_hash_compute_able [OF this assms(1,3) c] c show ?thesis
    by (simp add: mac_runs vendored_hash_def)
qed

lemma vendored_reduce_able:
  assumes "vendored_mac_able b"
  shows "vendored_mac_able (snd (vendored_mac ks (vendored_hash Q) (HASH (Hash_compute alg d n)) None b))"
  using vendored_hash_able [of "snd b" Q "Hash_compute alg d n" None] assms by (simp add: mac_runs)

lemma sizes_fit: "zuc_int_digest_available a \<Longrightarrow>
    length (psa_digest (zuc_int_psa_hash a) m) = unat (zuc_alg_size a) \<and> unat (zuc_alg_size a) \<le> 64"
  using psa_hash_sizes [of a m] psa_digest_size [of "zuc_int_psa_hash a" m] hash_length_64 [of "zuc_int_psa_hash a"] by simp

interpretation vendored_mac_total: psa_mac_total "vendored_mac ks (vendored_hash Q)" psa_digest "vendored_mac_key ks"
  vendored_keyed sha_supported "2 ^ 32" vendored_mac_able "vendored_usable ks" for ks Q
  by unfold_locales
    (rule vendored_mac_setup_ok vendored_mac_update_ok vendored_mac_finish_ok vendored_reduce_ok vendored_reduce_able
      sizes_fit; assumption)+

section \<open>Properties\<close>

text \<open>
  C3. \<^verbatim>\<open>zucrypt_hmac\<close> over the vendored calls is HMAC: whenever it returns status 0, its value is a raw
  vector with the FIPS 198-1 HMAC of the bytes of its first argument under the key bytes of its second, for
  the digest it was given by name, whatever the length of the data and however the adapter and the backend
  each shorten and pad the key. The key is shorter than 4 GiB, the length up to which the vendored digests
  count right in one step. The key store is a parameter, about which only that an imported key has the
  imported bytes is used.
\<close>

theorem zucrypt_hmac_is_hmac:
  assumes "run_state (zucrypt_hmac (vendored_mac ks (vendored_hash Q)) (RAWSXP p n) (RAWSXP kp kn) (STRSXP [name])) s =
      (Returned (VECSXP [(''status'', INTSXP [0]), (''value'', v)]), s')"
    and "imports_keys (vendored_mac ks (vendored_hash Q)) (vendored_mac_key ks)" and "unat kn < 2 ^ 32"
  shows "\<exists>out. v = RAWSXP out (zuc_alg_size (zuc_alg_by_name (Some name))) \<and>
    mem_read (w_mem (rs_world s')) out (zuc_alg_size (zuc_alg_by_name (Some name))) =
      psa_hmac psa_digest (zuc_int_psa_hash (zuc_alg_by_name (Some name)))
        (mem_read (w_mem (rs_world s)) kp kn) (mem_read (w_mem (rs_world s)) p n)"
  by (rule vendored_mac.zucrypt_hmac_value [OF assms])

text \<open>
  C16. An HMAC stream returns the HMAC, under the key it was created with, of everything it was fed, however
  the input was cut into updates and whatever R did to its memory in between, the key vector included; the
  key and each single update are shorter than 4 GiB.
\<close>

theorem zucrypt_hmac_stream_is_hmac:
  assumes "run_state (zucrypt_hmac_stream_new (vendored_mac ks (vendored_hash Q)) (RAWSXP kp kn) (STRSXP [name])) s =
      (Returned (VECSXP [(''status'', INTSXP [0]), (''value'', EXTPTRSXP q)]), s0)"
    and "imports_keys (vendored_mac ks (vendored_hash Q)) (vendored_mac_key ks)" and "unat kn < 2 ^ 32"
    and "feeding (vendored_mac ks (vendored_hash Q)) q s0 m s1"
    and "run_state (zucrypt_stream_finish (vendored_mac ks (vendored_hash Q)) (EXTPTRSXP q)) s1 =
      (Returned (VECSXP [(''status'', INTSXP [0]), (''value'', v)]), s2)"
  shows "\<exists>out. v = RAWSXP out (zuc_alg_size (zuc_alg_by_name (Some name))) \<and>
    mem_read (w_mem (rs_world s2)) out (zuc_alg_size (zuc_alg_by_name (Some name))) =
      psa_hmac psa_digest (zuc_int_psa_hash (zuc_alg_by_name (Some name))) (mem_read (w_mem (rs_world s)) kp kn) m"
  by (rule vendored_mac.hmac_stream_value [OF assms])

text \<open>A store with one HMAC key, and sessions with room for the calls.\<close>

definition hmac_key_store :: "(bool list \<times> byte list) key_store" where
  "hmac_key_store = \<lparr>lock_slot = (\<lambda>b kid usage alg. PSA_SUCCESS),
     slot_attr = (\<lambda>b kid. psa_key_attributes_init\<lparr>pa_type := PSA_KEY_TYPE_HMAC\<rparr>),
     slot_data = (\<lambda>b kid. snd b)\<rparr>"

abbreviation hmac_backend :: "(bool list \<times> bool list \<times> byte list, mop + unit vop) psa" where
  "hmac_backend \<equiv> vendored_mac hmac_key_store (vendored_hash store_backend)"

definition hmac_session :: "ptr list \<Rightarrow> (bool list \<times> bool list \<times> byte list, mop + unit vop) session" where
  "hmac_session allocs =
    \<lparr>rs_world = (fresh_world ([], [], []) [4096])\<lparr>w_mem := (\<lambda>a. ucast a)\<rparr>, rs_ptrs = Map.empty,
     rs_allocs = allocs, rs_interrupts = []\<rparr>"

lemma hmac_store_imports: "imports_keys hmac_backend (vendored_mac_key hmac_key_store)"
  by (simp add: imports_keys_def vendored_mac_def vendored_hash_def store_backend_def vendored_mac_key_def
      hmac_key_store_def scripted_def case_prod_unfold)

lemma hmac_store_takes: "takes_hmac_keys hmac_backend vendored_mac_able (vendored_usable hmac_key_store) alg"
  by (simp add: takes_hmac_keys_def mac_runs vendored_hash_def store_backend_def hmac_key_store_def scripted_def
      mac_key_usable_def)

lemma hmac_demo_runs:
  "\<exists>s'. run_state (zucrypt_hmac hmac_backend (RAWSXP 8192 3000000) (RAWSXP 16384 200) (STRSXP [''sha256'']))
      (hmac_session [100, 101, 102, 103]) = (Returned (VECSXP [(''status'', INTSXP [0]), (''value'', RAWSXP 102 32)]), s')"
  using vendored_mac_total.zucrypt_hmac_succeeds [where Q = store_backend and s = "hmac_session [100, 101, 102, 103]",
      OF _ _ _ _ _ _ _ _ _ _ _ _ digest_session_ok(8) hmac_store_imports hmac_store_takes _ _ digest_session_ok(7) [symmetric],
      of 4096 "[]" 100 101 102 103 "[]" 8192 3000000 16384 200]
  by (simp add: hmac_session_def vendored_mac_able_def no_wrap_def digest_session_ok(9))

lemma sha256_hmac: "psa_hmac psa_digest (zuc_int_psa_hash ZUC_ALG_SHA256) = fips_hmac sha256_digest 64"
  by (simp add: psa_hmac_def zuc_int_psa_hash_def PSA_HASH_BLOCK_LENGTH_def PSA_ALG_HMAC_GET_HASH_def psa_digest_def [abs_def])

theorem zucrypt_hmac_is_hmac_witness:
  "\<exists>s'. run_state (zucrypt_hmac hmac_backend (RAWSXP 8192 3000000) (RAWSXP 16384 200) (STRSXP [''sha256'']))
      (hmac_session [100, 101, 102, 103]) = (Returned (VECSXP [(''status'', INTSXP [0]), (''value'', RAWSXP 102 32)]), s') \<and>
    mem_read (w_mem (rs_world s')) 102 32 =
      fips_hmac sha256_digest 64 (mem_read (\<lambda>a. ucast a) 16384 200) (mem_read (\<lambda>a. ucast a) 8192 3000000)"
proof -
  obtain s' where run: "run_state (zucrypt_hmac hmac_backend (RAWSXP 8192 3000000) (RAWSXP 16384 200) (STRSXP [''sha256'']))
      (hmac_session [100, 101, 102, 103]) = (Returned (VECSXP [(''status'', INTSXP [0]), (''value'', RAWSXP 102 32)]), s')"
    using hmac_demo_runs by blast
  show ?thesis
    using zucrypt_hmac_is_hmac [OF run hmac_store_imports] run by (auto simp: digest_session_ok(7,9) hmac_session_def sha256_hmac)
qed

interpretation sha256_hmac_stream: absorbing_stream_total "zuc_hmac_update (vendored_mac ks (vendored_hash Q))"
  "zuc_hmac_finish (vendored_mac ks (vendored_hash Q))" "zuc_hmac_free (vendored_mac ks (vendored_hash Q))"
  "\<lambda>w h. hmac_holds vendored_keyed w h ZUC_ALG_SHA256 k" "psa_hmac psa_digest (zuc_int_psa_hash ZUC_ALG_SHA256) k" "2 ^ 32"
  "\<lambda>w. vendored_mac_able (w_psa w)" "zuc_alg_size ZUC_ALG_SHA256" "vendored_mac ks (vendored_hash Q)" ZUCRYPT_STREAM_HMAC
  ZUC_ALG_SHA256 for ks Q k
  by (rule vendored_mac_total.absorbs_total [OF digest_session_ok(8)])

lemma hmac_stream_runs:
  "\<exists>s0 m s1 s2. run_state (zucrypt_hmac_stream_new hmac_backend (RAWSXP 16384 20) (STRSXP [''sha256'']))
      (hmac_session [100, 101, 102, 103, 104, 105, 106]) =
      (Returned (VECSXP [(''status'', INTSXP [0]), (''value'', EXTPTRSXP 101)]), s0) \<and>
    feeding hmac_backend 101 s0 m s1 \<and> m = mem_read (\<lambda>a. ucast a) 8192 1000 \<and>
    run_state (zucrypt_stream_finish hmac_backend (EXTPTRSXP 101)) s1 =
      (Returned (VECSXP [(''status'', INTSXP [0]), (''value'', RAWSXP 105 32)]), s2)"
proof -
  let ?s = "hmac_session [100, 101, 102, 103, 104, 105, 106]"
  note z = digest_session_ok(7-9)
  have "\<exists>s'. run_state (zucrypt_hmac_stream_new hmac_backend (RAWSXP 16384 20) (STRSXP [''sha256''])) ?s =
      (Returned (VECSXP [(''status'', INTSXP [0]), (''value'', EXTPTRSXP 101)]), s') \<and>
    rs_allocs s' = [104, 105, 106] \<and> vendored_mac_able (w_psa (rs_world s')) \<and> w_mem (rs_world s') = w_mem (rs_world ?s)"
    by (rule vendored_mac_total.stream_new_succeeds [where a = 100 and f = 102 and l = 103 and h = 4096 and hs = "[]",
          OF _ _ _ _ _ _ _ _ _ z(2) hmac_store_takes _ _ hmac_store_imports z(1) [symmetric]])
      (simp_all add: hmac_session_def vendored_mac_able_def)
  then obtain s0 where s0: "run_state (zucrypt_hmac_stream_new hmac_backend (RAWSXP 16384 20) (STRSXP [''sha256''])) ?s =
      (Returned (VECSXP [(''status'', INTSXP [0]), (''value'', EXTPTRSXP 101)]), s0)"
    "rs_allocs s0 = [104, 105, 106]" "vendored_mac_able (w_psa (rs_world s0))" "w_mem (rs_world s0) = w_mem (rs_world ?s)"
    by blast
  let ?s1 = "s0\<lparr>rs_world := (rs_world s0)\<lparr>w_mem := w_mem (rs_world s0)\<rparr>, rs_allocs := [104, 105, 106], rs_interrupts := []\<rparr>"
  note new = conjunct1 [OF vendored_mac.stream_new_holds [OF s0(1) hmac_store_imports, unfolded z(1)]]
  have fed1: "feeding hmac_backend 101 s0 [] ?s1" by (intro feeding.elsewhere feeding.created)
  note has1 = vendored_mac.absorbs.feeding_holds [OF fed1 new]
  obtain s2 where s2: "run_state (zucrypt_stream_update hmac_backend (EXTPTRSXP 101) (RAWSXP 8192 1000)) ?s1 = (Returned (INTSXP [0]), s2)"
    "rs_allocs s2 = [105, 106]" "vendored_mac_able (w_psa (rs_world s2))"
    using sha256_hmac_stream.stream_update_succeeds [OF has1, of 104 "[105, 106]" 8192 1000] s0(3) by auto
  have fed2: "feeding hmac_backend 101 s0 ([] @ mem_read (w_mem (rs_world ?s1)) 8192 1000) s2"
    by (rule feeding.fed [OF fed1 _ s2(1)]) simp
  obtain s3 where "run_state (zucrypt_stream_finish hmac_backend (EXTPTRSXP 101)) s2 =
      (Returned (VECSXP [(''status'', INTSXP [0]), (''value'', RAWSXP 105 32)]), s3)"
    using sha256_hmac_stream.stream_finish_succeeds [OF vendored_mac.absorbs.feeding_holds [OF fed2 new], of 105 106 "[]"] s2(2,3) z
    by auto
  with s0(1) fed2 show ?thesis
    using s0(4) by (auto simp: hmac_session_def)
qed

theorem zucrypt_hmac_stream_is_hmac_witness:
  "\<exists>s1 s2. run_state (zucrypt_stream_finish hmac_backend (EXTPTRSXP 101)) s1 =
      (Returned (VECSXP [(''status'', INTSXP [0]), (''value'', RAWSXP 105 32)]), s2) \<and>
    mem_read (w_mem (rs_world s2)) 105 32 =
      fips_hmac sha256_digest 64 (mem_read (\<lambda>a. ucast a) 16384 20) (mem_read (\<lambda>a. ucast a) 8192 1000)"
proof -
  let ?s = "hmac_session [100, 101, 102, 103, 104, 105, 106]"
  obtain s0 m s1 s2 where run: "run_state (zucrypt_hmac_stream_new hmac_backend (RAWSXP 16384 20) (STRSXP [''sha256''])) ?s =
      (Returned (VECSXP [(''status'', INTSXP [0]), (''value'', EXTPTRSXP 101)]), s0)"
    "feeding hmac_backend 101 s0 m s1" "m = mem_read (\<lambda>a. ucast a) 8192 1000"
    "run_state (zucrypt_stream_finish hmac_backend (EXTPTRSXP 101)) s1 =
      (Returned (VECSXP [(''status'', INTSXP [0]), (''value'', RAWSXP 105 32)]), s2)"
    using hmac_stream_runs by blast
  show ?thesis
    using zucrypt_hmac_stream_is_hmac [OF run(1) hmac_store_imports _ run(2,4)] run(3,4)
    by (auto simp: digest_session_ok(7,9) hmac_session_def sha256_hmac)
qed

end
