(* ===== verification/Pbkdf2.thy ===== *)
theory Pbkdf2
  imports R_Crypt Sha2
begin

text \<open>
  PBKDF2 of RFC 8018 over a pseudorandom function, what the adapter relies on when it derives a key through
  the backend (the locale \<open>psa_kdf_contract\<close>), and what \<^verbatim>\<open>zuc_pbkdf2_hmac\<close> and \<^verbatim>\<open>zucrypt_pbkdf2\<close> return under it.
\<close>

section \<open>PBKDF2 of RFC 8018, section 5.2\<close>

text \<open>\<open>pbkdf2_U prf p s i j\<close> is the iterate \<open>j + 1\<close> of block \<open>i\<close>, \<open>pbkdf2_F\<close> the block, \<open>h\<close> the length of the
  function's results.\<close>

fun pbkdf2_U :: "(byte list \<Rightarrow> byte list \<Rightarrow> byte list) \<Rightarrow> byte list \<Rightarrow> byte list \<Rightarrow> nat \<Rightarrow> nat \<Rightarrow> byte list" where
  "pbkdf2_U prf p s i 0 = prf p (s @ put_be 4 (of_nat i :: 32 word))"
| "pbkdf2_U prf p s i (Suc j) = prf p (pbkdf2_U prf p s i j)"

fun pbkdf2_xors :: "(byte list \<Rightarrow> byte list \<Rightarrow> byte list) \<Rightarrow> byte list \<Rightarrow> byte list \<Rightarrow> nat \<Rightarrow> nat \<Rightarrow> byte list" where
  "pbkdf2_xors prf p s i 0 = pbkdf2_U prf p s i 0"
| "pbkdf2_xors prf p s i (Suc j) = map2 (XOR) (pbkdf2_xors prf p s i j) (pbkdf2_U prf p s i (Suc j))"

definition pbkdf2_F :: "(byte list \<Rightarrow> byte list \<Rightarrow> byte list) \<Rightarrow> byte list \<Rightarrow> byte list \<Rightarrow> nat \<Rightarrow> nat \<Rightarrow> byte list" where
  "pbkdf2_F prf p s c i = pbkdf2_xors prf p s i (c - 1)"

definition pbkdf2_blocks :: "(byte list \<Rightarrow> byte list \<Rightarrow> byte list) \<Rightarrow> byte list \<Rightarrow> byte list \<Rightarrow> nat \<Rightarrow> nat \<Rightarrow> byte list" where
  "pbkdf2_blocks prf p s c l = concat (map (pbkdf2_F prf p s c) [1..<Suc l])"

definition rfc_pbkdf2 :: "(byte list \<Rightarrow> byte list \<Rightarrow> byte list) \<Rightarrow> nat \<Rightarrow> byte list \<Rightarrow> byte list \<Rightarrow> nat \<Rightarrow> nat \<Rightarrow> byte list" where
  "rfc_pbkdf2 prf h p s c n = take n (pbkdf2_blocks prf p s c ((n + h - 1) div h))"

section \<open>What the adapter relies on\<close>

text \<open>The inputs an operation has taken, in the order that is forced.\<close>

datatype kdf_stage = Chosen | Costed nat | Salted nat "byte list" | Keyed nat "byte list" "byte list"

text \<open>
  What a call gives: its success gives \<open>Q\<close>, and it succeeds in the states \<open>able\<close> describes, which it then
  leaves in such a state.
\<close>

definition call_gives :: "('b \<Rightarrow> bool) \<Rightarrow> 'b \<Rightarrow> 'o psa_reply \<times> 'b \<Rightarrow> ('o psa_reply \<Rightarrow> bool) \<Rightarrow> bool" where
  "call_gives able b rb Q \<longleftrightarrow> (r_status (fst rb) = PSA_SUCCESS \<longrightarrow> Q (fst rb)) \<and>
    (able b \<longrightarrow> r_status (fst rb) = PSA_SUCCESS \<and> able (snd rb))"

text \<open>A status and an operation on their way through the calls. \<open>A\<close> says whether the calls must succeed.\<close>

definition carried ::
  "('b \<Rightarrow> bool) \<Rightarrow> bool \<Rightarrow> ('o option \<Rightarrow> bool) \<Rightarrow> psa_status_t \<times> 'o option \<Rightarrow> ('b, 'o) world \<Rightarrow> bool" where
  "carried able A Q s w \<longleftrightarrow> (fst s = PSA_SUCCESS \<longrightarrow> Q (snd s)) \<and> (A \<longrightarrow> fst s = PSA_SUCCESS \<and> able (w_psa w))"

lemma kdf_next_carries:
  assumes "run_state (kdf_next P c s) w = (s', w')" "carried able A Q s w"
    and "\<And>op b. Q op \<Longrightarrow> call_gives able b (P (KDF c) op b) (\<lambda>r. R (r_op r))"
  shows "carried able A R s' w' \<and> w_mem w' = w_mem w"
proof (cases "fst s = PSA_SUCCESS")
  case True
  then have "call_gives able (w_psa w) (P (KDF c) (snd s) (w_psa w)) (\<lambda>r. R (r_op r))"
    using assms(2,3) by (simp add: carried_def)
  then show ?thesis
    using True assms(1,2) by (auto simp: kdf_next_def run_psa_do carried_def call_gives_def)
next
  case False
  then show ?thesis using assms(1,2) by (auto simp: kdf_next_def carried_def)
qed

text \<open>The end of \<^verbatim>\<open>zuc_pbkdf2_hmac\<close>, from the output on.\<close>

definition kdf_finish :: "('b, 'o) psa \<Rightarrow> ptr \<Rightarrow> size_t \<Rightarrow> psa_status_t \<times> 'o option \<Rightarrow> ('b, 'o, zuc_status) zuc" where
  "kdf_finish P out n s4 = do {
     s \<leftarrow> (if fst s4 = PSA_SUCCESS then do {
              r \<leftarrow> psa_do P (KDF (Kdf_output_bytes n)) (snd s4);
              write_out out n (r_out r);
              ret (r_status r, r_op r)
            }
            else ret s4);
     _ \<leftarrow> psa_do P (KDF Kdf_abort) (snd s);
     if fst s \<noteq> PSA_SUCCESS then do {
       zuc_secure_zero out n;
       ret (zuc_int_from_psa (fst s))
     }
     else ret ZUC_OK
   }"

locale psa_kdf_contract =
  fixes P :: "('b, 'o) psa"
    and F :: "psa_algorithm_t \<Rightarrow> byte list \<Rightarrow> byte list \<Rightarrow> byte list"
    and F_len :: "psa_algorithm_t \<Rightarrow> nat"
    and stage :: "psa_algorithm_t \<Rightarrow> kdf_stage \<Rightarrow> 'o option \<Rightarrow> bool"
    and supported :: "psa_algorithm_t \<Rightarrow> bool"
    and step_max :: nat
    and able :: "'b \<Rightarrow> bool"
  assumes available: "zuc_int_digest_available a \<Longrightarrow> supported (zuc_int_psa_hash a)"
    and setup_answers:
      "supported alg \<Longrightarrow>
       call_gives able b (P (KDF (Kdf_setup (PSA_ALG_PBKDF2_HMAC alg))) None b) (\<lambda>r. stage alg Chosen (r_op r))"
    and cost_answers:
      "stage alg Chosen op \<Longrightarrow> cost \<noteq> 0 \<Longrightarrow> unat cost < 2 ^ 32 \<Longrightarrow>
       call_gives able b (P (KDF (Kdf_input_integer KDF_INPUT_COST cost)) op b) (\<lambda>r. stage alg (Costed (unat cost)) (r_op r))"
    and salt_answers:
      "stage alg (Costed c) op \<Longrightarrow>
       call_gives able b (P (KDF (Kdf_input_bytes KDF_INPUT_SALT s)) op b) (\<lambda>r. stage alg (Salted c s) (r_op r))"
    and password_answers:
      "stage alg (Salted c s) op \<Longrightarrow> length p < step_max \<Longrightarrow>
       call_gives able b (P (KDF (Kdf_input_bytes KDF_INPUT_PASSWORD p)) op b) (\<lambda>r. stage alg (Keyed c s p) (r_op r))"
    and output_fits:
      "stage alg (Keyed c s p) op \<Longrightarrow> n \<noteq> 0 \<Longrightarrow> r_status (fst (P (KDF (Kdf_output_bytes n)) op b)) = PSA_SUCCESS \<Longrightarrow>
       unat n \<le> (2 ^ 32 - 1) * F_len alg"
    and output_answers:
      "stage alg (Keyed c s p) op \<Longrightarrow> length s < step_max \<Longrightarrow> n \<noteq> 0 \<Longrightarrow> unat n \<le> (2 ^ 32 - 1) * F_len alg \<Longrightarrow>
       call_gives able b (P (KDF (Kdf_output_bytes n)) op b)
         (\<lambda>r. r_out r = rfc_pbkdf2 (F alg) (F_len alg) p s c (unat n) \<and> length (r_out r) = unat n)"
begin

text \<open>What the adapter does between the checks of its arguments and the output.\<close>

lemma pbkdf2_steps:
  fixes sl pl n :: size_t and iterations :: "32 word"
  assumes "w_refcount w > 0" "out \<noteq> NULL" "password = NULL \<longrightarrow> pl = 0" "salt = NULL \<longrightarrow> sl = 0" "iterations \<noteq> 0" "n \<noteq> 0"
    and "zuc_int_digest_available hash" "unat pl < step_max"
  obtains s4 w4 where "carried able (able (w_psa w))
      (stage (zuc_int_psa_hash hash) (Keyed (unat iterations) (mem_read (w_mem w) salt sl) (mem_read (w_mem w) password pl))) s4 w4"
    "w_mem w4 = w_mem w"
    "run_state (zuc_pbkdf2_hmac P hash password pl salt sl iterations out n) w = run_state (kdf_finish P out n s4) w4"
proof -
  let ?alg = "zuc_int_psa_hash hash" and ?c = "ucast iterations :: 64 word"
    and ?pw = "mem_read (w_mem w) password pl" and ?sl = "mem_read (w_mem w) salt sl"
  have u: "unat ?c = unat iterations"
    by (simp add: unsigned_ucast_eq take_bit_nat_eq_self_iff order_less_trans [OF unsigned_less])
  then have c: "?c \<noteq> 0" "unat ?c = unat iterations" "unat ?c < 2 ^ 32"
    using assms(5) order_less_le_trans [OF unsigned_less [of iterations]] by (auto simp: unat_eq_zero [symmetric])
  obtain s1 w1 where r1: "run_state (kdf_next P (Kdf_setup (PSA_ALG_PBKDF2_HMAC ?alg)) (PSA_SUCCESS, None)) w = (s1, w1)"
    by (metis surj_pair)
  obtain s2 w2 where r2: "run_state (kdf_next P (Kdf_input_integer KDF_INPUT_COST ?c) s1) w1 = (s2, w2)"
    by (metis surj_pair)
  obtain s3 w3 where r3: "run_state (kdf_next P (Kdf_input_bytes KDF_INPUT_SALT ?sl) s2) w2 = (s3, w3)"
    by (metis surj_pair)
  obtain s4 w4 where r4: "run_state (kdf_next P (Kdf_input_bytes KDF_INPUT_PASSWORD ?pw) s3) w3 = (s4, w4)"
    by (metis surj_pair)
  have "carried able (able (w_psa w)) (\<lambda>op. op = None) (PSA_SUCCESS, None) w"
    by (simp add: carried_def)
  from kdf_next_carries [OF r1 this, of "stage ?alg Chosen"]
  have c1: "carried able (able (w_psa w)) (stage ?alg Chosen) s1 w1 \<and> w_mem w1 = w_mem w"
    using setup_answers [OF available [OF assms(7)]] by simp
  from kdf_next_carries [OF r2 conjunct1 [OF c1], of "stage ?alg (Costed (unat iterations))"]
  have c2: "carried able (able (w_psa w)) (stage ?alg (Costed (unat iterations))) s2 w2 \<and> w_mem w2 = w_mem w"
    using cost_answers [OF _ c(1,3)] c1 c(2) by simp
  from kdf_next_carries [OF r3 conjunct1 [OF c2] salt_answers]
  have c3: "carried able (able (w_psa w)) (stage ?alg (Salted (unat iterations) ?sl)) s3 w3 \<and> w_mem w3 = w_mem w"
    using c2 by simp
  from kdf_next_carries [OF r4 conjunct1 [OF c3] password_answers]
  have c4: "carried able (able (w_psa w)) (stage ?alg (Keyed (unat iterations) ?sl ?pw)) s4 w4 \<and> w_mem w4 = w_mem w"
    using c3 assms(8) by simp
  have "zuc_int_psa_hash hash \<noteq> 0"
    using assms(7) by (auto simp: zuc_int_digest_available_iff zuc_int_psa_hash_def)
  then have "run_state (zuc_pbkdf2_hmac P hash password pl salt sl iterations out n) w = run_state (kdf_finish P out n s4) w4"
    using assms r1 r2 r3 r4
    by (cases "pl = 0"; cases "sl = 0") (auto simp: zuc_pbkdf2_hmac_def kdf_finish_def Let_def defined_want_def)
  with c4 show ?thesis by (intro that) simp_all
qed

text \<open>When it says so, the output buffer holds the derived key.\<close>

lemma pbkdf2_value:
  fixes sl pl n :: size_t and iterations :: "32 word"
  assumes "run_state (zuc_pbkdf2_hmac P hash password pl salt sl iterations out n) w = (ZUC_OK, w')"
    and "unat pl < step_max" "unat sl < step_max"
  shows "mem_read (w_mem w') out n =
    rfc_pbkdf2 (F (zuc_int_psa_hash hash)) (F_len (zuc_int_psa_hash hash)) (mem_read (w_mem w) password pl)
      (mem_read (w_mem w) salt sl) (unat iterations) (unat n)"
proof -
  let ?alg = "zuc_int_psa_hash hash" and ?pw = "mem_read (w_mem w) password pl" and ?sl = "mem_read (w_mem w) salt sl"
  have g: "w_refcount w > 0" "out \<noteq> NULL" "password = NULL \<longrightarrow> pl = 0" "salt = NULL \<longrightarrow> sl = 0" "iterations \<noteq> 0" "n \<noteq> 0"
      "zuc_int_digest_available hash"
    using assms(1) by (auto simp: zuc_pbkdf2_hmac_def Let_def split: if_splits)
  obtain s4 w4 where s4: "carried able (able (w_psa w)) (stage ?alg (Keyed (unat iterations) ?sl ?pw)) s4 w4"
    "run_state (kdf_finish P out n s4) w4 = (ZUC_OK, w')"
    using assms(1) pbkdf2_steps [OF g assms(2)] by metis
  have ok: "fst s4 = PSA_SUCCESS" and out: "r_status (fst (P (KDF (Kdf_output_bytes n)) (snd s4) (w_psa w4))) = PSA_SUCCESS"
      "w_mem w' = mem_write (w_mem w4) out (take (unat n) (r_out (fst (P (KDF (Kdf_output_bytes n)) (snd s4) (w_psa w4)))))"
    using s4(2) by (auto simp: kdf_finish_def run_psa_do zuc_int_from_psa_def split: if_splits prod.splits)
  have at: "stage ?alg (Keyed (unat iterations) ?sl ?pw) (snd s4)" using s4(1) ok by (simp add: carried_def)
  have "length ?sl < step_max" using assms(3) by simp
  from output_answers [OF at this g(6) output_fits [OF at g(6) out(1)], of "w_psa w4"] out(1)
  have r: "length (r_out (fst (P (KDF (Kdf_output_bytes n)) (snd s4) (w_psa w4)))) = unat n"
    and D: "r_out (fst (P (KDF (Kdf_output_bytes n)) (snd s4) (w_psa w4))) =
      rfc_pbkdf2 (F ?alg) (F_len ?alg) ?pw ?sl (unat iterations) (unat n)"
    unfolding call_gives_def by blast+
  have "mem_read (w_mem w') out n = r_out (fst (P (KDF (Kdf_output_bytes n)) (snd s4) (w_psa w4)))"
    using out(2) r by (simp add: mem_read_write_same)
  then show ?thesis unfolding D .
qed

lemma pbkdf2_succeeds:
  fixes sl pl n :: size_t and iterations :: "32 word"
  assumes "w_refcount w > 0" "out \<noteq> NULL" "password = NULL \<longrightarrow> pl = 0" "salt = NULL \<longrightarrow> sl = 0" "iterations \<noteq> 0" "n \<noteq> 0"
    and "zuc_int_digest_available hash" "unat pl < step_max" "unat sl < step_max"
    and "unat n \<le> (2 ^ 32 - 1) * F_len (zuc_int_psa_hash hash)" "able (w_psa w)"
  shows "\<exists>w'. run_state (zuc_pbkdf2_hmac P hash password pl salt sl iterations out n) w = (ZUC_OK, w')"
proof -
  let ?alg = "zuc_int_psa_hash hash" and ?pw = "mem_read (w_mem w) password pl" and ?sl = "mem_read (w_mem w) salt sl"
  obtain s4 w4 where s4: "carried able (able (w_psa w)) (stage ?alg (Keyed (unat iterations) ?sl ?pw)) s4 w4"
    and run: "run_state (zuc_pbkdf2_hmac P hash password pl salt sl iterations out n) w = run_state (kdf_finish P out n s4) w4"
    by (rule pbkdf2_steps [OF assms(1-8)])
  have ok: "fst s4 = PSA_SUCCESS" "able (w_psa w4)" "stage ?alg (Keyed (unat iterations) ?sl ?pw) (snd s4)"
    using s4 assms(11) by (auto simp: carried_def)
  have "length ?sl < step_max" using assms(9) by simp
  from output_answers [OF ok(3) this assms(6,10), of "w_psa w4"] ok(1,2)
  show ?thesis unfolding run by (simp add: kdf_finish_def call_gives_def run_psa_do)
qed

text \<open>The entry point of R.\<close>

lemma zucrypt_pbkdf2_value:
  assumes "run_state (zucrypt_pbkdf2 P (RAWSXP p pn) (RAWSXP q qn) (REALSXP iterations) (REALSXP len) (STRSXP [name])) s =
      (Returned (VECSXP [(''status'', INTSXP [0]), (''value'', v)]), s')"
    and "unat pn < step_max" "unat qn < step_max"
  defines "alg \<equiv> zuc_int_psa_hash (zuc_alg_by_name (Some name))"
  shows "\<exists>out. v = RAWSXP out (of_int len) \<and>
    mem_read (w_mem (rs_world s')) out (of_int len) =
      rfc_pbkdf2 (F alg) (F_len alg) (mem_read (w_mem (rs_world s)) p pn) (mem_read (w_mem (rs_world s)) q qn)
        (unat (of_int iterations :: 32 word)) (unat (of_int len :: size_t))"
proof -
  let ?call = "\<lambda>out. zuc_pbkdf2_hmac P (zuc_alg_by_name (Some name)) (if pn \<noteq> 0 then p else NULL) pn
      (if qn \<noteq> 0 then q else NULL) qn (of_int iterations) out (of_int len)"
  obtain out ps where out: "rs_allocs s = out # ps"
    "run_state (do { st \<leftarrow> native (?call out); result st (if st = ZUC_OK then RAWSXP out (of_int len) else R_NilValue) })
      (s\<lparr>rs_allocs := ps\<rparr>) = (Returned (VECSXP [(''status'', INTSXP [0]), (''value'', v)]), s')"
    using assms(1) unfolding zucrypt_pbkdf2_def allocRaw_def Let_def RAW.simps XLENGTH.simps REAL.simps R_CHAR.simps
    by (rule run_r_alloc_returned)
  obtain st w' where call: "run_state (?call out) (rs_world s) = (st, w')" by (metis surj_pair)
  have "st = ZUC_OK" and v: "v = RAWSXP out (of_int len)" and w': "rs_world s' = w'"
    using out(2) call by (auto simp: run_native dest!: run_result_returned split: if_splits)
  from pbkdf2_value [OF call [unfolded this(1)] assms(2,3)] v w' show ?thesis
    by (cases "pn = 0"; cases "qn = 0") (auto simp: alg_def)
qed

lemma zucrypt_pbkdf2_succeeds:
  assumes "w_refcount (rs_world s) > 0" "rs_allocs s = out # r # ps" "out \<noteq> NULL" "r \<noteq> NULL"
    and "p = NULL \<longrightarrow> pn = 0" "q = NULL \<longrightarrow> qn = 0" "(of_int iterations :: 32 word) \<noteq> 0" "(of_int len :: size_t) \<noteq> 0"
    and "zuc_int_digest_available (zuc_alg_by_name (Some name))" "unat pn < step_max" "unat qn < step_max"
    and "unat (of_int len :: size_t) \<le> (2 ^ 32 - 1) * F_len (zuc_int_psa_hash (zuc_alg_by_name (Some name)))"
    and "able (w_psa (rs_world s))"
  shows "\<exists>s'. run_state (zucrypt_pbkdf2 P (RAWSXP p pn) (RAWSXP q qn) (REALSXP iterations) (REALSXP len) (STRSXP [name])) s =
      (Returned (VECSXP [(''status'', INTSXP [0]), (''value'', RAWSXP out (of_int len))]), s')"
proof -
  define p' where "p' = (if pn \<noteq> 0 then p else NULL)"
  define q' where "q' = (if qn \<noteq> 0 then q else NULL)"
  have "p' = NULL \<longrightarrow> pn = 0" "q' = NULL \<longrightarrow> qn = 0" using assms(5,6) by (auto simp: p'_def q'_def)
  from pbkdf2_succeeds [OF assms(1,3) this assms(7-13)]
  obtain w' where call: "run_state (zuc_pbkdf2_hmac P (zuc_alg_by_name (Some name)) p' pn q' qn (of_int iterations) out (of_int len))
      (rs_world s) = (ZUC_OK, w')"
    by blast
  then show ?thesis
    unfolding zucrypt_pbkdf2_def allocRaw_def Let_def RAW.simps XLENGTH.simps REAL.simps R_CHAR.simps run_r_alloc
      p'_def [symmetric] q'_def [symmetric]
    using assms(2-4) by (simp add: result_def run_r_alloc run_native)
qed

end

end
