(* ===== verification/Psa_Kdf.thy ===== *)
theory Psa_Kdf
  imports Psa_Mac Pbkdf2
begin

text \<open>
  The key derivation of the vendored backend: \<^verbatim>\<open>psa_key_derivation_*\<close> of \<^verbatim>\<open>psa_crypto.c\<close>, which the build
  configures with PBKDF2-HMAC only, over the MAC driver of \<open>Psa_Mac\<close>, as an instance of the contract of \<open>Pbkdf2\<close>.
\<close>

section \<open>Algorithms\<close>

abbreviation (input) PSA_ERROR_INSUFFICIENT_DATA :: psa_status_t where
  "PSA_ERROR_INSUFFICIENT_DATA \<equiv> -143"

abbreviation (input) PSA_ALG_ECDH :: psa_algorithm_t where
  "PSA_ALG_ECDH \<equiv> 0x09020000"

definition PSA_ALG_IS_KEY_AGREEMENT :: "psa_algorithm_t \<Rightarrow> bool" where
  "PSA_ALG_IS_KEY_AGREEMENT alg \<longleftrightarrow> alg AND 0x7f000000 = 0x09000000"

definition PSA_ALG_IS_KEY_DERIVATION :: "psa_algorithm_t \<Rightarrow> bool" where
  "PSA_ALG_IS_KEY_DERIVATION alg \<longleftrightarrow> alg AND 0x7f000000 = 0x08000000"

definition PSA_ALG_KEY_AGREEMENT_GET_KDF :: "psa_algorithm_t \<Rightarrow> psa_algorithm_t" where
  "PSA_ALG_KEY_AGREEMENT_GET_KDF alg = alg AND 0xfe00ffff OR 0x08000000"

definition PSA_ALG_KEY_AGREEMENT_GET_BASE :: "psa_algorithm_t \<Rightarrow> psa_algorithm_t" where
  "PSA_ALG_KEY_AGREEMENT_GET_BASE alg = alg AND 0xffff0000 OR 0x09000000"

definition PSA_ALG_IS_RAW_KEY_AGREEMENT :: "psa_algorithm_t \<Rightarrow> bool" where
  "PSA_ALG_IS_RAW_KEY_AGREEMENT alg \<longleftrightarrow>
    PSA_ALG_IS_KEY_AGREEMENT alg \<and> PSA_ALG_KEY_AGREEMENT_GET_KDF alg = 0x08000000"

definition PSA_ALG_IS_PBKDF2_HMAC :: "psa_algorithm_t \<Rightarrow> bool" where
  "PSA_ALG_IS_PBKDF2_HMAC alg \<longleftrightarrow> alg AND NOT 0xff = 0x08800100"

definition PSA_ALG_PBKDF2_HMAC_GET_HASH :: "psa_algorithm_t \<Rightarrow> psa_algorithm_t" where
  "PSA_ALG_PBKDF2_HMAC_GET_HASH pbkdf2_alg = 0x02000000 OR (pbkdf2_alg AND 0xff)"

text \<open>PBKDF2 with AES-CMAC counts as PBKDF2 although the build has no code for it.\<close>

definition PSA_ALG_IS_PBKDF2 :: "psa_algorithm_t \<Rightarrow> bool" where
  "PSA_ALG_IS_PBKDF2 kdf_alg \<longleftrightarrow> PSA_ALG_IS_PBKDF2_HMAC kdf_alg \<or> kdf_alg = 0x08800200"

definition PSA_ALG_GET_HASH :: "psa_algorithm_t \<Rightarrow> psa_algorithm_t" where
  "PSA_ALG_GET_HASH alg = (if alg AND 0xff = 0 then 0 else 0x02000000 OR (alg AND 0xff))"

section \<open>The operation\<close>

datatype psa_pbkdf2_key_derivation_state_t =
    PSA_PBKDF2_STATE_INIT
  | PSA_PBKDF2_STATE_INPUT_COST_SET
  | PSA_PBKDF2_STATE_SALT_SET
  | PSA_PBKDF2_STATE_PASSWORD_SET
  | PSA_PBKDF2_STATE_OUTPUT

text \<open>The salt has the bytes of its block; \<^verbatim>\<open>NULL\<close> is the empty list.\<close>

record psa_pbkdf2_key_derivation_t =
  pb_state :: psa_pbkdf2_key_derivation_state_t
  pb_input_cost :: "64 word"
  pb_salt :: "byte list"
  pb_password :: "byte list"
  pb_password_length :: size_t
  pb_output_block :: "byte list"
  pb_bytes_used :: "8 word"
  pb_block_number :: "32 word"

record psa_key_derivation_operation_t =
  kd_alg :: psa_algorithm_t
  kd_capacity :: size_t
  kd_ctx :: psa_pbkdf2_key_derivation_t

type_synonym kop = psa_key_derivation_operation_t

definition zero_pbkdf2 :: psa_pbkdf2_key_derivation_t where
  "zero_pbkdf2 = \<lparr>pb_state = PSA_PBKDF2_STATE_INIT, pb_input_cost = 0, pb_salt = [], pb_password = replicate 128 0,
     pb_password_length = 0, pb_output_block = replicate 64 0, pb_bytes_used = 0, pb_block_number = 0\<rparr>"

definition zero_kop :: kop where
  "zero_kop = \<lparr>kd_alg = 0, kd_capacity = 0, kd_ctx = zero_pbkdf2\<rparr>"

definition psa_key_derivation_get_kdf_alg :: "kop \<Rightarrow> psa_algorithm_t" where
  "psa_key_derivation_get_kdf_alg operation =
    (if PSA_ALG_IS_KEY_AGREEMENT (kd_alg operation) then PSA_ALG_KEY_AGREEMENT_GET_KDF (kd_alg operation)
     else kd_alg operation)"

definition psa_key_derivation_abort :: "kop \<Rightarrow> psa_status_t \<times> kop" where
  "psa_key_derivation_abort operation =
    (let kdf_alg = psa_key_derivation_get_kdf_alg operation
     in (if kdf_alg = 0 then PSA_SUCCESS
         else if PSA_ALG_IS_PBKDF2 kdf_alg then PSA_SUCCESS
         else PSA_ERROR_BAD_STATE,
         zero_kop))"

section \<open>Setting up\<close>

definition is_kdf_alg_supported :: "psa_algorithm_t \<Rightarrow> bool" where
  "is_kdf_alg_supported kdf_alg \<longleftrightarrow> PSA_ALG_IS_PBKDF2_HMAC kdf_alg"

definition psa_hash_try_support :: "psa_algorithm_t \<Rightarrow> psa_status_t" where
  "psa_hash_try_support alg = fst (psa_hash_setup None alg)"

definition psa_key_derivation_set_maximum_capacity :: "kop \<Rightarrow> psa_algorithm_t \<Rightarrow> psa_status_t \<times> kop" where
  "psa_key_derivation_set_maximum_capacity operation kdf_alg =
    (let hash_alg = PSA_ALG_GET_HASH kdf_alg;
         hash_size = PSA_HASH_LENGTH hash_alg
     in if hash_size = 0 then (PSA_ERROR_NOT_SUPPORTED, operation)
        else
          let status = psa_hash_try_support hash_alg
          in if status \<noteq> PSA_SUCCESS then (status, operation)
             else if PSA_ALG_IS_PBKDF2_HMAC kdf_alg
             then (status, operation\<lparr>kd_capacity := 0xFFFFFFFF * hash_size\<rparr>)
             else (PSA_ERROR_NOT_SUPPORTED, operation))"

definition psa_key_derivation_setup_kdf :: "kop \<Rightarrow> psa_algorithm_t \<Rightarrow> psa_status_t \<times> kop" where
  "psa_key_derivation_setup_kdf operation kdf_alg =
    (let operation = operation\<lparr>kd_ctx := zero_pbkdf2\<rparr>
     in if \<not> is_kdf_alg_supported kdf_alg then (PSA_ERROR_NOT_SUPPORTED, operation)
        else psa_key_derivation_set_maximum_capacity operation kdf_alg)"

definition psa_key_agreement_try_support :: "psa_algorithm_t \<Rightarrow> psa_status_t" where
  "psa_key_agreement_try_support alg =
    (if defined_want PSA_WANT_ALG_ECDH \<and> alg = PSA_ALG_ECDH then PSA_SUCCESS else PSA_ERROR_NOT_SUPPORTED)"

text \<open>The build has no TLS 1.2 EC-JPAKE-to-PMS, which alone does not take a secret of any form.\<close>

definition psa_key_derivation_setup :: "kop \<Rightarrow> psa_algorithm_t \<Rightarrow> psa_status_t \<times> kop" where
  "psa_key_derivation_setup operation alg =
    (if kd_alg operation \<noteq> 0 then (PSA_ERROR_BAD_STATE, operation)
     else if PSA_ALG_IS_RAW_KEY_AGREEMENT alg then (PSA_ERROR_INVALID_ARGUMENT, operation)
     else
       let (status, operation) =
         (if PSA_ALG_IS_KEY_AGREEMENT alg then
            let kdf_alg = PSA_ALG_KEY_AGREEMENT_GET_KDF alg;
                status = psa_key_agreement_try_support (PSA_ALG_KEY_AGREEMENT_GET_BASE alg)
            in if status \<noteq> PSA_SUCCESS then (status, operation)
               else psa_key_derivation_setup_kdf operation kdf_alg
          else if PSA_ALG_IS_KEY_DERIVATION alg then psa_key_derivation_setup_kdf operation alg
          else (PSA_ERROR_INVALID_ARGUMENT, operation))
       in (status, if status = PSA_SUCCESS then operation\<lparr>kd_alg := alg\<rparr> else operation))"

section \<open>The inputs\<close>

definition psa_pbkdf2_set_input_cost ::
  "psa_pbkdf2_key_derivation_t \<Rightarrow> kdf_step \<Rightarrow> 64 word \<Rightarrow> psa_status_t \<times> psa_pbkdf2_key_derivation_t" where
  "psa_pbkdf2_set_input_cost pbkdf2 step data =
    (if step \<noteq> KDF_INPUT_COST then (PSA_ERROR_INVALID_ARGUMENT, pbkdf2)
     else if pb_state pbkdf2 \<noteq> PSA_PBKDF2_STATE_INIT then (PSA_ERROR_BAD_STATE, pbkdf2)
     else if data > 0xffffffff then (PSA_ERROR_NOT_SUPPORTED, pbkdf2)
     else if data = 0 then (PSA_ERROR_INVALID_ARGUMENT, pbkdf2)
     else (PSA_SUCCESS, pbkdf2\<lparr>pb_input_cost := data, pb_state := PSA_PBKDF2_STATE_INPUT_COST_SET\<rparr>))"

definition psa_pbkdf2_set_salt ::
  "psa_pbkdf2_key_derivation_t \<Rightarrow> byte list \<Rightarrow> (psa_status_t \<times> psa_pbkdf2_key_derivation_t) heap_state" where
  "psa_pbkdf2_set_salt pbkdf2 data =
    (if pb_state pbkdf2 = PSA_PBKDF2_STATE_INPUT_COST_SET \<or> pb_state pbkdf2 = PSA_PBKDF2_STATE_SALT_SET then
       let pbkdf2 = pbkdf2\<lparr>pb_state := PSA_PBKDF2_STATE_SALT_SET\<rparr>
       in if length data = 0 then ret (PSA_SUCCESS, pbkdf2)
          else do {
            ok \<leftarrow> try_local (length data + length (pb_salt pbkdf2));
            if \<not> ok then ret (PSA_ERROR_INSUFFICIENT_MEMORY, pbkdf2)
            else ret (PSA_SUCCESS, pbkdf2\<lparr>pb_salt := pb_salt pbkdf2 @ data\<rparr>)
          }
     else ret (PSA_ERROR_BAD_STATE, pbkdf2))"

text \<open>The status, the buffer and its length.\<close>

definition psa_pbkdf2_hmac_set_password ::
  "psa_algorithm_t \<Rightarrow> byte list \<Rightarrow> byte list \<Rightarrow> (psa_status_t \<times> byte list \<times> size_t) heap_state" where
  "psa_pbkdf2_hmac_set_password hash_alg inp output =
    (if length inp > unat (PSA_HASH_BLOCK_LENGTH hash_alg) then do {
       (status, out, output_len) \<leftarrow> try_hash_compute hash_alg inp 128;
       ret (status, put output 0 out, output_len)
     }
     else ret (PSA_SUCCESS, if length inp > 0 then put output 0 inp else output, PSA_HASH_BLOCK_LENGTH hash_alg))"

definition psa_pbkdf2_set_password ::
  "psa_pbkdf2_key_derivation_t \<Rightarrow> psa_algorithm_t \<Rightarrow> byte list \<Rightarrow>
   (psa_status_t \<times> psa_pbkdf2_key_derivation_t) heap_state" where
  "psa_pbkdf2_set_password pbkdf2 kdf_alg data =
    (if pb_state pbkdf2 \<noteq> PSA_PBKDF2_STATE_SALT_SET then ret (PSA_ERROR_BAD_STATE, pbkdf2)
     else if PSA_ALG_IS_PBKDF2_HMAC kdf_alg then do {
       (status, password, password_length) \<leftarrow>
         psa_pbkdf2_hmac_set_password (PSA_ALG_PBKDF2_HMAC_GET_HASH kdf_alg) data (pb_password pbkdf2);
       ret (status, pbkdf2\<lparr>pb_password := password, pb_password_length := password_length,
         pb_state := PSA_PBKDF2_STATE_PASSWORD_SET\<rparr>)
     }
     else ret (PSA_ERROR_INVALID_ARGUMENT, pbkdf2))"

definition psa_pbkdf2_input ::
  "psa_pbkdf2_key_derivation_t \<Rightarrow> psa_algorithm_t \<Rightarrow> kdf_step \<Rightarrow> byte list \<Rightarrow>
   (psa_status_t \<times> psa_pbkdf2_key_derivation_t) heap_state" where
  "psa_pbkdf2_input pbkdf2 kdf_alg step data =
    (case step of
       KDF_INPUT_SALT \<Rightarrow> psa_pbkdf2_set_salt pbkdf2 data
     | KDF_INPUT_PASSWORD \<Rightarrow> psa_pbkdf2_set_password pbkdf2 kdf_alg data
     | _ \<Rightarrow> ret (PSA_ERROR_INVALID_ARGUMENT, pbkdf2))"

text \<open>The steps that the adapter takes. The types are none, raw data, secret and password.\<close>

definition psa_key_derivation_check_input_type :: "kdf_step \<Rightarrow> psa_key_type_t \<Rightarrow> psa_status_t" where
  "psa_key_derivation_check_input_type step key_type =
    (case step of
       KDF_INPUT_SALT \<Rightarrow>
         if key_type = 0x1001 then PSA_SUCCESS else if key_type = 0 then PSA_SUCCESS else PSA_ERROR_INVALID_ARGUMENT
     | KDF_INPUT_PASSWORD \<Rightarrow>
         if key_type = 0x1203 then PSA_SUCCESS else if key_type = 0x1200 then PSA_SUCCESS
         else if key_type = 0 then PSA_SUCCESS else PSA_ERROR_INVALID_ARGUMENT
     | _ \<Rightarrow> PSA_ERROR_INVALID_ARGUMENT)"

definition psa_key_derivation_input_internal ::
  "kop \<Rightarrow> kdf_step \<Rightarrow> psa_key_type_t \<Rightarrow> byte list \<Rightarrow> (psa_status_t \<times> kop) heap_state" where
  "psa_key_derivation_input_internal operation step key_type data =
    (let kdf_alg = psa_key_derivation_get_kdf_alg operation
     in if kdf_alg = 0 then ret (PSA_ERROR_BAD_STATE, snd (psa_key_derivation_abort operation))
        else
          let status = psa_key_derivation_check_input_type step key_type
          in if status \<noteq> PSA_SUCCESS then ret (status, snd (psa_key_derivation_abort operation))
             else if PSA_ALG_IS_PBKDF2 kdf_alg then do {
               (status, pbkdf2) \<leftarrow> psa_pbkdf2_input (kd_ctx operation) kdf_alg step data;
               let operation = operation\<lparr>kd_ctx := pbkdf2\<rparr>;
               ret (status, if status \<noteq> PSA_SUCCESS then snd (psa_key_derivation_abort operation) else operation)
             }
             else ret (PSA_ERROR_BAD_STATE, operation))"

definition psa_key_derivation_input_integer :: "kop \<Rightarrow> kdf_step \<Rightarrow> 64 word \<Rightarrow> psa_status_t \<times> kop" where
  "psa_key_derivation_input_integer operation step value =
    (let kdf_alg = psa_key_derivation_get_kdf_alg operation;
         (status, operation) =
           (if kdf_alg = 0 then (PSA_ERROR_BAD_STATE, operation)
            else if PSA_ALG_IS_PBKDF2 kdf_alg then
              let (status, pbkdf2) = psa_pbkdf2_set_input_cost (kd_ctx operation) step value
              in (status, operation\<lparr>kd_ctx := pbkdf2\<rparr>)
            else (PSA_ERROR_INVALID_ARGUMENT, operation))
     in (status, if status \<noteq> PSA_SUCCESS then snd (psa_key_derivation_abort operation) else operation))"

definition psa_key_derivation_input_bytes :: "kop \<Rightarrow> kdf_step \<Rightarrow> byte list \<Rightarrow> (psa_status_t \<times> kop) heap_state" where
  "psa_key_derivation_input_bytes operation step data = do {
     ok \<leftarrow> try_local (length data);
     if \<not> ok then ret (PSA_ERROR_INSUFFICIENT_MEMORY, operation)
     else psa_key_derivation_input_internal operation step 0 data
   }"

section \<open>The output\<close>

text \<open>The iterations after the first: the passes left, the last iterate and the accumulator.\<close>

fun pbkdf2_iterate ::
  "nat \<Rightarrow> byte list \<Rightarrow> psa_algorithm_t \<Rightarrow> 8 word \<Rightarrow> byte list \<Rightarrow> byte list \<Rightarrow> (psa_status_t \<times> byte list) heap_state" where
  "pbkdf2_iterate 0 password prf_alg prf_output_length U_i U_accumulator = ret (PSA_SUCCESS, U_accumulator)"
| "pbkdf2_iterate (Suc k) password prf_alg prf_output_length U_i U_accumulator = do {
     (status, out, mac_output_length) \<leftarrow>
       mbedtls_psa_mac_compute password prf_alg (take (unat prf_output_length) U_i) (ucast prf_output_length);
     if status \<noteq> PSA_SUCCESS then ret (status, U_accumulator)
     else do {
       let U_i = put U_i 0 out;
       pbkdf2_iterate k password prf_alg prf_output_length U_i
         (put U_accumulator 0 (map2 (XOR) (take (unat prf_output_length) U_accumulator)
           (take (unat prf_output_length) U_i)))
     }
   }"

text \<open>The status and the output block.\<close>

definition psa_key_derivation_pbkdf2_generate_block ::
  "psa_pbkdf2_key_derivation_t \<Rightarrow> psa_algorithm_t \<Rightarrow> 8 word \<Rightarrow> (psa_status_t \<times> byte list) heap_state" where
  "psa_key_derivation_pbkdf2_generate_block pbkdf2 prf_alg prf_output_length = do {
     let U_accumulator = pb_output_block pbkdf2;
     let password = take (unat (pb_password_length pbkdf2)) (pb_password pbkdf2);
     let block_counter = put_be 4 (pb_block_number pbkdf2);
     (status, ctx) \<leftarrow> mbedtls_psa_mac_sign_setup zero_mac_op password prf_alg;
     if status \<noteq> PSA_SUCCESS then ret (status, U_accumulator)
     else do {
       let mac_operation = Some \<lparr>mo_mac_size = prf_output_length, mo_is_sign = True, mo_ctx = ctx\<rparr>;
       (status, mac_operation) \<leftarrow> psa_mac_update mac_operation (pb_salt pbkdf2);
       if status \<noteq> PSA_SUCCESS then ret (status, U_accumulator)
       else do {
         (status, mac_operation) \<leftarrow> psa_mac_update mac_operation block_counter;
         if status \<noteq> PSA_SUCCESS then ret (status, U_accumulator)
         else do {
           (status, mac_operation, U_i, mac_output_length) \<leftarrow> psa_mac_sign_finish mac_operation 64;
           if status \<noteq> PSA_SUCCESS then ret (status, U_accumulator)
           else if mac_output_length \<noteq> ucast prf_output_length then ret (PSA_ERROR_CORRUPTION_DETECTED, U_accumulator)
           else pbkdf2_iterate (unat (pb_input_cost pbkdf2) - 1) password prf_alg prf_output_length U_i
             (put U_accumulator 0 (take (unat prf_output_length) U_i))
         }
       }
     }
   }"

text \<open>
  The loop that hands out bytes: the result, the operation and the bytes written. It ends because a block
  of no bytes is an error of the MAC functions, so that a pass that writes nothing is followed by one that does.
\<close>

lemma bind_runs_cong [fundef_cong]:
  assumes "m = m'" "\<And>x s s'. run_state m' s = (x, s') \<Longrightarrow> f x = g x"
  shows "m \<bind> f = m' \<bind> g"
  using assms by (intro state_ext) (auto split: prod.splits)

lemma update_mac_size:
  assumes "run_state (psa_mac_update (Some op) inp) s = ((PSA_SUCCESS, r), s')"
  obtains op' where "r = Some op'" "mo_mac_size op' = mo_mac_size op"
  using assms by (auto simp: psa_mac_update_def Let_def split: if_splits prod.splits)

lemma finish_without_size:
  assumes "mo_mac_size op = 0"
  shows "fails (psa_mac_sign_finish (Some op) n)"
  using assms
  by (auto simp: fails_def psa_mac_sign_finish_def psa_mac_abort_def case_prod_unfold Let_def)

lemma block_not_empty:
  assumes "run_state (psa_key_derivation_pbkdf2_generate_block pbkdf2 prf_alg n) s = ((PSA_SUCCESS, out), s')"
  shows "n \<noteq> 0"
proof
  assume "n = 0"
  then show False
    using assms
    by (auto simp: psa_key_derivation_pbkdf2_generate_block_def Let_def split: if_splits prod.splits
        elim!: update_mac_size dest!: failsD [OF finish_without_size, rotated])
qed

function pbkdf2_read_loop ::
  "psa_algorithm_t \<Rightarrow> 8 word \<Rightarrow> psa_pbkdf2_key_derivation_t \<Rightarrow> byte list \<Rightarrow> size_t \<Rightarrow>
   (psa_status_t \<times> psa_pbkdf2_key_derivation_t \<times> byte list) heap_state" where
  "pbkdf2_read_loop prf_alg prf_output_length pbkdf2 output output_length =
    (if output_length = 0 then ret (PSA_SUCCESS, pbkdf2, output)
     else
       let n = prf_output_length - pb_bytes_used pbkdf2;
           n = (if ucast n > output_length then ucast output_length else n);
           output = output @ take (unat n) (drop (unat (pb_bytes_used pbkdf2)) (pb_output_block pbkdf2));
           output_length = output_length - ucast n;
           pbkdf2 = pbkdf2\<lparr>pb_bytes_used := pb_bytes_used pbkdf2 + n\<rparr>
       in if output_length = 0 then ret (PSA_SUCCESS, pbkdf2, output)
          else
            let pbkdf2 = pbkdf2\<lparr>pb_bytes_used := 0, pb_block_number := pb_block_number pbkdf2 + 1\<rparr>
            in do {
              (status, output_block) \<leftarrow>
                psa_key_derivation_pbkdf2_generate_block pbkdf2 prf_alg prf_output_length;
              let pbkdf2 = pbkdf2\<lparr>pb_output_block := output_block\<rparr>;
              if status \<noteq> PSA_SUCCESS then ret (status, pbkdf2, output)
              else pbkdf2_read_loop prf_alg prf_output_length pbkdf2 output output_length
            })"
  by pat_completeness auto

text \<open>A pass with nothing to copy is one at the end of a block, and then the next one is not.\<close>

lemma unat_widen: "unat (ucast (x :: 8 word) :: size_t) = unat x"
  by (simp add: unsigned_ucast_eq take_bit_nat_eq_self_iff order_less_trans [OF unsigned_less])

lemma unat_narrow: "unat (n :: size_t) < 256 \<Longrightarrow> unat (ucast n :: 8 word) = unat n"
  by (simp add: unsigned_ucast_eq take_bit_nat_eq_self_iff)

lemma pass_shrinks:
  fixes used size :: "8 word" and len :: size_t
  defines "n \<equiv> (if ucast (size - used) > len then ucast len else size - used)"
  assumes "len \<noteq> 0" "size \<noteq> 0"
  shows "2 * unat (len - ucast n) < 2 * unat len + (if used = 0 then 0 else 1)"
proof -
  have b: "unat (size - used) < 256" using unsigned_less [of "size - used"] by simp
  have n: "unat n = min (unat (size - used)) (unat len)"
    using b by (auto simp: n_def word_less_nat_alt unat_widen unat_narrow min_def)
  then have u: "unat (ucast n :: size_t) = min (unat (size - used)) (unat len)"
    by (simp add: unat_widen)
  then have "unat (len - ucast n) = unat len - min (unat (size - used)) (unat len)"
    by (subst unat_sub) (auto simp: word_le_nat_alt)
  moreover have "unat len \<noteq> 0" "used = 0 \<Longrightarrow> unat (size - used) \<noteq> 0"
    using assms(2,3) by (simp_all add: unat_eq_zero)
  ultimately show ?thesis by (auto simp: min_def)
qed

termination pbkdf2_read_loop
proof (relation "measure (\<lambda>(prf_alg, prf_output_length, pbkdf2, output, output_length).
      2 * unat output_length + (if pb_bytes_used pbkdf2 = 0 then 0 else 1))", goal_cases)
  case 1
  then show ?case by simp
next
  case (2 prf_alg size pb written len)
  then have "len \<noteq> 0" "size \<noteq> 0" by (auto dest: block_not_empty)
  from pass_shrinks [OF this, of "pb_bytes_used pb"] 2 show ?case
    by (simp split: if_splits)
qed

declare pbkdf2_read_loop.simps [simp del]

text \<open>
  The attributes that the code builds for the driver are not modelled, since the built-in driver does not
  look at them for HMAC.
\<close>

definition psa_key_derivation_pbkdf2_read ::
  "psa_pbkdf2_key_derivation_t \<Rightarrow> psa_algorithm_t \<Rightarrow> size_t \<Rightarrow>
   (psa_status_t \<times> psa_pbkdf2_key_derivation_t \<times> byte list) heap_state" where
  "psa_key_derivation_pbkdf2_read pbkdf2 kdf_alg output_length =
    (let prf =
       (if PSA_ALG_IS_PBKDF2_HMAC kdf_alg then
          let prf_alg = PSA_ALG_HMAC (PSA_ALG_PBKDF2_HMAC_GET_HASH kdf_alg)
          in Some (prf_alg, ucast (PSA_HASH_LENGTH prf_alg) :: 8 word)
        else if kdf_alg = 0x08800200 then Some (0x03c00200, ucast (PSA_MAC_LENGTH 0x2400 128 0x03c00200))
        else None)
     in case prf of
          None \<Rightarrow> ret (PSA_ERROR_INVALID_ARGUMENT, pbkdf2, [])
        | Some (prf_alg, prf_output_length) \<Rightarrow>
            (case pb_state pbkdf2 of
               PSA_PBKDF2_STATE_PASSWORD_SET \<Rightarrow>
                 pbkdf2_read_loop prf_alg prf_output_length
                   (pbkdf2\<lparr>pb_bytes_used := prf_output_length, pb_state := PSA_PBKDF2_STATE_OUTPUT\<rparr>) [] output_length
             | PSA_PBKDF2_STATE_OUTPUT \<Rightarrow> pbkdf2_read_loop prf_alg prf_output_length pbkdf2 [] output_length
             | _ \<Rightarrow> ret (PSA_ERROR_BAD_STATE, pbkdf2, [])))"

text \<open>The status, the operation and the bytes written to the output buffer.\<close>

definition output_exit :: "psa_status_t \<times> kop \<times> byte list \<Rightarrow> psa_status_t \<times> kop \<times> byte list" where
  "output_exit r = (case r of (status, operation, output) \<Rightarrow>
     (status,
      if status \<noteq> PSA_SUCCESS then (snd (psa_key_derivation_abort operation))\<lparr>kd_alg := kd_alg operation\<rparr> else operation,
      if status \<noteq> PSA_SUCCESS then replicate (length output) 0x21 else output))"

definition psa_key_derivation_output_bytes ::
  "kop \<Rightarrow> size_t \<Rightarrow> (psa_status_t \<times> kop \<times> byte list) heap_state" where
  "psa_key_derivation_output_bytes operation output_length =
    (let kdf_alg = psa_key_derivation_get_kdf_alg operation
     in if kd_alg operation = 0 then ret (PSA_ERROR_BAD_STATE, operation, [])
        else if output_length = 0 \<and> kd_capacity operation = 0 then ret (PSA_ERROR_INSUFFICIENT_DATA, operation, [])
        else do {
          ok \<leftarrow> try_local (unat output_length);
          if \<not> ok then ret (output_exit (PSA_ERROR_INSUFFICIENT_MEMORY, operation, []))
          else
            let output = replicate (unat output_length) 0
            in if output_length > kd_capacity operation
               then ret (output_exit (PSA_ERROR_INSUFFICIENT_DATA, operation\<lparr>kd_capacity := 0\<rparr>, output))
               else
                 let operation = operation\<lparr>kd_capacity := kd_capacity operation - output_length\<rparr>
                 in if PSA_ALG_IS_PBKDF2 kdf_alg then do {
                      (status, pbkdf2, out) \<leftarrow> psa_key_derivation_pbkdf2_read (kd_ctx operation) kdf_alg output_length;
                      ret (output_exit (status, operation\<lparr>kd_ctx := pbkdf2\<rparr>, put output 0 out))
                    }
                    else ret (PSA_ERROR_BAD_STATE, operation, output)
        })"

section \<open>The backend\<close>

text \<open>The initialiser of an operation makes it zero.\<close>

definition kdf_operation :: "kop option \<Rightarrow> kop" where
  "kdf_operation op = (case op of None \<Rightarrow> zero_kop | Some op \<Rightarrow> op)"

fun kdf_dispatch :: "kdf_call \<Rightarrow> kop \<Rightarrow> bool list \<Rightarrow> (kop + 'p) psa_reply \<times> bool list" where
  "kdf_dispatch (Kdf_setup alg) op answers =
    (case psa_key_derivation_setup op alg of (st, op) \<Rightarrow> (top_reply st [] 0 (Some op) False, answers))"
| "kdf_dispatch (Kdf_input_integer step v) op answers =
    (case psa_key_derivation_input_integer op step v of (st, op) \<Rightarrow> (top_reply st [] 0 (Some op) False, answers))"
| "kdf_dispatch (Kdf_input_bytes step data) op answers =
    (case run_state (psa_key_derivation_input_bytes op step data) (answers, False) of ((st, op), answers, failed) \<Rightarrow>
      (top_reply st [] 0 (Some op) failed, answers))"
| "kdf_dispatch (Kdf_output_bytes n) op answers =
    (case run_state (psa_key_derivation_output_bytes op n) (answers, False) of ((st, op, out), answers, failed) \<Rightarrow>
      (top_reply st out 0 (Some op) failed, answers))"
| "kdf_dispatch Kdf_abort op answers =
    (case psa_key_derivation_abort op of (st, op) \<Rightarrow> (top_reply st [] 0 (Some op) False, answers))"

definition vendored_kdf :: "('b, 'p) psa \<Rightarrow> (bool list \<times> 'b, kop + 'p) psa" where
  "vendored_kdf Q c op b =
    (case c of
       KDF k \<Rightarrow> (case kdf_dispatch k (kdf_operation (top_part op)) (fst b) of (r, answers) \<Rightarrow> (r, answers, snd b))
     | _ \<Rightarrow> (case Q c (rest_part op) (snd b) of (r, b') \<Rightarrow> (rest_reply r, fst b, b')))"

section \<open>A block is a block of PBKDF2\<close>

abbreviation hmac_prf :: "psa_algorithm_t \<Rightarrow> byte list \<Rightarrow> byte list \<Rightarrow> byte list" where
  "hmac_prf alg \<equiv> psa_hmac psa_digest alg"

abbreviation prf_size :: "psa_algorithm_t \<Rightarrow> 8 word" where
  "prf_size alg \<equiv> ucast (PSA_HASH_LENGTH alg)"

abbreviation hlen :: "psa_algorithm_t \<Rightarrow> nat" where
  "hlen alg \<equiv> unat (PSA_HASH_LENGTH alg)"

lemma hmac_same_key: "key0 alg k = key0 alg k' \<Longrightarrow> hmac_prf alg k = hmac_prf alg k'"
  by (simp add: psa_hmac_digests fun_eq_iff)

lemma prf_size_nat:
  assumes "sha_supported alg"
  shows "unat (prf_size alg) = hlen alg" "0 < hlen alg" "hlen alg \<le> 64"
  using assms by (auto simp: sha_supported_def PSA_HASH_LENGTH_def PSA_ALG_HMAC_GET_HASH_def)

lemma length_pbkdf2_U: "sha_supported alg \<Longrightarrow> length (pbkdf2_U (hmac_prf alg) p s i j) = hlen alg"
  by (cases j) (simp_all add: hmac_length)

lemma length_pbkdf2_xors: "sha_supported alg \<Longrightarrow> length (pbkdf2_xors (hmac_prf alg) p s i j) = hlen alg"
  by (induction j) (simp_all add: length_pbkdf2_U hmac_length)

lemma length_pbkdf2_F: "sha_supported alg \<Longrightarrow> length (pbkdf2_F (hmac_prf alg) p s c i) = hlen alg"
  by (simp add: pbkdf2_F_def length_pbkdf2_xors)

lemma put_front: "put a 0 x = x @ drop (length x) a"
  by (simp add: put_def)

lemma iterate_delivers:
  assumes "sha_supported alg" "length K < 2 ^ 32" "key0 alg K = key0 alg p"
    and "take (hlen alg) U = pbkdf2_U (hmac_prf alg) p s i j" "take (hlen alg) A = pbkdf2_xors (hmac_prf alg) p s i j"
  shows "delivers (pbkdf2_iterate k K (PSA_ALG_HMAC alg) (prf_size alg) U A)
    (\<lambda>out. out = pbkdf2_xors (hmac_prf alg) p s i (j + k) @ drop (hlen alg) A)"
  using assms(4,5)
proof (induction k arbitrary: j U A)
  case 0
  then have "A = pbkdf2_xors (hmac_prf alg) p s i j @ drop (hlen alg) A"
    by (metis append_take_drop_id)
  then show ?case by (simp add: delivers_ret)
next
  case (Suc k)
  note s = prf_size_nat [OF assms(1)] mac_size_kept(1) [OF assms(1)]
  let ?V = "pbkdf2_U (hmac_prf alg) p s i (Suc j)" and ?B = "pbkdf2_xors (hmac_prf alg) p s i (Suc j)"
  have "length (take (hlen alg) U) < 2 ^ 32" using s(3) by simp
  from driver_compute_delivers [OF assms(1,2) this]
  have step: "delivers (mbedtls_psa_mac_compute K (PSA_ALG_HMAC alg) (take (hlen alg) U) (PSA_HASH_LENGTH alg))
      (\<lambda>(mac, len). mac = ?V \<and> len = Some (PSA_HASH_LENGTH alg))"
    by (rule delivers_weaken) (auto simp: Suc.prems(1) hmac_same_key [OF assms(3)])
  have V: "take (hlen alg) (put U 0 ?V) = ?V"
    by (simp add: put_front length_pbkdf2_U [OF assms(1)] hmac_length [OF assms(1)])
  have B: "put A 0 (map2 (XOR) (take (hlen alg) A) ?V) = ?B @ drop (hlen alg) A"
    by (simp add: put_front Suc.prems(2) length_pbkdf2_xors [OF assms(1)] hmac_length [OF assms(1)])
  have "take (hlen alg) (?B @ drop (hlen alg) A) = ?B"
    by (simp add: length_pbkdf2_xors [OF assms(1)] hmac_length [OF assms(1)])
  from Suc.IH [OF V this]
  have rest: "delivers (pbkdf2_iterate k K (PSA_ALG_HMAC alg) (prf_size alg) (put U 0 ?V) (?B @ drop (hlen alg) A))
      (\<lambda>out. out = pbkdf2_xors (hmac_prf alg) p s i (j + Suc k) @ drop (hlen alg) A)"
    by (rule delivers_weaken) (simp add: length_pbkdf2_xors [OF assms(1)] hmac_length [OF assms(1)])
  show ?case
    unfolding pbkdf2_iterate.simps s(1,4) Let_def
  proof (rule delivers_bind [OF step], goal_cases)
    case (1 x)
    then show ?case using rest V B by (auto simp del: pbkdf2_U.simps pbkdf2_xors.simps)
  next
    case (2 st x)
    then show ?case by (auto simp: fails_ret split: prod.split)
  qed
qed


text \<open>
  What a block is made from: the iteration count, the salt, and a key that stands for the password. The
  bounds are those of a digest update.
\<close>

definition block_ready ::
  "psa_algorithm_t \<Rightarrow> byte list \<Rightarrow> byte list \<Rightarrow> nat \<Rightarrow> psa_pbkdf2_key_derivation_t \<Rightarrow> bool" where
  "block_ready alg p s c pb \<longleftrightarrow> sha_supported alg \<and> unat (pb_input_cost pb) = c \<and> pb_salt pb = s \<and> length s < 2 ^ 32 \<and>
    unat (pb_password_length pb) < 2 ^ 32 \<and>
    key0 alg (take (unat (pb_password_length pb)) (pb_password pb)) = key0 alg p \<and> length (pb_output_block pb) = 64"

lemma generate_block_delivers:
  assumes "block_ready alg p s c pb"
  shows "delivers (psa_key_derivation_pbkdf2_generate_block pb (PSA_ALG_HMAC alg) (prf_size alg))
    (\<lambda>out. out = pbkdf2_F (hmac_prf alg) p s c (unat (pb_block_number pb)) @ drop (hlen alg) (pb_output_block pb))"
proof -
  let ?K = "take (unat (pb_password_length pb)) (pb_password pb)" and ?n = "put_be 4 (pb_block_number pb)"
  have sha: "sha_supported alg" and c: "unat (pb_input_cost pb) = c" and s: "pb_salt pb = s" "length s < 2 ^ 32"
    and K: "key0 alg ?K = key0 alg p" "length ?K < 2 ^ 32" and b: "length (pb_output_block pb) = 64"
    using assms by (auto simp: block_ready_def)
  note h = prf_size_nat [OF sha] mac_size_kept(1) [OF sha]
  have upd1: "delivers (psa_mac_update op s) (mac_at alg ?K s)" if "mac_at alg ?K [] op" for op
    using mac_update_delivers [OF that s(2)] by simp
  have upd2: "delivers (psa_mac_update op ?n) (mac_at alg ?K (s @ ?n))" if "mac_at alg ?K s op" for op
    by (rule mac_update_delivers [OF that]) simp
  have fin: "delivers (psa_mac_sign_finish op 64) (\<lambda>(op', out, len). mac_out alg ?K (s @ ?n) out len)"
    if "mac_at alg ?K (s @ ?n) op" for op
    by (rule sign_finish_delivers [OF that]) (use h(3) in simp)
  have first: "hmac_prf alg ?K (s @ ?n) = pbkdf2_U (hmac_prf alg) p s (unat (pb_block_number pb)) 0"
    by (simp add: hmac_same_key [OF K(1)])
  have iter: "delivers (pbkdf2_iterate (c - 1) ?K (PSA_ALG_HMAC alg) (prf_size alg) U
      (put (pb_output_block pb) 0 (take (hlen alg) U)))
      (\<lambda>out. out = pbkdf2_F (hmac_prf alg) p s c (unat (pb_block_number pb)) @ drop (hlen alg) (pb_output_block pb))"
    if "mac_out alg ?K (s @ ?n) U len" for U len
  proof -
    have U: "take (hlen alg) U = pbkdf2_U (hmac_prf alg) p s (unat (pb_block_number pb)) 0"
      using that by (simp add: mac_out_def hmac_length [OF sha] first)
    have l: "length (take (hlen alg) U) = hlen alg"
      using U length_pbkdf2_U [OF sha, of p s "unat (pb_block_number pb)" 0] by simp
    show ?thesis
      by (rule delivers_weaken [OF iterate_delivers [OF sha K(2,1) U, of "put (pb_output_block pb) 0 (take (hlen alg) U)"]])
        (use l U in \<open>simp_all add: put_front pbkdf2_F_def\<close>)
  qed
  have len: "len = PSA_HASH_LENGTH alg" if "mac_out alg ?K (s @ ?n) U len" for U len
    using that by (simp add: mac_out_def hmac_length [OF sha])
  show ?thesis
    unfolding psa_key_derivation_pbkdf2_generate_block_def Let_def c s h(1,4)
    by (rule delivers_bind [OF driver_setup_delivers [OF sha K(2)]])
      (auto intro!: delivers_bind [OF upd1] delivers_bind [OF upd2] delivers_bind [OF fin] iter fails_ret
        simp: len mac_at_def simp del: One_nat_def split: prod.split)
qed


section \<open>The loop hands out the blocks in order\<close>

lemma length_blocks: "sha_supported alg \<Longrightarrow> length (pbkdf2_blocks (hmac_prf alg) p s c l) = l * hlen alg"
  by (induction l) (simp_all add: pbkdf2_blocks_def length_pbkdf2_F)

lemma blocks_Suc: "pbkdf2_blocks prf p s c (Suc l) = pbkdf2_blocks prf p s c l @ pbkdf2_F prf p s c (Suc l)"
  by (simp add: pbkdf2_blocks_def)

lemma take_blocks:
  assumes "sha_supported alg" "l \<le> b" "n \<le> l * hlen alg"
  shows "take n (pbkdf2_blocks (hmac_prf alg) p s c b) = take n (pbkdf2_blocks (hmac_prf alg) p s c l)"
  using assms(2)
proof (induction b rule: dec_induct)
  case (step b)
  have "n \<le> b * hlen alg" using assms(3) step(1) by (meson le_trans mult_le_mono1)
  then show ?case by (simp add: blocks_Suc length_blocks [OF assms(1)] step(3))
qed simp

lemma enough_blocks: "0 < h \<Longrightarrow> n \<le> (n + h - 1) div h * (h :: nat)"
  using div_mult_mod_eq [of "n + h - 1" h] mod_less_divisor [of h "n + h - 1"] by linarith

lemma length_rfc_pbkdf2: "sha_supported alg \<Longrightarrow> length (rfc_pbkdf2 (hmac_prf alg) (hlen alg) p s c n) = n"
  using enough_blocks [OF prf_size_nat(2)] by (simp add: rfc_pbkdf2_def length_blocks)

text \<open>Between passes: what was handed out, and what is left of the current block, are the blocks so far.\<close>

definition reading ::
  "psa_algorithm_t \<Rightarrow> byte list \<Rightarrow> byte list \<Rightarrow> nat \<Rightarrow> psa_pbkdf2_key_derivation_t \<Rightarrow> byte list \<Rightarrow> bool" where
  "reading alg p s c pb out \<longleftrightarrow> block_ready alg p s c pb \<and> unat (pb_bytes_used pb) \<le> hlen alg \<and>
    out @ drop (unat (pb_bytes_used pb)) (take (hlen alg) (pb_output_block pb)) =
      pbkdf2_blocks (hmac_prf alg) p s c (unat (pb_block_number pb))"

lemma reading_length:
  assumes "reading alg p s c pb out"
  shows "length out + (hlen alg - unat (pb_bytes_used pb)) = unat (pb_block_number pb) * hlen alg"
proof -
  have s: "sha_supported alg" and b: "length (pb_output_block pb) = 64"
    and e: "out @ drop (unat (pb_bytes_used pb)) (take (hlen alg) (pb_output_block pb)) =
      pbkdf2_blocks (hmac_prf alg) p s c (unat (pb_block_number pb))"
    using assms by (auto simp: reading_def block_ready_def)
  show ?thesis
    using arg_cong [OF e, of length] prf_size_nat(3) [OF s] by (simp add: b length_blocks [OF s])
qed

lemma reading_value:
  assumes "reading alg p s c pb out"
  shows "out = rfc_pbkdf2 (hmac_prf alg) (hlen alg) p s c (length out)"
proof -
  let ?h = "hlen alg" and ?b = "unat (pb_block_number pb)"
  let ?l = "(length out + ?h - 1) div ?h"
  have s: "sha_supported alg" using assms by (simp add: reading_def block_ready_def)
  note h = prf_size_nat(2) [OF s]
  have le: "length out \<le> ?b * ?h" using reading_length [OF assms] by simp
  have "(length out + ?h - 1) < (?b + 1) * ?h" using le h by (simp add: algebra_simps)
  then have l: "?l \<le> ?b" by (simp add: div_less_iff_less_mult [OF h] less_Suc_eq_le [symmetric])
  note n = enough_blocks [OF h, of "length out"]
  have "out = take (length out) (out @ drop (unat (pb_bytes_used pb)) (take ?h (pb_output_block pb)))"
    by simp
  also have "\<dots> = take (length out) (pbkdf2_blocks (hmac_prf alg) p s c ?b)"
    using assms by (simp add: reading_def del: take_append)
  finally show ?thesis
    by (simp add: rfc_pbkdf2_def take_blocks [OF s l n])
qed


text \<open>One pass copies what the block and the request allow.\<close>

lemma pass_copies:
  fixes len :: size_t
  assumes "reading alg p s c pb out"
  defines "n \<equiv> (if ucast (prf_size alg - pb_bytes_used pb) > len then ucast len else prf_size alg - pb_bytes_used pb)"
  shows "unat n = min (hlen alg - unat (pb_bytes_used pb)) (unat len)"
    and "unat (len - ucast n) = unat len - unat n"
    and "reading alg p s c (pb\<lparr>pb_bytes_used := pb_bytes_used pb + n\<rparr>)
      (out @ take (unat n) (drop (unat (pb_bytes_used pb)) (pb_output_block pb)))"
    and "length (take (unat n) (drop (unat (pb_bytes_used pb)) (pb_output_block pb))) = unat n"
    and "unat (pb_bytes_used pb + n) = unat (pb_bytes_used pb) + unat n"
proof -
  let ?u = "unat (pb_bytes_used pb)"
  have s: "sha_supported alg" and b: "length (pb_output_block pb) = 64" and u: "?u \<le> hlen alg"
    using assms(1) by (auto simp: reading_def block_ready_def)
  note h = prf_size_nat [OF s]
  have left: "unat (prf_size alg - pb_bytes_used pb) = hlen alg - ?u"
    using u h(1) by (subst unat_sub) (simp_all add: word_le_nat_alt)
  show n: "unat n = min (hlen alg - ?u) (unat len)"
    using left h(3) by (auto simp: n_def word_less_nat_alt unat_widen unat_narrow min_def)
  then show "unat (len - ucast n) = unat len - unat n"
    by (subst unat_sub) (simp_all add: word_le_nat_alt unat_widen)
  have le: "?u + unat n \<le> hlen alg" using n u by simp
  show used: "unat (pb_bytes_used pb + n) = ?u + unat n"
    by (rule iffD1 [OF unat_add_lem]) (use le h(3) in simp)
  show "length (take (unat n) (drop ?u (pb_output_block pb))) = unat n"
    using le h(3) b by simp
  have "take (unat n) (drop ?u (pb_output_block pb)) @ drop (?u + unat n) (take (hlen alg) (pb_output_block pb)) =
      drop ?u (take (hlen alg) (pb_output_block pb))"
    using le append_take_drop_id [of "unat n" "drop ?u (take (hlen alg) (pb_output_block pb))"]
    by (simp add: drop_take add.commute)
  then show "reading alg p s c (pb\<lparr>pb_bytes_used := pb_bytes_used pb + n\<rparr>)
      (out @ take (unat n) (drop ?u (pb_output_block pb)))"
    using assms(1) le by (simp add: reading_def used block_ready_def)
qed

lemma read_loop_delivers:
  fixes len :: size_t
  assumes "reading alg p s c pb out" "length out + unat len \<le> (2 ^ 32 - 1) * hlen alg"
  shows "delivers (pbkdf2_read_loop (PSA_ALG_HMAC alg) (prf_size alg) pb out len)
    (\<lambda>(pb', out'). reading alg p s c pb' out' \<and> length out' = length out + unat len)"
  using assms
proof (induction "2 * unat len + (if pb_bytes_used pb = 0 then 0 else 1)" arbitrary: pb out len rule: less_induct)
  case less
  show ?case
  proof (cases "len = 0")
    case True
    then show ?thesis using less.prems(1) by (subst pbkdf2_read_loop.simps) (simp add: delivers_ret)
  next
    case len: False
    define n where "n = (if ucast (prf_size alg - pb_bytes_used pb) > len then ucast len else prf_size alg - pb_bytes_used pb)"
    define out1 where "out1 = out @ take (unat n) (drop (unat (pb_bytes_used pb)) (pb_output_block pb))"
    define len1 where "len1 = len - ucast n"
    define pb1 where "pb1 = pb\<lparr>pb_bytes_used := pb_bytes_used pb + n\<rparr>"
    define pb2 where "pb2 = pb1\<lparr>pb_bytes_used := 0, pb_block_number := pb_block_number pb1 + 1\<rparr>"
    note pass = pass_copies [OF less.prems(1), of len, folded n_def]
    have s: "sha_supported alg" using less.prems(1) by (simp add: reading_def block_ready_def)
    note h = prf_size_nat [OF s]
    have r1: "reading alg p s c pb1 out1" using pass(3) by (simp add: pb1_def out1_def)
    have l1: "unat len1 = unat len - unat n" using pass(2) by (simp add: len1_def)
    have o1: "length out1 + unat len1 = length out + unat len"
      using pass(1,4) l1 by (simp add: out1_def)
    have loop: "pbkdf2_read_loop (PSA_ALG_HMAC alg) (prf_size alg) pb out len =
      (if len1 = 0 then ret (PSA_SUCCESS, pb1, out1)
       else do {
         (status, output_block) \<leftarrow> psa_key_derivation_pbkdf2_generate_block pb2 (PSA_ALG_HMAC alg) (prf_size alg);
         if status \<noteq> PSA_SUCCESS then ret (status, pb2\<lparr>pb_output_block := output_block\<rparr>, out1)
         else pbkdf2_read_loop (PSA_ALG_HMAC alg) (prf_size alg) (pb2\<lparr>pb_output_block := output_block\<rparr>) out1 len1
       })"
      by (subst pbkdf2_read_loop.simps)
        (simp only: len if_False Let_def n_def [symmetric] out1_def [symmetric] len1_def [symmetric]
          pb1_def [symmetric] pb2_def [symmetric])
    show ?thesis
    proof (cases "len1 = 0")
      case True
      then show ?thesis using loop r1 o1 by (simp add: delivers_ret)
    next
      case False
      then have pos: "unat len1 \<noteq> 0" by (simp add: unat_eq_zero)
      have used: "unat (pb_bytes_used pb1) = hlen alg"
        using pass(1,5) l1 pos less.prems(1) by (auto simp: pb1_def reading_def min_def split: if_splits)
      have full: "length out1 = unat (pb_block_number pb1) * hlen alg" and
        blocks: "out1 = pbkdf2_blocks (hmac_prf alg) p s c (unat (pb_block_number pb1))"
        using reading_length [OF r1] r1 used by (simp_all add: reading_def)
      have "unat (pb_block_number pb1) * hlen alg < (2 ^ 32 - 1) * hlen alg"
        using o1 pos less.prems(2) full by linarith
      then have bn: "unat (pb_block_number pb2) = Suc (unat (pb_block_number pb1))"
        unfolding pb2_def by (simp add: unat_plus_if_size word_size)
      have ready: "block_ready alg p s c pb2" "length (pb_output_block pb2) = 64"
        using r1 by (simp_all add: reading_def block_ready_def pb2_def)
      have following: "reading alg p s c (pb2\<lparr>pb_output_block := blk\<rparr>) out1 \<and> pb_bytes_used (pb2\<lparr>pb_output_block := blk\<rparr>) = 0"
        if "blk = pbkdf2_F (hmac_prf alg) p s c (unat (pb_block_number pb2)) @ drop (hlen alg) (pb_output_block pb2)" for blk
        using that ready h(3) bn blocks
        by (simp add: reading_def block_ready_def length_pbkdf2_F [OF s] blocks_Suc pb2_def)
      have dec: "2 * unat len1 < 2 * unat len + (if pb_bytes_used pb = 0 then 0 else 1)"
        using pass_shrinks [OF len, of "prf_size alg" "pb_bytes_used pb"] mac_size_kept(2) [OF s]
        by (simp add: len1_def n_def)
      have again: "delivers (pbkdf2_read_loop (PSA_ALG_HMAC alg) (prf_size alg) (pb2\<lparr>pb_output_block := blk\<rparr>) out1 len1)
          (\<lambda>(pb', out'). reading alg p s c pb' out' \<and> length out' = length out + unat len)"
        if "blk = pbkdf2_F (hmac_prf alg) p s c (unat (pb_block_number pb2)) @ drop (hlen alg) (pb_output_block pb2)" for blk
        using less.hyps [of len1 "pb2\<lparr>pb_output_block := blk\<rparr>" out1] following [OF that] dec o1 less.prems(2) by simp
      show ?thesis
        unfolding loop if_not_P [OF False]
        by (rule delivers_bind [OF generate_block_delivers [OF ready(1)]]) (auto intro: again fails_ret)
    qed
  qed
qed


section \<open>The operation from its creation to its output\<close>

definition no_output :: "psa_pbkdf2_key_derivation_t \<Rightarrow> bool" where
  "no_output pb \<longleftrightarrow> length (pb_output_block pb) = 64 \<and> pb_block_number pb = 0"

fun ctx_at :: "psa_algorithm_t \<Rightarrow> kdf_stage \<Rightarrow> psa_pbkdf2_key_derivation_t \<Rightarrow> bool" where
  "ctx_at alg Chosen pb \<longleftrightarrow> pb = zero_pbkdf2"
| "ctx_at alg (Costed c) pb \<longleftrightarrow> pb_state pb = PSA_PBKDF2_STATE_INPUT_COST_SET \<and> unat (pb_input_cost pb) = c \<and>
    pb_salt pb = [] \<and> pb_password pb = replicate 128 0 \<and> no_output pb"
| "ctx_at alg (Salted c s) pb \<longleftrightarrow> pb_state pb = PSA_PBKDF2_STATE_SALT_SET \<and> unat (pb_input_cost pb) = c \<and>
    pb_salt pb = s \<and> pb_password pb = replicate 128 0 \<and> no_output pb"
| "ctx_at alg (Keyed c s p) pb \<longleftrightarrow> pb_state pb = PSA_PBKDF2_STATE_PASSWORD_SET \<and> unat (pb_input_cost pb) = c \<and>
    pb_salt pb = s \<and> unat (pb_password_length pb) < 2 ^ 32 \<and>
    key0 alg (take (unat (pb_password_length pb)) (pb_password pb)) = key0 alg p \<and> no_output pb"

definition kop_at :: "psa_algorithm_t \<Rightarrow> kdf_stage \<Rightarrow> kop \<Rightarrow> bool" where
  "kop_at alg st op \<longleftrightarrow> sha_supported alg \<and> kd_alg op = PSA_ALG_PBKDF2_HMAC alg \<and>
    kd_capacity op = 0xFFFFFFFF * PSA_HASH_LENGTH alg \<and> ctx_at alg st (kd_ctx op)"

lemma pbkdf2_algs:
  assumes "sha_supported alg"
  shows "PSA_ALG_IS_PBKDF2_HMAC (PSA_ALG_PBKDF2_HMAC alg)" "PSA_ALG_PBKDF2_HMAC_GET_HASH (PSA_ALG_PBKDF2_HMAC alg) = alg"
    "PSA_ALG_GET_HASH (PSA_ALG_PBKDF2_HMAC alg) = alg" "PSA_ALG_PBKDF2_HMAC alg \<noteq> 0"
    "\<not> PSA_ALG_IS_KEY_AGREEMENT (PSA_ALG_PBKDF2_HMAC alg)" "PSA_ALG_IS_KEY_DERIVATION (PSA_ALG_PBKDF2_HMAC alg)"
  using assms
  by (auto simp: sha_supported_def PSA_ALG_IS_PBKDF2_HMAC_def PSA_ALG_PBKDF2_HMAC_def PSA_ALG_PBKDF2_HMAC_GET_HASH_def
      PSA_ALG_GET_HASH_def PSA_ALG_IS_KEY_AGREEMENT_def PSA_ALG_IS_KEY_DERIVATION_def)

lemma kdf_alg_at:
  assumes "kop_at alg st op"
  shows "psa_key_derivation_get_kdf_alg op = PSA_ALG_PBKDF2_HMAC alg"
  using assms pbkdf2_algs(5) by (simp add: kop_at_def psa_key_derivation_get_kdf_alg_def)

lemma kdf_setup_at:
  assumes "sha_supported alg"
  obtains op where "psa_key_derivation_setup zero_kop (PSA_ALG_PBKDF2_HMAC alg) = (PSA_SUCCESS, op)" "kop_at alg Chosen op"
proof -
  obtain h where h: "psa_hash_setup None alg = (PSA_SUCCESS, h)" using setup_at [OF assms] .
  have "PSA_HASH_LENGTH alg \<noteq> 0" using prf_size_nat(2) [OF assms] by auto
  then have "psa_key_derivation_setup zero_kop (PSA_ALG_PBKDF2_HMAC alg) =
      (PSA_SUCCESS, \<lparr>kd_alg = PSA_ALG_PBKDF2_HMAC alg, kd_capacity = 0xFFFFFFFF * PSA_HASH_LENGTH alg, kd_ctx = zero_pbkdf2\<rparr>)"
    using pbkdf2_algs [OF assms] h
    by (simp add: psa_key_derivation_setup_def zero_kop_def PSA_ALG_IS_RAW_KEY_AGREEMENT_def psa_key_derivation_setup_kdf_def
        is_kdf_alg_supported_def psa_key_derivation_set_maximum_capacity_def psa_hash_try_support_def Let_def)
  then show ?thesis by (rule that) (simp add: kop_at_def assms)
qed

lemma kdf_cost_at:
  assumes "kop_at alg Chosen op" "c \<noteq> 0" "unat c < 2 ^ 32"
  obtains op' where "psa_key_derivation_input_integer op KDF_INPUT_COST c = (PSA_SUCCESS, op')" "kop_at alg (Costed (unat c)) op'"
proof -
  have "\<not> 0xffffffff < c" using assms(3) by (simp add: word_less_nat_alt)
  then show ?thesis
    using that assms pbkdf2_algs [of alg] kdf_alg_at [OF assms(1)]
    by (simp add: psa_key_derivation_input_integer_def psa_pbkdf2_set_input_cost_def kop_at_def PSA_ALG_IS_PBKDF2_def
        zero_pbkdf2_def no_output_def Let_def)
qed

lemma input_delivers:
  assumes "kop_at alg st op" "psa_key_derivation_check_input_type step 0 = PSA_SUCCESS"
    and "delivers (psa_pbkdf2_input (kd_ctx op) (PSA_ALG_PBKDF2_HMAC alg) step data) (ctx_at alg st')"
  shows "delivers (psa_key_derivation_input_bytes op step data) (kop_at alg st')"
proof -
  have s: "sha_supported alg" using assms(1) by (simp add: kop_at_def)
  show ?thesis
    using assms(1,2) pbkdf2_algs [OF s] kdf_alg_at [OF assms(1)]
    unfolding psa_key_derivation_input_bytes_def psa_key_derivation_input_internal_def Let_def
    by (auto intro!: delivers_try_local delivers_bind [OF assms(3)] delivers_ret fails_ret
        simp: PSA_ALG_IS_PBKDF2_def kop_at_def)
qed

lemma kdf_salt_delivers:
  assumes "kop_at alg (Costed c) op"
  shows "delivers (psa_key_derivation_input_bytes op KDF_INPUT_SALT s) (kop_at alg (Salted c s))"
proof (rule input_delivers [OF assms])
  show "delivers (psa_pbkdf2_input (kd_ctx op) (PSA_ALG_PBKDF2_HMAC alg) KDF_INPUT_SALT s) (ctx_at alg (Salted c s))"
    using assms unfolding psa_pbkdf2_input_def psa_pbkdf2_set_salt_def Let_def
    by (cases "s = []") (auto intro!: delivers_try_local delivers_ret fails_ret simp: kop_at_def no_output_def)
qed (simp add: psa_key_derivation_check_input_type_def)


text \<open>The password as the HMAC key: a short one filled up to a block, a long one hashed.\<close>

lemma password_key:
  assumes "sha_supported alg" "length pw < 2 ^ 32"
  shows "delivers (psa_pbkdf2_hmac_set_password alg pw (replicate 128 0))
    (\<lambda>(password, n). unat n < 2 ^ 32 \<and> key0 alg (take (unat n) password) = key0 alg pw)"
proof -
  let ?B = "unat (PSA_HASH_BLOCK_LENGTH alg)"
  note b = sha_blocks [OF assms(1)]
  have d: "length (psa_digest alg pw) \<le> unat (128 :: size_t)" using b(3) b(4) [of pw] by simp
  show ?thesis
  proof (cases "length pw > ?B")
    case True
    have u: "unat (of_nat (length (psa_digest alg pw)) :: size_t) = length (psa_digest alg pw)"
      using d by (intro unat_of_nat_small) simp
    have hash: "delivers (try_hash_compute alg pw 128)
        (\<lambda>(out, n). take (length (psa_digest alg pw)) out = psa_digest alg pw \<and> unat n = length (psa_digest alg pw))"
      using psa_hash_compute_digest [OF _ assms(2)] psa_hash_compute_able [OF _ assms(1) d] u
      by (fastforce simp: delivers_def try_hash_compute_def split: prod.splits)
    have front: "take n (put x 0 out) = D" if "take n out = D" "n = length D" for n x and out D :: "byte list"
    proof -
      have "length D = min (length out) n" using that(1) by (metis length_take)
      then show ?thesis using that by (simp add: put_front)
    qed
    have key: "key0 alg (psa_digest alg pw) = key0 alg pw"
      using True b(4) [of pw] by (simp add: hmac_key0_def Let_def)
    show ?thesis
      using True d unfolding psa_pbkdf2_hmac_set_password_def
      by simp (rule delivers_bind [OF hash]; auto intro!: delivers_ret fails_ret simp: front key)
  next
    case False
    then show ?thesis
      using b(3) unfolding psa_pbkdf2_hmac_set_password_def
      by (auto intro!: delivers_ret simp: hmac_key0_def put_front)
  qed
qed

lemma kdf_password_delivers:
  assumes "kop_at alg (Salted c s) op" "length pw < 2 ^ 32"
  shows "delivers (psa_key_derivation_input_bytes op KDF_INPUT_PASSWORD pw) (kop_at alg (Keyed c s pw))"
proof (rule input_delivers [OF assms(1)])
  have s: "sha_supported alg" and pw: "pb_password (kd_ctx op) = replicate 128 0"
    using assms(1) by (simp_all add: kop_at_def)
  show "delivers (psa_pbkdf2_input (kd_ctx op) (PSA_ALG_PBKDF2_HMAC alg) KDF_INPUT_PASSWORD pw) (ctx_at alg (Keyed c s pw))"
    using assms(1) unfolding psa_pbkdf2_input_def psa_pbkdf2_set_password_def
    by (auto simp: pbkdf2_algs [OF s] pw kop_at_def no_output_def
        intro!: delivers_bind [OF password_key [OF s assms(2)]] delivers_ret fails_ret)
qed (simp add: psa_key_derivation_check_input_type_def)

lemma capacity_nat: "sha_supported alg \<Longrightarrow> unat (0xFFFFFFFF * PSA_HASH_LENGTH alg) = (2 ^ 32 - 1) * hlen alg"
  by (auto simp: sha_supported_def PSA_HASH_LENGTH_def PSA_ALG_HMAC_GET_HASH_def)

lemma kdf_output_delivers:
  assumes "kop_at alg (Keyed c s p) op" "length s < 2 ^ 32" "unat n \<le> (2 ^ 32 - 1) * hlen alg" "n \<noteq> 0"
  shows "delivers (psa_key_derivation_output_bytes op n)
    (\<lambda>(op', out). out = rfc_pbkdf2 (hmac_prf alg) (hlen alg) p s c (unat n))"
proof -
  have sha: "sha_supported alg" and pb: "ctx_at alg (Keyed c s p) (kd_ctx op)" "kd_alg op = PSA_ALG_PBKDF2_HMAC alg"
      "kd_capacity op = 0xFFFFFFFF * PSA_HASH_LENGTH alg"
    using assms(1) by (simp_all add: kop_at_def)
  let ?pb = "(kd_ctx op)\<lparr>pb_bytes_used := prf_size alg, pb_state := PSA_PBKDF2_STATE_OUTPUT\<rparr>"
  have "reading alg p s c ?pb []"
    using pb(1) sha assms(2) by (simp add: reading_def block_ready_def prf_size_nat no_output_def pbkdf2_blocks_def)
  from read_loop_delivers [OF this] assms(3)
  have loop: "delivers (pbkdf2_read_loop (PSA_ALG_HMAC alg) (prf_size alg) ?pb [] n)
      (\<lambda>(pb', out'). reading alg p s c pb' out' \<and> length out' = unat n)"
    by simp
  have room: "\<not> n > kd_capacity op" using assms(3) by (simp add: pb(3) word_less_nat_alt capacity_nat [OF sha])
  have hl: "PSA_HASH_LENGTH (PSA_ALG_HMAC alg) = PSA_HASH_LENGTH alg"
    using hmac_algs(2) [OF sha] sha by (auto simp: sha_supported_def PSA_HASH_LENGTH_def PSA_ALG_HMAC_GET_HASH_def PSA_ALG_HMAC_def)
  have read: "delivers (psa_key_derivation_pbkdf2_read (kd_ctx op) (PSA_ALG_PBKDF2_HMAC alg) n)
      (\<lambda>(pb', out'). out' = rfc_pbkdf2 (hmac_prf alg) (hlen alg) p s c (unat n) \<and> length out' = unat n)"
    using pb(1)
    by (simp add: psa_key_derivation_pbkdf2_read_def pbkdf2_algs [OF sha] hl)
      (rule delivers_weaken [OF loop]; use reading_value in force)
  show ?thesis
    using pbkdf2_algs [OF sha] pb(2) kdf_alg_at [OF assms(1)] room assms(4)
    unfolding psa_key_derivation_output_bytes_def Let_def
    by (auto intro!: delivers_try_local delivers_bind [OF read] delivers_ret fails_ret
        simp: PSA_ALG_IS_PBKDF2_def output_exit_def put_front)
qed


section \<open>The vendored calls keep the contract\<close>

definition vendored_stage :: "psa_algorithm_t \<Rightarrow> kdf_stage \<Rightarrow> (kop + 'p) option \<Rightarrow> bool" where
  "vendored_stage alg st op \<longleftrightarrow> (\<exists>x. top_part op = Some x \<and> kop_at alg st x)"

lemmas kdf_runs = vendored_kdf_def vendored_stage_def kdf_operation_def case_prod_unfold call_gives_def

lemma vendored_kdf_setup:
  assumes "sha_supported alg"
  shows "call_gives vendored_able b (vendored_kdf Q (KDF (Kdf_setup (PSA_ALG_PBKDF2_HMAC alg))) None b)
    (\<lambda>r. vendored_stage alg Chosen (r_op r))"
proof -
  obtain x where "psa_key_derivation_setup zero_kop (PSA_ALG_PBKDF2_HMAC alg) = (PSA_SUCCESS, x)" "kop_at alg Chosen x"
    using kdf_setup_at [OF assms] .
  then show ?thesis by (simp add: kdf_runs)
qed

lemma vendored_kdf_cost:
  assumes "vendored_stage alg Chosen op" "c \<noteq> 0" "unat c < 2 ^ 32"
  shows "call_gives vendored_able b (vendored_kdf Q (KDF (Kdf_input_integer KDF_INPUT_COST c)) op b)
    (\<lambda>r. vendored_stage alg (Costed (unat c)) (r_op r))"
proof -
  obtain x where x: "op = Some (Inl x)" "kop_at alg Chosen x" using assms(1) by (auto simp: vendored_stage_def)
  obtain y where "psa_key_derivation_input_integer x KDF_INPUT_COST c = (PSA_SUCCESS, y)" "kop_at alg (Costed (unat c)) y"
    using kdf_cost_at [OF x(2) assms(2,3)] .
  then show ?thesis by (simp add: kdf_runs x(1))
qed

lemma vendored_kdf_input:
  assumes "delivers (psa_key_derivation_input_bytes x step d) (kop_at alg st)"
  shows "call_gives vendored_able b (vendored_kdf Q (KDF (Kdf_input_bytes step d)) (Some (Inl x)) b)
    (\<lambda>r. vendored_stage alg st (r_op r))"
  using delivers_run [OF assms, of "(fst b, False)"] by (simp add: kdf_runs)

lemma vendored_kdf_salt:
  assumes "vendored_stage alg (Costed c) op"
  shows "call_gives vendored_able b (vendored_kdf Q (KDF (Kdf_input_bytes KDF_INPUT_SALT s)) op b)
    (\<lambda>r. vendored_stage alg (Salted c s) (r_op r))"
  using assms(1) by (auto simp: vendored_stage_def [of _ "Costed c"] intro: vendored_kdf_input [OF kdf_salt_delivers])

lemma vendored_kdf_password:
  assumes "vendored_stage alg (Salted c s) op" "length p < 2 ^ 32"
  shows "call_gives vendored_able b (vendored_kdf Q (KDF (Kdf_input_bytes KDF_INPUT_PASSWORD p)) op b)
    (\<lambda>r. vendored_stage alg (Keyed c s p) (r_op r))"
  using assms(1) by (auto simp: vendored_stage_def [of _ "Salted c s"] intro: vendored_kdf_input [OF kdf_password_delivers [OF _ assms(2)]])

lemma vendored_kdf_fits:
  assumes "vendored_stage alg (Keyed c s p) op" "n \<noteq> 0"
    and "r_status (fst (vendored_kdf Q (KDF (Kdf_output_bytes n)) op b)) = PSA_SUCCESS"
  shows "unat n \<le> (2 ^ 32 - 1) * hlen alg"
proof -
  obtain x where x: "op = Some (Inl x)" "kop_at alg (Keyed c s p) x" using assms(1) by (auto simp: vendored_stage_def)
  then have cap: "kd_alg x \<noteq> 0" "kd_capacity x = 0xFFFFFFFF * PSA_HASH_LENGTH alg" "sha_supported alg"
    using pbkdf2_algs(4) [of alg] by (simp_all add: kop_at_def)
  have "\<not> n > kd_capacity x"
    using assms(2,3) cap(1)
    by (auto simp: kdf_runs x(1) psa_key_derivation_output_bytes_def Let_def output_exit_def split: if_splits)
  then show ?thesis
    using cap(2) capacity_nat [OF cap(3)] by (simp add: word_less_nat_alt)
qed

lemma vendored_kdf_output:
  assumes "vendored_stage alg (Keyed c s p) op" "length s < 2 ^ 32" "n \<noteq> 0" "unat n \<le> (2 ^ 32 - 1) * hlen alg"
  shows "call_gives vendored_able b (vendored_kdf Q (KDF (Kdf_output_bytes n)) op b)
    (\<lambda>r. r_out r = rfc_pbkdf2 (hmac_prf alg) (hlen alg) p s c (unat n) \<and> length (r_out r) = unat n)"
proof -
  obtain x where x: "op = Some (Inl x)" "kop_at alg (Keyed c s p) x" using assms(1) by (auto simp: vendored_stage_def)
  from delivers_run [OF kdf_output_delivers [OF x(2) assms(2,4,3)], of "(fst b, False)"]
  show ?thesis using x(2) by (simp add: kdf_runs x(1) kop_at_def length_rfc_pbkdf2)
qed

interpretation vendored_kdf: psa_kdf_contract "vendored_kdf Q" hmac_prf hlen vendored_stage sha_supported "2 ^ 32"
  vendored_able for Q
  by unfold_locales
    (rule available_sha vendored_kdf_setup vendored_kdf_cost vendored_kdf_salt vendored_kdf_password vendored_kdf_fits
      vendored_kdf_output; assumption)+


section \<open>Properties\<close>

text \<open>
  C4. \<^verbatim>\<open>zucrypt_pbkdf2\<close> over the vendored calls is PBKDF2: whenever it returns status 0, its value is a raw
  vector of the length asked for, with the key that RFC 8018 derives from the password and the salt with
  HMAC over the digest it was given by name and the number of iterations, for outputs of any number of
  blocks. Passwords and salts below 4 GiB.
\<close>

theorem zucrypt_pbkdf2_is_pbkdf2:
  assumes "run_state (zucrypt_pbkdf2 (vendored_kdf Q) (RAWSXP p pn) (RAWSXP q qn) (REALSXP iterations) (REALSXP len)
      (STRSXP [name])) s = (Returned (VECSXP [(''status'', INTSXP [0]), (''value'', v)]), s')"
    and "unat pn < 2 ^ 32" "unat qn < 2 ^ 32"
  shows "\<exists>out. v = RAWSXP out (of_int len) \<and>
    mem_read (w_mem (rs_world s')) out (of_int len) =
      rfc_pbkdf2 (psa_hmac psa_digest (zuc_int_psa_hash (zuc_alg_by_name (Some name))))
        (unat (PSA_HASH_LENGTH (zuc_int_psa_hash (zuc_alg_by_name (Some name)))))
        (mem_read (w_mem (rs_world s)) p pn) (mem_read (w_mem (rs_world s)) q qn)
        (unat (of_int iterations :: 32 word)) (unat (of_int len :: size_t))"
  by (rule vendored_kdf.zucrypt_pbkdf2_value [OF assms])

lemma sha256_hlen: "hlen (zuc_int_psa_hash ZUC_ALG_SHA256) = 32"
  by (simp add: zuc_int_psa_hash_def PSA_HASH_LENGTH_def PSA_ALG_HMAC_GET_HASH_def)

text \<open>Deriving 100 bytes, four blocks, with 600000 iterations.\<close>

definition kdf_session :: "(bool list \<times> unit, kop + unit) session" where
  "kdf_session =
    \<lparr>rs_world = fresh_world ([], ()) [], rs_ptrs = Map.empty, rs_allocs = [100, 101],
     rs_interrupts = []\<rparr>"

lemma kdf_demo_runs:
  "\<exists>s'. run_state (zucrypt_pbkdf2 (vendored_kdf (scripted accept_all)) (RAWSXP 8192 20) (RAWSXP 16384 16) (REALSXP 600000)
      (REALSXP 100) (STRSXP [''sha256''])) kdf_session =
    (Returned (VECSXP [(''status'', INTSXP [0]), (''value'', RAWSXP 100 (of_int 100))]), s')"
  by (rule vendored_kdf.zucrypt_pbkdf2_succeeds [where r = 101 and ps = "[]"])
    (simp_all add: kdf_session_def fresh_world_def digest_session_ok(7,8) psa_hash_sizes sha256_hlen)

theorem zucrypt_pbkdf2_is_pbkdf2_witness:
  "\<exists>s'. run_state (zucrypt_pbkdf2 (vendored_kdf (scripted accept_all)) (RAWSXP 8192 20) (RAWSXP 16384 16) (REALSXP 600000)
      (REALSXP 100) (STRSXP [''sha256''])) kdf_session =
    (Returned (VECSXP [(''status'', INTSXP [0]), (''value'', RAWSXP 100 100)]), s') \<and>
    mem_read (w_mem (rs_world s')) 100 100 =
      rfc_pbkdf2 (fips_hmac sha256_digest 64) 32 (mem_read (\<lambda>a. ucast a) 8192 20) (mem_read (\<lambda>a. ucast a) 16384 16) 600000 100"
proof -
  obtain s' where run: "run_state (zucrypt_pbkdf2 (vendored_kdf (scripted accept_all)) (RAWSXP 8192 20) (RAWSXP 16384 16)
      (REALSXP 600000) (REALSXP 100) (STRSXP [''sha256''])) kdf_session =
    (Returned (VECSXP [(''status'', INTSXP [0]), (''value'', RAWSXP 100 (of_int 100))]), s')"
    using kdf_demo_runs by blast
  show ?thesis
    using zucrypt_pbkdf2_is_pbkdf2 [OF run] run
    by (auto simp: digest_session_ok(7) kdf_session_def fresh_world_def sha256_hmac sha256_hlen)
qed

end
