(* ===== verification/Ghash.thy ===== *)
theory Ghash
  imports Sha2
begin

text \<open>
  Multiplication in the field of GCM (SP 800-38D, section 6.3) and the table-driven multiplication of
  \<^verbatim>\<open>gcm.c\<close>, which the development shows to compute it. Blocks are words of 128 bits; bit 0 of the standard is
  the most significant one.
\<close>

section \<open>The field\<close>

definition gf_mulx :: "128 word \<Rightarrow> 128 word" where
  "gf_mulx v = (if bit v 0 then drop_bit 1 v XOR 0xE1000000000000000000000000000000 else drop_bit 1 v)"

fun gf_loop :: "128 word \<Rightarrow> 128 word \<Rightarrow> nat \<Rightarrow> 128 word \<times> 128 word" where
  "gf_loop X Y 0 = (0, Y)"
| "gf_loop X Y (Suc i) = (case gf_loop X Y i of (Z, V) \<Rightarrow> (if bit X (127 - i) then Z XOR V else Z, gf_mulx V))"

definition gf_mult :: "128 word \<Rightarrow> 128 word \<Rightarrow> 128 word" where
  "gf_mult X Y = fst (gf_loop X Y 128)"

text \<open>The same as a sum over the bits of the first factor.\<close>

fun gf_sum :: "(nat \<Rightarrow> bool) \<Rightarrow> 128 word \<Rightarrow> nat \<Rightarrow> 128 word" where
  "gf_sum f Y 0 = 0"
| "gf_sum f Y (Suc n) = gf_sum f Y n XOR (if f n then (gf_mulx ^^ n) Y else 0)"

lemma gf_mulx_xor: "gf_mulx (a XOR b) = gf_mulx a XOR gf_mulx b"
  by (rule bit_word_eqI) (auto simp: gf_mulx_def bit_simps)

lemma gf_mulx_0 [simp]: "gf_mulx 0 = 0"
  by (simp add: gf_mulx_def)

lemma mulx_pow_xor: "(gf_mulx ^^ n) (a XOR b) = (gf_mulx ^^ n) a XOR (gf_mulx ^^ n) b"
  by (induction n) (simp_all add: gf_mulx_xor)

lemma mulx_pow_0 [simp]: "(gf_mulx ^^ n) 0 = 0"
  by (induction n) simp_all

lemma gf_loop_sum: "gf_loop X Y n = (gf_sum (\<lambda>i. bit X (127 - i)) Y n, (gf_mulx ^^ n) Y)"
  by (induction n) simp_all

lemma gf_sum_add: "gf_sum f Y (m + n) = gf_sum f Y m XOR (gf_mulx ^^ m) (gf_sum (\<lambda>i. f (m + i)) Y n)"
  by (induction n) (simp_all add: mulx_pow_xor funpow_add xor.assoc)

lemma gf_sum_cong: "(\<And>i. i < n \<Longrightarrow> f i = g i) \<Longrightarrow> gf_sum f Y n = gf_sum g Y n"
  by (induction n) simp_all

section \<open>Shoup's tables: gcm.c\<close>

text \<open>A table has sixteen entries of two 64-bit words.\<close>

type_synonym gcm_row = "64 word \<times> 64 word"

definition gcm_join :: "gcm_row \<Rightarrow> 128 word" where
  "gcm_join z = push_bit 64 (ucast (fst z)) OR ucast (snd z)"

definition last4 :: "16 word list" where
  "last4 = [0x0000, 0x1c20, 0x3840, 0x2460, 0x7080, 0x6ca0, 0x48c0, 0x54e0,
            0xe100, 0xfd20, 0xd940, 0xc560, 0x9180, 0x8da0, 0xa9c0, 0xb5e0]"

definition gcm_xor :: "gcm_row \<Rightarrow> gcm_row \<Rightarrow> gcm_row" where
  "gcm_xor a b = (fst a XOR fst b, snd a XOR snd b)"

text \<open>The step the multiplication makes for each half of a byte.\<close>

definition gcm_shift :: "gcm_row \<Rightarrow> gcm_row" where
  "gcm_shift z =
    (let rem = unat (snd z AND 0xf)
     in (drop_bit 4 (fst z) XOR push_bit 48 (ucast (last4 ! rem)), push_bit 60 (fst z) OR drop_bit 4 (snd z)))"

lemma bit_gcm_join: "bit (gcm_join z) n \<longleftrightarrow> (if n < 64 then bit (snd z) n else bit (fst z) (n - 64))"
  by (auto simp: gcm_join_def bit_simps dest: bit_imp_le_length)

lemma gcm_join_xor: "gcm_join (gcm_xor a b) = gcm_join a XOR gcm_join b"
  by (rule bit_word_eqI) (simp add: bit_gcm_join gcm_xor_def bit_simps)

lemma mulx_pow_low:
  assumes "\<And>i. i < n \<Longrightarrow> \<not> bit v i"
  shows "(gf_mulx ^^ n) v = drop_bit n v"
  using assms by (induction n) (simp_all add: gf_mulx_def bit_drop_bit_eq)

lemma nibble_mask: "(0xf :: 'a :: len word) = mask 4"
  by (simp add: mask_eq_decr_exp)

lemma mulx_4_high: "(gf_mulx ^^ 4) (v AND NOT 0xf) = drop_bit 4 v"
proof -
  have "(gf_mulx ^^ 4) (v AND NOT (mask 4)) = drop_bit 4 (v AND NOT (mask 4))"
    by (rule mulx_pow_low) (simp add: bit_simps)
  also have "\<dots> = drop_bit 4 v"
    by (rule bit_word_eqI) (auto simp: bit_simps dest: bit_imp_le_length)
  finally show ?thesis by (simp only: nibble_mask)
qed

lemma funpow_4: "(f ^^ 4) x = f (f (f (f x)))"
  by (simp add: numeral_eq_Suc)

lemma all_below_16: "(\<forall>i \<in> {..<16 :: nat}. P i) \<longleftrightarrow> P 0 \<and> P 1 \<and> P 2 \<and> P 3 \<and> P 4 \<and> P 5 \<and> P 6 \<and> P 7 \<and>
    P 8 \<and> P 9 \<and> P 10 \<and> P 11 \<and> P 12 \<and> P 13 \<and> P 14 \<and> P 15"
  by (auto simp: lessThan_Suc numeral_eq_Suc)

lemma mulx_4_nibble:
  assumes "n < 16"
  shows "(gf_mulx ^^ 4) (word_of_nat n) = push_bit 112 (ucast (last4 ! n))"
proof -
  have "\<forall>i \<in> {..<16}. (gf_mulx ^^ 4) (word_of_nat i) = push_bit 112 (ucast (last4 ! i))"
    unfolding all_below_16 by (simp add: funpow_4 gf_mulx_def last4_def)
  with assms show ?thesis by simp
qed

lemma low_nibble: "gcm_join z AND 0xf = word_of_nat (unat (snd z AND 0xf))"
proof -
  have "gcm_join z AND mask 4 = ucast (snd z AND mask 4)"
    by (rule bit_word_eqI) (auto simp: bit_gcm_join bit_simps)
  then show ?thesis by (simp add: nibble_mask)
qed

lemma nibble_small: "unat (w AND 0xf :: 'a :: len word) < 16"
proof -
  have "unat (take_bit 4 w) < 2 ^ 4" by (simp only: unsigned_take_bit_eq take_bit_nat_less_exp)
  then show ?thesis by (simp add: nibble_mask take_bit_eq_mask [symmetric])
qed

lemma gcm_shift_mulx: "gcm_join (gcm_shift z) = (gf_mulx ^^ 4) (gcm_join z)"
proof -
  let ?v = "gcm_join z" and ?n = "unat (snd z AND 0xf)"
  have "?v = (?v AND NOT 0xf) XOR (?v AND 0xf)"
    by (rule bit_word_eqI) (auto simp: bit_simps)
  then have "(gf_mulx ^^ 4) ?v = drop_bit 4 ?v XOR push_bit 112 (ucast (last4 ! ?n))"
    by (metis mulx_pow_xor mulx_4_high low_nibble mulx_4_nibble [OF nibble_small])
  also have "\<dots> = gcm_join (gcm_shift z)"
    by (rule bit_word_eqI) (auto simp: bit_gcm_join gcm_shift_def Let_def bit_simps dest: bit_imp_le_length)
  finally show ?thesis by simp
qed

section \<open>Bytes of a block\<close>

lemma bit_foldl_be:
  "bit (foldl (\<lambda>w b. push_bit 8 w OR ucast b) 0 bs :: 'w :: len word) i \<longleftrightarrow>
    i < LENGTH('w) \<and> i < 8 * length bs \<and> bit ((rev bs ! (i div 8)) :: byte) (i mod 8)"
proof (induction bs arbitrary: i rule: rev_induct)
  case (snoc b bs)
  show ?case
  proof (cases "i < 8")
    case True
    then show ?thesis by (auto simp: bit_simps snoc.IH)
  next
    case False
    then obtain k where k: "i = k + 8" by (metis add.commute le_Suc_ex not_less)
    then have "i div 8 = Suc (k div 8)" "(i - 8) mod 8 = i mod 8" by simp_all
    then have "rev (bs @ [b]) ! (i div 8) = rev bs ! ((i - 8) div 8)" "(i - 8) mod 8 = i mod 8"
      using k by simp_all
    then show ?thesis
      using False by (auto simp: bit_simps snoc.IH dest: bit_imp_le_length)
  qed
qed simp

lemma bit_get_be:
  assumes "length bs \<ge> off + n"
  shows "bit (get_be n bs off :: 'w :: len word) i \<longleftrightarrow> i < LENGTH('w) \<and> i < 8 * n \<and> bit (bs ! (off + n - 1 - i div 8)) (i mod 8)"
proof (cases "i < 8 * n")
  case True
  then have "i div 8 < n" by auto
  then have "rev (take n (drop off bs)) ! (i div 8) = bs ! (off + n - 1 - i div 8)"
    using assms by (simp add: rev_nth)
  then show ?thesis
    using assms True by (simp add: get_be_def bit_foldl_be)
qed (use assms in \<open>simp add: get_be_def bit_foldl_be\<close>)

lemma put_be_nth: "k < n \<Longrightarrow> bit (put_be n w ! k) j \<longleftrightarrow> j < 8 \<and> bit w (8 * (n - 1 - k) + j)"
  by (auto simp: put_be_def bit_simps)

text \<open>The block with the given bytes, and its bits in the order of the standard.\<close>

definition gcm_block :: "byte list \<Rightarrow> 128 word" where
  "gcm_block bs = get_be 16 bs 0"

definition byte_bit :: "byte list \<Rightarrow> nat \<Rightarrow> bool" where
  "byte_bit bs i \<longleftrightarrow> bit (bs ! (i div 8)) (7 - i mod 8)"

lemma bit_gcm_block:
  assumes "length bs = 16"
  shows "bit (gcm_block bs) i \<longleftrightarrow> i < 128 \<and> bit (bs ! (15 - i div 8)) (i mod 8)"
  using assms by (simp add: gcm_block_def bit_get_be)

lemma gcm_block_bits:
  assumes "length bs = 16" "i < 128"
  shows "bit (gcm_block bs) (127 - i) \<longleftrightarrow> byte_bit bs i"
proof -
  define q r s where "q = i div 8" and "r = i mod 8" and "s = 7 - i mod 8"
  have i: "i = 8 * q + r" "r < 8" "s + r = 7" by (simp_all add: q_def r_def s_def)
  then have "127 - i = s + 8 * (15 - q)" "s < 8" "q \<le> 15" using assms(2) by linarith+
  then have "(127 - i) div 8 = 15 - i div 8" "(127 - i) mod 8 = 7 - i mod 8" "15 - (15 - i div 8) = i div 8"
    by (simp_all add: q_def [symmetric] s_def [symmetric])
  then show ?thesis
    using assms by (auto simp: bit_gcm_block byte_bit_def)
qed

lemma gcm_block_rows: "length bs = 16 \<Longrightarrow> gcm_join (get_be 8 bs 0, get_be 8 bs 8) = gcm_block bs"
proof (rule bit_word_eqI)
  fix n
  assume "length bs = 16" "n < LENGTH(128)"
  show "bit (gcm_join (get_be 8 bs 0, get_be 8 bs 8)) n = bit (gcm_block bs) n"
  proof (cases "n < 64")
    case False
    then obtain k where "n = k + 64" by (metis add.commute le_Suc_ex not_less)
    moreover have "(k + 64) mod 8 = k mod 8" "(k + 64) div 8 = k div 8 + 8" by presburger+
    ultimately show ?thesis using \<open>length bs = 16\<close> \<open>n < LENGTH(128)\<close>
      by (simp add: bit_gcm_join bit_get_be bit_gcm_block)
  qed (use \<open>length bs = 16\<close> in \<open>simp add: bit_gcm_join bit_get_be bit_gcm_block\<close>)
qed

section \<open>The table\<close>

text \<open>Rows are bytes while they are shifted, and are packed as 64-bit words after that.\<close>

definition gcm_gen_table_rightshift :: "byte list \<Rightarrow> byte list" where
  "gcm_gen_table_rightshift src =
    (let dst1 = put_be 8 (drop_bit 1 (get_be 8 src 8 :: 64 word));
         dst1 = dst1[0 := dst1 ! 0 OR push_bit 7 (src ! 7 AND 1)];
         dst0 = put_be 8 (drop_bit 1 (get_be 8 src 0 :: 64 word));
         dst0 = dst0[0 := dst0 ! 0 XOR (if src ! 15 AND 1 \<noteq> 0 then 0xE1 else 0)]
     in dst0 @ dst1)"

definition gcm_pack :: "byte list \<Rightarrow> gcm_row" where
  "gcm_pack row = (get_be 8 row 0, get_be 8 row 8)"

text \<open>From the encrypted zero block. The rows that are not written before they are read are zero.\<close>

definition gcm_gen_table :: "byte list \<Rightarrow> gcm_row list" where
  "gcm_gen_table h =
    (let H = (replicate 16 (replicate 16 0))[8 := h];
         H = fold (\<lambda>i H. H[i := gcm_gen_table_rightshift (H ! (i * 2))]) [4, 2, 1] H;
         H = map gcm_pack H
     in fold (\<lambda>i H. fold (\<lambda>j H. H[i + j := gcm_xor (H ! i) (H ! j)]) [1..<i] H) [2, 4, 8] H)"

lemma get_be_parts:
  "length a = 8 \<Longrightarrow> get_be 8 (a @ b) 0 = get_be 8 a 0" "length a = 8 \<Longrightarrow> get_be 8 (a @ b) 8 = get_be 8 b 0"
  by (simp_all add: get_be_def)

lemma get_put_be: "get_be 8 (put_be 8 w) 0 = (w :: 64 word)"
proof (rule bit_word_eqI)
  fix n
  assume n: "n < LENGTH(64)"
  define q r where "q = n div 8" and "r = n mod 8"
  have "n = 8 * q + r" "r < 8" by (simp_all add: q_def r_def)
  moreover from this have "7 - (7 - q) = q" using n by simp
  ultimately show "bit (get_be 8 (put_be 8 w) 0 :: 64 word) n = bit w n"
    using n by (simp add: bit_get_be put_be_nth put_be_def [of 8, THEN arg_cong [of _ _ length]] q_def [symmetric] r_def [symmetric])
qed

lemma mod_top: "n < 8 \<Longrightarrow> (n + 56) mod 8 = (n :: nat)"
  by presburger

lemma and_1_bit: "(w :: 'a :: len word) AND 1 = (if bit w 0 then 1 else 0)"
  by (rule bit_word_eqI) (auto simp: bit_simps intro!: gr0I)

lemma join_drop: "drop_bit 1 (gcm_join (a, b)) = gcm_join (drop_bit 1 a, drop_bit 1 b OR push_bit 63 (a AND 1))"
proof (rule bit_word_eqI)
  fix n
  assume n: "n < LENGTH(128)"
  consider "n < 63" | "n = 63" | k where "n = k + 64" "k < 64"
  proof -
    have "n < 63 \<or> n = 63 \<or> n = (n - 64) + 64 \<and> n - 64 < 64" using n by simp linarith
    then show ?thesis using that by blast
  qed
  then show "bit (drop_bit 1 (gcm_join (a, b))) n =
      bit (gcm_join (drop_bit 1 a, drop_bit 1 b OR push_bit 63 (a AND 1))) n"
    by cases (auto simp: bit_gcm_join bit_simps dest: bit_imp_le_length)
qed

lemma mulx_join:
  "gf_mulx (gcm_join (a, b)) =
    gcm_join (drop_bit 1 a XOR (if bit b 0 then 0xE100000000000000 else 0), drop_bit 1 b OR push_bit 63 (a AND 1))"
proof -
  have R: "(0xE1000000000000000000000000000000 :: 128 word) = gcm_join (0xE100000000000000, 0)"
    by (simp add: gcm_join_def)
  have low: "bit (gcm_join (a, b)) 0 = bit b 0" by (simp add: bit_gcm_join)
  show ?thesis
    unfolding gf_mulx_def low R join_drop gcm_join_xor [symmetric] by (simp add: gcm_xor_def)
qed

lemma get_be_first:
  fixes x :: byte
  assumes "length bs = 8"
  shows "(get_be 8 (bs[0 := bs ! 0 OR x]) 0 :: 64 word) = get_be 8 bs 0 OR push_bit 56 (ucast x)"
    and "(get_be 8 (bs[0 := bs ! 0 XOR x]) 0 :: 64 word) = get_be 8 bs 0 XOR push_bit 56 (ucast x)"
proof -
  have top: "(get_be 8 (bs[0 := f (bs ! 0)]) 0 :: 64 word) = g (get_be 8 bs 0)"
    if "\<And>n. n < 56 \<Longrightarrow> bit (g (get_be 8 bs 0 :: 64 word)) n = bit (get_be 8 bs 0 :: 64 word) n"
      "\<And>n. n < 8 \<Longrightarrow> bit (g (get_be 8 bs 0 :: 64 word)) (n + 56) = bit (f (bs ! 0)) n" for f g
  proof (rule bit_word_eqI)
    fix n
    assume n: "n < LENGTH(64)"
    show "bit (get_be 8 (bs[0 := f (bs ! 0)]) 0 :: 64 word) n = bit (g (get_be 8 bs 0)) n"
    proof (cases "n < 56")
      case True
      then have "7 - n div 8 \<noteq> 0" by linarith
      then show ?thesis using True n assms that(1) [OF True] by (simp add: bit_get_be nth_list_update)
    next
      case False
      then obtain k where k: "n = k + 56" by (metis add.commute le_Suc_ex not_less)
      then have k8: "k < 8" using n by simp
      then have "(k + 56) div 8 = 7" "(k + 56) mod 8 = k" by presburger+
      then show ?thesis using n assms that(2) [OF k8] k by (simp add: bit_get_be)
    qed
  qed
  show "(get_be 8 (bs[0 := bs ! 0 OR x]) 0 :: 64 word) = get_be 8 bs 0 OR push_bit 56 (ucast x)"
    by (rule top) (use assms in \<open>auto simp: bit_simps bit_get_be mod_top\<close>)
  show "(get_be 8 (bs[0 := bs ! 0 XOR x]) 0 :: 64 word) = get_be 8 bs 0 XOR push_bit 56 (ucast x)"
    by (rule top) (use assms in \<open>auto simp: bit_simps bit_get_be mod_top\<close>)
qed

lemma rightshift_mulx:
  assumes "length src = 16"
  shows "gcm_join (gcm_pack (gcm_gen_table_rightshift src)) = gf_mulx (gcm_join (gcm_pack src))"
    and "length (gcm_gen_table_rightshift src) = 16"
proof -
  show "length (gcm_gen_table_rightshift src) = 16"
    by (simp add: gcm_gen_table_rightshift_def put_be_def Let_def)
  define a b :: "64 word" where "a = get_be 8 src 0" and "b = get_be 8 src 8"
  have len: "length (put_be 8 w) = 8" for w :: "64 word" by (simp add: put_be_def)
  have bits: "bit (src ! 7) 0 \<longleftrightarrow> bit a 0" "bit (src ! 15) 0 \<longleftrightarrow> bit b 0"
    using assms by (simp_all add: a_def b_def bit_get_be)
  have carry: "push_bit 56 (ucast (push_bit 7 (src ! 7 AND 1))) = push_bit 63 (a AND 1)"
    using bits(1) by (simp add: and_1_bit)
  have reduce: "push_bit 56 (ucast (if src ! 15 AND 1 \<noteq> 0 then 0xE1 else 0 :: byte)) =
      (if bit b 0 then 0xE100000000000000 else 0 :: 64 word)"
    using bits(2) by (simp add: and_1_bit)
  show "gcm_join (gcm_pack (gcm_gen_table_rightshift src)) = gf_mulx (gcm_join (gcm_pack src))"
    unfolding gcm_pack_def gcm_gen_table_rightshift_def Let_def a_def [symmetric] b_def [symmetric] mulx_join
    by (simp only: get_be_parts length_list_update len get_be_first get_put_be carry reduce)
qed


text \<open>Row \<open>i\<close> is the product with the polynomial whose coefficients are the bits of \<open>i\<close>.\<close>

definition gcm_table_for :: "gcm_row list \<Rightarrow> 128 word \<Rightarrow> bool" where
  "gcm_table_for T Y \<longleftrightarrow> (\<forall>i \<in> {..<16}. gcm_join (T ! i) = gf_sum (\<lambda>k. bit i (3 - k)) Y 4)"

lemma gcm_pack_zero: "gcm_pack (replicate 16 0) = (0, 0)"
  by (simp add: gcm_pack_def get_be_def numeral_eq_Suc)

lemma gf_sum_4: "gf_sum f Y 4 = (((if f 0 then Y else 0) XOR (if f 1 then gf_mulx Y else 0))
    XOR (if f 2 then gf_mulx (gf_mulx Y) else 0)) XOR (if f 3 then gf_mulx (gf_mulx (gf_mulx Y)) else 0)"
  by (simp add: numeral_eq_Suc)

lemma list_update_numeral: "(x # xs)[numeral n := v] = x # xs[pred_numeral n := v]"
  by (simp add: numeral_eq_Suc)

lemma replicate_16: "replicate 16 x = [x, x, x, x, x, x, x, x, x, x, x, x, x, x, x, x]"
  by (simp add: numeral_eq_Suc)

lemma upt_steps: "[Suc 0..<2] = [1]" "[Suc 0..<4] = [1, 2, 3]" "[Suc 0..<8] = [1, 2, 3, 4, 5, 6, 7]"
  by (simp_all add: upt_rec)

lemma gcm_gen_table_rows:
  fixes h :: "byte list"
  defines "a \<equiv> gcm_pack h" and "b \<equiv> gcm_pack (gcm_gen_table_rightshift h)"
    and "c \<equiv> gcm_pack (gcm_gen_table_rightshift (gcm_gen_table_rightshift h))"
    and "d \<equiv> gcm_pack (gcm_gen_table_rightshift (gcm_gen_table_rightshift (gcm_gen_table_rightshift h)))"
  shows "gcm_gen_table h =
    [(0, 0), d, c, gcm_xor c d, b, gcm_xor b d, gcm_xor b c, gcm_xor b (gcm_xor c d),
     a, gcm_xor a d, gcm_xor a c, gcm_xor a (gcm_xor c d), gcm_xor a b, gcm_xor a (gcm_xor b d),
     gcm_xor a (gcm_xor b c), gcm_xor a (gcm_xor b (gcm_xor c d))]"
  unfolding gcm_gen_table_def Let_def a_def b_def c_def d_def
  by (simp add: replicate_16 [of "replicate 16 0"] list_update_numeral upt_steps gcm_pack_zero)

lemma bit_numeral_table: "bit (numeral n :: nat) m \<longleftrightarrow> odd (numeral n div 2 ^ m :: nat)"
  by (simp add: bit_iff_odd)

lemma gcm_gen_table_ok:
  assumes "length h = 16"
  shows "gcm_table_for (gcm_gen_table h) (gcm_block h)"
proof -
  have row: "gcm_join (gcm_pack h) = gcm_block h"
    using assms by (simp add: gcm_pack_def gcm_block_rows)
  note step = rightshift_mulx
  show ?thesis
    unfolding gcm_table_for_def all_below_16 gcm_gen_table_rows gf_sum_4
    by (simp add: gcm_join_xor step row assms gcm_join_def [of "(0, 0)"] bit_Suc_0_iff xor.assoc bit_numeral_table)
qed

lemma nibbles:
  fixes b :: byte
  shows "k < 4 \<Longrightarrow> bit (unat (b AND 0xf)) (3 - k) = bit b (7 - (4 + k))"
    and "k < 4 \<Longrightarrow> bit (unat (drop_bit 4 b AND 0xf)) (3 - k) = bit b (7 - k)"
  by (auto simp: nibble_mask bit_simps unsigned_take_bit_eq)

definition gcm_byte :: "gcm_row list \<Rightarrow> byte \<Rightarrow> gcm_row \<Rightarrow> gcm_row" where
  "gcm_byte T b z =
    (let lo = unat (b AND 0xf);
         hi = unat (drop_bit 4 b AND 0xf);
         z = gcm_xor (gcm_shift z) (T ! lo)
     in gcm_xor (gcm_shift z) (T ! hi))"

definition gcm_mult_smalltable :: "gcm_row list \<Rightarrow> byte list \<Rightarrow> byte list" where
  "gcm_mult_smalltable T x =
    (let lo = unat (x ! 15 AND 0xf);
         hi = unat (drop_bit 4 (x ! 15) AND 0xf);
         z = gcm_xor (gcm_shift (T ! lo)) (T ! hi);
         z = fold (\<lambda>i. gcm_byte T (x ! i)) (rev [0..<15]) z
     in put_be 8 (fst z) @ put_be 8 (snd z))"

lemma gcm_byte_sum:
  assumes "gcm_table_for T Y"
  shows "gcm_join (gcm_byte T b z) = gf_sum (\<lambda>k. bit b (7 - k)) Y 8 XOR (gf_mulx ^^ 8) (gcm_join z)"
proof -
  have row: "gcm_join (T ! i) = gf_sum (\<lambda>k. bit i (3 - k)) Y 4" if "i < 16" for i
    using assms that by (simp add: gcm_table_for_def)
  have lo: "gcm_join (T ! unat (b AND 0xf)) = gf_sum (\<lambda>k. bit b (7 - (4 + k))) Y 4"
    unfolding row [OF nibble_small] by (rule gf_sum_cong) (rule nibbles(1))
  have hi: "gcm_join (T ! unat (drop_bit 4 b AND 0xf)) = gf_sum (\<lambda>k. bit b (7 - k)) Y 4"
    unfolding row [OF nibble_small] by (rule gf_sum_cong) (rule nibbles(2))
  have "gf_sum (\<lambda>k. bit b (7 - k)) Y 8 =
      gf_sum (\<lambda>k. bit b (7 - k)) Y 4 XOR (gf_mulx ^^ 4) (gf_sum (\<lambda>k. bit b (7 - (4 + k))) Y 4)"
    using gf_sum_add [of _ Y 4 4] by simp
  moreover have "(gf_mulx ^^ 8) v = (gf_mulx ^^ 4) ((gf_mulx ^^ 4) v)" for v
    using funpow_add [of 4 4 gf_mulx] by simp
  ultimately show ?thesis
    unfolding gcm_byte_def Let_def gcm_join_xor gcm_shift_mulx lo hi
    by (simp add: mulx_pow_xor xor.assoc xor.commute xor.left_commute)
qed

lemma gcm_fold_sum:
  assumes T: "gcm_table_for T Y" and "j \<le> 16"
  shows "gcm_join (fold (\<lambda>i. gcm_byte T (x ! i)) (rev [j..<16]) (0, 0)) = gf_sum (\<lambda>k. byte_bit x (8 * j + k)) Y (8 * (16 - j))"
  using assms(2)
proof (induction rule: inc_induct)
  case base
  show ?case by (simp add: gcm_join_def)
next
  case (step j)
  then have "rev [j..<16] = rev [Suc j..<16] @ [j]" "8 * (16 - j) = 8 + 8 * (16 - Suc j)"
    by (simp_all add: upt_rec [of j])
  moreover have "gf_sum (\<lambda>k. byte_bit x (8 * j + k)) Y 8 = gf_sum (\<lambda>k. bit (x ! j) (7 - k)) Y 8"
    by (rule gf_sum_cong) (simp add: byte_bit_def)
  moreover have "8 * j + (8 + k) = 8 * Suc j + k" for k by simp
  ultimately show ?case
    by (simp only: fold_append o_apply fold.simps id_apply gcm_byte_sum [OF T] step.IH gf_sum_add)
qed

lemma gcm_shift_zero: "gcm_shift (0, 0) = (0, 0)"
  by (simp add: gcm_shift_def last4_def Let_def)

lemma gcm_mult_fold:
  "gcm_mult_smalltable T x =
    (let z = fold (\<lambda>i. gcm_byte T (x ! i)) (rev [0..<16]) (0, 0) in put_be 8 (fst z) @ put_be 8 (snd z))"
proof -
  have "rev [0..<16] = 15 # rev [0..<15]" by (simp add: upt_rec numeral_eq_Suc)
  then show ?thesis
    by (simp add: gcm_mult_smalltable_def gcm_byte_def Let_def gcm_shift_zero gcm_xor_def)
qed

lemma gcm_block_of_row: "gcm_block (put_be 8 (fst z) @ put_be 8 (snd z)) = gcm_join z"
proof -
  have len: "length (put_be 8 w) = 8" for w :: "64 word" by (simp add: put_be_def)
  show ?thesis
    by (simp add: gcm_block_rows [symmetric] get_be_parts len get_put_be)
qed

lemma gcm_mult_is_gf_mult:
  assumes "gcm_table_for T Y" "length x = 16"
  shows "gcm_block (gcm_mult_smalltable T x) = gf_mult (gcm_block x) Y"
proof -
  have "gcm_block (gcm_mult_smalltable T x) = gf_sum (byte_bit x) Y 128"
    using gcm_fold_sum [OF assms(1), of 0 x] by (simp add: gcm_mult_fold Let_def gcm_block_of_row)
  also have "\<dots> = gf_sum (\<lambda>i. bit (gcm_block x) (127 - i)) Y 128"
    by (rule gf_sum_cong) (simp add: gcm_block_bits assms(2))
  finally show ?thesis by (simp add: gf_mult_def gf_loop_sum)
qed

text \<open>
  C28. The table multiplication of the vendored code is the product of the field: for every subkey, the
  sixteen rows that \<^verbatim>\<open>gcm_gen_table\<close> derives and the reduction constants of \<^verbatim>\<open>last4\<close> give the bit-by-bit
  multiplication of SP 800-38D.
\<close>

theorem gcm_table_multiplies:
  assumes "length h = 16" "length x = 16"
  shows "gcm_block (gcm_mult_smalltable (gcm_gen_table h) x) = gf_mult (gcm_block x) (gcm_block h)"
  by (rule gcm_mult_is_gf_mult [OF gcm_gen_table_ok]) (rule assms)+

theorem gcm_table_multiplies_witness:
  "gcm_block (gcm_mult_smalltable (gcm_gen_table (map of_nat [0..<16])) (replicate 16 0xA5)) =
    gf_mult (gcm_block (replicate 16 0xA5)) (gcm_block (map of_nat [0..<16]))"
  by (rule gcm_table_multiplies) simp_all

end
