(* ===== verification/Gcm_Mode.thy ===== *)
theory Gcm_Mode
  imports Ghash Cbc_Mode
begin

text \<open>
  Galois/counter mode, as NIST SP 800-38D defines it, on bytes and for a block cipher that is a parameter,
  and what its counter mode does to a message that comes in pieces.
\<close>

section \<open>The mode\<close>

text \<open>The product of two blocks.\<close>

definition ghash_mul :: "byte list \<Rightarrow> byte list \<Rightarrow> byte list" where
  "ghash_mul h x = put_be 16 (gf_mult (gcm_block x) (gcm_block h))"

text \<open>GHASH from a given block on, over whole blocks.\<close>

function ghash :: "byte list \<Rightarrow> byte list \<Rightarrow> byte list \<Rightarrow> byte list" where
  "ghash h y xs = (if length xs < 16 then y else ghash h (ghash_mul h (xor_bytes y (take 16 xs))) (drop 16 xs))"
  by pat_completeness auto

termination
  by (relation "measure (\<lambda>(h, y, xs). length xs)") auto

declare ghash.simps [simp del]

definition pad16 :: "byte list \<Rightarrow> byte list" where
  "pad16 xs = xs @ replicate ((16 - length xs mod 16) mod 16) 0"

definition zero_block :: "byte list" where
  "zero_block = replicate 16 0"

text \<open>The length of a string in bits.\<close>

definition bits64 :: "byte list \<Rightarrow> byte list" where
  "bits64 xs = put_be 8 (of_nat (8 * length xs) :: 64 word)"

definition inc32 :: "byte list \<Rightarrow> byte list" where
  "inc32 y = take 12 y @ put_be 4 (of_nat ((unat (get_be 4 y 12 :: 32 word) + 1) mod 2 ^ 32) :: 32 word)"

function gctr :: "(byte list \<Rightarrow> byte list) \<Rightarrow> byte list \<Rightarrow> byte list \<Rightarrow> byte list" where
  "gctr E y xs = (if xs = [] then [] else xor_bytes (take 16 xs) (E y) @ gctr E (inc32 y) (drop 16 xs))"
  by pat_completeness auto

termination
  by (relation "measure (\<lambda>(E, y, xs). length xs)") auto

declare gctr.simps [simp del]

definition gcm_j0 :: "(byte list \<Rightarrow> byte list) \<Rightarrow> byte list \<Rightarrow> byte list" where
  "gcm_j0 E iv =
    (if length iv = 12 then iv @ [0, 0, 0, 1]
     else ghash (E zero_block) zero_block (pad16 iv @ replicate 8 0 @ bits64 iv))"

definition gcm_tag :: "(byte list \<Rightarrow> byte list) \<Rightarrow> byte list \<Rightarrow> byte list \<Rightarrow> byte list \<Rightarrow> byte list" where
  "gcm_tag E iv a c =
    gctr E (gcm_j0 E iv) (ghash (E zero_block) zero_block (pad16 a @ pad16 c @ bits64 a @ bits64 c))"

definition gcm_ctr :: "(byte list \<Rightarrow> byte list) \<Rightarrow> byte list \<Rightarrow> byte list \<Rightarrow> byte list" where
  "gcm_ctr E iv xs = gctr E (inc32 (gcm_j0 E iv)) xs"

text \<open>Authenticated encryption, and decryption, which gives no plaintext for a tag that is not the message's.\<close>

definition gcm_encrypt :: "(byte list \<Rightarrow> byte list) \<Rightarrow> byte list \<Rightarrow> byte list \<Rightarrow> byte list \<Rightarrow> byte list \<times> byte list" where
  "gcm_encrypt E iv a p = (let c = gcm_ctr E iv p in (c, gcm_tag E iv a c))"

definition gcm_decrypt ::
  "(byte list \<Rightarrow> byte list) \<Rightarrow> byte list \<Rightarrow> byte list \<Rightarrow> byte list \<Rightarrow> byte list \<Rightarrow> byte list option" where
  "gcm_decrypt E iv a c t = (if t = gcm_tag E iv a c then Some (gcm_ctr E iv c) else None)"

subsection \<open>Lemmas\<close>

lemma length_ghash_mul [simp]: "length (ghash_mul h x) = 16"
  by (simp add: ghash_mul_def)

lemma length_zero_block [simp]: "length zero_block = 16"
  by (simp add: zero_block_def)

lemma length_bits64 [simp]: "length (bits64 xs) = 8"
  by (simp add: bits64_def)

lemma length_inc32 [simp]: "length y = 16 \<Longrightarrow> length (inc32 y) = 16"
  by (simp add: inc32_def)

lemma length_inc32_pow [simp]: "length y = 16 \<Longrightarrow> length ((inc32 ^^ n) y) = 16"
  by (induction n) simp_all

lemma ghash_short [simp]: "length xs < 16 \<Longrightarrow> ghash h y xs = y"
  by (simp add: ghash.simps)

lemma ghash_block: "length b = 16 \<Longrightarrow> ghash h y (b @ xs) = ghash h (ghash_mul h (xor_bytes y b)) xs"
  by (subst ghash.simps) simp

lemma ghash_one: "length b = 16 \<Longrightarrow> ghash h y b = ghash_mul h (xor_bytes y b)"
  using ghash_block [of b h y "[]"] by simp

lemma ghash_append: "16 dvd length xs \<Longrightarrow> ghash h y (xs @ ys) = ghash h (ghash h y xs) ys"
proof (induction y xs rule: blocks_induct)
  case (block y b xs)
  then show ?case by (simp add: ghash_block)
qed simp

lemma length_ghash: "length y = 16 \<Longrightarrow> length (ghash h y xs) = 16"
proof (induction h y xs rule: ghash.induct)
  case (1 h y xs)
  then show ?case by (cases "length xs < 16") (simp_all add: ghash.simps [of h y xs])
qed

lemma dvd_length_pad16: "16 dvd length (pad16 xs)"
proof (cases "length xs mod 16 = 0")
  case False
  then have "(16 - length xs mod 16) mod 16 + length xs mod 16 = 16" by simp
  then have "length xs + (16 - length xs mod 16) mod 16 = 16 * (length xs div 16) + 16"
    using div_mult_mod_eq [of "length xs" 16] by linarith
  then show ?thesis by (simp add: pad16_def)
qed (simp add: pad16_def mod_eq_0_iff_dvd)

lemma pad16_whole: "16 dvd length xs \<Longrightarrow> pad16 xs = xs"
  by (simp add: pad16_def dvd_eq_mod_eq_0)

lemma pad16_split: "length b = 16 \<Longrightarrow> pad16 (b @ xs) = b @ pad16 xs"
  by (simp add: pad16_def)

lemma gctr_Nil [simp]: "gctr E y [] = []"
  by (simp add: gctr.simps)

lemma gctr_block: "length b = 16 \<Longrightarrow> gctr E y (b @ xs) = xor_bytes b (E y) @ gctr E (inc32 y) xs"
  by (subst gctr.simps) auto

lemma gctr_short: "length xs \<le> 16 \<Longrightarrow> gctr E y xs = xor_bytes xs (E y)"
  by (subst gctr.simps) (simp add: xor_bytes_def)

lemma length_gctr: "on_blocks E \<Longrightarrow> length y = 16 \<Longrightarrow> length (gctr E y xs) = length xs"
proof (induction E y xs rule: gctr.induct)
  case (1 E y xs)
  have "length (E y) = 16" using 1(2,3) by (simp add: on_blocks_def)
  then show ?case using 1 by (cases "xs = []") (simp_all add: gctr.simps [of E y xs])
qed

subsection \<open>The counter\<close>

definition keystream :: "(byte list \<Rightarrow> byte list) \<Rightarrow> byte list \<Rightarrow> nat \<Rightarrow> byte" where
  "keystream E y n = E ((inc32 ^^ (n div 16)) y) ! (n mod 16)"

lemma inc32_swap: "(inc32 ^^ n) (inc32 y) = (inc32 ^^ Suc n) y"
  by (simp add: funpow_swap1)

lemma gctr_nth: "on_blocks E \<Longrightarrow> length y = 16 \<Longrightarrow> i < length xs \<Longrightarrow> gctr E y xs ! i = xs ! i XOR keystream E y i"
proof (induction E y xs arbitrary: i rule: gctr.induct)
  case (1 E y xs)
  have E: "length (E y) = 16" using 1(2,3) by (simp add: on_blocks_def)
  have g: "gctr E y xs = xor_bytes (take 16 xs) (E y) @ gctr E (inc32 y) (drop 16 xs)"
    using 1(4) by (subst gctr.simps) auto
  show ?case
  proof (cases "i < 16")
    case True
    then show ?thesis using 1(4) E by (simp add: g nth_append keystream_def xor_bytes_def)
  next
    case False
    then obtain j where j: "i = 16 + j" by (metis le_Suc_ex not_less)
    then have "gctr E (inc32 y) (drop 16 xs) ! j = xs ! i XOR keystream E (inc32 y) j"
      using 1 by fastforce
    then show ?thesis
      using 1(4) E j by (simp add: g nth_append keystream_def inc32_swap div_add_self1)
  qed
qed

text \<open>A piece of the message that does not cross the end of a block.\<close>

lemma gctr_piece:
  assumes "on_blocks E" "length y = 16" "length p mod 16 + length xs \<le> 16"
  shows "gctr E y (p @ xs) =
    gctr E y p @ xor_bytes (take (length xs) (drop (length p mod 16) (E ((inc32 ^^ (length p div 16)) y)))) xs"
proof (rule nth_equalityI)
  let ?B = "E ((inc32 ^^ (length p div 16)) y)"
  have B: "length ?B = 16" using assms(1,2) by (simp add: on_blocks_def)
  show "length (gctr E y (p @ xs)) = length (gctr E y p @ xor_bytes (take (length xs) (drop (length p mod 16) ?B)) xs)"
    using assms B by (simp add: length_gctr)
  fix i
  assume "i < length (gctr E y (p @ xs))"
  then have i: "i < length p + length xs" using assms by (simp add: length_gctr)
  show "gctr E y (p @ xs) ! i = (gctr E y p @ xor_bytes (take (length xs) (drop (length p mod 16) ?B)) xs) ! i"
  proof (cases "i < length p")
    case True
    then show ?thesis using assms by (simp add: gctr_nth nth_append length_gctr)
  next
    case False
    then obtain j where j: "i = length p + j" by (metis le_Suc_ex not_less)
    then have lt: "length p mod 16 + j < 16" using i assms(3) by simp
    have "length p + j = length p mod 16 + j + length p div 16 * 16" by simp
    then have "(length p + j) div 16 = length p div 16" "(length p + j) mod 16 = length p mod 16 + j"
      using lt div_mult_self1 [of 16 "length p mod 16 + j" "length p div 16"] mod_add_left_eq [of "length p" 16 j]
      by simp_all
    then show ?thesis
      using assms i j B by (simp add: gctr_nth nth_append length_gctr keystream_def xor_bytes_def xor.commute)
  qed
qed

lemma length_gcm_j0: "length (gcm_j0 E iv) = 16"
  by (simp add: gcm_j0_def length_ghash)

text \<open>The mode of encryption is its own inverse.\<close>

lemma gcm_ctr_twice: "on_blocks E \<Longrightarrow> gcm_ctr E iv (gcm_ctr E iv xs) = xs"
  unfolding gcm_ctr_def by (rule nth_equalityI) (simp_all add: length_gctr length_gcm_j0 gctr_nth xor.assoc)

text \<open>What the mode encrypts it decrypts.\<close>

lemma gcm_round_trip: "on_blocks E \<Longrightarrow> gcm_encrypt E iv a p = (c, t) \<Longrightarrow> gcm_decrypt E iv a c t = Some p"
  by (auto simp: gcm_encrypt_def gcm_decrypt_def gcm_ctr_twice Let_def)

end
