(* ===== verification/Aead_Client.thy ===== *)
theory Aead_Client
  imports Gcm_Mode
begin

text \<open>
  What the adapter makes of the mode: \<open>psa_gcm_contract\<close> states what a backend promises of the calls of
  \<^verbatim>\<open>aead_run\<close>; over any backend that keeps it, what \<^verbatim>\<open>zuc_aead_encrypt\<close> and \<^verbatim>\<open>zuc_aead_decrypt\<close> leave in memory
  when they succeed is the mode applied to the buffers they were given.
\<close>

definition gcm_setup :: "bool \<Rightarrow> psa_key_id_t \<Rightarrow> psa_call" where
  "gcm_setup e kid = AEAD (if e then Aead_encrypt_setup kid PSA_ALG_GCM else Aead_decrypt_setup kid PSA_ALG_GCM)"

text \<open>The associated data of R's call: none, or a raw vector.\<close>

definition aad_bytes :: "memory \<Rightarrow> sexp \<Rightarrow> byte list" where
  "aad_bytes m aad = (if Rf_isNull aad then [] else mem_read m (RAW aad) (XLENGTH aad))"

text \<open>A step that has left a success behind has started from one, and has made its call.\<close>

lemma aead_next_ran:
  assumes "run_state (aead_next P c s) w = (s', w')" "fst s' = PSA_SUCCESS"
  shows "fst s = PSA_SUCCESS \<and> s' = (r_status (fst (P (AEAD c) (snd s) (w_psa w))), r_op (fst (P (AEAD c) (snd s) (w_psa w)))) \<and>
    w_psa w' = snd (P (AEAD c) (snd s) (w_psa w)) \<and> w_mem w' = w_mem w"
  using assms by (auto simp: aead_next_def run_psa_do split: if_splits)

lemma aead_next_step:
  "\<exists>w'. run_state (aead_next P c (PSA_SUCCESS, op)) w =
      ((r_status (fst (P (AEAD c) op (w_psa w))), r_op (fst (P (AEAD c) op (w_psa w)))), w') \<and>
    w_psa w' = snd (P (AEAD c) op (w_psa w)) \<and> w_mem w' = w_mem w"
  by (simp add: aead_next_def run_psa_do)

lemma aead_feed_ran:
  assumes "run_state (aead_feed P inp len out s) w = ((s', produced), w')" "fst s' = PSA_SUCCESS"
  shows "fst s = PSA_SUCCESS \<and>
    (if len = 0 then s' = s \<and> produced = 0 \<and> w' = w
     else (let x = P (AEAD (Aead_update (mem_read (w_mem w) inp len) len)) (snd s) (w_psa w); r = fst x
           in s' = (r_status r, r_op r) \<and> produced = r_len r \<and> w_psa w' = snd x \<and>
             w_mem w' = mem_write (w_mem w) out (take (unat len) (r_out r))))"
  using assms by (auto simp: aead_feed_def run_psa_do Let_def split: if_splits)

lemma aead_close_ran:
  assumes "run_state (aead_close P e len out tag tag_len len s) w = ((s', finished, tag_out), w')" "fst s' = PSA_SUCCESS"
  shows "fst s = PSA_SUCCESS \<and>
    (let x = P (AEAD (if e then Aead_finish 0 tag_len else Aead_verify 0 (mem_read (w_mem w) tag tag_len))) (snd s) (w_psa w);
         r = fst x
     in s' = (r_status r, r_op r) \<and>
       w_mem w' = (if e then mem_write (w_mem w) tag (take (unat tag_len) (r_out2 r)) else w_mem w))"
  using assms by (auto simp: aead_close_def run_psa_do Let_def split: if_splits)

lemma aead_done_ran:
  assumes "run_state (aead_done P e k len tag_len produced (s, finished, tag_out)) w = (ZUC_OK, w')"
  shows "fst s = PSA_SUCCESS \<and> produced + finished = len \<and> (e \<longrightarrow> tag_out = tag_len) \<and> w_mem w' = w_mem w"
  using assms by (auto simp: aead_done_def psa_destroy_key_def run_psa_do split: if_splits)

text \<open>
  \<open>E\<close> is the block cipher under a key, \<open>usable k\<close> what is assumed of it, \<open>key_of\<close> reads the bytes of a key from
  the backend's state. \<open>ready e k op\<close>
  says that \<open>op\<close> is a GCM operation of direction \<open>e\<close> under \<open>k\<close>, \<open>fed e k iv a p op\<close> that it also has its nonce
  and has been fed associated data and a message. The laws say what the calls have done when they succeed.
\<close>

locale psa_gcm_contract =
  fixes P :: "('b, 'o) psa"
    and E :: "byte list \<Rightarrow> byte list \<Rightarrow> byte list"
    and key_of :: "'b \<Rightarrow> psa_key_id_t \<Rightarrow> byte list"
    and ready :: "bool \<Rightarrow> byte list \<Rightarrow> 'o option \<Rightarrow> bool"
    and fed :: "bool \<Rightarrow> byte list \<Rightarrow> byte list \<Rightarrow> byte list \<Rightarrow> byte list \<Rightarrow> 'o option \<Rightarrow> bool"
    and usable :: "byte list \<Rightarrow> bool"
  assumes usable_blocks: "usable k \<Longrightarrow> on_blocks (E k)"
    and setup_ready:
      "usable (key_of b kid) \<Longrightarrow> r_status (fst (P (gcm_setup e kid) None b)) = PSA_SUCCESS \<Longrightarrow>
       ready e (key_of b kid) (r_op (fst (P (gcm_setup e kid) None b)))"
    and nonce_fed:
      "ready e k op \<Longrightarrow> length iv = 12 \<Longrightarrow> r_status (fst (P (AEAD (Aead_set_nonce iv)) op b)) = PSA_SUCCESS \<Longrightarrow>
       fed e k iv [] [] (r_op (fst (P (AEAD (Aead_set_nonce iv)) op b)))"
    and ad_fed:
      "fed e k iv a [] op \<Longrightarrow> length xs < 2 ^ 64 \<Longrightarrow>
       r_status (fst (P (AEAD (Aead_update_ad xs)) op b)) = PSA_SUCCESS \<Longrightarrow>
       fed e k iv (a @ xs) [] (r_op (fst (P (AEAD (Aead_update_ad xs)) op b)))"
    and update_fed:
      "usable k \<Longrightarrow> fed e k iv a p op \<Longrightarrow> length d = unat n \<Longrightarrow> d \<noteq> [] \<Longrightarrow>
       r_status (fst (P (AEAD (Aead_update d n)) op b)) = PSA_SUCCESS \<Longrightarrow>
       fed e k iv a (p @ d) (r_op (fst (P (AEAD (Aead_update d n)) op b))) \<and>
       r_len (fst (P (AEAD (Aead_update d n)) op b)) = n \<and>
       gcm_ctr (E k) iv (p @ d) = gcm_ctr (E k) iv p @ r_out (fst (P (AEAD (Aead_update d n)) op b))"
    and finish_tag:
      "usable k \<Longrightarrow> fed True k iv a p op \<Longrightarrow>
       r_status (fst (P (AEAD (Aead_finish n 16)) op b)) = PSA_SUCCESS \<Longrightarrow>
       r_out2 (fst (P (AEAD (Aead_finish n 16)) op b)) = gcm_tag (E k) iv a (gcm_ctr (E k) iv p)"
    and verify_tag:
      "usable k \<Longrightarrow> fed False k iv a p op \<Longrightarrow>
       r_status (fst (P (AEAD (Aead_verify n t)) op b)) = PSA_SUCCESS \<Longrightarrow> t = gcm_tag (E k) iv a p"
begin

lemma feed_value:
  assumes "run_state (aead_feed P inp len out s) w = ((s', produced), w')" "fst s' = PSA_SUCCESS"
    and "fst s = PSA_SUCCESS \<Longrightarrow> fed e k iv a [] (snd s)" "usable k"
  shows "fed e k iv a (mem_read (w_mem w) inp len) (snd s') \<and> produced = len \<and>
    mem_read (w_mem w') out len = gcm_ctr (E k) iv (mem_read (w_mem w) inp len) \<and>
    (\<forall>x. x \<notin> buf out len \<longrightarrow> w_mem w' x = w_mem w x)"
proof (cases "len = 0")
  case True
  then show ?thesis using aead_feed_ran [OF assms(1,2)] assms(3) by (simp add: gcm_ctr_def)
next
  case False
  let ?d = "mem_read (w_mem w) inp len"
  let ?r = "fst (P (AEAD (Aead_update ?d len)) (snd s) (w_psa w))"
  have ran: "fst s = PSA_SUCCESS" "s' = (r_status ?r, r_op ?r)" "produced = r_len ?r"
      "w_mem w' = mem_write (w_mem w) out (take (unat len) (r_out ?r))"
    using aead_feed_ran [OF assms(1,2)] False by (simp_all add: Let_def)
  have d: "?d \<noteq> []" using False by (simp add: unat_eq_zero flip: length_0_conv)
  have u: "fed e k iv a ?d (r_op ?r)" "r_len ?r = len" "gcm_ctr (E k) iv ?d = r_out ?r"
    using update_fed [OF assms(4) assms(3) [OF ran(1)], of ?d len "w_psa w"] ran(2) assms(2) d
    by (simp_all add: gcm_ctr_def)
  have n: "length (r_out ?r) = unat len"
    unfolding u(3) [symmetric] using usable_blocks [OF assms(4)] by (simp add: gcm_ctr_def length_gctr length_gcm_j0)
  have "mem_read (w_mem w') out len = r_out ?r"
    unfolding ran(4) using n by (simp add: mem_read_write_same)
  moreover have "\<forall>x. x \<notin> buf out len \<longrightarrow> w_mem w' x = w_mem w x"
    unfolding ran(4) using n by (auto intro!: mem_write_outside)
  ultimately show ?thesis
    using u ran(2,3) by simp
qed

lemma close_value:
  assumes "run_state (aead_close P e len out tag 16 len s) w = ((s', finished, tag_out), w')" "fst s' = PSA_SUCCESS"
    and "fst s = PSA_SUCCESS \<Longrightarrow> fed e k iv a p (snd s)" "usable k"
  shows "(if e then mem_read (w_mem w') tag 16 = gcm_tag (E k) iv a (gcm_ctr (E k) iv p)
      else mem_read (w_mem w) tag 16 = gcm_tag (E k) iv a p) \<and>
    (\<forall>x. (e \<longrightarrow> x \<notin> buf tag 16) \<longrightarrow> w_mem w' x = w_mem w x)"
proof (cases e)
  case True
  let ?r = "fst (P (AEAD (Aead_finish 0 16)) (snd s) (w_psa w))"
  have ran: "fst s = PSA_SUCCESS" "s' = (r_status ?r, r_op ?r)"
      "w_mem w' = mem_write (w_mem w) tag (take 16 (r_out2 ?r))"
    using aead_close_ran [OF assms(1,2)] True by (simp_all add: Let_def)
  have t: "r_out2 ?r = gcm_tag (E k) iv a (gcm_ctr (E k) iv p)"
    using finish_tag [OF assms(4), of iv a p "snd s" 0 "w_psa w"] assms(2) assms(3) [OF ran(1)] True ran(2) by simp
  have "length (r_out2 ?r) = 16"
    unfolding t using usable_blocks [OF assms(4)] by (simp add: gcm_tag_def length_gctr length_gcm_j0 length_ghash)
  then show ?thesis
    using True unfolding ran(3) by (auto simp: t mem_read_write_same intro!: mem_write_outside)
next
  case False
  let ?r = "fst (P (AEAD (Aead_verify 0 (mem_read (w_mem w) tag 16))) (snd s) (w_psa w))"
  have ran: "fst s = PSA_SUCCESS" "s' = (r_status ?r, r_op ?r)" "w_mem w' = w_mem w"
    using aead_close_ran [OF assms(1,2)] False by (simp_all add: Let_def)
  then show ?thesis
    using False verify_tag [OF assms(4), of iv a p "snd s" 0 _ "w_psa w"] assms(2) assms(3) [OF ran(1)] by simp
qed


lemma aead_run_value:
  assumes run: "run_state (aead_run P e ZUC_ALG_AES_GCM key key_len nonce 12 aad aad_len inp len out tag 16) w = (ZUC_OK, w')"
    and imp: "imports_keys P key_of"
    and apart: "buf tag 16 \<inter> buf out len = {}"
  defines "k \<equiv> mem_read (w_mem w) key key_len"
    and "iv \<equiv> mem_read (w_mem w) nonce 12"
    and "a \<equiv> mem_read (w_mem w) aad aad_len"
    and "d \<equiv> mem_read (w_mem w) inp len"
  assumes bl: "usable k"
  shows "mem_read (w_mem w') out len = gcm_ctr (E k) iv d \<and>
    (if e then mem_read (w_mem w') tag 16 = gcm_tag (E k) iv a (gcm_ctr (E k) iv d)
     else mem_read (w_mem w) tag 16 = gcm_tag (E k) iv a d) \<and>
    (\<forall>x. x \<notin> buf out len \<and> (e \<longrightarrow> x \<notin> buf tag 16) \<longrightarrow> w_mem w' x = w_mem w x)"
proof -
  let ?imp = "P (KEY (Import_key (aes_key_attr PSA_ALG_GCM) k)) None (w_psa w)"
  define kid where "kid = r_id (fst ?imp)"
  obtain w0 where w0: "run_state (import_aead_key P key key_len PSA_ALG_GCM) w = ((zuc_int_from_psa (r_status (fst ?imp)), kid), w0)"
    "w_psa w0 = snd ?imp" "w_mem w0 = w_mem w"
    by (simp add: import_aead_key_def psa_import_key_def run_psa_do k_def kid_def)
  obtain s1 w1 where r1: "run_state (aead_next P (if e then Aead_encrypt_setup kid PSA_ALG_GCM else Aead_decrypt_setup kid PSA_ALG_GCM)
      (PSA_SUCCESS, None)) w0 = (s1, w1)"
    by (metis surj_pair)
  obtain s2 w2 where r2: "run_state (aead_next P (Aead_set_nonce (mem_read (w_mem w1) nonce 12)) s1) w1 = (s2, w2)"
    by (metis surj_pair)
  obtain s3 w3 where r3: "run_state (if aad_len \<noteq> 0 then aead_next P (Aead_update_ad (mem_read (w_mem w2) aad aad_len)) s2 else ret s2) w2 =
      (s3, w3)" by (metis surj_pair)
  obtain s4 produced w4 where r4: "run_state (aead_feed P inp len out s3) w3 = ((s4, produced), w4)" by (metis surj_pair)
  obtain s5 finished tag_out w5 where r5: "run_state (aead_close P e len out tag 16 produced s4) w4 = ((s5, finished, tag_out), w5)"
    by (metis surj_pair)
  have imported: "r_status (fst ?imp) = PSA_SUCCESS"
    using run w0 by (auto simp: aead_run_def psa_aead_alg_def defined_want_def Let_def split: if_splits)
  then have r6: "run_state (aead_done P e kid len 16 produced (s5, finished, tag_out)) w5 = (ZUC_OK, w')"
    using run w0 r1 r2 r3 r4 r5
    by (cases "aad_len = 0") (simp_all add: aead_run_def psa_aead_alg_def defined_want_def Let_def)
  have done6: "fst s5 = PSA_SUCCESS" "w_mem w' = w_mem w5"
    using aead_done_ran [OF r6] by simp_all
  have kid: "key_of (w_psa w0) kid = k"
    using imp imported w0(2) by (simp add: imports_keys_def kid_def aes_key_attr_def)
  have fed1: "fst s1 = PSA_SUCCESS \<Longrightarrow> ready e k (snd s1) \<and> w_mem w1 = w_mem w"
    using aead_next_ran [OF r1] setup_ready [of "w_psa w0" kid e] kid bl w0(3) by (simp add: gcm_setup_def)
  have fed2: "fst s2 = PSA_SUCCESS \<Longrightarrow> fed e k iv [] [] (snd s2) \<and> w_mem w2 = w_mem w"
    using aead_next_ran [OF r2] fed1 nonce_fed [of e k "snd s1" iv "w_psa w1"] by (auto simp: iv_def)
  have fed3: "fst s3 = PSA_SUCCESS \<Longrightarrow> fed e k iv a [] (snd s3) \<and> w_mem w3 = w_mem w"
  proof (cases "aad_len = 0")
    case True
    then show "fst s3 = PSA_SUCCESS \<Longrightarrow> ?thesis" using r3 fed2 by (simp add: a_def)
  next
    case False
    assume s3: "fst s3 = PSA_SUCCESS"
    have ran: "run_state (aead_next P (Aead_update_ad (mem_read (w_mem w2) aad aad_len)) s2) w2 = (s3, w3)"
      using r3 False by simp
    have w2: "fed e k iv [] [] (snd s2)" "w_mem w2 = w_mem w"
      using aead_next_ran [OF ran s3] fed2 by simp_all
    have "length a < 2 ^ 64" using unsigned_less [of aad_len] by (simp add: a_def)
    then show ?thesis
      using aead_next_ran [OF ran s3] s3 w2 ad_fed [OF w2(1), of a "w_psa w2"] by (auto simp: a_def)
  qed
  have ok4: "fst s4 = PSA_SUCCESS"
    using r5 done6(1) by (auto simp: aead_close_def split: if_splits)
  have fed: "fst s3 = PSA_SUCCESS \<Longrightarrow> fed e k iv a [] (snd s3)" using fed3 by simp
  have "fst s3 = PSA_SUCCESS" using aead_feed_ran [OF r4 ok4] by simp
  then have m3: "w_mem w3 = w_mem w" using fed3 by simp
  have v4: "fed e k iv a d (snd s4)" "produced = len" "mem_read (w_mem w4) out len = gcm_ctr (E k) iv d"
      "\<forall>x. x \<notin> buf out len \<longrightarrow> w_mem w4 x = w_mem w x"
    using feed_value [OF r4 ok4 fed bl] by (simp_all add: m3 d_def)
  note v5 = close_value [OF r5 [unfolded v4(2)] done6(1) v4(1) bl]
  have "mem_read (w_mem w5) out len = mem_read (w_mem w4) out len"
    by (rule mem_read_cong) (use v5 apart in blast)
  moreover have "mem_read (w_mem w4) tag 16 = mem_read (w_mem w) tag 16"
    by (rule mem_read_cong) (use v4(4) apart in blast)
  ultimately show ?thesis
    using v4(3,4) v5 unfolding done6(2) by (auto split: if_splits)
qed

text \<open>The two functions of the adapter.\<close>

lemma zuc_aead_encrypt_value:
  assumes "run_state (zuc_aead_encrypt P ZUC_ALG_AES_GCM key key_len nonce nonce_len aad aad_len pt len ct tag 16) w = (ZUC_OK, w')"
    and "imports_keys P key_of" "buf tag 16 \<inter> buf ct len = {}" "usable (mem_read (w_mem w) key key_len)"
  shows "(mem_read (w_mem w') ct len, mem_read (w_mem w') tag 16) =
      gcm_encrypt (E (mem_read (w_mem w) key key_len)) (mem_read (w_mem w) nonce 12) (mem_read (w_mem w) aad aad_len)
        (mem_read (w_mem w) pt len) \<and>
    (\<forall>x. x \<notin> buf ct len \<and> x \<notin> buf tag 16 \<longrightarrow> w_mem w' x = w_mem w x)"
proof -
  have "nonce_len = 12" and
    run: "run_state (aead_run P True ZUC_ALG_AES_GCM key key_len nonce nonce_len aad aad_len pt len ct tag 16) w = (ZUC_OK, w')"
    using assms(1) by (auto simp: zuc_aead_encrypt_def check_aead_args_def split: if_splits prod.splits)
  from aead_run_value [OF run [unfolded this(1)] assms(2,3,4)] show ?thesis
    by (simp add: gcm_encrypt_def Let_def)
qed

lemma zuc_aead_decrypt_value:
  assumes "run_state (zuc_aead_decrypt P ZUC_ALG_AES_GCM key key_len nonce nonce_len aad aad_len ct len tag tag_len pt) w = (ZUC_OK, w')"
    and "imports_keys P key_of" "buf tag 16 \<inter> buf pt len = {}" "usable (mem_read (w_mem w) key key_len)"
  shows "gcm_decrypt (E (mem_read (w_mem w) key key_len)) (mem_read (w_mem w) nonce 12) (mem_read (w_mem w) aad aad_len)
        (mem_read (w_mem w) ct len) (mem_read (w_mem w) tag tag_len) = Some (mem_read (w_mem w') pt len) \<and>
    (\<forall>x. x \<notin> buf pt len \<longrightarrow> w_mem w' x = w_mem w x)"
proof -
  have n: "nonce_len = 12" "tag_len = 16" and
    run: "run_state (aead_run P False ZUC_ALG_AES_GCM key key_len nonce nonce_len aad aad_len ct len pt tag tag_len) w = (ZUC_OK, w')"
    using assms(1) by (auto simp: zuc_aead_decrypt_def check_aead_args_def split: if_splits prod.splits)
  from aead_run_value [OF run [unfolded n] assms(2,3,4)] n show ?thesis
    by (simp add: gcm_decrypt_def)
qed


text \<open>And R's entry point over them.\<close>

lemma zucrypt_aes_gcm_sealed:
  assumes run: "run_state (zucrypt_aes_gcm P (RAWSXP p n) (RAWSXP kp kn) (RAWSXP ivp ivn) aad tag encrypt) s =
      (Returned (VECSXP [(''status'', INTSXP [0]), (''value'', v)]), s')"
    and "Rf_asLogical encrypt" and imp: "imports_keys P key_of"
    and apart: "\<And>a b ps. rs_allocs s = a # b # ps \<Longrightarrow> buf b 16 \<inter> buf a n = {}"
  defines "m \<equiv> w_mem (rs_world s)"
  assumes bl: "usable (mem_read m kp kn)"
  shows "\<exists>out t. v = VECSXP [('''', RAWSXP out n), ('''', RAWSXP t 16)] \<and>
    (mem_read (w_mem (rs_world s')) out n, mem_read (w_mem (rs_world s')) t 16) =
      gcm_encrypt (E (mem_read m kp kn)) (mem_read m ivp 12) (aad_bytes m aad) (mem_read m p n)"
proof -
  let ?ct = "\<lambda>out. if n \<noteq> 0 then out else NULL"
  obtain out t ps where allocs: "rs_allocs s = out # t # ps" "out \<noteq> NULL" "t \<noteq> NULL"
    using run assms(2) by (auto simp: zucrypt_aes_gcm_def allocRaw_def run_r_alloc Let_def split: list.splits if_splits)
  obtain st w where enc: "run_state (zuc_aead_encrypt P ZUC_ALG_AES_GCM kp kn ivp ivn
      (if Rf_isNull aad then NULL else RAW aad) (if Rf_isNull aad then 0 else XLENGTH aad) (?ct p) n (?ct out) t 16)
      (rs_world s) = (st, w)" by (metis surj_pair)
  have fin: "run_state (r_alloc (\<lambda>_. result st (if st = ZUC_OK then VECSXP [('''', RAWSXP out n), ('''', RAWSXP t 16)] else R_NilValue)))
      (s\<lparr>rs_allocs := ps, rs_world := w\<rparr>) = (Returned (VECSXP [(''status'', INTSXP [0]), (''value'', v)]), s')"
    using run assms(2) allocs enc by (simp add: zucrypt_aes_gcm_def allocRaw_def run_r_alloc Let_def run_native cong: if_cong)
  have st: "st = ZUC_OK" "v = VECSXP [('''', RAWSXP out n), ('''', RAWSXP t 16)]" "w_mem (rs_world s') = w_mem w"
    using fin by (auto simp: run_r_alloc split: list.splits if_splits dest!: run_result_returned)
  have "buf t 16 \<inter> buf (?ct out) n = {}" using apart [OF allocs(1)] by auto
  note val = zuc_aead_encrypt_value [OF enc [unfolded st(1)] imp this bl [unfolded m_def]]
  have "mem_read x (?ct q) n = mem_read x q n" for x q by simp
  then show ?thesis
    using val st by (auto simp: m_def aad_bytes_def)
qed

lemma zucrypt_aes_gcm_opened:
  assumes run: "run_state (zucrypt_aes_gcm P (RAWSXP p n) (RAWSXP kp kn) (RAWSXP ivp ivn) aad (RAWSXP tp tn) encrypt) s =
      (Returned (VECSXP [(''status'', INTSXP [0]), (''value'', v)]), s')"
    and "\<not> Rf_asLogical encrypt" and imp: "imports_keys P key_of"
    and apart: "\<And>a ps. rs_allocs s = a # ps \<Longrightarrow> buf tp 16 \<inter> buf a n = {}"
  defines "m \<equiv> w_mem (rs_world s)"
  assumes bl: "usable (mem_read m kp kn)"
  shows "\<exists>out. v = RAWSXP out n \<and>
    gcm_decrypt (E (mem_read m kp kn)) (mem_read m ivp 12) (aad_bytes m aad) (mem_read m p n) (mem_read m tp tn) =
      Some (mem_read (w_mem (rs_world s')) out n)"
proof -
  let ?pt = "\<lambda>out. if n \<noteq> 0 then out else NULL"
  obtain out ps where allocs: "rs_allocs s = out # ps" "out \<noteq> NULL"
    using run assms(2) by (auto simp: zucrypt_aes_gcm_def allocRaw_def run_r_alloc Let_def split: list.splits if_splits)
  obtain st w where dec: "run_state (zuc_aead_decrypt P ZUC_ALG_AES_GCM kp kn ivp ivn
      (if Rf_isNull aad then NULL else RAW aad) (if Rf_isNull aad then 0 else XLENGTH aad) (?pt p) n tp tn (?pt out))
      (rs_world s) = (st, w)" by (metis surj_pair)
  have fin: "run_state (result st (if st = ZUC_OK then RAWSXP out n else R_NilValue))
      (s\<lparr>rs_allocs := ps, rs_world := w\<rparr>) = (Returned (VECSXP [(''status'', INTSXP [0]), (''value'', v)]), s')"
    using run assms(2) allocs dec by (simp add: zucrypt_aes_gcm_def allocRaw_def run_r_alloc Let_def run_native cong: if_cong)
  have st: "st = ZUC_OK" "v = RAWSXP out n" "w_mem (rs_world s') = w_mem w"
    using run_result_returned [OF fin] by (auto split: if_splits)
  have "buf tp 16 \<inter> buf (?pt out) n = {}" using apart [OF allocs(1)] by auto
  note val = zuc_aead_decrypt_value [OF dec [unfolded st(1)] imp this bl [unfolded m_def]]
  have "mem_read x (?pt q) n = mem_read x q n" for x q by simp
  then show ?thesis
    using val st by (auto simp: m_def aad_bytes_def)
qed

end

section \<open>A backend that answers\<close>

text \<open>Arguments within bounds, on a world where the backend has been started, and a key that can be imported.\<close>

definition gcm_args ::
  "('b, 'o) world \<Rightarrow> ptr \<Rightarrow> size_t \<Rightarrow> ptr \<Rightarrow> ptr \<Rightarrow> size_t \<Rightarrow> ptr \<Rightarrow> size_t \<Rightarrow> ptr \<Rightarrow> ptr \<Rightarrow> bool" where
  "gcm_args w key key_len nonce aad aad_len inp len out tag \<longleftrightarrow>
    w_refcount w > 0 \<and> key \<noteq> NULL \<and> key_len \<in> {16, 24, 32} \<and> nonce \<noteq> NULL \<and> tag \<noteq> NULL \<and>
    (aad = NULL \<longrightarrow> aad_len = 0) \<and> unat aad_len < 2 ^ 61 \<and> unat len \<le> 0xFFFFFFFE0 \<and>
    (len \<noteq> 0 \<longrightarrow> inp \<noteq> NULL \<and> out \<noteq> NULL \<and> \<not> zuc_int_overlaps inp out len) \<and> buf tag 16 \<inter> buf out len = {}"

definition gcm_key_ok :: "('b, 'o) psa \<Rightarrow> ('b \<Rightarrow> psa_key_id_t \<Rightarrow> bool) \<Rightarrow> byte list \<Rightarrow> 'b \<Rightarrow> bool" where
  "gcm_key_ok P able k b \<longleftrightarrow>
    (let x = P (KEY (Import_key (aes_key_attr PSA_ALG_GCM) k)) None b
     in r_status (fst x) = PSA_SUCCESS \<and> able (snd x) (r_id (fst x)))"

text \<open>
  \<open>able b kid\<close>: the backend works and lets the key be used. Within the bounds of the mode every call then
  succeeds, but the check of a tag that is not the message's.
\<close>

locale psa_gcm_total = psa_gcm_contract P E key_of ready fed usable
  for P :: "('b, 'o) psa" and E key_of ready fed usable +
  fixes able :: "'b \<Rightarrow> psa_key_id_t \<Rightarrow> bool"
  assumes setup_ok: "able b kid \<Longrightarrow>
      r_status (fst (P (gcm_setup e kid) None b)) = PSA_SUCCESS \<and> able (snd (P (gcm_setup e kid) None b)) kid"
    and nonce_ok: "able b kid \<Longrightarrow> ready e k op \<Longrightarrow> length iv = 12 \<Longrightarrow>
      r_status (fst (P (AEAD (Aead_set_nonce iv)) op b)) = PSA_SUCCESS \<and> able (snd (P (AEAD (Aead_set_nonce iv)) op b)) kid"
    and ad_ok: "able b kid \<Longrightarrow> fed e k iv a [] op \<Longrightarrow> length a + length xs < 2 ^ 61 \<Longrightarrow>
      r_status (fst (P (AEAD (Aead_update_ad xs)) op b)) = PSA_SUCCESS \<and> able (snd (P (AEAD (Aead_update_ad xs)) op b)) kid"
    and update_ok: "able b kid \<Longrightarrow> fed e k iv a p op \<Longrightarrow> length d = unat n \<Longrightarrow> d \<noteq> [] \<Longrightarrow> length p + length d \<le> 0xFFFFFFFE0 \<Longrightarrow>
      r_status (fst (P (AEAD (Aead_update d n)) op b)) = PSA_SUCCESS \<and> able (snd (P (AEAD (Aead_update d n)) op b)) kid"
    and finish_ok: "able b kid \<Longrightarrow> fed True k iv a p op \<Longrightarrow>
      r_status (fst (P (AEAD (Aead_finish 0 16)) op b)) = PSA_SUCCESS \<and>
      r_len (fst (P (AEAD (Aead_finish 0 16)) op b)) = 0 \<and> r_len2 (fst (P (AEAD (Aead_finish 0 16)) op b)) = 16"
    and verify_ok: "able b kid \<Longrightarrow> usable k \<Longrightarrow> fed False k iv a p op \<Longrightarrow> length t = 16 \<Longrightarrow>
      r_status (fst (P (AEAD (Aead_verify 0 t)) op b)) =
        (if t = gcm_tag (E k) iv a p then PSA_SUCCESS else PSA_ERROR_INVALID_SIGNATURE) \<and>
      r_len (fst (P (AEAD (Aead_verify 0 t)) op b)) = 0"
begin

lemma aead_run_status:
  fixes w :: "('b, 'o) world" and key nonce aad inp out tag :: ptr and key_len aad_len len :: size_t
  assumes imp: "imports_keys P key_of" and apart: "buf tag 16 \<inter> buf out len = {}"
  defines "k \<equiv> mem_read (w_mem w) key key_len"
    and "iv \<equiv> mem_read (w_mem w) nonce 12"
    and "a \<equiv> mem_read (w_mem w) aad aad_len"
    and "d \<equiv> mem_read (w_mem w) inp len"
  assumes bl: "usable k"
    and import_ok: "r_status (fst (P (KEY (Import_key (aes_key_attr PSA_ALG_GCM) k)) None (w_psa w))) = PSA_SUCCESS"
    and usable: "able (snd (P (KEY (Import_key (aes_key_attr PSA_ALG_GCM) k)) None (w_psa w)))
      (r_id (fst (P (KEY (Import_key (aes_key_attr PSA_ALG_GCM) k)) None (w_psa w))))"
    and bounds: "unat aad_len < 2 ^ 61" "unat len \<le> 0xFFFFFFFE0"
  shows "fst (run_state (aead_run P e ZUC_ALG_AES_GCM key key_len nonce 12 aad aad_len inp len out tag 16) w) =
    (if e \<or> mem_read (w_mem w) tag 16 = gcm_tag (E k) iv a d then ZUC_OK else ZUC_ERR_AUTH)"
proof -
  let ?imp = "P (KEY (Import_key (aes_key_attr PSA_ALG_GCM) k)) None (w_psa w)"
  define kid where "kid = r_id (fst ?imp)"
  obtain w0 where r0: "run_state (import_aead_key P key key_len PSA_ALG_GCM) w = ((ZUC_OK, kid), w0)"
    and w0: "w_psa w0 = snd ?imp" "w_mem w0 = w_mem w"
    using import_ok by (simp add: import_aead_key_def psa_import_key_def run_psa_do k_def kid_def)
  have k: "key_of (w_psa w0) kid = k" and able0: "able (w_psa w0) kid"
    using imp import_ok usable w0 by (simp_all add: imports_keys_def kid_def aes_key_attr_def)
  let ?start = "if e then Aead_encrypt_setup kid PSA_ALG_GCM else Aead_decrypt_setup kid PSA_ALG_GCM"
  obtain o1 w1 where r1: "run_state (aead_next P ?start (PSA_SUCCESS, None)) w0 = ((PSA_SUCCESS, o1), w1)"
    and f1: "ready e k o1" "able (w_psa w1) kid" "w_mem w1 = w_mem w"
    using aead_next_step [of P ?start None w0] setup_ok [OF able0, of e] setup_ready [of "w_psa w0" kid e] k bl w0(2)
    by (auto simp: gcm_setup_def)
  have iv: "length iv = 12" by (simp add: iv_def)
  obtain o2 w2 where r2: "run_state (aead_next P (Aead_set_nonce iv) (PSA_SUCCESS, o1)) w1 = ((PSA_SUCCESS, o2), w2)"
    and f2: "fed e k iv [] [] o2" "able (w_psa w2) kid" "w_mem w2 = w_mem w"
    using aead_next_step [of P "Aead_set_nonce iv" o1 w1] nonce_ok [OF f1(2,1) iv] nonce_fed [OF f1(1) iv, of "w_psa w1"] f1(3)
    by auto
  have a: "length a < 2 ^ 61" "length a < 2 ^ 64" using bounds(1) by (simp_all add: a_def)
  obtain o3 w3 where r3: "run_state (if aad_len \<noteq> 0 then aead_next P (Aead_update_ad a) (PSA_SUCCESS, o2) else ret (PSA_SUCCESS, o2)) w2 =
      ((PSA_SUCCESS, o3), w3)" and f3: "fed e k iv a [] o3" "able (w_psa w3) kid" "w_mem w3 = w_mem w"
  proof (cases "aad_len = 0")
    case True
    then show thesis using f2 by (intro that [of o2 w2]) (simp_all add: a_def)
  next
    case False
    then show thesis
      using that aead_next_step [of P "Aead_update_ad a" o2 w2] ad_ok [OF f2(2,1), of a] ad_fed [OF f2(1) a(2), of "w_psa w2"] a(1) f2(3)
      by auto
  qed
  obtain o4 w4 where r4: "run_state (aead_feed P inp len out (PSA_SUCCESS, o3)) w3 = (((PSA_SUCCESS, o4), len), w4)"
    and f4: "able (w_psa w4) kid"
  proof (cases "len = 0")
    case True
    then show thesis using that f3 by (simp add: aead_feed_def)
  next
    case False
    have d: "length d = unat len" "length d \<le> 0xFFFFFFFE0" "d \<noteq> []"
      using bounds(2) False by (simp_all add: d_def unat_eq_zero flip: length_0_conv)
    show thesis
      using that False f3(3) update_ok [OF f3(2,1) d(1,3)] update_fed [OF bl f3(1) d(1,3), of "w_psa w3"] d(2)
      by (auto simp: aead_feed_def run_psa_do d_def)
  qed
  have v4: "fed e k iv a d o4" "mem_read (w_mem w4) tag 16 = mem_read (w_mem w) tag 16"
  proof -
    note v = feed_value [OF r4, of e k iv a]
    show "fed e k iv a d o4" using v f3 bl by (simp add: d_def)
    show "mem_read (w_mem w4) tag 16 = mem_read (w_mem w) tag 16"
      by (rule mem_read_cong) (use v f3 bl apart in auto)
  qed
  have run: "run_state (aead_run P e ZUC_ALG_AES_GCM key key_len nonce 12 aad aad_len inp len out tag 16) w =
      (case run_state (aead_close P e len out tag 16 len (PSA_SUCCESS, o4)) w4 of
        (x, w5) \<Rightarrow> run_state (aead_done P e kid len 16 len x) w5)"
    using r0 r1 r2 r3 r4 f1(3) f2(3)
    by (cases "aad_len = 0") (simp_all add: aead_run_def psa_aead_alg_def defined_want_def Let_def a_def iv_def split: prod.splits)
  show ?thesis
  proof (cases e)
    case True
    then show ?thesis
      using run v4 finish_ok [OF f4, of k iv a d o4]
      by (simp add: aead_close_def aead_done_def psa_destroy_key_def run_psa_do)
  next
    case False
    obtain r b where v: "P (AEAD (Aead_verify 0 (mem_read (w_mem w4) tag 16))) o4 (w_psa w4) = (r, b)" by force
    then have "r_status r = (if mem_read (w_mem w) tag 16 = gcm_tag (E k) iv a d then PSA_SUCCESS else PSA_ERROR_INVALID_SIGNATURE)"
        "r_len r = 0"
      using verify_ok [OF f4 bl, of iv a d o4 "mem_read (w_mem w4) tag 16"] v4 False by (simp_all add: v4(2))
    then show ?thesis
      using run v False by (simp add: aead_close_def aead_done_def psa_destroy_key_def run_psa_do)
  qed
qed

lemma aead_status:
  fixes w :: "('b, 'o) world"
  assumes "gcm_args w key key_len nonce aad aad_len inp len out tag" "imports_keys P key_of"
    and "usable (mem_read (w_mem w) key key_len)" "gcm_key_ok P able (mem_read (w_mem w) key key_len) (w_psa w)"
  shows "fst (run_state (zuc_aead_encrypt P ZUC_ALG_AES_GCM key key_len nonce 12 aad aad_len inp len out tag 16) w) = ZUC_OK"
    and "fst (run_state (zuc_aead_decrypt P ZUC_ALG_AES_GCM key key_len nonce 12 aad aad_len inp len tag 16 out) w) =
      (if mem_read (w_mem w) tag 16 = gcm_tag (E (mem_read (w_mem w) key key_len)) (mem_read (w_mem w) nonce 12)
         (mem_read (w_mem w) aad aad_len) (mem_read (w_mem w) inp len) then ZUC_OK else ZUC_ERR_AUTH)"
proof -
  have chk: "run_state (check_aead_args e ZUC_ALG_AES_GCM key key_len nonce 12 aad aad_len inp len out tag 16) w = (ZUC_OK, w)" for e
    using assms(1) by (auto simp: check_aead_args_def gcm_args_def psa_aead_alg_def defined_want_def word_gt_0)
  have run: "fst (run_state (aead_run P e ZUC_ALG_AES_GCM key key_len nonce 12 aad aad_len inp len out tag 16) w) =
      (if e \<or> mem_read (w_mem w) tag 16 = gcm_tag (E (mem_read (w_mem w) key key_len)) (mem_read (w_mem w) nonce 12)
         (mem_read (w_mem w) aad aad_len) (mem_read (w_mem w) inp len) then ZUC_OK else ZUC_ERR_AUTH)" for e
    by (rule aead_run_status) (use assms in \<open>simp_all add: gcm_args_def gcm_key_ok_def Let_def\<close>)
  show "fst (run_state (zuc_aead_encrypt P ZUC_ALG_AES_GCM key key_len nonce 12 aad aad_len inp len out tag 16) w) = ZUC_OK"
  proof -
    obtain w1 where "run_state (aead_run P True ZUC_ALG_AES_GCM key key_len nonce 12 aad aad_len inp len out tag 16) w = (ZUC_OK, w1)"
      using run [of True] by (metis (full_types) prod.collapse)
    then show ?thesis by (simp add: zuc_aead_encrypt_def chk)
  qed
  show "fst (run_state (zuc_aead_decrypt P ZUC_ALG_AES_GCM key key_len nonce 12 aad aad_len inp len tag 16 out) w) =
      (if mem_read (w_mem w) tag 16 = gcm_tag (E (mem_read (w_mem w) key key_len)) (mem_read (w_mem w) nonce 12)
         (mem_read (w_mem w) aad aad_len) (mem_read (w_mem w) inp len) then ZUC_OK else ZUC_ERR_AUTH)"
  proof -
    obtain st w1 where r: "run_state (aead_run P False ZUC_ALG_AES_GCM key key_len nonce 12 aad aad_len inp len out tag 16) w = (st, w1)"
      by (metis surj_pair)
    then show ?thesis using run [of False] by (cases "st = ZUC_OK") (auto simp: zuc_aead_decrypt_def chk split: if_splits prod.splits)
  qed
qed

lemma zucrypt_aes_gcm_seals:
  fixes s :: "('b, 'o) session"
  defines "w \<equiv> rs_world s"
  assumes "Rf_asLogical encrypt" and allocs: "rs_allocs s = out # t # x # l # rest" "out \<noteq> NULL" "x \<noteq> NULL" "l \<noteq> NULL"
    and args: "gcm_args w kp kn ivp (if Rf_isNull aad then NULL else RAW aad) (if Rf_isNull aad then 0 else XLENGTH aad)
      (if n \<noteq> 0 then p else NULL) n (if n \<noteq> 0 then out else NULL) t"
    and "imports_keys P key_of" "usable (mem_read (w_mem w) kp kn)" "gcm_key_ok P able (mem_read (w_mem w) kp kn) (w_psa w)"
  shows "\<exists>s'. run_state (zucrypt_aes_gcm P (RAWSXP p n) (RAWSXP kp kn) (RAWSXP ivp 12) aad tag encrypt) s =
    (Returned (VECSXP [(''status'', INTSXP [0]), (''value'', VECSXP [('''', RAWSXP out n), ('''', RAWSXP t 16)])]), s')"
proof -
  have t: "t \<noteq> NULL" using args by (simp add: gcm_args_def)
  obtain st w1 where run: "run_state (zuc_aead_encrypt P ZUC_ALG_AES_GCM kp kn ivp 12 (if Rf_isNull aad then NULL else RAW aad)
      (if Rf_isNull aad then 0 else XLENGTH aad) (if n \<noteq> 0 then p else NULL) n (if n \<noteq> 0 then out else NULL) t 16) w = (st, w1)"
    by (metis surj_pair)
  moreover have "st = ZUC_OK" using aead_status(1) [OF args assms(8-10)] run by simp
  ultimately show ?thesis
    using assms(2) allocs t
    by (simp add: zucrypt_aes_gcm_def allocRaw_def run_r_alloc Let_def run_native result_def w_def cong: if_cong)
qed

lemma zucrypt_aes_gcm_decides:
  fixes s :: "('b, 'o) session"
  defines "w \<equiv> rs_world s"
  assumes "\<not> Rf_asLogical encrypt" and allocs: "rs_allocs s = out # l # rest" "out \<noteq> NULL" "l \<noteq> NULL"
    and args: "gcm_args w kp kn ivp (if Rf_isNull aad then NULL else RAW aad) (if Rf_isNull aad then 0 else XLENGTH aad)
      (if n \<noteq> 0 then p else NULL) n (if n \<noteq> 0 then out else NULL) tp"
    and "imports_keys P key_of" "usable (mem_read (w_mem w) kp kn)" "gcm_key_ok P able (mem_read (w_mem w) kp kn) (w_psa w)"
  shows "\<exists>s'. run_state (zucrypt_aes_gcm P (RAWSXP p n) (RAWSXP kp kn) (RAWSXP ivp 12) aad (RAWSXP tp 16) encrypt) s =
    (Returned (
      if gcm_decrypt (E (mem_read (w_mem w) kp kn)) (mem_read (w_mem w) ivp 12) (aad_bytes (w_mem w) aad)
        (mem_read (w_mem w) p n) (mem_read (w_mem w) tp 16) \<noteq> None
      then VECSXP [(''status'', INTSXP [0]), (''value'', RAWSXP out n)]
      else VECSXP [(''status'', INTSXP [zuc_status_code ZUC_ERR_AUTH]), (''value'', R_NilValue)]), s')"
proof -
  obtain st w1 where run: "run_state (zuc_aead_decrypt P ZUC_ALG_AES_GCM kp kn ivp 12 (if Rf_isNull aad then NULL else RAW aad)
      (if Rf_isNull aad then 0 else XLENGTH aad) (if n \<noteq> 0 then p else NULL) n tp 16 (if n \<noteq> 0 then out else NULL)) w = (st, w1)"
    by (metis surj_pair)
  have "mem_read x (if n \<noteq> 0 then q else NULL) n = mem_read x q n" for x q by simp
  then have "st = (if gcm_decrypt (E (mem_read (w_mem w) kp kn)) (mem_read (w_mem w) ivp 12) (aad_bytes (w_mem w) aad)
        (mem_read (w_mem w) p n) (mem_read (w_mem w) tp 16) \<noteq> None then ZUC_OK else ZUC_ERR_AUTH)"
    using aead_status(2) [OF args assms(7-9)] run by (simp add: gcm_decrypt_def aad_bytes_def cong: if_cong)
  then show ?thesis
    using run assms(2) allocs
    by (simp add: zucrypt_aes_gcm_def allocRaw_def run_r_alloc Let_def run_native result_def w_def cong: if_cong)
qed

end

end
