(* ===== verification/Gcm.thy ===== *)
theory Gcm
  imports Gcm_Mode Psa_Mac
begin

text \<open>
  The context of \<^verbatim>\<open>gcm.c\<close> with its set-up, its incremental updates and its end. The invariant \<open>gcm_has\<close>
  ties the context to the bytes it has been fed; that every operation keeps it makes a context fed in any
  pieces compute the mode.
\<close>

section \<open>The context: gcm.c\<close>

text \<open>
  The block cipher is \<open>ecb\<close>. \<open>hw\<close> is the processor's multiplication, on a processor that has one and a
  build that uses it: \<^verbatim>\<open>mbedtls_aesni_gcm_mult\<close> and \<^verbatim>\<open>mbedtls_aesce_gcm_mult\<close> are instructions of the
  processor. \<open>g_h\<close> is the row of the table that those read, \<open>g_H\<close> the table. A true \<open>g_encrypt\<close> is the mode
  \<^verbatim>\<open>MBEDTLS_GCM_ENCRYPT\<close>.
\<close>

type_synonym gcm_hw = "(byte list \<Rightarrow> byte list \<Rightarrow> byte list) option"

record mbedtls_gcm_context =
  g_key :: "byte list"
  g_h :: "byte list"
  g_H :: "gcm_row list"
  g_len :: "64 word"
  g_add_len :: "64 word"
  g_base_ectr :: "byte list"
  g_y :: "byte list"
  g_buf :: "byte list"
  g_encrypt :: bool

text \<open>\<^verbatim>\<open>mbedtls_xor\<close> of some bytes into a buffer.\<close>

definition xor_at :: "byte list \<Rightarrow> nat \<Rightarrow> byte list \<Rightarrow> byte list" where
  "xor_at bf off xs = take off bf @ xor_bytes (take (length xs) (drop off bf)) xs @ drop (off + length xs) bf"

definition gcm_mult :: "gcm_hw \<Rightarrow> mbedtls_gcm_context \<Rightarrow> byte list \<Rightarrow> byte list" where
  "gcm_mult hw ctx x = (case hw of Some f \<Rightarrow> f x (g_h ctx) | None \<Rightarrow> gcm_mult_smalltable (g_H ctx) x)"

definition mbedtls_gcm_init :: mbedtls_gcm_context where
  "mbedtls_gcm_init =
    \<lparr>g_key = [], g_h = zero_block, g_H = replicate 16 (0, 0), g_len = 0, g_add_len = 0, g_base_ectr = zero_block,
     g_y = zero_block, g_buf = zero_block, g_encrypt = False\<rparr>"

definition mbedtls_gcm_setkey ::
  "ecb \<Rightarrow> gcm_hw \<Rightarrow> mbedtls_gcm_context \<Rightarrow> byte list \<Rightarrow> size_t \<Rightarrow> (psa_status_t \<times> mbedtls_gcm_context) heap_state" where
  "mbedtls_gcm_setkey ecb hw ctx key keybits =
    (if keybits \<noteq> 128 \<and> keybits \<noteq> 192 \<and> keybits \<noteq> 256 then ret (PSA_ERROR_INVALID_ARGUMENT, ctx)
     else do {
       ok \<leftarrow> try_local 1;
       if \<not> ok then ret (PSA_ERROR_INSUFFICIENT_MEMORY, ctx)
       else
         let ctx = ctx\<lparr>g_key := key\<rparr>;
             h = ecb True key zero_block;
             ctx = ctx\<lparr>g_h := h\<rparr>
         in ret (PSA_SUCCESS, case hw of Some f \<Rightarrow> ctx | None \<Rightarrow> ctx\<lparr>g_H := gcm_gen_table h\<rparr>)
     })"

text \<open>The loop over an IV that does not have the usual length.\<close>

function gcm_iv_loop :: "gcm_hw \<Rightarrow> mbedtls_gcm_context \<Rightarrow> byte list \<Rightarrow> byte list \<Rightarrow> byte list" where
  "gcm_iv_loop hw ctx y iv =
    (if length iv = 0 then y
     else
       let use_len = (if length iv < 16 then length iv else 16);
           y = xor_at y 0 (take use_len iv);
           y = gcm_mult hw ctx y
       in gcm_iv_loop hw ctx y (drop use_len iv))"
  by pat_completeness auto

termination
  by (relation "measure (\<lambda>(hw, ctx, y, iv). length iv)") auto

declare gcm_iv_loop.simps [simp del]

definition mbedtls_gcm_starts ::
  "ecb \<Rightarrow> gcm_hw \<Rightarrow> mbedtls_gcm_context \<Rightarrow> bool \<Rightarrow> byte list \<Rightarrow> psa_status_t \<times> mbedtls_gcm_context" where
  "mbedtls_gcm_starts ecb hw ctx encrypt iv =
    (if length iv = 0 \<or> drop_bit 61 (of_nat (length iv) :: 64 word) \<noteq> 0 then (PSA_ERROR_INVALID_ARGUMENT, ctx)
     else
       let ctx = ctx\<lparr>g_y := zero_block, g_buf := zero_block, g_encrypt := encrypt, g_len := 0, g_add_len := 0\<rparr>;
           ctx =
             (if length iv = 12 then ctx\<lparr>g_y := (put (g_y ctx) 0 iv)[15 := 1]\<rparr>
              else
                let iv_bits = of_nat (length iv) * 8 :: 64 word;
                    work_buf = put zero_block 8 (put_be 8 iv_bits);
                    y = gcm_iv_loop hw ctx (g_y ctx) iv;
                    y = xor_at y 0 work_buf;
                    y = gcm_mult hw ctx y
                in ctx\<lparr>g_y := y\<rparr>)
       in (PSA_SUCCESS, ctx\<lparr>g_base_ectr := ecb True (g_key ctx) (g_y ctx)\<rparr>))"

function gcm_ad_loop :: "gcm_hw \<Rightarrow> mbedtls_gcm_context \<Rightarrow> byte list \<Rightarrow> mbedtls_gcm_context" where
  "gcm_ad_loop hw ctx add =
    (if 16 \<le> length add then
       let ctx = ctx\<lparr>g_buf := xor_at (g_buf ctx) 0 (take 16 add)\<rparr>;
           ctx = ctx\<lparr>g_buf := gcm_mult hw ctx (g_buf ctx)\<rparr>
       in gcm_ad_loop hw ctx (drop 16 add)
     else if 0 < length add then ctx\<lparr>g_buf := xor_at (g_buf ctx) 0 add\<rparr> else ctx)"
  by pat_completeness auto

termination
  by (relation "measure (\<lambda>(hw, ctx, add). length add)") auto

declare gcm_ad_loop.simps [simp del]

definition mbedtls_gcm_update_ad ::
  "gcm_hw \<Rightarrow> mbedtls_gcm_context \<Rightarrow> byte list \<Rightarrow> psa_status_t \<times> mbedtls_gcm_context" where
  "mbedtls_gcm_update_ad hw ctx add =
    (let new_add_len = g_add_len ctx + of_nat (length add)
     in if new_add_len < g_add_len ctx \<or> drop_bit 61 new_add_len \<noteq> 0 then (PSA_ERROR_INVALID_ARGUMENT, ctx)
        else
          let offset = unat (g_add_len ctx mod 16);
              (ctx, add) =
                (if offset \<noteq> 0 then
                   let use_len = (if 16 - offset > length add then length add else 16 - offset);
                       ctx = ctx\<lparr>g_buf := xor_at (g_buf ctx) offset (take use_len add)\<rparr>;
                       ctx = (if offset + use_len = 16 then ctx\<lparr>g_buf := gcm_mult hw ctx (g_buf ctx)\<rparr> else ctx)
                   in (ctx\<lparr>g_add_len := g_add_len ctx + of_nat use_len\<rparr>, drop use_len add)
                 else (ctx, add));
              ctx = ctx\<lparr>g_add_len := g_add_len ctx + of_nat (length add)\<rparr>
          in (PSA_SUCCESS, gcm_ad_loop hw ctx add))"

definition gcm_incr :: "byte list \<Rightarrow> byte list" where
  "gcm_incr y = put y 12 (put_be 4 (get_be 4 y 12 + 1 :: 32 word))"

text \<open>The context and the output.\<close>

definition gcm_mask ::
  "ecb \<Rightarrow> mbedtls_gcm_context \<Rightarrow> nat \<Rightarrow> byte list \<Rightarrow> mbedtls_gcm_context \<times> byte list" where
  "gcm_mask ecb ctx offset inp =
    (let ectr = ecb True (g_key ctx) (g_y ctx);
         ctx = (if \<not> g_encrypt ctx then ctx\<lparr>g_buf := xor_at (g_buf ctx) offset inp\<rparr> else ctx);
         out = xor_bytes (take (length inp) (drop offset ectr)) inp;
         ctx = (if g_encrypt ctx then ctx\<lparr>g_buf := xor_at (g_buf ctx) offset out\<rparr> else ctx)
     in (ctx, out))"

function gcm_update_loop ::
  "ecb \<Rightarrow> gcm_hw \<Rightarrow> mbedtls_gcm_context \<Rightarrow> byte list \<Rightarrow> mbedtls_gcm_context \<times> byte list" where
  "gcm_update_loop ecb hw ctx inp =
    (if 16 \<le> length inp then
       let ctx = ctx\<lparr>g_y := gcm_incr (g_y ctx)\<rparr>;
           (ctx, out) = gcm_mask ecb ctx 0 (take 16 inp);
           ctx = ctx\<lparr>g_buf := gcm_mult hw ctx (g_buf ctx)\<rparr>;
           (ctx, rest) = gcm_update_loop ecb hw ctx (drop 16 inp)
       in (ctx, out @ rest)
     else if 0 < length inp then gcm_mask ecb (ctx\<lparr>g_y := gcm_incr (g_y ctx)\<rparr>) 0 inp
     else (ctx, []))"
  by pat_completeness auto

termination
  by (relation "measure (\<lambda>(ecb, hw, ctx, inp). length inp)") auto

declare gcm_update_loop.simps [simp del]

text \<open>The input and the output are copies that the PSA layer has made, which do not overlap.\<close>

definition mbedtls_gcm_update ::
  "ecb \<Rightarrow> gcm_hw \<Rightarrow> mbedtls_gcm_context \<Rightarrow> byte list \<Rightarrow> size_t \<Rightarrow>
   psa_status_t \<times> mbedtls_gcm_context \<times> byte list" where
  "mbedtls_gcm_update ecb hw ctx inp output_size =
    (if output_size < of_nat (length inp) then (PSA_ERROR_BUFFER_TOO_SMALL, ctx, [])
     else if length inp = 0 then (PSA_SUCCESS, ctx, [])
     else if g_len ctx + of_nat (length inp) < g_len ctx \<or> g_len ctx + of_nat (length inp) > 0xFFFFFFFE0
     then (PSA_ERROR_INVALID_ARGUMENT, ctx, [])
     else
       let ctx = (if g_len ctx = 0 \<and> g_add_len ctx mod 16 \<noteq> 0
                  then ctx\<lparr>g_buf := gcm_mult hw ctx (g_buf ctx)\<rparr> else ctx);
           offset = unat (g_len ctx mod 16);
           (ctx, first, inp) =
             (if offset \<noteq> 0 then
                let use_len = (if 16 - offset > length inp then length inp else 16 - offset);
                    (ctx, out) = gcm_mask ecb ctx offset (take use_len inp);
                    ctx = (if offset + use_len = 16 then ctx\<lparr>g_buf := gcm_mult hw ctx (g_buf ctx)\<rparr> else ctx)
                in (ctx\<lparr>g_len := g_len ctx + of_nat use_len\<rparr>, out, drop use_len inp)
              else (ctx, [], inp));
           ctx = ctx\<lparr>g_len := g_len ctx + of_nat (length inp)\<rparr>;
           (ctx, out) = gcm_update_loop ecb hw ctx inp
       in (PSA_SUCCESS, ctx, first @ out))"

text \<open>The tag, of the length asked for.\<close>

definition mbedtls_gcm_finish ::
  "gcm_hw \<Rightarrow> mbedtls_gcm_context \<Rightarrow> nat \<Rightarrow> psa_status_t \<times> mbedtls_gcm_context \<times> byte list" where
  "mbedtls_gcm_finish hw ctx tag_len =
    (let orig_len = g_len ctx * 8;
         orig_add_len = g_add_len ctx * 8;
         ctx = (if g_len ctx = 0 \<and> g_add_len ctx mod 16 \<noteq> 0
                then ctx\<lparr>g_buf := gcm_mult hw ctx (g_buf ctx)\<rparr> else ctx)
     in if tag_len > 16 \<or> tag_len < 4 then (PSA_ERROR_INVALID_ARGUMENT, ctx, [])
        else
          let ctx = (if g_len ctx mod 16 \<noteq> 0 then ctx\<lparr>g_buf := gcm_mult hw ctx (g_buf ctx)\<rparr> else ctx);
              tag = take tag_len (g_base_ectr ctx)
          in if orig_len \<noteq> 0 \<or> orig_add_len \<noteq> 0 then
               let work_buf =
                     put_be 4 (ucast (drop_bit 32 orig_add_len) :: 32 word) @ put_be 4 (ucast orig_add_len :: 32 word) @
                     put_be 4 (ucast (drop_bit 32 orig_len) :: 32 word) @ put_be 4 (ucast orig_len :: 32 word);
                   ctx = ctx\<lparr>g_buf := xor_at (g_buf ctx) 0 work_buf\<rparr>;
                   ctx = ctx\<lparr>g_buf := gcm_mult hw ctx (g_buf ctx)\<rparr>
               in (PSA_SUCCESS, ctx, xor_bytes tag (take tag_len (g_buf ctx)))
             else (PSA_SUCCESS, ctx, tag))"


section \<open>The multiplication\<close>

text \<open>A processor's multiplication is the one of the standard.\<close>

definition hw_multiplies :: "gcm_hw \<Rightarrow> bool" where
  "hw_multiplies hw \<longleftrightarrow> (\<forall>f. hw = Some f \<longrightarrow> (\<forall>x h. length x = 16 \<longrightarrow> length h = 16 \<longrightarrow> f x h = ghash_mul h x))"

definition gcm_keyed :: "ecb \<Rightarrow> gcm_hw \<Rightarrow> byte list \<Rightarrow> mbedtls_gcm_context \<Rightarrow> bool" where
  "gcm_keyed ecb hw k ctx \<longleftrightarrow> g_key ctx = k \<and> (\<forall>x. length x = 16 \<longrightarrow> gcm_mult hw ctx x = ghash_mul (ecb True k zero_block) x)"

lemma gcm_mult_smalltable_bytes:
  assumes "gcm_table_for T (gcm_block h)" "length x = 16"
  shows "gcm_mult_smalltable T x = ghash_mul h x"
proof -
  define z where "z = fold (\<lambda>i. gcm_byte T (x ! i)) (rev [0..<16]) (0, 0)"
  have z: "gcm_mult_smalltable T x = put_be 8 (fst z) @ put_be 8 (snd z)"
    by (simp add: gcm_mult_fold z_def Let_def)
  have "fst z = ucast (drop_bit 64 (gcm_join z))" "snd z = ucast (gcm_join z)"
    by (rule bit_word_eqI; auto simp: bit_gcm_join bit_simps)+
  then have "put_be 8 (fst z) @ put_be 8 (snd z) = put_be (8 + 8) (gcm_join z)"
    by (intro put_be_append) (simp_all add: bit_gcm_join)
  then have "gcm_mult_smalltable T x = put_be 16 (gcm_join z)" using z by simp
  moreover have "gcm_block (gcm_mult_smalltable T x) = gcm_join z"
    unfolding z by (rule gcm_block_of_row)
  ultimately show ?thesis
    using gcm_mult_is_gf_mult [OF assms] by (simp add: ghash_mul_def)
qed

lemma gcm_setkey_keyed:
  assumes "hw_multiplies hw" "on_blocks (ecb True k)"
    and run: "run_state (mbedtls_gcm_setkey ecb hw ctx k n) s = ((PSA_SUCCESS, ctx'), s')"
  shows "gcm_keyed ecb hw k ctx'"
proof -
  let ?h = "ecb True k zero_block"
  have len: "length ?h = 16" using assms(2) by (simp add: on_blocks_def)
  have "ctx' = (case hw of Some f \<Rightarrow> ctx\<lparr>g_key := k, g_h := ?h\<rparr> | None \<Rightarrow> ctx\<lparr>g_key := k, g_h := ?h, g_H := gcm_gen_table ?h\<rparr>)"
    using run by (auto simp: mbedtls_gcm_setkey_def try_local_def Let_def split: if_splits prod.splits)
  then show ?thesis
    using assms(1) len gcm_mult_smalltable_bytes [OF gcm_gen_table_ok [OF len]]
    by (cases hw) (auto simp: gcm_keyed_def gcm_mult_def hw_multiplies_def)
qed

section \<open>Absorbing into the block\<close>

text \<open>The block after some bytes, the last of which may not have been multiplied in.\<close>

function gcm_absorb :: "byte list \<Rightarrow> byte list \<Rightarrow> byte list \<Rightarrow> byte list" where
  "gcm_absorb h y m =
    (if length m < 16 then xor_at y 0 m else gcm_absorb h (ghash_mul h (xor_bytes y (take 16 m))) (drop 16 m))"
  by pat_completeness auto

termination
  by (relation "measure (\<lambda>(h, y, m). length m)") auto

declare gcm_absorb.simps [simp del]

lemma length_xor_at [simp]: "off + length xs \<le> length bf \<Longrightarrow> length (xor_at bf off xs) = length bf"
  by (simp add: xor_at_def)

lemma xor_at_Nil [simp]: "xor_at bf off [] = bf"
  by (simp add: xor_at_def xor_bytes_def)

lemma xor_at_nth:
  assumes "off + length xs \<le> length bf" "i < length bf"
  shows "xor_at bf off xs ! i = (if off \<le> i \<and> i < off + length xs then bf ! i XOR xs ! (i - off) else bf ! i)"
  using assms by (auto simp: xor_at_def xor_bytes_def nth_append not_le)

lemma xor_at_append:
  assumes "length xs + length ys \<le> length bf"
  shows "xor_at bf 0 (xs @ ys) = xor_at (xor_at bf 0 xs) (length xs) ys"
proof (rule nth_equalityI)
  fix i
  assume "i < length (xor_at bf 0 (xs @ ys))"
  then show "xor_at bf 0 (xs @ ys) ! i = xor_at (xor_at bf 0 xs) (length xs) ys ! i"
    using assms by (simp add: xor_at_nth nth_append)
qed (use assms in simp)

lemma xor_at_whole: "length xs = length bf \<Longrightarrow> xor_at bf 0 xs = xor_bytes bf xs"
  by (simp add: xor_at_def)

lemma gcm_absorb_short: "length m < 16 \<Longrightarrow> gcm_absorb h y m = xor_at y 0 m"
  by (simp add: gcm_absorb.simps)

lemma gcm_absorb_block: "length b = 16 \<Longrightarrow> gcm_absorb h y (b @ m) = gcm_absorb h (ghash_mul h (xor_bytes y b)) m"
  by (subst gcm_absorb.simps) simp

lemma blocks_rest_induct [case_names short block]:
  assumes "\<And>y m. length m < 16 \<Longrightarrow> P y m"
    and "\<And>y b m. length b = 16 \<Longrightarrow> (\<And>y'. P y' m) \<Longrightarrow> P y (b @ m)"
  shows "P y (m :: 'a list)"
proof (induction "length m" arbitrary: m y rule: less_induct)
  case less
  show ?case
  proof (cases "length m < 16")
    case False
    then have "P y' (drop 16 m)" for y' using less by simp
    then show ?thesis using assms(2) [of "take 16 m" "drop 16 m" y] False by simp
  qed (rule assms(1))
qed

lemma length_gcm_absorb [simp]: "length y = 16 \<Longrightarrow> length (gcm_absorb h y m) = 16"
  by (induction y m rule: blocks_rest_induct) (simp_all add: gcm_absorb_short gcm_absorb_block)

lemma gcm_absorb_append: "16 dvd length m \<Longrightarrow> gcm_absorb h y (m @ xs) = gcm_absorb h (gcm_absorb h y m) xs"
  by (induction y m rule: blocks_induct) (simp_all add: gcm_absorb_short gcm_absorb_block)

lemma gcm_absorb_piece:
  assumes "length y = 16" "length m mod 16 + length xs \<le> 16" "xs \<noteq> []"
  shows "gcm_absorb h y (m @ xs) =
    (let bf = xor_at (gcm_absorb h y m) (length m mod 16) xs
     in if length m mod 16 + length xs = 16 then ghash_mul h bf else bf)"
  using assms(1,2)
proof (induction y m rule: blocks_rest_induct)
  case (short y m)
  show ?case
  proof (cases "length m + length xs = 16")
    case True
    then have "gcm_absorb h y (m @ xs) = ghash_mul h (xor_at y 0 (m @ xs))"
      using gcm_absorb_block [of "m @ xs" h y "[]"] short by (simp add: gcm_absorb_short xor_at_whole)
    then show ?thesis using short True by (simp add: gcm_absorb_short xor_at_append)
  next
    case False
    then show ?thesis using short by (simp add: gcm_absorb_short xor_at_append Let_def)
  qed
next
  case (block y b m)
  then show ?case by (simp add: gcm_absorb_block)
qed

lemma gcm_absorb_end:
  assumes "length y = 16"
  shows "(if length m mod 16 \<noteq> 0 then ghash_mul h (gcm_absorb h y m) else gcm_absorb h y m) = ghash h y (pad16 m)"
  using assms
proof (induction y m rule: blocks_rest_induct)
  case (short y m)
  show ?case
  proof (cases "m = []")
    case True
    then show ?thesis by (simp add: gcm_absorb_short pad16_def)
  next
    case False
    then have r: "length m mod 16 \<noteq> 0" "length (pad16 m) = 16" using short(1) by (simp_all add: pad16_def)
    have "xor_at y 0 m = xor_bytes y (pad16 m)"
      by (rule nth_equalityI) (use short r in \<open>auto simp: xor_at_nth xor_bytes_def pad16_def nth_append\<close>)
    then show ?thesis using r short(1) by (simp add: gcm_absorb_short ghash_one)
  qed
next
  case (block y b m)
  then show ?case
    using block(2) [of "ghash_mul h (xor_bytes y b)"]
    by (cases "length m mod 16 = 0") (simp_all add: gcm_absorb_block pad16_split ghash_block)
qed


section \<open>The counter\<close>

lemma gcm_incr_inc32: "length y = 16 \<Longrightarrow> gcm_incr y = inc32 y"
proof -
  assume "length y = 16"
  moreover have "of_nat ((unat x + 1) mod 2 ^ 32) = x + 1" for x :: "32 word"
  proof -
    have "of_nat (n mod 2 ^ 32) = (of_nat n :: 32 word)" for n
      by (simp add: word_of_nat_eq_iff take_bit_eq_mod)
    then show ?thesis by (metis of_nat_1 of_nat_add of_nat_unat ucast_id)
  qed
  ultimately show ?thesis by (simp add: gcm_incr_def inc32_def put_def)
qed

section \<open>What a context holds\<close>

text \<open>
  Under the key \<open>k\<close> and the IV \<open>iv\<close>, a context has been fed the associated data \<open>a\<close> and the message \<open>p\<close>,
  plaintext when it encrypts and ciphertext when it decrypts. \<open>gcm_core\<close> is the part of it that holds
  once the associated data are multiplied in.
\<close>

definition gcm_cipher_side :: "bool \<Rightarrow> (byte list \<Rightarrow> byte list) \<Rightarrow> byte list \<Rightarrow> byte list \<Rightarrow> byte list" where
  "gcm_cipher_side e E iv p = (if e then gcm_ctr E iv p else p)"

definition gcm_base :: "ecb \<Rightarrow> gcm_hw \<Rightarrow> byte list \<Rightarrow> bool \<Rightarrow> byte list \<Rightarrow> byte list \<Rightarrow> mbedtls_gcm_context \<Rightarrow> bool" where
  "gcm_base ecb hw k e iv p ctx \<longleftrightarrow>
    gcm_keyed ecb hw k ctx \<and> g_encrypt ctx = e \<and> g_base_ectr ctx = ecb True k (gcm_j0 (ecb True k) iv) \<and>
    g_y ctx = (inc32 ^^ ((length p + 15) div 16)) (gcm_j0 (ecb True k) iv)"

definition gcm_core ::
  "ecb \<Rightarrow> gcm_hw \<Rightarrow> byte list \<Rightarrow> bool \<Rightarrow> byte list \<Rightarrow> byte list \<Rightarrow> byte list \<Rightarrow> mbedtls_gcm_context \<Rightarrow> bool" where
  "gcm_core ecb hw k e iv a p ctx \<longleftrightarrow>
    gcm_base ecb hw k e iv p ctx \<and>
    (let h = ecb True k zero_block
     in g_buf ctx = gcm_absorb h (ghash h zero_block (pad16 a)) (gcm_cipher_side e (ecb True k) iv p))"

definition gcm_has ::
  "ecb \<Rightarrow> gcm_hw \<Rightarrow> byte list \<Rightarrow> bool \<Rightarrow> byte list \<Rightarrow> byte list \<Rightarrow> byte list \<Rightarrow> mbedtls_gcm_context \<Rightarrow> bool" where
  "gcm_has ecb hw k e iv a p ctx \<longleftrightarrow>
    gcm_base ecb hw k e iv p ctx \<and>
    (if p = [] then g_buf ctx = gcm_absorb (ecb True k zero_block) zero_block a else gcm_core ecb hw k e iv a p ctx) \<and>
    g_add_len ctx = of_nat (length a) \<and> length a < 2 ^ 61 \<and>
    g_len ctx = of_nat (length p) \<and> length p \<le> 0xFFFFFFFE0"

lemma gcm_core_base: "gcm_core ecb hw k e iv a p ctx \<Longrightarrow> gcm_base ecb hw k e iv p ctx"
  by (simp add: gcm_core_def)

lemma gcm_mult_frame [simp]:
  "gcm_mult hw (ctx\<lparr>g_buf := b\<rparr>) = gcm_mult hw ctx" "gcm_mult hw (ctx\<lparr>g_y := b\<rparr>) = gcm_mult hw ctx"
  "gcm_mult hw (ctx\<lparr>g_len := n\<rparr>) = gcm_mult hw ctx" "gcm_mult hw (ctx\<lparr>g_add_len := n\<rparr>) = gcm_mult hw ctx"
  "gcm_mult hw (ctx\<lparr>g_encrypt := d\<rparr>) = gcm_mult hw ctx" "gcm_mult hw (ctx\<lparr>g_base_ectr := b\<rparr>) = gcm_mult hw ctx"
  by (simp_all add: gcm_mult_def fun_eq_iff split: option.split)

lemma gcm_keyed_frame [simp]:
  "gcm_keyed ecb hw k (ctx\<lparr>g_buf := b\<rparr>) = gcm_keyed ecb hw k ctx" "gcm_keyed ecb hw k (ctx\<lparr>g_y := b\<rparr>) = gcm_keyed ecb hw k ctx"
  "gcm_keyed ecb hw k (ctx\<lparr>g_len := n\<rparr>) = gcm_keyed ecb hw k ctx"
  "gcm_keyed ecb hw k (ctx\<lparr>g_add_len := n\<rparr>) = gcm_keyed ecb hw k ctx"
  "gcm_keyed ecb hw k (ctx\<lparr>g_encrypt := d\<rparr>) = gcm_keyed ecb hw k ctx"
  "gcm_keyed ecb hw k (ctx\<lparr>g_base_ectr := b\<rparr>) = gcm_keyed ecb hw k ctx"
  by (simp_all add: gcm_keyed_def)

lemma gcm_keyed_mult: "gcm_keyed ecb hw k ctx \<Longrightarrow> length x = 16 \<Longrightarrow> gcm_mult hw ctx x = ghash_mul (ecb True k zero_block) x"
  by (simp add: gcm_keyed_def)

lemma gcm_base_frame [simp]:
  "gcm_base ecb hw k e iv p (ctx\<lparr>g_buf := b\<rparr>) = gcm_base ecb hw k e iv p ctx"
  "gcm_base ecb hw k e iv p (ctx\<lparr>g_len := n\<rparr>) = gcm_base ecb hw k e iv p ctx"
  "gcm_base ecb hw k e iv p (ctx\<lparr>g_add_len := n\<rparr>) = gcm_base ecb hw k e iv p ctx"
  by (simp_all add: gcm_base_def)

text \<open>Starting: the pre-counter block.\<close>

lemma gcm_iv_loop_ghash:
  assumes "gcm_keyed ecb hw k ctx" "length y = 16"
  shows "gcm_iv_loop hw ctx y iv = ghash (ecb True k zero_block) y (pad16 iv)"
  using assms(2)
proof (induction y iv rule: blocks_rest_induct)
  case (short y iv)
  show ?case
  proof (cases "iv = []")
    case True
    then show ?thesis by (simp add: gcm_iv_loop.simps pad16_def)
  next
    case False
    then have "length iv mod 16 \<noteq> 0" using short by simp
    then have "ghash (ecb True k zero_block) y (pad16 iv) = ghash_mul (ecb True k zero_block) (xor_at y 0 iv)"
      using gcm_absorb_end [OF short(2), of iv "ecb True k zero_block"] short by (simp add: gcm_absorb_short)
    then show ?thesis
      using False short assms(1)
      by (simp add: gcm_iv_loop.simps [of _ _ y iv] gcm_iv_loop.simps [of _ _ _ "[]"] Let_def gcm_keyed_mult)
  qed
next
  case (block y b m)
  have "gcm_iv_loop hw ctx y (b @ m) = gcm_iv_loop hw ctx (ghash_mul (ecb True k zero_block) (xor_bytes y b)) m"
    using block(1,3) assms(1)
    by (subst gcm_iv_loop.simps) (auto simp: Let_def gcm_keyed_mult xor_at_whole)
  then show ?case
    using block by (simp add: pad16_split ghash_block)
qed

lemma gcm_starts_has:
  assumes "gcm_keyed ecb hw k ctx" "mbedtls_gcm_starts ecb hw ctx e iv = (PSA_SUCCESS, ctx')"
  shows "gcm_has ecb hw k e iv [] [] ctx'"
proof -
  let ?h = "ecb True k zero_block"
  define work where "work = put zero_block 8 (put_be 8 (of_nat (length iv) * 8 :: 64 word))"
  have work: "work = replicate 8 0 @ bits64 iv"
    by (simp add: work_def put_def zero_block_def bits64_def mult.commute)
  have usual: "(put zero_block 0 iv)[15 := 1] = iv @ [0, 0, 0, 1]" if "length iv = 12"
    using that by (simp add: put_def zero_block_def list_update_append numeral_eq_Suc)
  have "ghash ?h zero_block (pad16 iv @ work) = ghash_mul ?h (xor_at (ghash ?h zero_block (pad16 iv)) 0 work)"
    by (simp add: ghash_append dvd_length_pad16 ghash_one work xor_at_whole length_ghash)
  moreover have "length work = 16" by (simp add: work)
  ultimately have j0: "gcm_j0 (ecb True k) iv = (if length iv = 12 then (put zero_block 0 iv)[15 := 1]
      else gcm_mult hw ctx (xor_at (gcm_iv_loop hw ctx zero_block iv) 0 work))"
    using assms(1) by (simp add: gcm_j0_def usual gcm_iv_loop_ghash gcm_keyed_mult length_ghash work)
  have loop: "gcm_iv_loop hw (ctx\<lparr>g_y := zero_block, g_buf := zero_block, g_encrypt := e, g_len := 0, g_add_len := 0\<rparr>) y iv =
      gcm_iv_loop hw ctx y iv" if "length y = 16" for y
    using assms(1) that by (simp add: gcm_iv_loop_ghash)
  show ?thesis
    using assms(2) assms(1)
    unfolding mbedtls_gcm_starts_def gcm_has_def gcm_base_def j0 work_def
    by (auto simp: Let_def loop gcm_absorb_short gcm_keyed_def split: if_splits)
qed


text \<open>Associated data.\<close>

lemma gcm_ad_loop_absorb:
  assumes "length (g_buf ctx) = 16" "gcm_keyed ecb hw k ctx"
  shows "gcm_ad_loop hw ctx add = ctx\<lparr>g_buf := gcm_absorb (ecb True k zero_block) (g_buf ctx) add\<rparr>"
  using assms
proof (induction "g_buf ctx" add arbitrary: ctx rule: blocks_rest_induct)
  case (short m)
  then show ?case
    by (cases "m = []") (simp_all add: gcm_ad_loop.simps [of hw ctx m] gcm_ad_loop.simps [of hw ctx "[]"] gcm_absorb_short)
next
  case (block b m)
  let ?ctx = "ctx\<lparr>g_buf := ghash_mul (ecb True k zero_block) (xor_bytes (g_buf ctx) b)\<rparr>"
  have "gcm_ad_loop hw ctx (b @ m) = gcm_ad_loop hw ?ctx m"
    using block(1,3,4) by (subst gcm_ad_loop.simps) (simp add: Let_def gcm_keyed_mult xor_at_whole)
  then show ?case
    using block(2) [of ?ctx] block(1,4) by (simp add: gcm_absorb_block)
qed

text \<open>The length words of the context count what it has been fed.\<close>

lemma word_sum_guard:
  fixes w :: "64 word"
  assumes "\<not> w + of_nat n < w" "n < 2 ^ 64"
  shows "unat (w + of_nat n) = unat w + n"
proof -
  have "unat (of_nat n :: 64 word) = n" using assms(2) by (simp add: unat_of_nat_small)
  moreover have "unat (w + of_nat n) = unat w + unat (of_nat n :: 64 word)"
    using assms(1) by (simp only: not_less unat_plus_simple)
  ultimately show ?thesis by simp
qed

lemma gcm_update_ad_has:
  assumes "gcm_has ecb hw k e iv a [] ctx" "length xs < 2 ^ 64"
    and "mbedtls_gcm_update_ad hw ctx xs = (PSA_SUCCESS, ctx')"
  shows "gcm_has ecb hw k e iv (a @ xs) [] ctx'"
proof -
  let ?h = "ecb True k zero_block" and ?r = "length a mod 16"
  let ?A = "gcm_absorb ?h zero_block"
  have ctx: "gcm_base ecb hw k e iv [] ctx" "g_buf ctx = ?A a" "g_add_len ctx = of_nat (length a)" "length a < 2 ^ 61"
      "g_len ctx = 0"
    using assms(1) by (simp_all add: gcm_has_def)
  have key: "gcm_keyed ecb hw k ctx" using ctx(1) by (simp add: gcm_base_def)
  have guard: "\<not> g_add_len ctx + of_nat (length xs) < g_add_len ctx" "drop_bit 61 (g_add_len ctx + of_nat (length xs)) = 0"
    using assms(3) by (auto simp: mbedtls_gcm_update_ad_def Let_def split: if_splits)
  have a: "unat (g_add_len ctx) = length a" using ctx(3,4) by (simp add: unat_of_nat_small)
  have len: "unat (g_add_len ctx + of_nat (length xs)) = length a + length xs"
    using word_sum_guard [OF guard(1) assms(2)] a by simp
  have "drop_bit 61 (unat (g_add_len ctx + of_nat (length xs))) = 0"
    using arg_cong [OF guard(2), of unat] by (simp only: unat_drop_bit_eq unat_0)
  then have "unat (g_add_len ctx + of_nat (length xs)) div 2 ^ 61 = 0"
    by (simp only: drop_bit_eq_div)
  then have small: "length (a @ xs) < 2 ^ 61"
    unfolding len by (simp add: div_eq_0_iff)
  have off: "unat (g_add_len ctx mod 16) = ?r" using a by (simp add: unat_mod)
  show ?thesis
  proof (cases "?r = 0")
    case True
    then have "?A (a @ xs) = gcm_absorb ?h (?A a) xs" by (simp add: gcm_absorb_append mod_eq_0_iff_dvd)
    then show ?thesis
      using assms(3) ctx small guard True off key gcm_ad_loop_absorb [of "ctx\<lparr>g_add_len := of_nat (length (a @ xs))\<rparr>" ecb hw k xs]
      by (simp add: mbedtls_gcm_update_ad_def Let_def gcm_has_def) auto
  next
    case False
    define n where "n = (if 16 - ?r > length xs then length xs else 16 - ?r)"
    define bf where "bf = (let bf = xor_at (?A a) ?r (take n xs) in if ?r + n = 16 then ghash_mul ?h bf else bf)"
    have n: "n \<le> length xs" "?r + n \<le> 16" by (auto simp: n_def)
    have bf_len: "length bf = 16" "length (xor_at (?A a) ?r (take n xs)) = 16"
      using n by (simp_all add: bf_def Let_def)
    have "?r \<noteq> 16" using mod_less_divisor [of 16 "length a"] by linarith
    then have bf: "bf = ?A (a @ take n xs)"
      using n False gcm_absorb_piece [of zero_block a "take n xs" ?h]
      by (cases "xs = []") (simp_all add: bf_def n_def Let_def)
    have whole: "gcm_absorb ?h bf (drop n xs) = ?A (a @ xs)"
    proof (cases "?r + n = 16")
      case True
      then have "length (a @ take n xs) mod 16 = 0"
        using n by (metis length_append length_take min.absorb2 mod_add_left_eq mod_self)
      then have "gcm_absorb ?h (?A (a @ take n xs)) (drop n xs) = ?A ((a @ take n xs) @ drop n xs)"
        by (subst gcm_absorb_append) (simp_all add: mod_eq_0_iff_dvd)
      then show ?thesis by (simp add: bf)
    next
      case False
      then have "n = length xs" by (auto simp: n_def split: if_splits)
      then show ?thesis by (simp add: bf gcm_absorb_short)
    qed
    have sum: "g_add_len ctx + of_nat n + of_nat (length xs - n) = of_nat (length (a @ xs))"
      using n(1) ctx(3) by (simp add: of_nat_diff)
    have "ctx' = gcm_ad_loop hw (ctx\<lparr>g_buf := bf, g_add_len := of_nat (length (a @ xs))\<rparr>) (drop n xs)"
      using assms(3) guard False off ctx(2) key n bf_len(2) sum
      by (simp add: mbedtls_gcm_update_ad_def Let_def n_def [symmetric] bf_def gcm_keyed_mult split: if_splits)
    then have "ctx' = ctx\<lparr>g_buf := ?A (a @ xs), g_add_len := of_nat (length (a @ xs))\<rparr>"
      using gcm_ad_loop_absorb [of "ctx\<lparr>g_buf := bf, g_add_len := of_nat (length (a @ xs))\<rparr>" ecb hw k "drop n xs"]
        bf_len(1) key whole by simp
    then show ?thesis
      using ctx small by (simp add: gcm_has_def)
  qed
qed


text \<open>A piece of the message that does not cross the end of a block, and the loop over the whole blocks.\<close>

lemma gcm_side_length: "on_blocks E \<Longrightarrow> length (gcm_cipher_side e E iv p) = length p"
  by (simp add: gcm_cipher_side_def gcm_ctr_def length_gctr length_gcm_j0)

lemma blocks_started:
  fixes n m :: nat
  shows "0 < n \<Longrightarrow> m mod 16 + n \<le> 16 \<Longrightarrow> (m + n + 15) div 16 = Suc (m div 16)"
    and "(m + 15) div 16 = (if m mod 16 = 0 then m div 16 else Suc (m div 16))"
proof -
  define q r where "q = m div 16" and "r = m mod 16"
  have m: "m = 16 * q + r" "r < 16" by (simp_all add: q_def r_def)
  show "(m + n + 15) div 16 = Suc (m div 16)" if "0 < n" "m mod 16 + n \<le> 16"
    unfolding q_def [symmetric] by (rule div_nat_eqI) (use that m in \<open>simp_all add: r_def [symmetric]\<close>)
  show "(m + 15) div 16 = (if m mod 16 = 0 then m div 16 else Suc (m div 16))"
    unfolding q_def [symmetric] r_def [symmetric]
  proof (cases "r = 0")
    case True
    have "(m + 15) div 16 = q" by (rule div_nat_eqI) (use m True in simp_all)
    then show "(m + 15) div 16 = (if r = 0 then q else Suc q)" using True by simp
  next
    case False
    have "(m + 15) div 16 = Suc q" by (rule div_nat_eqI) (use m False in simp_all)
    then show "(m + 15) div 16 = (if r = 0 then q else Suc q)" using False by simp
  qed
qed

lemma gcm_piece:
  assumes core: "gcm_core ecb hw k e iv a p ctx" and bl: "on_blocks (ecb True k)"
    and xs: "xs \<noteq> []" "length p mod 16 + length xs \<le> 16"
    and mask: "gcm_mask ecb (if length p mod 16 = 0 then ctx\<lparr>g_y := gcm_incr (g_y ctx)\<rparr> else ctx) (length p mod 16) xs = (ctx1, out)"
  shows "gcm_core ecb hw k e iv a (p @ xs)
      (if length p mod 16 + length xs = 16 then ctx1\<lparr>g_buf := gcm_mult hw ctx1 (g_buf ctx1)\<rparr> else ctx1)"
    and "gcm_ctr (ecb True k) iv (p @ xs) = gcm_ctr (ecb True k) iv p @ out"
    and "g_len ctx1 = g_len ctx" "g_add_len ctx1 = g_add_len ctx"
    and "gcm_mult hw ctx1 = gcm_mult hw ctx" "length (g_buf ctx1) = 16"
proof -
  let ?E = "ecb True k" and ?r = "length p mod 16" and ?q = "length p div 16"
  let ?h = "?E zero_block" and ?j = "gcm_j0 ?E iv"
  let ?c = "\<lambda>p. gcm_cipher_side e ?E iv p" and ?y0 = "ghash ?h zero_block (pad16 a)"
  define ctx0 where "ctx0 = (if ?r = 0 then ctx\<lparr>g_y := gcm_incr (g_y ctx)\<rparr> else ctx)"
  have c: "gcm_keyed ecb hw k ctx" "g_key ctx = k" "g_encrypt ctx = e" "g_base_ectr ctx = ?E ?j"
      "g_y ctx = (inc32 ^^ ((length p + 15) div 16)) ?j" "g_buf ctx = gcm_absorb ?h ?y0 (?c p)"
    using core by (simp_all add: gcm_core_def gcm_base_def gcm_keyed_def Let_def)
  have count: "(length (p @ xs) + 15) div 16 = Suc ?q" "(length p + 15) div 16 = (if ?r = 0 then ?q else Suc ?q)"
    using blocks_started(1) [of "length xs" "length p"] blocks_started(2) [of "length p"] xs by simp_all
  then have y: "g_y ctx0 = (inc32 ^^ Suc ?q) ?j" "g_buf ctx0 = g_buf ctx" "g_key ctx0 = k" "g_encrypt ctx0 = e"
      "g_base_ectr ctx0 = g_base_ectr ctx" "g_len ctx0 = g_len ctx" "g_add_len ctx0 = g_add_len ctx"
      "gcm_mult hw ctx0 = gcm_mult hw ctx" "gcm_keyed ecb hw k ctx0"
    using c by (simp_all add: ctx0_def gcm_incr_inc32 length_gcm_j0)
  have out: "out = xor_bytes (take (length xs) (drop ?r (?E ((inc32 ^^ Suc ?q) ?j)))) xs"
    using mask by (auto simp: ctx0_def [symmetric] gcm_mask_def Let_def y)
  have ctx1: "ctx1 = ctx0\<lparr>g_buf := xor_at (g_buf ctx) ?r (if e then out else xs)\<rparr>"
    using mask by (auto simp: ctx0_def [symmetric] gcm_mask_def Let_def y)
  show ctr: "gcm_ctr ?E iv (p @ xs) = gcm_ctr ?E iv p @ out"
    using gctr_piece [OF bl _ xs(2), of "inc32 ?j"] by (simp add: gcm_ctr_def out inc32_swap length_gcm_j0)
  have "length (?E ((inc32 ^^ Suc ?q) ?j)) = 16" using bl length_gcm_j0 by (simp add: on_blocks_def del: funpow.simps)
  then have len: "length out = length xs" using xs(2) by (simp add: out del: funpow.simps)
  have buf: "length (g_buf ctx) = 16" by (simp add: c(6) length_ghash)
  define z where "z = (if e then out else xs)"
  have z: "z \<noteq> []" "length z = length xs" using len xs(1) by (auto simp: z_def)
  have side: "?c (p @ xs) = ?c p @ z"
    by (simp add: gcm_cipher_side_def ctr z_def)
  show "length (g_buf ctx1) = 16"
    using buf xs(2) len by (simp add: ctx1)
  show "g_len ctx1 = g_len ctx" "g_add_len ctx1 = g_add_len ctx" "gcm_mult hw ctx1 = gcm_mult hw ctx"
    using y by (simp_all add: ctx1)
  have "gcm_absorb ?h ?y0 (?c (p @ xs)) =
      (let bf = g_buf ctx1 in if ?r + length xs = 16 then ghash_mul ?h bf else bf)"
    using gcm_absorb_piece [of ?y0 "?c p" z ?h] xs z
    by (simp add: side gcm_side_length [OF bl] length_ghash ctx1 c(6) z_def [symmetric])
  moreover have "gcm_keyed ecb hw k ctx1" using y by (simp add: ctx1)
  ultimately show "gcm_core ecb hw k e iv a (p @ xs)
      (if ?r + length xs = 16 then ctx1\<lparr>g_buf := gcm_mult hw ctx1 (g_buf ctx1)\<rparr> else ctx1)"
    using y c count \<open>length (g_buf ctx1) = 16\<close>
    by (auto simp: gcm_core_def gcm_base_def Let_def gcm_keyed_mult ctx1 simp del: funpow.simps)
qed

lemma gcm_update_loop_core:
  assumes "gcm_core ecb hw k e iv a p ctx" "on_blocks (ecb True k)" "16 dvd length p"
    and "gcm_update_loop ecb hw ctx xs = (ctx', out)"
  shows "gcm_core ecb hw k e iv a (p @ xs) ctx' \<and> gcm_ctr (ecb True k) iv (p @ xs) = gcm_ctr (ecb True k) iv p @ out \<and>
    g_len ctx' = g_len ctx \<and> g_add_len ctx' = g_add_len ctx"
  using assms(1,3,4)
proof (induction p xs arbitrary: ctx out rule: blocks_rest_induct)
  case (short p xs)
  then have p: "length p mod 16 = 0" by (simp add: mod_eq_0_iff_dvd)
  show ?case
  proof (cases "xs = []")
    case True
    then show ?thesis using short(2,4) by (simp add: gcm_update_loop.simps [of _ _ ctx "[]"])
  next
    case False
    then have "gcm_mask ecb (ctx\<lparr>g_y := gcm_incr (g_y ctx)\<rparr>) 0 xs = (ctx', out)"
      using short(1,4) by (simp add: gcm_update_loop.simps [of _ _ ctx xs])
    then show ?thesis
      using gcm_piece [OF short(2) assms(2) False] p short(1) by simp
  qed
next
  case (block p b m)
  then have p: "length p mod 16 = 0" "b \<noteq> []" by (auto simp: mod_eq_0_iff_dvd)
  obtain ctx1 o1 where mask: "gcm_mask ecb (ctx\<lparr>g_y := gcm_incr (g_y ctx)\<rparr>) 0 b = (ctx1, o1)" by force
  let ?ctx = "ctx1\<lparr>g_buf := gcm_mult hw ctx1 (g_buf ctx1)\<rparr>"
  obtain o2 where rest: "gcm_update_loop ecb hw ?ctx m = (ctx', o2)" "out = o1 @ o2"
    using block(1,5) mask by (simp add: gcm_update_loop.simps [of _ _ ctx "b @ m"] Let_def split: prod.splits)
  have "gcm_core ecb hw k e iv a (p @ b) ?ctx" "gcm_ctr (ecb True k) iv (p @ b) = gcm_ctr (ecb True k) iv p @ o1"
      "g_len ctx1 = g_len ctx" "g_add_len ctx1 = g_add_len ctx"
    using gcm_piece [OF block(3) assms(2) p(2)] mask p(1) block(1) by simp_all
  then show ?case
    using block(2) [OF _ _ rest(1), of "p @ b"] block(1,4) rest(2) by simp
qed


text \<open>Any update, and the end.\<close>

lemma gcm_update_has:
  assumes "gcm_has ecb hw k e iv a p ctx" and bl: "on_blocks (ecb True k)" and "length xs < 2 ^ 64"
    and "mbedtls_gcm_update ecb hw ctx xs n = (PSA_SUCCESS, ctx', out)"
  shows "gcm_has ecb hw k e iv a (p @ xs) ctx'"
    and "gcm_ctr (ecb True k) iv (p @ xs) = gcm_ctr (ecb True k) iv p @ out"
proof -
  let ?h = "ecb True k zero_block" and ?r = "length p mod 16"
  have "gcm_has ecb hw k e iv a (p @ xs) ctx' \<and> gcm_ctr (ecb True k) iv (p @ xs) = gcm_ctr (ecb True k) iv p @ out"
  proof (cases "xs = []")
    case True
    then show ?thesis using assms(1,4) by (auto simp: mbedtls_gcm_update_def split: if_splits)
  next
    case False
    have has: "gcm_base ecb hw k e iv p ctx" "p = [] \<Longrightarrow> g_buf ctx = gcm_absorb ?h zero_block a"
        "p \<noteq> [] \<Longrightarrow> gcm_core ecb hw k e iv a p ctx" "g_add_len ctx = of_nat (length a)" "length a < 2 ^ 61"
        "g_len ctx = of_nat (length p)" "length p \<le> 0xFFFFFFFE0"
      using assms(1) by (auto simp: gcm_has_def split: if_splits)
    have guard: "\<not> g_len ctx + of_nat (length xs) < g_len ctx" "\<not> g_len ctx + of_nat (length xs) > 0xFFFFFFFE0"
      using assms(4) False by (auto simp: mbedtls_gcm_update_def split: if_splits)
    have u: "unat (g_len ctx) = length p" "unat (g_add_len ctx) = length a"
      using has by (simp_all add: unat_of_nat_small)
    have "unat (g_len ctx + of_nat (length xs)) = length p + length xs"
      using word_sum_guard [OF guard(1) assms(3)] u by simp
    then have small: "length (p @ xs) \<le> 0xFFFFFFFE0"
      using guard(2) by (simp add: word_less_nat_alt)
    have off: "unat (g_len ctx mod 16) = ?r" "g_add_len ctx mod 16 \<noteq> 0 \<longleftrightarrow> length a mod 16 \<noteq> 0" "g_len ctx = 0 \<longleftrightarrow> p = []"
      using u by (simp_all add: unat_mod unat_eq_0 [symmetric])
    define ctx0 where "ctx0 = (if g_len ctx = 0 \<and> g_add_len ctx mod 16 \<noteq> 0
        then ctx\<lparr>g_buf := gcm_mult hw ctx (g_buf ctx)\<rparr> else ctx)"
    note upd = assms(4) [unfolded mbedtls_gcm_update_def Let_def, folded ctx0_def]
    have same: "g_len ctx0 = g_len ctx" "g_add_len ctx0 = g_add_len ctx" by (simp_all add: ctx0_def)
    have core: "gcm_core ecb hw k e iv a p ctx0"
    proof (cases "p = []")
      case True
      then have "g_buf ctx0 = ghash ?h zero_block (pad16 a)"
        using has(1,2) off gcm_absorb_end [of zero_block a ?h]
        by (auto simp: ctx0_def gcm_base_def gcm_keyed_mult)
      then show ?thesis
        using True has(1) by (simp add: gcm_core_def gcm_absorb_short gcm_cipher_side_def gcm_ctr_def Let_def ctx0_def)
    next
      case False
      then show ?thesis using has(3) off by (simp add: ctx0_def)
    qed
    define m where "m = (if ?r = 0 then 0 else if 16 - ?r > length xs then length xs else 16 - ?r)"
    have m: "m \<le> length xs" "?r \<noteq> 0 \<Longrightarrow> 0 < m \<and> ?r + m \<le> 16" "?r \<noteq> 0 \<Longrightarrow> ?r + m \<noteq> 16 \<Longrightarrow> m = length xs"
      using False mod_less_divisor [of 16 "length p"] by (auto simp: m_def)
    show ?thesis
    proof (cases "?r = 0")
      case True
      obtain ctx2 o2 where loop: "gcm_update_loop ecb hw (ctx0\<lparr>g_len := of_nat (length (p @ xs))\<rparr>) xs = (ctx2, o2)" by force
      have "ctx' = ctx2" "out = o2"
        using upd False True guard off(1) same has(6) loop
        by (simp_all split: if_splits)
      moreover have "gcm_core ecb hw k e iv a p (ctx0\<lparr>g_len := of_nat (length (p @ xs))\<rparr>)"
        using core by (simp add: gcm_core_def Let_def)
      moreover have "16 dvd length p" using True by (simp add: mod_eq_0_iff_dvd)
      ultimately show ?thesis
        using gcm_update_loop_core [of ecb hw k e iv a p, OF _ bl _ loop] same has(4,5) small False
        by (auto simp: gcm_has_def dest: gcm_core_base)
    next
      case r: False
      obtain ctx1 o1 where mask: "gcm_mask ecb ctx0 ?r (take m xs) = (ctx1, o1)" by force
      define ctx2 where "ctx2 = (if ?r + m = 16 then ctx1\<lparr>g_buf := gcm_mult hw ctx1 (g_buf ctx1)\<rparr> else ctx1)"
      have piece: "gcm_core ecb hw k e iv a (p @ take m xs) ctx2"
        "gcm_ctr (ecb True k) iv (p @ take m xs) = gcm_ctr (ecb True k) iv p @ o1"
        "g_len ctx2 = g_len ctx" "g_add_len ctx2 = g_add_len ctx"
        using gcm_piece [OF core bl, of "take m xs" ctx1 o1] mask r m same False by (simp_all add: ctx2_def)
      have len: "g_len ctx2 + of_nat m + of_nat (length (drop m xs)) = of_nat (length (p @ xs))"
        using m(1) has(6) piece(3) by (simp add: of_nat_diff)
      obtain ctx3 o3 where loop: "gcm_update_loop ecb hw (ctx2\<lparr>g_len := of_nat (length (p @ xs))\<rparr>) (drop m xs) = (ctx3, o3)"
        by force
      have use_len: "(if length xs < 16 - ?r then length xs else 16 - ?r) = m" using r by (simp add: m_def)
      have eqs: "ctx' = ctx3" "out = o1 @ o3"
        using upd [unfolded same off(1) use_len] False r guard same len mask loop
        by (simp_all add: ctx2_def [symmetric] split: if_split_asm)
      have core2: "gcm_core ecb hw k e iv a (p @ take m xs) (ctx2\<lparr>g_len := of_nat (length (p @ xs))\<rparr>)"
        using piece(1) by (simp add: gcm_core_def Let_def)
      show ?thesis
      proof (cases "?r + m = 16")
        case True
        then have "length (p @ take m xs) mod 16 = 0"
          using m(1) by (metis length_append length_take min.absorb2 mod_add_left_eq mod_self)
        then have "16 dvd length (p @ take m xs)" by (simp only: mod_eq_0_iff_dvd)
        then show ?thesis
          using gcm_update_loop_core [OF core2 bl _ loop] piece has(4,5) small False
          by (auto simp: gcm_has_def eqs dest: gcm_core_base)
      next
        case False
        then have "m = length xs" using m(3) r by simp
        then show ?thesis
          using loop piece core2 has(4,5) small \<open>xs \<noteq> []\<close>
          by (auto simp: gcm_has_def eqs gcm_update_loop.simps [of _ _ _ "[]"] dest: gcm_core_base)
      qed
    qed
  qed
  then show "gcm_has ecb hw k e iv a (p @ xs) ctx'"
    "gcm_ctr (ecb True k) iv (p @ xs) = gcm_ctr (ecb True k) iv p @ out" by simp_all
qed


lemma length_halves:
  "put_be 4 (ucast (drop_bit 32 w) :: 32 word) @ put_be 4 (ucast w :: 32 word) = put_be 8 (w :: 64 word)"
  using put_be_append [of 4 "ucast (drop_bit 32 w) :: 32 word" w 4 "ucast w :: 32 word"]
  by (simp add: bit_simps add.commute)

lemma xor_bytes_commute: "xor_bytes xs ys = xor_bytes ys xs"
  by (rule nth_equalityI) (simp_all add: xor_bytes_def xor.commute)

lemma take_xor_bytes: "take n (xor_bytes xs ys) = xor_bytes (take n xs) (take n ys)"
  by (simp add: xor_bytes_def take_map take_zip)

lemma xor_bytes_zero: "length xs = 16 \<Longrightarrow> xor_bytes xs zero_block = xs"
  by (rule nth_equalityI) (simp_all add: xor_bytes_def zero_block_def)

lemma ghash_mul_zero: "ghash_mul h zero_block = zero_block"
proof -
  have sum0: "gf_sum (\<lambda>i. False) Y n = 0" for Y n by (induction n) simp_all
  have "gcm_block zero_block = 0"
    by (rule bit_word_eqI) (auto simp: bit_gcm_block zero_block_def)
  then show ?thesis
    by (simp add: ghash_mul_def gf_mult_def gf_loop_sum sum0) (simp add: put_be_def zero_block_def map_replicate_const)
qed

lemma gcm_finish_tag:
  assumes "gcm_has ecb hw k e iv a p ctx" and bl: "on_blocks (ecb True k)"
    and "mbedtls_gcm_finish hw ctx n = (PSA_SUCCESS, ctx', t)"
  shows "t = take n (gcm_tag (ecb True k) iv a (gcm_cipher_side e (ecb True k) iv p))"
proof -
  let ?E = "ecb True k" and ?c = "gcm_cipher_side e (ecb True k) iv p"
  let ?h = "?E zero_block" and ?j = "?E (gcm_j0 ?E iv)"
  let ?g = "ghash ?h zero_block (pad16 a @ pad16 ?c)"
  have has: "gcm_base ecb hw k e iv p ctx" "p = [] \<Longrightarrow> g_buf ctx = gcm_absorb ?h zero_block a"
      "p \<noteq> [] \<Longrightarrow> gcm_core ecb hw k e iv a p ctx" "g_add_len ctx = of_nat (length a)" "length a < 2 ^ 61"
      "g_len ctx = of_nat (length p)" "length p \<le> 0xFFFFFFFE0"
    using assms(1) by (auto simp: gcm_has_def split: if_splits)
  have key: "gcm_keyed ecb hw k ctx" and base: "g_base_ectr ctx = ?j" using has(1) by (simp_all add: gcm_base_def)
  have c: "length ?c = length p" "?c = [] \<longleftrightarrow> p = []" using gcm_side_length [OF bl, of e iv p] by auto
  have u: "unat (g_len ctx) = length p" "unat (g_add_len ctx) = length a"
    using has by (simp_all add: unat_of_nat_small)
  have tests: "g_len ctx = 0 \<longleftrightarrow> p = []" "g_add_len ctx mod 16 \<noteq> 0 \<longleftrightarrow> length a mod 16 \<noteq> 0"
      "g_len ctx mod 16 \<noteq> 0 \<longleftrightarrow> length p mod 16 \<noteq> 0"
    using u by (simp_all add: unat_mod unat_eq_0 [symmetric])
  have "unat (g_len ctx * 8) = length p * 8" "unat (g_add_len ctx * 8) = length a * 8"
    using u has(5,7) by (simp_all add: unat_word_ariths)
  then have none: "g_len ctx * 8 = 0 \<longleftrightarrow> p = []" "g_add_len ctx * 8 = 0 \<longleftrightarrow> a = []"
    by (simp_all add: unat_eq_0 [symmetric])
  have work: "put_be 4 (ucast (drop_bit 32 (g_add_len ctx * 8)) :: 32 word) @ put_be 4 (ucast (g_add_len ctx * 8) :: 32 word) @
      put_be 4 (ucast (drop_bit 32 (g_len ctx * 8)) :: 32 word) @ put_be 4 (ucast (g_len ctx * 8) :: 32 word) =
      bits64 a @ bits64 ?c"
    using length_halves [of "g_add_len ctx * 8"] length_halves [of "g_len ctx * 8"] has(4,6) c(1)
    by (simp add: bits64_def mult.commute)
  define ctx1 where "ctx1 = (if g_len ctx = 0 \<and> g_add_len ctx mod 16 \<noteq> 0
      then ctx\<lparr>g_buf := gcm_mult hw ctx (g_buf ctx)\<rparr> else ctx)"
  define ctx2 where "ctx2 = (if g_len ctx1 mod 16 \<noteq> 0 then ctx1\<lparr>g_buf := gcm_mult hw ctx1 (g_buf ctx1)\<rparr> else ctx1)"
  have same: "g_len ctx1 = g_len ctx" "g_base_ectr ctx2 = ?j" "gcm_mult hw ctx2 = gcm_mult hw ctx"
    by (simp_all add: ctx1_def ctx2_def base)
  have g: "?g = ghash ?h (ghash ?h zero_block (pad16 a)) (pad16 ?c)"
    by (simp add: ghash_append dvd_length_pad16)
  have buf: "g_buf ctx2 = ?g"
  proof (cases "p = []")
    case True
    then have "?g = ghash ?h zero_block (pad16 a)" using c by (simp add: pad16_def)
    then show ?thesis
      using True has(2) key tests gcm_absorb_end [of zero_block a ?h]
      by (auto simp: ctx2_def ctx1_def gcm_keyed_mult)
  next
    case False
    then have "g_buf ctx = gcm_absorb ?h (ghash ?h zero_block (pad16 a)) ?c"
      using has(3) by (simp add: gcm_core_def Let_def)
    then show ?thesis
      unfolding g using False key tests c(1) gcm_absorb_end [of "ghash ?h zero_block (pad16 a)" ?c ?h]
      by (auto simp: ctx2_def ctx1_def gcm_keyed_mult length_ghash)
  qed
  have n: "\<not> (n > 16 \<or> n < 4)"
    using assms(3) by (auto simp: mbedtls_gcm_finish_def Let_def split: if_splits)
  have tag: "gcm_tag ?E iv a ?c = xor_bytes ?j (ghash_mul ?h (xor_bytes ?g (bits64 a @ bits64 ?c)))"
    by (simp add: gcm_tag_def gctr_short length_ghash ghash_append dvd_length_pad16 ghash_one xor_bytes_commute g)
  note fin = assms(3) [unfolded mbedtls_gcm_finish_def Let_def, folded ctx1_def, folded ctx2_def, unfolded work]
  show ?thesis
  proof (cases "a = [] \<and> p = []")
    case True
    have len: "length ?j = 16" "length ?h = 16" using bl by (simp_all add: on_blocks_def length_gcm_j0)
    have "?g = zero_block" "bits64 a @ bits64 ?c = zero_block"
      using True c by (simp_all add: pad16_def bits64_def zero_block_def put_be_def map_replicate_const flip: replicate_add)
    then have "gcm_tag ?E iv a ?c = ?j"
      using len by (simp add: tag ghash_mul_zero xor_bytes_zero)
    then show ?thesis
      using fin n True none same by simp
  next
    case False
    then have lengths: "(g_len ctx * 8 \<noteq> 0 \<or> g_add_len ctx * 8 \<noteq> 0) = True" using none by auto
    then show ?thesis
      using fin [unfolded lengths] n same buf key
      by (simp add: tag take_xor_bytes gcm_keyed_mult xor_at_whole length_ghash)
  qed
qed

text \<open>Within the bounds of the mode the updates succeed.\<close>

lemma gcm_update_ad_ok:
  assumes "gcm_has ecb hw k e iv a [] ctx" "length a + length xs < 2 ^ 61"
  shows "fst (mbedtls_gcm_update_ad hw ctx xs) = PSA_SUCCESS"
proof -
  have "unat (g_add_len ctx) = length a" "unat (of_nat (length xs) :: 64 word) = length xs"
    using assms by (simp_all add: gcm_has_def unat_of_nat_small)
  then have "unat (g_add_len ctx + of_nat (length xs)) = length a + length xs"
    using assms(2) by (simp add: unat_add_lem [THEN iffD1])
  moreover from this have "drop_bit 61 (unat (g_add_len ctx + of_nat (length xs))) = 0"
    using assms(2) by (simp add: drop_bit_eq_div)
  then have "drop_bit 61 (g_add_len ctx + of_nat (length xs)) = 0"
    by (simp only: unat_drop_bit_eq [symmetric] unat_eq_zero)
  ultimately show ?thesis
    using \<open>unat (g_add_len ctx) = length a\<close>
    by (simp add: mbedtls_gcm_update_ad_def Let_def word_less_nat_alt split: prod.splits)
qed

lemma gcm_update_ok:
  assumes "gcm_has ecb hw k e iv a p ctx" "length p + length xs \<le> 0xFFFFFFFE0" "length xs = unat n"
  shows "fst (mbedtls_gcm_update ecb hw ctx xs n) = PSA_SUCCESS"
proof -
  have "unat (g_len ctx) = length p" "unat (of_nat (length xs) :: 64 word) = length xs"
    using assms by (auto simp: gcm_has_def unat_of_nat_small)
  moreover from this have "unat (g_len ctx + of_nat (length xs)) = length p + length xs"
    using assms(2) by (simp add: unat_add_lem [THEN iffD1])
  moreover have "of_nat (length xs) = n" using assms(3) by simp
  ultimately show ?thesis
    using assms(2) by (simp add: mbedtls_gcm_update_def Let_def word_less_nat_alt split: prod.splits)
qed

end
