(* ===== verification/Psa_Aead.thy ===== *)
theory Psa_Aead
  imports Aead_Client Gcm
begin

text \<open>
  The AES-GCM half of the vendored backend, from the PSA entry points down to \<^verbatim>\<open>gcm.c\<close>: the multipart
  \<^verbatim>\<open>psa_aead_*\<close> of \<^verbatim>\<open>psa_crypto.c\<close> with their copies of the caller's buffers, the driver wrappers, which have
  the built-in driver only, and \<^verbatim>\<open>psa_crypto_aead.c\<close>, which the build configures without CCM and
  ChaCha20-Poly1305. The algorithm is the one the adapter asks for, \<^verbatim>\<open>PSA_ALG_GCM\<close> with its full tag.
\<close>

section \<open>The built-in driver: psa\_crypto\_aead.c\<close>

record mbedtls_psa_aead_operation_t =
  d_is_encrypt :: bool
  d_tag_length :: nat
  d_gcm :: mbedtls_gcm_context

type_synonym aead_ctx = mbedtls_psa_aead_operation_t

definition builtin_aead_setup ::
  "ecb \<Rightarrow> gcm_hw \<Rightarrow> psa_attr \<Rightarrow> byte list \<Rightarrow> (psa_status_t \<times> aead_ctx) heap_state" where
  "builtin_aead_setup ecb hw attr key =
    (let operation = \<lparr>d_is_encrypt = False, d_tag_length = 0, d_gcm = mbedtls_gcm_init\<rparr>
     in if pa_type attr \<noteq> PSA_KEY_TYPE_AES then ret (PSA_ERROR_NOT_SUPPORTED, operation)
        else if PSA_BLOCK_CIPHER_BLOCK_LENGTH (pa_type attr) \<noteq> 16 then ret (PSA_ERROR_INVALID_ARGUMENT, operation)
        else do {
          (status, gcm) \<leftarrow> mbedtls_gcm_setkey ecb hw mbedtls_gcm_init key (pa_bits attr);
          if status \<noteq> PSA_SUCCESS then ret (status, operation\<lparr>d_gcm := gcm\<rparr>)
          else ret (PSA_SUCCESS, operation\<lparr>d_gcm := gcm, d_tag_length := 16\<rparr>)
        })"

definition mbedtls_psa_aead_encrypt_setup ::
  "ecb \<Rightarrow> gcm_hw \<Rightarrow> psa_attr \<Rightarrow> byte list \<Rightarrow> (psa_status_t \<times> aead_ctx) heap_state" where
  "mbedtls_psa_aead_encrypt_setup ecb hw attr key = do {
     (status, operation) \<leftarrow> builtin_aead_setup ecb hw attr key;
     ret (status, if status = PSA_SUCCESS then operation\<lparr>d_is_encrypt := True\<rparr> else operation)
   }"

definition mbedtls_psa_aead_decrypt_setup ::
  "ecb \<Rightarrow> gcm_hw \<Rightarrow> psa_attr \<Rightarrow> byte list \<Rightarrow> (psa_status_t \<times> aead_ctx) heap_state" where
  "mbedtls_psa_aead_decrypt_setup ecb hw attr key = do {
     (status, operation) \<leftarrow> builtin_aead_setup ecb hw attr key;
     ret (status, if status = PSA_SUCCESS then operation\<lparr>d_is_encrypt := False\<rparr> else operation)
   }"

definition mbedtls_psa_aead_set_nonce ::
  "ecb \<Rightarrow> gcm_hw \<Rightarrow> aead_ctx \<Rightarrow> byte list \<Rightarrow> psa_status_t \<times> aead_ctx" where
  "mbedtls_psa_aead_set_nonce ecb hw operation nonce =
    (let (status, gcm) = mbedtls_gcm_starts ecb hw (d_gcm operation) (d_is_encrypt operation) nonce
     in (status, operation\<lparr>d_gcm := gcm\<rparr>))"

definition mbedtls_psa_aead_update_ad :: "gcm_hw \<Rightarrow> aead_ctx \<Rightarrow> byte list \<Rightarrow> psa_status_t \<times> aead_ctx" where
  "mbedtls_psa_aead_update_ad hw operation inp =
    (let (status, gcm) = mbedtls_gcm_update_ad hw (d_gcm operation) inp
     in (status, operation\<lparr>d_gcm := gcm\<rparr>))"

text \<open>The output; its length is stored when the call succeeds, and is that of the input.\<close>

definition mbedtls_psa_aead_update ::
  "ecb \<Rightarrow> gcm_hw \<Rightarrow> aead_ctx \<Rightarrow> byte list \<Rightarrow> size_t \<Rightarrow> psa_status_t \<times> aead_ctx \<times> byte list" where
  "mbedtls_psa_aead_update ecb hw operation inp output_size =
    (let (status, gcm, out) = mbedtls_gcm_update ecb hw (d_gcm operation) inp output_size
     in (status, operation\<lparr>d_gcm := gcm\<rparr>, out))"

definition mbedtls_psa_aead_finish ::
  "gcm_hw \<Rightarrow> aead_ctx \<Rightarrow> size_t \<Rightarrow> psa_status_t \<times> aead_ctx \<times> byte list" where
  "mbedtls_psa_aead_finish hw operation tag_size =
    (if tag_size < of_nat (d_tag_length operation) then (PSA_ERROR_BUFFER_TOO_SMALL, operation, [])
     else
       let (status, gcm, tag) = mbedtls_gcm_finish hw (d_gcm operation) (d_tag_length operation)
       in (status, operation\<lparr>d_gcm := gcm\<rparr>, tag))"

text \<open>The comparison of the tags is equality, as \<^verbatim>\<open>mbedtls_ct_memcmp\<close> is in \<open>Util\<close>.\<close>

definition psa_driver_wrapper_aead_verify :: "gcm_hw \<Rightarrow> aead_ctx \<Rightarrow> byte list \<Rightarrow> psa_status_t \<times> aead_ctx" where
  "psa_driver_wrapper_aead_verify hw operation tag =
    (let (status, operation, check_tag) = mbedtls_psa_aead_finish hw operation 16
     in (if status = PSA_SUCCESS \<and> (length tag \<noteq> length check_tag \<or> tag \<noteq> check_tag) then PSA_ERROR_INVALID_SIGNATURE
         else status, operation))"

section \<open>The PSA layer: psa\_crypto.c\<close>

text \<open>
  \<open>None\<close> is an operation whose \<^verbatim>\<open>id\<close> is 0, which is all zero. The adapter never sets lengths, so
  \<^verbatim>\<open>lengths_set\<close> is zero throughout.
\<close>

record psa_aead_operation_t =
  ao_is_encrypt :: bool
  ao_nonce_set :: bool
  ao_ad_started :: bool
  ao_body_started :: bool
  ao_ctx :: aead_ctx

type_synonym aop = psa_aead_operation_t

definition psa_aead_abort :: "aop option \<Rightarrow> psa_status_t \<times> aop option" where
  "psa_aead_abort operation = (PSA_SUCCESS, None)"

definition psa_aead_setup ::
  "ecb \<Rightarrow> gcm_hw \<Rightarrow> 'b key_store \<Rightarrow> 'b \<Rightarrow> aop option \<Rightarrow> bool \<Rightarrow> psa_key_id_t \<Rightarrow> (psa_status_t \<times> aop option) heap_state" where
  "psa_aead_setup ecb hw ks b operation is_encrypt key =
    (if operation \<noteq> None then ret (PSA_ERROR_BAD_STATE, snd (psa_aead_abort operation))
     else
       let key_usage = (if is_encrypt then PSA_KEY_USAGE_ENCRYPT else PSA_KEY_USAGE_DECRYPT);
           status = lock_slot ks b key key_usage PSA_ALG_GCM
       in if status \<noteq> PSA_SUCCESS then ret (status, snd (psa_aead_abort None))
          else do {
            (status, ctx) \<leftarrow>
              (if is_encrypt then mbedtls_psa_aead_encrypt_setup ecb hw (slot_attr ks b key) (slot_data ks b key)
               else mbedtls_psa_aead_decrypt_setup ecb hw (slot_attr ks b key) (slot_data ks b key));
            let op = \<lparr>ao_is_encrypt = is_encrypt, ao_nonce_set = False, ao_ad_started = False, ao_body_started = False,
                      ao_ctx = ctx\<rparr>;
            ret (status, if status = PSA_SUCCESS then Some op else snd (psa_aead_abort (Some op)))
          })"

definition psa_aead_set_nonce_internal ::
  "ecb \<Rightarrow> gcm_hw \<Rightarrow> aop option \<Rightarrow> byte list \<Rightarrow> psa_status_t \<times> aop option" where
  "psa_aead_set_nonce_internal ecb hw operation nonce =
    (case operation of
       None \<Rightarrow> (PSA_ERROR_BAD_STATE, snd (psa_aead_abort operation))
     | Some op \<Rightarrow>
         if ao_nonce_set op then (PSA_ERROR_BAD_STATE, snd (psa_aead_abort operation))
         else if length nonce = 0 then (PSA_ERROR_INVALID_ARGUMENT, snd (psa_aead_abort operation))
         else
           let (status, ctx) = mbedtls_psa_aead_set_nonce ecb hw (ao_ctx op) nonce;
               op = op\<lparr>ao_ctx := ctx\<rparr>
           in (status, if status = PSA_SUCCESS then Some (op\<lparr>ao_nonce_set := True\<rparr>) else snd (psa_aead_abort (Some op))))"

text \<open>A refused copy leaves the operation as it is: the label the macro jumps to is past the abort.\<close>

definition psa_aead_set_nonce ::
  "ecb \<Rightarrow> gcm_hw \<Rightarrow> aop option \<Rightarrow> byte list \<Rightarrow> (psa_status_t \<times> aop option) heap_state" where
  "psa_aead_set_nonce ecb hw operation nonce = do {
     ok \<leftarrow> try_local (length nonce);
     ret (if \<not> ok then (PSA_ERROR_INSUFFICIENT_MEMORY, operation)
          else psa_aead_set_nonce_internal ecb hw operation nonce)
   }"

definition psa_aead_update_ad ::
  "gcm_hw \<Rightarrow> aop option \<Rightarrow> byte list \<Rightarrow> (psa_status_t \<times> aop option) heap_state" where
  "psa_aead_update_ad hw operation inp = do {
     ok \<leftarrow> try_local (length inp);
     let (status, operation) =
       (if \<not> ok then (PSA_ERROR_INSUFFICIENT_MEMORY, operation)
        else case operation of
          None \<Rightarrow> (PSA_ERROR_BAD_STATE, None)
        | Some op \<Rightarrow>
            if \<not> ao_nonce_set op \<or> ao_body_started op then (PSA_ERROR_BAD_STATE, operation)
            else if length inp = 0 then (PSA_SUCCESS, operation)
            else
              let (status, ctx) = mbedtls_psa_aead_update_ad hw (ao_ctx op) inp
              in (status, Some (op\<lparr>ao_ctx := ctx\<rparr>)));
     ret (status, if status = PSA_SUCCESS then map_option (ao_ad_started_update (\<lambda>_. True)) operation
                  else snd (psa_aead_abort operation))
   }"

text \<open>The status, the operation, the output buffer and the stored length.\<close>

definition psa_aead_update ::
  "ecb \<Rightarrow> gcm_hw \<Rightarrow> aop option \<Rightarrow> byte list \<Rightarrow> size_t \<Rightarrow>
   (psa_status_t \<times> aop option \<times> byte list \<times> size_t) heap_state" where
  "psa_aead_update ecb hw operation inp output_size = do {
     ok1 \<leftarrow> try_local (length inp);
     ok2 \<leftarrow> (if ok1 then try_local (unat output_size) else ret False);
     let (status, operation, out) =
       (if \<not> ok2 then (PSA_ERROR_INSUFFICIENT_MEMORY, operation, [])
        else case operation of
          None \<Rightarrow> (PSA_ERROR_BAD_STATE, None, [])
        | Some op \<Rightarrow>
            if \<not> ao_nonce_set op then (PSA_ERROR_BAD_STATE, operation, [])
            else
              let (status, ctx, out) = mbedtls_psa_aead_update ecb hw (ao_ctx op) inp output_size
              in (status, Some (op\<lparr>ao_ctx := ctx\<rparr>), out));
     let output = (if ok2 then put (replicate (unat output_size) 0) 0 out else []);
     ret (status,
          if status = PSA_SUCCESS then map_option (ao_body_started_update (\<lambda>_. True)) operation
          else snd (psa_aead_abort operation),
          output, if status = PSA_SUCCESS then of_nat (length inp) else 0)
   }"

definition psa_aead_final_checks :: "aop option \<Rightarrow> psa_status_t" where
  "psa_aead_final_checks operation =
    (case operation of
       None \<Rightarrow> PSA_ERROR_BAD_STATE
     | Some op \<Rightarrow> if \<not> ao_nonce_set op then PSA_ERROR_BAD_STATE else PSA_SUCCESS)"

text \<open>
  The status, the operation, the output buffer, the tag buffer and its stored length. No output is made
  here: the length stored for it is 0.
\<close>

definition psa_aead_finish ::
  "gcm_hw \<Rightarrow> aop option \<Rightarrow> size_t \<Rightarrow> size_t \<Rightarrow>
   (psa_status_t \<times> aop option \<times> byte list \<times> byte list \<times> size_t) heap_state" where
  "psa_aead_finish hw operation ciphertext_size tag_size = do {
     ok1 \<leftarrow> try_local (unat ciphertext_size);
     ok2 \<leftarrow> (if ok1 then try_local (unat tag_size) else ret False);
     let ciphertext = (if ok1 then replicate (unat ciphertext_size) 0 else []);
     let tag = replicate (unat tag_size) 0;
     let (status, tag, tag_length) =
       (if \<not> ok2 then (PSA_ERROR_INSUFFICIENT_MEMORY, [], 0)
        else if psa_aead_final_checks operation \<noteq> PSA_SUCCESS then (psa_aead_final_checks operation, tag, tag_size)
        else case operation of
          None \<Rightarrow> (PSA_ERROR_BAD_STATE, tag, tag_size)
        | Some op \<Rightarrow>
            if \<not> ao_is_encrypt op then (PSA_ERROR_BAD_STATE, tag, tag_size)
            else
              let (status, ctx, out) = mbedtls_psa_aead_finish hw (ao_ctx op) tag_size
              in (status, put tag 0 out, if status = PSA_SUCCESS then of_nat (d_tag_length (ao_ctx op)) else tag_size));
     let tag = (if ok2 then psa_wipe_tag_output_buffer tag status tag_size tag_length else tag);
     ret (status, snd (psa_aead_abort operation), ciphertext, tag, tag_length)
   }"

definition psa_aead_verify ::
  "gcm_hw \<Rightarrow> aop option \<Rightarrow> size_t \<Rightarrow> byte list \<Rightarrow> (psa_status_t \<times> aop option \<times> byte list) heap_state" where
  "psa_aead_verify hw operation plaintext_size tag = do {
     ok1 \<leftarrow> try_local (unat plaintext_size);
     ok2 \<leftarrow> (if ok1 then try_local (length tag) else ret False);
     let plaintext = (if ok1 then replicate (unat plaintext_size) 0 else []);
     let status =
       (if \<not> ok2 then PSA_ERROR_INSUFFICIENT_MEMORY
        else if psa_aead_final_checks operation \<noteq> PSA_SUCCESS then psa_aead_final_checks operation
        else case operation of
          None \<Rightarrow> PSA_ERROR_BAD_STATE
        | Some op \<Rightarrow>
            if ao_is_encrypt op then PSA_ERROR_BAD_STATE
            else fst (psa_driver_wrapper_aead_verify hw (ao_ctx op) tag));
     ret (status, snd (psa_aead_abort operation), plaintext)
   }"

section \<open>The backend\<close>

text \<open>The calls that belong to GCM operations: set-ups for the algorithm, and calls on its operations.\<close>

fun aead_own :: "aead_call \<Rightarrow> (aop + 'p) option \<Rightarrow> bool" where
  "aead_own (Aead_encrypt_setup kid alg) op = (alg = PSA_ALG_GCM \<and> rest_part op = None)"
| "aead_own (Aead_decrypt_setup kid alg) op = (alg = PSA_ALG_GCM \<and> rest_part op = None)"
| "aead_own c op = (rest_part op = None)"

fun aead_dispatch ::
  "ecb \<Rightarrow> gcm_hw \<Rightarrow> 'b key_store \<Rightarrow> 'b \<Rightarrow> aead_call \<Rightarrow> aop option \<Rightarrow> bool list \<Rightarrow> (aop + 'p) psa_reply \<times> bool list" where
  "aead_dispatch ecb hw ks b (Aead_encrypt_setup kid alg) op answers =
    (case run_state (psa_aead_setup ecb hw ks b op True kid) (answers, False) of ((st, op), answers, failed) \<Rightarrow>
      (top_reply st [] 0 op failed, answers))"
| "aead_dispatch ecb hw ks b (Aead_decrypt_setup kid alg) op answers =
    (case run_state (psa_aead_setup ecb hw ks b op False kid) (answers, False) of ((st, op), answers, failed) \<Rightarrow>
      (top_reply st [] 0 op failed, answers))"
| "aead_dispatch ecb hw ks b (Aead_set_nonce nonce) op answers =
    (case run_state (psa_aead_set_nonce ecb hw op nonce) (answers, False) of ((st, op), answers, failed) \<Rightarrow>
      (top_reply st [] 0 op failed, answers))"
| "aead_dispatch ecb hw ks b (Aead_update_ad inp) op answers =
    (case run_state (psa_aead_update_ad hw op inp) (answers, False) of ((st, op), answers, failed) \<Rightarrow>
      (top_reply st [] 0 op failed, answers))"
| "aead_dispatch ecb hw ks b (Aead_update inp n) op answers =
    (case run_state (psa_aead_update ecb hw op inp n) (answers, False) of ((st, op, out, len), answers, failed) \<Rightarrow>
      (top_reply st out len op failed, answers))"
| "aead_dispatch ecb hw ks b (Aead_finish n tag_size) op answers =
    (case run_state (psa_aead_finish hw op n tag_size) (answers, False) of ((st, op, out, tag, tag_length), answers, failed) \<Rightarrow>
      ((top_reply st out 0 op failed)\<lparr>r_out2 := tag, r_len2 := tag_length\<rparr>, answers))"
| "aead_dispatch ecb hw ks b (Aead_verify n tag) op answers =
    (case run_state (psa_aead_verify hw op n tag) (answers, False) of ((st, op, out), answers, failed) \<Rightarrow>
      (top_reply st out 0 op failed, answers))"
| "aead_dispatch ecb hw ks b Aead_abort op answers =
    (case psa_aead_abort op of (st, op) \<Rightarrow> (top_reply st [] 0 op False, answers))"

definition vendored_aead :: "ecb \<Rightarrow> gcm_hw \<Rightarrow> 'b key_store \<Rightarrow> ('b, 'p) psa \<Rightarrow> (bool list \<times> 'b, aop + 'p) psa" where
  "vendored_aead ecb hw ks Q c op b =
    (case c of
       AEAD x \<Rightarrow>
         (if aead_own x op
          then (case aead_dispatch ecb hw ks (snd b) x (top_part op) (fst b) of (r, answers) \<Rightarrow> (r, answers, snd b))
          else (case Q c (rest_part op) (snd b) of (r, b') \<Rightarrow> (rest_reply r, fst b, b')))
     | _ \<Rightarrow> (case Q c (rest_part op) (snd b) of (r, b') \<Rightarrow> (rest_reply r, fst b, b')))"

section \<open>The vendored calls keep the contract\<close>

definition vendored_aead_key :: "'b key_store \<Rightarrow> bool list \<times> 'b \<Rightarrow> psa_key_id_t \<Rightarrow> byte list" where
  "vendored_aead_key ks b kid = slot_data ks (snd b) kid"

text \<open>What is assumed of the block cipher under a key, and of the processor's multiplication.\<close>

definition gcm_usable :: "ecb \<Rightarrow> gcm_hw \<Rightarrow> byte list \<Rightarrow> bool" where
  "gcm_usable ecb hw k \<longleftrightarrow> on_blocks (ecb True k) \<and> hw_multiplies hw"

definition aead_ready :: "ecb \<Rightarrow> gcm_hw \<Rightarrow> bool \<Rightarrow> byte list \<Rightarrow> (aop + 'p) option \<Rightarrow> bool" where
  "aead_ready ecb hw e k op \<longleftrightarrow>
    (\<exists>x. op = Some (Inl x) \<and> ao_is_encrypt x = e \<and> \<not> ao_nonce_set x \<and> \<not> ao_body_started x \<and>
      d_is_encrypt (ao_ctx x) = e \<and> d_tag_length (ao_ctx x) = 16 \<and> gcm_keyed ecb hw k (d_gcm (ao_ctx x)))"

definition aead_fed ::
  "ecb \<Rightarrow> gcm_hw \<Rightarrow> bool \<Rightarrow> byte list \<Rightarrow> byte list \<Rightarrow> byte list \<Rightarrow> byte list \<Rightarrow> (aop + 'p) option \<Rightarrow> bool" where
  "aead_fed ecb hw e k iv a p op \<longleftrightarrow>
    (\<exists>x. op = Some (Inl x) \<and> ao_is_encrypt x = e \<and> ao_nonce_set x \<and> (ao_body_started x \<longrightarrow> p \<noteq> []) \<and>
      d_tag_length (ao_ctx x) = 16 \<and> gcm_has ecb hw k e iv a p (d_gcm (ao_ctx x)))"

lemma builtin_setup_keyed:
  assumes "gcm_usable ecb hw k" "run_state (builtin_aead_setup ecb hw attr k) s = ((PSA_SUCCESS, ctx), s')"
  shows "gcm_keyed ecb hw k (d_gcm ctx) \<and> d_tag_length ctx = 16"
proof -
  obtain st gcm s1 where "run_state (mbedtls_gcm_setkey ecb hw mbedtls_gcm_init k (pa_bits attr)) s = ((st, gcm), s1)"
    by (metis surj_pair)
  then show ?thesis
    using assms gcm_setkey_keyed [of hw ecb k mbedtls_gcm_init "pa_bits attr" s gcm s1]
    by (auto simp: builtin_aead_setup_def gcm_usable_def Let_def split: if_splits)
qed

lemma aead_setup_ready:
  assumes "gcm_usable ecb hw (slot_data ks b kid)"
    and "run_state (psa_aead_setup ecb hw ks b None e kid) s = ((PSA_SUCCESS, op), s')"
  shows "aead_ready ecb hw e (slot_data ks b kid) (map_option Inl op)"
proof -
  obtain st ctx s1 where run: "run_state (builtin_aead_setup ecb hw (slot_attr ks b kid) (slot_data ks b kid)) s = ((st, ctx), s1)"
    by (metis surj_pair)
  have "st = PSA_SUCCESS \<and> op = Some \<lparr>ao_is_encrypt = e, ao_nonce_set = False, ao_ad_started = False,
      ao_body_started = False, ao_ctx = ctx\<lparr>d_is_encrypt := e\<rparr>\<rparr>"
    using assms(2) run
    by (cases e) (simp_all add: psa_aead_setup_def mbedtls_psa_aead_encrypt_setup_def mbedtls_psa_aead_decrypt_setup_def
        Let_def split: if_split_asm)
  then show ?thesis
    using builtin_setup_keyed [OF assms(1), of "slot_attr ks b kid" s ctx s1] run by (simp add: aead_ready_def)
qed

lemmas aead_calls = vendored_aead_def top_reply_def vendored_aead_key_def

lemma vendored_aead_setup:
  assumes "gcm_usable ecb hw (vendored_aead_key ks b kid)"
    and "r_status (fst (vendored_aead ecb hw ks Q (gcm_setup e kid) None b)) = PSA_SUCCESS"
  shows "aead_ready ecb hw e (vendored_aead_key ks b kid) (r_op (fst (vendored_aead ecb hw ks Q (gcm_setup e kid) None b)))"
proof -
  obtain st op s1 where "run_state (psa_aead_setup ecb hw ks (snd b) None e kid) (fst b, False) = ((st, op), s1)"
    by (metis surj_pair)
  then show ?thesis
    using assms aead_setup_ready [of ecb hw ks "snd b" kid e "(fst b, False)" op s1]
    by (cases e; cases s1) (auto simp: aead_calls gcm_setup_def)
qed

lemma vendored_aead_nonce:
  assumes "aead_ready ecb hw e k op" "length iv = 12"
    and "r_status (fst (vendored_aead ecb hw ks Q (AEAD (Aead_set_nonce iv)) op b)) = PSA_SUCCESS"
  shows "aead_fed ecb hw e k iv [] [] (r_op (fst (vendored_aead ecb hw ks Q (AEAD (Aead_set_nonce iv)) op b)))"
proof -
  obtain x where x: "op = Some (Inl x)" "ao_is_encrypt x = e" "\<not> ao_nonce_set x" "\<not> ao_body_started x"
      "d_is_encrypt (ao_ctx x) = e" "d_tag_length (ao_ctx x) = 16" "gcm_keyed ecb hw k (d_gcm (ao_ctx x))"
    using assms(1) by (auto simp: aead_ready_def)
  obtain st gcm where g: "mbedtls_gcm_starts ecb hw (d_gcm (ao_ctx x)) e iv = (st, gcm)" by force
  show ?thesis
    using assms(2,3) x g gcm_starts_has [OF x(7), of e iv gcm]
    by (auto simp: aead_calls psa_aead_set_nonce_def try_local_def psa_aead_set_nonce_internal_def mbedtls_psa_aead_set_nonce_def
        aead_fed_def Let_def split: prod.splits if_splits)
qed

lemma vendored_aead_ad:
  assumes "aead_fed ecb hw e k iv a [] op" "length xs < 2 ^ 64"
    and "r_status (fst (vendored_aead ecb hw ks Q (AEAD (Aead_update_ad xs)) op b)) = PSA_SUCCESS"
  shows "aead_fed ecb hw e k iv (a @ xs) [] (r_op (fst (vendored_aead ecb hw ks Q (AEAD (Aead_update_ad xs)) op b)))"
proof -
  obtain x where x: "op = Some (Inl x)" "ao_is_encrypt x = e" "ao_nonce_set x" "\<not> ao_body_started x"
      "d_tag_length (ao_ctx x) = 16" "gcm_has ecb hw k e iv a [] (d_gcm (ao_ctx x))"
    using assms(1) by (auto simp: aead_fed_def)
  obtain st gcm where g: "mbedtls_gcm_update_ad hw (d_gcm (ao_ctx x)) xs = (st, gcm)" by force
  show ?thesis
    using assms(2,3) x g gcm_update_ad_has [OF x(6), of xs gcm]
    by (auto simp: aead_calls psa_aead_update_ad_def try_local_def mbedtls_psa_aead_update_ad_def psa_aead_abort_def
        aead_fed_def Let_def split: prod.splits if_splits)
qed

lemma vendored_aead_update:
  assumes "gcm_usable ecb hw k" "aead_fed ecb hw e k iv a p op" "length d = unat n" "d \<noteq> []"
    and "r_status (fst (vendored_aead ecb hw ks Q (AEAD (Aead_update d n)) op b)) = PSA_SUCCESS"
  shows "aead_fed ecb hw e k iv a (p @ d) (r_op (fst (vendored_aead ecb hw ks Q (AEAD (Aead_update d n)) op b))) \<and>
    r_len (fst (vendored_aead ecb hw ks Q (AEAD (Aead_update d n)) op b)) = n \<and>
    gcm_ctr (ecb True k) iv (p @ d) = gcm_ctr (ecb True k) iv p @ r_out (fst (vendored_aead ecb hw ks Q (AEAD (Aead_update d n)) op b))"
proof -
  obtain x where x: "op = Some (Inl x)" "ao_is_encrypt x = e" "ao_nonce_set x" "d_tag_length (ao_ctx x) = 16"
      "gcm_has ecb hw k e iv a p (d_gcm (ao_ctx x))"
    using assms(2) by (auto simp: aead_fed_def)
  have bl: "on_blocks (ecb True k)" and d: "length d < 2 ^ 64"
    using assms(1,3) unsigned_less [of n] by (simp_all add: gcm_usable_def)
  obtain st gcm out where g: "mbedtls_gcm_update ecb hw (d_gcm (ao_ctx x)) d n = (st, gcm, out)" by (metis surj_pair)
  have v: "st = PSA_SUCCESS \<Longrightarrow> gcm_has ecb hw k e iv a (p @ d) gcm"
      "st = PSA_SUCCESS \<Longrightarrow> gcm_ctr (ecb True k) iv (p @ d) = gcm_ctr (ecb True k) iv p @ out"
    using gcm_update_has [OF x(5) bl d, of n gcm out] g by simp_all
  have "length (gcm_ctr (ecb True k) iv ys) = length ys" for ys
    using bl by (simp add: gcm_ctr_def length_gctr length_gcm_j0)
  then have "st = PSA_SUCCESS \<Longrightarrow> length out = unat n"
    using arg_cong [OF v(2), of length] assms(3) by simp
  then show ?thesis
    using assms(3-5) x g v
    by (auto simp: aead_calls psa_aead_update_def try_local_def mbedtls_psa_aead_update_def psa_aead_abort_def put_def
        aead_fed_def Let_def split: prod.splits if_splits)
qed

lemma gcm_finish_ok:
  obtains gcm t where "mbedtls_gcm_finish hw ctx 16 = (PSA_SUCCESS, gcm, t)"
proof -
  have "fst (mbedtls_gcm_finish hw ctx 16) = PSA_SUCCESS" by (simp add: mbedtls_gcm_finish_def Let_def)
  then show thesis using that by (metis prod.collapse)
qed

lemma length_gcm_tag: "on_blocks E \<Longrightarrow> length (gcm_tag E iv a c) = 16"
  by (simp add: gcm_tag_def length_gctr length_gcm_j0 length_ghash)

lemma vendored_aead_finish:
  assumes "gcm_usable ecb hw k" "aead_fed ecb hw True k iv a p op"
    and "r_status (fst (vendored_aead ecb hw ks Q (AEAD (Aead_finish n 16)) op b)) = PSA_SUCCESS"
  shows "r_out2 (fst (vendored_aead ecb hw ks Q (AEAD (Aead_finish n 16)) op b)) =
      gcm_tag (ecb True k) iv a (gcm_ctr (ecb True k) iv p)"
proof -
  obtain x where x: "op = Some (Inl x)" "ao_is_encrypt x" "ao_nonce_set x" "d_tag_length (ao_ctx x) = 16"
      "gcm_has ecb hw k True iv a p (d_gcm (ao_ctx x))"
    using assms(2) by (auto simp: aead_fed_def)
  have bl: "on_blocks (ecb True k)" using assms(1) by (simp add: gcm_usable_def)
  obtain gcm t where g: "mbedtls_gcm_finish hw (d_gcm (ao_ctx x)) 16 = (PSA_SUCCESS, gcm, t)"
    by (rule gcm_finish_ok [of hw "d_gcm (ao_ctx x)"])
  then have t: "t = gcm_tag (ecb True k) iv a (gcm_ctr (ecb True k) iv p)"
    using gcm_finish_tag [OF x(5) bl g] length_gcm_tag [OF bl] by (simp add: gcm_cipher_side_def)
  then have "length t = 16" using length_gcm_tag [OF bl] by simp
  then show ?thesis
    using assms(3) x g t
    by (auto simp: aead_calls psa_aead_finish_def try_local_def mbedtls_psa_aead_finish_def psa_aead_final_checks_def
        psa_wipe_tag_output_buffer_def put_def Let_def split: prod.splits if_splits)
qed

lemma verify_compares:
  assumes "gcm_usable ecb hw k" "gcm_has ecb hw k False iv a p (d_gcm ctx)" "d_tag_length ctx = 16"
  shows "fst (psa_driver_wrapper_aead_verify hw ctx t) =
    (if t = gcm_tag (ecb True k) iv a p then PSA_SUCCESS else PSA_ERROR_INVALID_SIGNATURE)"
proof -
  have bl: "on_blocks (ecb True k)" using assms(1) by (simp add: gcm_usable_def)
  obtain gcm check where g: "mbedtls_gcm_finish hw (d_gcm ctx) 16 = (PSA_SUCCESS, gcm, check)"
    by (rule gcm_finish_ok [of hw "d_gcm ctx"])
  then have "check = gcm_tag (ecb True k) iv a p"
    using gcm_finish_tag [OF assms(2) bl g] length_gcm_tag [OF bl] by (simp add: gcm_cipher_side_def)
  then show ?thesis
    using assms(3) g by (auto simp: psa_driver_wrapper_aead_verify_def mbedtls_psa_aead_finish_def Let_def)
qed

lemma vendored_aead_verify:
  assumes "gcm_usable ecb hw k" "aead_fed ecb hw False k iv a p op"
    and "r_status (fst (vendored_aead ecb hw ks Q (AEAD (Aead_verify n t)) op b)) = PSA_SUCCESS"
  shows "t = gcm_tag (ecb True k) iv a p"
proof -
  obtain x where x: "op = Some (Inl x)" "\<not> ao_is_encrypt x" "ao_nonce_set x" "d_tag_length (ao_ctx x) = 16"
      "gcm_has ecb hw k False iv a p (d_gcm (ao_ctx x))"
    using assms(2) by (auto simp: aead_fed_def)
  show ?thesis
    using assms(3) x verify_compares [OF assms(1) x(5,4), of t]
    by (auto simp: aead_calls psa_aead_verify_def try_local_def psa_aead_final_checks_def Let_def split: prod.splits if_splits)
qed

interpretation vendored_aead: psa_gcm_contract "vendored_aead ecb hw ks Q" "ecb True" "vendored_aead_key ks"
  "aead_ready ecb hw" "aead_fed ecb hw" "gcm_usable ecb hw"
  by unfold_locales
    (simp add: gcm_usable_def, (rule vendored_aead_setup vendored_aead_nonce vendored_aead_ad vendored_aead_update
      vendored_aead_finish vendored_aead_verify; assumption)+)

text \<open>With allocations that succeed, a key of AES that may be used, and lengths within the bounds of the mode.\<close>

definition vendored_aead_able :: "'b key_store \<Rightarrow> bool list \<times> 'b \<Rightarrow> psa_key_id_t \<Rightarrow> bool" where
  "vendored_aead_able ks b kid \<longleftrightarrow>
    fst b = [] \<and> lock_slot ks (snd b) kid PSA_KEY_USAGE_ENCRYPT PSA_ALG_GCM = PSA_SUCCESS \<and>
    lock_slot ks (snd b) kid PSA_KEY_USAGE_DECRYPT PSA_ALG_GCM = PSA_SUCCESS \<and>
    pa_type (slot_attr ks (snd b) kid) = PSA_KEY_TYPE_AES \<and> pa_bits (slot_attr ks (snd b) kid) \<in> {128, 192, 256}"

lemma try_plenty [simp]: "run_state (try_local n) ([], failed) = (True, [], failed)"
  by (simp add: try_local_def local_alloc_plenty)

lemmas aead_able = aead_calls vendored_aead_able_def Let_def

lemma aead_setup_ok:
  assumes "vendored_aead_able ks b kid"
  shows "r_status (fst (vendored_aead ecb hw ks Q (gcm_setup e kid) None b)) = PSA_SUCCESS \<and>
    vendored_aead_able ks (snd (vendored_aead ecb hw ks Q (gcm_setup e kid) None b)) kid"
  using assms
  by (cases e) (auto simp: aead_able gcm_setup_def psa_aead_setup_def mbedtls_psa_aead_encrypt_setup_def
      mbedtls_psa_aead_decrypt_setup_def builtin_aead_setup_def mbedtls_gcm_setkey_def PSA_BLOCK_CIPHER_BLOCK_LENGTH_def)

lemma aead_nonce_ok:
  assumes "vendored_aead_able ks b kid" "aead_ready ecb hw e k op" "length iv = 12"
  shows "r_status (fst (vendored_aead ecb hw ks Q (AEAD (Aead_set_nonce iv)) op b)) = PSA_SUCCESS \<and>
    vendored_aead_able ks (snd (vendored_aead ecb hw ks Q (AEAD (Aead_set_nonce iv)) op b)) kid"
  using assms
  by (auto simp: aead_able aead_ready_def psa_aead_set_nonce_def psa_aead_set_nonce_internal_def mbedtls_psa_aead_set_nonce_def
      mbedtls_gcm_starts_def)

lemma aead_ad_ok:
  assumes "vendored_aead_able ks b kid" "aead_fed ecb hw e k iv a [] op" "length a + length xs < 2 ^ 61"
  shows "r_status (fst (vendored_aead ecb hw ks Q (AEAD (Aead_update_ad xs)) op b)) = PSA_SUCCESS \<and>
    vendored_aead_able ks (snd (vendored_aead ecb hw ks Q (AEAD (Aead_update_ad xs)) op b)) kid"
proof -
  obtain x where x: "op = Some (Inl x)" "ao_nonce_set x" "\<not> ao_body_started x" "gcm_has ecb hw k e iv a [] (d_gcm (ao_ctx x))"
    using assms(2) by (auto simp: aead_fed_def)
  have "fst (mbedtls_gcm_update_ad hw (d_gcm (ao_ctx x)) xs) = PSA_SUCCESS"
    by (rule gcm_update_ad_ok [OF x(4) assms(3)])
  then show ?thesis
    using assms(1) x
    by (auto simp: aead_able psa_aead_update_ad_def mbedtls_psa_aead_update_ad_def split: prod.splits)
qed

lemma aead_update_ok:
  assumes "vendored_aead_able ks b kid" "aead_fed ecb hw e k iv a p op" "length d = unat n" "d \<noteq> []"
    and "length p + length d \<le> 0xFFFFFFFE0"
  shows "r_status (fst (vendored_aead ecb hw ks Q (AEAD (Aead_update d n)) op b)) = PSA_SUCCESS \<and>
    vendored_aead_able ks (snd (vendored_aead ecb hw ks Q (AEAD (Aead_update d n)) op b)) kid"
proof -
  obtain x where x: "op = Some (Inl x)" "ao_nonce_set x" "gcm_has ecb hw k e iv a p (d_gcm (ao_ctx x))"
    using assms(2) by (auto simp: aead_fed_def)
  have "fst (mbedtls_gcm_update ecb hw (d_gcm (ao_ctx x)) d n) = PSA_SUCCESS"
    by (rule gcm_update_ok [OF x(3) assms(5,3)])
  then show ?thesis
    using assms(1) x
    by (auto simp: aead_able psa_aead_update_def mbedtls_psa_aead_update_def split: prod.splits)
qed

lemma aead_finish_ok:
  assumes "vendored_aead_able ks b kid" "aead_fed ecb hw True k iv a p op"
  shows "r_status (fst (vendored_aead ecb hw ks Q (AEAD (Aead_finish 0 16)) op b)) = PSA_SUCCESS \<and>
    r_len (fst (vendored_aead ecb hw ks Q (AEAD (Aead_finish 0 16)) op b)) = 0 \<and>
    r_len2 (fst (vendored_aead ecb hw ks Q (AEAD (Aead_finish 0 16)) op b)) = 16"
proof -
  obtain x where x: "op = Some (Inl x)" "ao_is_encrypt x" "ao_nonce_set x" "d_tag_length (ao_ctx x) = 16"
    using assms(2) by (auto simp: aead_fed_def)
  obtain gcm t where "mbedtls_gcm_finish hw (d_gcm (ao_ctx x)) 16 = (PSA_SUCCESS, gcm, t)"
    by (rule gcm_finish_ok [of hw "d_gcm (ao_ctx x)"])
  then show ?thesis
    using assms(1) x
    by (auto simp: aead_able psa_aead_finish_def mbedtls_psa_aead_finish_def psa_aead_final_checks_def split: prod.splits)
qed

lemma aead_verify_ok:
  assumes "vendored_aead_able ks b kid" "gcm_usable ecb hw k" "aead_fed ecb hw False k iv a p op" "length t = 16"
  shows "r_status (fst (vendored_aead ecb hw ks Q (AEAD (Aead_verify 0 t)) op b)) =
      (if t = gcm_tag (ecb True k) iv a p then PSA_SUCCESS else PSA_ERROR_INVALID_SIGNATURE) \<and>
    r_len (fst (vendored_aead ecb hw ks Q (AEAD (Aead_verify 0 t)) op b)) = 0"
proof -
  obtain x where x: "op = Some (Inl x)" "\<not> ao_is_encrypt x" "ao_nonce_set x" "d_tag_length (ao_ctx x) = 16"
      "gcm_has ecb hw k False iv a p (d_gcm (ao_ctx x))"
    using assms(3) by (auto simp: aead_fed_def)
  show ?thesis
    using assms(1) x verify_compares [OF assms(2) x(5,4), of t]
    by (auto simp: aead_able psa_aead_verify_def psa_aead_final_checks_def split: prod.splits)
qed

interpretation vendored_aead_total: psa_gcm_total "vendored_aead ecb hw ks Q" "ecb True" "vendored_aead_key ks"
  "aead_ready ecb hw" "aead_fed ecb hw" "gcm_usable ecb hw" "vendored_aead_able ks"
  by unfold_locales
    (rule aead_setup_ok aead_nonce_ok aead_ad_ok aead_update_ok aead_finish_ok aead_verify_ok; assumption)+

section \<open>The entry point of R over the vendored code\<close>

text \<open>
  C8. A call of \<^verbatim>\<open>zucrypt_aes_gcm\<close> that encrypts and returns status 0 returns the ciphertext and the tag of GCM
  (SP 800-38D) for the plaintext, associated data, nonce and key it was given, whatever the block cipher,
  with the table multiplication or with a processor's.
\<close>

theorem zucrypt_aes_gcm_is_gcm:
  assumes "run_state (zucrypt_aes_gcm (vendored_aead ecb hw ks Q) (RAWSXP p n) (RAWSXP kp kn) (RAWSXP ivp ivn) aad tag encrypt) s =
      (Returned (VECSXP [(''status'', INTSXP [0]), (''value'', v)]), s')"
    and "Rf_asLogical encrypt" and "imports_keys (vendored_aead ecb hw ks Q) (vendored_aead_key ks)"
    and "\<And>a b ps. rs_allocs s = a # b # ps \<Longrightarrow> buf b 16 \<inter> buf a n = {}"
    and "gcm_usable ecb hw (mem_read (w_mem (rs_world s)) kp kn)"
  shows "\<exists>out t. v = VECSXP [([], RAWSXP out n), ([], RAWSXP t 16)] \<and>
    (mem_read (w_mem (rs_world s')) out n, mem_read (w_mem (rs_world s')) t 16) =
      gcm_encrypt (ecb True (mem_read (w_mem (rs_world s)) kp kn)) (mem_read (w_mem (rs_world s)) ivp 12)
        (aad_bytes (w_mem (rs_world s)) aad) (mem_read (w_mem (rs_world s)) p n)"
  by (rule vendored_aead.zucrypt_aes_gcm_sealed [OF assms(1-3) _ assms(5)]) (rule assms(4))

text \<open>
  C9. A call of \<^verbatim>\<open>zucrypt_aes_gcm\<close> that decrypts and returns status 0 has been given the tag of GCM for exactly
  this ciphertext, associated data, nonce and key, and returns the plaintext of authenticated decryption.
\<close>

theorem zucrypt_aes_gcm_authenticates:
  assumes "run_state (zucrypt_aes_gcm (vendored_aead ecb hw ks Q) (RAWSXP p n) (RAWSXP kp kn) (RAWSXP ivp ivn) aad
      (RAWSXP tp tn) encrypt) s = (Returned (VECSXP [(''status'', INTSXP [0]), (''value'', v)]), s')"
    and "\<not> Rf_asLogical encrypt" and "imports_keys (vendored_aead ecb hw ks Q) (vendored_aead_key ks)"
    and "\<And>a ps. rs_allocs s = a # ps \<Longrightarrow> buf tp 16 \<inter> buf a n = {}"
    and "gcm_usable ecb hw (mem_read (w_mem (rs_world s)) kp kn)"
  shows "\<exists>out. v = RAWSXP out n \<and>
    gcm_decrypt (ecb True (mem_read (w_mem (rs_world s)) kp kn)) (mem_read (w_mem (rs_world s)) ivp 12)
        (aad_bytes (w_mem (rs_world s)) aad) (mem_read (w_mem (rs_world s)) p n) (mem_read (w_mem (rs_world s)) tp tn) =
      Some (mem_read (w_mem (rs_world s')) out n)"
  by (rule vendored_aead.zucrypt_aes_gcm_opened [OF assms(1-3) _ assms(5)]) (rule assms(4))

text \<open>
  C27. With a running backend, allocations that succeed and lengths within the bounds of the mode, a decryption is
  decided by the tag alone: status 0 and a value for a message that GCM accepts, the status of a failed
  authentication and no value for every other.
\<close>

theorem zucrypt_aes_gcm_answers:
  assumes "\<not> Rf_asLogical encrypt" and "rs_allocs s = out # l # rest" "out \<noteq> NULL" "l \<noteq> NULL"
    and "gcm_args (rs_world s) kp kn ivp (if Rf_isNull aad then NULL else RAW aad) (if Rf_isNull aad then 0 else XLENGTH aad)
      (if n \<noteq> 0 then p else NULL) n (if n \<noteq> 0 then out else NULL) tp"
    and "imports_keys (vendored_aead ecb hw ks Q) (vendored_aead_key ks)"
    and "gcm_usable ecb hw (mem_read (w_mem (rs_world s)) kp kn)"
    and "gcm_key_ok (vendored_aead ecb hw ks Q) (vendored_aead_able ks) (mem_read (w_mem (rs_world s)) kp kn) (w_psa (rs_world s))"
  shows "\<exists>s'. run_state (zucrypt_aes_gcm (vendored_aead ecb hw ks Q) (RAWSXP p n) (RAWSXP kp kn) (RAWSXP ivp 12) aad
      (RAWSXP tp 16) encrypt) s =
    (Returned (
      if gcm_decrypt (ecb True (mem_read (w_mem (rs_world s)) kp kn)) (mem_read (w_mem (rs_world s)) ivp 12)
        (aad_bytes (w_mem (rs_world s)) aad) (mem_read (w_mem (rs_world s)) p n) (mem_read (w_mem (rs_world s)) tp 16) \<noteq> None
      then VECSXP [(''status'', INTSXP [0]), (''value'', RAWSXP out n)]
      else VECSXP [(''status'', INTSXP [zuc_status_code ZUC_ERR_AUTH]), (''value'', R_NilValue)]), s')"
  by (rule vendored_aead_total.zucrypt_aes_gcm_decides) (rule assms)+

text \<open>A session with memory for one call, over the store with one key and the cipher that reverses a block.\<close>

definition gcm_session :: "memory \<Rightarrow> (bool list \<times> byte list, aop + unit) session" where
  "gcm_session m =
    \<lparr>rs_world = (fresh_world ([], []) [])\<lparr>w_mem := m\<rparr>, rs_ptrs = Map.empty,
     rs_allocs = [1000, 1100, 1200, 1300], rs_interrupts = [False]\<rparr>"

abbreviation gcm_backend :: "(bool list \<times> byte list, aop + unit) psa" where
  "gcm_backend \<equiv> vendored_aead reversing None one_key_store store_backend"

abbreviation gcm_demo :: "bool \<Rightarrow> (bool list \<times> byte list, aop + unit, sexp outcome) rc" where
  "gcm_demo encrypt \<equiv> zucrypt_aes_gcm gcm_backend (RAWSXP 8192 20) (RAWSXP 16384 16) (RAWSXP 20480 12)
     (RAWSXP 24576 5) (RAWSXP 28672 16) (LGLSXP encrypt)"

lemma gcm_demo_imports: "imports_keys gcm_backend (vendored_aead_key one_key_store)"
  by (simp add: imports_keys_def vendored_aead_def store_backend_def vendored_aead_key_def one_key_store_def scripted_def
      rest_reply_def)

lemma gcm_demo_usable: "gcm_usable reversing None k"
  using reversing_pair by (simp add: gcm_usable_def hw_multiplies_def block_pair_def)

lemma gcm_demo_key: "gcm_key_ok gcm_backend (vendored_aead_able one_key_store) k ([], [])"
  by (simp add: gcm_key_ok_def vendored_aead_def store_backend_def vendored_aead_able_def one_key_simps scripted_def
      rest_reply_def)

lemma gcm_demo_args:
  "gcm_args (rs_world (gcm_session m)) 16384 16 20480 24576 5 8192 20 1000 1100"
  "gcm_args (rs_world (gcm_session m)) 16384 16 20480 24576 5 8192 20 1000 28672"
  by (simp_all add: gcm_args_def gcm_session_def, (simp add: zuc_int_overlaps_def | rule conjI buf_apart | simp add: no_wrap_def)+)

lemma gcm_demo_seals:
  "\<exists>s'. run_state (gcm_demo True) (gcm_session m) =
    (Returned (VECSXP [(''status'', INTSXP [0]), (''value'', VECSXP [([], RAWSXP 1000 20), ([], RAWSXP 1100 16)])]), s')"
  by (rule vendored_aead_total.zucrypt_aes_gcm_seals [of _ _ 1000 1100 1200 1300 "[]"])
    (use gcm_demo_args(1) gcm_demo_imports gcm_demo_usable gcm_demo_key in \<open>simp_all add: gcm_session_def\<close>)

theorem zucrypt_aes_gcm_is_gcm_witness:
  "\<exists>s'. run_state (gcm_demo True) (gcm_session (\<lambda>a. ucast a)) =
      (Returned (VECSXP [(''status'', INTSXP [0]), (''value'', VECSXP [([], RAWSXP 1000 20), ([], RAWSXP 1100 16)])]), s') \<and>
    (mem_read (w_mem (rs_world s')) 1000 20, mem_read (w_mem (rs_world s')) 1100 16) =
      gcm_encrypt rev (map of_nat [0..<12]) (map of_nat [0..<5]) (map of_nat [0..<20])"
proof -
  let ?s = "gcm_session (\<lambda>a. ucast a)"
  obtain s' where run: "run_state (gcm_demo True) ?s =
      (Returned (VECSXP [(''status'', INTSXP [0]), (''value'', VECSXP [([], RAWSXP 1000 20), ([], RAWSXP 1100 16)])]), s')"
    using gcm_demo_seals by blast
  have "buf 1100 16 \<inter> buf 1000 20 = {}" by (rule buf_apart) (simp_all add: no_wrap_def)
  then have apart: "buf b 16 \<inter> buf a 20 = {}" if "rs_allocs ?s = a # b # ps" for a b ps
    using that by (simp add: gcm_session_def)
  have "mem_read (\<lambda>a. ucast a) 8192 20 = map of_nat [0..<20]" "mem_read (\<lambda>a. ucast a) 20480 12 = map of_nat [0..<12]"
      "mem_read (\<lambda>a. ucast a) 24576 5 = map of_nat [0..<5]"
    by (simp_all add: mem_read_def upt_rec)
  then show ?thesis
    using zucrypt_aes_gcm_is_gcm [OF run _ gcm_demo_imports apart gcm_demo_usable] run
    by (auto simp: gcm_session_def aad_bytes_def reversing_def [abs_def])
qed

text \<open>A memory that holds the tag of the data in it.\<close>

definition tagged_memory :: memory where
  "tagged_memory = mem_write (\<lambda>a. ucast a) 28672 (gcm_tag rev (mem_read (\<lambda>a. ucast a) 20480 12)
     (mem_read (\<lambda>a. ucast a) 24576 5) (mem_read (\<lambda>a. ucast a) 8192 20))"

lemma reversing_blocks: "on_blocks rev"
  by (simp add: on_blocks_def)

lemma tagged_memory_reads:
  "mem_read tagged_memory 8192 20 = mem_read (\<lambda>a. ucast a) 8192 20"
  "mem_read tagged_memory 20480 12 = mem_read (\<lambda>a. ucast a) 20480 12"
  "mem_read tagged_memory 24576 5 = mem_read (\<lambda>a. ucast a) 24576 5"
  "mem_read tagged_memory 28672 16 = gcm_tag rev (mem_read (\<lambda>a. ucast a) 20480 12) (mem_read (\<lambda>a. ucast a) 24576 5)
     (mem_read (\<lambda>a. ucast a) 8192 20)"
  by (simp_all add: tagged_memory_def mem_read_write_same length_gcm_tag reversing_blocks
      mem_read_write_disjoint [of _ _ _ 16] buf_apart no_wrap_def)

lemma gcm_demo_opens:
  "\<exists>s'. run_state (gcm_demo False) (gcm_session tagged_memory) =
    (Returned (VECSXP [(''status'', INTSXP [0]), (''value'', RAWSXP 1000 20)]), s')"
  using vendored_aead_total.zucrypt_aes_gcm_decides [of "LGLSXP False" "gcm_session tagged_memory" 1000 1100 "[1200, 1300]"
      16384 16 20480 "RAWSXP 24576 5" 20 8192 28672 reversing None one_key_store store_backend]
    gcm_demo_args(2) gcm_demo_imports gcm_demo_usable gcm_demo_key
  by (simp add: gcm_session_def gcm_decrypt_def aad_bytes_def tagged_memory_reads reversing_def [abs_def])

theorem zucrypt_aes_gcm_authenticates_witness:
  "\<exists>s'. run_state (gcm_demo False) (gcm_session tagged_memory) =
      (Returned (VECSXP [(''status'', INTSXP [0]), (''value'', RAWSXP 1000 20)]), s') \<and>
    gcm_decrypt rev (mem_read tagged_memory 20480 12) (mem_read tagged_memory 24576 5) (mem_read tagged_memory 8192 20)
      (mem_read tagged_memory 28672 16) = Some (mem_read (w_mem (rs_world s')) 1000 20)"
proof -
  let ?s = "gcm_session tagged_memory"
  obtain s' where run: "run_state (gcm_demo False) ?s =
      (Returned (VECSXP [(''status'', INTSXP [0]), (''value'', RAWSXP 1000 20)]), s')"
    using gcm_demo_opens by blast
  have "buf 28672 16 \<inter> buf 1000 20 = {}" by (rule buf_apart) (simp_all add: no_wrap_def)
  then have apart: "buf 28672 16 \<inter> buf a 20 = {}" if "rs_allocs ?s = a # ps" for a ps
    using that by (simp add: gcm_session_def)
  show ?thesis
    using zucrypt_aes_gcm_authenticates [OF run _ gcm_demo_imports apart gcm_demo_usable] run
    by (auto simp: gcm_session_def aad_bytes_def reversing_def [abs_def])
qed

theorem zucrypt_aes_gcm_answers_witness:
  "\<exists>s'. run_state (gcm_demo False) (gcm_session tagged_memory) =
    (Returned (VECSXP [(''status'', INTSXP [0]), (''value'', RAWSXP 1000 20)]), s')"
  using zucrypt_aes_gcm_answers [of "LGLSXP False" "gcm_session tagged_memory" 1000 1100 "[1200, 1300]"
      16384 16 20480 "RAWSXP 24576 5" 20 8192 28672 reversing None one_key_store store_backend]
    gcm_demo_args(2) gcm_demo_imports gcm_demo_usable gcm_demo_key
  by (simp add: gcm_session_def gcm_decrypt_def aad_bytes_def tagged_memory_reads reversing_def [abs_def])

end
