(* ===== verification/Refcount.thy ===== *)
theory Refcount
  imports R_Crypt
begin

text \<open>
  No function of the adapter but \<^verbatim>\<open>zuc_init\<close> and \<^verbatim>\<open>zuc_shutdown\<close> changes the count of references to
  the backend: one lemma per function, on every path and for every backend.
\<close>

lemma refcount_struct:
  "keeps w_refcount (set_hash q h)" "keeps w_refcount (set_hmac q m)" "keeps w_refcount (set_aes q e)"
  "keeps w_refcount (set_pkey q k)" "keeps w_refcount (free_struct_hash q)" "keeps w_refcount (free_struct_hmac q)"
  "keeps w_refcount (free_struct_aes q)" "keeps w_refcount (free_struct_pkey q)"
  "keeps w_refcount (deref_hash q)" "keeps w_refcount (deref_hmac q)" "keeps w_refcount (deref_aes q)"
  "keeps w_refcount (deref_pkey q)" "keeps w_refcount (zuc_secure_zero q n)"
  "keeps w_refcount calloc_hash" "keeps w_refcount calloc_hmac" "keeps w_refcount calloc_aes" "keeps w_refcount calloc_pkey"
  by (simp_all add: keeps_def set_defs deref_defs run_deref zuc_secure_zero_def mbedtls_platform_zeroize_def
      calloc_hash_def calloc_hmac_def
      calloc_aes_def calloc_pkey_def run_c_alloc split: option.splits list.splits)

lemma refcount_prim:
  "keeps w_refcount (write_bytes p bs)" "keeps w_refcount (write_out p n bs)" "keeps w_refcount (write_size p v)"
  "keeps w_refcount (write_cell p u)" "keeps w_refcount (psa_do P c op)" "keeps w_refcount (psa_import_key P attr d)"
  "keeps w_refcount (psa_destroy_key P kid)" "keeps w_refcount set_ub" "keeps w_refcount (malloc_bytes n)"
  "keeps w_refcount (free_bytes p)" "keeps w_refcount (zuc_int_live_add z)" "keeps w_refcount c_alloc"
  by (intro keeps_intros; simp)+

lemma refcount_watch: "keeps w_refcount m \<Longrightarrow> keeps w_refcount (watched m)"
  unfolding watched_def zuc_int_alloc_watch_def zuc_int_memory_or_def
  by (intro keeps_bind keeps_gets keeps_ret keeps_modify) simp_all

lemmas refcount_rules = refcount_struct refcount_prim keeps_ret keeps_gets keeps_bind keeps_if keeps_let keeps_case_prod
  keeps_case_option keeps_read_bytes keeps_zuc_int_ready

lemma refcount_hash:
  "keeps w_refcount (zuc_hash_compute P x b c d e f)"
  "keeps w_refcount (zuc_hash_new P x b)"
  "keeps w_refcount (zuc_hash_update P a b c)"
  "keeps w_refcount (zuc_hash_finish P a b c d)"
  "keeps w_refcount (zuc_hash_reset P a)"
  "keeps w_refcount (zuc_hash_free P a)"
  unfolding zuc_hash_compute_def check_digest_args_def zuc_hash_new_def zuc_hash_update_def zuc_hash_finish_def
    zuc_hash_reset_def zuc_hash_free_def
  by (intro refcount_rules)+

lemma refcount_hmac:
  "keeps w_refcount (zuc_hmac_compute P x b c d e f g h)"
  "keeps w_refcount (zuc_hmac_new P x b c d)"
  "keeps w_refcount (zuc_hmac_update P a b c)"
  "keeps w_refcount (zuc_hmac_finish P a b c d)"
  "keeps w_refcount (zuc_hmac_reset P a)"
  "keeps w_refcount (zuc_hmac_free P a)"
  unfolding zuc_hmac_compute_def check_digest_args_def import_hmac_key_def zuc_hmac_new_def zuc_hmac_update_def
    zuc_hmac_finish_def zuc_hmac_reset_def zuc_hmac_free_def
  by (intro refcount_rules)+

lemma refcount_aes:
  "keeps w_refcount (zuc_aes_new P a b c)"
  "keeps w_refcount (zuc_aes_free P a)"
  "keeps w_refcount (zuc_aes_cbc_set_state a b)"
  "keeps w_refcount (zuc_aes_cbc_get_state a b)"
  "keeps w_refcount (zuc_aes_cbc_encrypt P a b c d)"
  "keeps w_refcount (zuc_aes_cbc_decrypt P a b c d)"
  unfolding zuc_aes_new_def import_aes_key_def zuc_aes_free_def zuc_aes_cbc_set_state_def zuc_aes_cbc_get_state_def
    zuc_aes_cbc_encrypt_def zuc_aes_cbc_decrypt_def check_block_args_def cipher_run_def cipher_abort_def
  by (intro refcount_rules)+

lemma refcount_next: "keeps w_refcount (aead_next P c s)" "keeps w_refcount (kdf_next P d s)"
  "keeps w_refcount (aead_feed P inp len out s)" "keeps w_refcount (aead_close P enc len out tag tag_len n s)"
  "keeps w_refcount (aead_done P enc k len tag_len n x)" "keeps w_refcount (import_aead_key P key key_len palg)"
  unfolding aead_next_def kdf_next_def aead_feed_def aead_close_def aead_done_def import_aead_key_def import_aes_key_def
  by (intro refcount_rules)+

lemma refcount_aead:
  "keeps w_refcount (zuc_aead_encrypt P a b c d e f g h i j k l)"
  "keeps w_refcount (zuc_aead_decrypt P a b c d e f g h i j k l)"
  "keeps w_refcount (zuc_pbkdf2_hmac P a b c d e y g h)"
  unfolding zuc_aead_encrypt_def zuc_aead_decrypt_def check_aead_args_def aead_run_def zuc_pbkdf2_hmac_def
  by (intro refcount_next refcount_rules)+

lemma refcount_random: "keeps w_refcount (zuc_random_bytes rs a b)"
  unfolding zuc_random_bytes_def os_random_def
  by (intro refcount_rules keeps_modify) simp_all

subsection \<open>Public keys\<close>

lemma refcount_handles:
  "keeps w_refcount (pkey_destroy a)"
  "keeps w_refcount (zuc_pkey_free a)"
  "keeps w_refcount (zuc_pkey_type a)"
  "keeps w_refcount (zuc_pkey_bits a)"
  "keeps w_refcount (zuc_pkey_is_private a)"
  "keeps w_refcount (store_ok a x)"
  "keeps w_refcount (clear_len a)"
  "keeps w_refcount (pkey_import P k usage alg)"
  unfolding zuc_pkey_free_def zuc_pkey_type_def zuc_pkey_bits_def zuc_pkey_is_private_def pkey_destroy_def store_ok_def
    clear_len_def pkey_import_def
  by (intro refcount_rules)+

lemma refcount_from_psa: "keeps w_refcount (pkey_from_psa P a y)"
  unfolding pkey_from_psa_def by (intro refcount_handles refcount_rules)

lemma refcount_public_core: "keeps w_refcount (pkey_public_core P a)"
  unfolding pkey_public_core_def by (intro refcount_from_psa refcount_handles refcount_rules)

lemma refcount_ders:
  "keeps w_refcount (public_der P a)" "keeps w_refcount (pkcs8_wrap a b)" "keeps w_refcount (spki_der P k)"
  unfolding public_der_def pkcs8_wrap_def spki_der_def
  by (intro refcount_public_core refcount_from_psa refcount_handles refcount_rules)+

lemma refcount_encode: "keeps w_refcount (ec_encode P a t y)" "keeps w_refcount (write_output P t l b c d e f)"
  unfolding ec_encode_def write_output_def by (intro refcount_ders refcount_rules)+

lemma refcount_write_encode: "keeps w_refcount (write_encode P a t y)"
  unfolding write_encode_def by (intro refcount_encode refcount_ders refcount_rules)

lemma refcount_import_impl: "keeps w_refcount (pkey_import_impl P x y z a)"
  unfolding pkey_import_impl_def by (intro refcount_from_psa refcount_handles refcount_rules)

lemma refcount_parse:
  "keeps w_refcount (parse_input P d y)" "keeps w_refcount (parse_attributes P y pk)"
  "keeps w_refcount (parse_import P y z attr pk a)"
  unfolding parse_input_def parse_attributes_def parse_import_def
  by (intro refcount_from_psa refcount_handles refcount_rules)+

lemmas refcount_pkey_rules = refcount_watch refcount_from_psa refcount_public_core refcount_ders refcount_encode
  refcount_write_encode refcount_import_impl refcount_parse refcount_handles refcount_rules

lemma refcount_pkey:
  "keeps w_refcount (zuc_pkey_parse P a b y d)"
  "keeps w_refcount (zuc_pkey_generate P x b c)"
  "keeps w_refcount (zuc_pkey_public P a b)"
  "keeps w_refcount (zuc_pkey_import P x y a b c)"
  "keeps w_refcount (zuc_pkey_export P a y c d e)"
  "keeps w_refcount (zuc_pkey_write P a t y d e f)"
  "keeps w_refcount (zuc_pkey_agree P a b c d e)"
  unfolding zuc_pkey_parse_def pkey_parse_impl_def zuc_pkey_generate_def pkey_generate_impl_def
    zuc_pkey_public_def pkey_public_impl_def zuc_pkey_import_def zuc_pkey_export_def pkey_export_impl_def
    zuc_pkey_write_def pkey_write_impl_def zuc_pkey_agree_def pkey_agree_impl_def
  by (intro refcount_pkey_rules)+

lemma refcount_pkey_use:
  "keeps w_refcount (zuc_pkey_sign_hash P a x y b c d e f)"
  "keeps w_refcount (zuc_pkey_verify_hash P a x y b c d e)"
  "keeps w_refcount (zuc_pkey_encrypt P a x y b c d e f)"
  "keeps w_refcount (zuc_pkey_decrypt P a x y b c d e f)"
  unfolding zuc_pkey_sign_hash_def pkey_sign_hash_impl_def zuc_pkey_verify_hash_def pkey_verify_hash_impl_def
    zuc_pkey_encrypt_def pkey_encrypt_impl_def zuc_pkey_decrypt_def pkey_decrypt_impl_def
  by (intro refcount_pkey_rules)+

lemma refcount_get_info: "keeps w_refcount (zuc_get_info P rb i)"
  unfolding zuc_get_info_def zuc_int_aes_implementation_def by (intro refcount_rules)

end
