(* ===== verification/Function_Table.thy ===== *)
theory Function_Table
  imports Refcount
begin

text \<open>
  The function table that other R packages call the adapter through: \<^verbatim>\<open>zucrypt_api_v1\<close>,
  \<^verbatim>\<open>ZUCRYPT_API_HAS\<close> and the consumer's \<^verbatim>\<open>zucrypt_api\<close> of \<^verbatim>\<open>src/inst/include/zucrypt-r.h\<close>, and
  \<^verbatim>\<open>src/src/zucrypt_api.c\<close>, which fills the table and publishes it.

  A field of the table is \<open>None\<close> when its pointer is NULL. An entry is called with the adapter's
  parameters, so \<open>P\<close>, \<open>rs\<close> and \<open>words\<close> are the backend, the random source and the comparison the
  provider was built with. A process holds the provider's world and static variables, R's
  registries of native routines and of C-callables, and the consumer's cached pointer.
\<close>

section \<open>The table\<close>

record ('b, 'o) zucrypt_api_v1 =
  abi_version :: "32 word"
  struct_size :: "32 word"
  api_status_string :: "(int \<Rightarrow> string) option"
  api_status_name :: "(int \<Rightarrow> string) option"
  api_alg_name :: "(zuc_alg \<Rightarrow> string option) option"
  api_alg_by_name :: "(string option \<Rightarrow> zuc_alg) option"
  api_alg_available :: "(zuc_alg \<Rightarrow> bool) option"
  api_alg_size :: "(zuc_alg \<Rightarrow> size_t) option"
  api_get_info :: "(zuc_info option \<Rightarrow> ('b, 'o, zuc_status \<times> zuc_info option) zuc) option"
  api_hash_compute :: "(zuc_alg \<Rightarrow> ptr \<Rightarrow> size_t \<Rightarrow> ptr \<Rightarrow> size_t \<Rightarrow> ptr \<Rightarrow> ('b, 'o, zuc_status) zuc) option"
  api_hash_new :: "(zuc_alg \<Rightarrow> ptr \<Rightarrow> ('b, 'o, zuc_status) zuc) option"
  api_hash_update :: "(ptr \<Rightarrow> ptr \<Rightarrow> size_t \<Rightarrow> ('b, 'o, zuc_status) zuc) option"
  api_hash_finish :: "(ptr \<Rightarrow> ptr \<Rightarrow> size_t \<Rightarrow> ptr \<Rightarrow> ('b, 'o, zuc_status) zuc) option"
  api_hash_reset :: "(ptr \<Rightarrow> ('b, 'o, zuc_status) zuc) option"
  api_hash_free :: "(ptr \<Rightarrow> ('b, 'o, unit) zuc) option"
  api_hmac_compute :: "(zuc_alg \<Rightarrow> ptr \<Rightarrow> size_t \<Rightarrow> ptr \<Rightarrow> size_t \<Rightarrow> ptr \<Rightarrow> size_t \<Rightarrow> ptr \<Rightarrow> ('b, 'o, zuc_status) zuc) option"
  api_hmac_new :: "(zuc_alg \<Rightarrow> ptr \<Rightarrow> size_t \<Rightarrow> ptr \<Rightarrow> ('b, 'o, zuc_status) zuc) option"
  api_hmac_update :: "(ptr \<Rightarrow> ptr \<Rightarrow> size_t \<Rightarrow> ('b, 'o, zuc_status) zuc) option"
  api_hmac_finish :: "(ptr \<Rightarrow> ptr \<Rightarrow> size_t \<Rightarrow> ptr \<Rightarrow> ('b, 'o, zuc_status) zuc) option"
  api_hmac_reset :: "(ptr \<Rightarrow> ('b, 'o, zuc_status) zuc) option"
  api_hmac_free :: "(ptr \<Rightarrow> ('b, 'o, unit) zuc) option"
  api_aes_new :: "(ptr \<Rightarrow> size_t \<Rightarrow> ptr \<Rightarrow> ('b, 'o, zuc_status) zuc) option"
  api_aes_free :: "(ptr \<Rightarrow> ('b, 'o, unit) zuc) option"
  api_aes_cbc_set_state :: "(ptr \<Rightarrow> ptr \<Rightarrow> ('b, 'o, zuc_status) zuc) option"
  api_aes_cbc_get_state :: "(ptr \<Rightarrow> ptr \<Rightarrow> ('b, 'o, zuc_status) zuc) option"
  api_aes_cbc_encrypt :: "(ptr \<Rightarrow> ptr \<Rightarrow> size_t \<Rightarrow> ptr \<Rightarrow> ('b, 'o, zuc_status) zuc) option"
  api_aes_cbc_decrypt :: "(ptr \<Rightarrow> ptr \<Rightarrow> size_t \<Rightarrow> ptr \<Rightarrow> ('b, 'o, zuc_status) zuc) option"
  api_equal :: "(ptr \<Rightarrow> ptr \<Rightarrow> size_t \<Rightarrow> ('b, 'o, bool) zuc) option"
  api_secure_zero :: "(ptr \<Rightarrow> size_t \<Rightarrow> ('b, 'o, unit) zuc) option"
  api_random_bytes :: "(ptr \<Rightarrow> size_t \<Rightarrow> ('b, 'o, zuc_status option) zuc) option"
  api_aead_encrypt :: "(zuc_alg \<Rightarrow> ptr \<Rightarrow> size_t \<Rightarrow> ptr \<Rightarrow> size_t \<Rightarrow> ptr \<Rightarrow> size_t \<Rightarrow> ptr \<Rightarrow> size_t \<Rightarrow> ptr \<Rightarrow> ptr \<Rightarrow> size_t \<Rightarrow> ('b, 'o, zuc_status) zuc) option"
  api_aead_decrypt :: "(zuc_alg \<Rightarrow> ptr \<Rightarrow> size_t \<Rightarrow> ptr \<Rightarrow> size_t \<Rightarrow> ptr \<Rightarrow> size_t \<Rightarrow> ptr \<Rightarrow> size_t \<Rightarrow> ptr \<Rightarrow> size_t \<Rightarrow> ptr \<Rightarrow> ('b, 'o, zuc_status) zuc) option"
  api_pbkdf2_hmac :: "(zuc_alg \<Rightarrow> ptr \<Rightarrow> size_t \<Rightarrow> ptr \<Rightarrow> size_t \<Rightarrow> 32 word \<Rightarrow> ptr \<Rightarrow> size_t \<Rightarrow> ('b, 'o, zuc_status) zuc) option"
  api_pkey_parse :: "(ptr \<Rightarrow> size_t \<Rightarrow> bool \<Rightarrow> ptr \<Rightarrow> ('b, 'o, zuc_status) zuc) option"
  api_pkey_generate :: "(zuc_alg \<Rightarrow> size_t \<Rightarrow> ptr \<Rightarrow> ('b, 'o, zuc_status) zuc) option"
  api_pkey_public :: "(ptr \<Rightarrow> ptr \<Rightarrow> ('b, 'o, zuc_status) zuc) option"
  api_pkey_free :: "(ptr \<Rightarrow> ('b, 'o, unit) zuc) option"
  api_pkey_type :: "(ptr \<Rightarrow> ('b, 'o, zuc_alg) zuc) option"
  api_pkey_bits :: "(ptr \<Rightarrow> ('b, 'o, size_t) zuc) option"
  api_pkey_is_private :: "(ptr \<Rightarrow> ('b, 'o, bool) zuc) option"
  api_pkey_write :: "(ptr \<Rightarrow> zuc_pkey_format \<Rightarrow> bool \<Rightarrow> ptr \<Rightarrow> size_t \<Rightarrow> ptr \<Rightarrow> ('b, 'o, zuc_status) zuc) option"
  api_pkey_sign_hash :: "(ptr \<Rightarrow> zuc_alg \<Rightarrow> zuc_alg \<Rightarrow> ptr \<Rightarrow> size_t \<Rightarrow> ptr \<Rightarrow> size_t \<Rightarrow> ptr \<Rightarrow> ('b, 'o, zuc_status) zuc) option"
  api_pkey_verify_hash :: "(ptr \<Rightarrow> zuc_alg \<Rightarrow> zuc_alg \<Rightarrow> ptr \<Rightarrow> size_t \<Rightarrow> ptr \<Rightarrow> size_t \<Rightarrow> ('b, 'o, zuc_status) zuc) option"
  api_pkey_encrypt :: "(ptr \<Rightarrow> zuc_alg \<Rightarrow> zuc_alg \<Rightarrow> ptr \<Rightarrow> size_t \<Rightarrow> ptr \<Rightarrow> size_t \<Rightarrow> ptr \<Rightarrow> ('b, 'o, zuc_status) zuc) option"
  api_pkey_decrypt :: "(ptr \<Rightarrow> zuc_alg \<Rightarrow> zuc_alg \<Rightarrow> ptr \<Rightarrow> size_t \<Rightarrow> ptr \<Rightarrow> size_t \<Rightarrow> ptr \<Rightarrow> ('b, 'o, zuc_status) zuc) option"
  api_pkey_import :: "(zuc_alg \<Rightarrow> bool \<Rightarrow> ptr \<Rightarrow> size_t \<Rightarrow> ptr \<Rightarrow> ('b, 'o, zuc_status) zuc) option"
  api_pkey_export :: "(ptr \<Rightarrow> bool \<Rightarrow> ptr \<Rightarrow> size_t \<Rightarrow> ptr \<Rightarrow> ('b, 'o, zuc_status) zuc) option"
  api_pkey_agree :: "(ptr \<Rightarrow> ptr \<Rightarrow> ptr \<Rightarrow> size_t \<Rightarrow> ptr \<Rightarrow> ('b, 'o, zuc_status) zuc) option"

text \<open>
  The pointer fields in declaration order. In the LP64 layout two 32-bit numbers precede them and
  every pointer takes eight bytes.
\<close>

definition api_fields :: "string list" where
  "api_fields =
    [''status_string'', ''status_name'', ''alg_name'', ''alg_by_name'', ''alg_available'', ''alg_size'',
     ''get_info'', ''hash_compute'', ''hash_new'', ''hash_update'', ''hash_finish'', ''hash_reset'',
     ''hash_free'', ''hmac_compute'', ''hmac_new'', ''hmac_update'', ''hmac_finish'', ''hmac_reset'',
     ''hmac_free'', ''aes_new'', ''aes_free'', ''aes_cbc_set_state'', ''aes_cbc_get_state'', ''aes_cbc_encrypt'',
     ''aes_cbc_decrypt'', ''equal'', ''secure_zero'', ''random_bytes'', ''aead_encrypt'', ''aead_decrypt'',
     ''pbkdf2_hmac'', ''pkey_parse'', ''pkey_generate'', ''pkey_public'', ''pkey_free'', ''pkey_type'',
     ''pkey_bits'', ''pkey_is_private'', ''pkey_write'', ''pkey_sign_hash'', ''pkey_verify_hash'', ''pkey_encrypt'',
     ''pkey_decrypt'', ''pkey_import'', ''pkey_export'', ''pkey_agree'']"

definition sizeof_api :: nat where
  "sizeof_api = 8 + 8 * length api_fields"

definition offsetof_api :: "nat \<Rightarrow> nat" where
  "offsetof_api k = 8 + 8 * k"

text \<open>Static storage before it is filled.\<close>

definition zero_table :: "('b, 'o) zucrypt_api_v1" where
  "zero_table = \<lparr>abi_version = 0, struct_size = 0,
     api_status_string = None, api_status_name = None, api_alg_name = None, api_alg_by_name = None,
     api_alg_available = None, api_alg_size = None, api_get_info = None, api_hash_compute = None,
     api_hash_new = None, api_hash_update = None, api_hash_finish = None, api_hash_reset = None,
     api_hash_free = None, api_hmac_compute = None, api_hmac_new = None, api_hmac_update = None,
     api_hmac_finish = None, api_hmac_reset = None, api_hmac_free = None, api_aes_new = None,
     api_aes_free = None, api_aes_cbc_set_state = None, api_aes_cbc_get_state = None, api_aes_cbc_encrypt = None,
     api_aes_cbc_decrypt = None, api_equal = None, api_secure_zero = None, api_random_bytes = None,
     api_aead_encrypt = None, api_aead_decrypt = None, api_pbkdf2_hmac = None, api_pkey_parse = None,
     api_pkey_generate = None, api_pkey_public = None, api_pkey_free = None, api_pkey_type = None,
     api_pkey_bits = None, api_pkey_is_private = None, api_pkey_write = None, api_pkey_sign_hash = None,
     api_pkey_verify_hash = None, api_pkey_encrypt = None, api_pkey_decrypt = None, api_pkey_import = None,
     api_pkey_export = None, api_pkey_agree = None\<rparr>"

text \<open>The assignments of \<^verbatim>\<open>fill_api\<close> to the static table.\<close>

definition fill_table ::
  "('b, 'o) psa \<Rightarrow> random_source \<Rightarrow> bool \<Rightarrow> ('b, 'o) zucrypt_api_v1 \<Rightarrow> ('b, 'o) zucrypt_api_v1" where
  "fill_table P rs words api = api\<lparr>
     abi_version := ZUCRYPT_ABI_VERSION,
     struct_size := of_nat sizeof_api,
     api_status_string := Some zuc_status_string,
     api_status_name := Some zuc_status_name,
     api_alg_name := Some zuc_alg_name,
     api_alg_by_name := Some zuc_alg_by_name,
     api_alg_available := Some zuc_alg_available,
     api_alg_size := Some zuc_alg_size,
     api_get_info := Some (zuc_get_info P (zuc_int_random_backend rs)),
     api_hash_compute := Some (zuc_hash_compute P),
     api_hash_new := Some (zuc_hash_new P),
     api_hash_update := Some (zuc_hash_update P),
     api_hash_finish := Some (zuc_hash_finish P),
     api_hash_reset := Some (zuc_hash_reset P),
     api_hash_free := Some (zuc_hash_free P),
     api_hmac_compute := Some (zuc_hmac_compute P),
     api_hmac_new := Some (zuc_hmac_new P),
     api_hmac_update := Some (zuc_hmac_update P),
     api_hmac_finish := Some (zuc_hmac_finish P),
     api_hmac_reset := Some (zuc_hmac_reset P),
     api_hmac_free := Some (zuc_hmac_free P),
     api_aes_new := Some (zuc_aes_new P),
     api_aes_free := Some (zuc_aes_free P),
     api_aes_cbc_set_state := Some zuc_aes_cbc_set_state,
     api_aes_cbc_get_state := Some zuc_aes_cbc_get_state,
     api_aes_cbc_encrypt := Some (zuc_aes_cbc_encrypt P),
     api_aes_cbc_decrypt := Some (zuc_aes_cbc_decrypt P),
     api_equal := Some (\<lambda>a b n. gets (\<lambda>w. zuc_equal words (w_mem w) a b n)),
     api_secure_zero := Some zuc_secure_zero,
     api_random_bytes := Some (zuc_random_bytes rs),
     api_aead_encrypt := Some (zuc_aead_encrypt P),
     api_aead_decrypt := Some (zuc_aead_decrypt P),
     api_pbkdf2_hmac := Some (zuc_pbkdf2_hmac P),
     api_pkey_parse := Some (zuc_pkey_parse P),
     api_pkey_generate := Some (zuc_pkey_generate P),
     api_pkey_public := Some (zuc_pkey_public P),
     api_pkey_free := Some zuc_pkey_free,
     api_pkey_type := Some zuc_pkey_type,
     api_pkey_bits := Some zuc_pkey_bits,
     api_pkey_is_private := Some zuc_pkey_is_private,
     api_pkey_write := Some (zuc_pkey_write P),
     api_pkey_sign_hash := Some (zuc_pkey_sign_hash P),
     api_pkey_verify_hash := Some (zuc_pkey_verify_hash P),
     api_pkey_encrypt := Some (zuc_pkey_encrypt P),
     api_pkey_decrypt := Some (zuc_pkey_decrypt P),
     api_pkey_import := Some (zuc_pkey_import P),
     api_pkey_export := Some (zuc_pkey_export P),
     api_pkey_agree := Some (zuc_pkey_agree P)\<rparr>"

text \<open>Which pointers are set, in declaration order.\<close>

definition api_slots :: "('b, 'o) zucrypt_api_v1 \<Rightarrow> bool list" where
  "api_slots api =
    [api_status_string api \<noteq> None, api_status_name api \<noteq> None, api_alg_name api \<noteq> None,
     api_alg_by_name api \<noteq> None, api_alg_available api \<noteq> None, api_alg_size api \<noteq> None,
     api_get_info api \<noteq> None, api_hash_compute api \<noteq> None, api_hash_new api \<noteq> None,
     api_hash_update api \<noteq> None, api_hash_finish api \<noteq> None, api_hash_reset api \<noteq> None,
     api_hash_free api \<noteq> None, api_hmac_compute api \<noteq> None, api_hmac_new api \<noteq> None,
     api_hmac_update api \<noteq> None, api_hmac_finish api \<noteq> None, api_hmac_reset api \<noteq> None,
     api_hmac_free api \<noteq> None, api_aes_new api \<noteq> None, api_aes_free api \<noteq> None,
     api_aes_cbc_set_state api \<noteq> None, api_aes_cbc_get_state api \<noteq> None, api_aes_cbc_encrypt api \<noteq> None,
     api_aes_cbc_decrypt api \<noteq> None, api_equal api \<noteq> None, api_secure_zero api \<noteq> None,
     api_random_bytes api \<noteq> None, api_aead_encrypt api \<noteq> None, api_aead_decrypt api \<noteq> None,
     api_pbkdf2_hmac api \<noteq> None, api_pkey_parse api \<noteq> None, api_pkey_generate api \<noteq> None,
     api_pkey_public api \<noteq> None, api_pkey_free api \<noteq> None, api_pkey_type api \<noteq> None,
     api_pkey_bits api \<noteq> None, api_pkey_is_private api \<noteq> None, api_pkey_write api \<noteq> None,
     api_pkey_sign_hash api \<noteq> None, api_pkey_verify_hash api \<noteq> None, api_pkey_encrypt api \<noteq> None,
     api_pkey_decrypt api \<noteq> None, api_pkey_import api \<noteq> None, api_pkey_export api \<noteq> None,
     api_pkey_agree api \<noteq> None]"

section \<open>Publishing and resolving it\<close>

datatype api_ref = API_NULL | API_STATIC

datatype dl_func = Zucrypt_get_api

text \<open>An entry of a registration table; the entry whose name is NULL ends the table.\<close>

record R_CallMethodDef =
  cm_name :: "string option"
  cm_fun :: "string option"
  cm_numArgs :: int

record ('b, 'o) process =
  d_world :: "('b, 'o) world"
  d_api :: "('b, 'o) zucrypt_api_v1"
  d_api_ready :: bool
  d_routines :: "R_CallMethodDef list"
  d_callables :: "string \<times> string \<rightharpoonup> dl_func"
  d_cached :: api_ref

type_synonym ('b, 'o, 'a) proc = "(('b, 'o) process, 'a) state"

definition fill_api :: "('b, 'o) psa \<Rightarrow> random_source \<Rightarrow> bool \<Rightarrow> ('b, 'o, unit) proc" where
  "fill_api P rs words = do {
     modify (\<lambda>d. d\<lparr>d_api := fill_table P rs words (d_api d)\<rparr>);
     modify (\<lambda>d. d\<lparr>d_api_ready := True\<rparr>)
   }"

definition zucrypt_get_api ::
  "('b, 'o) psa \<Rightarrow> random_source \<Rightarrow> bool \<Rightarrow> 32 word \<Rightarrow> ('b, 'o, api_ref) proc" where
  "zucrypt_get_api P rs words requested =
    (if requested \<noteq> ZUCRYPT_ABI_VERSION then ret API_NULL
     else do {
       ready \<leftarrow> gets d_api_ready;
       (if \<not> ready then fill_api P rs words else ret ());
       ret API_STATIC
     })"

definition zucrypt_register_api :: "('b, 'o, unit) proc" where
  "zucrypt_register_api =
    modify (\<lambda>d. d\<lparr>d_callables := (d_callables d)((''zucrypt'', ''zucrypt_get_api'') \<mapsto> Zucrypt_get_api)\<rparr>)"

text \<open>The consumer's side: \<^verbatim>\<open>R_GetCCallable\<close> raises an R error for a name that is not registered.\<close>

definition zucrypt_api ::
  "('b, 'o) psa \<Rightarrow> random_source \<Rightarrow> bool \<Rightarrow> ('b, 'o, api_ref outcome) proc" where
  "zucrypt_api P rs words = do {
     cached \<leftarrow> gets d_cached;
     if cached = API_NULL then do {
       fn \<leftarrow> gets (\<lambda>d. d_callables d (''zucrypt'', ''zucrypt_get_api''));
       case fn of
         None \<Rightarrow> ret Longjmp
       | Some Zucrypt_get_api \<Rightarrow> do {
           cached \<leftarrow> zucrypt_get_api P rs words ZUCRYPT_ABI_VERSION;
           modify (\<lambda>d. d\<lparr>d_cached := cached\<rparr>);
           ret (Returned cached)
         }
     }
     else ret (Returned cached)
   }"

definition ZUCRYPT_API_HAS :: "('b, 'o) zucrypt_api_v1 option \<Rightarrow> nat \<Rightarrow> bool" where
  "ZUCRYPT_API_HAS api field =
    (case api of None \<Rightarrow> False | Some t \<Rightarrow> unat (struct_size t) \<ge> offsetof_api field + 8)"

text \<open>
  A call of a consumer through a pointer of the table. The six entries that only look up constants
  do not touch the world.
\<close>

inductive table_call :: "('b, 'o) zucrypt_api_v1 \<Rightarrow> ('b, 'o) world \<Rightarrow> ('b, 'o) world \<Rightarrow> bool" for api where
  get_info: "api_get_info api = Some fn \<Longrightarrow> run_state (fn a) w = (r, w') \<Longrightarrow> table_call api w w'"
| hash_compute: "api_hash_compute api = Some fn \<Longrightarrow> run_state (fn a b c d e f) w = (r, w') \<Longrightarrow> table_call api w w'"
| hash_new: "api_hash_new api = Some fn \<Longrightarrow> run_state (fn a b) w = (r, w') \<Longrightarrow> table_call api w w'"
| hash_update: "api_hash_update api = Some fn \<Longrightarrow> run_state (fn a b c) w = (r, w') \<Longrightarrow> table_call api w w'"
| hash_finish: "api_hash_finish api = Some fn \<Longrightarrow> run_state (fn a b c d) w = (r, w') \<Longrightarrow> table_call api w w'"
| hash_reset: "api_hash_reset api = Some fn \<Longrightarrow> run_state (fn a) w = (r, w') \<Longrightarrow> table_call api w w'"
| hash_free: "api_hash_free api = Some fn \<Longrightarrow> run_state (fn a) w = (r, w') \<Longrightarrow> table_call api w w'"
| hmac_compute: "api_hmac_compute api = Some fn \<Longrightarrow> run_state (fn a b c d e f g h) w = (r, w') \<Longrightarrow> table_call api w w'"
| hmac_new: "api_hmac_new api = Some fn \<Longrightarrow> run_state (fn a b c d) w = (r, w') \<Longrightarrow> table_call api w w'"
| hmac_update: "api_hmac_update api = Some fn \<Longrightarrow> run_state (fn a b c) w = (r, w') \<Longrightarrow> table_call api w w'"
| hmac_finish: "api_hmac_finish api = Some fn \<Longrightarrow> run_state (fn a b c d) w = (r, w') \<Longrightarrow> table_call api w w'"
| hmac_reset: "api_hmac_reset api = Some fn \<Longrightarrow> run_state (fn a) w = (r, w') \<Longrightarrow> table_call api w w'"
| hmac_free: "api_hmac_free api = Some fn \<Longrightarrow> run_state (fn a) w = (r, w') \<Longrightarrow> table_call api w w'"
| aes_new: "api_aes_new api = Some fn \<Longrightarrow> run_state (fn a b c) w = (r, w') \<Longrightarrow> table_call api w w'"
| aes_free: "api_aes_free api = Some fn \<Longrightarrow> run_state (fn a) w = (r, w') \<Longrightarrow> table_call api w w'"
| aes_cbc_set_state: "api_aes_cbc_set_state api = Some fn \<Longrightarrow> run_state (fn a b) w = (r, w') \<Longrightarrow> table_call api w w'"
| aes_cbc_get_state: "api_aes_cbc_get_state api = Some fn \<Longrightarrow> run_state (fn a b) w = (r, w') \<Longrightarrow> table_call api w w'"
| aes_cbc_encrypt: "api_aes_cbc_encrypt api = Some fn \<Longrightarrow> run_state (fn a b c d) w = (r, w') \<Longrightarrow> table_call api w w'"
| aes_cbc_decrypt: "api_aes_cbc_decrypt api = Some fn \<Longrightarrow> run_state (fn a b c d) w = (r, w') \<Longrightarrow> table_call api w w'"
| equal: "api_equal api = Some fn \<Longrightarrow> run_state (fn a b c) w = (r, w') \<Longrightarrow> table_call api w w'"
| secure_zero: "api_secure_zero api = Some fn \<Longrightarrow> run_state (fn a b) w = (r, w') \<Longrightarrow> table_call api w w'"
| random_bytes: "api_random_bytes api = Some fn \<Longrightarrow> run_state (fn a b) w = (r, w') \<Longrightarrow> table_call api w w'"
| aead_encrypt: "api_aead_encrypt api = Some fn \<Longrightarrow> run_state (fn a b c d e f g h i j k l) w = (r, w') \<Longrightarrow> table_call api w w'"
| aead_decrypt: "api_aead_decrypt api = Some fn \<Longrightarrow> run_state (fn a b c d e f g h i j k l) w = (r, w') \<Longrightarrow> table_call api w w'"
| pbkdf2_hmac: "api_pbkdf2_hmac api = Some fn \<Longrightarrow> run_state (fn a b c d e f g h) w = (r, w') \<Longrightarrow> table_call api w w'"
| pkey_parse: "api_pkey_parse api = Some fn \<Longrightarrow> run_state (fn a b c d) w = (r, w') \<Longrightarrow> table_call api w w'"
| pkey_generate: "api_pkey_generate api = Some fn \<Longrightarrow> run_state (fn a b c) w = (r, w') \<Longrightarrow> table_call api w w'"
| pkey_public: "api_pkey_public api = Some fn \<Longrightarrow> run_state (fn a b) w = (r, w') \<Longrightarrow> table_call api w w'"
| pkey_free: "api_pkey_free api = Some fn \<Longrightarrow> run_state (fn a) w = (r, w') \<Longrightarrow> table_call api w w'"
| pkey_type: "api_pkey_type api = Some fn \<Longrightarrow> run_state (fn a) w = (r, w') \<Longrightarrow> table_call api w w'"
| pkey_bits: "api_pkey_bits api = Some fn \<Longrightarrow> run_state (fn a) w = (r, w') \<Longrightarrow> table_call api w w'"
| pkey_is_private: "api_pkey_is_private api = Some fn \<Longrightarrow> run_state (fn a) w = (r, w') \<Longrightarrow> table_call api w w'"
| pkey_write: "api_pkey_write api = Some fn \<Longrightarrow> run_state (fn a b c d e f) w = (r, w') \<Longrightarrow> table_call api w w'"
| pkey_sign_hash: "api_pkey_sign_hash api = Some fn \<Longrightarrow> run_state (fn a b c d e f g h) w = (r, w') \<Longrightarrow> table_call api w w'"
| pkey_verify_hash: "api_pkey_verify_hash api = Some fn \<Longrightarrow> run_state (fn a b c d e f g) w = (r, w') \<Longrightarrow> table_call api w w'"
| pkey_encrypt: "api_pkey_encrypt api = Some fn \<Longrightarrow> run_state (fn a b c d e f g h) w = (r, w') \<Longrightarrow> table_call api w w'"
| pkey_decrypt: "api_pkey_decrypt api = Some fn \<Longrightarrow> run_state (fn a b c d e f g h) w = (r, w') \<Longrightarrow> table_call api w w'"
| pkey_import: "api_pkey_import api = Some fn \<Longrightarrow> run_state (fn a b c d e) w = (r, w') \<Longrightarrow> table_call api w w'"
| pkey_export: "api_pkey_export api = Some fn \<Longrightarrow> run_state (fn a b c d e) w = (r, w') \<Longrightarrow> table_call api w w'"
| pkey_agree: "api_pkey_agree api = Some fn \<Longrightarrow> run_state (fn a b c d e) w = (r, w') \<Longrightarrow> table_call api w w'"

section \<open>Lemmas\<close>

lemma length_api_slots: "length (api_slots api) = length api_fields"
  by (simp add: api_slots_def api_fields_def)

lemma fill_table_slots: "list_all id (api_slots (fill_table P rs words api))"
  by (simp add: api_slots_def fill_table_def)

lemma fill_table_head:
  "abi_version (fill_table P rs words api) = ZUCRYPT_ABI_VERSION"
  "unat (struct_size (fill_table P rs words api)) = sizeof_api"
  by (simp_all add: fill_table_def sizeof_api_def api_fields_def)

text \<open>A provider whose table ends after \<open>k\<close> pointers is credited with exactly those.\<close>

lemma api_has_iff:
  assumes "unat (struct_size t) = 8 + 8 * k"
  shows "ZUCRYPT_API_HAS (Some t) field \<longleftrightarrow> field < k"
  using assms by (simp add: ZUCRYPT_API_HAS_def offsetof_api_def) arith

text \<open>None of the entries changes the reference count: init and shutdown are not in the table.\<close>

lemmas refcount_calls = refcount_hash refcount_hmac refcount_aes refcount_aead refcount_random refcount_pkey
  refcount_pkey_use refcount_handles refcount_get_info refcount_struct(13) keeps_gets

lemma table_call_refcount:
  assumes "table_call (fill_table P rs words api) w w'"
  shows "w_refcount w' = w_refcount w"
  using assms by cases (simp_all add: fill_table_def, (blast intro: refcount_calls [THEN keepsD])+)

lemma get_api_refcount:
  "d_world (snd (run_state (zucrypt_get_api P rs words requested) d)) = d_world d"
  by (simp add: zucrypt_get_api_def fill_api_def)

end
