(* ===== verification/R_Package.thy ===== *)
theory R_Package
  imports Function_Table
begin

text \<open>
  \<^verbatim>\<open>src/src/zucrypt_r.c\<close>: what runs when R loads the package, and the two introspection calls. The
  registration tables are those of \<^verbatim>\<open>zucrypt_r.c\<close>, \<^verbatim>\<open>zucrypt_crypt.c\<close> and \<^verbatim>\<open>zucrypt_test.c\<close>.

  \<open>running\<close> are the states a process can get into by loads, successful or not, resolutions of the
  function table by a consumer, requests for any version of it, calls through a resolved table, calls
  of the same functions by the package's own entry points, and whatever the process does to its own
  memory in between. Not among them: what the routine \<^verbatim>\<open>zucrypt_test_not_ready\<close> of the harness
  \<^verbatim>\<open>zucrypt_test.c\<close> does, which stops the backend and starts it again and is for tests only.
\<close>

section \<open>Introspection\<close>

text \<open>
  The local \<^verbatim>\<open>zuc_info\<close> is uninitialised apart from its size: \<open>info\<close> is what was on the stack.
\<close>

definition zucrypt_backend_info ::
  "('b, 'o) psa \<Rightarrow> random_source \<Rightarrow> zuc_info \<Rightarrow> ('b, 'o, sexp outcome) rc" where
  "zucrypt_backend_info P rs info = do {
     (st, info) \<leftarrow> native (zuc_get_info P (zuc_int_random_backend rs) (Some (info\<lparr>i_struct_size := 48\<rparr>)));
     if st \<noteq> ZUC_OK then ret Longjmp
     else case info of
       None \<Rightarrow> ret Longjmp
     | Some i \<Rightarrow> r_alloc (\<lambda>_. ret (Returned (VECSXP
         [(''backend_name'', STRSXP [i_backend_name i]),
          (''backend_version'', STRSXP [i_backend_version i]),
          (''random_backend'', STRSXP [i_random_backend i]),
          (''abi_version'', INTSXP [sint (i_abi_version i)]),
          (''hardware_acceleration'', LGLSXP (i_hardware_acceleration i)),
          (''aes_implementation'', STRSXP [i_aes_implementation i])])))
   }"

text \<open>A named integer vector is written as the list of its names and elements.\<close>

definition all_statuses :: "zuc_status list" where
  "all_statuses =
    [ZUC_OK, ZUC_ERR_INVALID_ARGUMENT, ZUC_ERR_UNSUPPORTED,
     ZUC_ERR_BAD_LENGTH, ZUC_ERR_OVERLAP, ZUC_ERR_MEMORY,
     ZUC_ERR_BACKEND, ZUC_ERR_ABI, ZUC_ERR_INTERNAL, ZUC_ERR_NOT_READY,
     ZUC_ERR_ENTROPY, ZUC_ERR_AUTH]"

definition zucrypt_status_codes :: "('b, 'o, sexp outcome) rc" where
  "zucrypt_status_codes = r_alloc (\<lambda>_. ret (Returned (VECSXP
     (map (\<lambda>st. (zuc_status_name (zuc_status_code st), INTSXP [zuc_status_code st])) all_statuses))))"

section \<open>Registration\<close>

definition call_def :: "string \<Rightarrow> string \<Rightarrow> int \<Rightarrow> R_CallMethodDef" where
  "call_def name fn n = \<lparr>cm_name = Some name, cm_fun = Some fn, cm_numArgs = n\<rparr>"

definition null_def :: R_CallMethodDef where
  "null_def = \<lparr>cm_name = None, cm_fun = None, cm_numArgs = 0\<rparr>"

definition call_methods :: "R_CallMethodDef list" where
  "call_methods =
    [call_def ''zucrypt_backend_info'' ''zucrypt_backend_info'' 0,
     call_def ''zucrypt_status_codes'' ''zucrypt_status_codes'' 0,
     null_def]"

definition zucrypt_crypt_call_methods :: "R_CallMethodDef list" where
  "zucrypt_crypt_call_methods =
    [call_def ''zucrypt_hash'' ''zucrypt_hash'' 2,
     call_def ''zucrypt_hmac'' ''zucrypt_hmac'' 3,
     call_def ''zucrypt_aes_cbc'' ''zucrypt_aes_cbc'' 4,
     call_def ''zucrypt_equal'' ''zucrypt_equal'' 2,
     call_def ''zucrypt_hex'' ''zucrypt_hex'' 1,
     call_def ''zucrypt_hash_stream_new'' ''zucrypt_hash_stream_new'' 1,
     call_def ''zucrypt_hmac_stream_new'' ''zucrypt_hmac_stream_new'' 2,
     call_def ''zucrypt_stream_update'' ''zucrypt_stream_update'' 2,
     call_def ''zucrypt_stream_finish'' ''zucrypt_stream_finish'' 1,
     call_def ''zucrypt_algorithms'' ''zucrypt_algorithms'' 0,
     call_def ''zucrypt_rand_bytes'' ''zucrypt_rand_bytes'' 1,
     call_def ''zucrypt_aes_gcm'' ''zucrypt_aes_gcm'' 6,
     call_def ''zucrypt_pbkdf2'' ''zucrypt_pbkdf2'' 5,
     call_def ''zucrypt_pkey_parse'' ''zucrypt_pkey_parse'' 2,
     call_def ''zucrypt_pkey_generate'' ''zucrypt_pkey_generate'' 2,
     call_def ''zucrypt_pkey_import'' ''zucrypt_pkey_import'' 3,
     call_def ''zucrypt_pkey_export'' ''zucrypt_pkey_export'' 2,
     call_def ''zucrypt_pkey_agree'' ''zucrypt_pkey_agree'' 2,
     call_def ''zucrypt_pkey_public'' ''zucrypt_pkey_public'' 1,
     call_def ''zucrypt_pkey_info'' ''zucrypt_pkey_info'' 1,
     call_def ''zucrypt_pkey_write'' ''zucrypt_pkey_write'' 3,
     call_def ''zucrypt_pkey_sign'' ''zucrypt_pkey_sign'' 4,
     call_def ''zucrypt_pkey_verify'' ''zucrypt_pkey_verify'' 5,
     call_def ''zucrypt_pkey_crypt'' ''zucrypt_pkey_crypt'' 5,
     null_def]"

definition zucrypt_test_call_methods :: "R_CallMethodDef list" where
  "zucrypt_test_call_methods =
    [call_def ''zucrypt_test_hash'' ''zucrypt_test_hash'' 3,
     call_def ''zucrypt_test_hmac'' ''zucrypt_test_hmac'' 4,
     call_def ''zucrypt_test_hash_reset'' ''zucrypt_test_hash_reset'' 3,
     call_def ''zucrypt_test_hmac_reset'' ''zucrypt_test_hmac_reset'' 4,
     call_def ''zucrypt_test_aes'' ''zucrypt_test_aes'' 7,
     call_def ''zucrypt_test_aes_inplace'' ''zucrypt_test_aes_inplace'' 4,
     call_def ''zucrypt_test_aes_overlap'' ''zucrypt_test_aes_overlap'' 4,
     call_def ''zucrypt_test_equal'' ''zucrypt_test_equal'' 2,
     call_def ''zucrypt_test_algs'' ''zucrypt_test_algs'' 0,
     call_def ''zucrypt_test_status'' ''zucrypt_test_status'' 1,
     call_def ''zucrypt_test_info_size'' ''zucrypt_test_info_size'' 1,
     call_def ''zucrypt_test_required_sizes'' ''zucrypt_test_required_sizes'' 0,
     call_def ''zucrypt_test_not_ready'' ''zucrypt_test_not_ready'' 0,
     call_def ''zucrypt_test_live_handles'' ''zucrypt_test_live_handles'' 1,
     call_def ''zucrypt_test_live_contexts'' ''zucrypt_test_live_contexts'' 0,
     call_def ''zucrypt_test_null_buffers'' ''zucrypt_test_null_buffers'' 0,
     call_def ''zucrypt_test_random_contract'' ''zucrypt_test_random_contract'' 0,
     call_def ''zucrypt_test_random_fail'' ''zucrypt_test_random_fail'' 1,
     call_def ''zucrypt_test_aead_contract'' ''zucrypt_test_aead_contract'' 0,
     call_def ''zucrypt_test_pkey_contract'' ''zucrypt_test_pkey_contract'' 1,
     call_def ''zucrypt_test_ec_contract'' ''zucrypt_test_ec_contract'' 0,
     null_def]"

text \<open>A walk over a table stops at the first entry without a name.\<close>

definition until_null :: "R_CallMethodDef list \<Rightarrow> R_CallMethodDef list" where
  "until_null = takeWhile (\<lambda>m. cm_name m \<noteq> None)"

definition on_world :: "('b, 'o, 'a) zuc \<Rightarrow> ('b, 'o, 'a) proc" where
  "on_world m = State (\<lambda>d. case run_state m (d_world d) of (r, w) \<Rightarrow> (r, d\<lparr>d_world := w\<rparr>))"

text \<open>
  The copied entries, and behind them the zeroed entry that ends the array; an entry takes 24 bytes.
  The result is the array's address and its contents.
\<close>

definition all_call_methods :: "('b, 'o, ptr \<times> R_CallMethodDef list) proc" where
  "all_call_methods = do {
     let tables = [call_methods, zucrypt_crypt_call_methods, zucrypt_test_call_methods];
     let total_len = sum_list (map (\<lambda>t. length (until_null t)) tables);
     all \<leftarrow> on_world (malloc_bytes (of_nat (24 * (total_len + 1))));
     if all = NULL then ret (NULL, [])
     else ret (all, concat (map until_null tables) @ [null_def])
   }"

definition R_init_zucrypt :: "('b, 'o) psa \<Rightarrow> ('b, 'o, unit outcome) proc" where
  "R_init_zucrypt P = do {
     (p, methods) \<leftarrow> all_call_methods;
     if p = NULL then ret Longjmp
     else do {
       modify (\<lambda>d. d\<lparr>d_routines := until_null methods\<rparr>);
       on_world (free_bytes p);
       st \<leftarrow> on_world (zuc_init P);
       if st \<noteq> ZUC_OK then ret Longjmp
       else do { zucrypt_register_api; ret (Returned ()) }
     }
   }"

section \<open>Reachable states\<close>

inductive running :: "('b, 'o) psa \<Rightarrow> random_source \<Rightarrow> bool \<Rightarrow> ('b, 'o) process \<Rightarrow> bool" for P rs words where
  start: "w_refcount (d_world d) = 0 \<Longrightarrow> d_api d = zero_table \<Longrightarrow> \<not> d_api_ready d \<Longrightarrow>
    d_callables d = Map.empty \<Longrightarrow> d_cached d = API_NULL \<Longrightarrow> running P rs words d"
| load: "running P rs words d \<Longrightarrow> run_state (R_init_zucrypt P) d = (r, d') \<Longrightarrow> running P rs words d'"
| resolve: "running P rs words d \<Longrightarrow> run_state (zucrypt_api P rs words) d = (r, d') \<Longrightarrow> running P rs words d'"
| request: "running P rs words d \<Longrightarrow> run_state (zucrypt_get_api P rs words v) d = (r, d') \<Longrightarrow> running P rs words d'"
| call: "running P rs words d \<Longrightarrow> d_cached d = API_STATIC \<Longrightarrow> table_call (d_api d) (d_world d) w \<Longrightarrow>
    running P rs words (d\<lparr>d_world := w\<rparr>)"
| own: "running P rs words d \<Longrightarrow> table_call (fill_table P rs words api) (d_world d) w \<Longrightarrow>
    running P rs words (d\<lparr>d_world := w\<rparr>)"
| elsewhere: "running P rs words d \<Longrightarrow>
    running P rs words (d\<lparr>d_world := (d_world d)\<lparr>w_mem := m, w_sizes := ss, w_cells := cs, w_allocs := ps\<rparr>\<rparr>)"

text \<open>What a consumer that holds the table relies on.\<close>

definition usable :: "('b, 'o) process \<Rightarrow> bool" where
  "usable d \<longleftrightarrow> w_refcount (d_world d) > 0 \<and> abi_version (d_api d) = ZUCRYPT_ABI_VERSION \<and>
    (\<forall>k < length api_fields. ZUCRYPT_API_HAS (Some (d_api d)) k \<and> api_slots (d_api d) ! k)"

section \<open>Lemmas\<close>

lemma run_on_world [run_simps]:
  "run_state (on_world m) d = (case run_state m (d_world d) of (r, w) \<Rightarrow> (r, d\<lparr>d_world := w\<rparr>))"
  by (simp add: on_world_def)

definition table_inv :: "('b, 'o) psa \<Rightarrow> random_source \<Rightarrow> bool \<Rightarrow> ('b, 'o) process \<Rightarrow> bool" where
  "table_inv P rs words d \<longleftrightarrow>
    (d_callables d (''zucrypt'', ''zucrypt_get_api'') \<noteq> None \<longrightarrow> w_refcount (d_world d) \<noteq> 0) \<and>
    (d_api_ready d \<longrightarrow> (\<exists>api. d_api d = fill_table P rs words api)) \<and>
    (d_cached d = API_STATIC \<longrightarrow> d_api_ready d \<and> d_callables d (''zucrypt'', ''zucrypt_get_api'') \<noteq> None)"

lemma table_inv_usable:
  assumes "table_inv P rs words d" "d_cached d = API_STATIC"
  shows "usable d"
proof -
  obtain api where api: "d_api d = fill_table P rs words api"
    using assms by (auto simp: table_inv_def)
  have "list_all id (api_slots (d_api d))"
    by (simp add: api fill_table_slots)
  then have "api_slots (d_api d) ! k" if "k < length api_fields" for k
    using that by (simp add: list_all_length length_api_slots)
  moreover have "ZUCRYPT_API_HAS (Some (d_api d)) k \<longleftrightarrow> k < length api_fields" for k
    by (rule api_has_iff) (simp add: api fill_table_head sizeof_api_def)
  ultimately show ?thesis
    using assms by (simp add: usable_def api fill_table_head table_inv_def word_gt_0)
qed

lemma malloc_free_refcount:
  "w_refcount (snd (run_state (malloc_bytes n) w)) = w_refcount w"
  "w_refcount (snd (run_state (free_bytes p) w)) = w_refcount w"
  by (rule keeps_snd, rule refcount_prim)+

lemma load_process:
  assumes "run_state (R_init_zucrypt P) d = (r, d')"
  shows "d_api d' = d_api d" "d_api_ready d' = d_api_ready d" "d_cached d' = d_cached d"
    and "w_refcount (d_world d) \<noteq> 0 \<Longrightarrow> w_refcount (d_world d') \<noteq> 0"
    and "(r = Returned () \<and> w_refcount (d_world d') \<noteq> 0 \<and>
          d_callables d' = (d_callables d)((''zucrypt'', ''zucrypt_get_api'') \<mapsto> Zucrypt_get_api)) \<or>
         (r = Longjmp \<and> d_callables d' = d_callables d)"
proof -
  obtain p methods d1 where m: "run_state all_call_methods d = ((p, methods), d1)"
    by (metis surj_pair)
  then have d1: "d_api d1 = d_api d" "d_api_ready d1 = d_api_ready d" "d_cached d1 = d_cached d"
      "d_callables d1 = d_callables d" "w_refcount (d_world d1) = w_refcount (d_world d)"
    by (auto simp: all_call_methods_def Let_def run_on_world split: prod.splits if_splits
        dest: keepsD [OF refcount_prim(9)])
  obtain u w2 where f: "run_state (free_bytes p) (d_world d1) = (u, w2)"
    by (metis surj_pair)
  then have w2: "w_refcount w2 = w_refcount (d_world d)"
    using malloc_free_refcount(2) [of p "d_world d1"] d1(5) by simp
  obtain st w3 where i: "run_state (zuc_init P) w2 = (st, w3)" by force
  have w3: "st = ZUC_OK \<Longrightarrow> w_refcount w3 \<noteq> 0" "w_refcount w2 \<noteq> 0 \<Longrightarrow> w_refcount w3 \<noteq> 0"
    using zuc_init_refcount [OF i] by (cases "st = ZUC_OK"; auto)+
  note run = assms [unfolded R_init_zucrypt_def]
  show "d_api d' = d_api d" "d_api_ready d' = d_api_ready d" "d_cached d' = d_cached d"
    "w_refcount (d_world d) \<noteq> 0 \<Longrightarrow> w_refcount (d_world d') \<noteq> 0"
    "(r = Returned () \<and> w_refcount (d_world d') \<noteq> 0 \<and>
          d_callables d' = (d_callables d)((''zucrypt'', ''zucrypt_get_api'') \<mapsto> Zucrypt_get_api)) \<or>
         (r = Longjmp \<and> d_callables d' = d_callables d)"
    using run m f i d1 w2 w3 by (auto simp: run_on_world zucrypt_register_api_def split: if_splits)
qed

lemma get_api_process:
  assumes "run_state (zucrypt_get_api P rs words v) d = (r, d')"
  shows "d_world d' = d_world d" "d_callables d' = d_callables d" "d_cached d' = d_cached d"
    and "if v = ZUCRYPT_ABI_VERSION
         then r = API_STATIC \<and> d_api_ready d' \<and> (d_api d' = (if d_api_ready d then d_api d else fill_table P rs words (d_api d)))
         else r = API_NULL \<and> d' = d"
  using assms by (auto simp: zucrypt_get_api_def fill_api_def split: if_splits)

lemma table_inv_get_api:
  assumes "table_inv P rs words d" "run_state (zucrypt_get_api P rs words v) d = (r, d')"
  shows "table_inv P rs words d'"
  using assms(1) get_api_process [OF assms(2)] by (auto simp: table_inv_def split: if_splits)

lemma api_process:
  assumes "run_state (zucrypt_api P rs words) d = (r, d')" "table_inv P rs words d"
  shows "table_inv P rs words d'"
    and "if d_callables d (''zucrypt'', ''zucrypt_get_api'') = None then r = Longjmp \<and> d' = d
         else r = Returned API_STATIC \<and> d_cached d' = API_STATIC"
proof -
  obtain c d1 where g: "run_state (zucrypt_get_api P rs words ZUCRYPT_ABI_VERSION) d = (c, d1)" by force
  have c: "c = API_STATIC" "table_inv P rs words d1" "d_callables d1 = d_callables d" "d_api_ready d1"
    using get_api_process [OF g] table_inv_get_api [OF assms(2) g] by simp_all
  show "table_inv P rs words d'"
    using assms g c by (cases "d_cached d")
      (auto simp: zucrypt_api_def table_inv_def split: option.splits dl_func.splits)
  show "if d_callables d (''zucrypt'', ''zucrypt_get_api'') = None then r = Longjmp \<and> d' = d
         else r = Returned API_STATIC \<and> d_cached d' = API_STATIC"
    using assms g c by (cases "d_cached d")
      (auto simp: zucrypt_api_def table_inv_def split: option.splits dl_func.splits)
qed

lemma running_table_inv: "running P rs words d \<Longrightarrow> table_inv P rs words d"
proof (induction rule: running.induct)
  case (load d r d')
  then show ?case using load_process [OF load(2)] by (auto simp: table_inv_def)
next
  case (resolve d r d')
  then show ?case using api_process by blast
next
  case (request d v r d')
  then show ?case using table_inv_get_api by blast
next
  case (call d w)
  then show ?case using table_call_refcount by (fastforce simp: table_inv_def)
next
  case (own d api w)
  then show ?case using table_call_refcount by (fastforce simp: table_inv_def)
qed (auto simp: table_inv_def)

text \<open>The registered routines: every name once, bound to the function of that name.\<close>

lemma registered_routines:
  assumes "run_state (R_init_zucrypt P) d = (Returned (), d')"
  shows "length (d_routines d') = 47" "distinct (map cm_name (d_routines d'))"
    and "list_all (\<lambda>m. cm_name m \<noteq> None \<and> cm_fun m = cm_name m) (d_routines d')"
proof -
  let ?all = "concat (map until_null [call_methods, zucrypt_crypt_call_methods, zucrypt_test_call_methods]) @ [null_def]"
  have "d_routines d' = until_null ?all"
    using assms
    by (auto simp: R_init_zucrypt_def all_call_methods_def Let_def run_on_world zucrypt_register_api_def
        split: prod.splits if_splits)
  then have d': "d_routines d' = until_null call_methods @ until_null zucrypt_crypt_call_methods @
      until_null zucrypt_test_call_methods"
    by (simp add: until_null_def call_methods_def zucrypt_crypt_call_methods_def zucrypt_test_call_methods_def
        call_def_def null_def_def)
  show "length (d_routines d') = 47" "distinct (map cm_name (d_routines d'))"
    "list_all (\<lambda>m. cm_name m \<noteq> None \<and> cm_fun m = cm_name m) (d_routines d')"
    unfolding d'
    by (simp_all add: until_null_def call_methods_def zucrypt_crypt_call_methods_def zucrypt_test_call_methods_def
        call_def_def null_def_def)
qed

section \<open>Properties\<close>

text \<open>
  C19. In every state a process can reach without the harness routine that stops the backend, a consumer
  that holds the function table can use it: the backend is running, the table says the version the consumer asked for, and every pointer that
  \<^verbatim>\<open>ZUCRYPT_API_HAS\<close> admits is set; no call through the table ever ends that. Once the package has been
  loaded, resolving the table succeeds, and a request for another version is refused with no effect.
\<close>

theorem zucrypt_table_usable:
  assumes "running P rs words d"
  shows "(d_cached d = API_STATIC \<longrightarrow> usable d) \<and>
    (\<forall>d1. run_state (R_init_zucrypt P) d = (Returned (), d1) \<longrightarrow>
      (\<exists>d2. run_state (zucrypt_api P rs words) d1 = (Returned API_STATIC, d2) \<and> usable d2)) \<and>
    (\<forall>v. v \<noteq> ZUCRYPT_ABI_VERSION \<longrightarrow> run_state (zucrypt_get_api P rs words v) d = (API_NULL, d))"
proof (intro conjI allI impI)
  show "usable d" if "d_cached d = API_STATIC"
    by (rule table_inv_usable [OF running_table_inv [OF assms] that])
  fix d1
  assume load: "run_state (R_init_zucrypt P) d = (Returned (), d1)"
  obtain r d2 where api: "run_state (zucrypt_api P rs words) d1 = (r, d2)" by force
  have "table_inv P rs words d1"
    by (rule running_table_inv [OF running.load [OF assms load]])
  note a = api_process [OF api this]
  have "r = Returned API_STATIC" "d_cached d2 = API_STATIC"
    using a(2) load_process(5) [OF load] by (simp_all split: if_splits)
  then show "\<exists>d2. run_state (zucrypt_api P rs words) d1 = (Returned API_STATIC, d2) \<and> usable d2"
    using api table_inv_usable [OF a(1)] by blast
next
  show "run_state (zucrypt_get_api P rs words v) d = (API_NULL, d)" if "v \<noteq> ZUCRYPT_ABI_VERSION" for v
    using that by (simp add: zucrypt_get_api_def)
qed

definition fresh_process :: "(unit, unit) process" where
  "fresh_process = \<lparr>d_world = (fresh_world () [4096])\<lparr>w_refcount := 0\<rparr>, d_api = zero_table, d_api_ready = False,
     d_routines = [], d_callables = Map.empty, d_cached = API_NULL\<rparr>"

theorem zucrypt_table_usable_witness:
  "\<exists>d1 d2. running (scripted accept_all) GETRANDOM True fresh_process \<and>
    run_state (R_init_zucrypt (scripted accept_all)) fresh_process = (Returned (), d1) \<and>
    run_state (zucrypt_api (scripted accept_all) GETRANDOM True) d1 = (Returned API_STATIC, d2) \<and> usable d2"
proof -
  have r: "running (scripted accept_all) GETRANDOM True fresh_process"
    by (rule running.start) (simp_all add: fresh_process_def)
  obtain d1 where d1: "run_state (R_init_zucrypt (scripted accept_all)) fresh_process = (Returned (), d1)"
    by (simp add: R_init_zucrypt_def all_call_methods_def Let_def run_on_world malloc_bytes_def run_c_alloc
        free_bytes_def zuc_init_def run_psa_do scripted_def zucrypt_register_api_def fresh_process_def)
  show ?thesis
    using zucrypt_table_usable [OF r] r d1 by blast
qed

text \<open>
  The table of status codes that the R condition classes are keyed on is complete and
  unambiguous: every status is in it once, under its own name and with its own code.
\<close>

theorem zucrypt_status_codes_exact:
  assumes "run_state zucrypt_status_codes s = (Returned v, s')"
  shows "\<exists>t. v = VECSXP t \<and> distinct (map fst t) \<and>
    (\<forall>name code. map_of t name = Some (INTSXP [code]) \<longleftrightarrow>
      (\<exists>st. name = zuc_status_name (zuc_status_code st) \<and> code = zuc_status_code st))"
proof -
  let ?t = "map (\<lambda>st. (zuc_status_name (zuc_status_code st), INTSXP [zuc_status_code st])) all_statuses"
  have v: "v = VECSXP ?t"
    using assms by (auto simp: zucrypt_status_codes_def run_r_alloc split: list.splits if_splits)
  have d: "distinct (map fst ?t)"
    by (simp add: all_statuses_def zuc_status_name_def)
  have all: "st \<in> set all_statuses" for st
    by (cases st) (simp_all add: all_statuses_def)
  have "map_of ?t name = Some (INTSXP [code]) \<longleftrightarrow>
      (\<exists>st. name = zuc_status_name (zuc_status_code st) \<and> code = zuc_status_code st)" for name code
    using map_of_eq_Some_iff [OF d] all by auto
  with v d show ?thesis by blast
qed

theorem zucrypt_status_codes_exact_witness:
  "\<exists>t s'. run_state zucrypt_status_codes (demo_session []) = (Returned (VECSXP t), s') \<and>
    map_of t ''ZUC_ERR_AUTH'' = Some (INTSXP [11])"
proof -
  obtain v s' where run: "run_state zucrypt_status_codes (demo_session []) = (Returned v, s')"
    by (simp add: zucrypt_status_codes_def run_r_alloc demo_session_def)
  obtain t where t: "v = VECSXP t" "\<And>name code. map_of t name = Some (INTSXP [code]) \<longleftrightarrow>
      (\<exists>st. name = zuc_status_name (zuc_status_code st) \<and> code = zuc_status_code st)"
    using zucrypt_status_codes_exact [OF run] by blast
  have "map_of t ''ZUC_ERR_AUTH'' = Some (INTSXP [11])"
    unfolding t(2) by (rule exI [of _ ZUC_ERR_AUTH]) (simp add: zuc_status_name_def)
  with run t(1) show ?thesis by blast
qed

text \<open>
  \<^verbatim>\<open>zucrypt_backend_info\<close> raises no error of its own and shows nothing of its uninitialised
  local: with room for the result it returns the six fields, the same whatever was on the stack.
\<close>

theorem zucrypt_backend_info_defined:
  assumes "rs_allocs s = p # ps" "p \<noteq> NULL"
  shows "\<exists>hw imp s'. \<forall>info. run_state (zucrypt_backend_info P rs info) s = (Returned (VECSXP
      [(''backend_name'', STRSXP [''TF-PSA-Crypto'']), (''backend_version'', STRSXP [''1.1.1'']),
       (''random_backend'', STRSXP [zuc_int_random_backend rs]), (''abi_version'', INTSXP [1]),
       (''hardware_acceleration'', LGLSXP hw), (''aes_implementation'', STRSXP [imp])]), s') \<and>
    imp \<in> {''aesni'', ''aesce'', ''software'', ''unknown''}"
proof -
  obtain imp1 w1 where i1: "run_state (zuc_int_aes_implementation P) (rs_world s) = (imp1, w1)" by force
  obtain imp w2 where i2: "run_state (zuc_int_aes_implementation P) w1 = (imp, w2)" by force
  have "imp \<in> {''aesni'', ''aesce'', ''software'', ''unknown''}"
    using i2 by (auto simp: zuc_int_aes_implementation_def run_psa_do split: if_splits)
  moreover have "run_state (zucrypt_backend_info P rs info) s = (Returned (VECSXP
      [(''backend_name'', STRSXP [''TF-PSA-Crypto'']), (''backend_version'', STRSXP [''1.1.1'']),
       (''random_backend'', STRSXP [zuc_int_random_backend rs]), (''abi_version'', INTSXP [1]),
       (''hardware_acceleration'', LGLSXP (imp1 = ''aesni'' \<or> imp1 = ''aesce'')),
       (''aes_implementation'', STRSXP [imp])]), s\<lparr>rs_world := w2, rs_allocs := ps\<rparr>)" for info
    using i1 i2 assms
    by (simp add: zucrypt_backend_info_def run_native zuc_get_info_def ZUC_INFO_REQUIRED_SIZE_def
        hardware_acceleration_end_def aes_implementation_end_def Let_def run_r_alloc)
  ultimately show ?thesis by blast
qed

theorem zucrypt_backend_info_defined_witness:
  "\<exists>imp s'. run_state (zucrypt_backend_info (scripted (\<lambda>_. 2)) GETRANDOM undefined) (demo_session []) =
    (Returned (VECSXP
      [(''backend_name'', STRSXP [''TF-PSA-Crypto'']), (''backend_version'', STRSXP [''1.1.1'']),
       (''random_backend'', STRSXP [''getrandom'']), (''abi_version'', INTSXP [1]),
       (''hardware_acceleration'', LGLSXP True), (''aes_implementation'', STRSXP [imp])]), s')"
proof -
  have hw: "\<exists>xs s'. run_state (zucrypt_backend_info (scripted (\<lambda>_. 2)) GETRANDOM undefined) (demo_session []) =
      (Returned (VECSXP xs), s') \<and> xs ! 4 = (''hardware_acceleration'', LGLSXP True)"
    by (simp add: zucrypt_backend_info_def run_native zuc_get_info_def ZUC_INFO_REQUIRED_SIZE_def
        hardware_acceleration_end_def aes_implementation_end_def Let_def run_r_alloc zuc_int_aes_implementation_def
        run_psa_do scripted_def demo_session_def)
  show ?thesis
    using zucrypt_backend_info_defined [of "demo_session []" 100 "[101, 102, 103]" "scripted (\<lambda>_. 2)" GETRANDOM] hw
    by (auto simp: demo_session_def)
qed

end
