(* ===== verification/R_Keys.thy ===== *)
theory R_Keys
  imports R_Crypt
begin

text \<open>
  What the key entry points of \<^verbatim>\<open>zucrypt_crypt.c\<close> promise around the adapter: a pointer that does not
  hold a key of this package, or no longer does, is refused before the adapter is reached, and the
  worst-case buffer a result is produced in does not keep a copy of it.
\<close>

section \<open>Scratch vectors\<close>

text \<open>
  \<open>wipes cap m\<close>: when \<open>m\<close> returns, the first vector it allocated, of \<open>cap\<close> bytes, holds zeros only.
  The size may depend on the session.
\<close>

definition wipes :: "(('b, 'o) session \<Rightarrow> size_t) \<Rightarrow> ('b, 'o, sexp outcome) rc \<Rightarrow> bool" where
  "wipes cap m \<longleftrightarrow>
    (\<forall>s p ps v s'. rs_allocs s = p # ps \<longrightarrow> run_state m s = (Returned v, s') \<longrightarrow>
      mem_read (w_mem (rs_world s')) p (cap s) = replicate (unat (cap s)) 0)"

definition key_of :: "sexp \<Rightarrow> ('b, 'o) session \<Rightarrow> ptr" where
  "key_of ptr s = fst (run_state (pkey_get ptr) s)"

text \<open>The room \<^verbatim>\<open>zucrypt_pkey_crypt\<close> asks for.\<close>

definition crypt_cap :: "sexp \<Rightarrow> ('b, 'o) session \<Rightarrow> size_t" where
  "crypt_cap ptr s =
    (if key_of ptr s = NULL then 1 else fst (run_state (zuc_pkey_bits (key_of ptr s)) (rs_world s)) div 8 + 1)"

lemma run_pkey_get: "run_state (pkey_get ptr) s = (key_of ptr s, s)"
  by (cases ptr) (simp_all add: key_of_def pkey_get_def R_ExternalPtrTag_def R_ExternalPtrAddr_def)

lemma trimmed_wipes:
  assumes "run_state (trimmed st (RAWSXP p n) len) s = (Returned v, s')" "p \<noteq> NULL"
  shows "mem_read (w_mem (rs_world s')) p n = replicate (unat n) 0"
  using assms
  by (auto simp: trimmed_def run_native zuc_secure_zero_def mbedtls_platform_zeroize_def allocRaw_def mem_simps word_gt_0
      dest!: run_result_returned elim!: run_r_alloc_returned split: if_splits)

text \<open>When the trimmed copy cannot be allocated, R leaves the call before the wipe.\<close>

lemma trimmed_unwiped: "rs_allocs s = [] \<Longrightarrow> run_state (trimmed ZUC_OK vec len) s = (Longjmp, s)"
  by (simp add: trimmed_def allocRaw_def run_r_alloc)

lemma scratch_wiped:
  assumes "run_state (allocRaw cap (\<lambda>vec. State_Monad.bind (native (m vec)) (\<lambda>(st, len). trimmed st vec len))) s =
      (Returned v, s')" "rs_allocs s = p # ps"
  shows "mem_read (w_mem (rs_world s')) p cap = replicate (unat cap) 0"
proof -
  obtain st len w where m: "run_state (m (RAWSXP p cap)) (rs_world s) = ((st, len), w)"
    by (metis surj_pair)
  have p: "p \<noteq> NULL"
    using assms by (auto simp: allocRaw_def elim!: run_r_alloc_returned)
  have "run_state (trimmed st (RAWSXP p cap) len) (s\<lparr>rs_allocs := ps, rs_world := w\<rparr>) = (Returned v, s')"
    using assms m p by (simp add: allocRaw_def run_r_alloc run_native)
  then show ?thesis
    by (rule trimmed_wipes [OF _ p])
qed

lemma keys_wiped:
  "wipes (\<lambda>_. ZUC_PKEY_MAX_WRITE_SIZE) (zucrypt_pkey_write P ptr format public_only)"
  "wipes (\<lambda>_. 1024) (zucrypt_pkey_sign P ptr scheme hash digest)"
  "wipes (\<lambda>_. ZUC_PKEY_MAX_WRITE_SIZE) (zucrypt_pkey_export P ptr public_only)"
  "wipes (\<lambda>_. 128) (zucrypt_pkey_agree P ptr peer)"
  unfolding wipes_def zucrypt_pkey_write_def zucrypt_pkey_sign_def zucrypt_pkey_export_def zucrypt_pkey_agree_def
    Let_def run_state_bind run_pkey_get prod.case
  by (intro allI impI, erule (1) scratch_wiped)+

lemma crypt_wiped: "wipes (crypt_cap ptr) (zucrypt_pkey_crypt P ptr scheme hash data encrypt)"
  unfolding wipes_def
proof (intro allI impI)
  fix s p ps v s'
  assume s: "rs_allocs s = p # ps"
    and run: "run_state (zucrypt_pkey_crypt P ptr scheme hash data encrypt) s = (Returned v, s')"
  obtain b w where b: "run_state (zuc_pkey_bits (key_of ptr s)) (rs_world s) = (b, w)" by force
  let ?s = "if key_of ptr s = NULL then s else s\<lparr>rs_world := w\<rparr>"
  have "rs_allocs ?s = p # ps"
    using s by simp
  moreover have "\<exists>m. run_state (allocRaw (crypt_cap ptr s) (\<lambda>vec. State_Monad.bind (native (m vec))
      (\<lambda>(st, len). trimmed st vec len))) ?s = (Returned v, s')"
    using run b
    by (cases "key_of ptr s = NULL")
      (force simp: zucrypt_pkey_crypt_def run_pkey_get crypt_cap_def Let_def run_native)+
  ultimately show "mem_read (w_mem (rs_world s')) p (crypt_cap ptr s) = replicate (unat (crypt_cap ptr s)) 0"
    using scratch_wiped by blast
qed

section \<open>Foreign and stale pointers\<close>

text \<open>
  \<open>refuses v m s\<close>: \<open>m\<close> returns nothing but \<open>v\<close>, and on every path leaves everything of the adapter's world but
  byte memory as it found it, and no external pointer holds an address that it did not hold before.
\<close>

definition refuses :: "sexp \<Rightarrow> ('b, 'o, sexp outcome) rc \<Rightarrow> ('b, 'o) session \<Rightarrow> bool" where
  "refuses v m s \<longleftrightarrow>
    (case run_state m s of (r, s') \<Rightarrow>
      (r = Returned v \<or> r = Longjmp) \<and>
      (\<exists>g. rs_world s' = (rs_world s)\<lparr>w_mem := g\<rparr>) \<and>
      (\<forall>q x. rs_ptrs s' q = Some x \<longrightarrow> x_addr x \<noteq> NULL \<longrightarrow> rs_ptrs s q = Some x))"

text \<open>
  An R value that is not a key of this package, or no longer: no external pointer, one that R does not know, one
  with another tag, or one whose address has been cleared.
\<close>

definition no_key :: "sexp \<Rightarrow> ('b, 'o) session \<Rightarrow> bool" where
  "no_key ptr s \<longleftrightarrow>
    (case ptr of
       EXTPTRSXP q \<Rightarrow> (case rs_ptrs s q of None \<Rightarrow> True | Some x \<Rightarrow> x_tag x \<noteq> pkey_tag \<or> x_addr x = NULL)
     | _ \<Rightarrow> True)"

lemma no_key_refused: "no_key ptr s \<Longrightarrow> key_of ptr s = NULL"
  by (auto simp: no_key_def key_of_def pkey_get_def R_ExternalPtrTag_def R_ExternalPtrAddr_def
      split: sexp.splits option.splits)

definition invalid :: sexp where
  "invalid = VECSXP [(''status'', INTSXP [1]), (''value'', R_NilValue)]"

lemma world_mem_self: "\<exists>g. w = w\<lparr>w_mem := g\<rparr>"
  by (rule exI [of _ "w_mem w"]) simp

lemma refuses_result: "refuses invalid (result ZUC_ERR_INVALID_ARGUMENT R_NilValue) s"
  by (auto simp: refuses_def invalid_def result_def run_r_alloc world_mem_self split: list.splits)

lemma refuses_trimmed:
  "refuses invalid (allocRaw cap (\<lambda>vec. State_Monad.bind (native (ret (ZUC_ERR_INVALID_ARGUMENT, 0)))
     (\<lambda>(st, len). trimmed st vec len))) s"
  by (auto simp: refuses_def invalid_def allocRaw_def result_def run_r_alloc run_native trimmed_def zuc_secure_zero_def
      mbedtls_platform_zeroize_def world_mem_self split: list.splits)

lemma refuses_pkey_ptr:
  "refuses invalid (pkey_ptr (\<lambda>out. State_Monad.bind (native (ret (ZUC_ERR_INVALID_ARGUMENT, NULL)))
     (\<lambda>(st, pub). pkey_result st out pub))) s"
  by (auto simp: refuses_def invalid_def pkey_ptr_def R_MakeExternalPtr_def R_RegisterCFinalizerEx_def update_ptr_def
      pkey_result_def result_def run_r_alloc run_native world_mem_self split: list.splits)

lemma refuses_cong: "run_state m s = run_state m' s \<Longrightarrow> refuses v m' s \<Longrightarrow> refuses v m s"
  by (simp add: refuses_def)

lemma finished_stream:
  assumes "run_state (zucrypt_stream_finish P (EXTPTRSXP q)) s = (Returned v, s')"
  shows "\<exists>x kind alg. rs_ptrs s' q = Some x \<and> x_addr x = NULL \<and> x_tag x = INTSXP [kind, alg]"
proof -
  obtain x kind alg where x: "rs_ptrs s q = Some x" "x_tag x = INTSXP [kind, alg]"
    using assms
    by (auto simp: zucrypt_stream_finish_def stream_tag_def R_ExternalPtrTag_def length_Suc_conv numeral_2_eq_2
        split: option.splits sexp.splits if_splits)
  show ?thesis
  proof (cases "x_addr x = NULL")
    case True
    then show ?thesis
      using assms x
      by (auto simp: zucrypt_stream_finish_def stream_tag_def R_ExternalPtrTag_def R_ExternalPtrAddr_def Let_def
          dest!: run_result_returned)
  next
    case False
    then show ?thesis
      using assms x
      by (auto simp: zucrypt_stream_finish_def stream_tag_def R_ExternalPtrTag_def R_ExternalPtrAddr_def Let_def
          allocRaw_def run_native release_ptr_def R_ClearExternalPtr_def update_ptr_def
          dest!: run_result_returned elim!: run_r_alloc_returned split: prod.splits)
  qed
qed

lemma finished_stream_refused:
  assumes "run_state (zucrypt_stream_finish P (EXTPTRSXP q)) s0 = (Returned v, s1)"
  shows "refuses (INTSXP [1]) (zucrypt_stream_update P (EXTPTRSXP q) data) s1"
    and "refuses invalid (zucrypt_stream_finish P (EXTPTRSXP q)) s1"
proof -
  obtain x kind alg where "rs_ptrs s1 q = Some x" "x_addr x = NULL" "x_tag x = INTSXP [kind, alg]"
    using finished_stream [OF assms] by blast
  note x = this stream_tag_def R_ExternalPtrTag_def R_ExternalPtrAddr_def
  show "refuses invalid (zucrypt_stream_finish P (EXTPTRSXP q)) s1"
    by (rule refuses_cong [OF _ refuses_result]) (simp add: zucrypt_stream_finish_def x Let_def)
  show "refuses (INTSXP [1]) (zucrypt_stream_update P (EXTPTRSXP q) data) s1"
    by (auto simp: zucrypt_stream_update_def x refuses_def scalar_status_def run_r_alloc world_mem_self
        split: list.splits)
qed

section \<open>Properties\<close>

text \<open>
  C29. The vector in which the key entry points produce a signature, an encoded or exported key, a
  decrypted message or a shared secret is all zero when they return, whether they succeed or fail and
  whatever the backend wrote there. (They do not return when R cannot allocate the result.)
\<close>

theorem zucrypt_scratch_wiped:
  "wipes (\<lambda>_. ZUC_PKEY_MAX_WRITE_SIZE) (zucrypt_pkey_write P ptr format public_only) \<and>
   wipes (\<lambda>_. 1024) (zucrypt_pkey_sign P ptr scheme hash digest) \<and>
   wipes (crypt_cap ptr) (zucrypt_pkey_crypt P ptr scheme hash data encrypt) \<and>
   wipes (\<lambda>_. ZUC_PKEY_MAX_WRITE_SIZE) (zucrypt_pkey_export P ptr public_only) \<and>
   wipes (\<lambda>_. 128) (zucrypt_pkey_agree P ptr peer)"
  by (intro conjI crypt_wiped keys_wiped)

text \<open>
  C32. A value that is not a key of this package (no external pointer, or one with another tag), or whose key
  is gone, is refused by every key entry point with status 1 and never dereferenced: the adapter, its handles
  and the backend are not touched, and no external pointer comes to own anything. A stream that has been
  finished is refused likewise.
\<close>

theorem zucrypt_stale_pointers_refused:
  assumes "no_key ptr s"
  shows "refuses invalid (zucrypt_pkey_public P ptr) s \<and>
    refuses invalid (zucrypt_pkey_info ptr) s \<and>
    refuses invalid (zucrypt_pkey_write P ptr format public_only) s \<and>
    refuses invalid (zucrypt_pkey_sign P ptr scheme hash digest) s \<and>
    refuses invalid (zucrypt_pkey_verify P ptr scheme hash digest sig) s \<and>
    refuses invalid (zucrypt_pkey_crypt P ptr scheme hash data encrypt) s \<and>
    refuses invalid (zucrypt_pkey_export P ptr public_only) s \<and>
    refuses invalid (zucrypt_pkey_agree P ptr peer) s \<and>
    refuses invalid (zucrypt_pkey_agree P peer ptr) s \<and>
    (run_state (zucrypt_stream_finish P (EXTPTRSXP q)) s0 = (Returned v, s1) \<longrightarrow>
      refuses (INTSXP [1]) (zucrypt_stream_update P (EXTPTRSXP q) data) s1 \<and>
      refuses invalid (zucrypt_stream_finish P (EXTPTRSXP q)) s1)"
proof (intro conjI impI)
  note key = run_pkey_get no_key_refused [OF assms]
  show "refuses invalid (zucrypt_pkey_public P ptr) s"
    by (rule refuses_cong [OF _ refuses_pkey_ptr]) (simp add: zucrypt_pkey_public_def key)
  show "refuses invalid (zucrypt_pkey_info ptr) s"
    by (rule refuses_cong [OF _ refuses_result]) (simp add: zucrypt_pkey_info_def key)
  show "refuses invalid (zucrypt_pkey_verify P ptr scheme hash digest sig) s"
    by (rule refuses_cong [OF _ refuses_result]) (simp add: zucrypt_pkey_verify_def key run_native)
  show "refuses invalid (zucrypt_pkey_write P ptr format public_only) s"
    by (rule refuses_cong [OF _ refuses_trimmed]) (simp add: zucrypt_pkey_write_def key)
  show "refuses invalid (zucrypt_pkey_sign P ptr scheme hash digest) s"
    by (rule refuses_cong [OF _ refuses_trimmed]) (simp add: zucrypt_pkey_sign_def key)
  show "refuses invalid (zucrypt_pkey_crypt P ptr scheme hash data encrypt) s"
    by (rule refuses_cong [OF _ refuses_trimmed]) (simp add: zucrypt_pkey_crypt_def key Let_def)
  show "refuses invalid (zucrypt_pkey_export P ptr public_only) s"
    by (rule refuses_cong [OF _ refuses_trimmed]) (simp add: zucrypt_pkey_export_def key)
  show "refuses invalid (zucrypt_pkey_agree P ptr peer) s" "refuses invalid (zucrypt_pkey_agree P peer ptr) s"
    by (rule refuses_cong [OF _ refuses_trimmed]; simp add: zucrypt_pkey_agree_def key)+
qed (rule finished_stream_refused; assumption)+

text \<open>A session with one active digest stream.\<close>

definition stream_demo :: "(unit, unit) session" where
  "stream_demo =
    \<lparr>rs_world = (fresh_world () [])\<lparr>w_hashes := [4096 \<mapsto> zero_hash\<lparr>h_alg := ZUC_ALG_SHA256, h_active := True\<rparr>]\<rparr>,
     rs_ptrs = [101 \<mapsto> \<lparr>x_addr = 4096, x_tag = INTSXP [ZUCRYPT_STREAM_HASH, ZUC_ALG_SHA256], x_fin = Some Fin_hash\<rparr>],
     rs_allocs = [100, 102, 103, 104], rs_interrupts = []\<rparr>"

theorem zucrypt_stale_pointers_refused_witness:
  "\<exists>v s1. refuses invalid (zucrypt_pkey_info (EXTPTRSXP 101)) stream_demo \<and>
    run_state (zucrypt_stream_finish (scripted accept_all) (EXTPTRSXP 101)) stream_demo = (Returned v, s1) \<and>
    refuses (INTSXP [1]) (zucrypt_stream_update (scripted accept_all) (EXTPTRSXP 101) (RAWSXP 8192 10)) s1"
proof -
  have k: "no_key (EXTPTRSXP 101) stream_demo"
    by (simp add: no_key_def pkey_tag_def stream_demo_def)
  obtain v s1 where run: "run_state (zucrypt_stream_finish (scripted accept_all) (EXTPTRSXP 101)) stream_demo = (Returned v, s1)"
    by (simp add: zucrypt_stream_finish_def stream_tag_def R_ExternalPtrTag_def R_ExternalPtrAddr_def stream_demo_def
        Let_def allocRaw_def run_r_alloc run_native with_len_def zuc_hash_finish_def deref_hash_def zuc_alg_size_def
        run_psa_do scripted_def set_hash_def release_ptr_def R_ClearExternalPtr_def update_ptr_def zuc_hash_free_def
        free_struct_hash_def result_def)
  show ?thesis
    using zucrypt_stale_pointers_refused [OF k] run by blast
qed

end
