(* ===== verification/R_Types.thy ===== *)
theory R_Types
  imports R_Crypt
begin

text \<open>
  The types of the values that the entry points of \<^verbatim>\<open>zucrypt_crypt.c\<close> return. The R code takes the status out
  of the pair it gets and uses the value without a check of its own, so a value of the wrong type or a
  success without a value would surface far from here.
\<close>

section \<open>Typed actions\<close>

text \<open>\<open>typed T m\<close>: whenever \<open>m\<close> returns, it returns a value of type \<open>T\<close>.\<close>

definition typed :: "(sexp \<Rightarrow> bool) \<Rightarrow> ('b, 'o, sexp outcome) rc \<Rightarrow> bool" where
  "typed T m \<longleftrightarrow> (\<forall>s v s'. run_state m s = (Returned v, s') \<longrightarrow> T v)"

named_theorems typed_intros "rules that show that an entry point returns values of a type"

fun raw_of :: "size_t \<Rightarrow> sexp \<Rightarrow> bool" where
  "raw_of n (RAWSXP p m) \<longleftrightarrow> m = n"
| "raw_of n _ \<longleftrightarrow> False"

fun any_raw :: "sexp \<Rightarrow> bool" where
  "any_raw (RAWSXP p m) \<longleftrightarrow> True"
| "any_raw _ \<longleftrightarrow> False"

fun is_extptr :: "sexp \<Rightarrow> bool" where
  "is_extptr (EXTPTRSXP p) \<longleftrightarrow> True"
| "is_extptr _ \<longleftrightarrow> False"

text \<open>A pair of a status of the table and a value, which has the type \<open>T\<close> on success and is \<^verbatim>\<open>NULL\<close> on failure.\<close>

definition answer :: "(sexp \<Rightarrow> bool) \<Rightarrow> sexp \<Rightarrow> bool" where
  "answer T v \<longleftrightarrow> (\<exists>st x. v = VECSXP [(''status'', INTSXP [zuc_status_code st]), (''value'', x)] \<and>
    (if st = ZUC_OK then T x else x = R_NilValue))"

lemma typed_bind [typed_intros]: "(\<And>x. typed T (f x)) \<Longrightarrow> typed T (m \<bind> f)"
  by (auto simp: typed_def split: prod.splits)

lemma typed_if [typed_intros]: "(b \<Longrightarrow> typed T m) \<Longrightarrow> (\<not> b \<Longrightarrow> typed T n) \<Longrightarrow> typed T (if b then m else n)"
  by simp

lemma typed_prod [typed_intros]: "(\<And>x y. p = (x, y) \<Longrightarrow> typed T (f x y)) \<Longrightarrow> typed T (case p of (x, y) \<Rightarrow> f x y)"
  by (cases p) simp

lemma typed_ret [typed_intros]: "typed T (ret Longjmp)" "typed T (ret No_return)" "T v \<Longrightarrow> typed T (ret (Returned v))"
  by (simp_all add: typed_def)

lemma typed_r_alloc [typed_intros]: "(\<And>p. typed T (k p)) \<Longrightarrow> typed T (r_alloc k)"
  by (auto simp: typed_def run_r_alloc split: list.splits if_splits)

lemma typed_wrappers [typed_intros]:
  "(\<And>p. typed T (k (RAWSXP p n))) \<Longrightarrow> typed T (allocRaw n k)"
  "(\<And>p. typed T (h p)) \<Longrightarrow> typed T (R_MakeExternalPtr tag h)"
  "typed T m \<Longrightarrow> typed T (R_CheckUserInterrupt m)"
  by (auto simp: allocRaw_def R_MakeExternalPtr_def R_CheckUserInterrupt_def intro!: typed_intros split: list.split)
    

lemma typed_register [typed_intros]: "typed T m \<Longrightarrow> typed T (R_RegisterCFinalizerEx p fin m)"
  unfolding R_RegisterCFinalizerEx_def by (intro typed_intros)

lemma typed_result [typed_intros]:
  "(st = ZUC_OK \<Longrightarrow> T x) \<Longrightarrow> (st \<noteq> ZUC_OK \<Longrightarrow> x = R_NilValue) \<Longrightarrow> typed (answer T) (result st x)"
  unfolding result_def by (intro typed_intros) (auto simp: answer_def)

lemma typed_chunks [typed_intros]:
  assumes "\<And>st. typed T (k st)"
  shows "typed T (chunks body n k offset st)"
proof (induction body n k offset st rule: chunks.induct [of "\<lambda>body n k' offset st.
    k' = k \<longrightarrow> typed T (chunks body n k' offset st)", rule_format])
  case (1 body n k' offset st)
  show ?case
  proof (cases "offset < n \<and> st = ZUC_OK")
    case True
    let ?n = "if n - offset > ZUCRYPT_CHUNK then ZUCRYPT_CHUNK else n - offset"
    have "typed T (chunks body n k' (offset + ?n) st')" for st'
      using 1 True by blast
    then have "typed T (State_Monad.bind (native (body offset ?n)) (case_option (ret No_return)
        (\<lambda>st. R_CheckUserInterrupt (chunks body n k' (offset + ?n) st))))"
      by (intro typed_intros) (auto split: option.split intro: typed_intros)
    then show ?thesis using True by (subst chunks.simps) (simp only: Let_def if_True simp_thms)
  next
    case False
    then show ?thesis using assms 1(2) by (simp add: run_chunks_done)
  qed
qed simp

section \<open>The entry points\<close>

lemma typed_stream_tag [typed_intros]:
  "(\<And>q kind alg. typed T (k q kind alg)) \<Longrightarrow> typed T (stream_tag ptr k)"
  unfolding stream_tag_def by (auto split: sexp.split intro!: typed_intros)

lemma typed_stream_ptr [typed_intros]: "(\<And>q. typed T (k q)) \<Longrightarrow> typed T (stream_ptr kind alg k)"
  unfolding stream_ptr_def by (intro typed_intros)

lemma typed_pkey_ptr [typed_intros]: "(\<And>q. typed T (k q)) \<Longrightarrow> typed T (pkey_ptr k)"
  unfolding pkey_ptr_def by (intro typed_intros)

lemma typed_pkey_result [typed_intros]: "typed (answer is_extptr) (pkey_result st ptr key)"
  unfolding pkey_result_def by (intro typed_intros) simp_all

lemma typed_trimmed [typed_intros]: "typed (answer any_raw) (trimmed st vec len)"
  unfolding trimmed_def by (intro typed_intros) simp_all

fun sealed_of :: "size_t \<Rightarrow> sexp \<Rightarrow> bool" where
  "sealed_of n (VECSXP [(a, out), (b, t)]) \<longleftrightarrow> raw_of n out \<and> raw_of 16 t"
| "sealed_of n _ \<longleftrightarrow> False"

fun key_info :: "sexp \<Rightarrow> bool" where
  "key_info (VECSXP [(a, STRSXP _), (b, REALSXP _), (c, LGLSXP _)]) \<longleftrightarrow> a = ''type'' \<and> b = ''bits'' \<and> c = ''private''"
| "key_info _ \<longleftrightarrow> False"

definition status_code :: "sexp \<Rightarrow> bool" where
  "status_code v \<longleftrightarrow> (\<exists>st. v = INTSXP [zuc_status_code st])"

definition string_of :: "nat \<Rightarrow> sexp \<Rightarrow> bool" where
  "string_of n v \<longleftrightarrow> (\<exists>s. v = STRSXP [s] \<and> length s = n)"

lemma length_hex_string: "length (hex_string bs) = 2 * length bs"
  by (induction bs) (simp_all add: hex_string_def)

lemma typed_scalar_status [typed_intros]: "typed status_code (scalar_status st)"
  unfolding scalar_status_def by (intro typed_intros) (auto simp: status_code_def)

lemma typed_hex [typed_intros]: "typed (string_of (2 * unat (XLENGTH data))) (zucrypt_hex data)"
  unfolding zucrypt_hex_def
  by (rule typed_r_alloc) (auto simp: typed_def run_native string_of_def length_hex_string)

section \<open>Property\<close>

text \<open>
  C30. Whatever the backend, the arguments, the allocator and the user do: when an entry point of
  \<^verbatim>\<open>zucrypt_crypt.c\<close> returns, its value has the type that the R code relies on. The calls with a status pair it with a value
  of their type exactly when the status is 0, and with \<^verbatim>\<open>NULL\<close> otherwise; raw vectors have the length the
  call was asked for.
\<close>

theorem zucrypt_results_typed:
  "typed (answer (raw_of (zuc_alg_size (zuc_alg_by_name (R_CHAR algorithm))))) (zucrypt_hash P data algorithm) \<and>
   typed (answer (raw_of (zuc_alg_size (zuc_alg_by_name (R_CHAR algorithm))))) (zucrypt_hmac P data key algorithm) \<and>
   typed (answer is_extptr) (zucrypt_hash_stream_new P algorithm) \<and>
   typed (answer is_extptr) (zucrypt_hmac_stream_new P key algorithm) \<and>
   typed status_code (zucrypt_stream_update P ptr data) \<and>
   typed (answer any_raw) (zucrypt_stream_finish P ptr) \<and>
   typed (answer (raw_of (XLENGTH data))) (zucrypt_aes_cbc P data key iv encrypt) \<and>
   typed (\<lambda>v. \<exists>b. v = LGLSXP b) (zucrypt_equal words data key) \<and>
   typed (string_of (2 * unat (XLENGTH data))) (zucrypt_hex data) \<and>
   typed (\<lambda>v. \<exists>names. v = STRSXP names) (zucrypt_algorithms :: ('b, 'o, sexp outcome) rc) \<and>
   typed (answer (raw_of (of_int (REAL n)))) (zucrypt_rand_bytes rs n :: ('b, 'o, sexp outcome) rc) \<and>
   typed (answer (if Rf_asLogical encrypt then sealed_of (XLENGTH data) else raw_of (XLENGTH data)))
     (zucrypt_aes_gcm P data key iv aad tag encrypt) \<and>
   typed (answer (raw_of (of_int (REAL n)))) (zucrypt_pbkdf2 P key data iterations n algorithm) \<and>
   typed (answer is_extptr) (zucrypt_pkey_parse P data private_key) \<and>
   typed (answer is_extptr) (zucrypt_pkey_generate P algorithm n) \<and>
   typed (answer is_extptr) (zucrypt_pkey_import P algorithm private_key data) \<and>
   typed (answer is_extptr) (zucrypt_pkey_public P ptr) \<and>
   typed (answer key_info) (zucrypt_pkey_info ptr :: ('b, 'o, sexp outcome) rc) \<and>
   typed (answer any_raw) (zucrypt_pkey_write P ptr format public_only) \<and>
   typed (answer any_raw) (zucrypt_pkey_sign P ptr scheme algorithm data) \<and>
   typed (answer (\<lambda>v. v = LGLSXP True)) (zucrypt_pkey_verify P ptr scheme algorithm data tag) \<and>
   typed (answer any_raw) (zucrypt_pkey_crypt P ptr scheme algorithm data encrypt) \<and>
   typed (answer any_raw) (zucrypt_pkey_export P ptr public_only) \<and>
   typed (answer any_raw) (zucrypt_pkey_agree P ptr peer)"
  unfolding zucrypt_hash_def zucrypt_hmac_def zucrypt_hash_stream_new_def zucrypt_hmac_stream_new_def
    zucrypt_stream_update_def zucrypt_stream_finish_def zucrypt_aes_cbc_def zucrypt_equal_def
    zucrypt_algorithms_def zucrypt_rand_bytes_def zucrypt_aes_gcm_def zucrypt_pbkdf2_def zucrypt_pkey_parse_def
    zucrypt_pkey_generate_def zucrypt_pkey_import_def zucrypt_pkey_public_def zucrypt_pkey_info_def
    zucrypt_pkey_write_def zucrypt_pkey_sign_def zucrypt_pkey_verify_def zucrypt_pkey_crypt_def
    zucrypt_pkey_export_def zucrypt_pkey_agree_def Let_def
  by (intro conjI typed_intros; simp)

end
