(* ===== verification/Hmac_Keys.thy ===== *)
theory Hmac_Keys
  imports Hash
begin

text \<open>
  The key behind an HMAC context: \<^verbatim>\<open>zuc_hmac_new\<close> imports it, the operations keep it and
  \<^verbatim>\<open>zuc_hmac_free\<close> destroys it, for an arbitrary backend. \<open>hmac_life P out w0 h w\<close>: the context \<open>h\<close>
  was created from \<open>w0\<close> and has been used in any way since, other parts of the program having
  done anything that balances its own keys and contexts in between.
\<close>

inductive hmac_life ::
  "('b, 'o) psa \<Rightarrow> (call_log \<times> 'b, 'o) world \<Rightarrow> ptr \<Rightarrow> (call_log \<times> 'b, 'o) world \<Rightarrow> bool" for P w0 h where
  created: "run_state (zuc_hmac_new (traced P) alg key key_len out) w0 = (ZUC_OK, w) \<Longrightarrow> h = w_cells w out \<Longrightarrow>
    hmac_life P w0 h w"
| updated: "hmac_life P w0 h w \<Longrightarrow> run_state (zuc_hmac_update (traced P) h data n) w = (st, w') \<Longrightarrow>
    hmac_life P w0 h w'"
| finished: "hmac_life P w0 h w \<Longrightarrow> run_state (zuc_hmac_finish (traced P) h out out_size out_len) w = (st, w') \<Longrightarrow>
    hmac_life P w0 h w'"
| reset: "hmac_life P w0 h w \<Longrightarrow> run_state (zuc_hmac_reset (traced P) h) w = (st, w') \<Longrightarrow> hmac_life P w0 h w'"
| elsewhere: "hmac_life P w0 h w \<Longrightarrow> w_hmacs w' h = w_hmacs w h \<Longrightarrow> owed w' = owed w \<Longrightarrow> w_live w' = w_live w \<Longrightarrow>
    hmac_life P w0 h w'"

text \<open>The context owns one key more than was owed before it was created.\<close>

definition hmac_owns :: "(call_log \<times> 'b, 'o) world \<Rightarrow> ptr \<Rightarrow> (call_log \<times> 'b, 'o) world \<Rightarrow> bool" where
  "hmac_owns w0 h w \<longleftrightarrow>
    (\<exists>x. h \<noteq> NULL \<and> w_hmacs w h = Some x \<and> owed w = add_mset (m_key x) (owed w0) \<and> w_live w = w_live w0 + 1)"

section \<open>Lemmas\<close>

lemma owed_keys_append: "owed_keys (l @ es) = foldl owed_step (owed_keys l) es"
  by (simp add: owed_keys_def)

lemma owed_import_hmac_key:
  "valid (\<lambda>w. owed w = M) (import_hmac_key (traced P) alg key kl palg)
     (\<lambda>r w. owed w = (if fst r = ZUC_OK then add_mset (snd r) M else M))"
proof -
  have if_import: "(if b then psa_import_key (traced P) attr d else psa_import_key (traced P) attr d') =
      psa_import_key (traced P) attr (if b then d else d')" for b attr d d'
    by simp
  have "valid (\<lambda>w. owed w = M)
      (case x of (ps, kb) \<Rightarrow>
        if ps \<noteq> PSA_SUCCESS then ret (zuc_int_from_psa ps, 0)
        else do {
          let attr = psa_key_attributes_init
                \<lparr>pa_usage := PSA_KEY_USAGE_SIGN_MESSAGE, pa_alg := palg, pa_type := PSA_KEY_TYPE_HMAC\<rparr>;
          (ps, id) \<leftarrow> (if kb = [] then psa_import_key (traced P) attr [0] else psa_import_key (traced P) attr kb);
          ret (zuc_int_from_psa ps, id)
        })
      (\<lambda>r w. owed w = (if fst r = ZUC_OK then add_mset (snd r) M else M))" for x
    unfolding Let_def if_import
    by (intro valid_case_prod valid_if valid_bind [OF owed_psa_import_key]) (auto simp: valid_def)
  then show ?thesis
    unfolding import_hmac_key_def Let_def
    by (intro valid_keeps_bind keeps_intros) simp_all
qed

lemma live_import_hmac_key: "keeps w_live (import_hmac_key P alg key kl palg)"
  unfolding import_hmac_key_def by (intro keeps_intros) simp_all

lemma hmac_key_kept:
  assumes "hmac_owns w0 h w"
  shows "run_state (zuc_hmac_update (traced P) h data n) w = (st, w') \<Longrightarrow> hmac_owns w0 h w'"
    and "run_state (zuc_hmac_finish (traced P) h out out_size out_len) w = (st, w') \<Longrightarrow> hmac_owns w0 h w'"
    and "run_state (zuc_hmac_reset (traced P) h) w = (st, w') \<Longrightarrow> hmac_owns w0 h w'"
  using assms
  by (auto simp: hmac_owns_def zuc_hmac_update_def zuc_hmac_finish_def zuc_hmac_reset_def deref_hmac_def traced_do
      owed_keys_append owed_step_other set_hmac_def Let_def split: if_splits prod.splits)

lemma hmac_new_owns:
  assumes "run_state (zuc_hmac_new (traced P) alg key key_len out) w = (st, w')"
  shows "if st = ZUC_OK then hmac_owns w (w_cells w' out) w' else owed w' = owed w \<and> w_live w' = w_live w"
proof (cases "out = NULL \<or> w_refcount w = 0 \<or> (key = NULL \<and> key_len \<noteq> 0) \<or> \<not> zuc_int_digest_available alg")
  case True
  then show ?thesis using assms by (auto simp: zuc_hmac_new_def word_gt_0 split: if_splits)
next
  case False
  let ?w1 = "w\<lparr>w_cells := (w_cells w)(out := NULL)\<rparr>" and ?palg = "PSA_ALG_HMAC (zuc_int_psa_hash alg)"
  obtain p w2 where alloc: "run_state calloc_hmac ?w1 = (p, w2)" by force
  have w2: "w_psa w2 = w_psa w" "w_live w2 = w_live w"
    using alloc by (auto simp: calloc_hmac_def run_c_alloc split: list.splits if_splits)
  obtain st3 k w3 where imp: "run_state (import_hmac_key (traced P) alg key key_len ?palg) w2 = ((st3, k), w3)"
    by (metis surj_pair)
  have w3: "owed w3 = (if st3 = ZUC_OK then add_mset k (owed w) else owed w)"
    using validD [OF owed_import_hmac_key refl imp] w2 by simp
  have live: "w_live w3 = w_live w"
    using keepsD [OF live_import_hmac_key imp] w2 by simp
  show ?thesis
    using assms False alloc imp w2 w3 live
    by (auto simp: zuc_hmac_new_def word_gt_0 Let_def traced_do owed_keys_append owed_step_other owed_step_def
        psa_destroy_key_def set_hmac_def free_struct_hmac_def hmac_owns_def split: if_splits prod.splits)
qed

lemma hmac_life_owns: "hmac_life P w0 h w \<Longrightarrow> hmac_owns w0 h w"
proof (induction rule: hmac_life.induct)
  case (created alg key key_len out w)
  then show ?case using hmac_new_owns [OF created(1)] by simp
next
  case (elsewhere w w')
  then show ?case by (auto simp: hmac_owns_def)
qed (blast intro: hmac_key_kept)+

lemma keeps_owed_hmac_compute:
  "keeps owed (zuc_hmac_compute (traced P) alg key key_len data data_len out out_size out_len)"
proof (rule keeps_validI)
  fix M
  have use: "valid (\<lambda>w. owed w = (if st = ZUC_OK then add_mset k M else M))
      (if st \<noteq> ZUC_OK then ret st
       else do {
         d \<leftarrow> (if data = NULL then ret [] else read_bytes data data_len);
         r \<leftarrow> psa_do (traced P) (MAC (Mac_compute k palg d out_size)) None;
         write_out out out_size (r_out r);
         write_size out_len (r_len r);
         psa_destroy_key (traced P) k;
         ret (zuc_int_from_psa (r_status r))
       }) (\<lambda>_ w. owed w = M)" for st k palg
    by (auto simp: valid_def traced_do owed_keys_append owed_step_other owed_step_def psa_destroy_key_def
        split: prod.splits)
  show "valid (\<lambda>w. owed w = M) (zuc_hmac_compute (traced P) alg key key_len data data_len out out_size out_len)
      (\<lambda>_ w. owed w = M)"
    unfolding zuc_hmac_compute_def Let_def
  proof (rule valid_keeps_bind, goal_cases)
    case 1
    show ?case unfolding check_digest_args_def by (intro keeps_intros)
  next
    case (2 st)
    have imp: "valid (\<lambda>w. owed w = M) (State_Monad.bind (write_size out_len 0)
        (\<lambda>_. State_Monad.bind (import_hmac_key (traced P) alg key key_len palg) (\<lambda>(st, k). f st k))) (\<lambda>_ w. owed w = M)"
      if "\<And>st k. valid (\<lambda>w. owed w = (if st = ZUC_OK then add_mset k M else M)) (f st k) (\<lambda>_ w. owed w = M)"
      for palg and f :: "zuc_status \<Rightarrow> psa_key_id_t \<Rightarrow> (call_log \<times> 'a, 'b, zuc_status) zuc"
      by (rule valid_keeps_bind, intro keeps_intros, simp, rule valid_bind [OF owed_import_hmac_key], rule valid_case_prod)
        (simp only: fst_conv snd_conv that)
    show ?case
      by (intro valid_if valid_ret_keep imp use)
  qed
qed

section \<open>Properties\<close>

text \<open>
  C20. An HMAC context owns exactly one backend key for its whole life. Whatever is done with it,
  successfully or not, and whatever the backend answers, once it is freed the backend holds the keys
  it held before the context was created and the count of live contexts is back; a failed creation
  and the one-shot function leave no key at all.
\<close>

theorem zuc_hmac_key_lifetime:
  "(hmac_life P w0 h w \<longrightarrow> run_state (zuc_hmac_free (traced P) h) w = (u, w') \<longrightarrow>
     owed w' = owed w0 \<and> w_live w' = w_live w0 \<and> w_hmacs w' h = None) \<and>
   (run_state (zuc_hmac_new (traced P) alg key key_len out) w0 = (st, w1) \<longrightarrow> st \<noteq> ZUC_OK \<longrightarrow>
     owed w1 = owed w0 \<and> w_live w1 = w_live w0) \<and>
   owed (snd (run_state (zuc_hmac_compute (traced P) alg key key_len data data_len mac mac_size mac_len) w0)) = owed w0"
proof (intro conjI impI)
  assume life: "hmac_life P w0 h w" and free: "run_state (zuc_hmac_free (traced P) h) w = (u, w')"
  obtain x where "h \<noteq> NULL" "w_hmacs w h = Some x" "owed w = add_mset (m_key x) (owed w0)" "w_live w = w_live w0 + 1"
    using hmac_life_owns [OF life] by (auto simp: hmac_owns_def)
  then show "owed w' = owed w0" "w_live w' = w_live w0" "w_hmacs w' h = None"
    using free
    by (auto simp: zuc_hmac_free_def deref_hmac_def traced_do owed_keys_append owed_step_other owed_step_def
        psa_destroy_key_def free_struct_hmac_def split: prod.splits)
next
  show "owed (snd (run_state (zuc_hmac_compute (traced P) alg key key_len data data_len mac mac_size mac_len) w0)) = owed w0"
    by (rule keeps_snd [OF keeps_owed_hmac_compute])
qed (use hmac_new_owns in fastforce)+

theorem zuc_hmac_key_lifetime_witness:
  "\<exists>w w'. hmac_life (scripted accept_all) (fresh_world ([], ()) [4096]) 4096 w \<and> owed w \<noteq> {#} \<and>
    run_state (zuc_hmac_free (traced (scripted accept_all)) 4096) w = ((), w') \<and> owed w' = {#}"
proof -
  let ?P = "scripted accept_all :: (unit, unit) psa" and ?w0 = "fresh_world ([], ()) [4096] :: (call_log \<times> unit, unit) world"
  obtain w where new: "run_state (zuc_hmac_new (traced ?P) ZUC_ALG_SHA256 8192 0 1) ?w0 = (ZUC_OK, w)" "w_cells w 1 = 4096"
    by (simp add: zuc_hmac_new_def zuc_int_digest_available_iff calloc_hmac_def run_c_alloc import_hmac_key_def Let_def
        psa_import_key_def traced_do scripted_def set_hmac_def PSA_HASH_BLOCK_LENGTH_def zuc_int_psa_hash_def)
  have life: "hmac_life ?P ?w0 4096 w"
    by (rule hmac_life.created [OF new(1)]) (simp add: new(2))
  obtain u w' where free: "run_state (zuc_hmac_free (traced ?P) 4096) w = (u, w')"
    by (metis surj_pair)
  have "owed w \<noteq> {#}"
    using hmac_life_owns [OF life] by (auto simp: hmac_owns_def)
  moreover have "owed w' = owed ?w0"
    using zuc_hmac_key_lifetime [of ?P ?w0 4096 w u w'] life free by blast
  ultimately show ?thesis
    using life free by (auto simp: owed_keys_def)
qed

end
