(* ===== verification/Key_Handles.thy ===== *)
theory Key_Handles
  imports Pkey R_Session Fixtures
begin

text \<open>
  The heap of key handles. A handle of \<^verbatim>\<open>zuc_pkey.c\<close> owns one block, the key's DER; the functions that
  make a handle, use it and free it are followed here through the allocator, with every failed
  allocation and every answer of the backend. \<open>key_client\<close> is any caller: it makes keys, uses and
  frees the ones it holds, and in between the process does what it likes with the rest of its memory.
\<close>

section \<open>What the key functions see of the heap\<close>

record key_state =
  ks_keys :: "ptr \<rightharpoonup> zuc_pkey"
  ks_blocks :: "ptr \<rightharpoonup> size_t"
  ks_live :: int
  ks_ub :: bool
  ks_allocs :: "ptr list"
  ks_cell :: ptr

definition ks :: "('b, 'o) world \<Rightarrow> key_state" where
  "ks w = \<lparr>ks_keys = w_pkeys w, ks_blocks = w_blocks w, ks_live = w_live w, ks_ub = w_ub w,
           ks_allocs = w_allocs w, ks_cell = w_cells w LOCAL\<rparr>"

lemma ks_simps:
  "ks_keys (ks w) = w_pkeys w" "ks_blocks (ks w) = w_blocks w" "ks_live (ks w) = w_live w" "ks_ub (ks w) = w_ub w"
  by (simp_all add: ks_def)

text \<open>The addresses the allocator will answer are different and not in use.\<close>

definition fresh :: "key_state \<Rightarrow> bool" where
  "fresh v \<longleftrightarrow> distinct (filter (\<lambda>p. p \<noteq> NULL) (ks_allocs v)) \<and>
    (\<forall>p \<in> set (ks_allocs v) - {NULL}. ks_keys v p = None \<and> ks_blocks v p = None)"

definition ksv :: "key_state \<Rightarrow> ('b, 'o, 'a) zuc \<Rightarrow> ('a \<Rightarrow> key_state \<Rightarrow> bool) \<Rightarrow> bool" where
  "ksv v m R \<longleftrightarrow> valid (\<lambda>w. ks w = v) m (\<lambda>r w. R r (ks w))"

text \<open>Nothing made, a block made, a handle with its block made.\<close>

definition same :: "key_state \<Rightarrow> key_state \<Rightarrow> bool" where
  "same v v' \<longleftrightarrow> fresh v' \<and> ks_keys v' = ks_keys v \<and> ks_blocks v' = ks_blocks v \<and> ks_live v' = ks_live v \<and>
    ks_ub v' = ks_ub v"

definition block_made :: "key_state \<Rightarrow> zuc_status \<times> ptr \<times> size_t \<Rightarrow> key_state \<Rightarrow> bool" where
  "block_made v x v' \<longleftrightarrow>
    (case x of (st, p, n) \<Rightarrow>
      if st = ZUC_OK
      then fresh v' \<and> ks_keys v' = ks_keys v \<and> ks_live v' = ks_live v \<and> ks_ub v' = ks_ub v \<and> p \<noteq> NULL \<and>
        ks_blocks v p = None \<and> (\<exists>k. ks_blocks v' = (ks_blocks v)(p \<mapsto> k))
      else same v v')"

definition key_made :: "key_state \<Rightarrow> zuc_status \<times> ptr \<Rightarrow> key_state \<Rightarrow> bool" where
  "key_made v x v' \<longleftrightarrow>
    (case x of (st, h) \<Rightarrow>
      if st = ZUC_OK
      then fresh v' \<and> ks_ub v' = ks_ub v \<and> ks_live v' = ks_live v + 1 \<and> h \<noteq> NULL \<and> ks_keys v h = None \<and>
        (\<exists>k. ks_keys v' h = Some k \<and> ks_keys v' = (ks_keys v)(h \<mapsto> k) \<and> k_der k \<noteq> NULL \<and>
          ks_blocks v (k_der k) = None \<and> (\<exists>n. ks_blocks v' = (ks_blocks v)(k_der k \<mapsto> n)))
      else h = NULL \<and> same v v')"

section \<open>Rules\<close>

lemma ksv_ret: "R x v \<Longrightarrow> ksv v (ret x) R"
  by (simp add: ksv_def valid_def)

lemma ksv_bind:
  assumes "ksv v m R" "\<And>r v'. R r v' \<Longrightarrow> ksv v' (k r) Q"
  shows "ksv v (State_Monad.bind m k) Q"
  using assms by (fastforce simp: ksv_def valid_def split: prod.splits)

lemma ksv_keeps_bind: "keeps ks m \<Longrightarrow> (\<And>r. ksv v (k r) Q) \<Longrightarrow> ksv v (State_Monad.bind m k) Q"
  unfolding ksv_def by (rule valid_keeps_bind)

lemma ksv_keeps: "keeps ks m \<Longrightarrow> (\<And>r. R r v) \<Longrightarrow> ksv v m R"
  by (auto simp: ksv_def valid_def dest: keepsD split: prod.splits)

lemma ksv_weaken: "ksv v m R \<Longrightarrow> (\<And>r v'. R r v' \<Longrightarrow> Q r v') \<Longrightarrow> ksv v m Q"
  by (auto simp: ksv_def valid_def split: prod.splits)

lemma ksv_if: "(b \<Longrightarrow> ksv v m R) \<Longrightarrow> (\<not> b \<Longrightarrow> ksv v m' R) \<Longrightarrow> ksv v (if b then m else m') R"
  by simp

lemma ksv_case_prod: "(\<And>a b. p = (a, b) \<Longrightarrow> ksv v (m a b) R) \<Longrightarrow> ksv v (case p of (a, b) \<Rightarrow> m a b) R"
  by (cases p) simp

lemma keeps_ks:
  "keeps ks (psa_do P c op)" "keeps ks (psa_import_key P attr d)" "keeps ks (psa_destroy_key P kid)"
  "keeps ks (write_bytes p bs)" "keeps ks (write_out p n bs)" "keeps ks (write_size p z)" "keeps ks (read_bytes p n)"
  "keeps ks (zuc_secure_zero p n)" "keeps ks zuc_int_ready" "keeps ks (clear_len p)"
  "keeps ks zuc_int_alloc_watch" "keeps ks (zuc_int_memory_or st)" "keeps ks (gets g)"
  unfolding clear_len_def zuc_int_alloc_watch_def zuc_int_memory_or_def
  by (intro keeps_intros keeps_modify; simp add: ks_def)+

lemma fresh_pop: "fresh v \<Longrightarrow> ks_allocs v = p # ps \<Longrightarrow> fresh (v\<lparr>ks_allocs := ps\<rparr>)"
  by (auto simp: fresh_def split: if_splits)

lemma ksv_run_bind:
  assumes "\<And>w. ks w = v \<Longrightarrow> ksv (ks (snd (run_state m w))) (k (fst (run_state m w))) Q"
  shows "ksv v (State_Monad.bind m k) Q"
  unfolding ksv_def
proof (rule validI)
  fix w r w'
  assume w: "ks w = v" and run: "run_state (State_Monad.bind m k) w = (r, w')"
  have "run_state (k (fst (run_state m w))) (snd (run_state m w)) = (r, w')"
    using run by (simp split: prod.splits)
  with assms [OF w] show "Q r (ks w')"
    by (auto simp: ksv_def dest: validD)
qed

text \<open>An allocation fails, or answers with an address that is not in use.\<close>

lemma allocator_cases:
  assumes "fresh (ks w)"
  obtains al w1 where "run_state c_alloc w = (NULL, w1)" "ks w1 = (ks w)\<lparr>ks_allocs := al\<rparr>" "fresh (ks w1)"
  | p al where "run_state c_alloc w = (p, w\<lparr>w_allocs := al\<rparr>)" "p \<noteq> NULL" "ks_keys (ks w) p = None"
      "ks_blocks (ks w) p = None" "fresh ((ks w)\<lparr>ks_allocs := al\<rparr>)" "p \<notin> set al"
proof (cases "w_allocs w")
  case Nil
  then show ?thesis using that(1) [of w "[]"] assms by (simp add: run_c_alloc ks_def)
next
  case (Cons p ps)
  then have pop: "fresh ((ks w)\<lparr>ks_allocs := ps\<rparr>)"
    using fresh_pop [OF assms, of p ps] by (simp add: ks_def)
  show ?thesis
  proof (cases "p = NULL")
    case True
    then show ?thesis
      using that(1) [of "w\<lparr>w_allocs := ps\<rparr>" ps] pop Cons by (simp add: run_c_alloc ks_def)
  next
    case False
    then show ?thesis
      using that(2) [of p ps] pop Cons assms by (simp add: run_c_alloc ks_def fresh_def)
  qed
qed

lemma ksv_malloc:
  assumes "fresh v"
    and "\<And>al. fresh (v\<lparr>ks_allocs := al\<rparr>) \<Longrightarrow> ksv (v\<lparr>ks_allocs := al\<rparr>) (k NULL) Q"
    and "\<And>p al. p \<noteq> NULL \<Longrightarrow> ks_keys v p = None \<Longrightarrow> ks_blocks v p = None \<Longrightarrow>
      fresh (v\<lparr>ks_allocs := al, ks_blocks := (ks_blocks v)(p \<mapsto> n)\<rparr>) \<Longrightarrow>
      ksv (v\<lparr>ks_allocs := al, ks_blocks := (ks_blocks v)(p \<mapsto> n)\<rparr>) (k p) Q"
  shows "ksv v (State_Monad.bind (malloc_bytes n) k) Q"
proof (rule ksv_run_bind)
  fix w :: "('a, 'b) world"
  assume v: "ks w = v"
  from assms(1) v have "fresh (ks w)" by simp
  then show "ksv (ks (snd (run_state (malloc_bytes n) w))) (k (fst (run_state (malloc_bytes n) w))) Q"
  proof (cases rule: allocator_cases)
    case (1 al w1)
    then show ?thesis using assms(2) [of al] v by (simp add: malloc_bytes_def)
  next
    case (2 p al)
    have e: "run_state (malloc_bytes n) w = (p, w\<lparr>w_allocs := al, w_blocks := (w_blocks w)(p \<mapsto> n)\<rparr>)"
      using 2(1,2) by (simp add: malloc_bytes_def)
    have "ks (w\<lparr>w_allocs := al, w_blocks := (w_blocks w)(p \<mapsto> n)\<rparr>) =
        v\<lparr>ks_allocs := al, ks_blocks := (ks_blocks v)(p \<mapsto> n)\<rparr>"
      using v by (auto simp: ks_def)
    moreover have "fresh (v\<lparr>ks_allocs := al, ks_blocks := (ks_blocks v)(p \<mapsto> n)\<rparr>)"
      using 2(5,6) v by (auto simp: fresh_def)
    ultimately show ?thesis
      using assms(3) [of p al] 2(2-4) v by (simp add: e)
  qed
qed

lemma ksv_calloc:
  assumes "fresh v"
    and "\<And>al. fresh (v\<lparr>ks_allocs := al\<rparr>) \<Longrightarrow> ksv (v\<lparr>ks_allocs := al\<rparr>) (k NULL) Q"
    and "\<And>p al. p \<noteq> NULL \<Longrightarrow> ks_keys v p = None \<Longrightarrow> ks_blocks v p = None \<Longrightarrow>
      fresh (v\<lparr>ks_allocs := al, ks_keys := (ks_keys v)(p \<mapsto> zero_pkey)\<rparr>) \<Longrightarrow>
      ksv (v\<lparr>ks_allocs := al, ks_keys := (ks_keys v)(p \<mapsto> zero_pkey)\<rparr>) (k p) Q"
  shows "ksv v (State_Monad.bind calloc_pkey k) Q"
proof (rule ksv_run_bind)
  fix w :: "('a, 'b) world"
  assume v: "ks w = v"
  from assms(1) v have "fresh (ks w)" by simp
  then show "ksv (ks (snd (run_state calloc_pkey w))) (k (fst (run_state calloc_pkey w))) Q"
  proof (cases rule: allocator_cases)
    case (1 al w1)
    then show ?thesis using assms(2) [of al] v by (simp add: calloc_pkey_def)
  next
    case (2 p al)
    have e: "run_state calloc_pkey w = (p, w\<lparr>w_allocs := al, w_pkeys := (w_pkeys w)(p \<mapsto> zero_pkey)\<rparr>)"
      using 2(1,2) by (simp add: calloc_pkey_def)
    have "ks (w\<lparr>w_allocs := al, w_pkeys := (w_pkeys w)(p \<mapsto> zero_pkey)\<rparr>) =
        v\<lparr>ks_allocs := al, ks_keys := (ks_keys v)(p \<mapsto> zero_pkey)\<rparr>"
      using v by (auto simp: ks_def)
    moreover have "fresh (v\<lparr>ks_allocs := al, ks_keys := (ks_keys v)(p \<mapsto> zero_pkey)\<rparr>)"
      using 2(5,6) v by (auto simp: fresh_def)
    ultimately show ?thesis
      using assms(3) [of p al] 2(2-4) v by (simp add: e)
  qed
qed

lemma ksv_set_pkey:
  "ksv (v\<lparr>ks_keys := (ks_keys v)(p \<mapsto> x)\<rparr>) (k ()) Q \<Longrightarrow> ksv v (State_Monad.bind (set_pkey p x) k) Q"
  by (rule ksv_run_bind) (auto simp: set_pkey_def ks_def)

lemma ksv_free_struct:
  "ksv (v\<lparr>ks_keys := (ks_keys v)(p := None)\<rparr>) (k ()) Q \<Longrightarrow> ksv v (State_Monad.bind (free_struct_pkey p) k) Q"
  by (rule ksv_run_bind) (auto simp: free_struct_pkey_def ks_def)

lemma ksv_live_add:
  "ksv (v\<lparr>ks_live := ks_live v + i\<rparr>) (k ()) Q \<Longrightarrow> ksv v (State_Monad.bind (zuc_int_live_add i) k) Q"
  by (rule ksv_run_bind) (auto simp: ks_def)

lemma ksv_write_cell:
  "ksv (v\<lparr>ks_cell := c\<rparr>) (k ()) Q \<Longrightarrow> ksv v (State_Monad.bind (write_cell LOCAL c) k) Q"
  by (rule ksv_run_bind) (auto simp: ks_def)

lemma ksv_free_bytes:
  assumes "p = NULL \<Longrightarrow> ksv v (k ()) Q" "p \<noteq> NULL \<Longrightarrow> ks_blocks v p \<noteq> None"
    and "p \<noteq> NULL \<Longrightarrow> ksv (v\<lparr>ks_blocks := (ks_blocks v)(p := None)\<rparr>) (k ()) Q"
  shows "ksv v (State_Monad.bind (free_bytes p) k) Q"
  by (rule ksv_run_bind) (use assms in \<open>auto simp: free_bytes_def ks_def split: if_splits\<close>)

lemma ksv_deref:
  "ks_keys v p = Some y \<Longrightarrow> ksv v (k y) Q \<Longrightarrow> ksv v (State_Monad.bind (deref_pkey p) k) Q"
  by (rule ksv_run_bind) (auto simp: deref_pkey_def ks_def)

lemma ksv_bind_shape:
  "ksv v (k x) Q \<Longrightarrow> ksv v (State_Monad.bind (ret x) k) Q"
  "(b \<Longrightarrow> ksv v (State_Monad.bind m k) Q) \<Longrightarrow> (\<not> b \<Longrightarrow> ksv v (State_Monad.bind m' k) Q) \<Longrightarrow>
    ksv v (State_Monad.bind (if b then m else m') k) Q"
  "ksv v (State_Monad.bind l (\<lambda>x. State_Monad.bind (f x) k)) Q \<Longrightarrow> ksv v (State_Monad.bind (State_Monad.bind l f) k) Q"
  by simp_all

lemma ksv_let: "ksv v (m x) Q \<Longrightarrow> ksv v (let y = x in m y) Q"
  by simp

lemmas ksv_rules = ksv_bind_shape ksv_if ksv_let ksv_case_prod ksv_malloc ksv_calloc ksv_set_pkey ksv_free_struct
  ksv_live_add ksv_write_cell ksv_free_bytes keeps_ks [THEN ksv_keeps_bind] ksv_ret

lemma fresh_less:
  assumes "fresh v" "ks_allocs v' = ks_allocs v" "\<And>p. ks_keys v p = None \<Longrightarrow> ks_keys v' p = None"
    and "\<And>p. ks_blocks v p = None \<Longrightarrow> ks_blocks v' p = None"
  shows "fresh v'"
  using assms by (auto simp: fresh_def)

lemma upd_same: "\<exists>y. m(p \<mapsto> x) = m(p \<mapsto> y)" "m p = None \<Longrightarrow> m(p := None) = m"
  by (blast, auto)

lemmas made_simps = key_made_def block_made_def same_def upd_same

lemma from_psa_made:
  assumes "fresh v"
  shows "ksv v (pkey_from_psa P kid wp) (\<lambda>x v'. key_made v x v' \<and> ks_cell v' = ks_cell v)"
  unfolding pkey_from_psa_def
  by (intro ksv_rules) (simp_all add: assms made_simps split del: if_split, (erule fresh_less; fastforce split: if_splits)+)

lemma fresh_cell [simp]: "fresh (v\<lparr>ks_cell := c\<rparr>) = fresh v"
  by (simp add: fresh_def)

lemma made_cell [simp]:
  "key_made (v\<lparr>ks_cell := c\<rparr>) x v' = key_made v x v'" "key_made v x (v'\<lparr>ks_cell := c\<rparr>) = key_made v x v'"
  by (auto simp: made_simps)

lemma same_refl: "fresh v \<Longrightarrow> same v v"
  by (simp add: same_def)

lemma same_then:
  assumes "same v v1"
  shows "same v1 v' \<Longrightarrow> same v v'" "key_made v1 x v' \<Longrightarrow> key_made v x v'" "block_made v1 y v' \<Longrightarrow> block_made v y v'"
    "fresh v1"
  using assms by (auto simp: made_simps split: prod.splits if_splits)

lemma key_made_fresh: "key_made v x v' \<Longrightarrow> fresh v'"
  by (auto simp: made_simps split: prod.splits if_splits)

lemma no_key_made: "st \<noteq> ZUC_OK \<Longrightarrow> same v v' \<Longrightarrow> key_made v (st, NULL) v'"
  by (simp add: key_made_def)

lemma ksv_deref_the: "ks_keys v p \<noteq> None \<Longrightarrow> ksv v (k (the (ks_keys v p))) Q \<Longrightarrow> ksv v (State_Monad.bind (deref_pkey p) k) Q"
  by (cases "ks_keys v p") (simp_all add: ksv_deref)

text \<open>Freeing a handle that has just been made leaves nothing of it.\<close>

lemma ksv_pkey_free:
  assumes "ks_keys v h = Some k" "h \<noteq> NULL" "k_der k \<noteq> NULL \<Longrightarrow> ks_blocks v (k_der k) \<noteq> None"
    and "ksv (v\<lparr>ks_keys := (ks_keys v)(h := None), ks_live := ks_live v - 1,
      ks_blocks := (if k_der k = NULL then ks_blocks v else (ks_blocks v)(k_der k := None))\<rparr>) (l ()) Q"
  shows "ksv v (State_Monad.bind (zuc_pkey_free h) l) Q"
  by (rule ksv_run_bind)
    (use assms in \<open>auto simp: zuc_pkey_free_def pkey_destroy_def deref_pkey_def run_zuc_secure_zero free_bytes_def
      free_struct_pkey_def ks_def split: if_splits\<close>)

lemma ksv_free_null: "ksv v (l ()) Q \<Longrightarrow> ksv v (State_Monad.bind (zuc_pkey_free NULL) l) Q"
  by (simp add: zuc_pkey_free_def)

lemma ksv_free_made:
  assumes "key_made v (st, h) v'" "\<And>v''. same v v'' \<Longrightarrow> ks_cell v'' = ks_cell v' \<Longrightarrow> ksv v'' (l ()) Q"
  shows "ksv v' (State_Monad.bind (zuc_pkey_free h) l) Q"
proof (cases "st = ZUC_OK")
  case False
  then show ?thesis
    using assms ksv_free_null by (auto simp: key_made_def)
next
  case True
  then obtain k n where k: "fresh v'" "ks_ub v' = ks_ub v" "ks_live v' = ks_live v + 1" "h \<noteq> NULL" "ks_keys v h = None"
      "ks_keys v' = (ks_keys v)(h \<mapsto> k)" "k_der k \<noteq> NULL" "ks_blocks v (k_der k) = None"
      "ks_blocks v' = (ks_blocks v)(k_der k \<mapsto> n)"
    using assms(1) by (auto simp: key_made_def)
  show ?thesis
  proof (rule ksv_pkey_free [of _ _ k], unfold if_not_P [OF k(7)])
    show "ksv (v'\<lparr>ks_keys := (ks_keys v')(h := None), ks_live := ks_live v' - 1,
        ks_blocks := (ks_blocks v')(k_der k := None)\<rparr>) (l ()) Q"
      using k by (intro assms(2)) (auto simp: same_def elim!: fresh_less)
  qed (use k in simp_all)
qed

section \<open>Making keys\<close>

lemma store_made:
  assumes "key_made v x v1" "ks_cell v1 = NULL"
  shows "ksv v1 (store_ok LOCAL x) (\<lambda>st v'. key_made v (st, ks_cell v') v' \<and> (st = ZUC_OK \<longrightarrow> ks_cell v' = snd x))"
proof (cases x)
  case (Pair st h)
  then show ?thesis
    using assms unfolding store_ok_def
    by (intro ksv_if ksv_write_cell ksv_ret) (auto simp: key_made_def)
qed

lemma store_made_weak:
  "key_made v x v1 \<Longrightarrow> ks_cell v1 = NULL \<Longrightarrow> ksv v1 (store_ok LOCAL x) (\<lambda>st v'. key_made v (st, ks_cell v') v')"
  by (rule ksv_weaken [OF store_made]) auto

lemma import_impl_made:
  assumes "fresh v"
  shows "ksv v (pkey_import_impl P type pk d LOCAL) (\<lambda>st v'. key_made v (st, ks_cell v') v')"
  unfolding pkey_import_impl_def
  by (cases d; simp only: option.case; intro ksv_rules ksv_bind [OF from_psa_made] store_made_weak)
    (use assms in \<open>auto simp: no_key_made same_def\<close>)

lemma generate_impl_made:
  assumes "fresh v"
  shows "ksv v (pkey_generate_impl P type bits LOCAL) (\<lambda>st v'. key_made v (st, ks_cell v') v')"
  unfolding pkey_generate_impl_def
  by (intro ksv_rules ksv_bind [OF from_psa_made] store_made_weak) (use assms in \<open>auto simp: no_key_made same_def\<close>)

lemma keeps_pkey_import: "keeps ks (pkey_import P k alg usage)"
  unfolding pkey_import_def
  by (intro keeps_bind keeps_case_prod keeps_ret keeps_ks)

text \<open>A use of a handle is given one that is allocated, or NULL.\<close>

definition held :: "key_state \<Rightarrow> ptr \<Rightarrow> bool" where
  "held v h \<longleftrightarrow> h = NULL \<or> ks_keys v h \<noteq> None"

lemma public_core_made:
  assumes "fresh v" "held v key"
  shows "ksv v (pkey_public_core P key) (\<lambda>x v'. key_made v x v' \<and> ks_cell v' = ks_cell v)"
  unfolding pkey_public_core_def
  by (intro ksv_rules ksv_deref_the ksv_bind [OF from_psa_made] keeps_pkey_import [THEN ksv_keeps_bind])
    (use assms in \<open>auto simp: no_key_made same_def held_def\<close>)

lemma held_cell [simp]: "held (v\<lparr>ks_cell := c\<rparr>) h = held v h"
  by (simp add: held_def)

lemma public_impl_made:
  assumes "fresh v" "held v key"
  shows "ksv v (pkey_public_impl P key LOCAL) (\<lambda>st v'. key_made v (st, ks_cell v') v')"
  unfolding pkey_public_impl_def
  by (intro ksv_rules ksv_bind [OF public_core_made] store_made_weak) (use assms in \<open>auto simp: no_key_made same_def\<close>)

lemma parse_tail_made:
  assumes "key_made v x v1" "ks_cell v1 = NULL"
  shows "ksv v1 (do {
      st \<leftarrow> store_ok LOCAL x;
      if st = ZUC_OK \<and> pk then do {
        k \<leftarrow> deref_pkey (snd x);
        if \<not> k_is_private k then do { zuc_pkey_free (snd x); write_cell LOCAL NULL; ret ZUC_ERR_INVALID_ARGUMENT }
        else ret st
      }
      else ret st }) (\<lambda>st v'. key_made v (st, ks_cell v') v')"
proof (cases "fst x = ZUC_OK")
  case False
  then show ?thesis
    using assms by (cases x) (auto simp: store_ok_def key_made_def intro!: ksv_ret)
next
  case True
  then obtain h where x: "x = (ZUC_OK, h)" by (cases x) auto
  have m: "key_made v (ZUC_OK, h) (v1\<lparr>ks_cell := h\<rparr>)" using assms(1) x by simp
  show ?thesis
    unfolding x store_ok_def prod.sel if_P [OF refl] State_Monad.bind_assoc State_Monad.bind_left_identity
  proof (intro ksv_write_cell ksv_if ksv_deref_the)
    show "ks_keys (v1\<lparr>ks_cell := h\<rparr>) h \<noteq> None" using m by (auto simp: key_made_def)
  next
    show "ksv (v1\<lparr>ks_cell := h\<rparr>)
        (do { zuc_pkey_free h; write_cell LOCAL NULL; ret ZUC_ERR_INVALID_ARGUMENT })
        (\<lambda>st v'. key_made v (st, ks_cell v') v')"
    proof (rule ksv_free_made [OF m])
      fix v'' assume s: "same v v''"
      have "key_made v (ZUC_ERR_INVALID_ARGUMENT, NULL) (v''\<lparr>ks_cell := NULL\<rparr>)"
        using no_key_made [OF _ s] by simp
      then show "ksv v'' (do { write_cell LOCAL NULL; ret ZUC_ERR_INVALID_ARGUMENT })
          (\<lambda>st v'. key_made v (st, ks_cell v') v')"
        by (intro ksv_write_cell ksv_ret) simp
    qed
  qed (use m in \<open>simp_all add: ksv_ret\<close>)
qed

lemma parse_import_made:
  assumes "fresh v" "ks_cell v = NULL"
  shows "ksv v (parse_import P pk is_pair attr ctx LOCAL) (\<lambda>st v'. key_made v (st, ks_cell v') v')"
  unfolding parse_import_def
  by (intro ksv_rules ksv_bind [OF from_psa_made] parse_tail_made)
    (use assms in \<open>auto simp: no_key_made same_def\<close>)

lemma keeps_parse: "keeps ks (parse_input P d pk)" "keeps ks (parse_attributes P is_pair ctx)"
  unfolding parse_input_def parse_attributes_def
  by (intro keeps_bind keeps_if keeps_ret keeps_ks)+

lemma made_from:
  assumes "same v v1"
  shows "ksv v1 (pkey_import_impl P type pk d LOCAL) (\<lambda>st v'. key_made v (st, ks_cell v') v')"
    and "ks_cell v1 = NULL \<Longrightarrow>
      ksv v1 (parse_import P pk is_pair attr ctx LOCAL) (\<lambda>st v'. key_made v (st, ks_cell v') v')"
  using same_then(2) [OF assms]
  by (blast intro: ksv_weaken [OF import_impl_made [OF same_then(4) [OF assms]]]
      ksv_weaken [OF parse_import_made [OF same_then(4) [OF assms]]])+

lemma parse_status_failed: "r \<noteq> 0 \<Longrightarrow> parse_status r \<noteq> ZUC_OK"
  by (simp add: parse_status_def)

lemma parse_impl_made:
  assumes "fresh v"
  shows "ksv v (pkey_parse_impl P inp len pk LOCAL) (\<lambda>st v'. key_made v (st, ks_cell v') v')"
  unfolding pkey_parse_impl_def
  by (intro ksv_rules keeps_parse [THEN ksv_keeps_bind] made_from,
      use assms in \<open>auto simp: key_made_def same_def parse_status_failed\<close>) (erule fresh_less; fastforce split: if_splits)+

section \<open>Using keys\<close>

lemma public_der_made:
  assumes "fresh v" "ks_keys v key \<noteq> None" "key \<noteq> NULL"
  shows "ksv v (public_der P key) (\<lambda>x v'. block_made v x v')"
  unfolding public_der_def
proof (rule ksv_deref_the [OF assms(2)], rule ksv_if)
  show "ksv v (do { p \<leftarrow> malloc_bytes (k_der_len (the (ks_keys v key)));
      if p = NULL then ret (ZUC_ERR_MEMORY, NULL, 0)
      else do { d \<leftarrow> read_bytes (k_der (the (ks_keys v key))) (k_der_len (the (ks_keys v key)));
        write_bytes p d; ret (ZUC_OK, p, k_der_len (the (ks_keys v key))) } }) (\<lambda>x v'. block_made v x v')"
    by (intro ksv_rules) (use assms in \<open>auto simp: made_simps elim!: fresh_less\<close>)
next
  show "ksv v (do { (st, pub) \<leftarrow> pkey_public_core P key;
      if st \<noteq> ZUC_OK then ret (st, NULL, 0)
      else if pub = NULL then ret (ZUC_ERR_INTERNAL, NULL, 0)
      else do { q \<leftarrow> deref_pkey pub; set_pkey pub (q\<lparr>k_der := NULL, k_der_len := 0\<rparr>); zuc_pkey_free pub;
        ret (ZUC_OK, k_der q, k_der_len q) } }) (\<lambda>x v'. block_made v x v')"
  proof (rule ksv_bind [OF public_core_made [OF assms(1)]], use assms in \<open>simp add: held_def\<close>, rule ksv_case_prod)
    fix x v' st pub
    assume m: "key_made v x v' \<and> ks_cell v' = ks_cell v" and x: "x = (st, pub)"
    show "ksv v' (if st \<noteq> ZUC_OK then ret (st, NULL, 0)
      else if pub = NULL then ret (ZUC_ERR_INTERNAL, NULL, 0)
      else do { q \<leftarrow> deref_pkey pub; set_pkey pub (q\<lparr>k_der := NULL, k_der_len := 0\<rparr>); zuc_pkey_free pub;
        ret (ZUC_OK, k_der q, k_der_len q) }) (\<lambda>x v'. block_made v x v')"
    proof (cases "st = ZUC_OK")
      case False
      then show ?thesis using m x by (auto intro!: ksv_ret simp: key_made_def block_made_def)
    next
      case True
      with m x obtain k where k: "ks_keys v' pub = Some k" and
        n: "fresh v'" "ks_ub v' = ks_ub v" "ks_live v' = ks_live v + 1" "pub \<noteq> NULL" "ks_keys v pub = None"
        "ks_keys v' = (ks_keys v)(pub \<mapsto> k)" "k_der k \<noteq> NULL" "ks_blocks v (k_der k) = None"
        "\<exists>n. ks_blocks v' = (ks_blocks v)(k_der k \<mapsto> n)"
        by (auto simp: key_made_def)
      then show ?thesis
        unfolding True
        by (simp, intro ksv_deref [OF k] ksv_set_pkey ksv_pkey_free ksv_ret)
          (auto simp: block_made_def elim!: fresh_less)
    qed
  qed
qed

lemmas ksv_import_rules = keeps_pkey_import [THEN ksv_keeps_bind]

lemma pkcs8_wrap_made:
  assumes "fresh v"
  shows "ksv v (pkcs8_wrap p n) (\<lambda>x v'. block_made v x v')"
  unfolding pkcs8_wrap_def
  by (intro ksv_rules) (use assms in \<open>auto simp: made_simps elim!: fresh_less\<close>)

lemma spki_der_made:
  assumes "fresh v"
  shows "ksv v (spki_der P k) (\<lambda>x v'. block_made v x v')"
  unfolding spki_der_def
  by (intro ksv_rules ksv_import_rules, use assms in \<open>auto simp: made_simps\<close>) (erule fresh_less; fastforce split: if_splits)+

lemma second_block:
  "(if p = q then Some k else B p) = None \<Longrightarrow> B q = None \<Longrightarrow> \<exists>k'. B(p \<mapsto> n, q := None) = B(p \<mapsto> k')"
  "(if p = q then Some k else B p) = None \<Longrightarrow> B q = None \<Longrightarrow> B p = None"
  by (force simp: fun_upd_twist split: if_splits)+

lemma ec_encode_made:
  assumes "fresh v" "ks_keys v key \<noteq> None" "key \<noteq> NULL"
  shows "ksv v (ec_encode P key format po) (\<lambda>x v'. block_made v (fst x) v')"
  unfolding ec_encode_def
  by (intro ksv_rules ksv_deref_the ksv_bind [OF spki_der_made] ksv_bind [OF public_der_made],
      use assms in \<open>auto simp: made_simps\<close>)
    ((erule fresh_less; fastforce split: if_splits) | erule (1) second_block)+

lemma write_encode_made:
  assumes "fresh v" "ks_keys v key \<noteq> None" "key \<noteq> NULL"
  shows "ksv v (write_encode P key format po) (\<lambda>x v'. block_made v (fst x) v')"
  unfolding write_encode_def
  by (intro ksv_rules ksv_deref_the ksv_bind [OF spki_der_made] ksv_bind [OF public_der_made]
      ksv_bind [OF pkcs8_wrap_made] ec_encode_made)
    (use assms in \<open>auto simp: made_simps elim!: fresh_less\<close>)

lemma keeps_write_output: "keeps ks (write_output P format label der der_len out os ol)"
  unfolding write_output_def
  by (intro keeps_bind keeps_if keeps_ret keeps_ks)

lemma uses_same:
  assumes "fresh v" "held v key"
  shows "ksv v (pkey_sign_hash_impl P key a b c d e f g) (\<lambda>st. same v)"
    and "ksv v (pkey_verify_hash_impl P key a b c d e f) (\<lambda>st. same v)"
    and "ksv v (pkey_encrypt_impl P key a b c d e f g) (\<lambda>st. same v)"
    and "ksv v (pkey_decrypt_impl P key a b c d e f g) (\<lambda>st. same v)"
  unfolding pkey_sign_hash_impl_def pkey_verify_hash_impl_def pkey_encrypt_impl_def pkey_decrypt_impl_def
  by (intro ksv_rules ksv_deref_the ksv_import_rules, use assms in \<open>auto simp: same_def held_def\<close>)+

lemma write_impl_same:
  assumes "fresh v" "held v key"
  shows "ksv v (pkey_write_impl P key format po out os ol) (\<lambda>st. same v)"
  unfolding pkey_write_impl_def
  by (intro ksv_rules ksv_deref_the ksv_bind [OF write_encode_made] keeps_write_output [THEN ksv_keeps_bind],
      use assms in \<open>auto simp: made_simps held_def\<close>) (erule fresh_less; fastforce split: if_splits)+

lemma export_impl_same:
  assumes "fresh v" "held v key"
  shows "ksv v (pkey_export_impl P key po out os ol) (\<lambda>st. same v)"
  unfolding pkey_export_impl_def
  by (intro ksv_rules ksv_deref_the ksv_bind [OF public_der_made],
      use assms in \<open>auto simp: made_simps held_def\<close>) (erule fresh_less; fastforce split: if_splits)+

lemma agree_impl_same:
  assumes "fresh v" "held v key" "held v peer"
  shows "ksv v (pkey_agree_impl P key peer out os ol) (\<lambda>st. same v)"
  unfolding pkey_agree_impl_def
  by (intro ksv_rules ksv_deref_the ksv_bind [OF public_der_made] ksv_import_rules,
      use assms in \<open>auto simp: made_simps held_def\<close>) (erule fresh_less; fastforce split: if_splits)+

section \<open>The exported functions\<close>

lemma memory_or_made:
  assumes "key_made v (st, ks_cell v') v'"
  shows "ksv v' (zuc_int_memory_or st) (\<lambda>st v'. key_made v (st, ks_cell v') v')"
  unfolding ksv_def
proof (rule validI)
  fix w r w'
  assume "ks w = v'" "run_state (zuc_int_memory_or st) w = (r, w')"
  then have "ks w' = v'" "r = st \<or> st \<noteq> ZUC_OK \<and> r = ZUC_ERR_MEMORY"
    by (auto simp: run_zuc_int_memory_or split: if_splits)
  then show "key_made v (r, ks_cell (ks w')) (ks w')"
    using assms by (auto simp: key_made_def)
qed

lemma watched_made:
  assumes "ksv v m (\<lambda>st v'. key_made v (st, ks_cell v') v')"
  shows "ksv v (watched m) (\<lambda>st v'. key_made v (st, ks_cell v') v')"
  unfolding watched_def
  by (intro keeps_ks(11) [THEN ksv_keeps_bind] ksv_bind [OF assms] memory_or_made)

lemma watched_same: "ksv v m (\<lambda>st. same v) \<Longrightarrow> ksv v (watched m) (\<lambda>st. same v)"
  unfolding watched_def
  by (intro ksv_rules, erule ksv_bind, rule ksv_keeps [OF keeps_ks(12)]) simp

lemma with_out_made:
  assumes "ksv (v\<lparr>ks_cell := NULL\<rparr>) (f LOCAL) (\<lambda>st v'. key_made (v\<lparr>ks_cell := NULL\<rparr>) (st, ks_cell v') v')"
  shows "ksv v (with_out f) (key_made v)"
  unfolding with_out_def
  by (intro ksv_write_cell ksv_bind [OF assms], rule ksv_run_bind) (auto simp: ks_def intro!: ksv_ret)

lemma with_len_same: "ksv v (f LOCAL) (\<lambda>st. same v) \<Longrightarrow> ksv v (with_len f) (\<lambda>x. same v)"
  unfolding with_len_def
  by (intro ksv_rules, erule ksv_bind, intro ksv_rules)

lemma keys_made:
  assumes "fresh v"
  shows "ksv v (with_out (zuc_pkey_parse P inp len pk)) (key_made v)"
    and "ksv v (with_out (zuc_pkey_generate P type bits)) (key_made v)"
    and "ksv v (with_out (zuc_pkey_import P type pk data n)) (key_made v)"
    and "held v key \<Longrightarrow> ksv v (with_out (zuc_pkey_public P key)) (key_made v)"
  unfolding zuc_pkey_parse_def zuc_pkey_generate_def zuc_pkey_import_def zuc_pkey_public_def
  by (intro with_out_made watched_made ksv_rules parse_impl_made generate_impl_made import_impl_made public_impl_made;
      simp add: assms)+

lemma keys_used:
  assumes "fresh v" "held v key"
  shows "ksv v (zuc_pkey_sign_hash P key a b c d e f g) (\<lambda>st. same v)"
    and "ksv v (zuc_pkey_verify_hash P key a b c d e f) (\<lambda>st. same v)"
    and "ksv v (zuc_pkey_encrypt P key a b c d e f g) (\<lambda>st. same v)"
    and "ksv v (zuc_pkey_decrypt P key a b c d e f g) (\<lambda>st. same v)"
    and "ksv v (zuc_pkey_write P key t po c d e) (\<lambda>st. same v)"
    and "ksv v (zuc_pkey_export P key po c d e) (\<lambda>st. same v)"
    and "held v peer \<Longrightarrow> ksv v (zuc_pkey_agree P key peer c d e) (\<lambda>st. same v)"
  unfolding zuc_pkey_sign_hash_def zuc_pkey_verify_hash_def zuc_pkey_encrypt_def zuc_pkey_decrypt_def
    zuc_pkey_write_def zuc_pkey_export_def zuc_pkey_agree_def
  by (intro watched_same uses_same write_impl_same export_impl_same agree_impl_same assms; assumption)+

section \<open>Clients\<close>

inductive key_maker :: "('b, 'o) psa \<Rightarrow> ptr set \<Rightarrow> (ptr \<Rightarrow> ('b, 'o, zuc_status) zuc) \<Rightarrow> bool" for P hs where
  parse: "key_maker P hs (zuc_pkey_parse P inp len pk)"
| generate: "key_maker P hs (zuc_pkey_generate P type bits)"
| import_raw: "key_maker P hs (zuc_pkey_import P type pk data n)"
| public: "key \<in> hs \<Longrightarrow> key_maker P hs (zuc_pkey_public P key)"

inductive key_user :: "('b, 'o) psa \<Rightarrow> ptr set \<Rightarrow> ('b, 'o, zuc_status) zuc \<Rightarrow> bool" for P hs where
  sign: "key \<in> hs \<Longrightarrow> key_user P hs (zuc_pkey_sign_hash P key a b c d e f g)"
| verify: "key \<in> hs \<Longrightarrow> key_user P hs (zuc_pkey_verify_hash P key a b c d e f)"
| encrypt: "key \<in> hs \<Longrightarrow> key_user P hs (zuc_pkey_encrypt P key a b c d e f g)"
| decrypt: "key \<in> hs \<Longrightarrow> key_user P hs (zuc_pkey_decrypt P key a b c d e f g)"
| encode: "key \<in> hs \<Longrightarrow> key_user P hs (zuc_pkey_write P key t po c d e)"
| export: "key \<in> hs \<Longrightarrow> key_user P hs (zuc_pkey_export P key po c d e)"
| agree: "key \<in> hs \<Longrightarrow> peer \<in> hs \<Longrightarrow> key_user P hs (zuc_pkey_agree P key peer c d e)"

text \<open>\<open>hs\<close> are the handles the client holds.\<close>

inductive key_client :: "('b, 'o) psa \<Rightarrow> ('b, 'o) world \<Rightarrow> ptr set \<Rightarrow> ('b, 'o) world \<Rightarrow> bool" for P w0 where
  start: "fresh (ks w0) \<Longrightarrow> key_client P w0 {} w0"
| make: "key_client P w0 hs w \<Longrightarrow> key_maker P hs m \<Longrightarrow> run_state (with_out m) w = ((st, h), w') \<Longrightarrow>
    key_client P w0 (if st = ZUC_OK then insert h hs else hs) w'"
| apply_key: "key_client P w0 hs w \<Longrightarrow> key_user P hs m \<Longrightarrow> run_state m w = (st, w') \<Longrightarrow> key_client P w0 hs w'"
| free: "key_client P w0 hs w \<Longrightarrow> h \<in> hs \<Longrightarrow> run_state (zuc_pkey_free h) w = (u, w') \<Longrightarrow>
    key_client P w0 (hs - {h}) w'"
| elsewhere: "key_client P w0 hs w \<Longrightarrow>
    fresh (ks (w\<lparr>w_mem := m, w_sizes := ss, w_cells := cs, w_allocs := ps\<rparr>)) \<Longrightarrow>
    key_client P w0 hs (w\<lparr>w_mem := m, w_sizes := ss, w_cells := cs, w_allocs := ps\<rparr>)"

text \<open>The handles the client holds, each with a block of its own, and nothing else that was not there.\<close>

definition holds_keys :: "key_state \<Rightarrow> ptr set \<Rightarrow> key_state \<Rightarrow> bool" where
  "holds_keys v0 hs v \<longleftrightarrow> fresh v \<and> finite hs \<and> NULL \<notin> hs \<and>
    (\<forall>h \<in> hs. ks_keys v0 h = None) \<and> (\<forall>h. h \<notin> hs \<longrightarrow> ks_keys v h = ks_keys v0 h) \<and>
    (\<exists>der. inj_on der hs \<and>
       (\<forall>h \<in> hs. map_option k_der (ks_keys v h) = Some (der h) \<and> der h \<noteq> NULL \<and> ks_blocks v0 (der h) = None \<and>
          ks_blocks v (der h) \<noteq> None) \<and>
       (\<forall>p. p \<notin> der ` hs \<longrightarrow> ks_blocks v p = ks_blocks v0 p)) \<and>
    ks_live v = ks_live v0 + int (card hs) \<and> ks_ub v = ks_ub v0"

lemma holds_keysI:
  assumes "fresh v" "finite hs" "NULL \<notin> hs" "\<forall>h \<in> hs. ks_keys v0 h = None"
    "\<forall>h. h \<notin> hs \<longrightarrow> ks_keys v h = ks_keys v0 h" "inj_on der hs"
    "\<forall>h \<in> hs. map_option k_der (ks_keys v h) = Some (der h) \<and> der h \<noteq> NULL \<and> ks_blocks v0 (der h) = None \<and>
       ks_blocks v (der h) \<noteq> None"
    "\<forall>p. p \<notin> der ` hs \<longrightarrow> ks_blocks v p = ks_blocks v0 p"
    "ks_live v = ks_live v0 + int (card hs)" "ks_ub v = ks_ub v0"
  shows "holds_keys v0 hs v"
  unfolding holds_keys_def using assms by blast

lemma holds_same: "holds_keys v0 hs v \<Longrightarrow> same v v' \<Longrightarrow> holds_keys v0 hs v'"
  by (auto simp: holds_keys_def same_def)

lemma holds_held: "holds_keys v0 hs v \<Longrightarrow> h \<in> hs \<Longrightarrow> held v h"
  by (fastforce simp: holds_keys_def held_def)

lemma holds_fresh: "holds_keys v0 hs v \<Longrightarrow> fresh v"
  by (simp add: holds_keys_def)

lemma holds_made:
  assumes "holds_keys v0 hs v" "key_made v (ZUC_OK, h) v'"
  shows "holds_keys v0 (insert h hs) v'"
proof -
  obtain der where d: "inj_on der hs" "\<And>p. p \<notin> der ` hs \<Longrightarrow> ks_blocks v p = ks_blocks v0 p"
    and b: "\<And>g. g \<in> hs \<Longrightarrow> map_option k_der (ks_keys v g) = Some (der g)" "\<And>g. g \<in> hs \<Longrightarrow> der g \<noteq> NULL"
      "\<And>g. g \<in> hs \<Longrightarrow> ks_blocks v0 (der g) = None" "\<And>g. g \<in> hs \<Longrightarrow> ks_blocks v (der g) \<noteq> None"
    using assms(1) unfolding holds_keys_def by blast
  note v = assms(1) [unfolded holds_keys_def]
  obtain k n where k: "fresh v'" "ks_ub v' = ks_ub v" "ks_live v' = ks_live v + 1" "h \<noteq> NULL" "ks_keys v h = None"
      "ks_keys v' = (ks_keys v)(h \<mapsto> k)" "k_der k \<noteq> NULL" "ks_blocks v (k_der k) = None"
      "ks_blocks v' = (ks_blocks v)(k_der k \<mapsto> n)"
    using assms(2) by (auto simp: key_made_def)
  have h: "h \<notin> hs" "ks_keys v0 h = None"
    using b(1) k(5) v by force+
  have kd: "k_der k \<notin> der ` hs"
    using b(4) k(8) by (metis imageE)
  let ?der = "der(h := k_der k)"
  have img: "?der ` insert h hs = insert (k_der k) (der ` hs)" "\<And>g. g \<in> hs \<Longrightarrow> ?der g = der g"
    using h(1) by auto
  have "?der ` (hs - {h}) = der ` hs"
    using h(1) by (intro image_cong) auto
  then have inj: "inj_on ?der (insert h hs)"
    using inj_on_fun_updI [OF d(1) kd, of h] kd by (simp only: inj_on_insert fun_upd_same simp_thms not_False_eq_True)
  have own: "\<forall>g \<in> insert h hs. map_option k_der (ks_keys v' g) = Some (?der g) \<and> ?der g \<noteq> NULL \<and>
      ks_blocks v0 (?der g) = None \<and> ks_blocks v' (?der g) \<noteq> None"
  proof
    fix g
    assume "g \<in> insert h hs"
    then consider "g = h" | "g \<noteq> h" "g \<in> hs" by blast
    then show "map_option k_der (ks_keys v' g) = Some (?der g) \<and> ?der g \<noteq> NULL \<and>
        ks_blocks v0 (?der g) = None \<and> ks_blocks v' (?der g) \<noteq> None"
      by cases (use k d(2) [OF kd] b [of g] in simp_all)
  qed
  have rest: "\<forall>p. p \<notin> ?der ` insert h hs \<longrightarrow> ks_blocks v' p = ks_blocks v0 p"
    unfolding img(1) using d(2) k(9) by auto
  have live: "ks_live v' = ks_live v0 + int (card (insert h hs))"
    using v h(1) k(3) by simp
  show ?thesis
    by (rule holds_keysI [OF k(1) _ _ _ _ inj own rest live]) (use v h k(2,4,6) in auto)
qed

lemma holds_free:
  assumes "holds_keys v0 hs v" "h \<in> hs"
  shows "ksv v (zuc_pkey_free h) (\<lambda>u. holds_keys v0 (hs - {h}))"
proof -
  obtain der where d: "inj_on der hs" "\<And>p. p \<notin> der ` hs \<Longrightarrow> ks_blocks v p = ks_blocks v0 p"
    and b: "\<And>g. g \<in> hs \<Longrightarrow> map_option k_der (ks_keys v g) = Some (der g)" "\<And>g. g \<in> hs \<Longrightarrow> der g \<noteq> NULL"
      "\<And>g. g \<in> hs \<Longrightarrow> ks_blocks v0 (der g) = None" "\<And>g. g \<in> hs \<Longrightarrow> ks_blocks v (der g) \<noteq> None"
    using assms(1) unfolding holds_keys_def by blast
  note v = assms(1) [unfolded holds_keys_def]
  obtain k where k: "ks_keys v h = Some k" "k_der k = der h"
    using b(1) [OF assms(2)] by auto
  let ?v = "v\<lparr>ks_keys := (ks_keys v)(h := None), ks_live := ks_live v - 1, ks_blocks := (ks_blocks v)(der h := None)\<rparr>"
  have ne: "\<And>g. g \<in> hs - {h} \<Longrightarrow> der g \<noteq> der h"
    using d(1) assms(2) by (auto simp: inj_on_def)
  have inj: "inj_on der (hs - {h})"
    using d(1) by (rule inj_on_subset) blast
  have own: "\<forall>g \<in> hs - {h}. map_option k_der (ks_keys ?v g) = Some (der g) \<and> der g \<noteq> NULL \<and>
      ks_blocks v0 (der g) = None \<and> ks_blocks ?v (der g) \<noteq> None"
    using b ne by auto
  have rest: "\<forall>p. p \<notin> der ` (hs - {h}) \<longrightarrow> ks_blocks ?v p = ks_blocks v0 p"
    using d(2) b(3) [OF assms(2)] by auto
  have live: "ks_live ?v = ks_live v0 + int (card (hs - {h}))"
    using v assms(2) card_Suc_Diff1 [of hs h] by simp
  have fr: "fresh ?v"
    by (rule fresh_less [OF holds_fresh [OF assms(1)]]) auto
  have "holds_keys v0 (hs - {h}) ?v"
    by (rule holds_keysI [OF fr _ _ _ _ inj own rest live]) (use v assms(2) in auto)
  then have "ksv v (State_Monad.bind (zuc_pkey_free h) ret) (\<lambda>u. holds_keys v0 (hs - {h}))"
    using v assms(2) b(2,4) [OF assms(2)] k by (intro ksv_pkey_free [OF k(1)] ksv_ret) auto
  then show ?thesis by simp
qed

lemma ksvD: "ksv v m R \<Longrightarrow> ks w = v \<Longrightarrow> run_state m w = (r, w') \<Longrightarrow> R r (ks w')"
  unfolding ksv_def by (drule (2) validD)

lemma client_holds:
  assumes "key_client P w0 hs w"
  shows "holds_keys (ks w0) hs (ks w)"
  using assms
proof induction
  case start
  then show ?case by (auto simp: holds_keys_def)
next
  case (make hs w m st h w')
  have "ksv (ks w) (with_out m) (key_made (ks w))"
    using make(2)
    by cases (simp_all add: keys_made holds_fresh [OF make(4)] holds_held [OF make(4)])
  then have "key_made (ks w) (st, h) (ks w')"
    using ksvD [OF _ refl make(3)] by blast
  then show ?case
    using make(4) holds_made holds_same by (auto simp: key_made_def [of _ _ "ks w'"] split: if_splits)
next
  case (apply_key hs w m st w')
  have "ksv (ks w) m (\<lambda>st. same (ks w))"
    using apply_key(2)
    by cases (simp_all add: keys_used holds_fresh [OF apply_key(4)] holds_held [OF apply_key(4)])
  then show ?case
    using ksvD [OF _ refl apply_key(3)] holds_same [OF apply_key(4)] by blast
next
  case (free hs w h u w')
  then show ?case
    using ksvD [OF holds_free refl] by blast
next
  case (elsewhere hs w m ss cs ps)
  then show ?case by (simp add: holds_keys_def ks_def)
qed

section \<open>Properties\<close>

text \<open>
  C11. Key handles neither leak nor dangle: whatever keys a client makes, uses and frees, for every
  backend and with any allocation failing, the handles on the heap are the ones it holds, the blocks
  their own DER and nothing else, the count of live contexts is their number, and nothing is
  dereferenced or freed that is not allocated. When it holds none the heap is as it was.
\<close>

theorem zuc_pkey_handles_owned:
  assumes "key_client P w0 hs w"
  shows "w_ub w = w_ub w0 \<and> w_live w = w_live w0 + int (card hs) \<and>
    hs \<inter> dom (w_pkeys w0) = {} \<and> dom (w_pkeys w) = dom (w_pkeys w0) \<union> hs \<and>
    dom (w_blocks w) = dom (w_blocks w0) \<union> (\<lambda>h. k_der (the (w_pkeys w h))) ` hs \<and>
    (hs = {} \<longrightarrow> w_pkeys w = w_pkeys w0 \<and> w_blocks w = w_blocks w0)"
proof -
  note c = client_holds [OF assms, unfolded holds_keys_def ks_simps]
  have v: "\<forall>h \<in> hs. w_pkeys w0 h = None" "\<forall>h. h \<notin> hs \<longrightarrow> w_pkeys w h = w_pkeys w0 h"
      "w_live w = w_live w0 + int (card hs)" "w_ub w = w_ub w0"
    using c by simp_all
  obtain der where d: "\<And>p. p \<notin> der ` hs \<Longrightarrow> w_blocks w p = w_blocks w0 p"
    and b: "\<And>g. g \<in> hs \<Longrightarrow> map_option k_der (w_pkeys w g) = Some (der g)"
      "\<And>g. g \<in> hs \<Longrightarrow> w_blocks w (der g) \<noteq> None"
    using c by blast
  have ne: "\<And>g. g \<in> hs \<Longrightarrow> w_pkeys w g \<noteq> None" "\<And>g. g \<in> hs \<Longrightarrow> k_der (the (w_pkeys w g)) = der g"
    using b(1) by force+
  have img: "(\<lambda>h. k_der (the (w_pkeys w h))) ` hs = der ` hs"
    using ne(2) by (rule image_cong [OF refl])
  have "dom (w_pkeys w) = dom (w_pkeys w0) \<union> hs"
    using v(2) ne(1) by (auto simp: dom_def) metis+
  moreover have "dom (w_blocks w) = dom (w_blocks w0) \<union> der ` hs"
  proof (intro set_eqI)
    fix p
    show "p \<in> dom (w_blocks w) \<longleftrightarrow> p \<in> dom (w_blocks w0) \<union> der ` hs"
      using d [of p] b(2) by (cases "p \<in> der ` hs") (auto simp: domIff)
  qed
  moreover have "hs = {} \<Longrightarrow> w_pkeys w = w_pkeys w0 \<and> w_blocks w = w_blocks w0"
    using v(2) d by auto
  ultimately show ?thesis
    unfolding img using v by auto
qed

definition rsa_backend :: "(unit, unit) psa" where
  "rsa_backend c op b =
    (fst (scripted accept_all c op b)\<lparr>r_attr := psa_key_attributes_init\<lparr>pa_type := 0x7001, pa_bits := 2048\<rparr>\<rparr>, b)"

lemma rsa_type: "alg_of_psa 0x7001 2048 = ZUC_ALG_RSA" "PSA_KEY_TYPE_IS_KEY_PAIR 0x7001"
  by (simp_all add: alg_of_psa_def PSA_KEY_TYPE_PUBLIC_KEY_OF_KEY_PAIR_def PSA_KEY_TYPE_IS_KEY_PAIR_def
      PSA_KEY_TYPE_IS_RSA_def)

theorem zuc_pkey_handles_owned_witness:
  "\<exists>w w'. key_client rsa_backend (fresh_world () [4096, 8192]) {4096} w \<and> w_live w = 1 \<and>
    key_client rsa_backend (fresh_world () [4096, 8192]) {} w' \<and> w_blocks w' = Map.empty \<and> \<not> w_ub w'"
proof -
  let ?w0 = "fresh_world () [4096, 8192] :: (unit, unit) world"
  have start: "key_client rsa_backend ?w0 {} ?w0"
    by (rule key_client.start) (simp add: fresh_def ks_def)
  obtain w where run: "run_state (with_out (zuc_pkey_generate rsa_backend ZUC_ALG_RSA 2048)) ?w0 = ((ZUC_OK, 4096), w)"
    by (simp add: with_out_def zuc_pkey_generate_def watched_def pkey_generate_impl_def run_zuc_int_alloc_watch
        zuc_alg_available_iff all_algs_def ec_pair_type_def run_psa_do rsa_backend_def scripted_def pkey_from_psa_def
        rsa_type calloc_pkey_def malloc_bytes_def run_c_alloc
        Let_def set_pkey_def psa_destroy_key_def store_ok_def run_zuc_int_memory_or)
  from key_client.make [OF start key_maker.generate run] have w: "key_client rsa_backend ?w0 {4096} w"
    by simp
  obtain u w' where "run_state (zuc_pkey_free 4096) w = (u, w')"
    by (metis surj_pair)
  from key_client.free [OF w _ this] have w': "key_client rsa_backend ?w0 {} w'"
    by simp
  show ?thesis
    using w w' zuc_pkey_handles_owned [OF w] zuc_pkey_handles_owned [OF w'] by auto
qed

end
