(* ===== verification/Link.thy ===== *)
theory Link
  imports Digest R_Package Key_Handles
begin

text \<open>
  \<^verbatim>\<open>src/tools/zucryptlink/src/link.c\<close>: a package that links the adapter's static archive into its own
  shared object, with the loops that the archive's first consumer runs.

  An entry point is a call on a session, like those of \<open>R_Crypt\<close>; \<^verbatim>\<open>Rf_error\<close> is \<open>Longjmp\<close>. The static
  variable \<^verbatim>\<open>init_status\<close>, which the entry points only read, is their argument \<open>init_status\<close>; arrays on
  the C stack are arguments too, the addresses at which the compiler placed them.
\<close>

abbreviation (input) NA_INTEGER :: int where
  "NA_INTEGER \<equiv> - (2 ^ 31)"

section \<open>Argument checks\<close>

definition require_backend :: "zuc_status \<Rightarrow> ('b, 'o, 'a outcome) rc \<Rightarrow> ('b, 'o, 'a outcome) rc" where
  "require_backend init_status k = (if init_status \<noteq> ZUC_OK then ret Longjmp else k)"

definition alg_arg_link :: "sexp \<Rightarrow> (zuc_alg \<Rightarrow> ('b, 'o, 'a outcome) rc) \<Rightarrow> ('b, 'o, 'a outcome) rc" where
  "alg_arg_link algorithm k =
    (case algorithm of
       STRSXP xs \<Rightarrow>
         if length xs \<noteq> 1 then ret Longjmp
         else (let alg = zuc_alg_by_name (Some (xs ! 0))
               in if alg = ZUC_ALG_NONE \<or> \<not> zuc_alg_available alg then ret Longjmp else k alg)
     | _ \<Rightarrow> ret Longjmp)"

definition raw_arg :: "sexp \<Rightarrow> ('b, 'o, 'a outcome) rc \<Rightarrow> ('b, 'o, 'a outcome) rc" where
  "raw_arg x k = (case x of RAWSXP p n \<Rightarrow> k | _ \<Rightarrow> ret Longjmp)"

section \<open>One-shot entry points\<close>

definition zl_backend ::
  "('b, 'o) psa \<Rightarrow> random_source \<Rightarrow> zuc_status \<Rightarrow> ('b, 'o, sexp outcome) rc" where
  "zl_backend P rs init_status =
    require_backend init_status (do {
      let info = \<lparr>i_struct_size = 48, i_abi_version = 0, i_backend_name = [], i_backend_version = [],
                   i_random_backend = [], i_hardware_acceleration = False, i_aes_implementation = []\<rparr>;
      (st, info) \<leftarrow> native (zuc_get_info P (zuc_int_random_backend rs) (Some info));
      if st \<noteq> ZUC_OK then ret Longjmp
      else case info of
        None \<Rightarrow> ret Longjmp
      | Some i \<Rightarrow> r_alloc (\<lambda>_. ret (Returned (VECSXP
          [(''name'', STRSXP [i_backend_name i]),
           (''version'', STRSXP [i_backend_version i]),
           (''abi_version'', INTSXP [sint (i_abi_version i)]),
           (''header_abi_version'', INTSXP [sint ZUCRYPT_ABI_VERSION])]))) })"

definition zl_hash :: "('b, 'o) psa \<Rightarrow> zuc_status \<Rightarrow> sexp \<Rightarrow> sexp \<Rightarrow> ('b, 'o, sexp outcome) rc" where
  "zl_hash P init_status algorithm data =
    alg_arg_link algorithm (\<lambda>alg. require_backend init_status (raw_arg data (
      allocRaw (zuc_alg_size alg) (\<lambda>out. do {
        (st, n) \<leftarrow> native (with_len (zuc_hash_compute P alg (RAW data) (XLENGTH data) (RAW out) (XLENGTH out)));
        if st \<noteq> ZUC_OK \<or> n \<noteq> XLENGTH out then ret Longjmp else ret (Returned out) }))))"

definition zl_hmac :: "('b, 'o) psa \<Rightarrow> zuc_status \<Rightarrow> sexp \<Rightarrow> sexp \<Rightarrow> sexp \<Rightarrow> ('b, 'o, sexp outcome) rc" where
  "zl_hmac P init_status algorithm key data =
    alg_arg_link algorithm (\<lambda>alg. require_backend init_status (raw_arg key (raw_arg data (
      allocRaw (zuc_alg_size alg) (\<lambda>out. do {
        (st, n) \<leftarrow> native (with_len (zuc_hmac_compute P alg (RAW key) (XLENGTH key) (RAW data) (XLENGTH data)
                     (RAW out) (XLENGTH out)));
        if st \<noteq> ZUC_OK \<or> n \<noteq> XLENGTH out then ret Longjmp else ret (Returned out) })))))"

definition zl_random :: "random_source \<Rightarrow> zuc_status \<Rightarrow> sexp \<Rightarrow> ('b, 'o, sexp outcome) rc" where
  "zl_random rs init_status n =
    (let len = Rf_asInteger n
     in require_backend init_status (
          if len = NA_INTEGER \<or> len < 0 then ret Longjmp
          else allocRaw (of_int len) (\<lambda>out. do {
            r \<leftarrow> native (zuc_random_bytes rs (RAW out) (of_int len));
            case r of
              None \<Rightarrow> ret No_return
            | Some st \<Rightarrow> if st \<noteq> ZUC_OK then ret Longjmp else ret (Returned out) })))"

definition zl_gcm_encrypt ::
  "('b, 'o) psa \<Rightarrow> zuc_status \<Rightarrow> sexp \<Rightarrow> sexp \<Rightarrow> sexp \<Rightarrow> ('b, 'o, sexp outcome) rc" where
  "zl_gcm_encrypt P init_status key iv data =
    require_backend init_status (raw_arg key (raw_arg iv (raw_arg data (
      let len = XLENGTH data
      in allocRaw len (\<lambda>ct. allocRaw ZUC_GCM_TAG_SIZE (\<lambda>tag. do {
           st \<leftarrow> native (zuc_aead_encrypt P ZUC_ALG_AES_GCM (RAW key) (XLENGTH key) (RAW iv) (XLENGTH iv) NULL 0
                   (if len \<noteq> 0 then RAW data else NULL) len (if len \<noteq> 0 then RAW ct else NULL)
                   (RAW tag) ZUC_GCM_TAG_SIZE);
           if st \<noteq> ZUC_OK then ret Longjmp
           else r_alloc (\<lambda>_. ret (Returned (VECSXP [('''', ct), ('''', tag)]))) }))))))"

definition zl_gcm_decrypt_status ::
  "('b, 'o) psa \<Rightarrow> zuc_status \<Rightarrow> sexp \<Rightarrow> sexp \<Rightarrow> sexp \<Rightarrow> sexp \<Rightarrow> ('b, 'o, sexp outcome) rc" where
  "zl_gcm_decrypt_status P init_status key iv data tag =
    require_backend init_status (raw_arg key (raw_arg iv (raw_arg data (raw_arg tag (
      let len = XLENGTH data
      in allocRaw len (\<lambda>out. do {
           st \<leftarrow> native (zuc_aead_decrypt P ZUC_ALG_AES_GCM (RAW key) (XLENGTH key) (RAW iv) (XLENGTH iv) NULL 0
                   (if len \<noteq> 0 then RAW data else NULL) len (RAW tag) (XLENGTH tag)
                   (if len \<noteq> 0 then RAW out else NULL));
           r_alloc (\<lambda>_. ret (Returned (STRSXP [zuc_status_name (zuc_status_code st)]))) }))))))"

definition zl_pbkdf2 ::
  "('b, 'o) psa \<Rightarrow> zuc_status \<Rightarrow> sexp \<Rightarrow> sexp \<Rightarrow> sexp \<Rightarrow> sexp \<Rightarrow> ('b, 'o, sexp outcome) rc" where
  "zl_pbkdf2 P init_status password salt iterations n =
    (let len = Rf_asInteger n; iter = Rf_asInteger iterations
     in require_backend init_status (raw_arg password (raw_arg salt (
          if len = NA_INTEGER \<or> len < 1 \<or> iter = NA_INTEGER \<or> iter < 1 then ret Longjmp
          else allocRaw (of_int len) (\<lambda>out. do {
            st \<leftarrow> native (zuc_pbkdf2_hmac P ZUC_ALG_SHA1 (RAW password) (XLENGTH password) (RAW salt)
                    (XLENGTH salt) (of_int iter) (RAW out) (of_int len));
            if st \<noteq> ZUC_OK then ret Longjmp else ret (Returned out) })))))"

section \<open>Public keys\<close>

text \<open>Copying \<open>n\<close> bytes between buffers that do not overlap.\<close>

definition memcpy :: "ptr \<Rightarrow> ptr \<Rightarrow> size_t \<Rightarrow> ('b, 'o, unit) zuc" where
  "memcpy dst src n = do { bs \<leftarrow> read_bytes src n; write_bytes dst bs }"

text \<open>The part of \<^verbatim>\<open>zl_rsa_sign\<close> that runs while handles are live; \<open>sig\<close> is its array of 512 bytes.\<close>

definition rsa_sign_native ::
  "('b, 'o) psa \<Rightarrow> ptr \<Rightarrow> sexp \<Rightarrow> sexp \<Rightarrow> ('b, 'o, zuc_status \<times> size_t) zuc" where
  "rsa_sign_native P sig pem digest = do {
     (st, key) \<leftarrow> with_out (zuc_pkey_parse P (RAW pem) (XLENGTH pem) True);
     (st, pub) \<leftarrow> (if st = ZUC_OK then with_out (zuc_pkey_public P key) else ret (st, NULL));
     (st, len) \<leftarrow> (if st = ZUC_OK
                   then with_len (zuc_pkey_sign_hash P key ZUC_ALG_RSA_PKCS1V15_SIGN ZUC_ALG_SHA256
                          (RAW digest) (XLENGTH digest) sig 512)
                   else ret (st, 0));
     st \<leftarrow> (if st = ZUC_OK
            then zuc_pkey_verify_hash P pub ZUC_ALG_RSA_PKCS1V15_SIGN ZUC_ALG_SHA256
                   (RAW digest) (XLENGTH digest) sig len
            else ret st);
     zuc_pkey_free pub;
     zuc_pkey_free key;
     ret (st, len)
   }"

definition zl_rsa_sign ::
  "('b, 'o) psa \<Rightarrow> zuc_status \<Rightarrow> ptr \<Rightarrow> sexp \<Rightarrow> sexp \<Rightarrow> ('b, 'o, sexp outcome) rc" where
  "zl_rsa_sign P init_status sig pem digest =
    require_backend init_status (raw_arg pem (raw_arg digest (do {
      (st, len) \<leftarrow> native (rsa_sign_native P sig pem digest);
      if st \<noteq> ZUC_OK then ret Longjmp
      else allocRaw len (\<lambda>out. do { native (memcpy (RAW out) sig len); ret (Returned out) }) })))"

text \<open>The same for \<^verbatim>\<open>zl_x25519\<close>; \<open>k\<close> is its array of 32 bytes.\<close>

definition x25519_native ::
  "('b, 'o) psa \<Rightarrow> ptr \<Rightarrow> sexp \<Rightarrow> sexp \<Rightarrow> ('b, 'o, zuc_status \<times> size_t) zuc" where
  "x25519_native P k priv pub = do {
     (st, a) \<leftarrow> with_out (zuc_pkey_import P ZUC_ALG_X25519 True (RAW priv) (XLENGTH priv));
     (st, b) \<leftarrow> (if st = ZUC_OK
                 then with_out (zuc_pkey_import P ZUC_ALG_X25519 False (RAW pub) (XLENGTH pub))
                 else ret (st, NULL));
     (st, len) \<leftarrow> (if st = ZUC_OK then with_len (zuc_pkey_agree P a b k 32) else ret (st, 0));
     zuc_pkey_free b;
     zuc_pkey_free a;
     ret (st, len)
   }"

definition zl_x25519 ::
  "('b, 'o) psa \<Rightarrow> zuc_status \<Rightarrow> ptr \<Rightarrow> sexp \<Rightarrow> sexp \<Rightarrow> ('b, 'o, sexp outcome) rc" where
  "zl_x25519 P init_status k priv pub =
    require_backend init_status (raw_arg priv (raw_arg pub (do {
      (st, len) \<leftarrow> native (x25519_native P k priv pub);
      if st \<noteq> ZUC_OK then ret Longjmp
      else allocRaw len (\<lambda>out. do { native (memcpy (RAW out) k len); ret (Returned out) }) })))"

section \<open>The derivation loop\<close>

definition counter_bytes :: "int \<Rightarrow> byte list" where
  "counter_bytes i =
    [of_int (i AND 0xFF), of_int (drop_bit 8 i AND 0xFF), of_int (drop_bit 16 i AND 0xFF),
     of_int (drop_bit 24 i AND 0xFF)]"

text \<open>One turn of the loop; \<open>digest\<close> and \<open>counter\<close> are the arrays of 64 and of 4 bytes.\<close>

definition derive_step ::
  "('b, 'o) psa \<Rightarrow> ptr \<Rightarrow> ptr \<Rightarrow> ptr \<Rightarrow> size_t \<Rightarrow> int \<Rightarrow> ('b, 'o, zuc_status) zuc" where
  "derive_step P digest counter h dsize i = do {
     write_bytes counter (counter_bytes i);
     st \<leftarrow> zuc_hash_reset P h;
     st \<leftarrow> (if st = ZUC_OK then zuc_hash_update P h counter 4 else ret st);
     st \<leftarrow> (if st = ZUC_OK then zuc_hash_update P h digest dsize else ret st);
     (if st = ZUC_OK then zuc_hash_finish P h digest ZUC_MAX_DIGEST_SIZE LOCAL else ret st)
   }"

function derive_loop ::
  "('b, 'o) psa \<Rightarrow> ptr \<Rightarrow> ptr \<Rightarrow> ptr \<Rightarrow> size_t \<Rightarrow> int \<Rightarrow> int \<Rightarrow> zuc_status \<Rightarrow> ('b, 'o, zuc_status) zuc" where
  "derive_loop P digest counter h dsize spins i st =
    (if i < spins \<and> st = ZUC_OK
     then do { st \<leftarrow> derive_step P digest counter h dsize i;
               derive_loop P digest counter h dsize spins (i + 1) st }
     else ret st)"
  by pat_completeness auto

termination
  by (relation "measure (\<lambda>(P, digest, counter, h, size, spins, i, st). nat (spins - i))") auto

declare derive_loop.simps [simp del]

definition derive_native ::
  "('b, 'o) psa \<Rightarrow> ptr \<Rightarrow> ptr \<Rightarrow> zuc_alg \<Rightarrow> sexp \<Rightarrow> int \<Rightarrow> ptr \<Rightarrow> ('b, 'o, zuc_status) zuc" where
  "derive_native P digest counter alg seed spins out = do {
     let dsize = zuc_alg_size alg;
     (st, h) \<leftarrow> with_out (zuc_hash_new P alg);
     st \<leftarrow> (if st = ZUC_OK then zuc_hash_update P h (RAW seed) (XLENGTH seed) else ret st);
     st \<leftarrow> (if st = ZUC_OK then zuc_hash_finish P h digest ZUC_MAX_DIGEST_SIZE LOCAL else ret st);
     st \<leftarrow> derive_loop P digest counter h dsize spins 0 st;
     zuc_hash_free P h;
     (if st = ZUC_OK then memcpy out digest dsize else ret ());
     zuc_secure_zero digest ZUC_MAX_DIGEST_SIZE;
     ret st
   }"

definition zl_derive ::
  "('b, 'o) psa \<Rightarrow> zuc_status \<Rightarrow> ptr \<Rightarrow> ptr \<Rightarrow> sexp \<Rightarrow> sexp \<Rightarrow> sexp \<Rightarrow> ('b, 'o, sexp outcome) rc" where
  "zl_derive P init_status digest counter seed spins algorithm =
    alg_arg_link algorithm (\<lambda>alg.
      let spins = Rf_asInteger spins
      in require_backend init_status (raw_arg seed (
           if spins = NA_INTEGER \<or> spins < 0 then ret Longjmp
           else allocRaw (zuc_alg_size alg) (\<lambda>out. do {
             st \<leftarrow> native (derive_native P digest counter alg seed spins (RAW out));
             if st \<noteq> ZUC_OK then ret Longjmp else ret (Returned out) }))))"

section \<open>Segmented CBC\<close>

text \<open>
  The caller has refused a segment size of zero; that the loop tests it again makes the recursion
  total. A failed \<^verbatim>\<open>zuc_aes_cbc_set_state\<close> leaves the loop by \<^verbatim>\<open>break\<close>.
\<close>

lemma segment_decreases:
  fixes offset len seg :: size_t
  assumes "offset < len" "seg \<noteq> 0"
  shows "unat (len - (offset + (if len - offset > seg then seg else len - offset))) < unat (len - offset)"
proof -
  let ?n = "if len - offset > seg then seg else len - offset"
  have d: "0 < len - offset" using assms(1) by (simp add: word_gt_0)
  then have n: "?n \<le> len - offset" "0 < ?n"
    using assms(2) by (auto simp: word_gt_0)
  then have "unat (len - offset - ?n) = unat (len - offset) - unat ?n"
    by (simp add: unat_sub)
  moreover have "0 < unat ?n" "0 < unat (len - offset)"
    using n(2) d by (simp_all add: word_gt_0 unat_gt_0)
  ultimately have "unat (len - offset - ?n) < unat (len - offset)"
    by linarith
  then show ?thesis
    by (simp add: diff_diff_add)
qed

function segments_loop ::
  "('b, 'o) psa \<Rightarrow> bool \<Rightarrow> ptr \<Rightarrow> ptr \<Rightarrow> ptr \<Rightarrow> ptr \<Rightarrow> size_t \<Rightarrow> size_t \<Rightarrow> size_t \<Rightarrow> zuc_status \<Rightarrow>
   ('b, 'o, zuc_status) zuc" where
  "segments_loop P do_encrypt aes iv data out seg len offset st =
    (if st = ZUC_OK \<and> offset < len \<and> seg \<noteq> 0 then do {
       let n = (if len - offset > seg then seg else len - offset);
       st \<leftarrow> zuc_aes_cbc_set_state aes iv;
       if st \<noteq> ZUC_OK then ret st
       else do {
         st \<leftarrow> (if do_encrypt then zuc_aes_cbc_encrypt P aes (data + offset) n (out + offset)
                else zuc_aes_cbc_decrypt P aes (data + offset) n (out + offset));
         segments_loop P do_encrypt aes iv data out seg len (offset + n) st
       }
     }
     else ret st)"
  by pat_completeness auto

termination
  by (relation "measure (\<lambda>(P, e, aes, iv, data, out, seg, len, offset, st). unat (len - offset))")
    (use segment_decreases in \<open>auto split: if_splits\<close>)

declare segments_loop.simps [simp del]

definition segments_native ::
  "('b, 'o) psa \<Rightarrow> bool \<Rightarrow> sexp \<Rightarrow> sexp \<Rightarrow> sexp \<Rightarrow> size_t \<Rightarrow> ptr \<Rightarrow> ('b, 'o, zuc_status) zuc" where
  "segments_native P do_encrypt data key iv seg out = do {
     (st, aes) \<leftarrow> with_out (zuc_aes_new P (RAW key) (XLENGTH key));
     st \<leftarrow> segments_loop P do_encrypt aes (RAW iv) (RAW data) out seg (XLENGTH data) 0 st;
     zuc_aes_free P aes;
     ret st
   }"

definition zl_segments ::
  "('b, 'o) psa \<Rightarrow> zuc_status \<Rightarrow> sexp \<Rightarrow> sexp \<Rightarrow> sexp \<Rightarrow> sexp \<Rightarrow> sexp \<Rightarrow> ('b, 'o, sexp outcome) rc" where
  "zl_segments P init_status data key iv segment encrypt =
    (let seg = of_int (Rf_asInteger segment); do_encrypt = Rf_asLogical encrypt
     in require_backend init_status (raw_arg data (raw_arg key (raw_arg iv (
          if XLENGTH iv \<noteq> ZUC_AES_BLOCK_SIZE then ret Longjmp
          else if seg = 0 \<or> seg mod ZUC_AES_BLOCK_SIZE \<noteq> 0 then ret Longjmp
          else allocRaw (XLENGTH data) (\<lambda>out. do {
            st \<leftarrow> native (segments_native P do_encrypt data key iv seg (RAW out));
            if st \<noteq> ZUC_OK then ret Longjmp else ret (Returned out) }))))))"

section \<open>Load and unload\<close>

definition zl_call_methods :: "R_CallMethodDef list" where
  "zl_call_methods =
    [call_def ''zl_backend'' ''zl_backend'' 0,
     call_def ''zl_hash'' ''zl_hash'' 2,
     call_def ''zl_hmac'' ''zl_hmac'' 3,
     call_def ''zl_derive'' ''zl_derive'' 3,
     call_def ''zl_segments'' ''zl_segments'' 5,
     call_def ''zl_random'' ''zl_random'' 1,
     call_def ''zl_gcm_encrypt'' ''zl_gcm_encrypt'' 3,
     call_def ''zl_gcm_decrypt_status'' ''zl_gcm_decrypt_status'' 4,
     call_def ''zl_pbkdf2'' ''zl_pbkdf2'' 4,
     call_def ''zl_rsa_sign'' ''zl_rsa_sign'' 2,
     call_def ''zl_x25519'' ''zl_x25519'' 2,
     null_def]"

record ('b, 'o) link_dll =
  l_session :: "('b, 'o) session"
  l_init_status :: zuc_status
  l_routines :: "R_CallMethodDef list"

type_synonym ('b, 'o, 'a) dll = "(('b, 'o) link_dll, 'a) state"

text \<open>A call into the session of the shared object.\<close>

definition in_session :: "('b, 'o, 'a) rc \<Rightarrow> ('b, 'o, 'a) dll" where
  "in_session m = State (\<lambda>l. case run_state m (l_session l) of (r, s) \<Rightarrow> (r, l\<lparr>l_session := s\<rparr>))"

definition R_init_zucryptlink :: "('b, 'o) psa \<Rightarrow> ('b, 'o, unit) dll" where
  "R_init_zucryptlink P = do {
     modify (\<lambda>l. l\<lparr>l_routines := until_null zl_call_methods\<rparr>);
     st \<leftarrow> in_session (native (zuc_init P));
     modify (\<lambda>l. l\<lparr>l_init_status := st\<rparr>)
   }"

definition R_unload_zucryptlink :: "('b, 'o) psa \<Rightarrow> ('b, 'o, unit) dll" where
  "R_unload_zucryptlink P = do {
     st \<leftarrow> gets l_init_status;
     if st = ZUC_OK then do {
       _ \<leftarrow> in_session (native (zuc_shutdown P));
       modify (\<lambda>l. l\<lparr>l_init_status := ZUC_ERR_NOT_READY\<rparr>)
     }
     else ret ()
   }"


section \<open>Derivation\<close>

text \<open>The specification: \<open>H\<^sub>0 = H(seed)\<close>, \<open>H\<^sub>n = H(int32le(n - 1) || H\<^sub>n\<^sub>-\<^sub>1)\<close>.\<close>

definition int32le :: "nat \<Rightarrow> byte list" where
  "int32le n = map (\<lambda>k. of_nat (n div 256 ^ k mod 256)) [0..<4]"

primrec spun :: "(byte list \<Rightarrow> byte list) \<Rightarrow> byte list \<Rightarrow> nat \<Rightarrow> byte list" where
  "spun H seed 0 = H seed"
| "spun H seed (Suc n) = H (int32le n @ spun H seed n)"

lemma counter_bytes_int32le: "counter_bytes (int n) = int32le n"
proof -
  have "drop_bit k (int n) AND 0xFF = int (n div 2 ^ k mod 256)" for k
  proof -
    have "drop_bit k (int n) AND 0xFF = take_bit 8 (drop_bit k (int n))"
      by (simp add: take_bit_eq_mask mask_eq_exp_minus_1)
    then show ?thesis
      by (simp add: take_bit_eq_mod drop_bit_eq_div zdiv_int zmod_int)
  qed
  from this [of 0] this [of 8] this [of 16] this [of 24] show ?thesis
    by (simp add: counter_bytes_def int32le_def upt_rec)
qed

lemma length_counter_bytes [simp]: "length (counter_bytes i) = 4"
  by (simp add: counter_bytes_def)

text \<open>A context that can be reset, whatever it is doing.\<close>

definition resettable :: "('b, 'o) world \<Rightarrow> ptr \<Rightarrow> zuc_alg \<Rightarrow> bool" where
  "resettable w h alg \<longleftrightarrow>
    h \<noteq> NULL \<and> (\<exists>x. w_hashes w h = Some x \<and> h_alg x = alg \<and> h_palg x = zuc_int_psa_hash alg)"

lemma resettable_kept:
  assumes "resettable w h alg"
  shows "run_state (zuc_hash_update P h p n) w = (st, w') \<Longrightarrow> resettable w' h alg"
    and "run_state (zuc_hash_finish P h p n q) w = (st, w') \<Longrightarrow> resettable w' h alg"
    and "run_state (zuc_hash_reset P h) w = (st, w') \<Longrightarrow> resettable w' h alg"
    and "run_state (write_bytes p bs) w = (u, w') \<Longrightarrow> resettable w' h alg"
  using assms
  by (auto simp: resettable_def zuc_hash_update_def zuc_hash_finish_def zuc_hash_reset_def deref_hash_def run_psa_do
      set_hash_def Let_def split: if_splits)

lemma new_resettable:
  "run_state (with_out (zuc_hash_new P alg)) w = ((ZUC_OK, h), w') \<Longrightarrow> resettable w' h alg"
  by (auto simp: with_out_def zuc_hash_new_def calloc_hash_def run_c_alloc run_psa_do set_hash_def
      free_struct_hash_def Let_def resettable_def zero_hash_def split: if_splits list.splits)

lemma finish_local:
  "run_state (zuc_hash_finish P h out n LOCAL) w = (ZUC_OK, w') \<longleftrightarrow>
   run_state (with_len (zuc_hash_finish P h out n)) w = ((ZUC_OK, w_sizes w' LOCAL), w')"
  by (auto simp: with_len_def zuc_hash_finish_def deref_hash_def run_deref run_psa_do set_hash_def
      split: if_splits option.splits)

lemma finish_frame:
  assumes "run_state (zuc_hash_finish P h out n q) w = (st, w')" "a \<notin> buf out n"
  shows "w_mem w' a = w_mem w a"
proof -
  have "confined (buf out n) (zuc_hash_finish P h out n q)"
    unfolding zuc_hash_finish_def Let_def by (intro confined_intros) simp_all
  from confined_mem [OF this assms] show ?thesis .
qed

context psa_hash_contract
begin

lemma reset_holds:
  assumes "resettable w h alg" "run_state (zuc_hash_reset P h) w = (ZUC_OK, w')"
  shows "hash_holds absorbed w' h alg [] \<and> w_mem w' = w_mem w"
  using assms setup_absorbed
  by (auto simp: resettable_def zuc_hash_reset_def deref_hash_def run_psa_do set_hash_def Let_def hash_holds_def
      split: if_splits)

lemma finish_value:
  assumes "hash_holds absorbed w h alg m" "run_state (zuc_hash_finish P h out n LOCAL) w = (ZUC_OK, w')"
    and "length (digest (zuc_int_psa_hash alg) m) = unat (zuc_alg_size alg)"
  shows "mem_read (w_mem w') out (zuc_alg_size alg) = digest (zuc_int_psa_hash alg) m"
  using finish_holds [OF assms(1) assms(2) [unfolded finish_local]] assms(3) by auto

lemma derive_step_value:
  assumes "resettable w h alg" "run_state (derive_step P buff counter h (zuc_alg_size alg) i) w = (ZUC_OK, w')"
    and "buf buff 64 \<inter> buf counter 4 = {}" "64 < step_max"
    and z: "\<And>m. length (digest (zuc_int_psa_hash alg) m) = unat (zuc_alg_size alg)"
  shows "mem_read (w_mem w') buff (zuc_alg_size alg) =
      digest (zuc_int_psa_hash alg) (counter_bytes i @ mem_read (w_mem w) buff (zuc_alg_size alg)) \<and>
    resettable w' h alg"
proof -
  let ?w1 = "w\<lparr>w_mem := mem_write (w_mem w) counter (counter_bytes i)\<rparr>"
  obtain w2 w3 w4 where r: "run_state (zuc_hash_reset P h) ?w1 = (ZUC_OK, w2)"
    and u: "run_state (zuc_hash_update P h counter 4) w2 = (ZUC_OK, w3)"
    and v: "run_state (zuc_hash_update P h buff (zuc_alg_size alg)) w3 = (ZUC_OK, w4)"
    and f: "run_state (zuc_hash_finish P h buff 64 LOCAL) w4 = (ZUC_OK, w')"
    using assms(2) by (auto simp: derive_step_def split: prod.splits if_splits)
  have "resettable ?w1 h alg" using assms(1) by (simp add: resettable_def)
  note h2 = reset_holds [OF this r] and k2 = resettable_kept(3) [OF this r]
  have h3: "hash_holds absorbed w3 h alg (mem_read (w_mem w2) counter 4) \<and> w_mem w3 = w_mem w2"
    using update_holds [OF conjunct1 [OF h2] _ u] assms(4) by simp
  have "unat (zuc_alg_size alg) \<le> 64" using zuc_alg_size_le [of alg] by (simp add: word_le_nat_alt)
  then have "buf buff (zuc_alg_size alg) \<subseteq> buf buff 64" "unat (zuc_alg_size alg) < step_max"
    using assms(4) by (auto simp: buf_prefix_subset)
  note small = this
  have "mem_read (mem_write (w_mem w) counter (counter_bytes i)) buff (zuc_alg_size alg) =
      mem_read (w_mem w) buff (zuc_alg_size alg)"
    by (rule mem_read_write_disjoint [of _ _ _ 4]) (use small(1) assms(3) in auto)
  then have h4: "hash_holds absorbed w4 h alg (counter_bytes i @ mem_read (w_mem w) buff (zuc_alg_size alg))"
    using update_holds [OF conjunct1 [OF h3] small(2) v] h2 h3 by (simp add: mem_read_write_same)
  show ?thesis
    using finish_value [OF h4 f z] resettable_kept(2) [OF resettable_kept(1) [OF resettable_kept(1) [OF k2 u] v] f]
    by simp
qed

lemma derive_loop_value:
  assumes "resettable w h alg"
    and "run_state (derive_loop P buff counter h (zuc_alg_size alg) (int total_spins) (int i) ZUC_OK) w = (ZUC_OK, w')"
    and "mem_read (w_mem w) buff (zuc_alg_size alg) = spun (digest (zuc_int_psa_hash alg)) seed i" "i \<le> total_spins"
    and "buf buff 64 \<inter> buf counter 4 = {}" "64 < step_max"
    and z: "\<And>m. length (digest (zuc_int_psa_hash alg) m) = unat (zuc_alg_size alg)"
  shows "mem_read (w_mem w') buff (zuc_alg_size alg) = spun (digest (zuc_int_psa_hash alg)) seed total_spins"
  using assms(1-4)
proof (induction "total_spins - i" arbitrary: i w)
  case 0
  then show ?case by (subst (asm) derive_loop.simps) simp
next
  case (Suc k)
  then have i: "i < total_spins" by simp
  obtain st w1 where step: "run_state (derive_step P buff counter h (zuc_alg_size alg) (int i)) w = (st, w1)"
    by force
  then have rest: "run_state (derive_loop P buff counter h (zuc_alg_size alg) (int total_spins) (int (Suc i)) st) w1 =
      (ZUC_OK, w')"
    using Suc(4) i by (subst (asm) derive_loop.simps) (simp add: add.commute)
  have st: "st = ZUC_OK"
    using rest by (subst (asm) derive_loop.simps) (auto split: if_splits)
  note v = derive_step_value [OF Suc(3) step [unfolded st] assms(5,6) z]
  show ?case
    using Suc(1) [OF _ _ rest [unfolded st]] v Suc(2,5) i by (simp add: counter_bytes_int32le)
qed

lemma derive_native_value:
  assumes "run_state (derive_native P buff counter alg (RAWSXP p n) (int spins) out) w = (ZUC_OK, w')"
    and "buf buff 64 \<inter> buf counter 4 = {}" "buf buff 64 \<inter> buf out (zuc_alg_size alg) = {}"
    and "64 < step_max" "unat n < step_max"
    and size: "\<And>m. zuc_int_digest_available alg \<Longrightarrow> length (digest (zuc_int_psa_hash alg) m) = unat (zuc_alg_size alg)"
  shows "mem_read (w_mem w') out (zuc_alg_size alg) =
    spun (digest (zuc_int_psa_hash alg)) (mem_read (w_mem w) p n) spins"
proof -
  let ?sz = "zuc_alg_size alg"
  obtain st0 h w1 where new: "run_state (with_out (zuc_hash_new P alg)) w = ((st0, h), w1)"
    by (metis surj_pair)
  let ?up = "if st0 = ZUC_OK then zuc_hash_update P h p n else ret st0"
  obtain st1 w2 where up: "run_state ?up w1 = (st1, w2)" by force
  let ?fin = "if st1 = ZUC_OK then zuc_hash_finish P h buff 64 LOCAL else ret st1"
  obtain st2 w3 where fin: "run_state ?fin w2 = (st2, w3)" by force
  obtain st3 w4 where loop: "run_state (derive_loop P buff counter h ?sz (int spins) 0 st2) w3 = (st3, w4)" by force
  obtain w5 where free: "run_state (zuc_hash_free P h) w4 = ((), w5)"
    by (metis old.unit.exhaust surj_pair)
  have ok: "st3 = ZUC_OK" "w_mem w' = w_mem (snd (run_state (zuc_secure_zero buff 64)
      (w5\<lparr>w_mem := mem_write (w_mem w5) out (mem_read (w_mem w5) buff ?sz)\<rparr>)))"
    using assms(1) new up fin loop free
    by (auto simp: derive_native_def memcpy_def Let_def split: if_splits prod.splits)
  have st: "st2 = ZUC_OK"
    using loop ok(1) by (subst (asm) derive_loop.simps) (auto split: if_splits)
  then have st': "st1 = ZUC_OK" "st0 = ZUC_OK"
    using fin up by (auto split: if_splits)
  note new = new [unfolded st'] and up = up [unfolded st', simplified] and fin = fin [unfolded st st', simplified]
  have z: "\<And>m. length (digest (zuc_int_psa_hash alg) m) = unat (zuc_alg_size alg)"
    using new size by (auto simp: with_out_def zuc_hash_new_def split: if_splits)
  note h1 = new_holds [OF new] and k1 = new_resettable [OF new]
  have h2: "hash_holds absorbed w2 h alg (mem_read (w_mem w) p n)"
    using update_holds [OF conjunct1 [OF h1] assms(5) up] h1 by simp
  have k3: "resettable w3 h alg"
    using resettable_kept(2) [OF resettable_kept(1) [OF k1 up] fin] .
  have "mem_read (w_mem w4) buff ?sz = spun (digest (zuc_int_psa_hash alg)) (mem_read (w_mem w) p n) spins"
    using derive_loop_value [OF k3, of buff counter spins 0 w4] loop [unfolded st ok(1)] finish_value [OF h2 fin z]
      assms(2,4) z by simp
  moreover have "w_mem w5 = w_mem w4"
    using keepsD [OF zuc_hash_free_mem free] .
  moreover have "mem_read (w_mem w') out ?sz = mem_read (w_mem w5) buff ?sz"
    using ok(2) assms(3) mem_read_write_disjoint [of out ?sz buff 64 "replicate 64 0"]
    by (auto simp: run_zuc_secure_zero mem_read_write_same Int_commute)
  ultimately show ?thesis by simp
qed

lemma zl_derive_value:
  assumes "run_state (zl_derive P init_status buff counter (RAWSXP p n) spins (STRSXP [name])) s = (Returned v, s')"
    and "buf buff 64 \<inter> buf counter 4 = {}" "64 < step_max" "unat n < step_max"
    and "\<And>a. a \<in> set (rs_allocs s) \<Longrightarrow> buf buff 64 \<inter> buf a 64 = {}"
    and size: "\<And>alg m. zuc_int_digest_available alg \<Longrightarrow>
      length (digest (zuc_int_psa_hash alg) m) = unat (zuc_alg_size alg)"
  defines "alg \<equiv> zuc_alg_by_name (Some name)"
  shows "\<exists>out. v = RAWSXP out (zuc_alg_size alg) \<and>
    mem_read (w_mem (rs_world s')) out (zuc_alg_size alg) =
      spun (digest (zuc_int_psa_hash alg)) (mem_read (w_mem (rs_world s)) p n) (nat (Rf_asInteger spins))"
proof -
  have run: "0 \<le> Rf_asInteger spins \<and>
    run_state (allocRaw (zuc_alg_size alg) (\<lambda>out. do {
      st \<leftarrow> native (derive_native P buff counter alg (RAWSXP p n) (Rf_asInteger spins) (RAW out));
      if st \<noteq> ZUC_OK then ret Longjmp else ret (Returned out) })) s = (Returned v, s')"
    using assms(1)
    by (auto simp: zl_derive_def alg_arg_link_def require_backend_def raw_arg_def Let_def alg_def split: if_splits)
  then obtain out ps where out: "rs_allocs s = out # ps"
    and run2: "run_state (do {
      st \<leftarrow> native (derive_native P buff counter alg (RAWSXP p n) (Rf_asInteger spins) out);
      if st \<noteq> ZUC_OK then ret Longjmp else ret (Returned (RAWSXP out (zuc_alg_size alg))) })
        (s\<lparr>rs_allocs := ps\<rparr>) = (Returned v, s')"
    unfolding allocRaw_def by (auto elim: run_r_alloc_returned)
  then obtain w' where nat: "run_state (derive_native P buff counter alg (RAWSXP p n)
      (int (nat (Rf_asInteger spins))) out) (rs_world s) = (ZUC_OK, w')"
    and v: "v = RAWSXP out (zuc_alg_size alg)" "rs_world s' = w'"
    using run by (auto simp: run_native split: prod.splits if_splits)
  have "buf out (zuc_alg_size alg) \<subseteq> buf out 64"
    using zuc_alg_size_le [of alg] by (intro buf_prefix_subset) simp
  then have "buf buff 64 \<inter> buf out (zuc_alg_size alg) = {}"
    using assms(5) [of out] out by auto
  from derive_native_value [OF nat assms(2) this assms(3,4) size] v show ?thesis by simp
qed

end

context psa_hash_total
begin

lemma reset_succeeds:
  assumes "resettable w h alg" "able (w_psa w)" "supported (zuc_int_psa_hash alg)"
  shows "\<exists>w'. run_state (zuc_hash_reset P h) w = (ZUC_OK, w') \<and> able (w_psa w')"
  using assms setup_ok hash_able
  by (auto simp: resettable_def zuc_hash_reset_def deref_hash_def run_psa_do set_hash_def Let_def)

lemma finish_local_succeeds:
  assumes "hash_holds absorbed w h alg m" "h \<noteq> NULL" "out \<noteq> NULL" "able (w_psa w)"
    and "length (digest (zuc_int_psa_hash alg) m) = unat (zuc_alg_size alg)"
  shows "\<exists>w'. run_state (zuc_hash_finish P h out 64 LOCAL) w = (ZUC_OK, w') \<and> able (w_psa w')"
proof -
  have le: "unat (zuc_alg_size alg) \<le> 64" using zuc_alg_size_le [of alg] by (simp add: word_le_nat_alt)
  then have "\<not> 64 < zuc_alg_size alg" by (simp add: word_less_nat_alt)
  then show ?thesis
    using assms finish_ok [of "zuc_int_psa_hash alg" _ m "w_psa w" 64] le hash_able
    by (auto simp: hash_holds_def zuc_hash_finish_def deref_hash_def run_psa_do set_hash_def)
qed

lemma derive_step_succeeds:
  assumes "resettable w h alg" "able (w_psa w)" "supported (zuc_int_psa_hash alg)"
    and "buff \<noteq> NULL" "counter \<noteq> NULL" "64 < step_max"
    and z: "\<And>m. length (digest (zuc_int_psa_hash alg) m) = unat (zuc_alg_size alg)"
  shows "\<exists>w'. run_state (derive_step P buff counter h (zuc_alg_size alg) i) w = (ZUC_OK, w') \<and>
    able (w_psa w') \<and> resettable w' h alg"
proof -
  have h: "h \<noteq> NULL" using assms(1) by (simp add: resettable_def)
  let ?w1 = "w\<lparr>w_mem := mem_write (w_mem w) counter (counter_bytes i)\<rparr>"
  have k1: "resettable ?w1 h alg" "able (w_psa ?w1)" using assms(1,2) by (simp_all add: resettable_def)
  obtain w2 where r: "run_state (zuc_hash_reset P h) ?w1 = (ZUC_OK, w2)" "able (w_psa w2)"
    using reset_succeeds [OF k1 assms(3)] by blast
  note h2 = reset_holds [OF k1(1) r(1)] and k2 = resettable_kept(3) [OF k1(1) r(1)]
  obtain w3 where u: "run_state (zuc_hash_update P h counter 4) w2 = (ZUC_OK, w3)" "able (w_psa w3)"
    using update_succeeds [OF conjunct1 [OF h2] h assms(5) r(2)] by blast
  have h3: "hash_holds absorbed w3 h alg (mem_read (w_mem w2) counter 4)"
    using update_holds [OF conjunct1 [OF h2] _ u(1)] assms(6) by simp
  obtain w4 where v: "run_state (zuc_hash_update P h buff (zuc_alg_size alg)) w3 = (ZUC_OK, w4)" "able (w_psa w4)"
    using update_succeeds [OF h3 h assms(4) u(2)] by blast
  have "unat (zuc_alg_size alg) \<le> 64" using zuc_alg_size_le [of alg] by (simp add: word_le_nat_alt)
  then obtain m where h4: "hash_holds absorbed w4 h alg m"
    using update_holds [OF h3 _ v(1)] assms(6) by auto
  obtain w5 where f: "run_state (zuc_hash_finish P h buff 64 LOCAL) w4 = (ZUC_OK, w5)" "able (w_psa w5)"
    using finish_local_succeeds [OF h4 h assms(4) v(2) z] by blast
  then show ?thesis
    using r u v resettable_kept(2) [OF resettable_kept(1) [OF resettable_kept(1) [OF k2 u(1)] v(1)] f(1)]
    by (simp add: derive_step_def)
qed

lemma derive_loop_succeeds:
  assumes "resettable w h alg" "able (w_psa w)" "supported (zuc_int_psa_hash alg)"
    and "buff \<noteq> NULL" "counter \<noteq> NULL" "64 < step_max"
    and z: "\<And>m. length (digest (zuc_int_psa_hash alg) m) = unat (zuc_alg_size alg)"
  shows "\<exists>w'. run_state (derive_loop P buff counter h (zuc_alg_size alg) spins i ZUC_OK) w = (ZUC_OK, w')"
  using assms(1,2)
proof (induction "nat (spins - i)" arbitrary: i w)
  case 0
  then show ?case by (subst derive_loop.simps) simp
next
  case (Suc k)
  obtain w1 where "run_state (derive_step P buff counter h (zuc_alg_size alg) i) w = (ZUC_OK, w1)"
      "able (w_psa w1)" "resettable w1 h alg"
    using derive_step_succeeds [OF Suc(3,4) assms(3-6) z] by blast
  then show ?case
    using Suc(1) [of "i + 1" w1] Suc(2) by (subst derive_loop.simps) simp
qed

lemma zl_derive_succeeds:
  assumes "w_refcount (rs_world s) > 0" "w_allocs (rs_world s) = h # hs" "h \<noteq> NULL"
    and "able (w_psa (rs_world s))" "rs_allocs s = out # l" "out \<noteq> NULL" "p \<noteq> NULL" "buff \<noteq> NULL" "counter \<noteq> NULL"
    and "64 < step_max" "unat n < step_max" "0 \<le> spins"
    and "zuc_int_digest_available alg" "supported (zuc_int_psa_hash alg)"
    and z: "\<And>m. length (digest (zuc_int_psa_hash alg) m) = unat (zuc_alg_size alg)"
    and alg: "alg = zuc_alg_by_name (Some name)" "zuc_alg_available alg" "alg \<noteq> ZUC_ALG_NONE"
  shows "\<exists>s'. run_state (zl_derive P ZUC_OK buff counter (RAWSXP p n) (INTSXP [spins]) (STRSXP [name])) s =
    (Returned (RAWSXP out (zuc_alg_size alg)), s')"
proof -
  obtain w1 where new: "run_state (with_out (zuc_hash_new P alg)) (rs_world s) = ((ZUC_OK, h), w1)" "able (w_psa w1)"
    using new_succeeds [OF assms(1,13,2,3,4,14)] by blast
  note h1 = new_holds [OF new(1)]
  obtain w2 where up: "run_state (zuc_hash_update P h p n) w1 = (ZUC_OK, w2)" "able (w_psa w2)"
    using update_succeeds [OF conjunct1 [OF h1] assms(3,7) new(2)] by blast
  obtain m where h2: "hash_holds absorbed w2 h alg m"
    using update_holds [OF conjunct1 [OF h1] assms(11) up(1)] by blast
  obtain w3 where fin: "run_state (zuc_hash_finish P h buff 64 LOCAL) w2 = (ZUC_OK, w3)" "able (w_psa w3)"
    using finish_local_succeeds [OF h2 assms(3,8) up(2) z] by blast
  have "resettable w3 h alg"
    using resettable_kept(2) [OF resettable_kept(1) [OF new_resettable [OF new(1)] up(1)] fin(1)] .
  from derive_loop_succeeds [OF this fin(2) assms(14,8,9,10) z]
  obtain w4 where loop: "run_state (derive_loop P buff counter h (zuc_alg_size alg) spins 0 ZUC_OK) w3 = (ZUC_OK, w4)"
    by blast
  then show ?thesis
    using new up fin assms(5,6,12) alg
    by (simp add: zl_derive_def alg_arg_link_def require_backend_def raw_arg_def Let_def allocRaw_def run_r_alloc run_native
        derive_native_def split: prod.split)
qed

end

section \<open>Handles that live within one call\<close>

text \<open>What \<open>m\<close> creates in \<open>heap\<close> it has freed when it ends, and it frees nothing else.\<close>

definition scoped :: "('b, 'o, 'h) heap \<Rightarrow> ('b, 'o, 'a) zuc \<Rightarrow> bool" where
  "scoped heap m \<longleftrightarrow>
    (\<forall>w. fresh_for heap w \<longrightarrow>
      (case run_state m w of (r, w') \<Rightarrow> heap w' = heap w \<and> w_live w' = w_live w \<and> w_ub w' = w_ub w))"

lemma operates_keeps:
  assumes "keeps heap m" "keeps w_live m" "keeps w_ub m"
  shows "operates heap h m"
  using keepsD [OF assms(1)] keepsD [OF assms(2)] keepsD [OF assms(3)] map_upd_same(1) by (metis operates_def)

lemma operates_bind:
  assumes "operates heap h m" "\<And>r. operates heap h (k r)"
  shows "operates heap h (State_Monad.bind m k)"
  unfolding operates_def
proof (intro allI impI)
  fix w x r w'
  assume x: "heap w h = Some x" and run: "run_state (State_Monad.bind m k) w = (r, w')"
  obtain r1 w1 where m: "run_state m w = (r1, w1)" by force
  then obtain y where y: "heap w1 = (heap w)(h \<mapsto> y)" "w_live w1 = w_live w" "w_ub w1 = w_ub w"
    using assms(1) [unfolded operates_def, rule_format, OF x m] by blast
  have "run_state (k r1) w1 = (r, w')" using run m by simp
  then show "(\<exists>y. heap w' = (heap w)(h \<mapsto> y)) \<and> w_live w' = w_live w \<and> w_ub w' = w_ub w"
    using assms(2) [of r1, unfolded operates_def, rule_format, of w1 y r w'] y by auto
qed

lemma operates_if:
  "(b \<Longrightarrow> operates heap h m) \<Longrightarrow> (\<not> b \<Longrightarrow> operates heap h m') \<Longrightarrow> operates heap h (if b then m else m')"
  by simp

lemma operates_let: "operates heap h (m x) \<Longrightarrow> operates heap h (let y = x in m y)"
  by simp

lemma operates_basic:
  "operates heap h (ret x)"
  "(\<And>w g. heap (w\<lparr>w_mem := g\<rparr>) = heap w) \<Longrightarrow> operates heap h (write_bytes p bs)"
  by (rule operates_keeps; intro keeps_intros; simp)+

lemmas operates_rules = operates_bind operates_if operates_let operates_basic

context owned_context
begin

lemma scoped_handle:
  assumes new: "creates heap new" and body: "\<And>h. h \<noteq> NULL \<Longrightarrow> operates heap h (body ZUC_OK h)"
    and failed: "\<And>st h. st \<noteq> ZUC_OK \<Longrightarrow> body st h = ret (e st)"
    and tail: "\<And>r. keeps heap (tail r)" "\<And>r. keeps w_live (tail r)" "\<And>r. keeps w_ub (tail r)"
    and null: "freefn NULL = ret ()"
  shows "scoped heap (do { (st, h) \<leftarrow> with_out new; r \<leftarrow> body st h; freefn h; tail r })"
  unfolding scoped_def
proof (intro allI impI)
  fix w
  assume fresh: "fresh_for heap w"
  obtain st h w1 where n: "run_state (with_out new) w = ((st, h), w1)" by (metis surj_pair)
  note c = new [unfolded creates_def, rule_format, OF fresh n]
  obtain r w2 where b: "run_state (body st h) w1 = (r, w2)" by force
  obtain w3 where f: "run_state (freefn h) w2 = ((), w3)" by (metis old.unit.exhaust surj_pair)
  have w3: "heap w3 = heap w \<and> w_live w3 = w_live w \<and> w_ub w3 = w_ub w"
  proof (cases "st = ZUC_OK")
    case True
    then obtain x where x: "h \<noteq> NULL" "heap w h = None" "heap w1 = (heap w)(h \<mapsto> x)" "w_live w1 = w_live w + 1"
        "w_ub w1 = w_ub w"
      using c by auto
    then obtain y where y: "heap w2 = (heap w1)(h \<mapsto> y)" "w_live w2 = w_live w1" "w_ub w2 = w_ub w1"
      using body [OF x(1), unfolded operates_def, rule_format, of w1 x r w2] b True by auto
    show ?thesis
      using free_removes [OF _ x(1) f, of y] x y by auto
  next
    case False
    then show ?thesis
      using c b f failed null by auto
  qed
  obtain q w4 where t: "run_state (tail r) w3 = (q, w4)" by force
  have "run_state (do { (st, h) \<leftarrow> with_out new; r \<leftarrow> body st h; freefn h; tail r }) w = (q, w4)"
    using n b f t by simp
  then show "case run_state (do { (st, h) \<leftarrow> with_out new; r \<leftarrow> body st h; freefn h; tail r }) w of
      (r, w') \<Rightarrow> heap w' = heap w \<and> w_live w' = w_live w \<and> w_ub w' = w_ub w"
    using w3 keepsD [OF tail(1) t] keepsD [OF tail(2) t] keepsD [OF tail(3) t] by simp
qed

end

lemma hash_reset_operates: "operates w_hashes h (zuc_hash_reset P h)"
  by (auto simp: operates_def zuc_hash_reset_def deref_hash_def run_psa_do set_hash_def Let_def intro: map_upd_same
      split: if_splits)

lemma derive_step_operates: "operates w_hashes h (derive_step P buff counter h k i)"
  unfolding derive_step_def
  by (intro operates_rules hash_operates hash_reset_operates) simp

lemma derive_loop_operates: "operates w_hashes h (derive_loop P buff counter h k spins i st)"
proof (induction P buff counter h k spins i st rule: derive_loop.induct)
  case (1 P buff counter h k spins i st)
  then show ?case
    by (subst derive_loop.simps) (intro operates_rules derive_step_operates; simp)
qed

lemma derive_loop_failed: "st \<noteq> ZUC_OK \<Longrightarrow> derive_loop P buff counter h k spins i st = ret st"
  by (subst derive_loop.simps) simp

lemma derive_native_scoped: "scoped w_hashes (derive_native P buff counter alg seed spins out)"
proof -
  let ?k = "zuc_alg_size alg"
  let ?body = "\<lambda>st h. do {
     st \<leftarrow> (if st = ZUC_OK then zuc_hash_update P h (RAW seed) (XLENGTH seed) else ret st);
     st \<leftarrow> (if st = ZUC_OK then zuc_hash_finish P h buff ZUC_MAX_DIGEST_SIZE LOCAL else ret st);
     derive_loop P buff counter h ?k spins 0 st }"
  let ?tail = "\<lambda>st. do { (if st = ZUC_OK then memcpy out buff ?k else ret ());
     zuc_secure_zero buff ZUC_MAX_DIGEST_SIZE; ret st }"
  have "scoped w_hashes (do { (st, h) \<leftarrow> with_out (zuc_hash_new P alg); r \<leftarrow> ?body st h; zuc_hash_free P h; ?tail r })"
  proof (rule hash_ctx.scoped_handle [OF hash_creates, where e = "\<lambda>st. st"])
    fix h show "operates w_hashes h (?body ZUC_OK h)"
      by (intro operates_rules hash_operates derive_loop_operates)
  next
    fix st h assume "st \<noteq> ZUC_OK"
    then show "?body st h = ret st" by (simp add: derive_loop_failed)
  qed (unfold memcpy_def, (intro keeps_intros; simp)+, simp add: zuc_hash_free_def)
  then show ?thesis
    by (simp add: derive_native_def Let_def case_prod_unfold)
qed

lemma segments_loop_operates:
  "operates w_aess h (segments_loop P e h iv data out seg len offset st)"
proof (induction P e h iv data out seg len offset st rule: segments_loop.induct)
  case (1 P e h iv data out seg len offset st)
  show ?case
    by (subst segments_loop.simps, intro operates_rules aes_set_operates aes_cbc_operates; (rule 1; simp)?)
qed

lemma segments_loop_failed: "st \<noteq> ZUC_OK \<Longrightarrow> segments_loop P e h iv data out seg len offset st = ret st"
  by (subst segments_loop.simps) simp

lemma segments_native_scoped: "scoped w_aess (segments_native P e data key iv seg out)"
proof -
  let ?body = "\<lambda>st h. segments_loop P e h (RAW iv) (RAW data) out seg (XLENGTH data) 0 st"
  have "scoped w_aess (do { (st, h) \<leftarrow> with_out (zuc_aes_new P (RAW key) (XLENGTH key)); r \<leftarrow> ?body st h;
      zuc_aes_free P h; ret r })"
    by (rule aes_ctx.scoped_handle [OF aes_creates, where e = "\<lambda>st. st"])
      (simp_all add: segments_loop_operates segments_loop_failed zuc_aes_free_def keeps_ret)
  then show ?thesis
    by (simp add: segments_native_def case_prod_unfold)
qed

lemma key_made_same: "key_made v x v1 \<Longrightarrow> same v1 v2 \<Longrightarrow> key_made v x v2"
  by (cases x) (auto simp: key_made_def same_def split: if_splits)

lemma key_made_held: "key_made v (ZUC_OK, h) v' \<Longrightarrow> held v' h \<and> fresh v' \<and> ks_keys v h = None"
  by (auto simp: key_made_def held_def)

lemma same_trans: "same v v1 \<Longrightarrow> same v1 v2 \<Longrightarrow> same v v2"
  by (simp add: same_def)

text \<open>Two handles, the second made only when the first was, freed in the opposite order.\<close>

lemma two_handles:
  assumes "ksv v m1 (key_made v)"
    and m2: "\<And>a v1. fresh v1 \<Longrightarrow> held v1 a \<Longrightarrow> ksv v1 (m2 a) (key_made v1)"
    and body: "\<And>a b v2. fresh v2 \<Longrightarrow> held v2 a \<Longrightarrow> held v2 b \<Longrightarrow> ksv v2 (body ZUC_OK a b) (\<lambda>_. same v2)"
    and failed: "\<And>st a b. st \<noteq> ZUC_OK \<Longrightarrow> body st a b = ret (e st)"
  shows "ksv v (do {
      (st, a) \<leftarrow> m1;
      (st, b) \<leftarrow> (if st = ZUC_OK then m2 a else ret (st, NULL));
      x \<leftarrow> body st a b;
      zuc_pkey_free b;
      zuc_pkey_free a;
      ret x }) (\<lambda>_. same v)"
proof (rule ksv_bind [OF assms(1)], rule ksv_case_prod)
  fix x v1 st a
  assume x: "key_made v x v1" "x = (st, a)"
  have fr: "fresh v1" using x key_made_fresh by blast
  have second: "ksv v1 (if st = ZUC_OK then m2 a else ret (st, NULL))
      (\<lambda>y v2. key_made v1 y v2 \<and> (fst y = ZUC_OK \<longrightarrow> st = ZUC_OK))"
    using x fr key_made_held [of v a v1] m2 [of v1 a]
    by (auto intro!: ksv_ret no_key_made same_refl elim: ksv_weaken)
  show "ksv v1 (do {
      (st, b) \<leftarrow> (if st = ZUC_OK then m2 a else ret (st, NULL));
      x \<leftarrow> body st a b;
      zuc_pkey_free b;
      zuc_pkey_free a;
      ret x }) (\<lambda>_. same v)"
  proof (rule ksv_bind [OF second], rule ksv_case_prod)
    fix y v2 st' b
    assume y: "key_made v1 y v2 \<and> (fst y = ZUC_OK \<longrightarrow> st = ZUC_OK)" "y = (st', b)"
    have fr2: "fresh v2" using y key_made_fresh by blast
    have held: "held v2 a \<and> held v2 b" if "st' = ZUC_OK"
      using y x that by (auto simp: key_made_def held_def)
    have work: "ksv v2 (body st' a b) (\<lambda>_. same v2)"
      using body [OF fr2] held failed [of st' a b] fr2 by (cases "st' = ZUC_OK") (auto intro: ksv_ret same_refl)
    show "ksv v2 (do { x \<leftarrow> body st' a b; zuc_pkey_free b; zuc_pkey_free a; ret x }) (\<lambda>_. same v)"
    proof (rule ksv_bind [OF work])
      fix r v3 assume v3: "same v2 v3"
      have m: "key_made v1 (st', b) v3" using key_made_same [OF _ v3] y by blast
      show "ksv v3 (do { zuc_pkey_free b; zuc_pkey_free a; ret r }) (\<lambda>_. same v)"
        by (rule ksv_free_made [OF m], rule ksv_free_made [OF key_made_same [OF x(1) [unfolded x(2)]]])
          (auto intro: ksv_ret)
    qed
  qed
qed

lemma sign_native_same:
  assumes "fresh v"
  shows "ksv v (rsa_sign_native P sig pem digest) (\<lambda>_. same v)"
proof -
  let ?body = "\<lambda>st key pub. do {
     (st, len) \<leftarrow> (if st = ZUC_OK
                   then with_len (zuc_pkey_sign_hash P key ZUC_ALG_RSA_PKCS1V15_SIGN ZUC_ALG_SHA256
                          (RAW digest) (XLENGTH digest) sig 512)
                   else ret (st, 0));
     st \<leftarrow> (if st = ZUC_OK
            then zuc_pkey_verify_hash P pub ZUC_ALG_RSA_PKCS1V15_SIGN ZUC_ALG_SHA256
                   (RAW digest) (XLENGTH digest) sig len
            else ret st);
     ret (st, len) }"
  have body: "ksv v2 (?body ZUC_OK a b) (\<lambda>_. same v2)" if "fresh v2" "held v2 a" "held v2 b" for v2 a b
    unfolding if_P [OF refl]
    by (rule ksv_bind [OF with_len_same [OF keys_used(1)]])
      (use that in \<open>auto simp: same_def held_def intro!: ksv_bind [OF keys_used(2)] ksv_ret\<close>)
  have "ksv v (do {
      (st, a) \<leftarrow> with_out (zuc_pkey_parse P (RAW pem) (XLENGTH pem) True);
      (st, b) \<leftarrow> (if st = ZUC_OK then with_out (zuc_pkey_public P a) else ret (st, NULL));
      x \<leftarrow> ?body st a b;
      zuc_pkey_free b;
      zuc_pkey_free a;
      ret x }) (\<lambda>_. same v)"
    by (rule two_handles [where body = ?body and e = "\<lambda>st. (st, 0)", OF keys_made(1) [OF assms]])
      (rule keys_made(4) body | simp)+
  then show ?thesis
    by (simp add: rsa_sign_native_def case_prod_unfold)
qed

lemma x25519_native_same:
  assumes "fresh v"
  shows "ksv v (x25519_native P k priv pub) (\<lambda>_. same v)"
proof -
  let ?body = "\<lambda>st a b. if st = ZUC_OK then with_len (zuc_pkey_agree P a b k 32) else ret (st, 0)"
  have body: "ksv v2 (?body ZUC_OK a b) (\<lambda>_. same v2)" if "fresh v2" "held v2 a" "held v2 b" for v2 a b
    unfolding if_P [OF refl] by (rule with_len_same [OF keys_used(7) [OF that]])
  have "ksv v (do {
      (st, a) \<leftarrow> with_out (zuc_pkey_import P ZUC_ALG_X25519 True (RAW priv) (XLENGTH priv));
      (st, b) \<leftarrow> (if st = ZUC_OK then with_out (zuc_pkey_import P ZUC_ALG_X25519 False (RAW pub) (XLENGTH pub))
        else ret (st, NULL));
      x \<leftarrow> ?body st a b;
      zuc_pkey_free b;
      zuc_pkey_free a;
      ret x }) (\<lambda>_. same v)"
    by (rule two_handles [where body = ?body and e = "\<lambda>st. (st, 0)", OF keys_made(3) [OF assms]])
      (rule keys_made(3) body | simp)+
  then show ?thesis
    by (simp add: x25519_native_def case_prod_unfold)
qed

section \<open>Nothing outlives a call\<close>

text \<open>
  What a call observes of the session through \<open>heap\<close>, the count of live contexts and the flag of
  undefined behaviour are after the call what they were before it, however it ends.
\<close>

definition undisturbed :: "(('b, 'o) world \<Rightarrow> 'h) \<Rightarrow> ('b, 'o) world \<Rightarrow> ('b, 'o) session \<Rightarrow> bool" where
  "undisturbed heap w s \<longleftrightarrow>
    heap (rs_world s) = heap w \<and> w_live (rs_world s) = w_live w \<and> w_ub (rs_world s) = w_ub w"

lemma stable_undisturbed: "stable (undisturbed heap w)" "stable (\<lambda>s. rs_world s = w)"
  by (simp_all add: stable_def undisturbed_def)

lemma valid_require_backend:
  assumes "valid I k Q" "\<And>s. I s \<Longrightarrow> Q Longjmp s"
  shows "valid I (require_backend st k) Q"
  using assms by (simp add: require_backend_def valid_def)

lemma valid_raw_arg:
  assumes "valid I k Q" "\<And>s. I s \<Longrightarrow> Q Longjmp s"
  shows "valid I (raw_arg x k) Q"
  using assms by (cases x) (simp_all add: raw_arg_def valid_def)

lemma valid_alg_arg:
  assumes "\<And>alg. valid I (k alg) Q" "\<And>s. I s \<Longrightarrow> Q Longjmp s"
  shows "valid I (alg_arg_link x k) Q"
  using assms by (cases x) (simp_all add: alg_arg_link_def valid_def Let_def)

lemma valid_refuse: "(\<And>s. I s \<Longrightarrow> Q r s) \<Longrightarrow> valid I (ret r) Q"
  by (simp add: valid_def)

lemma valid_scoped:
  assumes "scoped heap m" "fresh_for heap w"
  shows "valid (\<lambda>s. rs_world s = w) (native m) (\<lambda>_. undisturbed heap w)"
  using assms by (auto simp: valid_def run_native scoped_def undisturbed_def split: prod.splits)

lemma valid_same:
  assumes "\<And>v. fresh v \<Longrightarrow> ksv v m (\<lambda>_. same v)" "fresh (ks w)"
  shows "valid (\<lambda>s. rs_world s = w) (native m) (\<lambda>_. undisturbed (\<lambda>w. (w_pkeys w, w_blocks w)) w)"
proof (rule validI)
  fix s r s'
  assume "rs_world s = w" "run_state (native m) s = (r, s')"
  then have "run_state m w = (r, rs_world s')"
    by (auto simp: run_native split: prod.splits)
  from ksvD [OF assms(1) [OF assms(2)] refl this] show "undisturbed (\<lambda>w. (w_pkeys w, w_blocks w)) w s'"
    by (simp add: same_def undisturbed_def ks_simps)
qed

lemma valid_copied:
  "valid (undisturbed (\<lambda>w. (w_pkeys w, w_blocks w)) w) (native (memcpy dst src n))
    (\<lambda>_. undisturbed (\<lambda>w. (w_pkeys w, w_blocks w)) w)"
  by (simp add: valid_def run_native memcpy_def undisturbed_def)

lemmas valid_entry = valid_require_backend valid_raw_arg valid_alg_arg valid_if valid_allocRaw stable_undisturbed
  valid_refuse

lemma zl_derive_undisturbed:
  assumes "fresh_for w_hashes w"
  shows "valid (\<lambda>s. rs_world s = w) (zl_derive P st digest counter seed spins algorithm)
    (\<lambda>_. undisturbed w_hashes w)"
  unfolding zl_derive_def Let_def
  by (intro valid_entry valid_bind [OF valid_scoped [OF derive_native_scoped assms]])
    (simp_all add: undisturbed_def)

lemma zl_segments_undisturbed:
  assumes "fresh_for w_aess w"
  shows "valid (\<lambda>s. rs_world s = w) (zl_segments P st data key iv segment encrypt) (\<lambda>_. undisturbed w_aess w)"
  unfolding zl_segments_def Let_def
  by (intro valid_entry valid_bind [OF valid_scoped [OF segments_native_scoped assms]])
    (simp_all add: undisturbed_def)

lemma zl_keys_undisturbed:
  assumes "fresh (ks w)"
  shows "valid (\<lambda>s. rs_world s = w) (zl_rsa_sign P st sig pem digest)
      (\<lambda>_. undisturbed (\<lambda>w. (w_pkeys w, w_blocks w)) w)"
    and "valid (\<lambda>s. rs_world s = w) (zl_x25519 P st k priv pub)
      (\<lambda>_. undisturbed (\<lambda>w. (w_pkeys w, w_blocks w)) w)"
  unfolding zl_rsa_sign_def zl_x25519_def
  by (intro valid_entry valid_bind [OF valid_same [OF sign_native_same assms]]
      valid_bind [OF valid_same [OF x25519_native_same assms]] valid_case_prod valid_bind [OF valid_copied];
      simp add: undisturbed_def)+

text \<open>
  C31. However an entry point of \<^verbatim>\<open>zucryptlink\<close> that creates a context or key handles is left (it
  returns, a check refuses its arguments, an allocation of R or of C fails, the backend fails), no
  context, no handle and no block of it is left on the heap, the count of live contexts is as before
  and nothing was used after it was freed.
\<close>

theorem zucryptlink_leaves_nothing:
  assumes "fresh_for w_hashes (rs_world s)" "fresh_for w_aess (rs_world s)" "fresh (ks (rs_world s))"
  shows "undisturbed w_hashes (rs_world s) (snd (run_state (zl_derive P st buff counter seed spins algorithm) s)) \<and>
    undisturbed w_aess (rs_world s) (snd (run_state (zl_segments P st data key iv segment encrypt) s)) \<and>
    undisturbed (\<lambda>w. (w_pkeys w, w_blocks w)) (rs_world s) (snd (run_state (zl_rsa_sign P st sig pem md) s)) \<and>
    undisturbed (\<lambda>w. (w_pkeys w, w_blocks w)) (rs_world s) (snd (run_state (zl_x25519 P st k priv pub) s))"
  using zl_derive_undisturbed [OF assms(1)] zl_segments_undisturbed [OF assms(2)] zl_keys_undisturbed [OF assms(3)]
  by (auto simp: valid_def split_beta)

text \<open>
  C17. \<^verbatim>\<open>zl_derive\<close> over the vendored digests computes the iterated digest: whenever it returns, the vector
  it returns holds \<open>H\<^sub>n\<close> of the seed, where \<open>H\<^sub>0\<close> is the FIPS 180-4 digest of the seed and \<open>H\<^sub>i\<^sub>+\<^sub>1\<close> that
  of the 32-bit little-endian \<open>i\<close> followed by \<open>H\<^sub>i\<close>, for every algorithm, number of turns and seed below 4 GiB. One
  context serves all turns through \<^verbatim>\<open>zuc_hash_reset\<close>.
\<close>

theorem zl_derive_is_iterated:
  assumes "run_state (zl_derive (vendored_hash Q) init_status buff counter (RAWSXP p n) spins (STRSXP [name])) s =
      (Returned v, s')"
    and "buf buff 64 \<inter> buf counter 4 = {}" "unat n < 2 ^ 32"
    and "\<And>a. a \<in> set (rs_allocs s) \<Longrightarrow> buf buff 64 \<inter> buf a 64 = {}"
  shows "\<exists>out. v = RAWSXP out (zuc_alg_size (zuc_alg_by_name (Some name))) \<and>
    mem_read (w_mem (rs_world s')) out (zuc_alg_size (zuc_alg_by_name (Some name))) =
      spun (psa_digest (zuc_int_psa_hash (zuc_alg_by_name (Some name)))) (mem_read (w_mem (rs_world s)) p n)
        (nat (Rf_asInteger spins))"
  by (rule vendored.zl_derive_value [OF assms(1,2) _ assms(3) assms(4)]) (use psa_hash_sizes in auto)

lemma derive_session_runs:
  "\<exists>s'. run_state (zl_derive (vendored_hash (scripted accept_all)) ZUC_OK 16384 20480 (RAWSXP 8192 32) (INTSXP [100000])
      (STRSXP [''sha256''])) digest_session = (Returned (RAWSXP 100 32), s')"
  using vendored_total.zl_derive_succeeds [OF digest_session_ok(1,2) _ digest_session_ok(3) digest_session_ok(5)
      _ _ _ _ _ _ _ digest_session_ok(8) _ _ digest_session_ok(7) [symmetric],
      of 8192 16384 20480 32 100000 "scripted accept_all"]
    psa_hash_sizes [OF digest_session_ok(8)] digest_session_ok(9)
  by (simp add: zuc_alg_available_iff all_algs_def)

theorem zl_derive_is_iterated_witness:
  "\<exists>s'. run_state (zl_derive (vendored_hash (scripted accept_all)) ZUC_OK 16384 20480 (RAWSXP 8192 32) (INTSXP [100000])
      (STRSXP [''sha256''])) digest_session = (Returned (RAWSXP 100 32), s') \<and>
    mem_read (w_mem (rs_world s')) 100 32 =
      spun sha256_digest (mem_read (w_mem (rs_world digest_session)) 8192 32) 100000"
proof -
  obtain s' where run: "run_state (zl_derive (vendored_hash (scripted accept_all)) ZUC_OK 16384 20480 (RAWSXP 8192 32)
      (INTSXP [100000]) (STRSXP [''sha256''])) digest_session = (Returned (RAWSXP 100 32), s')"
    using derive_session_runs by blast
  have "buf 16384 64 \<inter> buf 20480 4 = {}" "buf 16384 64 \<inter> buf a 64 = {}" if "a \<in> set (rs_allocs digest_session)" for a
    using that by (auto simp: digest_session_ok in_buf_no_wrap no_wrap_def)
  moreover have "psa_digest (zuc_int_psa_hash ZUC_ALG_SHA256) = sha256_digest"
    by (rule ext) (simp only: digest_session_ok)
  ultimately show ?thesis
    using zl_derive_is_iterated [OF run] run digest_session_ok(5) by (auto simp: digest_session_ok)
qed

theorem zucryptlink_leaves_nothing_witness:
  "\<exists>s'. run_state (zl_derive (vendored_hash (scripted accept_all)) ZUC_OK 16384 20480 (RAWSXP 8192 32) (INTSXP [100000])
      (STRSXP [''sha256''])) digest_session = (Returned (RAWSXP 100 32), s') \<and>
    w_hashes (rs_world s') = Map.empty \<and> w_live (rs_world s') = 0 \<and> \<not> w_ub (rs_world s')"
proof -
  obtain s' where run: "run_state (zl_derive (vendored_hash (scripted accept_all)) ZUC_OK 16384 20480 (RAWSXP 8192 32)
      (INTSXP [100000]) (STRSXP [''sha256''])) digest_session = (Returned (RAWSXP 100 32), s')"
    using derive_session_runs by blast
  have "fresh_for w_hashes (rs_world digest_session)" "fresh_for w_aess (rs_world digest_session)"
      "fresh (ks (rs_world digest_session))"
    by (simp_all add: digest_session_def fresh_for_def fresh_def ks_def)
  then show ?thesis
    using zucryptlink_leaves_nothing [of digest_session "vendored_hash (scripted accept_all)" ZUC_OK 16384 20480
        "RAWSXP 8192 32" "INTSXP [100000]" "STRSXP [''sha256'']"] run
    by (simp add: undisturbed_def) (simp add: digest_session_def)
qed

section \<open>The reference to the backend\<close>

lemma entries_refuse:
  assumes "st \<noteq> ZUC_OK"
  shows "run_state (zl_backend P rs st) s = (Longjmp, s)" "run_state (zl_hash P st x y) s = (Longjmp, s)"
    "run_state (zl_hmac P st x y z) s = (Longjmp, s)" "run_state (zl_random rs st x) s = (Longjmp, s)"
    "run_state (zl_derive P st a b x y z) s = (Longjmp, s)" "run_state (zl_segments P st x y z u v) s = (Longjmp, s)"
    "run_state (zl_gcm_encrypt P st x y z) s = (Longjmp, s)"
    "run_state (zl_gcm_decrypt_status P st x y z u) s = (Longjmp, s)"
    "run_state (zl_pbkdf2 P st x y z u) s = (Longjmp, s)" "run_state (zl_rsa_sign P st a x y) s = (Longjmp, s)"
    "run_state (zl_x25519 P st a x y) s = (Longjmp, s)"
  using assms
  by (simp_all add: zl_backend_def zl_hash_def zl_hmac_def zl_random_def zl_derive_def zl_segments_def zl_gcm_encrypt_def
      zl_gcm_decrypt_status_def zl_pbkdf2_def zl_rsa_sign_def zl_x25519_def require_backend_def alg_arg_link_def Let_def
      split: sexp.splits)

definition refs :: "('b, 'o) link_dll \<Rightarrow> nat" where
  "refs l = unat (w_refcount (rs_world (l_session l)))"

lemma unload_refs:
  assumes "run_state (R_unload_zucryptlink P) l = ((), l')"
  shows "refs l' = refs l - (if l_init_status l = ZUC_OK then 1 else 0) \<and> l_init_status l' \<noteq> ZUC_OK"
proof -
  obtain st w where "run_state (zuc_shutdown P) (rs_world (l_session l)) = (st, w)" by force
  then show ?thesis
    using assms zuc_shutdown_refcount [of P "rs_world (l_session l)" st w]
    by (cases "st = ZUC_OK") (auto simp: R_unload_zucryptlink_def in_session_def run_native refs_def split: if_splits)
qed

lemma unload_again: "l_init_status l \<noteq> ZUC_OK \<Longrightarrow> run_state (R_unload_zucryptlink P) l = ((), l)"
  by (simp add: R_unload_zucryptlink_def)

text \<open>
  The shared object holds one reference to the backend exactly while its start has succeeded and
  it is loaded: loading takes one or, when the backend refuses, none; unloading, whatever the calls
  in between did as long as they kept the count, gives back what loading took and no more, also when
  it is called twice. After a failed start every entry point refuses before it touches anything.
\<close>

theorem zucryptlink_reference:
  assumes "run_state (R_init_zucryptlink P) l = ((), l1)"
  shows "refs l1 = refs l + (if l_init_status l1 = ZUC_OK then 1 else 0) \<and>
    (\<forall>l2 l3. l_init_status l2 = l_init_status l1 \<longrightarrow> refs l2 = refs l1 \<longrightarrow>
       run_state (R_unload_zucryptlink P) l2 = ((), l3) \<longrightarrow>
       refs l3 = refs l \<and> l_init_status l3 \<noteq> ZUC_OK \<and> run_state (R_unload_zucryptlink P) l3 = ((), l3)) \<and>
    (l_init_status l1 \<noteq> ZUC_OK \<longrightarrow>
       (\<forall>s x y z. run_state (zl_hash P (l_init_status l1) x y) s = (Longjmp, s) \<and>
          run_state (zl_rsa_sign P (l_init_status l1) a x y) s = (Longjmp, s) \<and>
          run_state (zl_derive P (l_init_status l1) a b x y z) s = (Longjmp, s)))"
proof (intro conjI allI impI)
  let ?n = "w_refcount (rs_world (l_session l))"
  obtain st w where init: "run_state (zuc_init P) (rs_world (l_session l)) = (st, w)" by force
  have l1: "l_init_status l1 = st" "rs_world (l_session l1) = w"
    using assms init by (auto simp: R_init_zucryptlink_def in_session_def run_native)
  show step: "refs l1 = refs l + (if l_init_status l1 = ZUC_OK then 1 else 0)"
    using zuc_init_refcount [of P "rs_world (l_session l)"] init l1 by (auto simp: refs_def)
  fix l2 l3
  assume l2: "l_init_status l2 = l_init_status l1" "refs l2 = refs l1"
    and un: "run_state (R_unload_zucryptlink P) l2 = ((), l3)"
  show "refs l3 = refs l"
    using unload_refs [OF un] l2 step by simp
  show dead: "l_init_status l3 \<noteq> ZUC_OK"
    using unload_refs [OF un] by blast
  show "run_state (R_unload_zucryptlink P) l3 = ((), l3)"
    by (rule unload_again [OF dead])
next
  fix s :: "('a, 'b) session" and x y z
  assume st: "l_init_status l1 \<noteq> ZUC_OK"
  show "run_state (zl_hash P (l_init_status l1) x y) s = (Longjmp, s)"
    "run_state (zl_rsa_sign P (l_init_status l1) a x y) s = (Longjmp, s)"
    "run_state (zl_derive P (l_init_status l1) a b x y z) s = (Longjmp, s)"
    by (rule entries_refuse [OF st])+
qed

definition link_dll0 :: "(unit, unit) link_dll" where
  "link_dll0 = \<lparr>l_session = \<lparr>rs_world = fresh_world () [], rs_ptrs = Map.empty, rs_allocs = [], rs_interrupts = []\<rparr>,
     l_init_status = ZUC_ERR_NOT_READY, l_routines = []\<rparr>"

theorem zucryptlink_reference_witness:
  "\<exists>l1 l3. run_state (R_init_zucryptlink (scripted accept_all)) link_dll0 = ((), l1) \<and> refs l1 = 2 \<and>
    run_state (R_unload_zucryptlink (scripted accept_all)) l1 = ((), l3) \<and> refs l3 = 1"
proof -
  obtain l1 where run: "run_state (R_init_zucryptlink (scripted accept_all)) link_dll0 = ((), l1)"
    by (metis old.unit.exhaust surj_pair)
  then have st: "l_init_status l1 = ZUC_OK"
    by (auto simp: R_init_zucryptlink_def in_session_def run_native zuc_init_def link_dll0_def)
  obtain l3 where un: "run_state (R_unload_zucryptlink (scripted accept_all)) l1 = ((), l3)"
    by (metis old.unit.exhaust surj_pair)
  have "refs link_dll0 = 1" by (simp add: refs_def link_dll0_def)
  moreover have "refs l1 = refs link_dll0 + 1" "refs l3 = refs link_dll0"
    using zucryptlink_reference [OF run] un st by (metis (full_types))+
  ultimately show ?thesis
    using run un by auto
qed

end
