(* ===== verification/Segments.thy ===== *)
theory Segments
  imports Link Psa_Cipher
begin

text \<open>
  \<^verbatim>\<open>zl_segments\<close>: one AES handle serves all segments, each from the same IV, because
  \<^verbatim>\<open>zuc_aes_cbc_set_state\<close> restarts the chain. Over a backend that keeps the CBC contract the result is
  the mode applied to every segment on its own.
\<close>

section \<open>The specification\<close>

function seg_cbc :: "(byte list \<Rightarrow> byte list) \<Rightarrow> nat \<Rightarrow> byte list \<Rightarrow> byte list" where
  "seg_cbc f seg xs = (if xs = [] \<or> seg = 0 then [] else f (take seg xs) @ seg_cbc f seg (drop seg xs))"
  by pat_completeness auto

termination
  by (relation "measure (\<lambda>(f, seg, xs). length xs)") auto

declare seg_cbc.simps [simp del]

lemma seg_cbc_Nil [simp]: "seg_cbc f seg [] = []"
  by (simp add: seg_cbc.simps)

lemma seg_cbc_last: "xs \<noteq> [] \<Longrightarrow> length xs \<le> seg \<Longrightarrow> seg_cbc f seg xs = f xs"
  by (subst seg_cbc.simps) auto

lemma seg_cbc_append: "seg dvd length xs \<Longrightarrow> seg_cbc f seg (xs @ ys) = seg_cbc f seg xs @ seg_cbc f seg ys"
proof (induction "length xs" arbitrary: xs rule: less_induct)
  case less
  show ?case
  proof (cases "xs = [] \<or> seg = 0")
    case True
    with less(2) show ?thesis by auto
  next
    case False
    then have n: "seg \<le> length xs" "0 < seg" using less(2) by (auto intro: dvd_imp_le)
    have "seg dvd length (drop seg xs)" using less(2) n by simp
    from less(1) [OF _ this] n have "seg_cbc f seg (drop seg xs @ ys) = seg_cbc f seg (drop seg xs) @ seg_cbc f seg ys"
      using False by simp
    then show ?thesis
      using False n by (subst (1 2) seg_cbc.simps) simp
  qed
qed

section \<open>The loop\<close>

definition keyed :: "('b \<Rightarrow> psa_key_id_t \<Rightarrow> byte list) \<Rightarrow> ('b, 'o) world \<Rightarrow> ptr \<Rightarrow> byte list \<Rightarrow> bool" where
  "keyed key_of w aes k \<longleftrightarrow> aes \<noteq> NULL \<and> (\<exists>x. w_aess w aes = Some x \<and> key_of (w_psa w) (a_key x) = k)"

lemma at_chain_keyed: "at_chain key_of w aes k iv \<Longrightarrow> keyed key_of w aes k"
  by (auto simp: at_chain_def keyed_def)

context psa_cbc_contract
begin

lemma segments_loop_value:
  assumes run: "run_state (segments_loop P e aes ivp p out seg len off ZUC_OK) w = (ZUC_OK, w')"
    and at: "keyed key_of w aes k" and off: "off \<le> len" "off < len \<Longrightarrow> unat seg dvd unat off"
    and outs: "mem_read (w_mem w) out off = seg_cbc (cbc e (E k) (D k) (mem_read m ivp 16)) (unat seg) (mem_read m p off)"
    and frame: "\<And>a. a \<notin> buf out len \<Longrightarrow> w_mem w a = m a"
    and seg: "seg \<noteq> 0" and apart: "buf p len \<inter> buf out len = {}" "buf ivp 16 \<inter> buf out len = {}"
    and bp: "block_pair (E k) (D k)"
  shows "mem_read (w_mem w') out len =
      seg_cbc (cbc e (E k) (D k) (mem_read m ivp 16)) (unat seg) (mem_read m p len) \<and>
    (\<forall>a. a \<notin> buf out len \<longrightarrow> w_mem w' a = m a)"
  using run at off outs frame
proof (induction "unat (len - off)" arbitrary: off w rule: less_induct)
  case less
  let ?f = "cbc e (E k) (D k) (mem_read m ivp 16)"
  show ?case
  proof (cases "off < len")
    case False
    then have "off = len" using less(4) by simp
    then show ?thesis
      using less(2,6,7) by (subst (asm) segments_loop.simps) auto
  next
    case True
    define n where "n = (if len - off > seg then seg else len - off)"
    have le: "n \<le> len - off" by (auto simp: n_def)
    have b: "off \<le> off + n" "off + n \<le> len" using le less(4) by uint_arith+
    have on: "unat (off + n) = unat off + unat n" using b(1) by (simp add: unat_plus_simple)
    have iv: "mem_read (w_mem w) ivp 16 = mem_read m ivp 16"
      by (rule mem_read_cong) (use less(7) apart(2) in blast)
    obtain x where x: "w_aess w aes = Some x" "key_of (w_psa w) (a_key x) = k" "aes \<noteq> NULL"
      using less(3) by (auto simp: keyed_def)
    obtain st1 w1 where set: "run_state (zuc_aes_cbc_set_state aes ivp) w = (st1, w1)" by force
    have st1: "st1 = ZUC_OK"
      using less(2) set True seg by (subst (asm) segments_loop.simps) (auto simp: Let_def split: if_splits)
    note at1 = set_state_at_chain [OF set [unfolded st1] x(1,3)]
    let ?op = "if e then zuc_aes_cbc_encrypt P aes (p + off) n (out + off) else zuc_aes_cbc_decrypt P aes (p + off) n (out + off)"
    obtain st2 w2 where step: "run_state ?op w1 = (st2, w2)" by force
    have rest: "run_state (segments_loop P e aes ivp p out seg len (off + n) st2) w2 = (ZUC_OK, w')"
      using less(2) set [unfolded st1] step True seg
      by (subst (asm) segments_loop.simps) (simp add: Let_def flip: n_def)
    have st2: "st2 = ZUC_OK"
      using rest by (subst (asm) segments_loop.simps) (auto split: if_splits)
    have at1': "at_chain key_of w1 aes k (mem_read m ivp 16)" "w_mem w1 = w_mem w"
      using at1 x iv by simp_all
    have d: "mem_read (w_mem w) (p + off) n = mem_read m (p + off) n"
      by (rule mem_read_cong)
        (use less(7) apart(1) buf_suffix_subset [OF b(1), of p] buf_prefix_subset [OF b(2), of p] in auto)
    note v = cbc_step_value [OF step [unfolded st2] at1'(1) bp, unfolded at1'(2) d]
    have sub: "buf (out + off) n \<subseteq> buf out len"
      using buf_suffix_subset [OF b(1), of out] buf_prefix_subset [OF b(2), of out] by auto
    have "mem_read (w_mem w2) out off = mem_read (w_mem w) out off"
      by (rule mem_read_cong) (use v buf_split_disjoint [OF b(1), of out] in auto)
    moreover have split: "mem_read g q (off + n) = mem_read g q off @ mem_read g (q + off) n" for g q
      using mem_read_split [OF b(1), of g q] by simp
    moreover have nz: "unat n \<noteq> 0" "unat n \<le> unat seg"
      using True seg by (auto simp: n_def unat_eq_zero word_le_nat_alt word_less_nat_alt split: if_splits)
    moreover have "seg_cbc ?f (unat seg) (mem_read m (p + off) n) = ?f (mem_read m (p + off) n)"
      using nz by (intro seg_cbc_last) (auto simp flip: length_0_conv)
    ultimately have out2: "mem_read (w_mem w2) out (off + n) = seg_cbc ?f (unat seg) (mem_read m p (off + n))"
      using v less(6) less(5) [OF True] by (simp add: seg_cbc_append)
    have frame2: "\<And>a. a \<notin> buf out len \<Longrightarrow> w_mem w2 a = m a"
      using v sub less(7) by auto
    have dvd2: "off + n < len \<Longrightarrow> unat seg dvd unat (off + n)"
      using less(5) [OF True] on by (auto simp: n_def split: if_splits)
    have dec: "unat (len - (off + n)) < unat (len - off)"
      using segment_decreases [OF True seg] by (simp add: n_def)
    show ?thesis
      by (rule less(1) [OF dec rest [unfolded st2] _ b(2) dvd2 out2 frame2])
        (use v at_chain_keyed in blast)
  qed
qed

lemma zl_segments_value:
  assumes run: "run_state (zl_segments P st (RAWSXP p n) (RAWSXP kp kn) (RAWSXP ivp ivn) segment encrypt) s = (Returned v, s')"
    and imp: "imports_keys P key_of"
    and apart: "\<And>a. a \<in> set (rs_allocs s) \<Longrightarrow> buf p n \<inter> buf a n = {} \<and> buf ivp 16 \<inter> buf a n = {}"
  defines "m \<equiv> w_mem (rs_world s)"
  defines "k \<equiv> mem_read m kp kn"
  assumes bp: "block_pair (E k) (D k)"
  shows "\<exists>out \<in> set (rs_allocs s). v = RAWSXP out n \<and>
    mem_read (w_mem (rs_world s')) out n =
      seg_cbc (cbc (Rf_asLogical encrypt) (E k) (D k) (mem_read m ivp 16)) (unat (of_int (Rf_asInteger segment) :: size_t))
        (mem_read m p n) \<and>
    (\<forall>a. a \<notin> buf out n \<longrightarrow> w_mem (rs_world s') a = m a)"
proof -
  let ?e = "Rf_asLogical encrypt" and ?seg = "of_int (Rf_asInteger segment) :: size_t"
  let ?body = "\<lambda>out. segments_native P ?e (RAWSXP p n) (RAWSXP kp kn) (RAWSXP ivp ivn) ?seg out"
  have seg: "?seg \<noteq> 0"
    and run1: "run_state (allocRaw n (\<lambda>out. do {
      st \<leftarrow> native (?body (RAW out)); if st \<noteq> ZUC_OK then ret Longjmp else ret (Returned out) })) s = (Returned v, s')"
    using run by (auto simp: zl_segments_def require_backend_def raw_arg_def Let_def split: if_splits)
  obtain out ps where out: "rs_allocs s = out # ps" "out \<noteq> NULL" and run2: "run_state (do {
      st \<leftarrow> native (?body out); if st \<noteq> ZUC_OK then ret Longjmp else ret (Returned (RAWSXP out n)) }) (s\<lparr>rs_allocs := ps\<rparr>) =
      (Returned v, s')"
    using run1 unfolding allocRaw_def by (rule run_r_alloc_returned) simp
  obtain st w' where body: "run_state (?body out) (rs_world s) = (st, w')" by force
  have st: "st = ZUC_OK" "v = RAWSXP out n" "rs_world s' = w'"
    using run2 body by (auto simp: run_native split: if_splits)
  obtain st0 h w1 where new: "run_state (with_out (zuc_aes_new P kp kn)) (rs_world s) = ((st0, h), w1)"
    by (metis surj_pair)
  obtain st1 w2 where loop: "run_state (segments_loop P ?e h ivp p out ?seg n 0 st0) w1 = (st1, w2)" by force
  obtain u where free: "run_state (zuc_aes_free P h) w2 = (u, w')" and ok: "st1 = ZUC_OK"
    using body new loop st(1) by (auto simp: segments_native_def split: prod.splits)
  have st0: "st0 = ZUC_OK"
    using loop ok by (subst (asm) segments_loop.simps) (auto split: if_splits)
  have at: "keyed key_of w1 h k" and m1: "w_mem w1 = m"
    using new_at_chain [OF new [unfolded st0] imp] by (auto simp: keyed_def k_def m_def)
  have "mem_read (w_mem w2) out n = seg_cbc (cbc ?e (E k) (D k) (mem_read m ivp 16)) (unat ?seg) (mem_read m p n) \<and>
      (\<forall>a. a \<notin> buf out n \<longrightarrow> w_mem w2 a = m a)"
    by (rule segments_loop_value [OF loop [unfolded st0 ok] at]) (use seg bp apart [of out] out(1) m1 in simp_all)
  moreover have "w_mem w' = w_mem w2" using keepsD [OF zuc_aes_free_mem free] .
  ultimately show ?thesis
    using st out(1) by (intro bexI [of _ out]) simp_all
qed

end

context psa_cbc_total
begin

lemma segments_loop_succeeds:
  assumes at: "keyed key_of w aes k" and up: "w_refcount w > 0"
    and able: "\<forall>x. w_aess w aes = Some x \<longrightarrow> able (w_psa w) (a_key x)"
    and off: "off \<le> len" "16 dvd unat off"
    and seg: "seg \<noteq> 0" "16 dvd unat seg" "16 dvd unat len"
    and bufs: "p \<noteq> NULL" "no_wrap p len" "out \<noteq> NULL" "no_wrap out len" "buf p len \<inter> buf out len = {}" "ivp \<noteq> NULL"
    and bp: "block_pair (E k) (D k)"
  shows "\<exists>w'. run_state (segments_loop P e aes ivp p out seg len off ZUC_OK) w = (ZUC_OK, w')"
  using at up able off
proof (induction "unat (len - off)" arbitrary: off w rule: less_induct)
  case less
  show ?case
  proof (cases "off < len")
    case False
    then show ?thesis by (subst segments_loop.simps) simp
  next
    case True
    define n where "n = (if len - off > seg then seg else len - off)"
    have le: "n \<le> len - off" by (auto simp: n_def)
    have b: "off \<le> off + n" "off + n \<le> len" using le less(5) by uint_arith+
    have on: "unat (off + n) = unat off + unat n" using b(1) by (simp add: unat_plus_simple)
    have n16: "16 dvd unat n"
      using seg less(5,6) by (auto simp: n_def unat_sub)
    obtain x where x: "w_aess w aes = Some x" "key_of (w_psa w) (a_key x) = k" "aes \<noteq> NULL"
      using less(2) by (auto simp: keyed_def)
    obtain w1 where set: "run_state (zuc_aes_cbc_set_state aes ivp) w = (ZUC_OK, w1)"
      and w1: "w_refcount w1 > 0" "\<forall>x. w_aess w1 aes = Some x \<longrightarrow> able (w_psa w1) (a_key x)"
      using x bufs(6) less(3,4) by (auto simp: zuc_aes_cbc_set_state_def deref_aes_def set_aes_def)
    note at1 = set_state_at_chain [OF set x(1,3)]
    have sub: "buf (q + off) n \<subseteq> buf q len" for q :: ptr
      using buf_suffix_subset [OF b(1), of q] buf_prefix_subset [OF b(2), of q] by auto
    note bp1 = part_of_buffer [OF bufs(1,2) True b] and bo = part_of_buffer [OF bufs(3,4) True b]
    have "\<not> zuc_int_overlaps (p + off) (out + off) n"
      using zuc_int_overlaps_iff [OF bp1(2) bo(2) bp1(1) bo(1)] sub [of p] sub [of out] bufs(5) by blast
    then obtain w2 where step: "run_state (if e then zuc_aes_cbc_encrypt P aes (p + off) n (out + off)
          else zuc_aes_cbc_decrypt P aes (p + off) n (out + off)) w1 = (ZUC_OK, w2)"
        and w2: "w_refcount w2 > 0" "\<forall>x. w_aess w2 aes = Some x \<longrightarrow> able (w_psa w2) (a_key x)"
      using cbc_step_succeeds [OF conjunct1 [OF at1] _ w1 _ bp1(1) bo(1), of n e] bp x(2) n16
      by (auto simp: mod_eq_0_iff_dvd)
    have "keyed key_of w2 aes k"
      using cbc_step_value [OF step conjunct1 [OF at1]] bp x(2) at_chain_keyed by blast
    then obtain w' where "run_state (segments_loop P e aes ivp p out seg len (off + n) ZUC_OK) w2 = (ZUC_OK, w')"
      using less(1) [of "off + n" w2] segment_decreases [OF True seg(1)] w2 b(2) on n16 less(6) by (auto simp: n_def)
    then show ?thesis
      using set step True seg(1) by (subst segments_loop.simps) (simp add: Let_def flip: n_def)
  qed
qed

lemma zl_segments_succeeds:
  assumes "w_refcount (rs_world s) > 0" "w_allocs (rs_world s) = h # hs" "h \<noteq> NULL"
    and "rs_allocs s = out # rest"
    and bufs: "p \<noteq> NULL" "no_wrap p n" "out \<noteq> NULL" "no_wrap out n" "buf p n \<inter> buf out n = {}" "16 dvd unat n"
    and key: "kp \<noteq> NULL" "kn \<in> {16, 24, 32}" "ivp \<noteq> NULL"
    and seg: "0 < segment" "16 dvd segment" "segment < 2 ^ 31"
    and import_ok: "r_status (fst (P (KEY (Import_key (aes_key_attr PSA_ALG_CBC_NO_PADDING)
        (mem_read (w_mem (rs_world s)) kp kn))) None (w_psa (rs_world s)))) = PSA_SUCCESS"
    and usable: "able (snd (P (KEY (Import_key (aes_key_attr PSA_ALG_CBC_NO_PADDING)
        (mem_read (w_mem (rs_world s)) kp kn))) None (w_psa (rs_world s))))
      (r_id (fst (P (KEY (Import_key (aes_key_attr PSA_ALG_CBC_NO_PADDING)
        (mem_read (w_mem (rs_world s)) kp kn))) None (w_psa (rs_world s)))))"
    and imp: "imports_keys P key_of"
    and bp: "block_pair (E (mem_read (w_mem (rs_world s)) kp kn)) (D (mem_read (w_mem (rs_world s)) kp kn))"
  shows "\<exists>s'. run_state (zl_segments P ZUC_OK (RAWSXP p n) (RAWSXP kp kn) (RAWSXP ivp 16) (INTSXP [segment]) encrypt) s =
    (Returned (RAWSXP out n), s')"
proof -
  let ?seg = "of_int segment :: size_t"
  have "uint ?seg = segment" using seg by (simp add: unsigned_of_int take_bit_eq_mod)
  then have u: "unat ?seg = nat segment" by (simp add: unat_eq_nat_uint)
  have nz: "?seg \<noteq> 0" using u seg(1) by (auto simp flip: unat_eq_zero)
  obtain j where "segment = 16 * j" using seg(2) by auto
  then have d16: "16 dvd unat ?seg" using u by (simp add: nat_mult_distrib)
  then have m16: "?seg mod ZUC_AES_BLOCK_SIZE = 0" by (simp add: block_multiple_iff mod_eq_0_iff_dvd)
  obtain w1 where new: "run_state (with_out (zuc_aes_new P kp kn)) (rs_world s) = ((ZUC_OK, h), w1)"
    and w1: "w_refcount w1 > 0" "\<forall>x. w_aess w1 h = Some x \<longrightarrow> able (w_psa w1) (a_key x)"
    using aes_new_succeeds [OF assms(1-3) key(1,2) import_ok usable] by blast
  have at: "keyed key_of w1 h (mem_read (w_mem (rs_world s)) kp kn)"
    using new_at_chain [OF new imp] by (auto simp: keyed_def)
  obtain w2 where loop: "run_state (segments_loop P (Rf_asLogical encrypt) h ivp p out ?seg n 0 ZUC_OK) w1 = (ZUC_OK, w2)"
    using segments_loop_succeeds [OF at w1 _ _ nz d16 bufs(6,1-5) key(3) bp, of 0] by auto
  obtain u' w3 where "run_state (zuc_aes_free P h) w2 = (u', w3)" by (metis surj_pair)
  then show ?thesis
    using new loop nz m16 assms(4) bufs(3)
    by (simp add: zl_segments_def require_backend_def raw_arg_def Let_def allocRaw_def run_r_alloc run_native
        segments_native_def)
qed

end

section \<open>The property\<close>

text \<open>
  C18. \<^verbatim>\<open>zl_segments\<close> over the vendored calls is segmented CBC: the vector it returns is the mode applied
  to each segment of the data separately, each from the given IV, the last one possibly shorter, in
  either direction; nothing else in memory has changed. One handle, whose chain
  \<^verbatim>\<open>zuc_aes_cbc_set_state\<close> resets, serves all segments.
\<close>

theorem zl_segments_is_segmented_cbc:
  assumes "run_state (zl_segments (vendored_cbc ecb store Q) st (RAWSXP p n) (RAWSXP kp kn) (RAWSXP ivp ivn) segment encrypt) s =
      (Returned v, s')"
    and "imports_keys (vendored_cbc ecb store Q) (vendored_key store)"
    and "\<And>a. a \<in> set (rs_allocs s) \<Longrightarrow> buf p n \<inter> buf a n = {} \<and> buf ivp 16 \<inter> buf a n = {}"
    and "block_pair (ecb True (mem_read (w_mem (rs_world s)) kp kn)) (ecb False (mem_read (w_mem (rs_world s)) kp kn))"
  shows "\<exists>out \<in> set (rs_allocs s). v = RAWSXP out n \<and>
    mem_read (w_mem (rs_world s')) out n =
      seg_cbc (cbc (Rf_asLogical encrypt) (ecb True (mem_read (w_mem (rs_world s)) kp kn))
          (ecb False (mem_read (w_mem (rs_world s)) kp kn)) (mem_read (w_mem (rs_world s)) ivp 16))
        (unat (of_int (Rf_asInteger segment) :: size_t)) (mem_read (w_mem (rs_world s)) p n) \<and>
    (\<forall>a. a \<notin> buf out n \<longrightarrow> w_mem (rs_world s') a = w_mem (rs_world s) a)"
  by (rule vendored_cbc.zl_segments_value [OF assms(1,2) _ assms(4)]) (rule assms(3))

lemma cbc_True: "cbc True E D iv = cbc_enc E iv"
  by (rule ext) (simp add: cbc_def)

lemma seg_demo: "buf 8192 48 \<inter> buf 100 48 = {}"
  by (rule buf_apart; simp add: no_wrap_def)

theorem zl_segments_is_segmented_cbc_witness:
  "\<exists>s'. run_state (zl_segments (vendored_cbc reversing one_key_store store_backend) ZUC_OK (RAWSXP 8192 48)
      (RAWSXP 16384 16) (RAWSXP 20480 16) (INTSXP [32]) (LGLSXP True)) (cbc_session (\<lambda>a. ucast a) 1000) =
      (Returned (RAWSXP 100 48), s') \<and>
    mem_read (w_mem (rs_world s')) 100 48 =
      seg_cbc (cbc_enc rev (map of_nat [0..<16])) 32 (map of_nat [0..<48])"
proof -
  let ?s = "cbc_session (\<lambda>a. ucast a) 1000"
  obtain s' where run: "run_state (zl_segments (vendored_cbc reversing one_key_store store_backend) ZUC_OK (RAWSXP 8192 48)
      (RAWSXP 16384 16) (RAWSXP 20480 16) (INTSXP [32]) (LGLSXP True)) ?s = (Returned (RAWSXP 100 48), s')"
    using vendored_cbc_total.zl_segments_succeeds [of ?s 4096 "[]" 100 "[101, 1000, 102]" 8192 48 16384 16 20480 32
        reversing one_key_store store_backend "LGLSXP True"] seg_demo
    by (auto simp: cbc_session_def one_key_imports reversing_pair vendored_cbc_def store_backend_def
      vendored_cbc_able_def one_key_simps scripted_def rest_reply_def no_wrap_def)
  have "buf 8192 48 \<inter> buf a 48 = {} \<and> buf 20480 16 \<inter> buf a 48 = {}" if "a \<in> set (rs_allocs ?s)" for a
    using that by (auto simp: cbc_session_def no_wrap_def in_buf_no_wrap)
  moreover have "mem_read (\<lambda>a. ucast a) 8192 48 = map of_nat [0..<48]" "mem_read (\<lambda>a. ucast a) 20480 16 = map of_nat [0..<16]"
    by (simp_all add: mem_read_def upt_rec)
  ultimately show ?thesis
    using zl_segments_is_segmented_cbc [OF run one_key_imports _ reversing_pair] run
    by (auto simp: cbc_session_def cbc_True reversing_def [abs_def])
qed

end
