(* ===== verification/Probe.thy ===== *)
theory Probe
  imports Segments
begin

text \<open>
  \<^verbatim>\<open>src/tools/zucrypttest/src/probe.c\<close>: a package that calls the adapter through its function table,
  the way a package that imports zucrypt does.

  A call through a pointer of the table that is NULL is undefined behaviour. The flag is set and the
  caller goes on with some result; in the states a process can reach no pointer is NULL. Arrays on
  the C stack, constants and string literals have addresses: \<open>adr\<close> maps these objects to them. The
  structs \<^verbatim>\<open>zuc_info\<close> on the stack are uninitialised, with \<open>info\<close> in them; that a string in one is
  not NULL needs no check in the model.
\<close>

section \<open>The report\<close>

record failures =
  f_msg :: "string list"

definition MAX_FAILURES :: nat where
  "MAX_FAILURES = 64"

definition fail :: "failures \<Rightarrow> string \<Rightarrow> failures" where
  "fail f m = (if length (f_msg f) < MAX_FAILURES then f\<lparr>f_msg := f_msg f @ [m]\<rparr> else f)"

definition check :: "failures \<Rightarrow> bool \<Rightarrow> string \<Rightarrow> failures" where
  "check f ok m = (if \<not> ok then fail f m else f)"

section \<open>Calls through the table\<close>

text \<open>A client is a process that has a session with R; the world of the process is the session's.\<close>

type_synonym ('b, 'o) client = "('b, 'o) process \<times> ('b, 'o) session"
type_synonym ('b, 'o, 'a) cl = "(('b, 'o) client, 'a) state"

definition through :: "'f option \<Rightarrow> 'a \<Rightarrow> ('f \<Rightarrow> ('b, 'o, 'a) zuc) \<Rightarrow> ('b, 'o, 'a) zuc" where
  "through p d c = (case p of None \<Rightarrow> do { set_ub; ret d } | Some fn \<Rightarrow> c fn)"

text \<open>
  What an entry point does with the value of \<^verbatim>\<open>zucrypt_api()\<close>: \<^verbatim>\<open>R_GetCCallable\<close> may have jumped out of
  the code, a NULL is an R error.
\<close>

definition with_api ::
  "('b, 'o) psa \<Rightarrow> random_source \<Rightarrow> bool \<Rightarrow> (('b, 'o) zucrypt_api_v1 \<Rightarrow> ('b, 'o, 'a outcome) rc) \<Rightarrow>
   ('b, 'o, 'a outcome) cl" where
  "with_api P rs words k = State (\<lambda>(d, s).
     case run_state (zucrypt_api P rs words) d of
       (Returned API_STATIC, d) \<Rightarrow>
         (case run_state (k (d_api d)) (s\<lparr>rs_world := d_world d\<rparr>) of
           (r, s) \<Rightarrow> (r, d\<lparr>d_world := rs_world s\<rparr>, s))
     | (Returned API_NULL, d) \<Rightarrow> (Longjmp, d, s)
     | (Longjmp, d) \<Rightarrow> (Longjmp, d, s)
     | (No_return, d) \<Rightarrow> (No_return, d, s))"

definition zucrypttest_api_available ::
  "('b, 'o) psa \<Rightarrow> random_source \<Rightarrow> bool \<Rightarrow> ('b, 'o, sexp outcome) proc" where
  "zucrypttest_api_available P rs words = do {
     r \<leftarrow> zucrypt_api P rs words;
     case r of
       Returned a \<Rightarrow> ret (Returned (LGLSXP (a \<noteq> API_NULL)))
     | Longjmp \<Rightarrow> ret Longjmp
     | No_return \<Rightarrow> ret No_return
   }"

definition zucrypttest_abi_reject ::
  "('b, 'o) psa \<Rightarrow> random_source \<Rightarrow> bool \<Rightarrow> sexp \<Rightarrow> ('b, 'o, sexp outcome) proc" where
  "zucrypttest_abi_reject P rs words version = do {
     fn \<leftarrow> gets (\<lambda>d. d_callables d (''zucrypt'', ''zucrypt_get_api''));
     case fn of
       None \<Rightarrow> ret Longjmp
     | Some Zucrypt_get_api \<Rightarrow> do {
         a \<leftarrow> zucrypt_get_api P rs words (of_int (Rf_asInteger version));
         ret (Returned (LGLSXP (a = API_NULL)))
       }
   }"

definition zucrypttest_backend ::
  "('b, 'o) psa \<Rightarrow> random_source \<Rightarrow> bool \<Rightarrow> zuc_info \<Rightarrow> ('b, 'o, sexp outcome) cl" where
  "zucrypttest_backend P rs words info = with_api P rs words (\<lambda>api. do {
     (st, info) \<leftarrow> native (through (api_get_info api) (ZUC_ERR_INTERNAL, None)
       (\<lambda>get_info. get_info (Some (info\<lparr>i_struct_size := 48\<rparr>))));
     if st \<noteq> ZUC_OK then ret Longjmp
     else case info of
       None \<Rightarrow> ret Longjmp
     | Some i \<Rightarrow> r_alloc (\<lambda>_. ret (Returned (VECSXP
         [(''name'', STRSXP [i_backend_name i]), (''version'', STRSXP [i_backend_version i])]))) })"

section \<open>The derivation rehearsal\<close>

definition probe_derive_step ::
  "('b, 'o) zucrypt_api_v1 \<Rightarrow> ptr \<Rightarrow> ptr \<Rightarrow> ptr \<Rightarrow> size_t \<Rightarrow> int \<Rightarrow> ('b, 'o, zuc_status) zuc" where
  "probe_derive_step api digest counter h dsize i = do {
     write_bytes counter (counter_bytes i);
     st \<leftarrow> through (api_hash_reset api) ZUC_ERR_INTERNAL (\<lambda>hash_reset. hash_reset h);
     st \<leftarrow> (if st = ZUC_OK
            then through (api_hash_update api) ZUC_ERR_INTERNAL (\<lambda>hash_update. hash_update h counter 4) else ret st);
     st \<leftarrow> (if st = ZUC_OK
            then through (api_hash_update api) ZUC_ERR_INTERNAL (\<lambda>hash_update. hash_update h digest dsize) else ret st);
     (if st = ZUC_OK
      then through (api_hash_finish api) ZUC_ERR_INTERNAL (\<lambda>hash_finish. hash_finish h digest ZUC_MAX_DIGEST_SIZE LOCAL)
      else ret st)
   }"

function probe_derive_loop ::
  "('b, 'o) zucrypt_api_v1 \<Rightarrow> ptr \<Rightarrow> ptr \<Rightarrow> ptr \<Rightarrow> size_t \<Rightarrow> int \<Rightarrow> int \<Rightarrow> zuc_status \<Rightarrow> ('b, 'o, zuc_status) zuc" where
  "probe_derive_loop api digest counter h dsize spins i st =
    (if i < spins \<and> st = ZUC_OK
     then do { st \<leftarrow> probe_derive_step api digest counter h dsize i;
               probe_derive_loop api digest counter h dsize spins (i + 1) st }
     else ret st)"
  by pat_completeness auto

termination
  by (relation "measure (\<lambda>(api, digest, counter, h, size, spins, i, st). nat (spins - i))") auto

declare probe_derive_loop.simps [simp del]

text \<open>From \<^verbatim>\<open>hash_new\<close> to \<^verbatim>\<open>hash_free\<close>. Each status that is not \<^verbatim>\<open>ZUC_OK\<close> is an R error.\<close>

definition probe_derive_native ::
  "('b, 'o) zucrypt_api_v1 \<Rightarrow> ptr \<Rightarrow> ptr \<Rightarrow> zuc_alg \<Rightarrow> size_t \<Rightarrow> sexp \<Rightarrow> int \<Rightarrow> ('b, 'o, zuc_status) zuc" where
  "probe_derive_native api digest counter alg dsize seed spins = do {
     (st, h) \<leftarrow> through (api_hash_new api) (ZUC_ERR_INTERNAL, NULL) (\<lambda>hash_new. with_out (hash_new alg));
     if st \<noteq> ZUC_OK then ret st
     else do {
       st \<leftarrow> through (api_hash_update api) ZUC_ERR_INTERNAL (\<lambda>hash_update. hash_update h (RAW seed) (XLENGTH seed));
       st \<leftarrow> (if st = ZUC_OK
              then through (api_hash_finish api) ZUC_ERR_INTERNAL
                     (\<lambda>hash_finish. hash_finish h digest ZUC_MAX_DIGEST_SIZE LOCAL)
              else ret st);
       st \<leftarrow> probe_derive_loop api digest counter h dsize spins 0 st;
       through (api_hash_free api) () (\<lambda>hash_free. hash_free h);
       ret st
     }
   }"

definition zucrypttest_derive ::
  "('b, 'o) psa \<Rightarrow> random_source \<Rightarrow> bool \<Rightarrow> ptr \<Rightarrow> ptr \<Rightarrow> sexp \<Rightarrow> sexp \<Rightarrow> sexp \<Rightarrow> ('b, 'o, sexp outcome) cl" where
  "zucrypttest_derive P rs words digest counter seed spins algorithm = with_api P rs words (\<lambda>api. do {
     alg \<leftarrow> native (through (api_alg_by_name api) ZUC_ALG_NONE (\<lambda>alg_by_name. ret (alg_by_name (R_CHAR algorithm))));
     if alg = ZUC_ALG_NONE then ret Longjmp
     else do {
       dsize \<leftarrow> native (through (api_alg_size api) 0 (\<lambda>alg_size. ret (alg_size alg)));
       st \<leftarrow> native (probe_derive_native api digest counter alg dsize seed (Rf_asInteger spins));
       if st \<noteq> ZUC_OK then ret Longjmp
       else allocRaw dsize (\<lambda>out. do {
         native (memcpy (RAW out) digest dsize);
         native (through (api_secure_zero api) () (\<lambda>secure_zero. secure_zero digest ZUC_MAX_DIGEST_SIZE));
         ret (Returned out) })
     } })"

section \<open>Segmented CBC\<close>

function probe_segments_loop ::
  "('b, 'o) zucrypt_api_v1 \<Rightarrow> bool \<Rightarrow> ptr \<Rightarrow> ptr \<Rightarrow> ptr \<Rightarrow> ptr \<Rightarrow> size_t \<Rightarrow> size_t \<Rightarrow> size_t \<Rightarrow> zuc_status \<Rightarrow>
   ('b, 'o, zuc_status) zuc" where
  "probe_segments_loop api do_encrypt aes iv data out seg len offset st =
    (if offset < len \<and> st = ZUC_OK \<and> seg \<noteq> 0 then do {
       let n = (if len - offset > seg then seg else len - offset);
       st \<leftarrow> through (api_aes_cbc_set_state api) ZUC_ERR_INTERNAL (\<lambda>set_state. set_state aes iv);
       if st \<noteq> ZUC_OK then ret st
       else do {
         st \<leftarrow> (if do_encrypt
                then through (api_aes_cbc_encrypt api) ZUC_ERR_INTERNAL
                       (\<lambda>cbc_encrypt. cbc_encrypt aes (data + offset) n (out + offset))
                else through (api_aes_cbc_decrypt api) ZUC_ERR_INTERNAL
                       (\<lambda>cbc_decrypt. cbc_decrypt aes (data + offset) n (out + offset)));
         probe_segments_loop api do_encrypt aes iv data out seg len (offset + n) st
       }
     }
     else ret st)"
  by pat_completeness auto

termination
  by (relation "measure (\<lambda>(api, e, aes, iv, data, out, seg, len, offset, st). unat (len - offset))")
    (use segment_decreases in \<open>auto split: if_splits\<close>)

declare probe_segments_loop.simps [simp del]

text \<open>The result is allocated while the AES handle is live.\<close>

definition zucrypttest_segments ::
  "('b, 'o) psa \<Rightarrow> random_source \<Rightarrow> bool \<Rightarrow> sexp \<Rightarrow> sexp \<Rightarrow> sexp \<Rightarrow> sexp \<Rightarrow> sexp \<Rightarrow> ('b, 'o, sexp outcome) cl" where
  "zucrypttest_segments P rs words data key iv segment encrypt = with_api P rs words (\<lambda>api.
    (let seg = of_int (Rf_asInteger segment); do_encrypt = Rf_asLogical encrypt
     in if seg = 0 \<or> seg mod ZUC_AES_BLOCK_SIZE \<noteq> 0 then ret Longjmp
        else do {
          (st, aes) \<leftarrow> native (through (api_aes_new api) (ZUC_ERR_INTERNAL, NULL)
            (\<lambda>aes_new. with_out (aes_new (RAW key) (XLENGTH key))));
          if st \<noteq> ZUC_OK then ret Longjmp
          else allocRaw (XLENGTH data) (\<lambda>out. do {
            st \<leftarrow> native (probe_segments_loop api do_encrypt aes (RAW iv) (RAW data) (RAW out) seg (XLENGTH data) 0 st);
            native (through (api_aes_free api) () (\<lambda>aes_free. aes_free aes));
            if st \<noteq> ZUC_OK then ret Longjmp else ret (Returned out) })
        }))"

section \<open>The two consumers agree\<close>

text \<open>A filled table leads to the adapter's functions.\<close>

lemma through_filled:
  fixes P :: "('b, 'o) psa" and rs words api
  defines "T \<equiv> fill_table P rs words api"
  shows "through (api_hash_new T) x1 c1 = c1 (zuc_hash_new P)"
    "through (api_hash_update T) x2 c2 = c2 (zuc_hash_update P)"
    "through (api_hash_finish T) x3 c3 = c3 (zuc_hash_finish P)"
    "through (api_hash_reset T) x4 c4 = c4 (zuc_hash_reset P)"
    "through (api_hash_free T) x5 c5 = c5 (zuc_hash_free P)"
    "through (api_alg_by_name T) x6 c6 = c6 zuc_alg_by_name"
    "through (api_alg_size T) x7 c7 = c7 zuc_alg_size"
    "through (api_secure_zero T) x8 c8 = c8 zuc_secure_zero"
    "through (api_aes_new T) x9 c9 = c9 (zuc_aes_new P)"
    "through (api_aes_free T) x10 c10 = c10 (zuc_aes_free P)"
    "through (api_aes_cbc_set_state T) x11 c11 = c11 zuc_aes_cbc_set_state"
    "through (api_aes_cbc_encrypt T) x12 c12 = c12 (zuc_aes_cbc_encrypt P)"
    "through (api_aes_cbc_decrypt T) x13 c13 = c13 (zuc_aes_cbc_decrypt P)"
  by (simp_all add: T_def fill_table_def through_def)

lemma derive_step_filled:
  "probe_derive_step (fill_table P rs words api) digest counter h k i = derive_step P digest counter h k i"
  by (simp add: probe_derive_step_def derive_step_def through_filled cong: if_cong)

lemma derive_loop_filled:
  "probe_derive_loop (fill_table P rs words api) digest counter h k spins i st =
    derive_loop P digest counter h k spins i st"
proof (induction "nat (spins - i)" arbitrary: i st)
  case 0
  then show ?case by (subst probe_derive_loop.simps, subst derive_loop.simps) simp
next
  case (Suc n)
  then have "probe_derive_loop (fill_table P rs words api) digest counter h k spins (i + 1) =
      derive_loop P digest counter h k spins (i + 1)"
    by (intro ext) simp
  then show ?case
    by (subst probe_derive_loop.simps, subst derive_loop.simps) (simp add: derive_step_filled)
qed

lemma segments_loop_filled:
  "probe_segments_loop (fill_table P rs words api) e aes iv data out seg len offset st =
    segments_loop P e aes iv data out seg len offset st"
proof (induction "unat (len - offset)" arbitrary: offset st rule: less_induct)
  case less
  show ?case
  proof (cases "offset < len \<and> st = ZUC_OK \<and> seg \<noteq> 0")
    case True
    let ?n = "if len - offset > seg then seg else len - offset"
    have "probe_segments_loop (fill_table P rs words api) e aes iv data out seg len (offset + ?n) =
        segments_loop P e aes iv data out seg len (offset + ?n)"
      by (intro ext less) (use segment_decreases True in blast)
    then show ?thesis
      using True
      by (subst probe_segments_loop.simps, subst segments_loop.simps) (simp only: Let_def through_filled if_True simp_thms)
  next
    case False
    then show ?thesis
      by (subst probe_segments_loop.simps, subst segments_loop.simps) (simp only: if_False simp_thms conj_ac)
  qed
qed

lemma native_ret: "native (ret x) = ret x"
  by (simp add: native_def State_Monad.return_def)

lemma resolved:
  assumes "running P rs words d" "run_state (zucrypt_api P rs words) d = (r, d')"
  shows "d_world d' = d_world d"
    and "r = Longjmp \<or> (r = Returned API_STATIC \<and> (\<exists>api. d_api d' = fill_table P rs words api))"
proof -
  have inv: "table_inv P rs words d'" by (rule api_process(1) [OF assms(2) running_table_inv [OF assms(1)]])
  show "r = Longjmp \<or> (r = Returned API_STATIC \<and> (\<exists>api. d_api d' = fill_table P rs words api))"
    using api_process(2) [OF assms(2) running_table_inv [OF assms(1)]] inv
    by (auto simp: table_inv_def split: if_splits)
  show "d_world d' = d_world d"
    using assms(2) get_api_refcount [of P rs words ZUCRYPT_ABI_VERSION d]
    by (auto simp: zucrypt_api_def split: if_splits option.splits dl_func.splits prod.splits)
qed

lemma with_api_returned:
  assumes "running P rs words d" "run_state (with_api P rs words k) (d, s) = (Returned v, d', s')"
  shows "\<exists>api. run_state (k (fill_table P rs words api)) (s\<lparr>rs_world := d_world d\<rparr>) = (Returned v, s') \<and>
    rs_world s' = d_world d'"
proof -
  obtain r d1 where r: "run_state (zucrypt_api P rs words) d = (r, d1)" by force
  note a = resolved [OF assms(1) r]
  then obtain api where "r = Returned API_STATIC" "d_api d1 = fill_table P rs words api"
    using assms(2) r by (auto simp: with_api_def)
  then show ?thesis
    using assms(2) r a(1) by (auto simp: with_api_def split: prod.splits)
qed

lemma derive_native_filled:
  assumes "run_state (probe_derive_native (fill_table P rs words api) digest counter alg (zuc_alg_size alg) seed spins) w =
      (ZUC_OK, w1)"
  shows "run_state (derive_native P digest counter alg seed spins out) w =
    (ZUC_OK, snd (run_state (do { memcpy out digest (zuc_alg_size alg); zuc_secure_zero digest ZUC_MAX_DIGEST_SIZE }) w1))"
proof -
  obtain st h w2 where new: "run_state (with_out (zuc_hash_new P alg)) w = ((st, h), w2)"
    by (metis surj_pair)
  have st: "st = ZUC_OK"
    using assms new by (auto simp: probe_derive_native_def through_filled split: if_splits)
  show ?thesis
    using assms new st
    by (auto simp: probe_derive_native_def through_filled derive_native_def derive_loop_filled Let_def split: prod.splits)
qed

lemma derive_available:
  assumes "run_state (probe_derive_native (fill_table P rs words api) digest counter alg k seed spins) w = (ZUC_OK, w1)"
  shows "zuc_int_digest_available alg"
  using assms
  by (auto simp: probe_derive_native_def through_filled with_out_def zuc_hash_new_def split: if_splits prod.splits)

lemma derivations_agree:
  assumes running: "running P rs words d" and spins: "0 \<le> Rf_asInteger spins"
    and run: "run_state (zucrypttest_derive P rs words digest counter (RAWSXP p n) spins (STRSXP [name])) (d, s) =
        (Returned v, d', s')"
  shows "run_state (zl_derive P ZUC_OK digest counter (RAWSXP p n) spins (STRSXP [name])) (s\<lparr>rs_world := d_world d\<rparr>) =
      (Returned v, s') \<and> rs_world s' = d_world d'"
proof
  let ?s = "s\<lparr>rs_world := d_world d\<rparr>"
  let ?alg = "zuc_alg_by_name (Some name)"
  obtain api where s': "rs_world s' = d_world d'" and *: "run_state (do {
      let alg = ?alg;
      if alg = ZUC_ALG_NONE then ret Longjmp
      else do {
        st \<leftarrow> native (probe_derive_native (fill_table P rs words api) digest counter alg (zuc_alg_size alg) (RAWSXP p n)
          (Rf_asInteger spins));
        if st \<noteq> ZUC_OK then ret Longjmp
        else allocRaw (zuc_alg_size alg) (\<lambda>out. do {
          native (memcpy (RAW out) digest (zuc_alg_size alg));
          native (zuc_secure_zero digest ZUC_MAX_DIGEST_SIZE);
          ret (Returned out) }) } }) ?s = (Returned v, s')"
    using with_api_returned [OF running run [unfolded zucrypttest_derive_def]]
    by (auto simp: through_filled native_ret Let_def cong: if_cong)
  show "rs_world s' = d_world d'" by (rule s')
  obtain st w1 where nat: "run_state (probe_derive_native (fill_table P rs words api) digest counter ?alg
      (zuc_alg_size ?alg) (RAWSXP p n) (Rf_asInteger spins)) (d_world d) = (st, w1)" by force
  have ok: "?alg \<noteq> ZUC_ALG_NONE" "st = ZUC_OK"
    using * nat by (auto simp: run_native Let_def split: if_splits)
  note avail = derive_available [OF nat [unfolded ok(2)]]
  then have "zuc_alg_available ?alg"
    by (auto simp: zuc_alg_available_def zuc_int_digest_available_def split: if_splits)
  then show "run_state (zl_derive P ZUC_OK digest counter (RAWSXP p n) spins (STRSXP [name])) ?s = (Returned v, s')"
    using * nat ok spins derive_native_filled [OF nat [unfolded ok(2)]]
    by (auto simp: zl_derive_def alg_arg_link_def require_backend_def raw_arg_def Let_def allocRaw_def run_r_alloc run_native
        split: list.splits if_splits prod.splits)
qed

lemma segmentations_agree:
  assumes running: "running P rs words d"
    and run: "run_state (zucrypttest_segments P rs words (RAWSXP q k) (RAWSXP kp kn) (RAWSXP ivp 16) segment encrypt)
      (d, s) = (Returned v, d', s')"
  shows "run_state (zl_segments P ZUC_OK (RAWSXP q k) (RAWSXP kp kn) (RAWSXP ivp 16) segment encrypt)
      (s\<lparr>rs_world := d_world d\<rparr>) = (Returned v, s') \<and> rs_world s' = d_world d'"
proof
  let ?s = "s\<lparr>rs_world := d_world d\<rparr>"
  let ?seg = "of_int (Rf_asInteger segment) :: size_t"
  obtain api where s': "rs_world s' = d_world d'" and *: "run_state (
      if ?seg = 0 \<or> ?seg mod ZUC_AES_BLOCK_SIZE \<noteq> 0 then ret Longjmp
      else do {
        (st, aes) \<leftarrow> native (with_out (zuc_aes_new P kp kn));
        if st \<noteq> ZUC_OK then ret Longjmp
        else allocRaw k (\<lambda>out. do {
          st \<leftarrow> native (segments_loop P (Rf_asLogical encrypt) aes ivp q (RAW out) ?seg k 0 st);
          native (zuc_aes_free P aes);
          if st \<noteq> ZUC_OK then ret Longjmp else ret (Returned out) }) }) ?s = (Returned v, s')"
    using with_api_returned [OF running run [unfolded zucrypttest_segments_def]]
    by (auto simp: through_filled segments_loop_filled run_native Let_def cong: if_cong)
  show "rs_world s' = d_world d'" by (rule s')
  obtain st aes w1 where new: "run_state (with_out (zuc_aes_new P kp kn)) (d_world d) = ((st, aes), w1)"
    by (metis surj_pair)
  show "run_state (zl_segments P ZUC_OK (RAWSXP q k) (RAWSXP kp kn) (RAWSXP ivp 16) segment encrypt) ?s = (Returned v, s')"
    using * new
    by (auto simp: zl_segments_def require_backend_def raw_arg_def Let_def allocRaw_def run_r_alloc run_native
        segments_native_def split: list.splits if_splits prod.splits)
qed

text \<open>
  C22. The two consumers of the library agree, for every backend, on what both accept. With a turn count that
  is not negative, and with an IV of 16 bytes, whatever \<^verbatim>\<open>zucrypttest\<close> returns from its derivation or its
  segmented CBC, called through the table of a process in a state it can reach, \<^verbatim>\<open>zucryptlink\<close> returns from
  the same memory with the adapter's functions linked in, and leaves the same memory, backend state and
  contexts behind. On the other arguments they part: \<^verbatim>\<open>zucryptlink\<close> ends in an R error and has changed
  nothing, where \<^verbatim>\<open>zucrypttest\<close> does not look.
\<close>

theorem consumers_agree:
  assumes "running P rs words d"
  shows "(if 0 \<le> Rf_asInteger spins then
      run_state (zucrypttest_derive P rs words digest counter (RAWSXP p n) spins (STRSXP [name])) (d, s) =
        (Returned v, d', s') \<longrightarrow>
      run_state (zl_derive P ZUC_OK digest counter (RAWSXP p n) spins (STRSXP [name])) (s\<lparr>rs_world := d_world d\<rparr>) =
        (Returned v, s') \<and> rs_world s' = d_world d'
    else run_state (zl_derive P ZUC_OK digest counter (RAWSXP p n) spins (STRSXP [name])) s = (Longjmp, s)) \<and>
    (if ivn = 16 then
      run_state (zucrypttest_segments P rs words (RAWSXP q k) (RAWSXP kp kn) (RAWSXP ivp ivn) segment encrypt) (d, s) =
        (Returned v, d', s') \<longrightarrow>
      run_state (zl_segments P ZUC_OK (RAWSXP q k) (RAWSXP kp kn) (RAWSXP ivp ivn) segment encrypt)
        (s\<lparr>rs_world := d_world d\<rparr>) = (Returned v, s') \<and> rs_world s' = d_world d'
    else run_state (zl_segments P ZUC_OK (RAWSXP q k) (RAWSXP kp kn) (RAWSXP ivp ivn) segment encrypt) s = (Longjmp, s))"
proof (intro conjI)
  show "if 0 \<le> Rf_asInteger spins then
      run_state (zucrypttest_derive P rs words digest counter (RAWSXP p n) spins (STRSXP [name])) (d, s) =
        (Returned v, d', s') \<longrightarrow>
      run_state (zl_derive P ZUC_OK digest counter (RAWSXP p n) spins (STRSXP [name])) (s\<lparr>rs_world := d_world d\<rparr>) =
        (Returned v, s') \<and> rs_world s' = d_world d'
    else run_state (zl_derive P ZUC_OK digest counter (RAWSXP p n) spins (STRSXP [name])) s = (Longjmp, s)"
    using derivations_agree [OF assms]
    by (auto simp: zl_derive_def alg_arg_link_def require_backend_def raw_arg_def Let_def)
  show "if ivn = 16 then
      run_state (zucrypttest_segments P rs words (RAWSXP q k) (RAWSXP kp kn) (RAWSXP ivp ivn) segment encrypt) (d, s) =
        (Returned v, d', s') \<longrightarrow>
      run_state (zl_segments P ZUC_OK (RAWSXP q k) (RAWSXP kp kn) (RAWSXP ivp ivn) segment encrypt)
        (s\<lparr>rs_world := d_world d\<rparr>) = (Returned v, s') \<and> rs_world s' = d_world d'
    else run_state (zl_segments P ZUC_OK (RAWSXP q k) (RAWSXP kp kn) (RAWSXP ivp ivn) segment encrypt) s = (Longjmp, s)"
    using segmentations_agree [OF assms]
    by (auto simp: zl_segments_def require_backend_def raw_arg_def Let_def)
qed

definition loaded_process :: "(unit, unit) process" where
  "loaded_process = snd (run_state (R_init_zucrypt (scripted accept_all))
     (fresh_process\<lparr>d_world := (fresh_world () [4096, 8192])\<lparr>w_refcount := 0\<rparr>\<rparr>))"

lemma loaded_running: "running (scripted accept_all) GETRANDOM True loaded_process"
proof -
  let ?d = "fresh_process\<lparr>d_world := (fresh_world () [4096, 8192])\<lparr>w_refcount := 0\<rparr>\<rparr>"
  have "running (scripted accept_all) GETRANDOM True ?d"
    by (rule running.start) (simp_all add: fresh_process_def)
  then show ?thesis
    unfolding loaded_process_def by (rule running.load) (rule prod.collapse [symmetric])
qed

lemma loaded_process_eq:
  "loaded_process = \<lparr>d_world = fresh_world () [8192], d_api = zero_table, d_api_ready = False,
    d_routines = d_routines loaded_process,
    d_callables = [(''zucrypt'', ''zucrypt_get_api'') \<mapsto> Zucrypt_get_api], d_cached = API_NULL\<rparr>"
  by (simp add: loaded_process_def R_init_zucrypt_def all_call_methods_def Let_def run_on_world malloc_bytes_def
      run_c_alloc free_bytes_def zuc_init_def run_psa_do scripted_def zucrypt_register_api_def fresh_process_def
      fresh_world_def fun_eq_iff)

definition probe_session :: "(unit, unit) session" where
  "probe_session = \<lparr>rs_world = fresh_world () [], rs_ptrs = Map.empty, rs_allocs = [100], rs_interrupts = []\<rparr>"

lemma loaded_fields:
  "d_world loaded_process = fresh_world () [8192]" "d_api loaded_process = zero_table" "\<not> d_api_ready loaded_process"
  "d_callables loaded_process (''zucrypt'', ''zucrypt_get_api'') = Some Zucrypt_get_api"
  "d_cached loaded_process = API_NULL"
  by (subst loaded_process_eq, simp)+

lemma probe_derive_demo:
  "\<exists>w. run_state (probe_derive_native (fill_table (scripted accept_all) GETRANDOM True api) 16384 20480
      ZUC_ALG_SHA256 32 (RAWSXP 24576 8) 0) (fresh_world () [8192]) = (ZUC_OK, w)"
  by (simp add: probe_derive_native_def through_filled derive_loop_filled derive_loop.simps derive_step_def hash_runs
      zuc_hash_reset_def with_out_def run_c_alloc run_psa_do set_hash_def deref_hash_def run_deref scripted_def digest_session_ok
      Let_def zero_hash_def zuc_int_from_psa_def case_prod_unfold cong: if_cong)

lemma probe_derives:
  "\<exists>d' s'. run_state (zucrypttest_derive (scripted accept_all) GETRANDOM True 16384 20480 (RAWSXP 24576 8) (INTSXP [0])
      (STRSXP [''sha256''])) (loaded_process, probe_session) = (Returned (RAWSXP 100 32), d', s')"
proof -
  have a: "zuc_alg_by_name (Some ''sha256'') = ZUC_ALG_SHA256" "zuc_alg_size ZUC_ALG_SHA256 = 32"
    "zuc_int_digest_available ZUC_ALG_SHA256"
    using digest_session_ok by simp_all
  obtain w where "run_state (probe_derive_native (fill_table (scripted accept_all) GETRANDOM True zero_table) 16384 20480
      ZUC_ALG_SHA256 32 (RAWSXP 24576 8) 0) (fresh_world () [8192]) = (ZUC_OK, w)"
    using probe_derive_demo by blast
  then show ?thesis
    by (simp add: zucrypttest_derive_def with_api_def zucrypt_api_def zucrypt_get_api_def fill_api_def loaded_fields
        through_filled native_ret a run_native allocRaw_def run_r_alloc probe_session_def memcpy_def
        run_zuc_secure_zero)
qed

theorem consumers_agree_witness:
  "\<exists>d' s'. run_state (zucrypttest_derive (scripted accept_all) GETRANDOM True 16384 20480 (RAWSXP 24576 8) (INTSXP [0])
      (STRSXP [''sha256''])) (loaded_process, probe_session) = (Returned (RAWSXP 100 32), d', s') \<and>
    run_state (zl_derive (scripted accept_all) ZUC_OK 16384 20480 (RAWSXP 24576 8) (INTSXP [0]) (STRSXP [''sha256'']))
      (probe_session\<lparr>rs_world := fresh_world () [8192]\<rparr>) = (Returned (RAWSXP 100 32), s')"
proof -
  obtain d' s' where run: "run_state (zucrypttest_derive (scripted accept_all) GETRANDOM True 16384 20480 (RAWSXP 24576 8)
      (INTSXP [0]) (STRSXP [''sha256''])) (loaded_process, probe_session) = (Returned (RAWSXP 100 32), d', s')"
    using probe_derives by blast
  then show ?thesis
    using consumers_agree [OF loaded_running, of "INTSXP [0]" 16384 20480 24576 8 "''sha256''" probe_session
        "RAWSXP 100 32" d' s'] by (auto simp: loaded_fields)
qed

section \<open>A handle that is lost\<close>

lemma with_api_resolves:
  assumes "running P rs words d" "d_callables d (''zucrypt'', ''zucrypt_get_api'') \<noteq> None"
  shows "\<exists>api d'. run_state (with_api P rs words k) (d, s) =
    (case run_state (k (fill_table P rs words api)) (s\<lparr>rs_world := d_world d\<rparr>) of
      (r, s') \<Rightarrow> (r, d'\<lparr>d_world := rs_world s'\<rparr>, s'))"
proof -
  obtain r d1 where r: "run_state (zucrypt_api P rs words) d = (r, d1)" by force
  have "r \<noteq> Longjmp"
    using api_process(2) [OF r running_table_inv [OF assms(1)]] assms(2) by (auto split: if_splits)
  then obtain api where "r = Returned API_STATIC" "d_api d1 = fill_table P rs words api" "d_world d1 = d_world d"
    using resolved [OF assms(1) r] by auto
  then have "run_state (with_api P rs words k) (d, s) =
      (case run_state (k (fill_table P rs words api)) (s\<lparr>rs_world := d_world d\<rparr>) of
        (r, s') \<Rightarrow> (r, d1\<lparr>d_world := rs_world s'\<rparr>, s'))"
    using r by (simp add: with_api_def)
  then show ?thesis by blast
qed

lemma aes_new_live:
  assumes "run_state (with_out (zuc_aes_new P kp kn)) w = ((ZUC_OK, h), w')"
  shows "w_aess w' h \<noteq> None \<and> w_live w' = w_live w + 1"
  using assms
  by (auto simp: with_out_def zuc_aes_new_def calloc_aes_def run_c_alloc set_aes_def import_aes_key_def run_psa_do
      psa_import_key_def psa_destroy_key_def Let_def free_struct_aes_def split: if_splits list.splits prod.splits)

text \<open>
  C39. \<^verbatim>\<open>zucrypttest_segments\<close> allocates its result while the AES handle is live, with no external pointer
  to own it: when R cannot allocate the result, the jump out of the code leaves the handle behind, for
  good. \<^verbatim>\<open>zl_segments\<close>, which allocates first, has by then changed nothing.
\<close>

theorem zucrypttest_segments_strands:
  assumes "running P rs words d" "d_callables d (''zucrypt'', ''zucrypt_get_api'') \<noteq> None"
    and "run_state (with_out (zuc_aes_new P kp kn)) (d_world d) = ((ZUC_OK, h), w)" "rs_allocs s = []"
    and "(of_int (Rf_asInteger segment) :: size_t) \<noteq> 0" "(of_int (Rf_asInteger segment) :: size_t) mod 16 = 0"
  shows "(\<exists>d' s'. run_state (zucrypttest_segments P rs words data (RAWSXP kp kn) iv segment encrypt) (d, s) =
      (Longjmp, d', s') \<and> w_aess (d_world d') h \<noteq> None \<and> w_live (d_world d') = w_live (d_world d) + 1) \<and>
    run_state (zl_segments P st data (RAWSXP kp kn) iv segment encrypt) s = (Longjmp, s)"
proof -
  let ?seg = "of_int (Rf_asInteger segment) :: size_t"
  let ?k = "\<lambda>api. if ?seg = 0 \<or> ?seg mod ZUC_AES_BLOCK_SIZE \<noteq> 0 then ret Longjmp
    else do {
      (st, aes) \<leftarrow> native (through (api_aes_new api) (ZUC_ERR_INTERNAL, NULL) 
        (\<lambda>aes_new. with_out (aes_new (RAW (RAWSXP kp kn)) (XLENGTH (RAWSXP kp kn)))));
      if st \<noteq> ZUC_OK then ret Longjmp
      else allocRaw (XLENGTH data) (\<lambda>out. do {
        st \<leftarrow> native (probe_segments_loop api (Rf_asLogical encrypt) aes (RAW iv) (RAW data) (RAW out) ?seg
          (XLENGTH data) 0 st);
        native (through (api_aes_free api) () (\<lambda>aes_free. aes_free aes));
        if st \<noteq> ZUC_OK then ret Longjmp else ret (Returned out) }) }"
  obtain api d' where "run_state (with_api P rs words ?k) (d, s) =
      (case run_state (?k (fill_table P rs words api)) (s\<lparr>rs_world := d_world d\<rparr>) of
        (r, s') \<Rightarrow> (r, d'\<lparr>d_world := rs_world s'\<rparr>, s'))"
    using with_api_resolves [OF assms(1,2)] by blast
  moreover have "run_state (?k (fill_table P rs words api)) (s\<lparr>rs_world := d_world d\<rparr>) = (Longjmp, s\<lparr>rs_world := w\<rparr>)"
    using assms(3-6) by (simp add: through_filled run_native allocRaw_def run_r_alloc)
  ultimately have "run_state (zucrypttest_segments P rs words data (RAWSXP kp kn) iv segment encrypt) (d, s) =
      (Longjmp, d'\<lparr>d_world := w\<rparr>, s\<lparr>rs_world := w\<rparr>)"
    by (simp only: zucrypttest_segments_def Let_def prod.case) simp
  moreover have "run_state (zl_segments P st data (RAWSXP kp kn) iv segment encrypt) s = (Longjmp, s)"
    using assms(4) by (simp add: zl_segments_def require_backend_def raw_arg_def allocRaw_def run_r_alloc Let_def
        split: sexp.split)
  ultimately show ?thesis
    using aes_new_live [OF assms(3)] by auto
qed

theorem zucrypttest_segments_strands_witness:
  "\<exists>d' s'. run_state (zucrypttest_segments (scripted accept_all) GETRANDOM True (RAWSXP 24576 48) (RAWSXP 16384 16)
      (RAWSXP 20480 16) (INTSXP [32]) (LGLSXP True)) (loaded_process, probe_session\<lparr>rs_allocs := []\<rparr>) =
      (Longjmp, d', s') \<and> w_aess (d_world d') 8192 \<noteq> None \<and> w_live (d_world d') = 1"
proof -
  have "\<exists>w. run_state (with_out (zuc_aes_new (scripted accept_all) 16384 16)) (d_world loaded_process) =
      ((ZUC_OK, 8192), w)"
    by (simp add: loaded_fields with_out_def zuc_aes_new_def calloc_aes_def run_c_alloc set_aes_def import_aes_key_def
        run_psa_do psa_import_key_def scripted_def Let_def)
  then obtain w where w: "run_state (with_out (zuc_aes_new (scripted accept_all) 16384 16)) (d_world loaded_process) =
      ((ZUC_OK, 8192), w)" by blast
  show ?thesis
    using zucrypttest_segments_strands [OF loaded_running _ w, of "probe_session\<lparr>rs_allocs := []\<rparr>" "INTSXP [32]"
        "RAWSXP 24576 48" "RAWSXP 20480 16" "LGLSXP True"]
    by (auto simp: loaded_fields)
qed

end
