(* ===== verification/Exercise.thy ===== *)
theory Exercise
  imports Probe
begin

text \<open>
  \<^verbatim>\<open>zucrypttest_exercise\<close> of \<^verbatim>\<open>src/tools/zucrypttest/src/probe.c\<close>, which calls every entry of the function
  table and reports what went wrong, block by block as in the source, and the registration of the
  package.
\<close>

section \<open>The exercise\<close>

text \<open>The known answers.\<close>

definition SHA256_ABC :: "byte list" where
  "SHA256_ABC =
    [0xba, 0x78, 0x16, 0xbf, 0x8f, 0x1, 0xcf, 0xea, 0x41, 0x41, 0x40, 0xde, 0x5d, 0xae, 0x22, 0x23,
     0xb0, 0x3, 0x61, 0xa3, 0x96, 0x17, 0x7a, 0x9c, 0xb4, 0x10, 0xff, 0x61, 0xf2, 0x0, 0x15, 0xad]"

definition AES128_KEY :: "byte list" where
  "AES128_KEY =
    [0x2b, 0x7e, 0x15, 0x16, 0x28, 0xae, 0xd2, 0xa6, 0xab, 0xf7, 0x15, 0x88, 0x9, 0xcf, 0x4f, 0x3c]"

definition CBC_IV :: "byte list" where
  "CBC_IV =
    [0, 1, 2, 3, 4, 5, 6, 7, 8, 9, 10, 11, 12, 13, 14, 15]"

definition CBC_PT :: "byte list" where
  "CBC_PT =
    [0x6b, 0xc1, 0xbe, 0xe2, 0x2e, 0x40, 0x9f, 0x96, 0xe9, 0x3d, 0x7e, 0x11, 0x73, 0x93, 0x17, 0x2a,
     0xae, 0x2d, 0x8a, 0x57, 0x1e, 0x3, 0xac, 0x9c, 0x9e, 0xb7, 0x6f, 0xac, 0x45, 0xaf, 0x8e, 0x51]"

definition CBC_CT :: "byte list" where
  "CBC_CT =
    [0x76, 0x49, 0xab, 0xac, 0x81, 0x19, 0xb2, 0x46, 0xce, 0xe9, 0x8e, 0x9b, 0x12, 0xe9, 0x19, 0x7d,
     0x50, 0x86, 0xcb, 0x9b, 0x50, 0x72, 0x19, 0xee, 0x95, 0xdb, 0x11, 0x3a, 0x91, 0x76, 0x78, 0xb2]"

definition GCM_CT2 :: "byte list" where
  "GCM_CT2 =
    [0x3, 0x88, 0xda, 0xce, 0x60, 0xb6, 0xa3, 0x92, 0xf3, 0x28, 0xc2, 0xb9, 0x71, 0xb2, 0xfe, 0x78]"

definition GCM_TAG2 :: "byte list" where
  "GCM_TAG2 =
    [0xab, 0x6e, 0x47, 0xd4, 0x2c, 0xec, 0x13, 0xbd, 0xf5, 0x3a, 0x67, 0xb2, 0x12, 0x57, 0xbd, 0xdf]"

definition PBKDF2_DK2 :: "byte list" where
  "PBKDF2_DK2 =
    [0xea, 0x6c, 0x1, 0x4d, 0xc7, 0x2d, 0x6f, 0x8c, 0xcd, 0x1e, 0xd9, 0x2a, 0xce, 0x1d, 0x41, 0xf0,
     0xd8, 0xde, 0x89, 0x57]"

definition X25519_A :: "byte list" where
  "X25519_A =
    [0x77, 0x7, 0x6d, 0xa, 0x73, 0x18, 0xa5, 0x7d, 0x3c, 0x16, 0xc1, 0x72, 0x51, 0xb2, 0x66, 0x45,
     0xdf, 0x4c, 0x2f, 0x87, 0xeb, 0xc0, 0x99, 0x2a, 0xb1, 0x77, 0xfb, 0xa5, 0x1d, 0xb9, 0x2c, 0x2a]"

definition X25519_B :: "byte list" where
  "X25519_B =
    [0xde, 0x9e, 0xdb, 0x7d, 0x7b, 0x7d, 0xc1, 0xb4, 0xd3, 0x5b, 0x61, 0xc2, 0xec, 0xe4, 0x35, 0x37,
     0x3f, 0x83, 0x43, 0xc8, 0x5b, 0x78, 0x67, 0x4d, 0xad, 0xfc, 0x7e, 0x14, 0x6f, 0x88, 0x2b, 0x4f]"

definition X25519_K :: "byte list" where
  "X25519_K =
    [0x4a, 0x5d, 0x9d, 0x5b, 0xa4, 0xce, 0x2d, 0xe1, 0x72, 0x8e, 0x3b, 0xf4, 0x80, 0x35, 0xf, 0x25,
     0xe0, 0x7e, 0x21, 0xc9, 0x47, 0xd1, 0x9e, 0x33, 0x76, 0xf0, 0x9b, 0x3c, 0x1e, 0x16, 0x17, 0x42]"

text \<open>
  The objects the exercise passes by address: its arrays, the constants and the string literals.
\<close>

datatype obj = Auto string | Static string | Literal string

definition memset :: "ptr \<Rightarrow> byte \<Rightarrow> nat \<Rightarrow> ('b, 'o, unit) zuc" where
  "memset p v n = write_bytes p (replicate n v)"

definition memcmp_eq :: "ptr \<Rightarrow> byte list \<Rightarrow> ('b, 'o, bool) zuc" where
  "memcmp_eq p bs = do { xs \<leftarrow> read_bytes p (of_nat (length bs)); ret (xs = bs) }"

definition flip_bit :: "ptr \<Rightarrow> ('b, 'o, unit) zuc" where
  "flip_bit p = do { bs \<leftarrow> read_bytes p 1; write_bytes p (map (\<lambda>b. b XOR 1) bs) }"

text \<open>A call that stores a length in a variable that holds \<open>n\<close>.\<close>

definition with_size :: "size_t \<Rightarrow> (ptr \<Rightarrow> ('b, 'o, zuc_status) zuc) \<Rightarrow> ('b, 'o, zuc_status \<times> size_t) zuc" where
  "with_size n f = do {
     write_size LOCAL n;
     st \<leftarrow> f LOCAL;
     n \<leftarrow> gets (\<lambda>w. w_sizes w LOCAL);
     ret (st, n)
   }"

text \<open>
  The blocks run with whatever collects the outcomes of their checks. The code's collector is the bounded
  list of \<^verbatim>\<open>check\<close> and \<^verbatim>\<open>fail\<close>; \<open>audit\<close>, for the specification, keeps every outcome.
\<close>

record 'f collector =
  c_check :: "'f \<Rightarrow> bool \<Rightarrow> string \<Rightarrow> 'f"
  c_fail :: "'f \<Rightarrow> string \<Rightarrow> 'f"

definition bounded :: "failures collector" where
  "bounded = \<lparr>c_check = check, c_fail = fail\<rparr>"

definition audit :: "(bool \<times> string) list collector" where
  "audit = \<lparr>c_check = \<lambda>l ok m. l @ [(ok, m)], c_fail = \<lambda>l m. l @ [(False, m)]\<rparr>"

text \<open>The messages of the outcomes that were not as expected, in their order.\<close>

definition complaints :: "(bool \<times> string) list \<Rightarrow> string list" where
  "complaints l = map snd (filter (\<lambda>(ok, m). \<not> ok) l)"

definition exercise_table :: "'f collector \<Rightarrow> ('b, 'o) zucrypt_api_v1 \<Rightarrow> 'f \<Rightarrow> 'f" where
  "exercise_table C api f =
    (let f = c_check C f (abi_version api = ZUCRYPT_ABI_VERSION) ''abi_version does not match the header'';
         f = c_check C f (unat (struct_size api) \<ge> sizeof_api)
               ''struct_size is smaller than the table this consumer was built against''
     in f)"

definition exercise_identification ::
  "'f collector \<Rightarrow> ('b, 'o) zucrypt_api_v1 \<Rightarrow> zuc_info \<Rightarrow> 'f \<Rightarrow> ('b, 'o, 'f) zuc" where
  "exercise_identification C api info f = do {
     s \<leftarrow> through (api_status_string api) None (\<lambda>status_string. ret (Some (status_string (zuc_status_code ZUC_OK))));
     let f = c_check C f (s \<noteq> None) ''status_string returned NULL'';
     s \<leftarrow> through (api_status_name api) [] (\<lambda>status_name. ret (status_name (zuc_status_code ZUC_ERR_BAD_LENGTH)));
     let f = c_check C f (s = ''ZUC_ERR_BAD_LENGTH'') ''status_name is wrong'';
     s \<leftarrow> through (api_alg_name api) None (\<lambda>alg_name. ret (alg_name ZUC_ALG_SHA256));
     let f = c_check C f (s = Some ''sha256'') ''alg_name is wrong'';
     a \<leftarrow> through (api_alg_by_name api) ZUC_ALG_NONE (\<lambda>alg_by_name. ret (alg_by_name (Some ''sha256'')));
     let f = c_check C f (a = ZUC_ALG_SHA256) ''alg_by_name is wrong'';
     a \<leftarrow> through (api_alg_by_name api) ZUC_ALG_NONE (\<lambda>alg_by_name. ret (alg_by_name (Some ''sha-256'')));
     let f = c_check C f (a = ZUC_ALG_NONE) ''alg_by_name matched a name it should not'';
     b \<leftarrow> through (api_alg_available api) False (\<lambda>alg_available. ret (alg_available ZUC_ALG_SHA256));
     let f = c_check C f b ''sha256 reports unavailable'';
     n \<leftarrow> through (api_alg_size api) 0 (\<lambda>alg_size. ret (alg_size ZUC_ALG_SHA512));
     let f = c_check C f (n = 64) ''alg_size is wrong'';
     (st, i) \<leftarrow> through (api_get_info api) (ZUC_ERR_INTERNAL, None)
       (\<lambda>get_info. get_info (Some (info\<lparr>i_struct_size := 48\<rparr>)));
     let info = (case i of None \<Rightarrow> info | Some i \<Rightarrow> i);
     let f = c_check C f (st = ZUC_OK) ''get_info failed'';
     let f = c_check C f (i_backend_version info \<noteq> []) ''get_info reported no backend version'';
     (st, i) \<leftarrow> through (api_get_info api) (ZUC_ERR_INTERNAL, None)
       (\<lambda>get_info. get_info (Some (info\<lparr>i_struct_size := 1\<rparr>)));
     let f = c_check C f (st = ZUC_ERR_ABI) ''get_info accepted an impossibly small struct_size'';
     ret f
   }"

definition exercise_digests ::
  "'f collector \<Rightarrow> ('b, 'o) zucrypt_api_v1 \<Rightarrow> (obj \<Rightarrow> ptr) \<Rightarrow> 'f \<Rightarrow> ('b, 'o, size_t \<times> 'f) zuc" where
  "exercise_digests C api adr f = do {
     let out = adr (Auto ''out'');
     (st, n) \<leftarrow> through (api_hash_compute api) (ZUC_ERR_INTERNAL, 0)
       (\<lambda>hash_compute. with_size 0 (hash_compute ZUC_ALG_SHA256 (adr (Literal ''abc'')) 3 out ZUC_MAX_DIGEST_SIZE));
     let f = c_check C f (st = ZUC_OK) ''hash_compute failed'';
     same \<leftarrow> memcmp_eq out SHA256_ABC;
     let f = c_check C f (n = 32 \<and> same) ''hash_compute produced the wrong digest'';
     (st, h) \<leftarrow> through (api_hash_new api) (ZUC_ERR_INTERNAL, NULL) (\<lambda>hash_new. with_out (hash_new ZUC_ALG_SHA256));
     if st \<noteq> ZUC_OK then ret (n, c_fail C f ''hash_new failed'')
     else do {
       st \<leftarrow> through (api_hash_update api) ZUC_ERR_INTERNAL (\<lambda>hash_update. hash_update h (adr (Literal ''a'')) 1);
       let f = c_check C f (st = ZUC_OK) ''hash_update failed'';
       st \<leftarrow> through (api_hash_update api) ZUC_ERR_INTERNAL (\<lambda>hash_update. hash_update h (adr (Literal ''bc'')) 2);
       let f = c_check C f (st = ZUC_OK) ''hash_update failed on the second chunk'';
       (st, n) \<leftarrow> through (api_hash_finish api) (ZUC_ERR_INTERNAL, n)
         (\<lambda>hash_finish. with_size n (hash_finish h out ZUC_MAX_DIGEST_SIZE));
       let f = c_check C f (st = ZUC_OK) ''hash_finish failed'';
       same \<leftarrow> memcmp_eq out SHA256_ABC;
       let f = c_check C f (n = 32 \<and> same) ''incremental hash disagreed with one-shot'';
       st \<leftarrow> through (api_hash_reset api) ZUC_ERR_INTERNAL (\<lambda>hash_reset. hash_reset h);
       let f = c_check C f (st = ZUC_OK) ''hash_reset failed'';
       st \<leftarrow> through (api_hash_update api) ZUC_ERR_INTERNAL (\<lambda>hash_update. hash_update h (adr (Literal ''abc'')) 3);
       let f = c_check C f (st = ZUC_OK) ''hash_update after reset failed'';
       (st, n) \<leftarrow> through (api_hash_finish api) (ZUC_ERR_INTERNAL, n)
         (\<lambda>hash_finish. with_size n (hash_finish h out ZUC_MAX_DIGEST_SIZE));
       let f = c_check C f (st = ZUC_OK) ''hash_finish after reset failed'';
       same \<leftarrow> memcmp_eq out SHA256_ABC;
       let f = c_check C f same ''a reset context did not behave like a fresh one'';
       through (api_hash_free api) () (\<lambda>hash_free. hash_free h);
       ret (n, f)
     }
   }"

definition exercise_hmac ::
  "'f collector \<Rightarrow> ('b, 'o) zucrypt_api_v1 \<Rightarrow> (obj \<Rightarrow> ptr) \<Rightarrow> size_t \<Rightarrow> 'f \<Rightarrow> ('b, 'o, 'f) zuc" where
  "exercise_hmac C api adr n f = do {
     let out = adr (Auto ''out'');
     let key = adr (Auto ''hmac key'');
     let one_shot = adr (Auto ''one_shot'');
     memset key 0x0b 20;
     (st, k) \<leftarrow> through (api_hmac_compute api) (ZUC_ERR_INTERNAL, 0)
       (\<lambda>hmac_compute. with_size 0
         (hmac_compute ZUC_ALG_SHA256 key 20 (adr (Literal ''Hi There'')) 8 one_shot ZUC_MAX_DIGEST_SIZE));
     let f = c_check C f (st = ZUC_OK) ''hmac_compute failed'';
     (st, m) \<leftarrow> through (api_hmac_new api) (ZUC_ERR_INTERNAL, NULL)
       (\<lambda>hmac_new. with_out (hmac_new ZUC_ALG_SHA256 key 20));
     if st \<noteq> ZUC_OK then ret (c_fail C f ''hmac_new failed'')
     else do {
       st \<leftarrow> through (api_hmac_update api) ZUC_ERR_INTERNAL (\<lambda>hmac_update. hmac_update m (adr (Literal ''Hi '')) 3);
       let f = c_check C f (st = ZUC_OK) ''hmac_update failed'';
       st \<leftarrow> through (api_hmac_update api) ZUC_ERR_INTERNAL (\<lambda>hmac_update. hmac_update m (adr (Literal ''There'')) 5);
       let f = c_check C f (st = ZUC_OK) ''hmac_update failed on the second chunk'';
       (st, n) \<leftarrow> through (api_hmac_finish api) (ZUC_ERR_INTERNAL, n)
         (\<lambda>hmac_finish. with_size n (hmac_finish m out ZUC_MAX_DIGEST_SIZE));
       let f = c_check C f (st = ZUC_OK) ''hmac_finish failed'';
       expected \<leftarrow> read_bytes one_shot k;
       same \<leftarrow> memcmp_eq out expected;
       let f = c_check C f (n = k \<and> same) ''incremental HMAC disagreed with one-shot'';
       st \<leftarrow> through (api_hmac_reset api) ZUC_ERR_INTERNAL (\<lambda>hmac_reset. hmac_reset m);
       let f = c_check C f (st = ZUC_OK) ''hmac_reset failed'';
       st \<leftarrow> through (api_hmac_update api) ZUC_ERR_INTERNAL (\<lambda>hmac_update. hmac_update m (adr (Literal ''Hi There'')) 8);
       let f = c_check C f (st = ZUC_OK) ''hmac_update after reset failed'';
       (st, n) \<leftarrow> through (api_hmac_finish api) (ZUC_ERR_INTERNAL, n)
         (\<lambda>hmac_finish. with_size n (hmac_finish m out ZUC_MAX_DIGEST_SIZE));
       let f = c_check C f (st = ZUC_OK) ''hmac_finish after reset failed'';
       expected \<leftarrow> read_bytes one_shot k;
       same \<leftarrow> memcmp_eq out expected;
       let f = c_check C f same ''a reset HMAC context lost its key'';
       through (api_hmac_free api) () (\<lambda>hmac_free. hmac_free m);
       ret f
     }
   }"

definition exercise_aes ::
  "'f collector \<Rightarrow> ('b, 'o) zucrypt_api_v1 \<Rightarrow> (obj \<Rightarrow> ptr) \<Rightarrow> 'f \<Rightarrow> ('b, 'o, 'f) zuc" where
  "exercise_aes C api adr f = do {
     let buf = adr (Auto ''buf'');
     (st, aes) \<leftarrow> through (api_aes_new api) (ZUC_ERR_INTERNAL, NULL)
       (\<lambda>aes_new. with_out (aes_new (adr (Static ''AES128_KEY'')) 16));
     if st \<noteq> ZUC_OK then ret (c_fail C f ''aes_new failed'')
     else do {
       st \<leftarrow> through (api_aes_cbc_set_state api) ZUC_ERR_INTERNAL (\<lambda>set_state. set_state aes (adr (Static ''CBC_IV'')));
       let f = c_check C f (st = ZUC_OK) ''aes_cbc_set_state failed'';
       st \<leftarrow> through (api_aes_cbc_encrypt api) ZUC_ERR_INTERNAL
         (\<lambda>cbc_encrypt. cbc_encrypt aes (adr (Static ''CBC_PT'')) 32 buf);
       let f = c_check C f (st = ZUC_OK) ''aes_cbc_encrypt failed'';
       same \<leftarrow> memcmp_eq buf CBC_CT;
       let f = c_check C f same ''aes_cbc_encrypt produced the wrong ciphertext'';
       st \<leftarrow> through (api_aes_cbc_get_state api) ZUC_ERR_INTERNAL (\<lambda>get_state. get_state aes (adr (Auto ''state'')));
       let f = c_check C f (st = ZUC_OK) ''aes_cbc_get_state failed'';
       same \<leftarrow> memcmp_eq (adr (Auto ''state'')) (drop 16 CBC_CT);
       let f = c_check C f same ''the chaining state is not the last ciphertext block'';
       st \<leftarrow> through (api_aes_cbc_set_state api) ZUC_ERR_INTERNAL (\<lambda>set_state. set_state aes (adr (Static ''CBC_IV'')));
       let f = c_check C f (st = ZUC_OK) ''aes_cbc_set_state failed on the second call'';
       st \<leftarrow> through (api_aes_cbc_decrypt api) ZUC_ERR_INTERNAL
         (\<lambda>cbc_decrypt. cbc_decrypt aes (adr (Static ''CBC_CT'')) 32 buf);
       let f = c_check C f (st = ZUC_OK) ''aes_cbc_decrypt failed'';
       same \<leftarrow> memcmp_eq buf CBC_PT;
       let f = c_check C f same ''aes_cbc_decrypt produced the wrong plaintext'';
       st \<leftarrow> through (api_aes_cbc_encrypt api) ZUC_ERR_INTERNAL
         (\<lambda>cbc_encrypt. cbc_encrypt aes (adr (Static ''CBC_PT'')) 17 buf);
       let f = c_check C f (st = ZUC_ERR_BAD_LENGTH) ''a partial block was not refused'';
       through (api_aes_free api) () (\<lambda>aes_free. aes_free aes);
       ret f
     }
   }"

definition exercise_bad_key ::
  "'f collector \<Rightarrow> ('b, 'o) zucrypt_api_v1 \<Rightarrow> (obj \<Rightarrow> ptr) \<Rightarrow> 'f \<Rightarrow> ('b, 'o, 'f) zuc" where
  "exercise_bad_key C api adr f = do {
     (st, bad) \<leftarrow> through (api_aes_new api) (ZUC_ERR_INTERNAL, NULL)
       (\<lambda>aes_new. with_out (aes_new (adr (Static ''AES128_KEY'')) 17));
     let f = c_check C f (st = ZUC_ERR_BAD_LENGTH) ''a 17-byte key was not refused'';
     ret (c_check C f (bad = NULL) ''a failed aes_new returned a handle anyway'')
   }"

text \<open>The position of a field in the table; \<^verbatim>\<open>ZUCRYPT_API_HAS\<close> takes its name.\<close>

definition api_field :: "string \<Rightarrow> nat" where
  "api_field name = length (takeWhile (\<lambda>n. n \<noteq> name) api_fields)"

definition exercise_utilities ::
  "'f collector \<Rightarrow> ('b, 'o) zucrypt_api_v1 \<Rightarrow> (obj \<Rightarrow> ptr) \<Rightarrow> 'f \<Rightarrow> ('b, 'o, 'f) zuc" where
  "exercise_utilities C api adr f = do {
     let buf = adr (Auto ''buf'');
     let abc = adr (Static ''SHA256_ABC'');
     let f = c_check C f (list_all (\<lambda>name. ZUCRYPT_API_HAS (Some api) (api_field name))
               [''equal'', ''secure_zero'', ''random_bytes'', ''aead_encrypt'', ''aead_decrypt'', ''pbkdf2_hmac'',
                ''pkey_decrypt'', ''pkey_agree''])
               ''ZUCRYPT_API_HAS denies a field the table has'';
     let f = c_check C f (\<not> ZUCRYPT_API_HAS (None :: ('b, 'o) zucrypt_api_v1 option) (api_field ''equal''))
               ''ZUCRYPT_API_HAS accepted a NULL table'';
     b \<leftarrow> through (api_equal api) False (\<lambda>equal. equal abc abc 32);
     let f = c_check C f b ''equal said two identical buffers differ'';
     memcpy buf abc 32;
     flip_bit (buf + 31);
     b \<leftarrow> through (api_equal api) True (\<lambda>equal. equal abc buf 32);
     let f = c_check C f (\<not> b) ''equal said two different buffers match'';
     memset buf 0xAA 32;
     through (api_secure_zero api) () (\<lambda>secure_zero. secure_zero buf 32);
     bs \<leftarrow> read_bytes buf 32;
     ret (if list_ex (\<lambda>b. b \<noteq> 0) bs then c_fail C f ''secure_zero left something behind'' else f)
   }"

text \<open>\<open>None\<close>: the random source never delivered.\<close>

definition exercise_random ::
  "'f collector \<Rightarrow> ('b, 'o) zucrypt_api_v1 \<Rightarrow> (obj \<Rightarrow> ptr) \<Rightarrow> 'f \<Rightarrow> ('b, 'o, 'f option) zuc" where
  "exercise_random C api adr f = do {
     let r1 = adr (Auto ''r1'');
     let r2 = adr (Auto ''r2'');
     st1 \<leftarrow> through (api_random_bytes api) (Some ZUC_ERR_INTERNAL) (\<lambda>random_bytes. random_bytes r1 32);
     st2 \<leftarrow> (if st1 = Some ZUC_OK
             then through (api_random_bytes api) (Some ZUC_ERR_INTERNAL) (\<lambda>random_bytes. random_bytes r2 32)
             else ret st1);
     if st2 = None then ret None
     else do {
       let f = c_check C f (st1 = Some ZUC_OK \<and> st2 = Some ZUC_OK) ''random_bytes failed'';
       bs \<leftarrow> read_bytes r2 32;
       same \<leftarrow> memcmp_eq r1 bs;
       let f = c_check C f (\<not> same) ''random_bytes returned the same bytes twice'';
       st \<leftarrow> through (api_random_bytes api) (Some ZUC_ERR_INTERNAL) (\<lambda>random_bytes. random_bytes NULL 16);
       case st of
         None \<Rightarrow> ret None
       | Some st \<Rightarrow> ret (Some (c_check C f (st = ZUC_ERR_INVALID_ARGUMENT) ''random_bytes accepted a NULL buffer''))
     }
   }"

definition exercise_gcm ::
  "'f collector \<Rightarrow> ('b, 'o) zucrypt_api_v1 \<Rightarrow> (obj \<Rightarrow> ptr) \<Rightarrow> 'f \<Rightarrow> ('b, 'o, 'f) zuc" where
  "exercise_gcm C api adr f = do {
     let key = adr (Auto ''gcm key'');
     let nonce = adr (Auto ''nonce'');
     let pt = adr (Auto ''gcm pt'');
     let ct = adr (Auto ''gcm ct'');
     let tag = adr (Auto ''tag'');
     let back = adr (Auto ''gcm back'');
     let dk = adr (Auto ''dk'');
     memset key 0 16;
     memset nonce 0 12;
     memset pt 0 16;
     st \<leftarrow> through (api_aead_encrypt api) ZUC_ERR_INTERNAL
       (\<lambda>aead_encrypt. aead_encrypt ZUC_ALG_AES_GCM key 16 nonce 12 NULL 0 pt 16 ct tag 16);
     same_ct \<leftarrow> memcmp_eq ct GCM_CT2;
     same_tag \<leftarrow> memcmp_eq tag GCM_TAG2;
     let f = c_check C f (st = ZUC_OK \<and> same_ct \<and> same_tag) ''aead_encrypt does not reproduce GCM test case 2'';
     st \<leftarrow> through (api_aead_decrypt api) ZUC_ERR_INTERNAL
       (\<lambda>aead_decrypt. aead_decrypt ZUC_ALG_AES_GCM key 16 nonce 12 NULL 0 ct 16 tag 16 back);
     plain \<leftarrow> read_bytes pt 16;
     same \<leftarrow> memcmp_eq back plain;
     let f = c_check C f (st = ZUC_OK \<and> same) ''aead_decrypt does not reverse GCM test case 2'';
     flip_bit tag;
     memset back 0xA5 16;
     st \<leftarrow> through (api_aead_decrypt api) ZUC_ERR_INTERNAL
       (\<lambda>aead_decrypt. aead_decrypt ZUC_ALG_AES_GCM key 16 nonce 12 NULL 0 ct 16 tag 16 back);
     bs \<leftarrow> read_bytes back 16;
     let f = c_check C f (st = ZUC_ERR_AUTH \<and> bs ! 0 = 0 \<and> bs ! 15 = 0)
               ''aead_decrypt accepted a flipped tag bit or left output behind'';
     st \<leftarrow> through (api_pbkdf2_hmac api) ZUC_ERR_INTERNAL
       (\<lambda>pbkdf2_hmac. pbkdf2_hmac ZUC_ALG_SHA1 (adr (Literal ''password'')) 8 (adr (Literal ''salt'')) 4 2 dk 20);
     same \<leftarrow> memcmp_eq dk PBKDF2_DK2;
     ret (c_check C f (st = ZUC_OK \<and> same) ''pbkdf2_hmac does not reproduce RFC 6070 test case 2'')
   }"

definition exercise_rsa ::
  "'f collector \<Rightarrow> ('b, 'o) zucrypt_api_v1 \<Rightarrow> (obj \<Rightarrow> ptr) \<Rightarrow> 'f \<Rightarrow> ('b, 'o, 'f) zuc" where
  "exercise_rsa C api adr f = do {
     let md = adr (Auto ''digest'');
     let sig = adr (Auto ''sig'');
     let ct = adr (Auto ''rsa ct'');
     let pt = adr (Auto ''rsa pt'');
     let pem = adr (Auto ''pem'');
     memcpy md (adr (Static ''SHA256_ABC'')) 32;
     (st, key) \<leftarrow> through (api_pkey_generate api) (ZUC_ERR_INTERNAL, NULL)
       (\<lambda>pkey_generate. with_out (pkey_generate ZUC_ALG_RSA 1024));
     t \<leftarrow> (if st = ZUC_OK then through (api_pkey_type api) ZUC_ALG_NONE (\<lambda>pkey_type. pkey_type key) else ret ZUC_ALG_NONE);
     n \<leftarrow> (if t = ZUC_ALG_RSA then through (api_pkey_bits api) 0 (\<lambda>pkey_bits. pkey_bits key) else ret 0);
     b \<leftarrow> (if n = 1024 then through (api_pkey_is_private api) False (\<lambda>is_private. is_private key) else ret False);
     let f = c_check C f b ''pkey_generate did not make a 1024-bit RSA private key'';
     (st, pub) \<leftarrow> through (api_pkey_public api) (ZUC_ERR_INTERNAL, NULL) (\<lambda>pkey_public. with_out (pkey_public key));
     b \<leftarrow> (if st = ZUC_OK then through (api_pkey_is_private api) False (\<lambda>is_private. is_private pub) else ret True);
     let f = c_check C f (\<not> b) ''pkey_public did not make a public key'';
     (st, sl) \<leftarrow> through (api_pkey_sign_hash api) (ZUC_ERR_INTERNAL, 0)
       (\<lambda>sign_hash. with_len (sign_hash key ZUC_ALG_RSA_PSS ZUC_ALG_SHA256 md 32 sig 128));
     st \<leftarrow> (if st = ZUC_OK
            then through (api_pkey_verify_hash api) ZUC_ERR_INTERNAL
                   (\<lambda>verify_hash. verify_hash pub ZUC_ALG_RSA_PSS ZUC_ALG_SHA256 md 32 sig sl)
            else ret st);
     let f = c_check C f (st = ZUC_OK) ''pkey_sign_hash and pkey_verify_hash do not agree'';
     flip_bit sig;
     st \<leftarrow> through (api_pkey_verify_hash api) ZUC_ERR_INTERNAL
       (\<lambda>verify_hash. verify_hash pub ZUC_ALG_RSA_PSS ZUC_ALG_SHA256 md 32 sig sl);
     let f = c_check C f (st = ZUC_ERR_AUTH) ''pkey_verify_hash accepted a flipped signature'';
     (st, cl) \<leftarrow> through (api_pkey_encrypt api) (ZUC_ERR_INTERNAL, 0)
       (\<lambda>encrypt. with_len (encrypt pub ZUC_ALG_RSA_OAEP ZUC_ALG_SHA256 md 32 ct 128));
     (st, pl) \<leftarrow> (if st = ZUC_OK
                  then through (api_pkey_decrypt api) (ZUC_ERR_INTERNAL, 0)
                         (\<lambda>decrypt. with_len (decrypt key ZUC_ALG_RSA_OAEP ZUC_ALG_SHA256 ct cl pt 128))
                  else ret (st, 0));
     expected \<leftarrow> read_bytes md 32;
     same \<leftarrow> memcmp_eq pt expected;
     let f = c_check C f (st = ZUC_OK \<and> pl = 32 \<and> same) ''pkey_encrypt and pkey_decrypt do not round-trip'';
     (st, wl) \<leftarrow> through (api_pkey_write api) (ZUC_ERR_INTERNAL, 0)
       (\<lambda>pkey_write. with_len (pkey_write key ZUC_PKEY_INFO_PEM False pem ZUC_PKEY_MAX_WRITE_SIZE));
     (st, back) \<leftarrow> (if st = ZUC_OK
                    then through (api_pkey_parse api) (ZUC_ERR_INTERNAL, NULL)
                           (\<lambda>pkey_parse. with_out (pkey_parse pem wl True))
                    else ret (st, NULL));
     n \<leftarrow> (if st = ZUC_OK then through (api_pkey_bits api) 0 (\<lambda>pkey_bits. pkey_bits back) else ret 0);
     let f = c_check C f (n = 1024) ''pkey_write and pkey_parse do not round-trip'';
     through (api_pkey_free api) () (\<lambda>pkey_free. pkey_free back);
     through (api_pkey_free api) () (\<lambda>pkey_free. pkey_free pub);
     through (api_pkey_free api) () (\<lambda>pkey_free. pkey_free key);
     ret f
   }"

definition exercise_x25519 ::
  "'f collector \<Rightarrow> ('b, 'o) zucrypt_api_v1 \<Rightarrow> (obj \<Rightarrow> ptr) \<Rightarrow> 'f \<Rightarrow> ('b, 'o, 'f) zuc" where
  "exercise_x25519 C api adr f = do {
     let k = adr (Auto ''k'');
     let raw = adr (Auto ''raw'');
     (st, alice) \<leftarrow> through (api_pkey_import api) (ZUC_ERR_INTERNAL, NULL)
       (\<lambda>pkey_import. with_out (pkey_import ZUC_ALG_X25519 True (adr (Static ''a'')) 32));
     (st, bob) \<leftarrow> (if st = ZUC_OK
                   then through (api_pkey_import api) (ZUC_ERR_INTERNAL, NULL)
                          (\<lambda>pkey_import. with_out (pkey_import ZUC_ALG_X25519 False (adr (Static ''B'')) 32))
                   else ret (st, NULL));
     let f = c_check C f (st = ZUC_OK) ''pkey_import refused RFC 7748's X25519 keys'';
     (st, kl) \<leftarrow> through (api_pkey_agree api) (ZUC_ERR_INTERNAL, 0)
       (\<lambda>pkey_agree. with_len (pkey_agree alice bob k 32));
     same \<leftarrow> memcmp_eq k X25519_K;
     let f = c_check C f (st = ZUC_OK \<and> kl = 32 \<and> same) ''pkey_agree does not reproduce RFC 7748 section 6.1'';
     (st, rl) \<leftarrow> through (api_pkey_export api) (ZUC_ERR_INTERNAL, 0)
       (\<lambda>pkey_export. with_len (pkey_export bob False raw 32));
     same \<leftarrow> memcmp_eq raw X25519_B;
     let f = c_check C f (st = ZUC_OK \<and> rl = 32 \<and> same) ''pkey_export does not return the key pkey_import was given'';
     through (api_pkey_free api) () (\<lambda>pkey_free. pkey_free bob);
     through (api_pkey_free api) () (\<lambda>pkey_free. pkey_free alice);
     ret f
   }"

definition exercise ::
  "'f collector \<Rightarrow> 'f \<Rightarrow> ('b, 'o) zucrypt_api_v1 \<Rightarrow> (obj \<Rightarrow> ptr) \<Rightarrow> zuc_info \<Rightarrow> ('b, 'o, 'f option) zuc" where
  "exercise C f api adr info = do {
     let f = exercise_table C api f;
     f \<leftarrow> exercise_identification C api info f;
     (n, f) \<leftarrow> exercise_digests C api adr f;
     f \<leftarrow> exercise_hmac C api adr n f;
     f \<leftarrow> exercise_aes C api adr f;
     f \<leftarrow> exercise_bad_key C api adr f;
     f \<leftarrow> exercise_utilities C api adr f;
     r \<leftarrow> exercise_random C api adr f;
     case r of
       None \<Rightarrow> ret None
     | Some f \<Rightarrow> do {
         f \<leftarrow> exercise_gcm C api adr f;
         f \<leftarrow> exercise_rsa C api adr f;
         f \<leftarrow> exercise_x25519 C api adr f;
         ret (Some f)
       }
   }"

text \<open>The entry point; \<open>msgs\<close> reads the messages out of what was collected.\<close>

definition report_exercise ::
  "'f collector \<Rightarrow> 'f \<Rightarrow> ('f \<Rightarrow> string list) \<Rightarrow> ('b, 'o) psa \<Rightarrow> random_source \<Rightarrow> bool \<Rightarrow> (obj \<Rightarrow> ptr) \<Rightarrow> zuc_info \<Rightarrow>
   ('b, 'o, sexp outcome) cl" where
  "report_exercise C f msgs P rs words adr info = with_api P rs words (\<lambda>api. do {
     r \<leftarrow> native (exercise C f api adr info);
     case r of
       None \<Rightarrow> ret No_return
     | Some f \<Rightarrow> r_alloc (\<lambda>_. ret (Returned (STRSXP (msgs f)))) })"

definition zucrypttest_exercise ::
  "('b, 'o) psa \<Rightarrow> random_source \<Rightarrow> bool \<Rightarrow> (obj \<Rightarrow> ptr) \<Rightarrow> zuc_info \<Rightarrow> ('b, 'o, sexp outcome) cl" where
  "zucrypttest_exercise = report_exercise bounded \<lparr>f_msg = []\<rparr> f_msg"

section \<open>Registration\<close>

definition zucrypttest_call_methods :: "R_CallMethodDef list" where
  "zucrypttest_call_methods =
    [call_def ''zucrypttest_api_available'' ''zucrypttest_api_available'' 0,
     call_def ''zucrypttest_abi_reject'' ''zucrypttest_abi_reject'' 1,
     call_def ''zucrypttest_exercise'' ''zucrypttest_exercise'' 0,
     call_def ''zucrypttest_derive'' ''zucrypttest_derive'' 3,
     call_def ''zucrypttest_segments'' ''zucrypttest_segments'' 5,
     call_def ''zucrypttest_backend'' ''zucrypttest_backend'' 0,
     null_def]"

text \<open>Loading the package registers its routines and nothing else; it does not resolve the table.\<close>

definition R_init_zucrypttest :: "(R_CallMethodDef list, unit) state" where
  "R_init_zucrypttest = modify (\<lambda>_. until_null zucrypttest_call_methods)"

section \<open>The report\<close>

text \<open>After at most \<open>n\<close> checks the bounded list holds the complaints among all outcomes.\<close>

definition kept :: "nat \<Rightarrow> failures \<Rightarrow> (bool \<times> string) list \<Rightarrow> bool" where
  "kept n f l \<longleftrightarrow> f_msg f = complaints l \<and> length l \<le> n"

lemma complaints_Nil: "complaints [] = []"
  by (simp add: complaints_def)

lemma complaints_snoc: "complaints (l @ [(ok, m)]) = complaints l @ (if ok then [] else [m])"
  by (simp add: complaints_def)

lemma length_complaints: "length (complaints l) \<le> length l"
  by (simp add: complaints_def)

lemma complaints_short: "length l \<le> 63 \<Longrightarrow> length (complaints l) < MAX_FAILURES"
  using length_complaints [of l] by (simp add: MAX_FAILURES_def)

lemma kept_mono: "kept k f l \<Longrightarrow> k \<le> n \<Longrightarrow> kept n f l"
  by (simp add: kept_def)

lemma kept_if: "kept n f l \<Longrightarrow> kept n f' l' \<Longrightarrow> kept n (if b then f else f') (if b then l else l')"
  by simp

lemma kept_check:
  assumes "kept n f l" "n < MAX_FAILURES"
  shows "kept (Suc n) (c_check bounded f ok m) (c_check audit l ok m)"
  using assms length_complaints [of l]
  by (simp add: kept_def bounded_def audit_def check_def fail_def complaints_snoc)

lemma kept_fail:
  assumes "kept n f l" "n < MAX_FAILURES"
  shows "kept (Suc n) (c_fail bounded f m) (c_fail audit l m)"
  using assms length_complaints [of l]
  by (simp add: kept_def bounded_def audit_def fail_def complaints_snoc)

text \<open>Two actions that differ in what they collect: same world, related results.\<close>

definition reported :: "('a \<Rightarrow> 'c \<Rightarrow> bool) \<Rightarrow> ('b, 'o, 'a) zuc \<Rightarrow> ('b, 'o, 'c) zuc \<Rightarrow> bool" where
  "reported R m m' \<longleftrightarrow>
    (\<forall>w. R (fst (run_state m w)) (fst (run_state m' w)) \<and> snd (run_state m w) = snd (run_state m' w))"

lemma reported_ret: "R x y \<Longrightarrow> reported R (ret x) (ret y)"
  by (simp add: reported_def)

lemma reported_bind: "(\<And>r. reported R (k r) (k' r)) \<Longrightarrow> reported R (State_Monad.bind m k) (State_Monad.bind m k')"
  by (simp add: reported_def case_prod_unfold)

lemma reported_case_prod:
  "(\<And>a b. reported R (k a b) (k' a b)) \<Longrightarrow> reported R (case x of (a, b) \<Rightarrow> k a b) (case x of (a, b) \<Rightarrow> k' a b)"
  by (cases x) simp

lemma reported_let: "(\<And>x. reported R (k x) (k' x)) \<Longrightarrow> reported R (let x = y in k x) (let x = y in k' x)"
  by simp

lemma reported_check:
  assumes "kept n f l" "n < MAX_FAILURES" "\<And>g l'. kept (Suc n) g l' \<Longrightarrow> reported R (k g) (k' l')"
  shows "reported R (let g = c_check bounded f ok m in k g) (let g = c_check audit l ok m in k' g)"
  using assms kept_check by simp

lemma reported_if:
  "reported R m1 m1' \<Longrightarrow> reported R m2 m2' \<Longrightarrow> reported R (if b then m1 else m2) (if b then m1' else m2')"
  by simp

lemma reported_seq:
  assumes "reported Q m m'" "\<And>x y. Q x y \<Longrightarrow> reported R (k x) (k' y)"
  shows "reported R (State_Monad.bind m k) (State_Monad.bind m' k')"
  using assms by (simp add: reported_def case_prod_unfold)

lemma reported_case_option:
  "reported R m1 m1' \<Longrightarrow> (\<And>a. reported R (k a) (k' a)) \<Longrightarrow>
   reported R (case x of None \<Rightarrow> m1 | Some a \<Rightarrow> k a) (case x of None \<Rightarrow> m1' | Some a \<Rightarrow> k' a)"
  by (cases x) simp_all

lemma reported_ret_pair:
  "kept n f l \<Longrightarrow> reported (\<lambda>x y. fst x = fst y \<and> kept n (snd x) (snd y)) (ret (a, f)) (ret (a, l))"
  by (simp add: reported_ret)

lemma reported_seq_pair:
  assumes "reported (\<lambda>x y. fst x = fst y \<and> Q (snd x) (snd y)) m m'" "\<And>a x y. Q x y \<Longrightarrow> reported R (k a x) (k' a y)"
  shows "reported R (State_Monad.bind m (\<lambda>(a, x). k a x)) (State_Monad.bind m' (\<lambda>(a, y). k' a y))"
  using assms by (simp add: reported_def case_prod_unfold)

lemma reported_seq_option:
  assumes "reported (rel_option Q) m m'" "\<And>x y. Q x y \<Longrightarrow> reported (rel_option R) (k x) (k' y)"
  shows "reported (rel_option R) (State_Monad.bind m (\<lambda>r. case r of None \<Rightarrow> ret None | Some x \<Rightarrow> k x))
    (State_Monad.bind m' (\<lambda>r. case r of None \<Rightarrow> ret None | Some y \<Rightarrow> k' y))"
proof (rule reported_seq [OF assms(1)])
  fix x y assume "rel_option Q x y"
  then show "reported (rel_option R) (case x of None \<Rightarrow> ret None | Some x \<Rightarrow> k x)
      (case y of None \<Rightarrow> ret None | Some y \<Rightarrow> k' y)"
    by (cases rule: option.rel_cases) (simp_all add: assms(2) reported_ret)
qed

lemmas reported_rules = reported_check reported_let reported_case_prod reported_case_option reported_if reported_bind
  reported_ret_pair reported_ret option.rel_intros

lemma table_report:
  assumes "kept n f l" "Suc n < MAX_FAILURES"
  shows "kept (n + 2) (exercise_table bounded api f) (exercise_table audit api l)"
  using assms kept_check [of "Suc n"] kept_check [of n] by (simp add: exercise_table_def Let_def)

lemma identification_report:
  assumes "kept n f l" "n + 10 \<le> MAX_FAILURES"
  shows "reported (kept (n + 10)) (exercise_identification bounded api info f) (exercise_identification audit api info l)"
  using assms unfolding exercise_identification_def
  by - (rule reported_rules | assumption | rule kept_if | (rule kept_mono, (assumption | rule kept_check kept_fail)+)
    | (simp split del: if_split; fail))+

lemma digests_report:
  assumes "kept n f l" "n + 10 \<le> MAX_FAILURES"
  shows "reported (\<lambda>x y. fst x = fst y \<and> kept (n + 10) (snd x) (snd y)) (exercise_digests bounded api adr f) (exercise_digests audit api adr l)"
  using assms unfolding exercise_digests_def
  by - (rule reported_rules | assumption | rule kept_if | (rule kept_mono, (assumption | rule kept_check kept_fail)+)
    | (simp split del: if_split; fail))+

lemma hmac_report:
  assumes "kept n f l" "n + 9 \<le> MAX_FAILURES"
  shows "reported (kept (n + 9)) (exercise_hmac bounded api adr k f) (exercise_hmac audit api adr k l)"
  using assms unfolding exercise_hmac_def
  by - (rule reported_rules | assumption | rule kept_if | (rule kept_mono, (assumption | rule kept_check kept_fail)+)
    | (simp split del: if_split; fail))+

lemma aes_report:
  assumes "kept n f l" "n + 9 \<le> MAX_FAILURES"
  shows "reported (kept (n + 9)) (exercise_aes bounded api adr f) (exercise_aes audit api adr l)"
  using assms unfolding exercise_aes_def
  by - (rule reported_rules | assumption | rule kept_if | (rule kept_mono, (assumption | rule kept_check kept_fail)+)
    | (simp split del: if_split; fail))+

lemma bad_key_report:
  assumes "kept n f l" "n + 2 \<le> MAX_FAILURES"
  shows "reported (kept (n + 2)) (exercise_bad_key bounded api adr f) (exercise_bad_key audit api adr l)"
  using assms unfolding exercise_bad_key_def
  by - (rule reported_rules | assumption | rule kept_if | (rule kept_mono, (assumption | rule kept_check kept_fail)+)
    | (simp split del: if_split; fail))+

lemma utilities_report:
  assumes "kept n f l" "n + 5 \<le> MAX_FAILURES"
  shows "reported (kept (n + 5)) (exercise_utilities bounded api adr f) (exercise_utilities audit api adr l)"
  using assms unfolding exercise_utilities_def
  by - (rule reported_rules | assumption | rule kept_if | (rule kept_mono, (assumption | rule kept_check kept_fail)+)
    | (simp split del: if_split; fail))+

lemma random_report:
  assumes "kept n f l" "n + 3 \<le> MAX_FAILURES"
  shows "reported (rel_option (kept (n + 3))) (exercise_random bounded api adr f) (exercise_random audit api adr l)"
  using assms unfolding exercise_random_def
  by - (rule reported_rules | assumption | rule kept_if | (rule kept_mono, (assumption | rule kept_check kept_fail)+)
    | (simp split del: if_split; fail))+

lemma gcm_report:
  assumes "kept n f l" "n + 4 \<le> MAX_FAILURES"
  shows "reported (kept (n + 4)) (exercise_gcm bounded api adr f) (exercise_gcm audit api adr l)"
  using assms unfolding exercise_gcm_def
  by - (rule reported_rules | assumption | rule kept_if | (rule kept_mono, (assumption | rule kept_check kept_fail)+)
    | (simp split del: if_split; fail))+

lemma rsa_report:
  assumes "kept n f l" "n + 6 \<le> MAX_FAILURES"
  shows "reported (kept (n + 6)) (exercise_rsa bounded api adr f) (exercise_rsa audit api adr l)"
  using assms unfolding exercise_rsa_def
  by - (rule reported_rules | assumption | rule kept_if | (rule kept_mono, (assumption | rule kept_check kept_fail)+)
    | (simp split del: if_split; fail))+

lemma x25519_report:
  assumes "kept n f l" "n + 3 \<le> MAX_FAILURES"
  shows "reported (kept (n + 3)) (exercise_x25519 bounded api adr f) (exercise_x25519 audit api adr l)"
  using assms unfolding exercise_x25519_def
  by - (rule reported_rules | assumption | rule kept_if | (rule kept_mono, (assumption | rule kept_check kept_fail)+)
    | (simp split del: if_split; fail))+

text \<open>The whole exercise makes at most 63 checks.\<close>

lemmas exercise_seq =
  reported_seq [OF identification_report] reported_seq_pair [OF digests_report] reported_seq [OF hmac_report]
  reported_seq [OF aes_report] reported_seq [OF bad_key_report] reported_seq [OF utilities_report]
  reported_seq_option [OF random_report] reported_seq [OF gcm_report] reported_seq [OF rsa_report]
  reported_seq [OF x25519_report]

lemma exercise_report:
  assumes "kept 0 f l"
  shows "reported (rel_option (kept 63)) (exercise bounded f api adr info) (exercise audit l api adr info)"
  unfolding exercise_def Let_def
  by (rule exercise_seq reported_ret option.rel_intros table_report assms | assumption
    | (erule kept_mono) | (simp add: MAX_FAILURES_def; fail))+

lemma with_api_ran:
  assumes "run_state (with_api P rs words k) c = (Returned v, c')"
  shows "\<exists>api s s'. run_state (k api) s = (Returned v, s')"
  using assms
  by (cases c) (auto simp: with_api_def split: prod.splits outcome.splits api_ref.splits)

text \<open>What the entry point does once it has the table.\<close>

definition write_report :: "('f \<Rightarrow> string list) \<Rightarrow> 'f option \<Rightarrow> ('b, 'o, sexp outcome) rc" where
  "write_report msgs r = (case r of None \<Rightarrow> ret No_return | Some f \<Rightarrow> r_alloc (\<lambda>_. ret (Returned (STRSXP (msgs f)))))"

lemma with_api_cong:
  assumes "\<And>api s. run_state (k api) s = run_state (k' api) s"
  shows "with_api P rs words k = with_api P rs words k'"
proof -
  have "k = k'" using assms by (intro ext state.expand) simp
  then show ?thesis by simp
qed

lemma answers_agree:
  "run_state (do { r \<leftarrow> native (exercise bounded \<lparr>f_msg = []\<rparr> api adr info); write_report f_msg r }) s =
   run_state (do { r \<leftarrow> native (exercise audit [] api adr info); write_report complaints r }) s"
proof -
  have "kept 0 \<lparr>f_msg = []\<rparr> []" by (simp add: kept_def complaints_Nil)
  from exercise_report [OF this, of api adr info, unfolded reported_def, rule_format, of "rs_world s"]
  show ?thesis
    by (auto simp: run_native write_report_def kept_def rel_option_iff case_prod_unfold split: option.splits)
qed

lemma answer_short:
  assumes "run_state (do { r \<leftarrow> native (exercise bounded \<lparr>f_msg = []\<rparr> api adr info); write_report f_msg r }) s = (Returned v, s')"
  shows "\<exists>msgs. v = STRSXP msgs \<and> length msgs < MAX_FAILURES"
proof -
  have "kept 0 \<lparr>f_msg = []\<rparr> []" by (simp add: kept_def complaints_Nil)
  from exercise_report [OF this, of api adr info, unfolded reported_def, rule_format, of "rs_world s"] assms
  show ?thesis
    by (auto simp: run_native write_report_def run_r_alloc kept_def rel_option_iff complaints_short split: option.splits prod.splits list.splits if_splits)
qed

lemma report_answers:
  "report_exercise C f msgs P rs words adr info =
    with_api P rs words (\<lambda>api. do { r \<leftarrow> native (exercise C f api adr info); write_report msgs r })"
  by (simp add: report_exercise_def write_report_def)

text \<open>
  C40. The exercise of \<^verbatim>\<open>zucrypttest\<close> reports everything it finds and nothing else: whatever the table it
  is given and whatever the library does, its answer is the one it would give with the outcome of every
  check kept and the messages of those that were not as expected picked from them, in their order. The
  limit \<^verbatim>\<open>MAX_FAILURES\<close> of \<^verbatim>\<open>fail\<close> is never what decides, and the list stays below it.
\<close>

theorem exercise_report_complete:
  "zucrypttest_exercise P rs words adr info = report_exercise audit [] complaints P rs words adr info \<and>
   (case fst (run_state (zucrypttest_exercise P rs words adr info) c) of
      Returned v \<Rightarrow> (case v of STRSXP msgs \<Rightarrow> length msgs < MAX_FAILURES | _ \<Rightarrow> False)
    | Longjmp \<Rightarrow> True
    | No_return \<Rightarrow> True)"
proof
  show "zucrypttest_exercise P rs words adr info = report_exercise audit [] complaints P rs words adr info"
    unfolding zucrypttest_exercise_def report_answers by (rule with_api_cong [OF answers_agree])
  have "\<exists>msgs. v = STRSXP msgs \<and> length msgs < MAX_FAILURES"
    if "run_state (zucrypttest_exercise P rs words adr info) c = (Returned v, c')" for v c'
    using with_api_ran [OF that [unfolded zucrypttest_exercise_def report_answers]] answer_short by blast
  then show "case fst (run_state (zucrypttest_exercise P rs words adr info) c) of
      Returned v \<Rightarrow> (case v of STRSXP msgs \<Rightarrow> length msgs < MAX_FAILURES | _ \<Rightarrow> False)
    | Longjmp \<Rightarrow> True
    | No_return \<Rightarrow> True"
    by (cases "run_state (zucrypttest_exercise P rs words adr info) c") (auto split: outcome.split)
qed

end
