(* ===== verification/Spec2Isabelle.thy ===== *)
theory Spec2Isabelle
  imports Digest Psa_Mac Psa_Kdf Psa_Aead R_Package R_Keys R_Types Hmac_Keys Key_Handles Exercise
begin

text \<open>
  A verification development for zucrypt, an R package that offers digests, HMAC, AES-CBC, AES-GCM,
  PBKDF2, public keys and random bytes over a vendored copy of TF-PSA-Crypto.

  \<^bold>\<open>The program.\<close> zucrypt has three layers. The \<^emph>\<open>adapter\<close> (\<^verbatim>\<open>src/src/zuc_*.c\<close>, header
  \<^verbatim>\<open>src/inst/include/zucrypt.h\<close>) is a C library without R: opaque handles, status codes, and calls of
  the backend's PSA interface. The \<^emph>\<open>R layer\<close> (\<^verbatim>\<open>src/src/zucrypt_crypt.c\<close>, \<^verbatim>\<open>zucrypt_r.c\<close>) turns R values
  into adapter calls and owns contexts through external pointers with finalizers. The \<^emph>\<open>function
  table\<close> (\<^verbatim>\<open>src/src/zucrypt_api.c\<close>, \<^verbatim>\<open>src/inst/include/zucrypt-r.h\<close>) gives other packages the adapter through
  R's registry of C-callables. The repository has one package for each way of using the adapter:
  \<^verbatim>\<open>src/tools/zucryptlink\<close> links the static archive and has an adapter and a reference count of its own,
  \<^verbatim>\<open>src/tools/zucrypttest\<close> goes through the table and shares those of zucrypt. Below the adapter is the vendored backend,
  \<^verbatim>\<open>src/src/vendor/tf-psa-crypto\<close>.

  \<^bold>\<open>Shape of the model.\<close> A C function of the adapter is an action on a \<open>world\<close> (theory \<open>World\<close>): byte
  memory, typed out-parameter cells, one heap per handle type, the static variables and the state
  of the backend. Every function has the C parameters in their order, pointers included, and its
  guards, early returns and clean-up steps in the order of the code. The backend is a parameter \<open>P\<close>
  of every definition that calls it, a function from a call and a state to a reply and a state, and
  almost every theorem holds for all such functions. An R entry point is an action on a \<open>session\<close> (theory
  \<open>R_Session\<close>), which adds R's external pointers and two oracles: what R's allocator answers and when
  the user interrupts. Its outcome is a value, a \<open>longjmp\<close>, or no return.

  \<^bold>\<open>Theories and what they show.\<close>

  \<^item> \<open>Prelude\<close>, \<open>World\<close>, \<open>Fixtures\<close>: byte memory and buffers, the state monad with its rules (\<open>keeps\<close>,
    \<open>valid\<close>, \<open>confined\<close>), the backend interface, a scripted backend for concrete runs. \<open>Layer\<close>: a backend that
    answers some calls with vendored code and passes the others on. \<open>Key_Store\<close>: the key store as a parameter.
  \<^item> \<open>Status\<close> (\<^verbatim>\<open>zuc_status.c\<close>, \<^verbatim>\<open>zuc_crypto_config.h\<close>): the status and algorithm tables agree with each
    other and with the build configuration, and names are a bijection.
  \<^item> \<open>Util\<close> (\<^verbatim>\<open>zuc_util.c\<close> and the backend's constant-time comparison and erasure): comparison is
    equality, the overlap test is exact.
  \<^item> \<open>Backend\<close> (\<^verbatim>\<open>zuc_backend.c\<close>): the reference count and the backend's start and stop; size
    negotiation of \<^verbatim>\<open>zuc_get_info\<close>. The log of \<open>traced\<close> backends and the multiset of owed keys are
    defined here.
  \<^item> \<open>Entropy\<close> (\<^verbatim>\<open>zuc_random.c\<close>, all four platforms): failure leaves zeros, success is what the system
    delivered, and the \<^verbatim>\<open>getrandom\<close> loop returns once enough was delivered.
  \<^item> \<open>Hash\<close>, \<open>Hmac_Keys\<close> (\<^verbatim>\<open>zuc_hash.c\<close>): digests and HMAC; the key behind an HMAC context over its life.
  \<^item> \<open>Symmetric\<close> (\<^verbatim>\<open>zuc_aes.c\<close>, \<^verbatim>\<open>zuc_aead.c\<close>, \<^verbatim>\<open>zuc_kdf.c\<close>): chaining, in-place use and write bounds of CBC;
    no plaintext without a verified tag, erasure on failure, and key balance of AEAD; PBKDF2.
  \<^item> \<open>Der\<close>, \<open>Pkey\<close> (\<^verbatim>\<open>zuc_pkey.c\<close>): the encoders fill exactly what they allocate and decode to the right
    structure; key balance and signature acceptance; and, from the log of the calls the backend was asked, what a
    decryption and a key agreement leave behind when they fail.
  \<^item> \<open>Md_Stream\<close>, \<open>Sha2\<close>, \<open>Sha1\<close>, \<open>Psa_Hash\<close> (\<^verbatim>\<open>sha256.c\<close>, \<^verbatim>\<open>sha512.c\<close>, \<^verbatim>\<open>sha1.c\<close>, \<^verbatim>\<open>psa_crypto_hash.c\<close> and the digest
    functions of \<^verbatim>\<open>psa_crypto.c\<close>): the vendored digests refine FIPS 180-4. The locale \<open>incremental\<close> is
    the interface of a hash module, interpreted for each of the four digests; the locales
    \<open>psa_hash_contract\<close> and \<open>psa_hash_total\<close> are what the adapter relies on, interpreted for
    \<open>vendored_hash Q\<close>, a backend that computes digests with the vendored code and leaves every other
    call to an arbitrary \<open>Q\<close>.
  \<^item> \<open>R_Session\<close>, \<open>Ownership\<close>, \<open>R_Crypt\<close>, \<open>R_Keys\<close> (\<^verbatim>\<open>zucrypt_crypt.c\<close>): the chunk loop, the external-pointer
    discipline and every entry point. The locale \<open>owned_context\<close> is the contract of a context type
    with the pointer that owns it, interpreted for digest, HMAC and AES contexts with the finalizer that
    each call registers; no exit of an entry point leaks or frees twice. Scratch vectors are wiped; foreign and
    stale pointers are refused.
  \<^item> \<open>R_Types\<close>: every entry point that returns, returns a value of its type.
  \<^item> \<open>Absorb\<close>: what digests and HMACs have in common for the R layer, as the locales \<open>absorbing\<close>,
    \<open>absorbing_total\<close>, \<open>absorbing_stream\<close>: a context takes in bytes and gives a value. The chunk loop, the
    one-shot entry points and the streams are treated once, for both.
  \<^item> \<open>Digest\<close>: the composition of the layers. \<^verbatim>\<open>zucrypt_hash\<close> and the digest streams return the FIPS
    180-4 digest of what they were given, and do return when nothing fails.
  \<^item> \<open>Hmac_Mode\<close>, \<open>Psa_Mac\<close> (\<^verbatim>\<open>psa_crypto_mac.c\<close>, the MAC functions of \<^verbatim>\<open>psa_crypto.c\<close>): HMAC of FIPS 198-1
    over a digest, and the vendored code that computes it over the vendored digests. The locales
    \<open>psa_mac_contract\<close> and \<open>psa_mac_total\<close> are what the adapter relies on, interpreted for \<open>vendored_mac\<close>;
    \<^verbatim>\<open>zucrypt_hmac\<close> and the HMAC streams return the HMAC. Steps that may fail are put together with \<open>delivers\<close>:
    success has a meaning, and an allocator that answers brings it about.
  \<^item> \<open>Pbkdf2\<close>, \<open>Psa_Kdf\<close> (the key derivation of \<^verbatim>\<open>psa_crypto.c\<close>): PBKDF2 of RFC 8018, and the vendored code
    that computes it with HMAC, block by block. The locale \<open>psa_kdf_contract\<close> is what \<^verbatim>\<open>zuc_pbkdf2_hmac\<close>
    relies on, interpreted for \<open>vendored_kdf\<close>.
  \<^item> \<open>Ghash\<close>, \<open>Gcm_Mode\<close>, \<open>Gcm\<close>, \<open>Aead_Client\<close>, \<open>Psa_Aead\<close> (\<^verbatim>\<open>gcm.c\<close>, \<^verbatim>\<open>psa_crypto_aead.c\<close>, the multipart AEAD
    functions of \<^verbatim>\<open>psa_crypto.c\<close>): the field of GCM and the table multiplication that computes in it; GCM of
    SP 800-38D over a block function; the context of \<^verbatim>\<open>gcm.c\<close>, whose invariant \<open>gcm_has\<close> says what bytes it has been
    fed. The locales \<open>psa_gcm_contract\<close> and its extension \<open>psa_gcm_total\<close> are what \<^verbatim>\<open>zuc_aead.c\<close> relies on,
    interpreted for \<open>vendored_aead\<close>. \<^verbatim>\<open>zucrypt_aes_gcm\<close> seals as GCM does, releases a plaintext only under the
    tag of its message, and decides every message by that tag when nothing fails.
  \<^item> \<open>Refcount\<close>, \<open>Function_Table\<close>, \<open>R_Package\<close> (\<^verbatim>\<open>zucrypt_api.c\<close>, \<^verbatim>\<open>zucrypt-r.h\<close>, \<^verbatim>\<open>zucrypt_r.c\<close>): package load,
    registration, and the table; whoever holds the table can use it.
  \<^item> \<open>Key_Handles\<close>: who owns the handles of public keys. A caller who frees what the calls report to
    have made, once, holds exactly the keys it believes to hold.
  \<^item> \<open>Link\<close> (\<^verbatim>\<open>link.c\<close>): the package that links the archive. Its entry points leave no handle behind, they
    refuse to work without the backend, and the one reference it takes is the one it returns;
    \<^verbatim>\<open>zl_derive\<close> computes the iterated digest.
  \<^item> \<open>Cbc_Mode\<close>, \<open>Psa_Cipher\<close>, \<open>Segments\<close> (\<^verbatim>\<open>aes.c\<close>, \<^verbatim>\<open>cipher.c\<close>, \<^verbatim>\<open>psa_crypto_cipher.c\<close>, the cipher functions of
    \<^verbatim>\<open>psa_crypto.c\<close>): CBC of SP 800-38A over a block function, and the vendored code path that computes it, with the
    AES block function and the key store as parameters. The locales \<open>psa_cbc_contract\<close> and
    \<open>psa_cbc_total\<close> are what the adapter relies on, interpreted for \<open>vendored_cbc\<close>. The R entry points
    compute CBC and undo each other, and \<^verbatim>\<open>zl_segments\<close> restarts the chain at each segment.
  \<^item> \<open>Probe\<close>, \<open>Exercise\<close> (\<^verbatim>\<open>probe.c\<close>): the package that goes through the table. On the arguments
    both accept it computes what \<open>Link\<close> computes; its self test, run with a \<open>collector\<close> for the outcomes of
    its checks, reports exactly those that failed; a result that R cannot allocate strands a handle.

  \<^bold>\<open>Bounds and loops.\<close> Lengths and addresses are 64-bit words and wrap as in C; theorems about
  buffers state where they must not. The chunk loop and the digest loops are total functions, and so is the
  loop that hands out derived bytes, because a block without bytes is an error of the MAC functions; the
  \<^verbatim>\<open>getrandom\<close> loop is a partial function whose result is \<open>None\<close> when it does not return. A single digest
  update below 4 GiB is a hypothesis of the stream theorems, an HMAC key, a password or salt and the seed of
  \<^verbatim>\<open>zl_derive\<close> below 4 GiB one of the theorems about them, because the vendored SHA-1 and SHA-256 count only
  the low half of a longer one, which a theorem shows. A GCM message has at most \<open>2 ^ 36 - 32\<close> bytes,
  as \<^verbatim>\<open>gcm.c\<close> checks itself, and associated data below \<open>2 ^ 61\<close> bytes, a hypothesis only of the theorem that
  a call answers.

  \<^bold>\<open>Not modelled.\<close> The rest of the vendored backend (the AES block function, CMAC, CCM, RSA and curve
  arithmetic, key store, PEM and ASN.1 readers) is the parameter \<open>P\<close>; the Arm and x86 variants of the
  digest and AES code, cloning and self tests are left out. Of GCM the processor's multiplication is a
  parameter, assumed to be the one of the field; the 8-bit table, the one-shot PSA functions, \<^verbatim>\<open>psa_aead_set_lengths\<close>
  and \<^verbatim>\<open>psa_aead_generate_nonce\<close> are left out, because the build or the adapter does not use them.
  The harness \<^verbatim>\<open>zucrypt_test.c\<close> (but for its registration table) only exercises the library; its routine
  \<^verbatim>\<open>zucrypt_test_not_ready\<close>, which stops and restarts the backend, is not a step of \<open>running\<close>.
  \<^verbatim>\<open>zuc_internal.h\<close> only declares what the models of the other files define. Out-parameters and handles live in cells of
  their own, apart from byte memory, so aliasing between them and byte buffers is not expressed.
  R's garbage collector appears only as the finalizers it runs; numbers that R code has checked to
  be whole are integers. The model is of an LP64 platform.
\<close>

section \<open>Where the documentation and the code part\<close>

text \<open>
  The header says that every function that needs the backend returns \<^verbatim>\<open>ZUC_ERR_NOT_READY\<close> outside an
  initialised window. The operations on an existing digest context do not look: they call the
  backend all the same.
\<close>

lemma zuc_hash_update_without_backend:
  assumes "w_refcount w = 0" "w_hashes w h = Some x" "h_active x" "h \<noteq> NULL" "data \<noteq> NULL" "n \<noteq> 0"
  shows "fst (run_state (zuc_hash_update P h data n) w) =
    zuc_int_from_psa (r_status (fst (P (HASH (Hash_update (mem_read (w_mem w) data n))) (h_op x) (w_psa w))))"
  using assms by (simp add: zuc_hash_update_def deref_hash_def run_psa_do set_hash_def)

text \<open>
  The header says of \<^verbatim>\<open>zuc_pkey_agree\<close> that on failure the output is zeroed. A peer on another curve,
  which it lists among the failures, leaves the output as it was.
\<close>

lemma zuc_pkey_agree_keeps_output:
  assumes "w_refcount w \<noteq> 0" "w_pkeys w key = Some k" "w_pkeys w peer = Some q" "k_type k \<noteq> k_type q"
    and "key \<noteq> NULL" "peer \<noteq> NULL" "out \<noteq> NULL" "out_len \<noteq> NULL"
    and "run_state (zuc_pkey_agree P key peer out out_size out_len) w = (st, w')"
  shows "st \<noteq> ZUC_OK \<and> w_mem w' = w_mem w"
  using assms
  by (auto simp: zuc_pkey_agree_def watched_def pkey_agree_impl_def clear_len_def run_simps word_gt_0 Let_def
      split: if_splits)

end
